(* ===== verification/Prelude.thy ===== *)
theory Prelude
  imports Main "HOL-Library.AList" "HOL-Library.List_Lexorder" "HOL-Library.Char_ord"
    "HOL-Library.Multiset" "HOL-Library.Word"
begin

text \<open>
  What every component shares: the identifiers and the clock, the error values the services
  throw, the sequencing of fallible steps (a transaction that stops at the first exception), and
  the few facts on lists, association lists and JavaScript's \<open>Set\<close> and \<open>Map\<close> that the component
  proofs use.
\<close>

section \<open>Identifiers, time, bytes\<close>

text \<open>
  Ids are the strings of the database, ordered as JavaScript orders them (code unit by code
  unit). A time is the integer of milliseconds that \<open>Date.getTime()\<close> returns. Bytes are 8-bit
  words.
\<close>

type_synonym user_id = string
type_synonym device_id = string
type_synonym conversation_id = string
type_synonym time = int
type_synonym bytes = "8 word list"

named_theorems result_simps \<open>unfold the sequencing of fallible steps\<close>

section \<open>Errors and their sequencing\<close>

text \<open>
  The exceptions of \<open>@nestjs/common\<close>, one constructor each, carrying which message was given.
  \<open>ServerError\<close> is an exception no handler maps to a client error: a plain \<open>Error\<close> or a database
  error (a unique index or a CHECK constraint refusing a row).
\<close>

datatype chat_reason =
    Conversation_is_not_pending
  | Member_is_still_being_removed
  | Cannot_apply_event_in_state
  | Membership_changed_while_running
  | Your_role_in_this_group_changed
  | Group_can_have_at_most_100_members
  | Unexpected_added_state
  | Owner_cannot_leave_before_transfer
  | Group_membership_changed
  | Group_conversation_not_found
  | You_are_not_in_this_group
  | Conversation_not_found

datatype guard_reason =
    Only_a_direct_chat_can_be_blocked
  | Group_admin_permission_required
  | Only_the_group_owner_can_do_this
  | You_already_own_this_group
  | New_owner_must_be_an_active_member
  | Use_transfer_to_change_your_own_role
  | Group_member_not_found
  | Cannot_change_role_of_group_owner
  | Use_leave_group_instead
  | You_cannot_read_this_conversation
  | Only_active_conversations_can_be_archived
  | Only_archived_conversations_can_be_unarchived

datatype mls_reason =
    Device_can_appear_only_once
  | Welcomes_to_exactly_the_added_devices
  | Cannot_add_and_remove_same_device
  | Device_cannot_add_or_remove_itself
  | No_longer_an_active_member
  | This_device_is_not_a_member_of_the_group
  | Unknown_recipient_device
  | Recipient_device_is_revoked
  | Device_is_already_in_the_group
  | User_not_authorized_to_join
  | Device_is_not_in_the_group
  | Device_is_still_authorized
  | Cannot_complete_event_in_state
  | Not_entitled_to_join
  | There_is_no_group_to_join_yet
  | Conversation_predates_membership_tracking
  | No_leaf_to_replace
  | Group_changed_while_accepting
  | No_handshake_at_epoch
  | Not_an_active_participant
  | Not_a_member_of_this_conversation
  | The_group_moved_on
  | Lost_the_race_for_this_epoch
  | Welcome_not_found_or_consumed
  | No_commit_at_that_epoch
  | No_up_to_date_snapshot
  | Unknown_welcome_cursor
  | This_device_is_not_in_the_group
  | Device_not_found
  | Device_revoked

datatype framing_reason =
    Not_a_valid_MLS_message
  | Payload_must_be_a_private_message
  | Payload_must_be_a_commit
  | Ciphertext_must_be_an_application_message
  | Welcome_payload_must_be_a_welcome
  | Group_id_does_not_match
  | Epoch_does_not_match
  | Join_must_be_a_public_message
  | Expected_a_commit_from_a_new_member
  | Join_must_have_one_external_init
  | Join_must_carry_the_joiner_leaf
  | Leaf_must_carry_a_basic_credential
  | Leaf_identity_is_not_readable
  | Join_is_not_for_this_device
  | Cannot_verify_this_join
  | Join_is_not_signed_by_this_device
  | Snapshot_carries_no_ratchet_tree
  | Removed_leaf_is_not_in_this_group
  | Join_may_only_replace_its_own_leaf
  | Expected_a_group_info
  | Group_info_signer_is_not_a_leaf
  | Group_info_signer_is_not_the_publisher
  | Group_info_signature_is_invalid
  | Unhandled_decoding_error

datatype economy_reason =
    Account_cannot_earn
  | Already_checked_in
  | User_not_found
  | Balance_below_zero

datatype moderation_reason =
    Give_a_reason
  | Community_not_found
  | Active_moderation_permission_required
  | Moderation_permission_was_removed
  | Platform_moderation_permission_required
  | Account_cannot_moderate
  | You_cannot_sanction_yourself
  | Account_unavailable
  | More_privileged_staff_must_review
  | Case_unavailable
  | Content_unavailable
  | Case_scope_no_longer_matches
  | Deleted_content_cannot_be_moderated
  | Case_does_not_match_the_target
  | Only_published_or_hidden_is_eligible
  | Platform_staff_must_review
  | Legacy_restriction
  | Content_changed_during_review
  | Only_an_active_case_can_establish
  | Incident_already_has_a_finding
  | Choose_the_matching_workspace
  | Duration_not_allowed
  | Request_key_already_used
  | Effective_sanction_already_exists
  | Choose_an_effective_violation
  | Choose_an_active_restriction
  | Sanction_unavailable
  | Expired_restrictions_remain
  | Only_effective_sanctions_can_be_adjusted
  | Adjusted_end_must_be_in_the_future
  | Finding_unavailable
  | Explain_your_appeal
  | Sanction_not_found
  | Sanction_already_revoked
  | Appeal_already_exists
  | Appeal_not_found
  | Another_moderator_must_review
  | Appeal_already_decided
  | Reversals_require_acceptance
  | Account_restricted

datatype content_reason =
    Post_not_found
  | You_can_only_change_your_own
  | Hidden_by_a_moderator
  | Comment_not_found

datatype desk_reason =
    User_unknown
  | User_account_is_not_active
  | Cannot_moderate_this_game
  | Game_not_found
  | Moderation_case_not_found
  | Platform_moderator_permission_required
  | Case_no_longer_eligible
  | Choose_an_eligible_moderator
  | Reported_content_not_found
  | Already_have_an_open_report
  | Moderation_case_changed
  | Active_admin_permission_required
  | Admin_roles_cannot_be_changed
  | Target_user_not_found
  | Only_active_users_can_change_access
  | Already_has_the_requested_access
  | Only_active_users_can_be_moderators
  | Already_a_moderator_of_this_game
  | Moderator_assignment_not_found
  | Cannot_change_your_own_status
  | Use_a_temporary_sanction
  | Cannot_change_status_of_admin
  | Deleted_account_cannot_be_moderated
  | User_already_has_status
  | User_status_changed
  | Game_slug_only_for_game_scope

datatype backup_reason =
    Invalid_size
  | Backup_already_turned_on
  | Replacing_deletes_every_blob
  | Needs_nonce_and_proof
  | No_proof_secret
  | Challenge_missing_used_or_expired
  | Proof_does_not_match
  | Backup_not_turned_on
  | Quota_exceeded
  | Blob_size
  | Not_a_participant_of_that_conversation
  | Message_not_in_its_conversation

datatype device_reason =
    Not_a_valid_key_package
  | Unsupported_ciphersuite
  | Key_package_signature_is_invalid
  | Only_basic_credentials
  | Credential_is_malformed
  | Credential_does_not_match
  | Not_signed_with_the_registered_key
  | Lifetime_out_of_bounds
  | Key_package_not_valid_yet
  | Key_package_has_expired
  | Device_id_is_already_registered
  | Device_limit_reached
  | Target_not_found
  | Not_accepting_new_messages
  | You_have_blocked_this_user
  | Only_from_people_they_follow
  | Not_an_active_member_of_this_group
  | Target_not_entitled_to_join
  | User_cannot_be_added
  | No_MLS_group_yet
  | No_available_devices
  | Challenge_is_invalid_or_expired
  | Signature_does_not_match_this_device
  | Session_not_found
  | Session_not_linked
  | Login_is_linked_to_another_device

datatype reason =
    Chat chat_reason
  | Guard guard_reason
  | Mls mls_reason
  | Framing framing_reason
  | Economy economy_reason
  | Moderation moderation_reason
  | Content content_reason
  | Desk desk_reason
  | Backup backup_reason
  | Device device_reason
  | Rate_limited
  | Unique_violation
  | Record_not_found
  | Check_violation

datatype http_error =
    BadRequest reason
  | Unauthorized reason
  | Forbidden reason
  | NotFound reason
  | Conflict reason
  | PayloadTooLarge reason
  | TooManyRequests int
  | ServerError reason

type_synonym 'a result = "http_error + 'a"

definition bind_result :: "'e + 'a \<Rightarrow> ('a \<Rightarrow> 'e + 'b) \<Rightarrow> 'e + 'b" where
  "bind_result m f = (case m of Inl e \<Rightarrow> Inl e | Inr a \<Rightarrow> f a)"

definition require :: "bool \<Rightarrow> 'e \<Rightarrow> 'e + unit" where
  "require b e = (if b then Inr () else Inl e)"

lemma bind_result_simps [simp, result_simps]:
  "bind_result (Inl e) f = Inl e"
  "bind_result (Inr a) f = f a"
  by (simp_all add: bind_result_def)

lemma bind_result_Inr_iff [result_simps]:
  "bind_result m f = Inr y \<longleftrightarrow> (\<exists>x. m = Inr x \<and> f x = Inr y)"
  by (cases m) auto

lemma bind_result_Inl_iff [result_simps]:
  "bind_result m f = Inl e \<longleftrightarrow> m = Inl e \<or> (\<exists>x. m = Inr x \<and> f x = Inl e)"
  by (cases m) auto

lemma bind_resultE:
  assumes "bind_result m f = Inr y"
  obtains x where "m = Inr x" and "f x = Inr y"
  using assms by (auto simp: bind_result_Inr_iff)

lemma require_Inr [simp, result_simps]: "require b e = Inr u \<longleftrightarrow> b"
  by (simp add: require_def)

lemma require_Inl [simp, result_simps]: "require b e = Inl e' \<longleftrightarrow> \<not> b \<and> e' = e"
  by (auto simp: require_def)

text \<open>A loop whose body may throw: the first element that fails decides the error.\<close>

fun each :: "('a \<Rightarrow> 'e + unit) \<Rightarrow> 'a list \<Rightarrow> 'e + unit" where
  "each f [] = Inr ()"
| "each f (x # xs) = bind_result (f x) (\<lambda>_. each f xs)"

lemma each_Inr [result_simps]: "each f xs = Inr u \<longleftrightarrow> (\<forall>x \<in> set xs. f x = Inr ())"
  by (induction xs) (auto simp: bind_result_Inr_iff)

section \<open>JavaScript sets and maps\<close>

text \<open>
  \<open>[...new Set(xs)]\<close>: the first occurrence of every element, in order. \<open>new Map(pairs)\<close> keeps the
  position of the first pair of a key and the value of its last, which is what updating an
  association list from left to right does.
\<close>

definition js_set :: "'a list \<Rightarrow> 'a list" where
  "js_set xs = rev (remdups (rev xs))"

definition js_map :: "('k \<times> 'v) list \<Rightarrow> ('k \<times> 'v) list" where
  "js_map ps = foldl (\<lambda>m p. AList.update (fst p) (snd p) m) [] ps"

lemma set_js_set [simp]: "set (js_set xs) = set xs"
  by (simp add: js_set_def)

lemma distinct_js_set [simp]: "distinct (js_set xs)"
  by (simp add: js_set_def)

lemma js_set_id: "distinct xs \<Longrightarrow> js_set xs = xs"
  by (simp add: js_set_def distinct_remdups_id)

lemma js_map_snoc: "js_map (ps @ [p]) = AList.update (fst p) (snd p) (js_map ps)"
  by (simp add: js_map_def)

lemma distinct_js_map [simp]: "distinct (map fst (js_map ps))"
proof (induction ps rule: rev_induct)
  case Nil
  then show ?case by (simp add: js_map_def)
next
  case (snoc p ps)
  then show ?case by (simp add: js_map_snoc distinct_update)
qed

lemma map_of_js_map: "map_of (js_map ps) = map_of (rev ps)"
proof (induction ps rule: rev_induct)
  case Nil
  then show ?case by (simp add: js_map_def)
next
  case (snoc p ps)
  then show ?case by (cases p) (simp add: js_map_snoc update_conv')
qed

lemma keys_js_map [simp]: "fst ` set (js_map ps) = fst ` set ps"
  by (metis dom_map_of_conv_image_fst map_of_js_map set_rev)

lemma set_js_map_subset: "set (js_map ps) \<subseteq> set ps"
proof
  fix p assume "p \<in> set (js_map ps)"
  then have "map_of (js_map ps) (fst p) = Some (snd p)"
    using map_of_is_SomeI [OF distinct_js_map, of "fst p" "snd p" ps] by simp
  then have "(fst p, snd p) \<in> set (rev ps)"
    unfolding map_of_js_map by (rule map_of_SomeD)
  then show "p \<in> set ps" by simp
qed

lemma js_map_id: "distinct (map fst ps) \<Longrightarrow> js_map ps = ps"
proof (induction ps rule: rev_induct)
  case Nil
  then show ?case by (simp add: js_map_def)
next
  case (snoc p ps)
  have upd: "fst p \<notin> set (map fst qs) \<Longrightarrow> AList.update (fst p) (snd p) qs = qs @ [p]" for qs
    by (induction qs) auto
  from snoc show ?case by (simp add: js_map_snoc upd)
qed

section \<open>Association lists as tables with a unique key\<close>

lemma map_of_update [simp]: "map_of (AList.update k v al) = (map_of al)(k \<mapsto> v)"
  by (rule update_conv')

lemma fst_set_update [simp]: "fst ` set (AList.update k v al) = insert k (fst ` set al)"
  by (simp only: list.set_map [symmetric] update_keys) auto

section \<open>Sorting by a comparison\<close>

text \<open>
  \<open>Array.prototype.sort\<close> with a comparison is stable; a stable insertion sort gives the same list
  for every comparison that is a total preorder.
\<close>

fun insert_by :: "('a \<Rightarrow> 'a \<Rightarrow> bool) \<Rightarrow> 'a \<Rightarrow> 'a list \<Rightarrow> 'a list" where
  "insert_by le x [] = [x]"
| "insert_by le x (y # ys) = (if le x y then x # y # ys else y # insert_by le x ys)"

definition sort_by :: "('a \<Rightarrow> 'a \<Rightarrow> bool) \<Rightarrow> 'a list \<Rightarrow> 'a list" where
  "sort_by le xs = foldr (insert_by le) xs []"

lemma mset_insert_by: "mset (insert_by le x xs) = add_mset x (mset xs)"
  by (induction xs) auto

lemma mset_sort_by [simp]: "mset (sort_by le xs) = mset xs"
  by (induction xs) (auto simp: sort_by_def mset_insert_by)

lemma set_sort_by [simp]: "set (sort_by le xs) = set xs"
  by (metis mset_sort_by set_mset_mset)

lemma length_sort_by [simp]: "length (sort_by le xs) = length xs"
  by (metis mset_sort_by size_mset)

lemma distinct_sort_by [simp]: "distinct (sort_by le xs) = distinct xs"
  by (metis mset_sort_by mset_eq_imp_distinct_iff)

lemma sorted_insert_by:
  assumes total: "\<And>a b. le a b \<or> le b a" and trans: "\<And>a b c. le a b \<Longrightarrow> le b c \<Longrightarrow> le a c"
    and "sorted_wrt le xs"
  shows "sorted_wrt le (insert_by le x xs)"
  using assms(3)
proof (induction xs)
  case Nil
  then show ?case by simp
next
  case (Cons y ys)
  have "set (insert_by le x ys) = insert x (set ys)"
    by (metis mset_insert_by set_mset_add_mset_insert set_mset_mset)
  with Cons total trans show ?case by (auto; blast)
qed

lemma sorted_sort_by:
  assumes "\<And>a b. le a b \<or> le b a" and "\<And>a b c. le a b \<Longrightarrow> le b c \<Longrightarrow> le a c"
  shows "sorted_wrt le (sort_by le xs)"
  by (induction xs) (auto simp: sort_by_def intro: sorted_insert_by [OF assms])

section \<open>State machines\<close>

text \<open>
  The contract of a component whose state is changed by steps: what holds at first and is kept by
  every step holds in every state the steps reach; what never decreases in a step never decreases.
\<close>

locale state_machine =
  fixes init :: "'s \<Rightarrow> bool" and step :: "'s \<Rightarrow> 's \<Rightarrow> bool" and inv :: "'s \<Rightarrow> bool"
  assumes inv_init: "init s \<Longrightarrow> inv s"
    and inv_step: "inv s \<Longrightarrow> step s t \<Longrightarrow> inv t"
begin

lemma inv_steps: "step\<^sup>*\<^sup>* s t \<Longrightarrow> inv s \<Longrightarrow> inv t"
  by (induction rule: rtranclp_induct) (auto intro: inv_step)

lemma inv_reachable: "init s \<Longrightarrow> step\<^sup>*\<^sup>* s t \<Longrightarrow> inv t"
  by (rule inv_steps) (auto intro: inv_init)

end

locale growing_machine = state_machine +
  fixes le :: "'s \<Rightarrow> 's \<Rightarrow> bool"
  assumes le_refl: "le s s"
    and le_trans: "le r s \<Longrightarrow> le s t \<Longrightarrow> le r t"
    and le_step: "inv s \<Longrightarrow> step s t \<Longrightarrow> le s t"
begin

lemma grows: "step\<^sup>*\<^sup>* s t \<Longrightarrow> inv s \<Longrightarrow> le s t"
proof (induction rule: rtranclp_induct)
  case base
  show ?case by (rule le_refl)
next
  case (step t u)
  from step.hyps(2) inv_steps [OF step.hyps(1) step.prems] have "le t u" by (rule le_step [rotated])
  with step.IH [OF step.prems] show ?case by (rule le_trans)
qed

lemma grows_reachable: "init r \<Longrightarrow> step\<^sup>*\<^sup>* r s \<Longrightarrow> step\<^sup>*\<^sup>* s t \<Longrightarrow> le s t"
  using grows inv_reachable by blast

end

end
