(* ===== verification/Membership_Machine.thy ===== *)
theory Membership_Machine
  imports Prelude
begin

text \<open>
  The participant state machine of \<open>backend/src/chat/membership/membership-state-machine.ts\<close> and
  the entitlement predicates of \<open>leaf-entitlement.ts\<close>: the states, the events, the transition
  table row by row, and its collapse for a conversation without an MLS group.
\<close>

section \<open>States, events, outcomes\<close>

datatype participant_state =
    PENDING | JOINING | ACTIVE | ARCHIVED | BLOCKED | LEAVING | DECLINED

datatype membership_event =
    ADD_DIRECT | ADD_INVITE | ACCEPT_INVITE | DECLINE_INVITE | EXPIRE_INVITE | REMOVE
  | COMMIT_ADDED | COMMIT_REMOVED | GROUP_ACTIVATED

text \<open>\<open>MembershipFrom\<close>: a state, or no participant row yet (\<open>'NONE'\<close>).\<close>

datatype membership_from = NONE | From participant_state

datatype membership_transition = Change participant_state | Noop | Illegal

datatype outcome = Goes participant_state | Stays

section \<open>The transition table\<close>

text \<open>\<open>MLS_TRANSITIONS\<close>, one equation per listed entry; what is not listed is \<open>undefined\<close>.\<close>

fun mls_transitions :: "membership_event \<Rightarrow> membership_from \<Rightarrow> outcome option" where
  "mls_transitions ADD_DIRECT NONE = Some (Goes JOINING)"
| "mls_transitions ADD_DIRECT (From DECLINED) = Some (Goes JOINING)"
| "mls_transitions ADD_DIRECT (From PENDING) = Some (Goes JOINING)"
| "mls_transitions ADD_DIRECT (From LEAVING) = Some (Goes ACTIVE)"
| "mls_transitions ADD_DIRECT (From JOINING) = Some Stays"
| "mls_transitions ADD_DIRECT (From ACTIVE) = Some Stays"
| "mls_transitions ADD_DIRECT (From ARCHIVED) = Some Stays"
| "mls_transitions ADD_DIRECT (From BLOCKED) = Some Stays"
| "mls_transitions ADD_INVITE NONE = Some (Goes PENDING)"
| "mls_transitions ADD_INVITE (From DECLINED) = Some (Goes PENDING)"
| "mls_transitions ADD_INVITE (From LEAVING) = Some (Goes PENDING)"
| "mls_transitions ADD_INVITE (From PENDING) = Some Stays"
| "mls_transitions ADD_INVITE (From JOINING) = Some Stays"
| "mls_transitions ADD_INVITE (From ACTIVE) = Some Stays"
| "mls_transitions ADD_INVITE (From ARCHIVED) = Some Stays"
| "mls_transitions ADD_INVITE (From BLOCKED) = Some Stays"
| "mls_transitions ACCEPT_INVITE (From PENDING) = Some (Goes JOINING)"
| "mls_transitions DECLINE_INVITE (From PENDING) = Some (Goes LEAVING)"
| "mls_transitions EXPIRE_INVITE (From PENDING) = Some (Goes LEAVING)"
| "mls_transitions REMOVE NONE = Some Stays"
| "mls_transitions REMOVE (From PENDING) = Some (Goes LEAVING)"
| "mls_transitions REMOVE (From JOINING) = Some (Goes DECLINED)"
| "mls_transitions REMOVE (From ACTIVE) = Some (Goes LEAVING)"
| "mls_transitions REMOVE (From ARCHIVED) = Some (Goes LEAVING)"
| "mls_transitions REMOVE (From BLOCKED) = Some (Goes LEAVING)"
| "mls_transitions REMOVE (From LEAVING) = Some Stays"
| "mls_transitions REMOVE (From DECLINED) = Some Stays"
| "mls_transitions COMMIT_ADDED (From PENDING) = Some Stays"
| "mls_transitions COMMIT_ADDED (From JOINING) = Some (Goes ACTIVE)"
| "mls_transitions COMMIT_ADDED (From ACTIVE) = Some Stays"
| "mls_transitions COMMIT_ADDED (From ARCHIVED) = Some Stays"
| "mls_transitions COMMIT_ADDED (From BLOCKED) = Some Stays"
| "mls_transitions COMMIT_REMOVED (From LEAVING) = Some (Goes DECLINED)"
| "mls_transitions COMMIT_REMOVED (From DECLINED) = Some Stays"
| "mls_transitions GROUP_ACTIVATED (From ACTIVE) = Some (Goes JOINING)"
| "mls_transitions GROUP_ACTIVATED (From ARCHIVED) = Some Stays"
| "mls_transitions GROUP_ACTIVATED (From BLOCKED) = Some Stays"
| "mls_transitions GROUP_ACTIVATED (From PENDING) = Some Stays"
| "mls_transitions GROUP_ACTIVATED (From JOINING) = Some Stays"
| "mls_transitions GROUP_ACTIVATED (From LEAVING) = Some Stays"
| "mls_transitions GROUP_ACTIVATED (From DECLINED) = Some Stays"
| "mls_transitions _ _ = None"

text \<open>\<open>COLLAPSED_WHEN_NOT_MLS[outcome] ?? outcome\<close>.\<close>

fun collapsed_when_not_mls :: "participant_state \<Rightarrow> participant_state" where
  "collapsed_when_not_mls JOINING = ACTIVE"
| "collapsed_when_not_mls LEAVING = DECLINED"
| "collapsed_when_not_mls s = s"

definition mls_only_events :: "membership_event list" where
  "mls_only_events = [COMMIT_ADDED, COMMIT_REMOVED, GROUP_ACTIVATED]"

text \<open>The keys a row of the table can have, to read \<open>Object.keys(MLS_TRANSITIONS[event])\<close>.\<close>

definition all_froms :: "membership_from list" where
  "all_froms = [NONE, From PENDING, From JOINING, From ACTIVE, From ARCHIVED, From BLOCKED,
     From LEAVING, From DECLINED]"

definition is_answer_to_invite :: "membership_event \<Rightarrow> bool" where
  "is_answer_to_invite event =
     (let legal_from = filter (\<lambda>f. mls_transitions event f \<noteq> None) all_froms
      in length legal_from = 1 \<and> hd legal_from = From PENDING)"

definition resolve_membership_transition ::
    "membership_from \<Rightarrow> membership_event \<Rightarrow> bool \<Rightarrow> membership_transition" where
  "resolve_membership_transition from event mls_active =
     (if \<not> mls_active \<and> event \<in> set mls_only_events then Illegal
      else case mls_transitions event from of
        None \<Rightarrow> Illegal
      | Some Stays \<Rightarrow> Noop
      | Some (Goes outcome) \<Rightarrow>
          (let to = (if mls_active then outcome else collapsed_when_not_mls outcome)
           in if From to = from then Noop else Change to))"

section \<open>Entitlement to a leaf\<close>

definition entitled_to_leaf_states :: "participant_state list" where
  "entitled_to_leaf_states = [PENDING, JOINING, ACTIVE, ARCHIVED, BLOCKED]"

definition is_entitled_to_leaf :: "participant_state option \<Rightarrow> bool" where
  "is_entitled_to_leaf st = (case st of None \<Rightarrow> False | Some s \<Rightarrow> s \<in> set entitled_to_leaf_states)"

definition is_leaf_removable :: "participant_state option \<Rightarrow> bool \<Rightarrow> bool" where
  "is_leaf_removable owner_state device_is_gone =
     (device_is_gone \<or> \<not> is_entitled_to_leaf owner_state)"

definition member_states :: "participant_state list" where
  "member_states = [ACTIVE, ARCHIVED, BLOCKED]"

definition is_member_state :: "participant_state option \<Rightarrow> bool" where
  "is_member_state st = (case st of None \<Rightarrow> False | Some s \<Rightarrow> s \<in> set member_states)"

section \<open>Facts the other components use\<close>

lemma entitled_iff [simp]:
  "is_entitled_to_leaf None \<longleftrightarrow> False"
  "is_entitled_to_leaf (Some s) \<longleftrightarrow> s \<noteq> LEAVING \<and> s \<noteq> DECLINED"
  by (cases s; simp add: is_entitled_to_leaf_def entitled_to_leaf_states_def)+

lemma member_state_iff [simp]:
  "is_member_state None \<longleftrightarrow> False"
  "is_member_state (Some s) \<longleftrightarrow> s = ACTIVE \<or> s = ARCHIVED \<or> s = BLOCKED"
  by (auto simp: is_member_state_def member_states_def)

text \<open>What the app-level events and the Commit events do, read off the table once.\<close>

lemma resolve_change_neq:
  "resolve_membership_transition (From s) e mls = Change t \<Longrightarrow> t \<noteq> s"
  by (auto simp: resolve_membership_transition_def Let_def split: option.splits outcome.splits if_splits)

lemma collapsed_idem [simp]:
  "collapsed_when_not_mls (collapsed_when_not_mls s) = collapsed_when_not_mls s"
  by (cases s) auto

lemma collapsed_settled [simp]:
  "collapsed_when_not_mls s \<noteq> JOINING" "collapsed_when_not_mls s \<noteq> LEAVING"
  by (cases s; simp)+

end
