(* ===== verification/Chat_State.thy ===== *)
theory Chat_State
  imports Membership_Machine
begin

text \<open>
  The rows of one conversation (\<open>backend/prisma/schema.prisma\<close>: ChatConversation, ChatParticipant,
  ChatMembershipRound, MlsGroupMember, MlsHandshake, MlsWelcome, MlsGroupInfo, MlsCommitFault) and
  the roster queries of \<open>mls-group-roster.repository.ts\<close>. Every query of the code filters by one
  conversation id, so a conversation is a record of its own rows; \<open>cv_group\<close> is \<open>type = 'GROUP'\<close>. A table with a unique key is an
  association list; a unique index or a CHECK constraint that refuses a row is a
  \<open>ServerError\<close> of the operation that writes it.
\<close>

section \<open>Participants and membership rounds\<close>

datatype participant_role = OWNER | ADMIN | MEMBER

record participant =
  pt_role :: participant_role
  pt_state :: participant_state
  pt_pendingSince :: "time option"
  pt_archivedAt :: "time option"
  pt_deletedAt :: "time option"

record membership_round =
  rd_user :: user_id
  rd_invitedAt :: "time option"
  rd_joinedAt :: "time option"
  rd_createdAt :: time

section \<open>The MLS rows\<close>

record leaf_row =
  lf_device :: device_id
  lf_user :: user_id
  lf_added :: nat
  lf_removed :: "nat option"

record added_device =
  ad_device :: device_id
  ad_user :: user_id
  ad_key :: string

record removed_device =
  rm_device :: device_id
  rm_user :: user_id

record handshake =
  hs_epoch :: nat
  hs_sender :: "device_id option"
  hs_payload :: bytes
  hs_sha256 :: string
  hs_declared :: bool
  hs_added :: "added_device list"
  hs_removed :: "removed_device list"

record welcome_row =
  wl_recipient :: device_id
  wl_payload :: bytes
  wl_consumedAt :: "time option"

record commit_fault =
  cf_epoch :: nat
  cf_sender :: "device_id option"
  cf_reporter :: device_id
  cf_reason :: string

record conversation =
  cv_group :: bool
  cv_epoch :: nat
  cv_parts :: "(user_id \<times> participant) list"
  cv_rounds :: "membership_round list"
  cv_roster :: "leaf_row list"
  cv_handshakes :: "handshake list"
  cv_groupInfo :: "(nat \<times> bytes) option"
  cv_welcomes :: "welcome_row list"
  cv_faults :: "commit_fault list"
  cv_leaseDevice :: "device_id option"
  cv_leaseUntil :: "time option"

text \<open>The device registry (ChatDevice), shared by every conversation.\<close>

record device_fact =
  dv_user :: user_id
  dv_revokedAt :: "time option"
  dv_key :: bytes

type_synonym registry = "(device_id \<times> device_fact) list"

definition state_of :: "conversation \<Rightarrow> user_id \<Rightarrow> participant_state option" where
  "state_of cv u = map_option pt_state (map_of (cv_parts cv) u)"

section \<open>Roster queries\<close>

definition has_roster :: "conversation \<Rightarrow> bool" where
  "has_roster cv \<longleftrightarrow> cv_roster cv \<noteq> []"

definition live :: "leaf_row \<Rightarrow> bool" where
  "live l \<longleftrightarrow> lf_removed l = None"

definition find_active_leaves :: "conversation \<Rightarrow> (device_id \<times> user_id) list" where
  "find_active_leaves cv = map (\<lambda>l. (lf_device l, lf_user l)) (filter live (cv_roster cv))"

definition leaf_at :: "nat \<Rightarrow> leaf_row \<Rightarrow> bool" where
  "leaf_at e l \<longleftrightarrow> lf_added l \<le> e \<and> (case lf_removed l of None \<Rightarrow> True | Some r \<Rightarrow> e < r)"

definition find_leaves_at_epoch :: "conversation \<Rightarrow> nat \<Rightarrow> (device_id \<times> user_id) list" where
  "find_leaves_at_epoch cv e = map (\<lambda>l. (lf_device l, lf_user l)) (filter (leaf_at e) (cv_roster cv))"

text \<open>
  \<open>addLeaves\<close>: one INSERT of all the rows. The partial unique index
  \<open>mls_group_members_active_device_key\<close> refuses a device that is already a live leaf, in the table
  or in the same INSERT.
\<close>

definition add_leaves ::
    "(device_id \<times> user_id) list \<Rightarrow> nat \<Rightarrow> conversation \<Rightarrow> conversation result" where
  "add_leaves leaves added cv =
     (if leaves = [] then Inr cv
      else if distinct (map fst leaves)
          \<and> (\<forall>l \<in> set leaves. fst l \<notin> fst ` set (find_active_leaves cv))
      then Inr (cv\<lparr>cv_roster := cv_roster cv @
        map (\<lambda>l. \<lparr>lf_device = fst l, lf_user = snd l, lf_added = added, lf_removed = None\<rparr>) leaves\<rparr>)
      else Inl (ServerError Unique_violation))"

text \<open>
  \<open>removeLeaves\<close>: returns how many live rows it matched. \<open>mls_group_members_epochs_check\<close> refuses a
  row whose \<open>removedEpoch\<close> is not after its \<open>addedEpoch\<close>.
\<close>

definition remove_leaves ::
    "device_id list \<Rightarrow> nat \<Rightarrow> conversation \<Rightarrow> (conversation \<times> nat) result" where
  "remove_leaves ids removed cv =
     (if ids = [] then Inr (cv, 0)
      else let hit = (\<lambda>l. lf_device l \<in> set ids \<and> live l);
               rows = filter hit (cv_roster cv)
           in if \<forall>l \<in> set rows. lf_added l < removed
              then Inr (cv\<lparr>cv_roster := map (\<lambda>l. if hit l then l\<lparr>lf_removed := Some removed\<rparr> else l)
                             (cv_roster cv)\<rparr>, length rows)
              else Inl (ServerError Check_violation))"

section \<open>Facts about the roster\<close>

lemma fst_active_leaves:
  "fst ` set (find_active_leaves cv) = {lf_device l |l. l \<in> set (cv_roster cv) \<and> live l}"
  by (force simp: find_active_leaves_def)

lemma in_active_leaves:
  "(d, u) \<in> set (find_active_leaves cv) \<longleftrightarrow>
     (\<exists>l \<in> set (cv_roster cv). live l \<and> lf_device l = d \<and> lf_user l = u)"
  by (auto simp: find_active_leaves_def)

lemma active_leaves_cong: "cv_roster cv = cv_roster cv' \<Longrightarrow> find_active_leaves cv = find_active_leaves cv'"
  by (simp add: find_active_leaves_def)

text \<open>Everything but the roster is left alone by the roster writes.\<close>

lemma add_leaves_frame:
  "add_leaves ls e cv = Inr cv' \<Longrightarrow> cv' = cv\<lparr>cv_roster := cv_roster cv'\<rparr>"
  by (auto simp: add_leaves_def split: if_splits)

lemma remove_leaves_frame:
  "remove_leaves ids e cv = Inr (cv', n) \<Longrightarrow> cv' = cv\<lparr>cv_roster := cv_roster cv'\<rparr>"
  by (auto simp: remove_leaves_def Let_def split: if_splits)

lemma add_leaves_active:
  assumes "add_leaves ls e cv = Inr cv'"
  shows "find_active_leaves cv' = find_active_leaves cv @ ls"
proof (cases "ls = []")
  case True
  with assms show ?thesis by (simp add: add_leaves_def)
next
  case False
  have "map (\<lambda>l. (lf_device l, lf_user l)) (filter live
      (map (\<lambda>l. \<lparr>lf_device = fst l, lf_user = snd l, lf_added = e, lf_removed = None\<rparr>) ls)) = ls"
    by (induction ls) (auto simp: live_def)
  with assms False show ?thesis
    by (auto simp: add_leaves_def find_active_leaves_def split: if_splits)
qed

lemma remove_leaves_active:
  assumes "remove_leaves ids e cv = Inr (cv', n)"
  shows "find_active_leaves cv' = filter (\<lambda>l. fst l \<notin> set ids) (find_active_leaves cv)"
    and "n = length (filter (\<lambda>l. fst l \<in> set ids) (find_active_leaves cv))"
proof -
  have keep: "map (\<lambda>l. (lf_device l, lf_user l)) (filter live
      (map (\<lambda>l. if lf_device l \<in> set ids \<and> live l then l\<lparr>lf_removed := Some e\<rparr> else l) rs))
    = filter (\<lambda>l. fst l \<notin> set ids) (map (\<lambda>l. (lf_device l, lf_user l)) (filter live rs))" for rs
    by (induction rs) (auto simp: live_def)
  have hit: "length (filter (\<lambda>l. lf_device l \<in> set ids \<and> live l) rs)
    = length (filter (\<lambda>l. fst l \<in> set ids) (map (\<lambda>l. (lf_device l, lf_user l)) (filter live rs)))" for rs
    by (induction rs) auto
  show "find_active_leaves cv' = filter (\<lambda>l. fst l \<notin> set ids) (find_active_leaves cv)"
    using assms keep by (auto simp: remove_leaves_def Let_def find_active_leaves_def split: if_splits)
  show "n = length (filter (\<lambda>l. fst l \<in> set ids) (find_active_leaves cv))"
    using assms hit by (auto simp: remove_leaves_def Let_def find_active_leaves_def split: if_splits)
qed

end
