(* ===== verification/Membership_Plan.thy ===== *)
theory Membership_Plan
  imports Chat_State
begin

text \<open>
  \<open>backend/src/chat/membership/plan-membership-changes.ts\<close> and \<open>apply-participant-transitions.ts\<close>:
  what a list of requested events does to a list of participants, and how the resulting state
  changes are written, each conditional on the state that was read.
\<close>

section \<open>Planning\<close>

record membership_request =
  rq_user :: user_id
  rq_event :: membership_event

record participant_row =
  pr_user :: user_id
  pr_state :: participant_state
  pr_role :: participant_role

record participant_transition =
  tr_user :: user_id
  tr_from :: "participant_state option"
  tr_to :: participant_state

datatype on_illegal = Throw | Skip

definition illegal_message :: "membership_event \<Rightarrow> participant_state option \<Rightarrow> reason" where
  "illegal_message event st =
     (if is_answer_to_invite event then Chat Conversation_is_not_pending
      else if st = Some LEAVING then Chat Member_is_still_being_removed
      else Chat Cannot_apply_event_in_state)"

text \<open>\<open>AppMembershipEvent\<close>: the events a caller may request.\<close>

definition app_event :: "membership_event \<Rightarrow> bool" where
  "app_event e \<longleftrightarrow> e \<notin> {COMMIT_ADDED, COMMIT_REMOVED, GROUP_ACTIVATED}"

text \<open>One request: the transition the loop body settles on.\<close>

definition planned_transition ::
    "membership_from \<Rightarrow> membership_event \<Rightarrow> bool \<Rightarrow> bool \<Rightarrow> membership_transition" where
  "planned_transition from event mls_active has_leaf =
     (let transition = resolve_membership_transition from event mls_active;
          no_commit_needed = (case transition of
              Change to \<Rightarrow> (to = LEAVING \<and> \<not> has_leaf) \<or> (to = JOINING \<and> has_leaf)
            | _ \<Rightarrow> False)
      in if no_commit_needed then resolve_membership_transition from event False else transition)"

fun plan_membership_changes ::
    "membership_request list \<Rightarrow> participant_row list \<Rightarrow> bool \<Rightarrow> user_id list \<Rightarrow> on_illegal
      \<Rightarrow> participant_transition list result" where
  "plan_membership_changes [] parts mls_active with_leaves on_ill = Inr []"
| "plan_membership_changes (r # rs) parts mls_active with_leaves on_ill =
     (let participant = map_of (js_map (map (\<lambda>p. (pr_user p, p)) parts)) (rq_user r);
          rest = plan_membership_changes rs parts mls_active with_leaves on_ill
      in if map_option pr_role participant = Some OWNER \<and> rq_event r = REMOVE then rest
         else
           let st = map_option pr_state participant;
               from = (case st of None \<Rightarrow> NONE | Some s \<Rightarrow> From s);
               has_leaf = rq_user r \<in> set with_leaves
           in case planned_transition from (rq_event r) mls_active has_leaf of
                Illegal \<Rightarrow>
                  (if on_ill = Skip then rest
                   else Inl (BadRequest (illegal_message (rq_event r) st)))
              | Noop \<Rightarrow> rest
              | Change to \<Rightarrow>
                  bind_result rest
                    (\<lambda>cs. Inr (\<lparr>tr_user = rq_user r, tr_from = st, tr_to = to\<rparr> # cs)))"

section \<open>Writing a transition\<close>

text \<open>\<open>pendingSinceChange\<close>: \<open>None\<close> leaves the column alone, \<open>Some v\<close> writes \<open>v\<close>.\<close>

definition pending_since_change ::
    "participant_state option \<Rightarrow> participant_state \<Rightarrow> time \<Rightarrow> time option option" where
  "pending_since_change from to now =
     (if to = PENDING then (if from = Some PENDING then None else Some (Some now))
      else if from = Some PENDING then Some None else None)"

datatype round_kind = Invite | Accept | Join

definition round_change :: "participant_state option \<Rightarrow> participant_state \<Rightarrow> round_kind option" where
  "round_change from to =
     (if to = PENDING then (if from = Some PENDING then None else Some Invite)
      else if to \<noteq> ACTIVE \<and> to \<noteq> JOINING then None
      else if from = Some PENDING then Some Accept
      else if from = None \<or> from = Some DECLINED then Some Join else None)"

definition new_round :: "user_id \<Rightarrow> round_kind \<Rightarrow> time \<Rightarrow> membership_round" where
  "new_round u change now =
     \<lparr>rd_user = u,
      rd_invitedAt = (if change = Invite then Some now else None),
      rd_joinedAt = (if change = Invite then None else Some now),
      rd_createdAt = now\<rparr>"

text \<open>\<open>firstRound\<close>: the round a new participant row starts with.\<close>

definition first_round :: "user_id \<Rightarrow> participant_state \<Rightarrow> time \<Rightarrow> membership_round list" where
  "first_round u st now =
     (case round_change None st of None \<Rightarrow> [] | Some change \<Rightarrow> [new_round u change now])"

text \<open>
  The newest round of a user (\<open>orderBy createdAt desc\<close>): its position, the later row when two have
  the same time.
\<close>

definition latest_round :: "user_id \<Rightarrow> membership_round list \<Rightarrow> nat option" where
  "latest_round u rs =
     foldl (\<lambda>best i. case best of
          None \<Rightarrow> Some i
        | Some j \<Rightarrow> if rd_createdAt (rs ! j) \<le> rd_createdAt (rs ! i) then Some i else Some j)
       None (filter (\<lambda>i. rd_user (rs ! i) = u) [0..<length rs])"

definition record_round ::
    "user_id \<Rightarrow> round_kind option \<Rightarrow> time \<Rightarrow> conversation \<Rightarrow> conversation" where
  "record_round u change now cv =
     (case change of
        None \<Rightarrow> cv
      | Some k \<Rightarrow>
          (case (if k = Accept then latest_round u (cv_rounds cv) else None) of
             Some i \<Rightarrow>
               (if rd_invitedAt (cv_rounds cv ! i) \<noteq> None \<and> rd_joinedAt (cv_rounds cv ! i) = None
                then cv\<lparr>cv_rounds := (cv_rounds cv)[i := (cv_rounds cv ! i)\<lparr>rd_joinedAt := Some now\<rparr>]\<rparr>
                else cv\<lparr>cv_rounds := cv_rounds cv @ [new_round u k now]\<rparr>)
           | None \<Rightarrow> cv\<lparr>cv_rounds := cv_rounds cv @ [new_round u k now]\<rparr>))"

text \<open>The row a transition creates, and the row it leaves in place of an existing one.\<close>

definition created_participant :: "participant_transition \<Rightarrow> time \<Rightarrow> participant" where
  "created_participant c now =
     \<lparr>pt_role = MEMBER, pt_state = tr_to c,
      pt_pendingSince = (case pending_since_change (tr_from c) (tr_to c) now of
                           None \<Rightarrow> None | Some v \<Rightarrow> v),
      pt_archivedAt = None, pt_deletedAt = None\<rparr>"

definition updated_participant :: "participant_transition \<Rightarrow> time \<Rightarrow> participant \<Rightarrow> participant" where
  "updated_participant c now p =
     (let p1 = p\<lparr>pt_state := tr_to c,
                 pt_pendingSince := (case pending_since_change (tr_from c) (tr_to c) now of
                                       None \<Rightarrow> pt_pendingSince p | Some v \<Rightarrow> v)\<rparr>
      in if tr_from c = Some DECLINED \<or> (tr_from c = Some LEAVING \<and> tr_to c = PENDING)
         then p1\<lparr>pt_role := MEMBER, pt_deletedAt := None, pt_archivedAt := None\<rparr> else p1)"

text \<open>
  The conditional write of one change: \<open>Some\<close> of the new table when exactly the state that was read
  is still there (or no row, for an INSERT with \<open>skipDuplicates\<close>), \<open>None\<close> when it matched nothing.
\<close>

definition write_participant ::
    "participant_transition \<Rightarrow> time \<Rightarrow> (user_id \<times> participant) list
      \<Rightarrow> (user_id \<times> participant) list option" where
  "write_participant c now parts =
     (case (tr_from c, map_of parts (tr_user c)) of
        (None, None) \<Rightarrow> Some (parts @ [(tr_user c, created_participant c now)])
      | (Some s, Some p) \<Rightarrow>
          (if pt_state p = s then Some (AList.update (tr_user c) (updated_participant c now p) parts)
           else None)
      | _ \<Rightarrow> None)"

fun apply_participant_transitions ::
    "time \<Rightarrow> participant_transition list \<Rightarrow> conversation \<Rightarrow> conversation result" where
  "apply_participant_transitions now [] cv = Inr cv"
| "apply_participant_transitions now (c # cs) cv =
     (case write_participant c now (cv_parts cv) of
        None \<Rightarrow> Inl (Conflict (Chat Membership_changed_while_running))
      | Some parts \<Rightarrow>
          apply_participant_transitions now cs
            (record_round (tr_user c) (round_change (tr_from c) (tr_to c)) now
              (cv\<lparr>cv_parts := parts\<rparr>)))"

section \<open>Facts about planning\<close>

text \<open>
  The plan's result, request by request: who it changes, from what, to what, and that an owner is
  never removed by it.
\<close>

definition row_state :: "participant_row list \<Rightarrow> user_id \<Rightarrow> participant_state option" where
  "row_state parts u = map_option pr_state (map_of (js_map (map (\<lambda>p. (pr_user p, p)) parts)) u)"

definition from_of :: "participant_state option \<Rightarrow> membership_from" where
  "from_of st = (case st of None \<Rightarrow> NONE | Some s \<Rightarrow> From s)"

lemma from_of_simps [simp]: "from_of None = NONE" "from_of (Some s) = From s"
  by (simp_all add: from_of_def)

lemma planned_change_neq: "planned_transition (From s) e mls hl = Change t \<Longrightarrow> t \<noteq> s"
  by (auto simp: planned_transition_def Let_def dest: resolve_change_neq
      split: membership_transition.splits if_splits)

lemma plan_ConsE:
  assumes "plan_membership_changes (r # rs) parts mls wl oi = Inr cs"
  obtains rest where "plan_membership_changes rs parts mls wl oi = Inr rest" and "cs = rest"
  | rest to where "plan_membership_changes rs parts mls wl oi = Inr rest"
      and "cs = \<lparr>tr_user = rq_user r, tr_from = row_state parts (rq_user r), tr_to = to\<rparr> # rest"
      and "planned_transition (from_of (row_state parts (rq_user r))) (rq_event r) mls
        (rq_user r \<in> set wl) = Change to"
  using assms
  by (simp add: Let_def row_state_def [symmetric] from_of_def [symmetric]
        split: if_splits membership_transition.splits) (auto simp: bind_result_Inr_iff)

lemma plan_sound:
  assumes "plan_membership_changes rs parts mls wl oi = Inr cs" and "c \<in> set cs"
  shows "\<exists>r \<in> set rs. tr_user c = rq_user r \<and> tr_from c = row_state parts (rq_user r)
    \<and> planned_transition (from_of (tr_from c)) (rq_event r) mls (rq_user r \<in> set wl) = Change (tr_to c)"
  using assms
proof (induction rs arbitrary: cs)
  case Nil
  then show ?case by simp
next
  case (Cons r rs)
  from Cons.prems(1) show ?case
    by (cases rule: plan_ConsE) (use Cons in auto)
qed

lemma plan_users_subset:
  assumes "plan_membership_changes rs parts mls wl oi = Inr cs"
  shows "tr_user ` set cs \<subseteq> rq_user ` set rs"
  using plan_sound [OF assms] by fastforce

lemma plan_users_distinct:
  assumes "plan_membership_changes rs parts mls wl oi = Inr cs" and "distinct (map rq_user rs)"
  shows "distinct (map tr_user cs)"
  using assms
proof (induction rs arbitrary: cs)
  case Nil
  then show ?case by simp
next
  case (Cons r rs)
  from Cons.prems(1) show ?case
    by (cases rule: plan_ConsE) (use Cons plan_users_subset in \<open>auto, blast\<close>)
qed

section \<open>Facts about writing\<close>

lemma updated_participant_state [simp]: "pt_state (updated_participant c now p) = tr_to c"
  by (simp add: updated_participant_def Let_def)

lemma write_participant_Some:
  assumes "write_participant c now parts = Some parts'"
  shows "map_option pt_state (map_of parts (tr_user c)) = tr_from c"
    and "map_option pt_state (map_of parts' u) =
      (if u = tr_user c then Some (tr_to c) else map_option pt_state (map_of parts u))"
    and "distinct (map fst parts) \<Longrightarrow> distinct (map fst parts')"
proof -
  note defs = write_participant_def created_participant_def
  show "map_option pt_state (map_of parts (tr_user c)) = tr_from c"
    using assms by (auto simp: defs split: option.splits if_splits)
  show "map_option pt_state (map_of parts' u) =
      (if u = tr_user c then Some (tr_to c) else map_option pt_state (map_of parts u))"
    using assms by (auto simp: defs map_add_def split: option.splits if_splits)
  show "distinct (map fst parts) \<Longrightarrow> distinct (map fst parts')"
    using assms by (auto simp: defs distinct_update map_of_eq_None_iff split: option.splits if_splits)
qed

lemma write_participant_None:
  "write_participant c now parts = None \<longleftrightarrow> map_option pt_state (map_of parts (tr_user c)) \<noteq> tr_from c"
  by (auto simp: write_participant_def split: option.splits)

lemma record_round_frame [simp]:
  "cv_parts (record_round u k now cv) = cv_parts cv"
  "state_of (record_round u k now cv) = state_of cv"
  by (auto simp: record_round_def state_of_def fun_eq_iff split: option.splits)

lemma record_round_rounds_only:
  "\<exists>rs. record_round u k now cv = cv\<lparr>cv_rounds := rs\<rparr>"
  by (auto simp: record_round_def split: option.splits intro: exI [of _ "cv_rounds cv"])

lemma apply_frame:
  "apply_participant_transitions now cs cv = Inr cv' \<Longrightarrow>
    cv' = cv\<lparr>cv_parts := cv_parts cv', cv_rounds := cv_rounds cv'\<rparr>"
proof (induction cs arbitrary: cv)
  case Nil
  then show ?case by simp
next
  case (Cons c cs)
  then obtain parts where "apply_participant_transitions now cs
      (record_round (tr_user c) (round_change (tr_from c) (tr_to c)) now (cv\<lparr>cv_parts := parts\<rparr>)) = Inr cv'"
    by (auto split: option.splits)
  moreover obtain rs where "record_round (tr_user c) (round_change (tr_from c) (tr_to c)) now
      (cv\<lparr>cv_parts := parts\<rparr>) = cv\<lparr>cv_parts := parts, cv_rounds := rs\<rparr>"
    using record_round_rounds_only by fastforce
  ultimately show ?case using Cons.IH by fastforce
qed

lemma apply_distinct_keys:
  "apply_participant_transitions now cs cv = Inr cv' \<Longrightarrow> distinct (map fst (cv_parts cv)) \<Longrightarrow>
    distinct (map fst (cv_parts cv'))"
  by (induction cs arbitrary: cv) (auto split: option.splits dest: write_participant_Some(3))

definition new_state :: "participant_transition list \<Rightarrow> (user_id \<Rightarrow> participant_state option)
    \<Rightarrow> user_id \<Rightarrow> participant_state option" where
  "new_state cs st u = (case find (\<lambda>c. tr_user c = u) cs of None \<Rightarrow> st u | Some c \<Rightarrow> Some (tr_to c))"

lemma new_state_Nil [simp]: "new_state [] st u = st u"
  by (simp add: new_state_def split: option.splits)

lemma new_state_in:
  "c \<in> set cs \<Longrightarrow> distinct (map tr_user cs) \<Longrightarrow> new_state cs st (tr_user c) = Some (tr_to c)"
  by (induction cs) (auto simp: new_state_def)

lemma new_state_notin: "u \<notin> tr_user ` set cs \<Longrightarrow> new_state cs st u = st u"
  by (induction cs) (auto simp: new_state_def)

lemma new_state_cases:
  assumes "distinct (map tr_user cs)"
  obtains c where "c \<in> set cs" "tr_user c = u" "new_state cs st u = Some (tr_to c)"
  | "u \<notin> tr_user ` set cs" "new_state cs st u = st u"
proof (cases "u \<in> tr_user ` set cs")
  case True
  then obtain c where "c \<in> set cs" and "tr_user c = u" by auto
  then show ?thesis using new_state_in [OF _ assms] that(1) by blast
next
  case False
  then show ?thesis using new_state_notin that(2) by blast
qed

lemma new_state_Cons:
  "new_state (c # cs) st u = (if tr_user c = u then Some (tr_to c) else new_state cs st u)"
  by (simp add: new_state_def split: option.splits)

lemma new_state_cong: "st u = st' u \<Longrightarrow> new_state cs st u = new_state cs st' u"
  by (simp add: new_state_def split: option.splits)

text \<open>
  The loop succeeds exactly when every change still finds the state it was planned from, and then
  the states are the planned ones.
\<close>

lemma apply_ok_iff:
  assumes "distinct (map tr_user cs)"
  shows "(\<exists>cv'. apply_participant_transitions now cs cv = Inr cv') \<longleftrightarrow>
    (\<forall>c \<in> set cs. state_of cv (tr_user c) = tr_from c)"
  using assms
proof (induction cs arbitrary: cv)
  case Nil
  then show ?case by simp
next
  case (Cons c cs)
  show ?case
  proof (cases "write_participant c now (cv_parts cv)")
    case None
    then have "state_of cv (tr_user c) \<noteq> tr_from c"
      by (simp add: write_participant_None state_of_def)
    with None show ?thesis by simp
  next
    case (Some parts)
    let ?cv = "record_round (tr_user c) (round_change (tr_from c) (tr_to c)) now (cv\<lparr>cv_parts := parts\<rparr>)"
    have st: "state_of ?cv u = (if u = tr_user c then Some (tr_to c) else state_of cv u)" for u
      using write_participant_Some(2) [OF Some] by (simp add: state_of_def)
    have "state_of cv (tr_user c) = tr_from c"
      using write_participant_Some(1) [OF Some] by (simp add: state_of_def)
    with Some Cons st show ?thesis by (simp, metis (no_types, lifting) image_eqI)
  qed
qed

lemma apply_states:
  assumes "apply_participant_transitions now cs cv = Inr cv'" and "distinct (map tr_user cs)"
  shows "state_of cv' u = new_state cs (state_of cv) u"
  using assms
proof (induction cs arbitrary: cv)
  case Nil
  then show ?case by simp
next
  case (Cons c cs)
  then obtain parts where w: "write_participant c now (cv_parts cv) = Some parts"
    and app: "apply_participant_transitions now cs
      (record_round (tr_user c) (round_change (tr_from c) (tr_to c)) now (cv\<lparr>cv_parts := parts\<rparr>)) = Inr cv'"
    by (auto split: option.splits)
  have st: "state_of (cv\<lparr>cv_parts := parts\<rparr>) u = (if u = tr_user c then Some (tr_to c) else state_of cv u)" for u
    using write_participant_Some(2) [OF w] by (simp add: state_of_def)
  let ?cv = "record_round (tr_user c) (round_change (tr_from c) (tr_to c)) now (cv\<lparr>cv_parts := parts\<rparr>)"
  have "state_of cv' u = new_state cs (state_of ?cv) u"
    using Cons.IH [OF app] Cons.prems(2) by simp
  also have "\<dots> = new_state (c # cs) (state_of cv) u"
  proof (cases "tr_user c = u")
    case True
    with Cons.prems(2) have "u \<notin> tr_user ` set cs" by auto
    from new_state_notin [OF this, of "state_of ?cv"] True st [of u] show ?thesis
      by (simp add: new_state_Cons)
  next
    case False
    with st [of u] show ?thesis by (simp add: new_state_Cons cong: new_state_cong)
  qed
  finally show ?case .
qed

lemma apply_error:
  "apply_participant_transitions now cs cv = Inl e \<Longrightarrow> e = Conflict (Chat Membership_changed_while_running)"
  by (induction cs arbitrary: cv) (auto split: option.splits)

end
