(* ===== verification/Membership_Service.thy ===== *)
theory Membership_Service
  imports Membership_Plan
begin

text \<open>
  The operations on a conversation's membership: \<open>lock-conversation.ts\<close>,
  \<open>chat-membership.repository.ts\<close>, \<open>chat-membership.service.ts\<close>, and the writes of
  \<open>chat.repository.ts\<close> and \<open>chat-group.service.ts\<close> that change a participant's role or state. Each
  runs in one transaction under the conversation's row lock, so it is a function on the
  conversation's rows that either returns the new rows or fails and leaves the old ones.
\<close>

section \<open>The lock and the role check\<close>

definition group_manager_roles :: "participant_role list" where
  "group_manager_roles = [OWNER, ADMIN]"

definition group_member_roles :: "participant_role list" where
  "group_member_roles = [OWNER, ADMIN, MEMBER]"

definition lock_and_assert_actor_role ::
    "user_id \<Rightarrow> participant_role list \<Rightarrow> conversation \<Rightarrow> unit result" where
  "lock_and_assert_actor_role actor roles cv =
     (case map_of (cv_parts cv) actor of
        None \<Rightarrow> Inl (Forbidden (Chat Your_role_in_this_group_changed))
      | Some p \<Rightarrow>
          require (pt_state p = ACTIVE \<and> pt_role p \<in> set roles)
            (Forbidden (Chat Your_role_in_this_group_changed)))"

definition in_transaction_as_role ::
    "user_id \<Rightarrow> participant_role list \<Rightarrow> (conversation \<Rightarrow> 'a result) \<Rightarrow> conversation \<Rightarrow> 'a result" where
  "in_transaction_as_role actor roles work cv =
     bind_result (lock_and_assert_actor_role actor roles cv) (\<lambda>_. work cv)"

section \<open>The repository\<close>

text \<open>
  \<open>changeMembershipInTransaction\<close>: reads the roster and the participants under the lock, plans, and
  writes. \<open>tx.chatParticipant.findMany({ where: { userId: { in } } })\<close> is the filter.
\<close>

definition change_membership_in_transaction ::
    "time \<Rightarrow> membership_request list \<Rightarrow> on_illegal \<Rightarrow> conversation
      \<Rightarrow> (conversation \<times> participant_transition list) result" where
  "change_membership_in_transaction now requests on_ill cv =
     (let mls_active = has_roster cv;
          leaves = (if mls_active then find_active_leaves cv else []);
          participants =
            map (\<lambda>(u, p). \<lparr>pr_user = u, pr_state = pt_state p, pr_role = pt_role p\<rparr>)
              (filter (\<lambda>(u, p). u \<in> set (map rq_user requests)) (cv_parts cv))
      in bind_result (plan_membership_changes requests participants mls_active (map snd leaves) on_ill)
        (\<lambda>changes. bind_result (apply_participant_transitions now changes cv)
          (\<lambda>cv'. Inr (cv', changes))))"

definition count_group_members :: "conversation \<Rightarrow> nat" where
  "count_group_members cv =
     length (filter (\<lambda>(u, p). pt_state p \<in> set entitled_to_leaf_states) (cv_parts cv))"

definition change_membership ::
    "time \<Rightarrow> membership_request list \<Rightarrow> on_illegal \<Rightarrow> conversation \<Rightarrow> (conversation \<times> nat) result" where
  "change_membership now requests on_ill cv =
     bind_result (change_membership_in_transaction now requests on_ill cv)
       (\<lambda>(cv', changes). Inr (cv', length changes))"

text \<open>\<open>stampMissingPendingSince\<close>: rows written without the column start their expiry clock.\<close>

definition stamp_missing_pending_since :: "time \<Rightarrow> conversation \<Rightarrow> conversation \<times> nat" where
  "stamp_missing_pending_since now cv =
     (let hit = (\<lambda>p. pt_state p = PENDING \<and> pt_pendingSince p = None)
      in (cv\<lparr>cv_parts := map (\<lambda>(u, p). (u, if hit p then p\<lparr>pt_pendingSince := Some now\<rparr> else p))
             (cv_parts cv)\<rparr>,
          length (filter (\<lambda>(u, p). hit p) (cv_parts cv))))"

section \<open>The service\<close>

definition max_group_members :: nat where
  "max_group_members = 100"

text \<open>The event \<open>chat.participant.added\<close>; publishing appends it to the outbox in the same transaction.\<close>

record participant_added =
  pa_addedUser :: user_id
  pa_actor :: user_id
  pa_state :: participant_state

definition to_added_participant_state :: "participant_state \<Rightarrow> participant_state result" where
  "to_added_participant_state to =
     (if to = ACTIVE \<or> to = JOINING \<or> to = PENDING then Inr to
      else Inl (ServerError (Chat Unexpected_added_state)))"

fun added_events ::
    "user_id \<Rightarrow> participant_transition list \<Rightarrow> participant_added list result" where
  "added_events actor [] = Inr []"
| "added_events actor (c # cs) =
     bind_result (to_added_participant_state (tr_to c)) (\<lambda>st.
       bind_result (added_events actor cs) (\<lambda>es.
         Inr (\<lparr>pa_addedUser = tr_user c, pa_actor = actor, pa_state = st\<rparr> # es)))"

definition dedupe_by_user :: "membership_request list \<Rightarrow> membership_request list" where
  "dedupe_by_user requests = map snd (js_map (map (\<lambda>r. (rq_user r, r)) requests))"

datatype entitlement = DIRECT | INVITE

definition add_members ::
    "time \<Rightarrow> (user_id \<times> entitlement) list \<Rightarrow> user_id \<Rightarrow> conversation
      \<Rightarrow> (conversation \<times> participant_added list \<times> nat) result" where
  "add_members now members actor cv =
     (let requests = dedupe_by_user (map (\<lambda>(u, en).
            \<lparr>rq_user = u, rq_event = (if en = DIRECT then ADD_DIRECT else ADD_INVITE)\<rparr>) members)
      in in_transaction_as_role actor group_member_roles (\<lambda>cv0.
        bind_result (change_membership_in_transaction now requests Throw cv0) (\<lambda>(cv', changes).
          bind_result (require (\<not> (changes \<noteq> [] \<and> count_group_members cv' > max_group_members))
              (BadRequest (Chat Group_can_have_at_most_100_members))) (\<lambda>_.
            bind_result (added_events actor changes) (\<lambda>evs.
              Inr (cv', evs, length changes))))) cv)"

definition change ::
    "time \<Rightarrow> membership_request list \<Rightarrow> on_illegal \<Rightarrow> conversation \<Rightarrow> (conversation \<times> nat) result" where
  "change now requests on_ill cv = change_membership now (dedupe_by_user requests) on_ill cv"

text \<open>
  \<open>archive\<close>, \<open>unarchive\<close>, hiding a chat and \<open>blockConversation\<close> write a participant's row without taking
  the conversation's row lock, so they may land inside this transaction. \<open>seen\<close> is what it reads
  under the lock and \<open>cv\<close> the rows its conditional writes find, each participant's as it is when that
  write runs; without such a write in between they are the same, and this is \<open>change\<close>.
\<close>

definition change_beside ::
    "time \<Rightarrow> membership_request list \<Rightarrow> on_illegal \<Rightarrow> conversation \<Rightarrow> conversation
      \<Rightarrow> (conversation \<times> nat) result" where
  "change_beside now requests on_ill seen cv =
     (let rs = dedupe_by_user requests;
          mls_active = has_roster seen;
          leaves = (if mls_active then find_active_leaves seen else []);
          participants =
            map (\<lambda>(u, p). \<lparr>pr_user = u, pr_state = pt_state p, pr_role = pt_role p\<rparr>)
              (filter (\<lambda>(u, p). u \<in> set (map rq_user rs)) (cv_parts seen))
      in bind_result (plan_membership_changes rs participants mls_active (map snd leaves) on_ill)
        (\<lambda>changes. bind_result (apply_participant_transitions now changes cv)
          (\<lambda>cv'. Inr (cv', length changes))))"

lemma change_beside_nothing: "change_beside now requests oi cv cv = change now requests oi cv"
  by (simp add: change_beside_def change_def change_membership_def change_membership_in_transaction_def
      Let_def bind_result_def split: sum.splits)

definition remove_members ::
    "time \<Rightarrow> user_id list \<Rightarrow> user_id option \<Rightarrow> conversation \<Rightarrow> (conversation \<times> nat) result" where
  "remove_members now users actor cv =
     (let requests = dedupe_by_user (map (\<lambda>u. \<lparr>rq_user = u, rq_event = REMOVE\<rparr>) users)
      in case actor of
        None \<Rightarrow> change now requests Throw cv
      | Some a \<Rightarrow> in_transaction_as_role a group_manager_roles (\<lambda>cv0.
          bind_result (change_membership_in_transaction now requests Throw cv0)
            (\<lambda>(cv', changes). Inr (cv', length changes))) cv)"

definition accept_invite :: "time \<Rightarrow> user_id \<Rightarrow> conversation \<Rightarrow> (conversation \<times> nat) result" where
  "accept_invite now u = change now [\<lparr>rq_user = u, rq_event = ACCEPT_INVITE\<rparr>] Throw"

definition decline_invite :: "time \<Rightarrow> user_id \<Rightarrow> conversation \<Rightarrow> (conversation \<times> nat) result" where
  "decline_invite now u = change now [\<lparr>rq_user = u, rq_event = DECLINE_INVITE\<rparr>] Throw"

definition request_direct_again :: "time \<Rightarrow> user_id \<Rightarrow> conversation \<Rightarrow> (conversation \<times> nat) result" where
  "request_direct_again now u = change now [\<lparr>rq_user = u, rq_event = ADD_INVITE\<rparr>] Throw"

definition reopen_direct :: "time \<Rightarrow> user_id \<Rightarrow> conversation \<Rightarrow> (conversation \<times> nat) result" where
  "reopen_direct now u = change now [\<lparr>rq_user = u, rq_event = ADD_DIRECT\<rparr>] Throw"

definition expire_invites :: "time \<Rightarrow> user_id list \<Rightarrow> conversation \<Rightarrow> (conversation \<times> nat) result" where
  "expire_invites now users =
     change now (map (\<lambda>u. \<lparr>rq_user = u, rq_event = EXPIRE_INVITE\<rparr>) users) Skip"

section \<open>The other writes of role and state\<close>

text \<open>\<open>updateParticipantArchivedState\<close>: each direction only leaves its own state.\<close>

definition update_archived_state ::
    "time \<Rightarrow> user_id \<Rightarrow> bool \<Rightarrow> conversation \<Rightarrow> conversation result" where
  "update_archived_state now u archived cv =
     (case map_of (cv_parts cv) u of
        None \<Rightarrow> Inl (ServerError (Chat Group_membership_changed))
      | Some p \<Rightarrow>
          Inr (if pt_state p = (if archived then ACTIVE else ARCHIVED)
               then cv\<lparr>cv_parts := AList.update u
                      (p\<lparr>pt_state := (if archived then ARCHIVED else ACTIVE),
                         pt_archivedAt := (if archived then Some now else None)\<rparr>) (cv_parts cv)\<rparr>
               else cv))"

text \<open>\<open>transferGroupOwnership\<close>: both conditional writes must match exactly one row.\<close>

definition transfer_group_ownership ::
    "user_id \<Rightarrow> user_id \<Rightarrow> conversation \<Rightarrow> conversation result" where
  "transfer_group_ownership current new_owner cv =
     (case map_of (cv_parts cv) new_owner of
        None \<Rightarrow> Inl (Conflict (Chat Group_membership_changed))
      | Some p \<Rightarrow>
          (if pt_state p \<noteq> ACTIVE then Inl (Conflict (Chat Group_membership_changed))
           else let parts1 = AList.update new_owner (p\<lparr>pt_role := OWNER\<rparr>) (cv_parts cv)
                in case map_of parts1 current of
                     None \<Rightarrow> Inl (Conflict (Chat Group_membership_changed))
                   | Some q \<Rightarrow>
                       (if pt_role q \<noteq> OWNER then Inl (Conflict (Chat Group_membership_changed))
                        else Inr (cv\<lparr>cv_parts := AList.update current (q\<lparr>pt_role := ADMIN\<rparr>) parts1\<rparr>))))"

text \<open>\<open>closeSoleOwnerGroup\<close>: the owner goes, and their leaves are retired without a Commit.\<close>

definition close_sole_owner_group ::
    "user_id \<Rightarrow> nat \<Rightarrow> conversation \<Rightarrow> conversation result" where
  "close_sole_owner_group u current_epoch =
     in_transaction_as_role u [OWNER] (\<lambda>cv.
       let others_active = length (filter (\<lambda>(v, p). v \<noteq> u \<and> pt_state p = ACTIVE) (cv_parts cv))
       in bind_result (require (\<not> others_active > 0) (Conflict (Chat Owner_cannot_leave_before_transfer))) (\<lambda>_.
         case map_of (cv_parts cv) u of
           None \<Rightarrow> Inl (ServerError (Chat Group_membership_changed))
         | Some p \<Rightarrow>
             let cv1 = cv\<lparr>cv_parts := AList.update u (p\<lparr>pt_state := DECLINED\<rparr>) (cv_parts cv)\<rparr>;
                 own = map fst (filter (\<lambda>l. snd l = u) (find_active_leaves cv1))
             in bind_result (remove_leaves own current_epoch cv1) (\<lambda>(cv2, n). Inr cv2)))"

text \<open>
  \<open>leaveGroup\<close>: the checks read a snapshot \<open>seen\<close> of the conversation taken before the transaction;
  the transaction runs on the rows \<open>cv\<close> it then finds.
\<close>

definition leave_group ::
    "time \<Rightarrow> user_id \<Rightarrow> conversation \<Rightarrow> conversation \<Rightarrow> conversation result" where
  "leave_group now u seen cv =
     (if \<not> cv_group seen then Inl (NotFound (Chat Group_conversation_not_found))
      else case map_of (cv_parts seen) u of
        None \<Rightarrow> Inl (Forbidden (Chat You_are_not_in_this_group))
      | Some p \<Rightarrow>
          (if pt_state p \<noteq> ACTIVE then Inl (Forbidden (Chat You_are_not_in_this_group))
           else if pt_role p = OWNER
           then (if \<exists>(v, q) \<in> set (cv_parts seen). v \<noteq> u \<and> pt_state q = ACTIVE
                 then Inl (BadRequest (Chat Owner_cannot_leave_before_transfer))
                 else close_sole_owner_group u (cv_epoch seen) cv)
           else map_sum id fst (remove_members now [u] None cv)))"

end
