(* ===== verification/Group_Roster.thy ===== *)
theory Group_Roster
  imports Chat_State
begin

text \<open>
  The interface of \<open>mls-group-roster.repository.ts\<close>, as its two clients (accepting a Commit, closing
  a group) use it: what the live leaves are after a write, and that a write at an epoch never changes
  what the roster says of an earlier one.
\<close>

section \<open>The contract\<close>

locale group_roster =
  fixes active :: "'s \<Rightarrow> ('d \<times> 'u) list"
    and at_epoch :: "'s \<Rightarrow> nat \<Rightarrow> ('d \<times> 'u) list"
    and add :: "('d \<times> 'u) list \<Rightarrow> nat \<Rightarrow> 's \<Rightarrow> 'e + 's"
    and remove :: "'d list \<Rightarrow> nat \<Rightarrow> 's \<Rightarrow> 'e + ('s \<times> nat)"
  assumes add_active: "add ls e s = Inr s' \<Longrightarrow> active s' = active s @ ls"
    and add_past: "add ls e s = Inr s' \<Longrightarrow> k < e \<Longrightarrow> at_epoch s' k = at_epoch s k"
    and add_refused: "add ls e s = Inl x \<Longrightarrow>
      \<not> distinct (map fst ls) \<or> (\<exists>d \<in> fst ` set ls. d \<in> fst ` set (active s))"
    and remove_active: "remove ds e s = Inr (s', n) \<Longrightarrow>
      active s' = filter (\<lambda>l. fst l \<notin> set ds) (active s)"
    and remove_count: "remove ds e s = Inr (s', n) \<Longrightarrow>
      n = length (filter (\<lambda>l. fst l \<in> set ds) (active s))"
    and remove_past: "remove ds e s = Inr (s', n) \<Longrightarrow> k < e \<Longrightarrow> at_epoch s' k = at_epoch s k"
begin

text \<open>A Commit's roster change: the removes, then the adds, at one epoch.\<close>

lemma replace_active:
  assumes "remove ds e s = Inr (s1, n)" and "add ls e s1 = Inr s2"
  shows "active s2 = filter (\<lambda>l. fst l \<notin> set ds) (active s) @ ls"
  using add_active [OF assms(2)] remove_active [OF assms(1)] by simp

lemma replace_past:
  assumes "remove ds e s = Inr (s1, n)" and "add ls e s1 = Inr s2" and "k < e"
  shows "at_epoch s2 k = at_epoch s k"
  using add_past [OF assms(2,3)] remove_past [OF assms(1,3)] by simp

lemma replace_distinct:
  assumes "remove ds e s = Inr (s1, n)" and "add ls e s1 = Inr s2"
    and "distinct (map fst (active s))" and "distinct (map fst ls)"
    and "fst ` set ls \<inter> fst ` set (active s) = {}"
  shows "distinct (map fst (active s2))"
proof -
  have "distinct (map fst (filter (\<lambda>l. fst l \<notin> set ds) (active s)))"
    by (rule distinct_map_filter [OF assms(3)])
  with assms(4,5) show ?thesis by (auto simp: replace_active [OF assms(1,2)])
qed

text \<open>The count tells a client whether every device it named was there.\<close>

lemma remove_all_counted:
  assumes "remove ds e s = Inr (s', n)" and "distinct (map fst (active s))" and "distinct ds"
  shows "n = length ds \<longleftrightarrow> set ds \<subseteq> fst ` set (active s)"
proof -
  let ?hit = "filter (\<lambda>d. d \<in> set ds) (map fst (active s))"
  have "length ?hit = card (set ?hit)"
    by (rule distinct_card [symmetric]) (rule distinct_filter [OF assms(2)])
  then have "n = card (set ?hit)"
    using remove_count [OF assms(1)] by (simp add: filter_map comp_def)
  moreover have "set ?hit = set ds \<inter> fst ` set (active s)" by auto
  moreover have "length ds = card (set ds)" using assms(3) by (simp add: distinct_card)
  ultimately show ?thesis
    by (metis Int_lower1 Int_absorb2 card_subset_eq inf.orderI List.finite_set)
qed

text \<open>Devices the group does not have can always be added once.\<close>

lemma add_succeeds:
  assumes "distinct (map fst ls)" and "fst ` set ls \<inter> fst ` set (active s) = {}"
  shows "\<exists>s'. add ls e s = Inr s'"
  using add_refused [of ls e s] assms by (cases "add ls e s") auto

end

section \<open>The database rows meet it\<close>

lemma add_leaves_past:
  assumes "add_leaves ls e cv = Inr cv'" and "k < e"
  shows "find_leaves_at_epoch cv' k = find_leaves_at_epoch cv k"
  using assms by (auto simp: add_leaves_def find_leaves_at_epoch_def leaf_at_def split: if_splits)

lemma remove_leaves_past:
  assumes "remove_leaves ids e cv = Inr (cv', n)" and "k < e"
  shows "find_leaves_at_epoch cv' k = find_leaves_at_epoch cv k"
proof -
  have "map (\<lambda>l. (lf_device l, lf_user l)) (filter (leaf_at k)
      (map (\<lambda>l. if lf_device l \<in> set ids \<and> live l then l\<lparr>lf_removed := Some e\<rparr> else l) rs))
    = map (\<lambda>l. (lf_device l, lf_user l)) (filter (leaf_at k) rs)" for rs
    using assms(2) by (induction rs) (auto simp: leaf_at_def live_def)
  with assms(1) show ?thesis
    by (auto simp: remove_leaves_def find_leaves_at_epoch_def Let_def split: if_splits)
qed

interpretation roster: group_roster find_active_leaves find_leaves_at_epoch add_leaves remove_leaves
proof unfold_locales
  fix ls e s s' ds n k
  show "add_leaves ls e s = Inr s' \<Longrightarrow> find_active_leaves s' = find_active_leaves s @ ls"
    by (rule add_leaves_active)
  show "add_leaves ls e s = Inr s' \<Longrightarrow> k < e \<Longrightarrow> find_leaves_at_epoch s' k = find_leaves_at_epoch s k"
    by (rule add_leaves_past)
  show "remove_leaves ds e s = Inr (s', n) \<Longrightarrow>
      find_active_leaves s' = filter (\<lambda>l. fst l \<notin> set ds) (find_active_leaves s)"
    by (rule remove_leaves_active)
  show "remove_leaves ds e s = Inr (s', n) \<Longrightarrow>
      n = length (filter (\<lambda>l. fst l \<in> set ds) (find_active_leaves s))"
    by (rule remove_leaves_active)
  show "remove_leaves ds e s = Inr (s', n) \<Longrightarrow> k < e \<Longrightarrow>
      find_leaves_at_epoch s' k = find_leaves_at_epoch s k"
    by (rule remove_leaves_past)
qed (auto simp: add_leaves_def split: if_splits)

section \<open>The epochs of the rows\<close>

text \<open>The clause of the CHECK constraint, with the group's current epoch as the upper bound.\<close>

definition epochs_ok :: "nat \<Rightarrow> leaf_row list \<Rightarrow> bool" where
  "epochs_ok epoch rows \<longleftrightarrow> (\<forall>l \<in> set rows. lf_added l \<le> epoch \<and>
     (case lf_removed l of None \<Rightarrow> True | Some r \<Rightarrow> lf_added l < r \<and> r \<le> epoch))"

lemma epochs_ok_mono: "epochs_ok e rows \<Longrightarrow> e \<le> e' \<Longrightarrow> epochs_ok e' rows"
  by (fastforce simp: epochs_ok_def split: option.splits)

lemma add_leaves_epochs:
  "add_leaves ls e cv = Inr cv' \<Longrightarrow> epochs_ok m (cv_roster cv) \<Longrightarrow> e \<le> m \<Longrightarrow>
    epochs_ok m (cv_roster cv')"
  by (auto simp: add_leaves_def epochs_ok_def split: if_splits)

lemma remove_leaves_epochs:
  "remove_leaves ids e cv = Inr (cv', n) \<Longrightarrow> epochs_ok m (cv_roster cv) \<Longrightarrow> e \<le> m \<Longrightarrow>
    epochs_ok m (cv_roster cv')"
  by (auto simp: remove_leaves_def epochs_ok_def Let_def live_def split: if_splits)

text \<open>Removing at a later epoch than any row was added at is never refused.\<close>

lemma remove_leaves_later:
  assumes "epochs_ok m (cv_roster cv)" and "m < e"
  shows "\<exists>r. remove_leaves ids e cv = Inr r"
proof -
  have "\<forall>l \<in> set (cv_roster cv). lf_added l < e" using assms by (auto simp: epochs_ok_def)
  then show ?thesis by (auto simp: remove_leaves_def Let_def)
qed

lemma remove_leaves_rows: "remove_leaves ids e cv = Inr (cv', n) \<Longrightarrow> has_roster cv' = has_roster cv"
  by (auto simp: remove_leaves_def has_roster_def Let_def split: if_splits)

lemma add_leaves_rows: "add_leaves ls e cv = Inr cv' \<Longrightarrow> has_roster cv' \<longleftrightarrow> has_roster cv \<or> ls \<noteq> []"
  by (auto simp: add_leaves_def has_roster_def split: if_splits)

text \<open>At the current epoch, the history agrees with the live leaves.\<close>

lemma leaves_at_current:
  assumes "epochs_ok e (cv_roster cv)"
  shows "find_leaves_at_epoch cv e = find_active_leaves cv"
proof -
  have "filter (leaf_at e) rows = filter live rows" if "epochs_ok e rows" for rows
    using that by (induction rows) (auto simp: epochs_ok_def leaf_at_def live_def split: option.splits)
  with assms show ?thesis by (simp add: find_leaves_at_epoch_def find_active_leaves_def)
qed

end
