(* ===== verification/Conversation_Invariant.thy ===== *)
theory Conversation_Invariant
  imports Membership_Service Group_Roster
begin

text \<open>
  What is always true of a conversation's rows, and that every membership operation keeps it. The
  roster clause, the phase clauses and the entitlement clause are the facts the schema comments, the
  state machine's comments and the integrity sweep (\<open>mls-audit.repository.ts\<close>) state.
\<close>

section \<open>The invariant\<close>

definition leaf_users :: "conversation \<Rightarrow> user_id list" where
  "leaf_users cv = map snd (find_active_leaves cv)"

text \<open>
  A row was added at an epoch the group has reached and removed later than that; a device is a live
  leaf once; a group with members has had a Commit.
\<close>

definition roster_ok :: "conversation \<Rightarrow> bool" where
  "roster_ok cv \<longleftrightarrow>
     distinct (map fst (find_active_leaves cv))
     \<and> epochs_ok (cv_epoch cv) (cv_roster cv)
     \<and> (has_roster cv \<longrightarrow> 0 < cv_epoch cv)"

text \<open>One handshake per epoch below the current one; the snapshot is never of a future epoch.\<close>

definition log_ok :: "conversation \<Rightarrow> bool" where
  "log_ok cv \<longleftrightarrow> map hs_epoch (cv_handshakes cv) = [0..<cv_epoch cv]
     \<and> (case cv_groupInfo cv of None \<Rightarrow> True | Some (e, _) \<Rightarrow> e \<le> cv_epoch cv)"

text \<open>
  Whose devices may be live leaves: \<open>JOINING\<close> has none yet, \<open>DECLINED\<close> none any more. The second half
  holds of groups only: in a direct chat \<open>blockConversation\<close> writes \<open>DECLINED\<close> around the state
  machine, over a user whose device is in the MLS group already.
\<close>

definition may_hold_leaf :: "bool \<Rightarrow> participant_state option \<Rightarrow> bool" where
  "may_hold_leaf is_group st =
     (case st of None \<Rightarrow> False | Some s \<Rightarrow> s \<noteq> JOINING \<and> (is_group \<longrightarrow> s \<noteq> DECLINED))"

definition leaves_ok :: "conversation \<Rightarrow> bool" where
  "leaves_ok cv \<longleftrightarrow> (\<forall>u \<in> set (leaf_users cv). may_hold_leaf (cv_group cv) (state_of cv u))"

text \<open>The two-phase states: \<open>JOINING\<close> only in an MLS group, \<open>LEAVING\<close> only while a device is left.\<close>

definition phases_ok :: "conversation \<Rightarrow> bool" where
  "phases_ok cv \<longleftrightarrow> (\<forall>u \<in> fst ` set (cv_parts cv).
     (state_of cv u = Some JOINING \<longrightarrow> has_roster cv) \<and>
     (state_of cv u = Some LEAVING \<longrightarrow> u \<in> set (leaf_users cv)))"

definition conv_ok :: "conversation \<Rightarrow> bool" where
  "conv_ok cv \<longleftrightarrow> distinct (map fst (cv_parts cv)) \<and> roster_ok cv \<and> log_ok cv
     \<and> leaves_ok cv \<and> phases_ok cv"

lemma may_hold_leaf_simps [simp]:
  "\<not> may_hold_leaf g None" "may_hold_leaf g (Some s) \<longleftrightarrow> s \<noteq> JOINING \<and> (g \<longrightarrow> s \<noteq> DECLINED)"
  by (simp_all add: may_hold_leaf_def)

lemma phases_iff:
  "phases_ok cv \<longleftrightarrow> (\<forall>u. (state_of cv u = Some JOINING \<longrightarrow> has_roster cv) \<and>
     (state_of cv u = Some LEAVING \<longrightarrow> u \<in> set (leaf_users cv)))"
proof -
  have "state_of cv u \<noteq> None \<Longrightarrow> u \<in> fst ` set (cv_parts cv)" for u
    by (simp add: state_of_def map_of_eq_None_iff)
  then show ?thesis unfolding phases_ok_def by fastforce
qed

text \<open>What the invariant gives, clause by clause.\<close>

lemma conv_okD:
  assumes "conv_ok cv"
  shows "distinct (map fst (cv_parts cv))" and "distinct (map fst (find_active_leaves cv))"
    and "log_ok cv" and "u \<in> set (leaf_users cv) \<Longrightarrow> may_hold_leaf (cv_group cv) (state_of cv u)"
    and "state_of cv u = Some JOINING \<Longrightarrow> has_roster cv \<and> u \<notin> set (leaf_users cv)"
    and "state_of cv u = Some LEAVING \<Longrightarrow> u \<in> set (leaf_users cv)"
proof -
  show "distinct (map fst (cv_parts cv))" "distinct (map fst (find_active_leaves cv))" "log_ok cv"
    using assms by (simp_all add: conv_ok_def roster_ok_def)
  show hold: "u \<in> set (leaf_users cv) \<Longrightarrow> may_hold_leaf (cv_group cv) (state_of cv u)"
    using assms by (simp add: conv_ok_def leaves_ok_def)
  show "state_of cv u = Some JOINING \<Longrightarrow> has_roster cv \<and> u \<notin> set (leaf_users cv)"
    using assms hold by (auto simp: conv_ok_def phases_iff)
  show "state_of cv u = Some LEAVING \<Longrightarrow> u \<in> set (leaf_users cv)"
    using assms by (simp add: conv_ok_def phases_iff)
qed

lemma leaf_users_roster: "u \<in> set (leaf_users cv) \<Longrightarrow> has_roster cv"
  by (auto simp: leaf_users_def find_active_leaves_def has_roster_def)

text \<open>Writes that leave the MLS rows alone only have to keep the participants in order.\<close>

lemma leaf_users_cong: "cv_roster cv = cv_roster cv' \<Longrightarrow> leaf_users cv = leaf_users cv'"
  by (simp add: leaf_users_def find_active_leaves_def)

lemma conv_ok_parts:
  assumes "conv_ok cv" and "distinct (map fst ps)"
    and "cv' = cv\<lparr>cv_parts := ps, cv_rounds := rs\<rparr>"
    and "\<And>u. u \<in> set (leaf_users cv) \<Longrightarrow> may_hold_leaf (cv_group cv) (state_of cv' u)"
    and "\<And>u. state_of cv' u = Some JOINING \<Longrightarrow> has_roster cv"
    and "\<And>u. state_of cv' u = Some LEAVING \<Longrightarrow> u \<in> set (leaf_users cv)"
  shows "conv_ok cv'"
proof -
  have lu: "leaf_users cv' = leaf_users cv" and hr: "has_roster cv' = has_roster cv"
    and al: "find_active_leaves cv' = find_active_leaves cv" and gr: "cv_group cv' = cv_group cv"
    using assms(3) by (simp_all add: leaf_users_def find_active_leaves_def has_roster_def)
  have "roster_ok cv'" "log_ok cv'"
    using assms(1,3) al hr
    by (simp_all add: conv_ok_def roster_ok_def log_ok_def cong: option.case_cong)
  moreover have "leaves_ok cv'" using assms(4) lu gr by (simp add: leaves_ok_def)
  moreover have "phases_ok cv'" using assms(5,6) lu hr by (simp add: phases_iff)
  ultimately show ?thesis using assms(2,3) by (simp add: conv_ok_def)
qed

section \<open>The plan against the roster\<close>

text \<open>
  What an app-level event may make of a user, given whether the conversation is MLS and whether the
  user has a device in the group.
\<close>

lemma planned_phase:
  assumes "planned_transition fr e mls leaf = Change t" and "app_event e" and "leaf \<longrightarrow> mls"
  shows "t = JOINING \<longrightarrow> mls \<and> \<not> leaf" and "t = LEAVING \<longrightarrow> leaf"
    and "t = DECLINED \<longrightarrow> \<not> leaf \<or> fr = From JOINING"
proof -
  have "(t = JOINING \<longrightarrow> mls \<and> \<not> leaf) \<and> (t = LEAVING \<longrightarrow> leaf)
      \<and> (t = DECLINED \<longrightarrow> \<not> leaf \<or> fr = From JOINING)"
  proof (cases fr)
    case NONE
    with assms show ?thesis
      by (cases e; cases mls; cases leaf)
         (auto simp: planned_transition_def resolve_membership_transition_def app_event_def
           mls_only_events_def Let_def)
  next
    case (From s)
    with assms show ?thesis
      by (cases s; cases e; cases mls; cases leaf)
         (auto simp: planned_transition_def resolve_membership_transition_def app_event_def
           mls_only_events_def Let_def)
  qed
  then show "t = JOINING \<longrightarrow> mls \<and> \<not> leaf" and "t = LEAVING \<longrightarrow> leaf"
    and "t = DECLINED \<longrightarrow> \<not> leaf \<or> fr = From JOINING" by auto
qed

text \<open>The participants read by the transaction are the rows of the requested users.\<close>

definition requested_rows :: "membership_request list \<Rightarrow> conversation \<Rightarrow> participant_row list" where
  "requested_rows requests cv =
     map (\<lambda>(u, p). \<lparr>pr_user = u, pr_state = pt_state p, pr_role = pt_role p\<rparr>)
       (filter (\<lambda>(u, p). u \<in> set (map rq_user requests)) (cv_parts cv))"

lemma requested_row:
  assumes "distinct (map fst (cv_parts cv))" and "u \<in> rq_user ` set requests"
  shows "map_of (js_map (map (\<lambda>p. (pr_user p, p)) (requested_rows requests cv))) u =
    map_option (\<lambda>p. \<lparr>pr_user = u, pr_state = pt_state p, pr_role = pt_role p\<rparr>) (map_of (cv_parts cv) u)"
proof -
  have keys: "distinct (map fst (map (\<lambda>p. (pr_user p, p)) (requested_rows requests cv)))"
    using assms(1) unfolding requested_rows_def
    by (induction "cv_parts cv" arbitrary: cv) (auto simp: comp_def case_prod_beta distinct_map filter_map intro: inj_on_subset)
  have "map_of (map (\<lambda>p. (pr_user p, p)) (map (\<lambda>(u, p). \<lparr>pr_user = u, pr_state = pt_state p, pr_role = pt_role p\<rparr>)
       (filter (\<lambda>(u, p). u \<in> set (map rq_user requests)) ps))) u
    = map_option (\<lambda>p. \<lparr>pr_user = u, pr_state = pt_state p, pr_role = pt_role p\<rparr>) (map_of ps u)" for ps
    using assms(2) by (induction ps) auto
  then show ?thesis unfolding js_map_id [OF keys] by (simp add: requested_rows_def)
qed

text \<open>One transaction: what it planned, that the writes cannot fail, and the states it leaves.\<close>

lemma requested_row_state:
  assumes "distinct (map fst (cv_parts cv))" and "u \<in> rq_user ` set requests"
  shows "row_state (requested_rows requests cv) u = state_of cv u"
  using requested_row [OF assms] by (simp add: row_state_def state_of_def option.map_comp comp_def)

lemma change_tx_unfold:
  "change_membership_in_transaction now requests oi cv =
     bind_result (plan_membership_changes requests (requested_rows requests cv) (has_roster cv)
       (leaf_users cv) oi)
       (\<lambda>cs. bind_result (apply_participant_transitions now cs cv) (\<lambda>cv'. Inr (cv', cs)))"
proof -
  have "map snd (if has_roster cv then find_active_leaves cv else []) = leaf_users cv"
    by (auto simp: leaf_users_def find_active_leaves_def has_roster_def)
  then show ?thesis
    unfolding change_membership_in_transaction_def Let_def requested_rows_def by (rule arg_cong2) simp
qed

lemma plan_from_state:
  assumes "distinct (map fst (cv_parts cv))"
    and "plan_membership_changes requests (requested_rows requests cv) mls wl oi = Inr cs"
    and "c \<in> set cs"
  shows "tr_from c = state_of cv (tr_user c)"
proof -
  from plan_sound [OF assms(2,3)] obtain r where "r \<in> set requests" "tr_user c = rq_user r"
    "tr_from c = row_state (requested_rows requests cv) (rq_user r)" by blast
  with requested_row_state [OF assms(1)] show ?thesis by auto
qed

lemma change_tx_result:
  assumes "distinct (map fst (cv_parts cv))" and "distinct (map rq_user requests)"
    and "plan_membership_changes requests (requested_rows requests cv) (has_roster cv)
      (leaf_users cv) oi = Inr cs"
  obtains cv' where "change_membership_in_transaction now requests oi cv = Inr (cv', cs)"
    and "apply_participant_transitions now cs cv = Inr cv'"
proof -
  have "distinct (map tr_user cs)" by (rule plan_users_distinct [OF assms(3,2)])
  moreover have "\<forall>c \<in> set cs. state_of cv (tr_user c) = tr_from c"
    using plan_from_state [OF assms(1,3)] by simp
  ultimately obtain cv' where "apply_participant_transitions now cs cv = Inr cv'"
    using apply_ok_iff by blast
  with assms(3) that show thesis by (simp add: change_tx_unfold)
qed

lemma change_tx_cases:
  assumes "distinct (map fst (cv_parts cv))" and "distinct (map rq_user requests)"
    and "change_membership_in_transaction now requests oi cv = Inr (cv', cs)"
  shows "plan_membership_changes requests (requested_rows requests cv) (has_roster cv)
      (leaf_users cv) oi = Inr cs"
    and "apply_participant_transitions now cs cv = Inr cv'"
    and "distinct (map tr_user cs)"
    and "state_of cv' u = new_state cs (state_of cv) u"
proof -
  show plan: "plan_membership_changes requests (requested_rows requests cv) (has_roster cv)
      (leaf_users cv) oi = Inr cs"
    and app: "apply_participant_transitions now cs cv = Inr cv'"
    using assms(3) by (auto simp: change_tx_unfold bind_result_Inr_iff)
  show d: "distinct (map tr_user cs)" by (rule plan_users_distinct [OF plan assms(2)])
  show "state_of cv' u = new_state cs (state_of cv) u" by (rule apply_states [OF app d])
qed

text \<open>One change of the plan, in terms of the conversation.\<close>

lemma plan_change:
  assumes "distinct (map fst (cv_parts cv))"
    and "plan_membership_changes requests (requested_rows requests cv) (has_roster cv)
      (leaf_users cv) oi = Inr cs" and "c \<in> set cs"
  obtains r where "r \<in> set requests" and "tr_user c = rq_user r"
    and "planned_transition (from_of (state_of cv (tr_user c))) (rq_event r) (has_roster cv)
      (tr_user c \<in> set (leaf_users cv)) = Change (tr_to c)"
  using plan_sound [OF assms(2,3)] plan_from_state [OF assms] that by metis

text \<open>
  What writing a plan makes of a participant, whatever rows it was planned from, as long as they show
  the same leaves: each write is conditional on the state it was planned from.
\<close>

lemma plan_apply_moves:
  assumes ok: "conv_ok cv" and d: "distinct (map rq_user requests)"
    and app: "\<forall>r \<in> set requests. app_event (rq_event r)"
    and plan: "plan_membership_changes requests rows (has_roster cv) (leaf_users cv) oi = Inr cs"
    and run: "apply_participant_transitions now cs cv = Inr cv'"
  obtains "state_of cv' u = state_of cv u"
  | t where "state_of cv' u = Some t" and "t = JOINING \<Longrightarrow> has_roster cv \<and> u \<notin> set (leaf_users cv)"
      and "t = LEAVING \<Longrightarrow> u \<in> set (leaf_users cv)" and "t = DECLINED \<Longrightarrow> u \<notin> set (leaf_users cv)"
proof -
  have dc: "distinct (map tr_user cs)" by (rule plan_users_distinct [OF plan d])
  have read: "state_of cv (tr_user c) = tr_from c" if "c \<in> set cs" for c
    using apply_ok_iff [OF dc] run that by blast
  show thesis
  proof (cases rule: new_state_cases [OF dc, where st = "state_of cv" and u = u])
    case (1 c)
    obtain r where r: "r \<in> set requests" "planned_transition (from_of (state_of cv u)) (rq_event r)
        (has_roster cv) (u \<in> set (leaf_users cv)) = Change (tr_to c)"
      using plan_sound [OF plan 1(1)] read [OF 1(1)] 1(2) by metis
    have ae: "app_event (rq_event r)" using app r(1) by blast
    have lr: "u \<in> set (leaf_users cv) \<longrightarrow> has_roster cv" using leaf_users_roster by blast
    have "from_of (state_of cv u) \<noteq> From JOINING" if "u \<in> set (leaf_users cv)"
      using conv_okD(5) [OF ok, of u] that by (auto simp: from_of_def split: option.splits)
    with planned_phase [OF r(2) ae lr] that(2) [of "tr_to c"] apply_states [OF run dc, of u] 1(3)
    show ?thesis by auto
  next
    case 2
    with that(1) apply_states [OF run dc, of u] show ?thesis by simp
  qed
qed

lemma plan_apply_keeps:
  assumes ok: "conv_ok cv" and d: "distinct (map rq_user requests)"
    and app: "\<forall>r \<in> set requests. app_event (rq_event r)"
    and plan: "plan_membership_changes requests rows (has_roster cv) (leaf_users cv) oi = Inr cs"
    and run: "apply_participant_transitions now cs cv = Inr cv'"
  shows "conv_ok cv'"
proof (rule conv_ok_parts [OF ok])
  note moves = plan_apply_moves [OF assms]
  show "distinct (map fst (cv_parts cv'))" by (rule apply_distinct_keys [OF run conv_okD(1) [OF ok]])
  show "cv' = cv\<lparr>cv_parts := cv_parts cv', cv_rounds := cv_rounds cv'\<rparr>" by (rule apply_frame [OF run])
  show "may_hold_leaf (cv_group cv) (state_of cv' u)" if "u \<in> set (leaf_users cv)" for u
    by (cases rule: moves [where u = u]) (use conv_okD(4) [OF ok that] that in auto)
  show "has_roster cv" if "state_of cv' u = Some JOINING" for u
    by (cases rule: moves [where u = u]) (use conv_okD(5) [OF ok] that in auto)
  show "u \<in> set (leaf_users cv)" if "state_of cv' u = Some LEAVING" for u
    by (cases rule: moves [where u = u]) (use conv_okD(6) [OF ok] that in auto)
qed

lemma change_tx_keeps:
  assumes ok: "conv_ok cv" and d: "distinct (map rq_user requests)"
    and app: "\<forall>r \<in> set requests. app_event (rq_event r)"
    and run: "change_membership_in_transaction now requests oi cv = Inr (cv', cs)"
  shows "conv_ok cv'"
  using change_tx_cases(1,2) [OF conv_okD(1) [OF ok] d run] by (rule plan_apply_keeps [OF ok d app])

section \<open>Every operation keeps the invariant\<close>

lemma dedupe_by_user_facts:
  "distinct (map rq_user (dedupe_by_user rs))" "set (dedupe_by_user rs) \<subseteq> set rs"
  "rq_user ` set (dedupe_by_user rs) = rq_user ` set rs"
proof -
  let ?ps = "map (\<lambda>r. (rq_user r, r)) rs"
  have sub: "set (js_map ?ps) \<subseteq> (\<lambda>r. (rq_user r, r)) ` set rs"
    using set_js_map_subset [of ?ps] by simp
  have "rq_user (snd p) = fst p" if "p \<in> set (js_map ?ps)" for p
    using sub that by auto
  then have key: "map rq_user (dedupe_by_user rs) = map fst (js_map ?ps)"
    by (simp add: dedupe_by_user_def)
  then show "distinct (map rq_user (dedupe_by_user rs))" by simp
  show "set (dedupe_by_user rs) \<subseteq> set rs" using sub by (auto simp: dedupe_by_user_def)
  have "rq_user ` set (dedupe_by_user rs) = fst ` set (js_map ?ps)"
    using key by (metis list.set_map)
  then show "rq_user ` set (dedupe_by_user rs) = rq_user ` set rs" by (simp add: image_image)
qed

lemma dedupe_id: "distinct (map rq_user rs) \<Longrightarrow> dedupe_by_user rs = rs"
  by (simp add: dedupe_by_user_def js_map_id comp_def)

lemma change_keeps:
  assumes "conv_ok cv" and "change now requests oi cv = Inr (cv', n)"
    and "\<forall>r \<in> set requests. app_event (rq_event r)"
  shows "conv_ok cv'"
proof -
  from assms(2) obtain cs where
    run: "change_membership_in_transaction now (dedupe_by_user requests) oi cv = Inr (cv', cs)"
    by (auto simp: change_def change_membership_def bind_result_Inr_iff)
  have "\<forall>r \<in> set (dedupe_by_user requests). app_event (rq_event r)"
    using assms(3) dedupe_by_user_facts(2) by blast
  with run show ?thesis by (rule change_tx_keeps [OF assms(1) dedupe_by_user_facts(1), rotated])
qed

lemma change_beside_unfold:
  "change_beside now requests oi seen cv =
     bind_result (plan_membership_changes (dedupe_by_user requests)
         (requested_rows (dedupe_by_user requests) seen) (has_roster seen) (leaf_users seen) oi)
       (\<lambda>cs. bind_result (apply_participant_transitions now cs cv) (\<lambda>cv'. Inr (cv', length cs)))"
proof -
  have leaves: "map snd (if has_roster seen then find_active_leaves seen else []) = leaf_users seen"
    by (auto simp: leaf_users_def find_active_leaves_def has_roster_def)
  show ?thesis unfolding change_beside_def Let_def requested_rows_def leaves ..
qed

lemma change_beside_keeps:
  assumes ok: "conv_ok cv" and run: "change_beside now requests oi seen cv = Inr (cv', n)"
    and same: "cv_roster seen = cv_roster cv" and app: "\<forall>r \<in> set requests. app_event (rq_event r)"
  shows "conv_ok cv'"
proof -
  have rows: "has_roster seen = has_roster cv" "leaf_users seen = leaf_users cv"
    using same leaf_users_cong [OF same] by (simp_all add: has_roster_def)
  from run obtain cs where plan: "plan_membership_changes (dedupe_by_user requests)
      (requested_rows (dedupe_by_user requests) seen) (has_roster cv) (leaf_users cv) oi = Inr cs"
    and wrote: "apply_participant_transitions now cs cv = Inr cv'"
    by (auto simp: change_beside_unfold bind_result_Inr_iff rows)
  have "\<forall>r \<in> set (dedupe_by_user requests). app_event (rq_event r)"
    using app dedupe_by_user_facts(2) by blast
  then show ?thesis by (rule plan_apply_keeps [OF ok dedupe_by_user_facts(1) _ plan wrote])
qed

definition add_requests :: "(user_id \<times> entitlement) list \<Rightarrow> membership_request list" where
  "add_requests members = dedupe_by_user (map (\<lambda>(u, en).
     \<lparr>rq_user = u, rq_event = (if en = DIRECT then ADD_DIRECT else ADD_INVITE)\<rparr>) members)"

lemma add_requests_facts:
  "distinct (map rq_user (add_requests members))"
  "r \<in> set (add_requests members) \<Longrightarrow> rq_event r = ADD_DIRECT \<or> rq_event r = ADD_INVITE"
  "rq_user ` set (add_requests members) = fst ` set members"
proof -
  let ?rs = "map (\<lambda>(u, en).
     \<lparr>rq_user = u, rq_event = (if en = DIRECT then ADD_DIRECT else ADD_INVITE)\<rparr>) members"
  show "distinct (map rq_user (add_requests members))"
    unfolding add_requests_def by (rule dedupe_by_user_facts(1))
  show "rq_event r = ADD_DIRECT \<or> rq_event r = ADD_INVITE" if "r \<in> set (add_requests members)"
  proof -
    from that have "r \<in> set ?rs"
      unfolding add_requests_def using dedupe_by_user_facts(2) by blast
    then show ?thesis by (auto split: if_splits)
  qed
  show "rq_user ` set (add_requests members) = fst ` set members"
    unfolding add_requests_def dedupe_by_user_facts(3) by force
qed

lemma add_membersE:
  assumes "add_members now members actor cv = Inr (cv', evs, n)"
  obtains cs where "lock_and_assert_actor_role actor group_member_roles cv = Inr ()"
    and "change_membership_in_transaction now (add_requests members) Throw cv = Inr (cv', cs)"
    and "cs = [] \<or> count_group_members cv' \<le> max_group_members"
    and "added_events actor cs = Inr evs" and "n = length cs"
  using assms
  by (auto simp: add_members_def in_transaction_as_role_def add_requests_def Let_def bind_result_Inr_iff)

lemma add_members_keeps:
  assumes "conv_ok cv" and "add_members now members actor cv = Inr (cv', evs, n)"
  shows "conv_ok cv'"
  using assms(2)
proof (cases rule: add_membersE)
  case (1 cs)
  have "\<forall>r \<in> set (add_requests members). app_event (rq_event r)"
    using add_requests_facts(2) by (fastforce simp: app_event_def)
  then show ?thesis by (rule change_tx_keeps [OF assms(1) add_requests_facts(1) _ 1(2)])
qed

lemma remove_membersE:
  assumes "remove_members now users actor cv = Inr (cv', n)"
  obtains cs where "change_membership_in_transaction now
      (dedupe_by_user (map (\<lambda>u. \<lparr>rq_user = u, rq_event = REMOVE\<rparr>) users)) Throw cv = Inr (cv', cs)"
    and "n = length cs"
    and "\<forall>a. actor = Some a \<longrightarrow> lock_and_assert_actor_role a group_manager_roles cv = Inr ()"
proof -
  note twice = dedupe_id [OF dedupe_by_user_facts(1)]
  show thesis
    using assms that
    by (auto simp: remove_members_def change_def change_membership_def in_transaction_as_role_def
        twice Let_def bind_result_Inr_iff split: option.splits)
qed

lemma remove_members_keeps:
  assumes "conv_ok cv" and "remove_members now users actor cv = Inr (cv', n)"
  shows "conv_ok cv'"
  using assms(2)
proof (cases rule: remove_membersE)
  case (1 cs)
  let ?rs = "map (\<lambda>u. \<lparr>rq_user = u, rq_event = REMOVE\<rparr>) users"
  have "\<forall>r \<in> set (dedupe_by_user ?rs). app_event (rq_event r)"
    using dedupe_by_user_facts(2) [of ?rs] by (force simp: app_event_def)
  then show ?thesis by (rule change_tx_keeps [OF assms(1) dedupe_by_user_facts(1) _ 1(1)])
qed

text \<open>The writes of role and state outside the state machine.\<close>

lemma state_update:
  "state_of (cv\<lparr>cv_parts := AList.update u p (cv_parts cv)\<rparr>) v =
    (if v = u then Some (pt_state p) else state_of cv v)"
  by (simp add: state_of_def)

lemma conv_ok_update:
  assumes ok: "conv_ok cv" and eq: "cv' = cv\<lparr>cv_parts := AList.update u p (cv_parts cv)\<rparr>"
    and "u \<in> set (leaf_users cv) \<Longrightarrow> may_hold_leaf (cv_group cv) (Some (pt_state p))"
    and "pt_state p = JOINING \<Longrightarrow> has_roster cv"
    and "pt_state p = LEAVING \<Longrightarrow> u \<in> set (leaf_users cv)"
  shows "conv_ok cv'"
  by (rule conv_ok_parts [OF ok, of _ _ "cv_rounds cv"])
     (use assms conv_okD [OF ok] in \<open>auto simp: distinct_update state_update split: if_splits\<close>)

lemma update_archived_keeps:
  assumes "conv_ok cv" and "update_archived_state now u archived cv = Inr cv'"
  shows "conv_ok cv'"
  using assms
  by (auto simp: update_archived_state_def intro!: conv_ok_update [OF assms(1) refl]
      split: option.splits if_splits)

lemma conv_ok_role:
  assumes ok: "conv_ok cv" and "map_of (cv_parts cv) u = Some p" and "pt_state q = pt_state p"
  shows "conv_ok (cv\<lparr>cv_parts := AList.update u q (cv_parts cv)\<rparr>)"
proof -
  have "state_of cv u = Some (pt_state q)" using assms by (simp add: state_of_def)
  then show ?thesis
    using conv_ok_update [OF ok refl, of u q] conv_okD(4-6) [OF ok, of u] by auto
qed

lemma transfer_ownership_keeps:
  assumes "conv_ok cv" and "transfer_group_ownership current new_owner cv = Inr cv'"
  shows "conv_ok cv'"
proof -
  from assms(2) obtain p q where p: "map_of (cv_parts cv) new_owner = Some p"
    and q: "map_of (AList.update new_owner (p\<lparr>pt_role := OWNER\<rparr>) (cv_parts cv)) current = Some q"
    and cv': "cv' = cv\<lparr>cv_parts := AList.update current (q\<lparr>pt_role := ADMIN\<rparr>)
        (AList.update new_owner (p\<lparr>pt_role := OWNER\<rparr>) (cv_parts cv))\<rparr>"
    by (auto simp: transfer_group_ownership_def Let_def split: option.splits if_splits)
  let ?mid = "cv\<lparr>cv_parts := AList.update new_owner (p\<lparr>pt_role := OWNER\<rparr>) (cv_parts cv)\<rparr>"
  have "conv_ok ?mid" by (rule conv_ok_role [OF assms(1) p]) simp
  from conv_ok_role [OF this, of current q "q\<lparr>pt_role := ADMIN\<rparr>"] q cv' show ?thesis by simp
qed

lemma stamp_keeps:
  assumes "conv_ok cv"
  shows "conv_ok (fst (stamp_missing_pending_since now cv))"
proof -
  let ?f = "\<lambda>p :: participant. if pt_state p = PENDING \<and> pt_pendingSince p = None then p\<lparr>pt_pendingSince := Some now\<rparr> else p"
  have eq: "fst (stamp_missing_pending_since now cv)
      = cv\<lparr>cv_parts := map (\<lambda>(u, p). (u, ?f p)) (cv_parts cv), cv_rounds := cv_rounds cv\<rparr>"
    by (simp add: stamp_missing_pending_since_def Let_def)
  have keys: "map fst (map (\<lambda>(u, p). (u, ?f p)) ps) = map fst ps" for ps :: "(user_id \<times> participant) list" by auto
  have "map_of (map (\<lambda>(u, p). (u, ?f p)) ps) v = map_option ?f (map_of ps v)" for ps :: "(user_id \<times> participant) list" and v
    by (induction ps) auto
  moreover have "pt_state (?f p) = pt_state p" for p by simp
  ultimately have st: "state_of (fst (stamp_missing_pending_since now cv)) v = state_of cv v" for v
    unfolding eq by (simp add: state_of_def option.map_comp comp_def cong: option.map_cong)
  show ?thesis
  proof (rule conv_ok_parts [OF assms _ eq])
    show "distinct (map fst (map (\<lambda>(u, p). (u, ?f p)) (cv_parts cv)))"
      unfolding keys by (rule conv_okD(1) [OF assms])
  qed (use conv_okD(4-6) [OF assms] st in auto)
qed

lemma leaf_users_iff: "u \<in> set (leaf_users cv) \<longleftrightarrow> (\<exists>d. (d, u) \<in> set (find_active_leaves cv))"
  by (force simp: leaf_users_def)

text \<open>
  Closing a group retires exactly the owner's live leaves: with distinct devices, filtering by
  device id is filtering by user.
\<close>

lemma own_leaves_filter:
  assumes "distinct (map fst ls)"
  shows "filter (\<lambda>l. fst l \<notin> set (map fst (filter (\<lambda>l. snd l = u) ls))) ls = filter (\<lambda>l. snd l \<noteq> u) ls"
proof (rule filter_cong [OF refl])
  fix l assume l: "l \<in> set ls"
  have "l = m" if "m \<in> set ls" "fst m = fst l" for m
    using that l assms by (metis distinct_map inj_onD)
  with l show "(fst l \<notin> set (map fst (filter (\<lambda>l. snd l = u) ls))) = (snd l \<noteq> u)" by force
qed

lemma close_sole_ownerE:
  assumes "close_sole_owner_group u e cv = Inr cv'"
  obtains p cv1 n where "map_of (cv_parts cv) u = Some p" and "pt_state p = ACTIVE" and "pt_role p = OWNER"
    and "cv1 = cv\<lparr>cv_parts := AList.update u (p\<lparr>pt_state := DECLINED\<rparr>) (cv_parts cv)\<rparr>"
    and "remove_leaves (map fst (filter (\<lambda>l. snd l = u) (find_active_leaves cv1))) e cv1 = Inr (cv', n)"
    and "\<forall>x \<in> set (cv_parts cv). fst x \<noteq> u \<longrightarrow> pt_state (snd x) \<noteq> ACTIVE"
  using assms
  by (auto simp: close_sole_owner_group_def in_transaction_as_role_def lock_and_assert_actor_role_def
      Let_def bind_result_Inr_iff filter_empty_conv case_prod_beta split: option.splits)

lemma close_sole_owner_keeps:
  assumes ok: "conv_ok cv" and "close_sole_owner_group u e cv = Inr cv'" and "e \<le> cv_epoch cv"
  shows "conv_ok cv'"
  using assms(2)
proof (cases rule: close_sole_ownerE)
  case (1 p cv1 n)
  let ?own = "map fst (filter (\<lambda>l. snd l = u) (find_active_leaves cv1))"
  note rl = 1(5)
  have al1: "find_active_leaves cv1 = find_active_leaves cv"
    using 1(4) by (simp add: find_active_leaves_def)
  have st1: "state_of cv1 v = (if v = u then Some DECLINED else state_of cv v)" for v
    using 1(4) by (simp add: state_update)
  note frame = remove_leaves_frame [OF rl]
  have same: "cv_parts cv' = cv_parts cv1" "cv_epoch cv' = cv_epoch cv" "cv_handshakes cv' = cv_handshakes cv"
    "cv_groupInfo cv' = cv_groupInfo cv" "cv_group cv' = cv_group cv"
    by (subst frame, simp add: 1(4))+
  have st: "state_of cv' v = (if v = u then Some DECLINED else state_of cv v)" for v
    using same(1) st1 by (simp add: state_of_def)
  have al: "find_active_leaves cv' = filter (\<lambda>l. snd l \<noteq> u) (find_active_leaves cv)"
    using remove_leaves_active(1) [OF rl] own_leaves_filter [OF conv_okD(2) [OF ok]] al1 by simp
  have lu: "v \<in> set (leaf_users cv') \<longleftrightarrow> v \<noteq> u \<and> v \<in> set (leaf_users cv)" for v
    by (auto simp: leaf_users_def al)
  have hr: "has_roster cv' = has_roster cv"
    using remove_leaves_rows [OF rl] 1(4) by (simp add: has_roster_def)
  have ep: "epochs_ok (cv_epoch cv) (cv_roster cv')"
    using remove_leaves_epochs [OF rl _ assms(3)] ok 1(4) by (simp add: conv_ok_def roster_ok_def)
  have "distinct (map fst (cv_parts cv'))"
    using conv_okD(1) [OF ok] 1(4) same(1) by (simp add: distinct_update)
  moreover have "roster_ok cv'"
    using ok ep al hr same(2) by (simp add: conv_ok_def roster_ok_def distinct_map_filter)
  moreover have "log_ok cv'" using ok same by (simp add: conv_ok_def log_ok_def cong: option.case_cong)
  moreover have "leaves_ok cv'" using conv_okD(4) [OF ok] by (simp add: leaves_ok_def lu st same(5))
  moreover have "phases_ok cv'" using conv_okD(5,6) [OF ok] by (simp add: phases_iff lu st hr)
  ultimately show ?thesis by (simp add: conv_ok_def)
qed

lemma leave_group_keeps:
  assumes "conv_ok cv" and "leave_group now u seen cv = Inr cv'" and "cv_epoch seen \<le> cv_epoch cv"
  shows "conv_ok cv'"
proof -
  have "conv_ok cv'" if "map_sum id fst (remove_members now [u] None cv) = Inr cv'"
    using that remove_members_keeps [OF assms(1)] by (cases "remove_members now [u] None cv") auto
  with assms(2,3) close_sole_owner_keeps [OF assms(1)] show ?thesis
    by (auto simp: leave_group_def split: option.splits if_splits)
qed

end
