(* ===== verification/Base64.thy ===== *)
theory Base64
  imports Prelude
begin

text \<open>
  \<open>Buffer.from(bytes).toString('base64')\<close> and \<open>Buffer.from(text, 'base64')\<close> of Node, which every MLS
  endpoint uses to carry bytes in JSON: RFC 4648 with padding. The decoder stops at the padding and,
  as Node does, drops the bits of an incomplete last group; the DTOs only let valid base64 reach it
  (\<open>@IsBase64\<close>).
\<close>

section \<open>Sextets\<close>

text \<open>The alphabet A-Z, a-z, 0-9, +, / by code point.\<close>

definition b64_char :: "nat \<Rightarrow> char" where
  "b64_char n =
     char_of (if n < 26 then n + 65 else if n < 52 then n + 71 else if n < 62 then n - 4
              else if n = 62 then 43 else 47)"

definition b64_value :: "char \<Rightarrow> nat" where
  "b64_value c =
     (let n = of_char c :: nat in
      if 65 \<le> n \<and> n \<le> 90 then n - 65
      else if 97 \<le> n \<and> n \<le> 122 then n - 71
      else if 48 \<le> n \<and> n \<le> 57 then n + 4
      else if n = 43 then 62 else 63)"

section \<open>Encoding and decoding\<close>

fun base64_encode :: "bytes \<Rightarrow> string" where
  "base64_encode (a # b # c # bs) =
     (let x = unat a; y = unat b; z = unat c in
      b64_char (x div 4) # b64_char (x mod 4 * 16 + y div 16) #
      b64_char (y mod 16 * 4 + z div 64) # b64_char (z mod 64) # base64_encode bs)"
| "base64_encode [a, b] =
     (let x = unat a; y = unat b in
      [b64_char (x div 4), b64_char (x mod 4 * 16 + y div 16), b64_char (y mod 16 * 4), CHR ''=''])"
| "base64_encode [a] = [b64_char (unat a div 4), b64_char (unat a mod 4 * 16), CHR ''='', CHR ''='']"
| "base64_encode [] = []"

fun sextets_to_bytes :: "nat list \<Rightarrow> bytes" where
  "sextets_to_bytes (p # q # r # s # rest) =
     of_nat (p * 4 + q div 16) # of_nat (q mod 16 * 16 + r div 4) # of_nat (r mod 4 * 64 + s)
       # sextets_to_bytes rest"
| "sextets_to_bytes [p, q, r] = [of_nat (p * 4 + q div 16), of_nat (q mod 16 * 16 + r div 4)]"
| "sextets_to_bytes [p, q] = [of_nat (p * 4 + q div 16)]"
| "sextets_to_bytes _ = []"

definition base64_decode :: "string \<Rightarrow> bytes" where
  "base64_decode s = sextets_to_bytes (map b64_value (takeWhile (\<lambda>c. c \<noteq> CHR ''='') s))"

section \<open>The round trip\<close>

lemma b64_value_char:
  assumes "n < 64"
  shows "b64_value (b64_char n) = n" and "b64_char n \<noteq> CHR ''=''"
proof -
  let ?m = "if n < 26 then n + 65 else if n < 52 then n + 71 else if n < 62 then n - 4
    else if n = 62 then 43 else 47"
  have code: "of_char (b64_char n) = ?m"
    using assms by (simp add: b64_char_def of_char_of)
  then show "b64_value (b64_char n) = n"
    using assms by (auto simp: b64_value_def Let_def)
  have "of_char (b64_char n) \<noteq> (of_char (CHR ''='') :: nat)"
    unfolding code using assms by (simp; arith)
  then show "b64_char n \<noteq> CHR ''=''" by metis
qed

lemma byte_bounds:
  fixes a :: "8 word"
  shows "unat a div 4 < 64" and "unat a div 16 < 16" and "unat a div 64 < 4"
    and "unat a < 256"
proof -
  have "unat a < 2 ^ LENGTH(8)" by (rule unsigned_less)
  then show "unat a < 256" by simp
  then show "unat a div 4 < 64" and "unat a div 16 < 16" and "unat a div 64 < 4" by auto
qed

lemma sextet_bounds:
  fixes a b c :: "8 word"
  shows "unat a mod 4 * 16 + unat b div 16 < 64" "unat b mod 16 * 4 + unat c div 64 < 64"
    "unat a mod 4 * 16 < 64" "unat b mod 16 * 4 < 64"
  using byte_bounds(2) [of b] byte_bounds(3) [of c]
    mod_less_divisor [of 4 "unat a"] mod_less_divisor [of 16 "unat b"] by linarith+

lemma split_high: "k < m \<Longrightarrow> (a * m + k) div m = (a :: nat)" "k < m \<Longrightarrow> (a * m + k) mod m = (k :: nat)"
  by simp_all

lemma regroup:
  fixes x y z :: nat
  assumes "y < 256" "z < 256"
  shows "x div 4 * 4 + (x mod 4 * 16 + y div 16) div 16 = x"
    and "(x mod 4 * 16 + y div 16) mod 16 * 16 + (y mod 16 * 4 + z div 64) div 4 = y"
    and "(y mod 16 * 4 + z div 64) mod 4 * 64 + z mod 64 = z"
    and "x div 4 * 4 + x mod 4 * 16 div 16 = x"
    and "(x mod 4 * 16 + y div 16) mod 16 * 16 + y mod 16 * 4 div 4 = y"
proof -
  have hi: "y div 16 < 16" "z div 64 < 4" using assms by auto
  show "x div 4 * 4 + (x mod 4 * 16 + y div 16) div 16 = x"
    and "(x mod 4 * 16 + y div 16) mod 16 * 16 + (y mod 16 * 4 + z div 64) div 4 = y"
    and "(y mod 16 * 4 + z div 64) mod 4 * 64 + z mod 64 = z"
    and "x div 4 * 4 + x mod 4 * 16 div 16 = x"
    and "(x mod 4 * 16 + y div 16) mod 16 * 16 + y mod 16 * 4 div 4 = y"
    by (simp_all only: split_high hi div_mult_mod_eq nonzero_mult_div_cancel_right)
qed

lemma base64_roundtrip: "base64_decode (base64_encode bs) = bs"
proof (induction bs rule: base64_encode.induct)
  case (1 a b c bs)
  then show ?case
    by (simp add: base64_decode_def Let_def b64_value_char sextet_bounds byte_bounds
        regroup [of "unat b" "unat c"])
next
  case (2 a b)
  then show ?case
    by (simp add: base64_decode_def Let_def b64_value_char sextet_bounds byte_bounds
        regroup [of "unat b" 0])
next
  case (3 a)
  then show ?case
    by (simp add: base64_decode_def b64_value_char sextet_bounds byte_bounds regroup [of 0 0])
next
  case 4
  then show ?case by (simp add: base64_decode_def)
qed

end
