(* ===== verification/Mls_Rules.thy ===== *)
theory Mls_Rules
  imports Membership_Plan Base64
begin

text \<open>
  \<open>backend/src/mls-handshakes/mls-membership-rules.ts\<close>: the rules a Commit's declared membership
  change must follow. A \<open>Map\<close> built from rows is an association list in the order of the rows.
\<close>

section \<open>The rules\<close>

definition has_duplicates :: "string list \<Rightarrow> bool" where
  "has_duplicates ids \<longleftrightarrow> length (js_set ids) \<noteq> length ids"

definition assert_declaration_is_consistent ::
    "device_id \<Rightarrow> device_id list \<Rightarrow> device_id list \<Rightarrow> device_id list \<Rightarrow> unit result" where
  "assert_declaration_is_consistent sender added removed recipients =
     bind_result (require (\<not> (has_duplicates added \<or> has_duplicates removed \<or> has_duplicates recipients))
         (BadRequest (Mls Device_can_appear_only_once))) (\<lambda>_.
     bind_result (require (\<not> (length (js_set added) \<noteq> length recipients
                            \<or> (\<exists>d \<in> set recipients. d \<notin> set added)))
         (BadRequest (Mls Welcomes_to_exactly_the_added_devices))) (\<lambda>_.
     bind_result (require (\<not> (\<exists>d \<in> set removed. d \<in> set added))
         (BadRequest (Mls Cannot_add_and_remove_same_device))) (\<lambda>_.
     require (\<not> (sender \<in> set added \<or> sender \<in> set removed))
         (BadRequest (Mls Device_cannot_add_or_remove_itself)))))"

definition assert_sender_is_active_participant :: "participant_state option \<Rightarrow> unit result" where
  "assert_sender_is_active_participant st =
     require (st = Some ACTIVE) (Forbidden (Mls No_longer_an_active_member))"

definition assert_sender_is_member :: "device_id list \<Rightarrow> device_id \<Rightarrow> unit result" where
  "assert_sender_is_member active_leaf_devices sender =
     require (sender \<in> set active_leaf_devices) (Forbidden (Mls This_device_is_not_a_member_of_the_group))"

definition assert_added_devices_authorized ::
    "device_id list \<Rightarrow> registry \<Rightarrow> (user_id \<times> participant_state) list \<Rightarrow> device_id list
      \<Rightarrow> unit result" where
  "assert_added_devices_authorized added devices states active_leaf_devices =
     each (\<lambda>d. case map_of devices d of
         None \<Rightarrow> Inl (BadRequest (Mls Unknown_recipient_device))
       | Some device \<Rightarrow>
           bind_result (require (dv_revokedAt device = None) (BadRequest (Mls Recipient_device_is_revoked))) (\<lambda>_.
           bind_result (require (d \<notin> set active_leaf_devices) (Conflict (Mls Device_is_already_in_the_group))) (\<lambda>_.
           require (is_entitled_to_leaf (map_of states (dv_user device)))
             (Forbidden (Mls User_not_authorized_to_join))))) added"

definition assert_removed_devices_removable ::
    "device_id list \<Rightarrow> (device_id \<times> user_id) list \<Rightarrow> registry \<Rightarrow> (user_id \<times> participant_state) list
      \<Rightarrow> unit result" where
  "assert_removed_devices_removable removed active_leaf_users devices states =
     each (\<lambda>d. case map_of active_leaf_users d of
         None \<Rightarrow> Inl (BadRequest (Mls Device_is_not_in_the_group))
       | Some u \<Rightarrow>
           require (is_leaf_removable (map_of states u)
               (case map_of devices d of None \<Rightarrow> True | Some device \<Rightarrow> dv_revokedAt device \<noteq> None))
             (Forbidden (Mls Device_is_still_authorized))) removed"

text \<open>
  \<open>attestMembershipChange\<close>; its two non-null assertions \<open>get(deviceId)!\<close> are the \<open>the\<close> of a lookup
  that the two checks above have shown to succeed.
\<close>

definition attest_membership_change ::
    "device_id list \<Rightarrow> device_id list \<Rightarrow> registry \<Rightarrow> (device_id \<times> user_id) list
      \<Rightarrow> added_device list \<times> removed_device list" where
  "attest_membership_change added removed devices active_leaf_users =
     (map (\<lambda>d. let device = the (map_of devices d) in
          \<lparr>ad_device = d, ad_user = dv_user device, ad_key = base64_encode (dv_key device)\<rparr>) added,
      map (\<lambda>d. \<lparr>rm_device = d, rm_user = the (map_of active_leaf_users d)\<rparr>) removed)"

section \<open>The state changes a Commit completes\<close>

definition commit_event_for ::
    "user_id list \<Rightarrow> user_id list \<Rightarrow> user_id list \<Rightarrow> bool \<Rightarrow> (user_id \<times> participant_state) list
      \<Rightarrow> user_id \<Rightarrow> membership_event option" where
  "commit_event_for added fully_removed with_devices just_activated states u =
     (let st = map_of states u in
      if u \<in> set added then Some COMMIT_ADDED
      else if u \<in> set fully_removed \<and> (st = Some LEAVING \<or> st = Some DECLINED) then Some COMMIT_REMOVED
      else if st = Some LEAVING \<and> u \<notin> set with_devices then Some COMMIT_REMOVED
      else if just_activated \<and> st = Some ACTIVE \<and> u \<notin> set with_devices then Some GROUP_ACTIVATED
      else None)"

fun commit_transitions ::
    "(user_id \<times> participant_state) list \<Rightarrow> (user_id \<times> membership_event) list
      \<Rightarrow> participant_transition list result" where
  "commit_transitions states [] = Inr []"
| "commit_transitions states ((u, event) # rest) =
     (case map_of states u of
        None \<Rightarrow> Inl (Conflict (Mls Cannot_complete_event_in_state))
      | Some from \<Rightarrow>
          (case resolve_membership_transition (From from) event True of
             Illegal \<Rightarrow> Inl (Conflict (Mls Cannot_complete_event_in_state))
           | Noop \<Rightarrow> commit_transitions states rest
           | Change to \<Rightarrow> bind_result (commit_transitions states rest)
               (\<lambda>ts. Inr (\<lparr>tr_user = u, tr_from = Some from, tr_to = to\<rparr> # ts))))"

definition plan_commit_transitions ::
    "(user_id \<times> participant_state) list \<Rightarrow> user_id list \<Rightarrow> user_id list \<Rightarrow> user_id list \<Rightarrow> bool
      \<Rightarrow> participant_transition list result" where
  "plan_commit_transitions states added fully_removed with_devices just_activated =
     (let event_for = commit_event_for added fully_removed with_devices just_activated states;
          users = js_set (js_set added @ js_set fully_removed @ map fst states);
          events = List.map_filter (\<lambda>u. map_option (Pair u) (event_for u)) users
      in commit_transitions states events)"

definition assert_joiner_is_entitled :: "participant_state option \<Rightarrow> unit result" where
  "assert_joiner_is_entitled st = require (is_entitled_to_leaf st) (Forbidden (Mls Not_entitled_to_join))"

section \<open>What the checks guarantee\<close>

lemma no_duplicates [simp]: "has_duplicates ids \<longleftrightarrow> \<not> distinct ids"
proof -
  have "length (js_set ids) = length (remdups (rev ids))" by (simp add: js_set_def)
  moreover have "(length (remdups (rev ids)) = length ids) = distinct ids"
    using length_remdups_eq [of "rev ids"] by (metis distinct_rev distinct_remdups remdups_id_iff_distinct length_rev)
  ultimately show ?thesis by (simp add: has_duplicates_def)
qed

lemma declaration_ok:
  "assert_declaration_is_consistent sender added removed recipients = Inr u \<longleftrightarrow>
     distinct added \<and> distinct removed \<and> distinct recipients \<and> set recipients = set added
     \<and> set added \<inter> set removed = {} \<and> sender \<notin> set added \<union> set removed"
proof -
  have size: "(length (js_set added) = length recipients \<and> (\<forall>d \<in> set recipients. d \<in> set added))
      = (set recipients = set added)" if "distinct added" "distinct recipients"
    using that by (auto simp: js_set_id dest: card_subset_eq [OF List.finite_set] distinct_card)
       (metis card_subset_eq distinct_card List.finite_set subsetI)+
  show ?thesis
  proof (cases "distinct added \<and> distinct recipients")
    case True
    with size show ?thesis
      unfolding assert_declaration_is_consistent_def by (auto simp: bind_result_Inr_iff)
  next
    case False
    then show ?thesis
      unfolding assert_declaration_is_consistent_def by (auto simp: bind_result_Inr_iff)
  qed
qed

lemma added_ok:
  "assert_added_devices_authorized added devices states live_devices = Inr u \<longleftrightarrow>
     (\<forall>d \<in> set added. \<exists>dv. map_of devices d = Some dv \<and> dv_revokedAt dv = None
        \<and> d \<notin> set live_devices \<and> is_entitled_to_leaf (map_of states (dv_user dv)))"
  unfolding assert_added_devices_authorized_def each_Inr
  by (intro ball_cong refl) (auto simp: bind_result_Inr_iff split: option.splits)

lemma removed_ok:
  "assert_removed_devices_removable removed leaf_users devices states = Inr u \<longleftrightarrow>
     (\<forall>d \<in> set removed. \<exists>v. map_of leaf_users d = Some v \<and>
        (map_of devices d = None \<or> (\<exists>dv. map_of devices d = Some dv \<and> dv_revokedAt dv \<noteq> None)
         \<or> \<not> is_entitled_to_leaf (map_of states v)))"
  unfolding assert_removed_devices_removable_def each_Inr
  by (intro ball_cong refl) (auto simp: is_leaf_removable_def split: option.splits)

section \<open>What the planned transitions do\<close>

text \<open>The state a Commit gives a user: the event that applies, resolved on the state they have.\<close>

definition commit_outcome ::
    "membership_event option \<Rightarrow> participant_state option \<Rightarrow> participant_state option" where
  "commit_outcome ev st =
     (case (ev, st) of
        (Some e, Some s) \<Rightarrow>
          (case resolve_membership_transition (From s) e True of Change t \<Rightarrow> Some t | _ \<Rightarrow> Some s)
      | _ \<Rightarrow> st)"

lemma commit_transitions_users:
  "commit_transitions states evs = Inr ts \<Longrightarrow> tr_user ` set ts \<subseteq> fst ` set evs"
  by (induction states evs arbitrary: ts rule: commit_transitions.induct)
     (auto simp: bind_result_Inr_iff split: option.splits membership_transition.splits; blast)+

lemma commit_transitions_result:
  assumes "commit_transitions states evs = Inr ts" and "distinct (map fst evs)"
  shows "distinct (map tr_user ts)"
    and "\<forall>c \<in> set ts. map_of states (tr_user c) = tr_from c"
    and "new_state ts (map_of states) u = commit_outcome (map_of evs u) (map_of states u)"
proof -
  have "distinct (map tr_user ts) \<and> (\<forall>c \<in> set ts. map_of states (tr_user c) = tr_from c)
    \<and> new_state ts (map_of states) u = commit_outcome (map_of evs u) (map_of states u)"
    using assms
  proof (induction states evs arbitrary: ts rule: commit_transitions.induct)
    case (1 states)
    then show ?case by (simp add: commit_outcome_def)
  next
    case (2 states v event rest)
    from "2.prems"(1) obtain fr where f: "map_of states v = Some fr"
      by (auto split: option.splits)
    have notin: "map_of rest v = None"
      using "2.prems"(2) by (simp add: map_of_eq_None_iff)
    show ?case
    proof (cases "resolve_membership_transition (From fr) event True")
      case (Change to)
      with "2.prems"(1) f obtain ts' where rec: "commit_transitions states rest = Inr ts'"
        and ts: "ts = \<lparr>tr_user = v, tr_from = Some fr, tr_to = to\<rparr> # ts'"
        by (auto simp: bind_result_Inr_iff)
      from "2.IH"(1) [OF f Change rec] "2.prems"(2)
      have IH: "distinct (map tr_user ts')" "\<forall>c \<in> set ts'. map_of states (tr_user c) = tr_from c"
        "new_state ts' (map_of states) u = commit_outcome (map_of rest u) (map_of states u)" by auto
      have "v \<notin> tr_user ` set ts'"
        using commit_transitions_users [OF rec] "2.prems"(2) by auto
      with IH f ts Change show ?thesis by (auto simp: new_state_Cons commit_outcome_def)
    next
      case Noop
      with "2.prems"(1) f have rec: "commit_transitions states rest = Inr ts" by simp
      from "2.IH"(2) [OF f Noop rec] "2.prems"(2) notin f Noop show ?thesis
        by (auto simp: commit_outcome_def)
    next
      case Illegal
      with "2.prems"(1) f show ?thesis by simp
    qed
  qed
  then show "distinct (map tr_user ts)"
    and "\<forall>c \<in> set ts. map_of states (tr_user c) = tr_from c"
    and "new_state ts (map_of states) u = commit_outcome (map_of evs u) (map_of states u)" by auto
qed

lemma map_of_map_filter_Pair:
  "distinct us \<Longrightarrow> map_of (List.map_filter (\<lambda>u. map_option (Pair u) (f u)) us) u
    = (if u \<in> set us then f u else None)"
  "fst ` set (List.map_filter (\<lambda>u. map_option (Pair u) (f u)) us) \<subseteq> set us"
  "distinct us \<Longrightarrow> distinct (map fst (List.map_filter (\<lambda>u. map_option (Pair u) (f u)) us))"
proof -
  show sub: "fst ` set (List.map_filter (\<lambda>u. map_option (Pair u) (f u)) us) \<subseteq> set us" for us
    by (induction us) (auto simp: List.map_filter_simps split: option.splits)
  show "distinct us \<Longrightarrow> map_of (List.map_filter (\<lambda>u. map_option (Pair u) (f u)) us) u
      = (if u \<in> set us then f u else None)"
    by (induction us) (auto simp: List.map_filter_simps split: option.splits)
  show "distinct us \<Longrightarrow> distinct (map fst (List.map_filter (\<lambda>u. map_option (Pair u) (f u)) us))"
    using sub by (induction us) (auto simp: List.map_filter_simps split: option.splits)
qed

lemma commit_event_known:
  "commit_event_for added gone with_devices act states u = Some e \<Longrightarrow>
    u \<in> set added \<union> set gone \<union> fst ` set states"
  by (auto simp: commit_event_for_def Let_def map_of_eq_None_iff [symmetric] split: if_splits)
     (metis map_of_eq_None_iff option.distinct(1))+

text \<open>The plan as one function of each user's state.\<close>

lemma plan_commit_result:
  assumes "plan_commit_transitions states added gone with_devices act = Inr ts"
  shows "distinct (map tr_user ts)"
    and "\<forall>c \<in> set ts. map_of states (tr_user c) = tr_from c"
    and "new_state ts (map_of states) u =
      commit_outcome (commit_event_for added gone with_devices act states u) (map_of states u)"
proof -
  let ?f = "commit_event_for added gone with_devices act states"
  let ?us = "js_set (js_set added @ js_set gone @ map fst states)"
  let ?evs = "List.map_filter (\<lambda>u. map_option (Pair u) (?f u)) ?us"
  have run: "commit_transitions states ?evs = Inr ts"
    using assms by (simp add: plan_commit_transitions_def Let_def)
  have d: "distinct (map fst ?evs)" by (simp add: map_of_map_filter_Pair(3))
  note res = commit_transitions_result [OF run d]
  show "distinct (map tr_user ts)" by (rule res(1))
  show "\<forall>c \<in> set ts. map_of states (tr_user c) = tr_from c" by (rule res(2))
  have "map_of ?evs u = ?f u"
    using commit_event_known [of added gone with_devices act states u]
    by (cases "?f u") (auto simp: map_of_map_filter_Pair(1))
  with res(3) [of u] show "new_state ts (map_of states) u = commit_outcome (?f u) (map_of states u)"
    by simp
qed

text \<open>
  No event the rules pick is illegal, provided every user who gains a device is entitled to one: the
  refusal in the loop is unreachable after the authorisation check.
\<close>

lemma commit_event_legal:
  assumes "\<forall>v \<in> set added. is_entitled_to_leaf (map_of states v)"
    and "commit_event_for added gone with_devices act states u = Some e"
  obtains s where "map_of states u = Some s" and "resolve_membership_transition (From s) e True \<noteq> Illegal"
proof -
  have "\<exists>s. map_of states u = Some s \<and> resolve_membership_transition (From s) e True \<noteq> Illegal"
  proof (cases "u \<in> set added")
    case True
    with assms obtain s where s: "map_of states u = Some s" and "is_entitled_to_leaf (Some s)"
      by (metis entitled_iff(1) not_Some_eq)
    moreover from True assms(2) have "e = COMMIT_ADDED" by (simp add: commit_event_for_def Let_def)
    ultimately show ?thesis
      by (cases s) (auto simp: resolve_membership_transition_def)
  next
    case False
    with assms(2) show ?thesis
      by (auto simp: commit_event_for_def Let_def resolve_membership_transition_def split: if_splits)
  qed
  with that show thesis by blast
qed

lemma commit_transitions_total:
  "(\<forall>(u, e) \<in> set evs. \<exists>s. map_of states u = Some s
      \<and> resolve_membership_transition (From s) e True \<noteq> Illegal) \<Longrightarrow>
    \<exists>ts. commit_transitions states evs = Inr ts"
  by (induction states evs rule: commit_transitions.induct)
     (force split: membership_transition.splits)+

lemma plan_commit_total:
  assumes "\<forall>v \<in> set added. is_entitled_to_leaf (map_of states v)"
  shows "\<exists>ts. plan_commit_transitions states added gone with_devices act = Inr ts"
  unfolding plan_commit_transitions_def Let_def
proof (rule commit_transitions_total, safe)
  fix u e
  assume "(u, e) \<in> set (List.map_filter
    (\<lambda>u. map_option (Pair u) (commit_event_for added gone with_devices act states u))
    (js_set (js_set added @ js_set gone @ map fst states)))"
  then have "commit_event_for added gone with_devices act states u = Some e"
    by (auto simp: List.map_filter_def)
  then show "\<exists>s. map_of states u = Some s \<and> resolve_membership_transition (From s) e True \<noteq> Illegal"
    using commit_event_legal [OF assms] by metis
qed

end
