(* ===== verification/Mls_Commit.thy ===== *)
theory Mls_Commit
  imports Conversation_Invariant Mls_Rules
begin

text \<open>
  \<open>backend/src/mls-handshakes/mls-handshakes.repository.ts\<close>: accepting a Commit (the epoch
  compare-and-set, the roster and participant changes, the stored handshake, snapshot and Welcomes
  of one transaction), with \<open>mls-group-info.repository.ts\<close> and the reads of a conversation's log.
\<close>

section \<open>The group snapshot\<close>

definition save_group_info :: "nat \<Rightarrow> bytes \<Rightarrow> conversation \<Rightarrow> conversation" where
  "save_group_info epoch payload cv =
     (case cv_groupInfo cv of
        Some (e, _) \<Rightarrow> (if e < epoch then cv\<lparr>cv_groupInfo := Some (epoch, payload)\<rparr> else cv)
      | None \<Rightarrow> cv\<lparr>cv_groupInfo := Some (epoch, payload)\<rparr>)"

definition describes_epoch :: "nat \<Rightarrow> conversation \<Rightarrow> bool" where
  "describes_epoch epoch cv = (case cv_groupInfo cv of None \<Rightarrow> False | Some (e, _) \<Rightarrow> e = epoch)"

definition delete_if_describes_epoch :: "nat \<Rightarrow> conversation \<Rightarrow> conversation" where
  "delete_if_describes_epoch epoch cv =
     (if describes_epoch epoch cv then cv\<lparr>cv_groupInfo := None\<rparr> else cv)"

definition find_current :: "conversation \<Rightarrow> (nat \<times> bytes) option" where
  "find_current cv =
     (case cv_groupInfo cv of
        Some info \<Rightarrow> (if fst info = cv_epoch cv then Some info else None)
      | None \<Rightarrow> None)"

section \<open>The Commit\<close>

datatype commit_sender = Member | External

record commit_to_accept =
  ca_epoch :: nat
  ca_device :: device_id
  ca_user :: user_id
  ca_payload :: bytes
  ca_sha256 :: string
  ca_added :: "device_id list"
  ca_removed :: "device_id list"
  ca_welcomes :: "(device_id \<times> bytes) list"
  ca_groupInfo :: "bytes option"
  ca_sender :: commit_sender
  ca_resync :: bool

datatype accept_result = Accepted handshake | Duplicate handshake | Lost handshake

text \<open>The reads of \<open>applyMembershipChange\<close>: the devices named by the Commit, everyone's state.\<close>

definition commit_devices :: "registry \<Rightarrow> commit_to_accept \<Rightarrow> registry" where
  "commit_devices reg c = filter (\<lambda>(d, _). d \<in> set (ca_added c @ ca_removed c)) reg"

definition participant_states :: "conversation \<Rightarrow> (user_id \<times> participant_state) list" where
  "participant_states cv = map (\<lambda>(u, p). (u, pt_state p)) (cv_parts cv)"

text \<open>\<open>applyMembershipChange\<close> up to the attestation: every refusal, in the order of the code.\<close>

definition check_membership_change :: "registry \<Rightarrow> commit_to_accept \<Rightarrow> conversation \<Rightarrow> unit result" where
  "check_membership_change reg c cv =
     (let just_activated = \<not> has_roster cv;
          active_leaves = (if just_activated then [] else find_active_leaves cv);
          active_devices = map fst active_leaves;
          devices = commit_devices reg c;
          states = participant_states cv;
          sender_state = map_of states (ca_user c)
      in bind_result (require (\<not> (just_activated \<and> ca_sender c = External))
           (BadRequest (Mls There_is_no_group_to_join_yet))) (\<lambda>_.
         bind_result (require (\<not> (just_activated \<and> ca_epoch c \<noteq> 0))
           (BadRequest (Mls Conversation_predates_membership_tracking))) (\<lambda>_.
         bind_result (if ca_sender c = Member \<and> \<not> just_activated
           then assert_sender_is_member active_devices (ca_device c) else Inr ()) (\<lambda>_.
         bind_result (require (\<not> (ca_resync c \<and> ca_device c \<notin> set active_devices))
           (Conflict (Mls No_leaf_to_replace))) (\<lambda>_.
         bind_result (if ca_sender c = Member then assert_sender_is_active_participant sender_state
           else assert_joiner_is_entitled sender_state) (\<lambda>_.
         bind_result (assert_added_devices_authorized (ca_added c) devices states active_devices) (\<lambda>_.
         assert_removed_devices_removable (ca_removed c) active_leaves devices states)))))))"

text \<open>\<open>applyMembershipChange\<close>: the checks, then the roster writes, then the participants.\<close>

definition apply_membership_change ::
    "registry \<Rightarrow> time \<Rightarrow> commit_to_accept \<Rightarrow> conversation
      \<Rightarrow> (conversation \<times> added_device list \<times> removed_device list) result" where
  "apply_membership_change reg now c cv =
     (let new_epoch = ca_epoch c + 1;
          just_activated = \<not> has_roster cv;
          active_leaves = (if just_activated then [] else find_active_leaves cv);
          devices = commit_devices reg c;
          states = participant_states cv;
          attested = attest_membership_change (ca_added c) (ca_removed c) devices active_leaves;
          added_leaves = map (\<lambda>d. (d, dv_user (the (map_of devices d)))) (ca_added c);
          kept = filter (\<lambda>l. fst l \<notin> set (ca_removed c)) active_leaves;
          users_with_devices = map snd kept @ map snd added_leaves
            @ (if just_activated then [ca_user c] else []);
          removed_users = map snd (filter (\<lambda>l. fst l \<in> set (ca_removed c)) active_leaves)
      in bind_result (check_membership_change reg c cv) (\<lambda>_.
         bind_result (remove_leaves (ca_removed c) new_epoch cv) (\<lambda>(cv1, removed_count).
         bind_result (require (\<not> (removed_count \<noteq> length (ca_removed c)))
           (Conflict (Mls Group_changed_while_accepting))) (\<lambda>_.
         bind_result (if just_activated then add_leaves [(ca_device c, ca_user c)] 0 cv1 else Inr cv1) (\<lambda>cv2.
         bind_result (add_leaves added_leaves new_epoch cv2) (\<lambda>cv3.
         bind_result (plan_commit_transitions states (map snd added_leaves)
             (filter (\<lambda>u. u \<notin> set users_with_devices) removed_users) users_with_devices just_activated)
           (\<lambda>transitions.
         bind_result (apply_participant_transitions now transitions cv3) (\<lambda>cv4.
         Inr (cv4, attested)))))))))"

text \<open>\<open>tx.mlsHandshake.create\<close>: the unique index is on conversation and epoch.\<close>

definition create_handshake :: "handshake \<Rightarrow> conversation \<Rightarrow> conversation result" where
  "create_handshake h cv =
     bind_result (require (\<forall>h' \<in> set (cv_handshakes cv). hs_epoch h' \<noteq> hs_epoch h)
         (ServerError Unique_violation))
       (\<lambda>_. Inr (cv\<lparr>cv_handshakes := cv_handshakes cv @ [h]\<rparr>))"

definition find_winner :: "conversation \<Rightarrow> nat \<Rightarrow> handshake option" where
  "find_winner cv epoch = find (\<lambda>h. hs_epoch h = epoch) (cv_handshakes cv)"

text \<open>The transaction of a Commit that wins its epoch.\<close>

definition commit_transaction ::
    "registry \<Rightarrow> time \<Rightarrow> commit_to_accept \<Rightarrow> conversation \<Rightarrow> (conversation \<times> handshake) result" where
  "commit_transaction reg now c cv =
     (let advanced = cv\<lparr>cv_epoch := cv_epoch cv + 1, cv_leaseDevice := None, cv_leaseUntil := None\<rparr>
      in bind_result (apply_membership_change reg now c advanced) (\<lambda>(cv1, added, removed).
           let h = \<lparr>hs_epoch = ca_epoch c, hs_sender = Some (ca_device c), hs_payload = ca_payload c,
                    hs_sha256 = ca_sha256 c, hs_declared = True, hs_added = added, hs_removed = removed\<rparr>
           in bind_result (create_handshake h cv1) (\<lambda>cv2.
              let cv3 = (case ca_groupInfo c of
                    None \<Rightarrow> cv2 | Some info \<Rightarrow> save_group_info (ca_epoch c + 1) info cv2)
              in Inr (cv3\<lparr>cv_welcomes := cv_welcomes cv3 @
                   map (\<lambda>(d, p). \<lparr>wl_recipient = d, wl_payload = p, wl_consumedAt = None\<rparr>)
                     (ca_welcomes c)\<rparr>, h))))"

definition accept_commit ::
    "registry \<Rightarrow> time \<Rightarrow> commit_to_accept \<Rightarrow> conversation \<Rightarrow> (conversation \<times> accept_result) result" where
  "accept_commit reg now c cv =
     (if cv_epoch cv = ca_epoch c
      then bind_result (commit_transaction reg now c cv) (\<lambda>(cv', h). Inr (cv', Accepted h))
      else case find_winner cv (ca_epoch c) of
             None \<Rightarrow> Inl (ServerError (Mls No_handshake_at_epoch))
           | Some winner \<Rightarrow>
               Inr (cv, if hs_sha256 winner = ca_sha256 c then Duplicate winner else Lost winner))"

text \<open>\<open>acceptHandshake\<close> and \<open>acceptExternalJoin\<close>: the two ways a Commit reaches the server.\<close>

definition accept_handshake ::
    "registry \<Rightarrow> time \<Rightarrow> commit_to_accept \<Rightarrow> conversation \<Rightarrow> (conversation \<times> accept_result) result" where
  "accept_handshake reg now c = accept_commit reg now (c\<lparr>ca_sender := Member, ca_resync := False\<rparr>)"

definition accept_external_join ::
    "registry \<Rightarrow> time \<Rightarrow> nat \<Rightarrow> device_id \<Rightarrow> user_id \<Rightarrow> bytes \<Rightarrow> string \<Rightarrow> bytes option \<Rightarrow> bool
      \<Rightarrow> conversation \<Rightarrow> (conversation \<times> accept_result) result" where
  "accept_external_join reg now expected_epoch device user payload sha info resync =
     accept_commit reg now
       \<lparr>ca_epoch = expected_epoch, ca_device = device, ca_user = user, ca_payload = payload,
        ca_sha256 = sha, ca_added = (if resync then [] else [device]), ca_removed = [],
        ca_welcomes = [], ca_groupInfo = info, ca_sender = External, ca_resync = resync\<rparr>"

section \<open>The reads and the two small writes\<close>

definition find_handshake_by_epoch :: "conversation \<Rightarrow> nat \<Rightarrow> device_id option option" where
  "find_handshake_by_epoch cv epoch = map_option hs_sender (find_winner cv epoch)"

text \<open>\<open>recordCommitFault\<close>: unique per epoch and reporter, \<open>skipDuplicates\<close>.\<close>

definition record_commit_fault :: "commit_fault \<Rightarrow> conversation \<Rightarrow> conversation \<times> bool" where
  "record_commit_fault f cv =
     (if \<exists>g \<in> set (cv_faults cv). cf_epoch g = cf_epoch f \<and> cf_reporter g = cf_reporter f
      then (cv, False) else (cv\<lparr>cv_faults := cv_faults cv @ [f]\<rparr>, True))"

definition find_roster_at_epoch ::
    "registry \<Rightarrow> conversation \<Rightarrow> nat \<Rightarrow> (device_id \<times> user_id \<times> bytes option) list" where
  "find_roster_at_epoch reg cv epoch =
     map (\<lambda>(d, u). (d, u, map_option dv_key (map_of reg d))) (find_leaves_at_epoch cv epoch)"

definition find_handshakes_since :: "conversation \<Rightarrow> nat \<Rightarrow> nat \<Rightarrow> handshake list" where
  "find_handshakes_since cv from limit =
     take limit (sort_by (\<lambda>a b. hs_epoch a \<le> hs_epoch b)
       (filter (\<lambda>h. from \<le> hs_epoch h) (cv_handshakes cv)))"

text \<open>The Welcomes of a device in every conversation; a Welcome's id is its conversation and position.\<close>

definition count_pending_welcomes :: "conversation list \<Rightarrow> device_id \<Rightarrow> nat" where
  "count_pending_welcomes cvs device =
     length (filter (\<lambda>w. wl_recipient w = device \<and> wl_consumedAt w = None) (concat (map cv_welcomes cvs)))"

definition mark_welcome_consumed ::
    "time \<Rightarrow> nat \<Rightarrow> device_id \<Rightarrow> conversation \<Rightarrow> conversation \<times> bool" where
  "mark_welcome_consumed now i device cv =
     (if i < length (cv_welcomes cv) \<and> wl_recipient (cv_welcomes cv ! i) = device
         \<and> wl_consumedAt (cv_welcomes cv ! i) = None
      then (cv\<lparr>cv_welcomes := (cv_welcomes cv)[i := (cv_welcomes cv ! i)\<lparr>wl_consumedAt := Some now\<rparr>]\<rparr>, True)
      else (cv, False))"

section \<open>What a Commit must satisfy, read over the rows\<close>

definition added_leaves :: "registry \<Rightarrow> commit_to_accept \<Rightarrow> (device_id \<times> user_id) list" where
  "added_leaves reg c = map (\<lambda>d. (d, dv_user (the (map_of (commit_devices reg c) d)))) (ca_added c)"

definition founder_leaf :: "commit_to_accept \<Rightarrow> conversation \<Rightarrow> (device_id \<times> user_id) list" where
  "founder_leaf c cv = (if has_roster cv then [] else [(ca_device c, ca_user c)])"

text \<open>The live leaves a Commit leaves behind.\<close>

definition leaves_after :: "registry \<Rightarrow> commit_to_accept \<Rightarrow> conversation \<Rightarrow> (device_id \<times> user_id) list" where
  "leaves_after reg c cv = filter (\<lambda>l. fst l \<notin> set (ca_removed c)) (find_active_leaves cv)
     @ founder_leaf c cv @ added_leaves reg c"

text \<open>
  What reaches the repository: a member's declaration has passed
  \<open>assertDeclarationIsConsistent\<close>; an external join adds its own device or, on a resync, nothing.
\<close>

definition declared :: "commit_to_accept \<Rightarrow> bool" where
  "declared c \<longleftrightarrow>
     (case ca_sender c of
        Member \<Rightarrow> \<not> ca_resync c \<and> assert_declaration_is_consistent (ca_device c) (ca_added c)
          (ca_removed c) (map fst (ca_welcomes c)) = Inr ()
      | External \<Rightarrow> ca_removed c = [] \<and> ca_welcomes c = []
          \<and> ca_added c = (if ca_resync c then [] else [ca_device c]))"

definition unauthorised_removal :: "registry \<Rightarrow> conversation \<Rightarrow> device_id \<Rightarrow> user_id \<Rightarrow> bool" where
  "unauthorised_removal reg cv d u \<longleftrightarrow>
     is_entitled_to_leaf (state_of cv u) \<and> (\<exists>dv. map_of reg d = Some dv \<and> dv_revokedAt dv = None)"

lemma declaredD:
  assumes "declared c"
  shows "distinct (ca_added c)" and "distinct (ca_removed c)" and "set (ca_added c) \<inter> set (ca_removed c) = {}"
    and "ca_sender c = Member \<Longrightarrow> ca_device c \<notin> set (ca_added c)"
  using assms by (auto simp: declared_def declaration_ok split: commit_sender.splits if_splits)

lemma map_of_commit_devices:
  "map_of (commit_devices reg c) d = (if d \<in> set (ca_added c @ ca_removed c) then map_of reg d else None)"
proof -
  have "map_of (filter (\<lambda>(d, _). d \<in> S) rs) d = (if d \<in> S then map_of rs d else None)" for S rs
    by (induction rs) auto
  then show ?thesis by (simp only: commit_devices_def)
qed

lemma participant_states_state: "map_of (participant_states cv) u = state_of cv u"
  by (simp add: participant_states_def state_of_def map_of_map)

lemma no_roster_no_leaves: "\<not> has_roster cv \<Longrightarrow> find_active_leaves cv = []"
  by (simp add: has_roster_def find_active_leaves_def)

lemma active_if_roster: "(if \<not> has_roster cv then [] else find_active_leaves cv) = find_active_leaves cv"
  by (simp add: no_roster_no_leaves)

text \<open>\<open>applyMembershipChange\<close>'s checks as one condition.\<close>

lemma check_ok:
  "check_membership_change reg c cv = Inr u \<longleftrightarrow>
     (has_roster cv \<or> ca_sender c = Member \<and> ca_epoch c = 0)
     \<and> (ca_sender c = Member \<longrightarrow> state_of cv (ca_user c) = Some ACTIVE
         \<and> (has_roster cv \<longrightarrow> ca_device c \<in> fst ` set (find_active_leaves cv)))
     \<and> (ca_sender c = External \<longrightarrow> is_entitled_to_leaf (state_of cv (ca_user c)))
     \<and> (ca_resync c \<longrightarrow> ca_device c \<in> fst ` set (find_active_leaves cv))
     \<and> (\<forall>d \<in> set (ca_added c). \<exists>dv. map_of reg d = Some dv \<and> dv_revokedAt dv = None
          \<and> d \<notin> fst ` set (find_active_leaves cv) \<and> is_entitled_to_leaf (state_of cv (dv_user dv)))
     \<and> (\<forall>d \<in> set (ca_removed c). \<exists>v. map_of (find_active_leaves cv) d = Some v
          \<and> \<not> unauthorised_removal reg cv d v)"
proof -
  have add: "assert_added_devices_authorized (ca_added c) (commit_devices reg c) (participant_states cv)
      (map fst (find_active_leaves cv)) = Inr () \<longleftrightarrow>
    (\<forall>d \<in> set (ca_added c). \<exists>dv. map_of reg d = Some dv \<and> dv_revokedAt dv = None
          \<and> d \<notin> fst ` set (find_active_leaves cv) \<and> is_entitled_to_leaf (state_of cv (dv_user dv)))"
    unfolding added_ok by (intro ball_cong refl) (simp add: map_of_commit_devices participant_states_state)
  have rem: "assert_removed_devices_removable (ca_removed c) (find_active_leaves cv) (commit_devices reg c)
      (participant_states cv) = Inr () \<longleftrightarrow>
    (\<forall>d \<in> set (ca_removed c). \<exists>v. map_of (find_active_leaves cv) d = Some v
          \<and> \<not> unauthorised_removal reg cv d v)"
    unfolding removed_ok unauthorised_removal_def
    by (intro ball_cong refl) (auto simp: map_of_commit_devices participant_states_state)
  show ?thesis
    unfolding check_membership_change_def Let_def active_if_roster bind_result_Inr_iff
    by (cases "ca_sender c")
       (auto simp: add rem assert_sender_is_member_def assert_sender_is_active_participant_def
         assert_joiner_is_entitled_def participant_states_state)
qed

lemma added_leaves_registry:
  assumes "check_membership_change reg c cv = Inr ()" and "(d, u) \<in> set (added_leaves reg c)"
  obtains dv where "map_of reg d = Some dv" and "dv_user dv = u" and "d \<in> set (ca_added c)"
    and "dv_revokedAt dv = None" and "is_entitled_to_leaf (state_of cv u)"
proof -
  from assms(2) have d: "d \<in> set (ca_added c)" and u: "u = dv_user (the (map_of reg d))"
    by (auto simp: added_leaves_def map_of_commit_devices)
  with assms(1) obtain dv where "map_of reg d = Some dv" "dv_revokedAt dv = None"
    "is_entitled_to_leaf (state_of cv (dv_user dv))" unfolding check_ok by blast
  with d u that show thesis by simp
qed

lemma check_removed_live:
  assumes "check_membership_change reg c cv = Inr ()"
  shows "set (ca_removed c) \<subseteq> fst ` set (find_active_leaves cv)"
proof
  fix d assume "d \<in> set (ca_removed c)"
  with assms obtain v where "map_of (find_active_leaves cv) d = Some v" unfolding check_ok by blast
  from map_of_SomeD [OF this] show "d \<in> fst ` set (find_active_leaves cv)" by force
qed

lemma fst_added_leaves [simp]: "map fst (added_leaves reg c) = ca_added c"
  by (simp add: added_leaves_def comp_def)

lemma fst_set_added_leaves [simp]: "fst ` set (added_leaves reg c) = set (ca_added c)"
  by (metis fst_added_leaves list.set_map)

lemma distinct_leaves_after:
  assumes "distinct (map fst (find_active_leaves cv))" and "declared c"
    and "check_membership_change reg c cv = Inr ()"
  shows "distinct (map fst (leaves_after reg c cv))"
proof -
  have new: "fst ` set (find_active_leaves cv) \<inter> set (ca_added c) = {}"
  proof -
    have "d \<notin> fst ` set (find_active_leaves cv)" if "d \<in> set (ca_added c)" for d
      using assms(3) that unfolding check_ok by blast
    then show ?thesis by blast
  qed
  have f: "has_roster cv \<or> find_active_leaves cv = [] \<and> ca_device c \<notin> set (ca_added c)"
    using assms(3) declaredD(4) [OF assms(2)] no_roster_no_leaves unfolding check_ok by blast
  show ?thesis
    using f new declaredD(1) [OF assms(2)] distinct_map_filter [OF assms(1)]
    by (auto simp: leaves_after_def founder_leaf_def)
qed

section \<open>What an accepted Commit does\<close>

definition users_gone :: "registry \<Rightarrow> commit_to_accept \<Rightarrow> conversation \<Rightarrow> user_id list" where
  "users_gone reg c cv = filter (\<lambda>u. u \<notin> set (map snd (leaves_after reg c cv)))
     (map snd (filter (\<lambda>l. fst l \<in> set (ca_removed c)) (find_active_leaves cv)))"

text \<open>The event a Commit is for a user, and the state it gives them.\<close>

definition commit_event ::
    "registry \<Rightarrow> commit_to_accept \<Rightarrow> conversation \<Rightarrow> user_id \<Rightarrow> membership_event option" where
  "commit_event reg c cv = commit_event_for (map snd (added_leaves reg c)) (users_gone reg c cv)
     (map snd (leaves_after reg c cv)) (\<not> has_roster cv) (participant_states cv)"

lemma commit_event_for_cong:
  "set a = set a' \<Longrightarrow> set g = set g' \<Longrightarrow> set w = set w' \<Longrightarrow>
    commit_event_for a g w act states = commit_event_for a' g' w' act states"
  by (rule ext) (simp only: commit_event_for_def Let_def)

lemma plan_commit_cong:
  assumes "set w = set w'"
  shows "plan_commit_transitions states a g w act = plan_commit_transitions states a g w' act"
  using commit_event_for_cong [OF refl refl assms, of a g act states]
  by (simp add: plan_commit_transitions_def)

lemma apply_membership_change_unfold:
  "apply_membership_change reg now c cv =
     bind_result (check_membership_change reg c cv) (\<lambda>_.
     bind_result (remove_leaves (ca_removed c) (ca_epoch c + 1) cv) (\<lambda>(cv1, n).
     bind_result (require (n = length (ca_removed c)) (Conflict (Mls Group_changed_while_accepting))) (\<lambda>_.
     bind_result (if has_roster cv then Inr cv1 else add_leaves (founder_leaf c cv) 0 cv1) (\<lambda>cv2.
     bind_result (add_leaves (added_leaves reg c) (ca_epoch c + 1) cv2) (\<lambda>cv3.
     bind_result (plan_commit_transitions (participant_states cv) (map snd (added_leaves reg c))
         (users_gone reg c cv) (map snd (leaves_after reg c cv)) (\<not> has_roster cv)) (\<lambda>ts.
     bind_result (apply_participant_transitions now ts cv3) (\<lambda>cv4.
     Inr (cv4, attest_membership_change (ca_added c) (ca_removed c) (commit_devices reg c)
       (find_active_leaves cv)))))))))"
proof -
  let ?kept = "filter (\<lambda>l. fst l \<notin> set (ca_removed c)) (find_active_leaves cv)"
  let ?w = "map snd ?kept @ map snd (added_leaves reg c) @ (if \<not> has_roster cv then [ca_user c] else [])"
  have w: "set ?w = set (map snd (leaves_after reg c cv))"
    by (auto simp: leaves_after_def founder_leaf_def)
  then have gone: "filter (\<lambda>u. u \<notin> set ?w) xs = filter (\<lambda>u. u \<notin> set (map snd (leaves_after reg c cv))) xs" for xs
    by simp
  have f: "(if \<not> has_roster cv then add_leaves [(ca_device c, ca_user c)] 0 cv1 else Inr cv1)
    = (if has_roster cv then Inr cv1 else add_leaves (founder_leaf c cv) 0 cv1)" for cv1
    by (simp add: founder_leaf_def)
  show ?thesis
    unfolding apply_membership_change_def Let_def active_if_roster not_not f
      added_leaves_def [symmetric] gone plan_commit_cong [OF w] users_gone_def [symmetric]
    by (rule refl)
qed

lemma roster_frame_trans:
  assumes "b = a\<lparr>cv_roster := cv_roster b\<rparr>" and "c = b\<lparr>cv_roster := cv_roster c\<rparr>"
  shows "c = (a :: conversation)\<lparr>cv_roster := cv_roster c\<rparr>"
proof -
  have "c = (a\<lparr>cv_roster := cv_roster b\<rparr>)\<lparr>cv_roster := cv_roster c\<rparr>"
    by (subst assms(1) [symmetric]) (rule assms(2))
  then show ?thesis by simp
qed

text \<open>The roster part: it succeeds exactly as declared and leaves \<open>leaves_after\<close>.\<close>

lemma roster_change_ok:
  assumes ok: "roster_ok cv" and decl: "declared c" and check: "check_membership_change reg c cv = Inr ()"
    and epoch: "cv_epoch cv = ca_epoch c + 1" and old: "epochs_ok (ca_epoch c) (cv_roster cv)"
  obtains cv1 cv2 cv3 where
    "remove_leaves (ca_removed c) (ca_epoch c + 1) cv = Inr (cv1, length (ca_removed c))"
    and "(if has_roster cv then Inr cv1 else add_leaves (founder_leaf c cv) 0 cv1) = Inr cv2"
    and "add_leaves (added_leaves reg c) (ca_epoch c + 1) cv2 = Inr cv3"
    and "find_active_leaves cv3 = leaves_after reg c cv"
    and "has_roster cv3" and "epochs_ok (ca_epoch c + 1) (cv_roster cv3)"
    and "cv3 = cv\<lparr>cv_roster := cv_roster cv3\<rparr>"
    and "\<And>k. has_roster cv \<Longrightarrow> k \<le> ca_epoch c \<Longrightarrow> find_leaves_at_epoch cv3 k = find_leaves_at_epoch cv k"
proof -
  have d: "distinct (map fst (find_active_leaves cv))" using ok by (simp add: roster_ok_def)
  have after: "distinct (map fst (leaves_after reg c cv))"
    by (rule distinct_leaves_after [OF d decl check])
  have sub: "set (ca_removed c) \<subseteq> fst ` set (find_active_leaves cv)"
    by (rule check_removed_live [OF check])
  obtain cv1 n where r: "remove_leaves (ca_removed c) (ca_epoch c + 1) cv = Inr (cv1, n)"
    using remove_leaves_later [OF old, of "ca_epoch c + 1"] by fastforce
  have n: "n = length (ca_removed c)"
    using roster.remove_all_counted [OF r d declaredD(2) [OF decl]] sub by simp
  have a1: "find_active_leaves cv1 = filter (\<lambda>l. fst l \<notin> set (ca_removed c)) (find_active_leaves cv)"
    by (rule roster.remove_active [OF r])
  have e1: "epochs_ok (ca_epoch c + 1) (cv_roster cv1)"
    using remove_leaves_epochs [OF r epochs_ok_mono [OF old]] by simp
  have "\<exists>cv2. (if has_roster cv then Inr cv1 else add_leaves (founder_leaf c cv) 0 cv1) = Inr cv2"
  proof (cases "has_roster cv")
    case False
    then have "distinct (map fst (founder_leaf c cv))"
      "fst ` set (founder_leaf c cv) \<inter> fst ` set (find_active_leaves cv1) = {}"
      by (simp_all add: founder_leaf_def a1 no_roster_no_leaves)
    from roster.add_succeeds [OF this] False show ?thesis by simp
  qed simp
  then obtain cv2 where f: "(if has_roster cv then Inr cv1 else add_leaves (founder_leaf c cv) 0 cv1) = Inr cv2"
    by blast
  have a2: "find_active_leaves cv2 = find_active_leaves cv1 @ founder_leaf c cv"
    using f roster.add_active by (auto simp: founder_leaf_def split: if_splits)
  have e2: "epochs_ok (ca_epoch c + 1) (cv_roster cv2)"
    using f e1 add_leaves_epochs by (auto split: if_splits)
  have "distinct (map fst (added_leaves reg c))" using declaredD(1) [OF decl] by simp
  moreover have "fst ` set (added_leaves reg c) \<inter> fst ` set (find_active_leaves cv2) = {}"
    using after unfolding fst_set_added_leaves by (auto simp: leaves_after_def a2 a1)
  ultimately obtain cv3 where g: "add_leaves (added_leaves reg c) (ca_epoch c + 1) cv2 = Inr cv3"
    using roster.add_succeeds by blast
  have a3: "find_active_leaves cv3 = leaves_after reg c cv"
    using roster.add_active [OF g] by (simp add: a1 a2 leaves_after_def)
  have h2: "has_roster cv2"
    using f remove_leaves_rows [OF r] by (auto simp: founder_leaf_def dest: add_leaves_rows split: if_splits)
  have fr2: "cv2 = cv\<lparr>cv_roster := cv_roster cv2\<rparr>"
  proof (cases "has_roster cv")
    case True
    with f remove_leaves_frame [OF r] show ?thesis by simp
  next
    case False
    with f have "add_leaves (founder_leaf c cv) 0 cv1 = Inr cv2" by simp
    from roster_frame_trans [OF remove_leaves_frame [OF r] add_leaves_frame [OF this]] show ?thesis .
  qed
  show thesis
  proof (rule that [OF _ f g a3])
    show "remove_leaves (ca_removed c) (ca_epoch c + 1) cv = Inr (cv1, length (ca_removed c))"
      using r n by simp
    show "has_roster cv3" using add_leaves_rows [OF g] h2 by simp
    show "epochs_ok (ca_epoch c + 1) (cv_roster cv3)" using add_leaves_epochs [OF g e2] by simp
    show "cv3 = cv\<lparr>cv_roster := cv_roster cv3\<rparr>"
      by (rule roster_frame_trans [OF fr2 add_leaves_frame [OF g]])
    show "find_leaves_at_epoch cv3 k = find_leaves_at_epoch cv k" if "has_roster cv" "k \<le> ca_epoch c" for k
    proof -
      have "cv2 = cv1" using f that(1) by simp
      with roster.replace_past [OF r, of "added_leaves reg c" cv3 k] g that(2) show ?thesis by simp
    qed
  qed
qed

text \<open>Advancing the epoch and clearing the lease changes nothing the checks read.\<close>

definition advance :: "conversation \<Rightarrow> conversation" where
  "advance cv = cv\<lparr>cv_epoch := cv_epoch cv + 1, cv_leaseDevice := None, cv_leaseUntil := None\<rparr>"

lemma advance_simps [simp]:
  "has_roster (advance cv) = has_roster cv" "find_active_leaves (advance cv) = find_active_leaves cv"
  "cv_parts (advance cv) = cv_parts cv" "state_of (advance cv) = state_of cv"
  "participant_states (advance cv) = participant_states cv" "cv_roster (advance cv) = cv_roster cv"
  "cv_epoch (advance cv) = cv_epoch cv + 1" "leaf_users (advance cv) = leaf_users cv"
  "cv_handshakes (advance cv) = cv_handshakes cv" "cv_groupInfo (advance cv) = cv_groupInfo cv"
  "cv_welcomes (advance cv) = cv_welcomes cv" "cv_leaseDevice (advance cv) = None"
  "cv_leaseUntil (advance cv) = None" "find_leaves_at_epoch (advance cv) = find_leaves_at_epoch cv"
  by (simp_all add: advance_def has_roster_def find_active_leaves_def state_of_def fun_eq_iff
      participant_states_def leaf_users_def find_leaves_at_epoch_def)

lemma advance_commit [simp]:
  "check_membership_change reg c (advance cv) = check_membership_change reg c cv"
  "leaves_after reg c (advance cv) = leaves_after reg c cv"
  "commit_event reg c (advance cv) = commit_event reg c cv"
  "users_gone reg c (advance cv) = users_gone reg c cv"
  by (simp_all add: check_membership_change_def leaves_after_def founder_leaf_def commit_event_def users_gone_def
      Let_def)

lemma participant_frame:
  assumes "cv' = cv\<lparr>cv_parts := cv_parts cv', cv_rounds := cv_rounds cv'\<rparr>"
  shows "cv_roster cv' = cv_roster cv" "cv_epoch cv' = cv_epoch cv" "cv_handshakes cv' = cv_handshakes cv"
    "cv_groupInfo cv' = cv_groupInfo cv" "cv_welcomes cv' = cv_welcomes cv" "cv_faults cv' = cv_faults cv"
    "cv_leaseDevice cv' = cv_leaseDevice cv" "cv_leaseUntil cv' = cv_leaseUntil cv"
  by (subst assms, simp)+

lemma roster_frame:
  assumes "cv' = (cv :: conversation)\<lparr>cv_roster := cv_roster cv'\<rparr>"
  shows "cv_parts cv' = cv_parts cv" "cv_epoch cv' = cv_epoch cv" "cv_handshakes cv' = cv_handshakes cv"
    "cv_groupInfo cv' = cv_groupInfo cv" "cv_welcomes cv' = cv_welcomes cv" "cv_faults cv' = cv_faults cv"
    "cv_leaseDevice cv' = cv_leaseDevice cv" "cv_leaseUntil cv' = cv_leaseUntil cv"
  by (subst assms, simp)+

lemma leaves_of_roster:
  "cv_roster cv' = cv_roster cv \<Longrightarrow> find_active_leaves cv' = find_active_leaves cv
    \<and> has_roster cv' = has_roster cv \<and> find_leaves_at_epoch cv' k = find_leaves_at_epoch cv k"
  by (simp add: find_active_leaves_def has_roster_def find_leaves_at_epoch_def)

lemma added_users_entitled:
  assumes "check_membership_change reg c cv = Inr ()"
  shows "\<forall>v \<in> set (map snd (added_leaves reg c)). is_entitled_to_leaf (map_of (participant_states cv) v)"
  using added_leaves_registry [OF assms] by (force simp: participant_states_state)

text \<open>The participants part, on top of the roster part.\<close>

lemma membership_change_ok:
  assumes ok: "roster_ok cv" and keys: "distinct (map fst (cv_parts cv))" and decl: "declared c"
    and check: "check_membership_change reg c cv = Inr ()"
    and epoch: "cv_epoch cv = ca_epoch c + 1" and old: "epochs_ok (ca_epoch c) (cv_roster cv)"
  obtains cv' where "apply_membership_change reg now c cv = Inr (cv',
      attest_membership_change (ca_added c) (ca_removed c) (commit_devices reg c) (find_active_leaves cv))"
    and "find_active_leaves cv' = leaves_after reg c cv"
    and "\<And>u. state_of cv' u = commit_outcome (commit_event reg c cv u) (state_of cv u)"
    and "has_roster cv'" and "epochs_ok (ca_epoch c + 1) (cv_roster cv')"
    and "distinct (map fst (cv_parts cv'))"
    and "cv' = cv\<lparr>cv_roster := cv_roster cv', cv_parts := cv_parts cv', cv_rounds := cv_rounds cv'\<rparr>"
    and "\<And>k. has_roster cv \<Longrightarrow> k \<le> ca_epoch c \<Longrightarrow> find_leaves_at_epoch cv' k = find_leaves_at_epoch cv k"
proof -
  obtain cv1 cv2 cv3 where r:
    "remove_leaves (ca_removed c) (ca_epoch c + 1) cv = Inr (cv1, length (ca_removed c))"
    "(if has_roster cv then Inr cv1 else add_leaves (founder_leaf c cv) 0 cv1) = Inr cv2"
    "add_leaves (added_leaves reg c) (ca_epoch c + 1) cv2 = Inr cv3"
    and al: "find_active_leaves cv3 = leaves_after reg c cv"
    and hr: "has_roster cv3" and ep: "epochs_ok (ca_epoch c + 1) (cv_roster cv3)"
    and fr: "cv3 = cv\<lparr>cv_roster := cv_roster cv3\<rparr>"
    and past: "\<And>k. has_roster cv \<Longrightarrow> k \<le> ca_epoch c \<Longrightarrow>
      find_leaves_at_epoch cv3 k = find_leaves_at_epoch cv k"
    using roster_change_ok [OF ok decl check epoch old] by metis
  note fr3 = roster_frame [OF fr]
  have st3: "state_of cv3 = state_of cv" using fr3(1) by (simp add: state_of_def fun_eq_iff)
  obtain ts where ts: "plan_commit_transitions (participant_states cv) (map snd (added_leaves reg c))
      (users_gone reg c cv) (map snd (leaves_after reg c cv)) (\<not> has_roster cv) = Inr ts"
    using plan_commit_total [OF added_users_entitled [OF check]] by blast
  note plan = plan_commit_result [OF ts]
  have "\<forall>t \<in> set ts. state_of cv3 (tr_user t) = tr_from t"
    using plan(2) by (simp add: st3 participant_states_state)
  then obtain cv4 where ap: "apply_participant_transitions now ts cv3 = Inr cv4"
    using apply_ok_iff [OF plan(1)] by blast
  note fr4 = participant_frame [OF apply_frame [OF ap]]
  have states: "state_of cv4 u = commit_outcome (commit_event reg c cv u) (state_of cv u)" for u
  proof -
    have "map_of (participant_states cv) = state_of cv" by (rule ext) (rule participant_states_state)
    with apply_states [OF ap plan(1), of u] plan(3) [of u] st3 show ?thesis
      by (simp add: commit_event_def)
  qed
  show thesis
  proof (rule that [of cv4])
    show "apply_membership_change reg now c cv = Inr (cv4,
      attest_membership_change (ca_added c) (ca_removed c) (commit_devices reg c) (find_active_leaves cv))"
      unfolding apply_membership_change_unfold
      by (simp only: check r ts ap require_def bind_result_simps prod.case if_True simp_thms)
    show "cv4 = cv\<lparr>cv_roster := cv_roster cv4, cv_parts := cv_parts cv4, cv_rounds := cv_rounds cv4\<rparr>"
    proof -
      have "cv4 = cv3\<lparr>cv_parts := cv_parts cv4, cv_rounds := cv_rounds cv4\<rparr>" by (rule apply_frame [OF ap])
      also have "\<dots> = (cv\<lparr>cv_roster := cv_roster cv3\<rparr>)\<lparr>cv_parts := cv_parts cv4, cv_rounds := cv_rounds cv4\<rparr>"
        by (subst fr) (rule refl)
      finally show ?thesis using fr4(1) by simp
    qed
    show "distinct (map fst (cv_parts cv4))"
      using apply_distinct_keys [OF ap] keys fr3(1) by simp
  qed (use states al hr ep past leaves_of_roster [OF fr4(1)] fr4(1) in simp_all)
qed

text \<open>The whole transaction.\<close>

definition commit_record :: "registry \<Rightarrow> commit_to_accept \<Rightarrow> conversation \<Rightarrow> handshake" where
  "commit_record reg c cv =
     (let (added, removed) = attest_membership_change (ca_added c) (ca_removed c)
            (commit_devices reg c) (find_active_leaves cv)
      in \<lparr>hs_epoch = ca_epoch c, hs_sender = Some (ca_device c), hs_payload = ca_payload c,
          hs_sha256 = ca_sha256 c, hs_declared = True, hs_added = added, hs_removed = removed\<rparr>)"

lemma handshake_epochs_below:
  assumes "log_ok cv" and "h \<in> set (cv_handshakes cv)"
  shows "hs_epoch h < cv_epoch cv"
proof -
  have "hs_epoch h \<in> set (map hs_epoch (cv_handshakes cv))" using assms(2) by simp
  with assms(1) show ?thesis by (simp add: log_ok_def)
qed

lemma commit_transaction_ok:
  assumes ok: "conv_ok cv" and decl: "declared c" and check: "check_membership_change reg c cv = Inr ()"
    and epoch: "cv_epoch cv = ca_epoch c"
  obtains cv' where "commit_transaction reg now c cv = Inr (cv', commit_record reg c cv)"
    and "cv_epoch cv' = ca_epoch c + 1" and "find_active_leaves cv' = leaves_after reg c cv"
    and "\<And>u. state_of cv' u = commit_outcome (commit_event reg c cv u) (state_of cv u)"
    and "has_roster cv'" and "epochs_ok (ca_epoch c + 1) (cv_roster cv')"
    and "distinct (map fst (cv_parts cv'))"
    and "cv_handshakes cv' = cv_handshakes cv @ [commit_record reg c cv]"
    and "cv_groupInfo cv' = (case ca_groupInfo c of None \<Rightarrow> cv_groupInfo cv
      | Some info \<Rightarrow> Some (ca_epoch c + 1, info))"
    and "cv_leaseDevice cv' = None" and "cv_leaseUntil cv' = None"
    and "cv_welcomes cv' = cv_welcomes cv @
      map (\<lambda>(d, p). \<lparr>wl_recipient = d, wl_payload = p, wl_consumedAt = None\<rparr>) (ca_welcomes c)"
    and "\<And>k. has_roster cv \<Longrightarrow> k \<le> ca_epoch c \<Longrightarrow> find_leaves_at_epoch cv' k = find_leaves_at_epoch cv k"
    and "cv_group cv' = cv_group cv"
proof -
  have old: "epochs_ok (ca_epoch c) (cv_roster cv)" using ok epoch by (simp add: conv_ok_def roster_ok_def)
  have rok: "roster_ok (advance cv)"
    using ok by (auto simp: conv_ok_def roster_ok_def intro: epochs_ok_mono)
  obtain cv1 where change: "apply_membership_change reg now c (advance cv) = Inr (cv1,
      attest_membership_change (ca_added c) (ca_removed c) (commit_devices reg c) (find_active_leaves cv))"
    and al: "find_active_leaves cv1 = leaves_after reg c cv"
    and st: "\<And>u. state_of cv1 u = commit_outcome (commit_event reg c cv u) (state_of cv u)"
    and hr: "has_roster cv1" and ep: "epochs_ok (ca_epoch c + 1) (cv_roster cv1)"
    and keys: "distinct (map fst (cv_parts cv1))"
    and fr: "cv1 = (advance cv)\<lparr>cv_roster := cv_roster cv1, cv_parts := cv_parts cv1, cv_rounds := cv_rounds cv1\<rparr>"
    and past: "\<And>k. has_roster cv \<Longrightarrow> k \<le> ca_epoch c \<Longrightarrow>
      find_leaves_at_epoch cv1 k = find_leaves_at_epoch cv k"
    using membership_change_ok [OF rok _ decl, of reg now] conv_okD(1) [OF ok] check epoch old
    by (simp only: advance_simps advance_commit) metis
  have same: "cv_epoch cv1 = ca_epoch c + 1" "cv_handshakes cv1 = cv_handshakes cv"
    "cv_groupInfo cv1 = cv_groupInfo cv" "cv_welcomes cv1 = cv_welcomes cv"
    "cv_leaseDevice cv1 = None" "cv_leaseUntil cv1 = None" "cv_group cv1 = cv_group cv"
    by (subst fr, simp add: epoch advance_def)+
  let ?h = "commit_record reg c cv"
  have fresh: "\<forall>h \<in> set (cv_handshakes cv1). hs_epoch h \<noteq> hs_epoch ?h"
    using handshake_epochs_below [OF conv_okD(3) [OF ok]] epoch same(2)
    by (fastforce simp: commit_record_def case_prod_beta Let_def)
  define cv2 where "cv2 = cv1\<lparr>cv_handshakes := cv_handshakes cv1 @ [?h]\<rparr>"
  have new: "create_handshake ?h cv1 = Inr cv2"
    unfolding create_handshake_def cv2_def using fresh by (simp add: require_def)
  define cv3 where "cv3 = (case ca_groupInfo c of
      None \<Rightarrow> cv2 | Some info \<Rightarrow> save_group_info (ca_epoch c + 1) info cv2)"
  have snap: "cv3 = cv2\<lparr>cv_groupInfo := (case ca_groupInfo c of None \<Rightarrow> cv_groupInfo cv
      | Some info \<Rightarrow> Some (ca_epoch c + 1, info))\<rparr>"
  proof -
    have "e < ca_epoch c + 1" if "cv_groupInfo cv = Some (e, b)" for e b
      using conv_okD(3) [OF ok] that epoch by (simp add: log_ok_def)
    then show ?thesis
      using same(3) by (auto simp: cv3_def cv2_def save_group_info_def split: option.splits)
  qed
  define cv4 where "cv4 = cv3\<lparr>cv_welcomes := cv_welcomes cv3 @
      map (\<lambda>(d, p). \<lparr>wl_recipient = d, wl_payload = p, wl_consumedAt = None\<rparr>) (ca_welcomes c)\<rparr>"
  have run: "commit_transaction reg now c cv = Inr (cv4, ?h)"
    unfolding commit_transaction_def Let_def advance_def [symmetric] change bind_result_simps
    using new by (simp add: commit_record_def Let_def case_prod_beta cv4_def cv3_def)
  have parts: "cv_parts cv4 = cv_parts cv1" "cv_roster cv4 = cv_roster cv1" "cv_epoch cv4 = cv_epoch cv1"
    by (simp_all add: cv4_def snap cv2_def)
  show thesis
  proof (rule that [OF run])
    show "state_of cv4 u = commit_outcome (commit_event reg c cv u) (state_of cv u)" for u
      using st [of u] parts(1) by (simp add: state_of_def)
    show "find_leaves_at_epoch cv4 k = find_leaves_at_epoch cv k" if "has_roster cv" "k \<le> ca_epoch c" for k
      using past [OF that] parts(2) by (simp add: find_leaves_at_epoch_def)
  qed (use al hr ep keys same parts leaves_of_roster [OF parts(2)] in
       \<open>simp_all add: cv4_def snap cv2_def\<close>)
qed

text \<open>Whatever refuses a Commit, it is one of the checks.\<close>

lemma commit_transaction_refused:
  assumes "check_membership_change reg c cv = Inl x"
  shows "commit_transaction reg now c cv = Inl x"
proof -
  have "apply_membership_change reg now c (advance cv) = Inl x"
    by (simp add: apply_membership_change_unfold assms)
  then show ?thesis
    unfolding commit_transaction_def Let_def advance_def [symmetric] by simp
qed

text \<open>What the rows say of a user after the Commit, by the event it was for them.\<close>

lemma commit_outcome_cases:
  assumes check: "check_membership_change reg c cv = Inr ()" and ok: "conv_ok cv"
    and s': "s' = commit_outcome (commit_event reg c cv u) (state_of cv u)"
  shows "u \<in> set (map snd (leaves_after reg c cv)) \<Longrightarrow> may_hold_leaf (cv_group cv) s'"
    and "s' = Some LEAVING \<Longrightarrow> u \<in> set (map snd (leaves_after reg c cv))"
proof -
  let ?w = "map snd (leaves_after reg c cv)" and ?a = "map snd (added_leaves reg c)"
  have ent: "u \<in> set ?a \<Longrightarrow> is_entitled_to_leaf (state_of cv u)"
    using added_users_entitled [OF check] unfolding participant_states_state by blast
  have a_w: "u \<in> set ?a \<Longrightarrow> u \<in> set ?w" by (auto simp: leaves_after_def)
  have gone_w: "u \<in> set (users_gone reg c cv) \<Longrightarrow> u \<notin> set ?w" by (auto simp: users_gone_def)
  have old: "may_hold_leaf (cv_group cv) (state_of cv u)" if "u \<in> set ?w" "u \<notin> set ?a"
  proof -
    from that have "u \<in> set (leaf_users cv) \<or> \<not> has_roster cv \<and> u = ca_user c"
      by (auto simp: leaves_after_def leaf_users_def founder_leaf_def split: if_splits)
    then show ?thesis
      using conv_okD(4) [OF ok] check unfolding check_ok by auto
  qed
  have jn: "state_of cv u = Some JOINING \<Longrightarrow> has_roster cv" using conv_okD(5) [OF ok] by blast
  have lv: "state_of cv u = Some LEAVING \<Longrightarrow> has_roster cv"
    using conv_okD(6) [OF ok] leaf_users_roster by blast
  note eval = commit_outcome_def commit_event_def commit_event_for_def participant_states_state Let_def
    resolve_membership_transition_def mls_only_events_def
  show "u \<in> set ?w \<Longrightarrow> may_hold_leaf (cv_group cv) s'"
  proof (cases "u \<in> set ?a")
    case True
    with ent obtain s where s: "state_of cv u = Some s" "s \<noteq> LEAVING" "s \<noteq> DECLINED"
      by (cases "state_of cv u") auto
    with True s' show ?thesis by (cases s) (auto simp: eval)
  next
    case False
    assume w: "u \<in> set ?w"
    from old [OF w False] obtain s where s: "state_of cv u = Some s" "s \<noteq> JOINING"
      "cv_group cv \<longrightarrow> s \<noteq> DECLINED"
      by (cases "state_of cv u") auto
    with False w gone_w s' show ?thesis by (cases s) (auto simp: eval)
  qed
  show "s' = Some LEAVING \<Longrightarrow> u \<in> set ?w"
  proof (cases "state_of cv u")
    case None
    then show "s' = Some LEAVING \<Longrightarrow> u \<in> set ?w" using s' by (simp add: commit_outcome_def split: option.splits)
  next
    case (Some s)
    then show "s' = Some LEAVING \<Longrightarrow> u \<in> set ?w"
      using s' a_w by (cases s) (auto simp: eval split: if_splits)
  qed
qed

lemma commit_transaction_keeps:
  assumes ok: "conv_ok cv" and decl: "declared c" and "cv_epoch cv = ca_epoch c"
    and run: "commit_transaction reg now c cv = Inr (cv', h)"
  shows "conv_ok cv'"
proof -
  have check: "check_membership_change reg c cv = Inr ()"
    using run commit_transaction_refused by (cases "check_membership_change reg c cv") auto
  show ?thesis
  proof (cases rule: commit_transaction_ok [OF ok decl check assms(3), of now])
    case (1 cv2)
    have "cv2 = cv'" using 1(1) run by simp
    note res = 1(2-9) [unfolded this] and same_type = 1(14) [unfolded this]
    have lu: "leaf_users cv' = map snd (leaves_after reg c cv)" by (simp add: leaf_users_def res(2))
    have "roster_ok cv'"
      using distinct_leaves_after [OF conv_okD(2) [OF ok] decl check] res(1,5)
      by (simp add: roster_ok_def res(2))
    moreover have "log_ok cv'"
      using conv_okD(3) [OF ok] assms(3) res(1)
      by (auto simp: log_ok_def res(7,8) commit_record_def case_prod_beta Let_def split: option.splits)
    moreover have "leaves_ok cv'"
      unfolding leaves_ok_def lu res(3) same_type using commit_outcome_cases(1) [OF check ok refl] by blast
    moreover have "phases_ok cv'"
      unfolding phases_iff lu res(3) using res(4) commit_outcome_cases(2) [OF check ok refl] by blast
    ultimately show ?thesis using res(6) by (simp add: conv_ok_def)
  qed
qed

lemma accept_commit_keeps:
  assumes "conv_ok cv" and "declared c" and "accept_commit reg now c cv = Inr (cv', res)"
  shows "conv_ok cv'"
  using assms commit_transaction_keeps [OF assms(1,2), of reg now]
  by (auto simp: accept_commit_def bind_result_Inr_iff split: if_splits option.splits)

end
