(* ===== verification/Mls_Framing.thy ===== *)
theory Mls_Framing
  imports Chat_State
begin

text \<open>
  \<open>mls-handshake-framing.util.ts\<close>, \<open>mls-external-commit.util.ts\<close> and \<open>mls-group-info.util.ts\<close>: the
  checks of an MLS message's plaintext framing, before anything is stored. The wire decoder, the
  signature checks and the tree arithmetic are the package ts-mls, which is not part of the
  repository: they are the fields of \<open>mls_library\<close>, an argument of every check that calls them. The
  message types below hold the fields the code reads. \<open>ml_identity\<close> is \<open>JSON.parse\<close> of the UTF-8
  credential, read for two string fields.
\<close>

section \<open>What the decoder returns\<close>

datatype content_type = Application | Proposal | Commit

record private_message =
  pm_content :: content_type
  pm_groupId :: bytes
  pm_epoch :: nat

datatype credential = Basic "bytes option" | Other_credential

record leaf_node =
  ln_credential :: credential
  ln_key :: bytes

datatype proposal = External_init | Remove nat | Other_proposal

datatype proposal_entry = Inline proposal | Reference

record public_message =
  pu_newMember :: bool
  pu_content :: content_type
  pu_groupId :: bytes
  pu_epoch :: nat
  pu_proposals :: "proposal_entry list"
  pu_path :: "leaf_node option"

datatype tree_node = Leaf_node leaf_node | Parent_node | Blank_node

text \<open>\<open>gi_tree\<close> is what \<open>ratchetTreeFromExtension\<close> finds, if anything.\<close>

record group_info =
  gi_groupId :: bytes
  gi_epoch :: nat
  gi_tree :: "tree_node list option"
  gi_signer :: nat

datatype mls_message =
    Private_message private_message
  | Public_message public_message
  | Welcome_message
  | Group_info_message group_info
  | Key_package_message

text \<open>\<open>decodeMlsMessage(payload, 0)?.[0]\<close> throws, is undefined, or is a message.\<close>

datatype decoded = Threw | Nothing | Decoded mls_message

record mls_library =
  ml_decode :: "bytes \<Rightarrow> decoded"
  ml_identity :: "bytes \<Rightarrow> (user_id \<times> device_id) option"
  ml_leafToNodeIndex :: "nat \<Rightarrow> nat"
  ml_leafKey :: "tree_node list \<Rightarrow> nat \<Rightarrow> bytes option"
  ml_verifyContent :: "bytes \<Rightarrow> public_message \<Rightarrow> group_info \<Rightarrow> bool"
  ml_verifyGroupInfo :: "group_info \<Rightarrow> bytes \<Rightarrow> bool"

text \<open>\<open>bytesEqual\<close>: lengths, then byte by byte.\<close>

definition bytes_equal :: "bytes \<Rightarrow> bytes \<Rightarrow> bool" where
  "bytes_equal a b =
     (if length a \<noteq> length b then False else (\<forall>i \<in> set [0..<length a]. a ! i = b ! i))"

text \<open>\<open>new TextEncoder().encode(id)\<close>: an id is ASCII.\<close>

definition text_encode :: "string \<Rightarrow> bytes" where
  "text_encode s = map (\<lambda>c. word_of_nat (of_char c)) s"

section \<open>Framing of a member's messages\<close>

definition decode_and_describe :: "mls_library \<Rightarrow> bytes \<Rightarrow> mls_message result" where
  "decode_and_describe lib payload =
     (case ml_decode lib payload of
        Decoded m \<Rightarrow> Inr m
      | _ \<Rightarrow> Inl (BadRequest (Framing Not_a_valid_MLS_message)))"

definition assert_is_commit_for_conversation ::
    "mls_library \<Rightarrow> bytes \<Rightarrow> conversation_id \<Rightarrow> nat \<Rightarrow> unit result" where
  "assert_is_commit_for_conversation lib payload conversation expected_epoch =
     bind_result (decode_and_describe lib payload) (\<lambda>m. case m of
         Private_message pm \<Rightarrow>
           (if pm_content pm \<noteq> Commit then Inl (BadRequest (Framing Payload_must_be_a_commit))
            else if \<not> bytes_equal (pm_groupId pm) (text_encode conversation)
            then Inl (BadRequest (Framing Group_id_does_not_match))
            else if pm_epoch pm \<noteq> expected_epoch then Inl (BadRequest (Framing Epoch_does_not_match))
            else Inr ())
       | _ \<Rightarrow> Inl (BadRequest (Framing Payload_must_be_a_private_message)))"

definition assert_is_application_message ::
    "mls_library \<Rightarrow> bytes \<Rightarrow> conversation_id option \<Rightarrow> unit result" where
  "assert_is_application_message lib payload conversation =
     bind_result (decode_and_describe lib payload) (\<lambda>m. case m of
         Private_message pm \<Rightarrow>
           (if pm_content pm \<noteq> Application
            then Inl (BadRequest (Framing Ciphertext_must_be_an_application_message))
            else case conversation of
                   None \<Rightarrow> Inr ()
                 | Some cid \<Rightarrow> require (bytes_equal (pm_groupId pm) (text_encode cid))
                     (BadRequest (Framing Group_id_does_not_match)))
       | _ \<Rightarrow> Inl (BadRequest (Framing Payload_must_be_a_private_message)))"

definition assert_is_welcome_message :: "mls_library \<Rightarrow> bytes \<Rightarrow> unit result" where
  "assert_is_welcome_message lib payload =
     bind_result (decode_and_describe lib payload) (\<lambda>m.
       require (m = Welcome_message) (BadRequest (Framing Welcome_payload_must_be_a_welcome)))"

section \<open>An external commit\<close>

record external_joiner =
  ej_user :: user_id
  ej_device :: device_id
  ej_key :: bytes
  ej_removedLeaf :: "nat option"

definition read_identity :: "mls_library \<Rightarrow> credential \<Rightarrow> (user_id \<times> device_id) result" where
  "read_identity lib cred =
     (case cred of
        Basic (Some identity) \<Rightarrow>
          (case ml_identity lib identity of
             None \<Rightarrow> Inl (BadRequest (Framing Leaf_identity_is_not_readable))
           | Some ids \<Rightarrow> Inr ids)
      | _ \<Rightarrow> Inl (BadRequest (Framing Leaf_must_carry_a_basic_credential)))"

definition removed_leaves :: "proposal_entry list \<Rightarrow> nat list" where
  "removed_leaves proposals =
     concat (map (\<lambda>e. case e of Inline (Remove i) \<Rightarrow> [i] | _ \<Rightarrow> []) proposals)"

definition read_external_join ::
    "mls_library \<Rightarrow> bytes \<Rightarrow> conversation_id \<Rightarrow> nat \<Rightarrow> external_joiner result" where
  "read_external_join lib payload conversation expected_epoch =
     (case ml_decode lib payload of
        Threw \<Rightarrow> Inl (BadRequest (Framing Not_a_valid_MLS_message))
      | Decoded (Public_message m) \<Rightarrow>
          (if \<not> pu_newMember m \<or> pu_content m \<noteq> Commit
           then Inl (BadRequest (Framing Expected_a_commit_from_a_new_member))
           else if \<not> bytes_equal (pu_groupId m) (text_encode conversation)
           then Inl (BadRequest (Framing Group_id_does_not_match))
           else if pu_epoch m \<noteq> expected_epoch then Inl (BadRequest (Framing Epoch_does_not_match))
           else let inits = filter (\<lambda>e. e = Inline External_init) (pu_proposals m);
                    removes = removed_leaves (pu_proposals m)
                in if length inits \<noteq> 1 \<or> length removes > 1
                      \<or> length (pu_proposals m) \<noteq> length inits + length removes
                   then Inl (BadRequest (Framing Join_must_have_one_external_init))
                   else case pu_path m of
                     None \<Rightarrow> Inl (BadRequest (Framing Join_must_carry_the_joiner_leaf))
                   | Some leaf \<Rightarrow>
                       bind_result (read_identity lib (ln_credential leaf)) (\<lambda>(u, d).
                         Inr \<lparr>ej_user = u, ej_device = d, ej_key = ln_key leaf,
                              ej_removedLeaf = (if length removes = 1 then Some (hd removes) else None)\<rparr>))
      | _ \<Rightarrow> Inl (BadRequest (Framing Join_must_be_a_public_message)))"

definition assert_joiner_matches_device ::
    "external_joiner \<Rightarrow> user_id \<Rightarrow> device_id \<Rightarrow> bytes \<Rightarrow> unit result" where
  "assert_joiner_matches_device joiner u d key =
     require (\<not> (ej_user joiner \<noteq> u \<or> ej_device joiner \<noteq> d \<or> \<not> bytes_equal (ej_key joiner) key))
       (Forbidden (Framing Join_is_not_for_this_device))"

definition assert_external_join_signed ::
    "mls_library \<Rightarrow> bytes \<Rightarrow> bytes \<Rightarrow> bytes \<Rightarrow> unit result" where
  "assert_external_join_signed lib commit_payload stored_payload key =
     (case ml_decode lib commit_payload of
        Threw \<Rightarrow> Inl (ServerError (Framing Unhandled_decoding_error))
      | commit \<Rightarrow>
          (case ml_decode lib stored_payload of
             Threw \<Rightarrow> Inl (ServerError (Framing Unhandled_decoding_error))
           | snapshot \<Rightarrow>
               (case (commit, snapshot) of
                  (Decoded (Public_message m), Decoded (Group_info_message info)) \<Rightarrow>
                    require (ml_verifyContent lib key m info)
                      (Forbidden (Framing Join_is_not_signed_by_this_device))
                | _ \<Rightarrow> Inl (BadRequest (Framing Cannot_verify_this_join)))))"

definition assert_removed_leaf_is_joiner ::
    "mls_library \<Rightarrow> nat \<Rightarrow> bytes \<Rightarrow> user_id \<Rightarrow> device_id \<Rightarrow> bytes \<Rightarrow> unit result" where
  "assert_removed_leaf_is_joiner lib removed_leaf stored_payload u d key =
     (case ml_decode lib stored_payload of
        Threw \<Rightarrow> Inl (ServerError (Framing Unhandled_decoding_error))
      | Decoded (Group_info_message info) \<Rightarrow>
          (case gi_tree info of
             None \<Rightarrow> Inl (BadRequest (Framing Snapshot_carries_no_ratchet_tree))
           | Some tree \<Rightarrow>
               (let i = ml_leafToNodeIndex lib removed_leaf
                in case (if i < length tree then tree ! i else Blank_node) of
                     Leaf_node leaf \<Rightarrow>
                       bind_result (read_identity lib (ln_credential leaf)) (\<lambda>(lu, ld).
                         require (\<not> (lu \<noteq> u \<or> ld \<noteq> d \<or> \<not> bytes_equal (ln_key leaf) key))
                           (Forbidden (Framing Join_may_only_replace_its_own_leaf)))
                   | _ \<Rightarrow> Inl (BadRequest (Framing Removed_leaf_is_not_in_this_group))))
      | _ \<Rightarrow> Inl (BadRequest (Framing Cannot_verify_this_join)))"

section \<open>A group snapshot\<close>

definition assert_is_group_info_for ::
    "mls_library \<Rightarrow> bytes \<Rightarrow> conversation_id \<Rightarrow> nat \<Rightarrow> unit result" where
  "assert_is_group_info_for lib payload conversation epoch =
     (case ml_decode lib payload of
        Threw \<Rightarrow> Inl (BadRequest (Framing Not_a_valid_MLS_message))
      | Decoded (Group_info_message info) \<Rightarrow>
          (if \<not> bytes_equal (gi_groupId info) (text_encode conversation)
           then Inl (BadRequest (Framing Group_id_does_not_match))
           else if gi_epoch info \<noteq> epoch then Inl (BadRequest (Framing Epoch_does_not_match))
           else Inr ())
      | _ \<Rightarrow> Inl (BadRequest (Framing Expected_a_group_info)))"

definition assert_group_info_signed_by :: "mls_library \<Rightarrow> bytes \<Rightarrow> bytes \<Rightarrow> unit result" where
  "assert_group_info_signed_by lib payload publisher_key =
     (case ml_decode lib payload of
        Threw \<Rightarrow> Inl (ServerError (Framing Unhandled_decoding_error))
      | Decoded (Group_info_message info) \<Rightarrow>
          (case gi_tree info of
             None \<Rightarrow> Inl (BadRequest (Framing Snapshot_carries_no_ratchet_tree))
           | Some tree \<Rightarrow>
               (case ml_leafKey lib tree (gi_signer info) of
                  None \<Rightarrow> Inl (BadRequest (Framing Group_info_signer_is_not_a_leaf))
                | Some signer_key \<Rightarrow>
                    (if \<not> bytes_equal signer_key publisher_key
                     then Inl (BadRequest (Framing Group_info_signer_is_not_the_publisher))
                     else require (ml_verifyGroupInfo lib info signer_key)
                       (BadRequest (Framing Group_info_signature_is_invalid)))))
      | _ \<Rightarrow> Inl (BadRequest (Framing Expected_a_group_info)))"

section \<open>What the checks establish\<close>

lemma bytes_equal_iff [simp]: "bytes_equal a b \<longleftrightarrow> a = b"
  unfolding bytes_equal_def by (auto intro: nth_equalityI)

text \<open>A payload accepted as a Commit is a Commit of this conversation at this epoch.\<close>

lemma commit_framing:
  "assert_is_commit_for_conversation lib payload cid e = Inr u \<longleftrightarrow>
     (\<exists>pm. ml_decode lib payload = Decoded (Private_message pm) \<and> pm_content pm = Commit
        \<and> pm_groupId pm = text_encode cid \<and> pm_epoch pm = e)"
  by (auto simp: assert_is_commit_for_conversation_def decode_and_describe_def
      split: decoded.splits mls_message.splits if_splits)

text \<open>An accepted external commit has one ExternalInit, at most one Remove, and nothing else.\<close>

lemma removed_leaves_length: "length (removed_leaves ps) \<le> length (filter (\<lambda>e. \<exists>i. e = Inline (Remove i)) ps)"
  by (induction ps) (auto simp: removed_leaves_def split: proposal_entry.splits proposal.splits)

lemma external_join_shape:
  assumes "read_external_join lib payload cid e = Inr j"
  obtains m leaf where "ml_decode lib payload = Decoded (Public_message m)" and "pu_path m = Some leaf"
    and "pu_groupId m = text_encode cid" and "pu_epoch m = e" and "ej_key j = ln_key leaf"
    and "read_identity lib (ln_credential leaf) = Inr (ej_user j, ej_device j)"
    and "\<forall>p \<in> set (pu_proposals m). p = Inline External_init \<or> (\<exists>i. p = Inline (Remove i))"
    and "ej_removedLeaf j = (case removed_leaves (pu_proposals m) of [] \<Rightarrow> None | i # _ \<Rightarrow> Some i)"
proof -
  from assms obtain m leaf u d where
    m: "ml_decode lib payload = Decoded (Public_message m)" "pu_groupId m = text_encode cid" "pu_epoch m = e"
      "pu_path m = Some leaf" "read_identity lib (ln_credential leaf) = Inr (u, d)"
    and len: "length (filter (\<lambda>e. e = Inline External_init) (pu_proposals m)) = 1"
      "length (removed_leaves (pu_proposals m)) \<le> 1"
      "length (pu_proposals m) = 1 + length (removed_leaves (pu_proposals m))"
    and j: "j = \<lparr>ej_user = u, ej_device = d, ej_key = ln_key leaf, ej_removedLeaf =
      (if length (removed_leaves (pu_proposals m)) = 1 then Some (hd (removed_leaves (pu_proposals m))) else None)\<rparr>"
    by (auto simp: read_external_join_def Let_def bind_result_Inr_iff not_less
        split: decoded.splits mls_message.splits if_splits option.splits)
  let ?ps = "pu_proposals m"
  let ?a = "\<lambda>e. e = Inline External_init" and ?b = "\<lambda>e. \<exists>i. e = Inline (Remove i)"
  have count: "length (filter ?a qs) + length (filter ?b qs) + length (filter (\<lambda>e. \<not> ?a e \<and> \<not> ?b e) qs)
    = length qs" for qs by (induction qs) auto
  have "length (filter (\<lambda>e. \<not> ?a e \<and> \<not> ?b e) ?ps) = 0"
    using count [of ?ps] len removed_leaves_length [of ?ps] by linarith
  then have "\<forall>p \<in> set ?ps. ?a p \<or> ?b p" by (simp add: filter_empty_conv)
  moreover have "ej_removedLeaf j = (case removed_leaves ?ps of [] \<Rightarrow> None | i # _ \<Rightarrow> Some i)"
    using len(2) by (auto simp: j split: list.splits)
  ultimately show thesis using that [of m leaf] m j by simp
qed

end
