(* ===== verification/Rate_Limiter.thy ===== *)
theory Rate_Limiter
  imports Prelude
begin

text \<open>
  \<open>backend/src/common/utils/sliding-window-rate-limiter.ts\<close> and \<open>bounded-map.ts\<close>: the in-memory
  limiter every service uses. A JavaScript \<open>Map\<close> is an association list in insertion order, so
  \<open>delete\<close> and \<open>set\<close> move a key to the end and the first key is the least recently touched one.
\<close>

section \<open>Bounded maps\<close>

definition prune_old_timestamps :: "int list \<Rightarrow> int \<Rightarrow> int \<Rightarrow> int list" where
  "prune_old_timestamps ts now window = filter (\<lambda>t. t > now - window) ts"

definition touch :: "'k \<Rightarrow> 'v \<Rightarrow> ('k \<times> 'v) list \<Rightarrow> ('k \<times> 'v) list" where
  "touch k v m = AList.delete k m @ [(k, v)]"

definition evict_oldest_if_at_capacity :: "nat \<Rightarrow> 'k \<Rightarrow> ('k \<times> 'v) list \<Rightarrow> ('k \<times> 'v) list" where
  "evict_oldest_if_at_capacity max_size k m =
     (if k \<notin> set (map fst m) \<and> length m \<ge> max_size then drop 1 m else m)"

text \<open>The pair of calls every write of the limiter is.\<close>

definition store_bounded :: "nat \<Rightarrow> 'k \<Rightarrow> 'v \<Rightarrow> ('k \<times> 'v) list \<Rightarrow> ('k \<times> 'v) list" where
  "store_bounded max_size k v m = touch k v (evict_oldest_if_at_capacity max_size k m)"

section \<open>The limiter\<close>

record limiter_config =
  lc_window :: int
  lc_max :: nat
  lc_lockout :: "int option"
  lc_maxKeys :: nat

record limiter =
  lm_recent :: "(string \<times> int list) list"
  lm_locked :: "(string \<times> int) list"

definition new_limiter :: limiter where
  "new_limiter = \<lparr>lm_recent = [], lm_locked = []\<rparr>"

definition tracked_key_count :: "limiter \<Rightarrow> nat" where
  "tracked_key_count lm = length (lm_recent lm)"

text \<open>The second half of \<open>attempt\<close>: no live lockout for the key.\<close>

definition attempt_unlocked ::
    "limiter_config \<Rightarrow> int \<Rightarrow> string \<Rightarrow> nat \<Rightarrow> limiter \<Rightarrow> limiter \<times> int option" where
  "attempt_unlocked cfg now key cost lm =
     (let stored = (case map_of (lm_recent lm) key of None \<Rightarrow> [] | Some ts \<Rightarrow> ts);
          recent = prune_old_timestamps stored now (lc_window cfg)
      in if length recent + cost > lc_max cfg
         then (case lc_lockout cfg of
                 None \<Rightarrow>
                   (let must_age_out = length recent + cost - lc_max cfg
                    in (lm, Some (if cost > lc_max cfg then lc_window cfg
                                  else recent ! (must_age_out - 1) + lc_window cfg - now)))
               | Some lockout \<Rightarrow>
                   (lm\<lparr>lm_recent := AList.delete key (lm_recent lm),
                       lm_locked := store_bounded (lc_maxKeys cfg) key (now + lockout) (lm_locked lm)\<rparr>,
                    Some lockout))
         else (lm\<lparr>lm_recent := store_bounded (lc_maxKeys cfg) key (recent @ replicate cost now)
                    (lm_recent lm)\<rparr>, None))"

definition attempt ::
    "limiter_config \<Rightarrow> int \<Rightarrow> string \<Rightarrow> nat \<Rightarrow> limiter \<Rightarrow> limiter \<times> int option" where
  "attempt cfg now key cost lm =
     (case map_of (lm_locked lm) key of
        Some lock_expires_at \<Rightarrow>
          (if now < lock_expires_at
           then (lm\<lparr>lm_locked := touch key lock_expires_at (lm_locked lm)\<rparr>, Some (lock_expires_at - now))
           else attempt_unlocked cfg now key cost (lm\<lparr>lm_locked := AList.delete key (lm_locked lm)\<rparr>))
      | None \<Rightarrow> attempt_unlocked cfg now key cost lm)"

text \<open>\<open>Math.ceil(retryAfterMs / 1000)\<close>.\<close>

definition ceil_seconds :: "int \<Rightarrow> int" where
  "ceil_seconds ms = - ((- ms) div 1000)"

definition assert_not_rate_limited ::
    "limiter_config \<Rightarrow> int \<Rightarrow> string \<Rightarrow> nat \<Rightarrow> limiter \<Rightarrow> limiter \<times> unit result" where
  "assert_not_rate_limited cfg now key cost lm =
     (case attempt cfg now key cost lm of
        (lm', None) \<Rightarrow> (lm', Inr ())
      | (lm', Some retry_after) \<Rightarrow> (lm', Inl (TooManyRequests (ceil_seconds retry_after))))"

definition try_consume :: "limiter_config \<Rightarrow> int \<Rightarrow> string \<Rightarrow> nat \<Rightarrow> limiter \<Rightarrow> limiter \<times> bool" where
  "try_consume cfg now key cost lm = map_prod id (\<lambda>r. r = None) (attempt cfg now key cost lm)"

definition per_minute_per_user_limiter :: "nat \<Rightarrow> limiter_config" where
  "per_minute_per_user_limiter max_per_minute =
     \<lparr>lc_window = 60000, lc_max = max_per_minute, lc_lockout = None, lc_maxKeys = 10000\<rparr>"

text \<open>The configured limiters of the MLS and message endpoints.\<close>

definition submit_limiter :: limiter_config where "submit_limiter = per_minute_per_user_limiter 60"
definition work_limiter :: limiter_config where "work_limiter = per_minute_per_user_limiter 120"
definition pending_limiter :: limiter_config where "pending_limiter = per_minute_per_user_limiter 300"
definition roster_limiter :: limiter_config where "roster_limiter = per_minute_per_user_limiter 240"
definition fetch_limiter :: limiter_config where "fetch_limiter = per_minute_per_user_limiter 30"
definition join_limiter :: limiter_config where "join_limiter = per_minute_per_user_limiter 10"
definition fault_limiter :: limiter_config where "fault_limiter = per_minute_per_user_limiter 60"

definition snapshot_deletion_limiter :: limiter_config where
  "snapshot_deletion_limiter =
     \<lparr>lc_window = 60 * 60000, lc_max = 3, lc_lockout = None, lc_maxKeys = 10000\<rparr>"

definition message_limiter :: limiter_config where
  "message_limiter = \<lparr>lc_window = 5000, lc_max = 6, lc_lockout = Some 5000, lc_maxKeys = 10000\<rparr>"

section \<open>The contract of a bounded map\<close>

locale bounded_map =
  fixes get :: "'m \<Rightarrow> 'k \<Rightarrow> 'v option"
    and keys :: "'m \<Rightarrow> 'k list"
    and store :: "nat \<Rightarrow> 'k \<Rightarrow> 'v \<Rightarrow> 'm \<Rightarrow> 'm"
  assumes get_stored: "get (store n k v m) k = Some v"
    and get_other: "k \<in> set (keys m) \<or> length (keys m) < n \<Longrightarrow> k' \<noteq> k \<Longrightarrow> get (store n k v m) k' = get m k'"
    and get_only: "distinct (keys m) \<Longrightarrow> k' \<noteq> k \<Longrightarrow> get (store n k v m) k' = Some w \<Longrightarrow> get m k' = Some w"
    and keys_sub: "set (keys (store n k v m)) \<subseteq> insert k (set (keys m))"
    and keys_distinct: "distinct (keys m) \<Longrightarrow> distinct (keys (store n k v m))"
    and size_bound: "distinct (keys m) \<Longrightarrow> length (keys m) \<le> n \<Longrightarrow> 0 < n \<Longrightarrow>
      length (keys (store n k v m)) \<le> n"
begin

text \<open>What every stored value satisfies survives a store of a value that satisfies it.\<close>

lemma store_values:
  assumes "distinct (keys m)" and "\<And>k' w. get m k' = Some w \<Longrightarrow> P k' w" and "P k v"
    and "get (store n k v m) k' = Some w"
  shows "P k' w"
proof (cases "k' = k")
  case True
  with assms(3,4) show ?thesis by (simp add: get_stored)
next
  case False
  from assms(2) [OF get_only [OF assms(1) False assms(4)]] show ?thesis .
qed

text \<open>While the universe of keys fits, nothing is ever evicted.\<close>

lemma store_in_universe:
  assumes "finite U" and "card U \<le> n" and "set (keys m) \<subseteq> U" and "k \<in> U" and "distinct (keys m)"
    and "k' \<noteq> k"
  shows "get (store n k v m) k' = get m k'"
proof (rule get_other [OF _ assms(6)], rule disjCI)
  assume "\<not> length (keys m) < n"
  with assms(1,2,3,5) have "set (keys m) = U"
    by (metis card_seteq distinct_card dual_order.trans not_less)
  with assms(4) show "k \<in> set (keys m)" by simp
qed

end

section \<open>The limiter's maps meet it\<close>

lemma map_of_touch: "map_of (touch k v m) k' = (if k' = k then Some v else map_of m k')"
  by (auto simp: touch_def map_add_def delete_conv' split: option.splits)

lemma keys_touch: "map fst (touch k v m) = filter (\<lambda>x. x \<noteq> k) (map fst m) @ [k]"
proof -
  have "map fst (AList.delete k m) = filter (\<lambda>x. x \<noteq> k) (map fst m)"
    by (induction m) (auto simp: AList.delete_eq)
  then show ?thesis by (simp add: touch_def)
qed

lemma map_of_drop_Some:
  assumes "distinct (map fst m)" and "map_of (drop 1 m) k = Some v"
  shows "map_of m k = Some v"
  using assms by (cases m) (auto simp: image_iff dest: map_of_SomeD)

lemma evict_subset: "set (evict_oldest_if_at_capacity n k m) \<subseteq> set m"
  by (auto simp: evict_oldest_if_at_capacity_def dest: in_set_dropD)

lemma evict_distinct: "distinct (map fst m) \<Longrightarrow> distinct (map fst (evict_oldest_if_at_capacity n k m))"
  by (auto simp: evict_oldest_if_at_capacity_def drop_map [symmetric])

lemma length_filter_neq: "distinct xs \<Longrightarrow> length (filter (\<lambda>x. x \<noteq> k) xs) = length xs - (if k \<in> set xs then 1 else 0)"
  proof (induction xs)
  case (Cons a xs)
  then have "k \<in> set xs \<Longrightarrow> 0 < length xs" by (cases xs) auto
  with Cons show ?case by auto
qed simp

lemma store_bounded_size:
  assumes "distinct (map fst m)" and "length m \<le> n" and "0 < n"
  shows "length (store_bounded n k v m) \<le> n"
proof -
  let ?e = "evict_oldest_if_at_capacity n k m"
  have "length (store_bounded n k v m) = length (map fst (touch k v ?e))"
    by (simp add: store_bounded_def)
  also have "\<dots> = length (map fst ?e) - (if k \<in> set (map fst ?e) then 1 else 0) + 1"
    unfolding keys_touch using length_filter_neq [OF evict_distinct [OF assms(1), of n k], of k] by simp
  also have "\<dots> \<le> n"
  proof (cases "k \<in> set (map fst m)")
    case True
    then have "length (map fst m) > 0" by (cases m) auto
    with True assms show ?thesis by (simp add: evict_oldest_if_at_capacity_def)
  next
    case False
    with assms show ?thesis by (auto simp: evict_oldest_if_at_capacity_def)
  qed
  finally show ?thesis .
qed

interpretation bm: bounded_map map_of "map fst" store_bounded
proof unfold_locales
  fix n :: nat and k k' :: 'k and v w :: 'v and m :: "('k \<times> 'v) list"
  show "map_of (store_bounded n k v m) k = Some v"
    by (simp add: store_bounded_def map_of_touch)
  show "k \<in> set (map fst m) \<or> length (map fst m) < n \<Longrightarrow> k' \<noteq> k \<Longrightarrow>
      map_of (store_bounded n k v m) k' = map_of m k'"
    by (auto simp: store_bounded_def map_of_touch evict_oldest_if_at_capacity_def)
  show "distinct (map fst m) \<Longrightarrow> k' \<noteq> k \<Longrightarrow> map_of (store_bounded n k v m) k' = Some w \<Longrightarrow> map_of m k' = Some w"
    by (auto simp: store_bounded_def map_of_touch evict_oldest_if_at_capacity_def
        dest: map_of_SomeD in_set_dropD split: if_splits)
  show "set (map fst (store_bounded n k v m)) \<subseteq> insert k (set (map fst m))"
    unfolding store_bounded_def keys_touch using evict_subset [of n k m] by auto
  show "distinct (map fst m) \<Longrightarrow> distinct (map fst (store_bounded n k v m))"
    unfolding store_bounded_def keys_touch using evict_distinct [of m n k] by simp
  show "distinct (map fst m) \<Longrightarrow> length (map fst m) \<le> n \<Longrightarrow> 0 < n \<Longrightarrow>
      length (map fst (store_bounded n k v m)) \<le> n"
    using store_bounded_size by simp
qed

lemma store_keys_in:
  assumes "set (map fst m) \<subseteq> U" and "k \<in> U"
  shows "set (map fst (store_bounded n k v m)) \<subseteq> U"
  by (rule order_trans [OF bm.keys_sub]) (use assms in simp)

section \<open>The limit over a run\<close>

text \<open>A run of attempts, with the log of what was accepted: one entry per unit of cost.\<close>

fun run_limiter ::
    "limiter_config \<Rightarrow> (int \<times> string \<times> nat) list \<Rightarrow> limiter \<times> (string \<times> int) list
      \<Rightarrow> limiter \<times> (string \<times> int) list" where
  "run_limiter cfg [] st = st"
| "run_limiter cfg ((now, key, cost) # rest) (lm, log) =
     (case attempt cfg now key cost lm of
        (lm', r) \<Rightarrow> run_limiter cfg rest
          (lm', if r = None then log @ replicate cost (key, now) else log))"

definition times_of :: "string \<Rightarrow> (string \<times> int) list \<Rightarrow> int list" where
  "times_of key log = map snd (filter (\<lambda>e. fst e = key) log)"

definition stored :: "limiter \<Rightarrow> string \<Rightarrow> int list" where
  "stored lm key = (case map_of (lm_recent lm) key of None \<Rightarrow> [] | Some ts \<Rightarrow> ts)"

lemma stored_locked [simp]: "stored (lm\<lparr>lm_locked := m\<rparr>) key = stored lm key"
  by (simp add: stored_def)

text \<open>How many units of a key were accepted in the window that ends at \<open>t\<close>.\<close>

definition in_window :: "int \<Rightarrow> int \<Rightarrow> int list \<Rightarrow> nat" where
  "in_window w t ts = length (filter (\<lambda>s. t - w < s \<and> s \<le> t) ts)"

text \<open>The limiter remembers, for each key, every accepted time a later window can still hold.\<close>

definition remembers :: "limiter_config \<Rightarrow> int \<Rightarrow> limiter \<Rightarrow> (string \<times> int) list \<Rightarrow> string \<Rightarrow> bool" where
  "remembers cfg prev lm log key \<longleftrightarrow>
     (case map_of (lm_locked lm) key of
        None \<Rightarrow> \<forall>t \<ge> prev. prune_old_timestamps (times_of key log) t (lc_window cfg)
                 = prune_old_timestamps (stored lm key) t (lc_window cfg)
      | Some until \<Rightarrow> stored lm key = [] \<and> (\<forall>s \<in> set (times_of key log). s + lc_window cfg \<le> until))"

definition window_inv ::
    "limiter_config \<Rightarrow> string set \<Rightarrow> int \<Rightarrow> limiter \<Rightarrow> (string \<times> int) list \<Rightarrow> bool" where
  "window_inv cfg U prev lm log \<longleftrightarrow>
     distinct (map fst (lm_recent lm)) \<and> distinct (map fst (lm_locked lm))
     \<and> set (map fst (lm_recent lm)) \<subseteq> U \<and> set (map fst (lm_locked lm)) \<subseteq> U
     \<and> (\<forall>e \<in> set log. snd e \<le> prev)
     \<and> (\<forall>key. remembers cfg prev lm log key)
     \<and> (\<forall>key t. in_window (lc_window cfg) t (times_of key log) \<le> lc_max cfg)"

lemma times_of_snoc:
  "times_of key (log @ replicate n (k, now)) = times_of key log @ (if key = k then replicate n now else [])"
  by (simp add: times_of_def)

lemma times_of_le: "\<forall>e \<in> set log. snd e \<le> prev \<Longrightarrow> s \<in> set (times_of key log) \<Longrightarrow> s \<le> prev"
  by (auto simp: times_of_def)

lemma prune_prune: "now \<le> t \<Longrightarrow> prune_old_timestamps (prune_old_timestamps ts now w) t w = prune_old_timestamps ts t w"
  by (auto simp: prune_old_timestamps_def intro: filter_cong)

lemma in_window_accept:
  assumes "\<forall>s \<in> set ts. s \<le> now" and "0 < w"
    and "length (prune_old_timestamps ts now w) + n \<le> m" and "in_window w t ts \<le> m"
  shows "in_window w t (ts @ replicate n now) \<le> m"
proof (cases "t < now")
  case True
  then have "filter (\<lambda>s. t - w < s \<and> s \<le> t) (replicate n now) = []" by (simp add: filter_empty_conv)
  with assms(4) show ?thesis by (simp add: in_window_def)
next
  case False
  have "in_window w t ts \<le> length (prune_old_timestamps ts now w)"
    unfolding in_window_def prune_old_timestamps_def using False
    by (induction ts) auto
  moreover have "in_window w t (replicate n now) \<le> n"
    unfolding in_window_def by (rule order_trans [OF length_filter_le]) simp
  ultimately show ?thesis using assms(3) by (simp add: in_window_def)
qed

lemma remembers_later: "remembers cfg prev lm log key \<Longrightarrow> prev \<le> now \<Longrightarrow> remembers cfg now lm log key"
  by (auto simp: remembers_def split: option.splits)

text \<open>The configuration a limit holds for: a lockout, if any, outlasts the window.\<close>

definition lockout_covers_window :: "limiter_config \<Rightarrow> bool" where
  "lockout_covers_window cfg =
     (case lc_lockout cfg of None \<Rightarrow> True | Some lockout \<Rightarrow> lc_window cfg \<le> lockout)"

lemma window_invD:
  assumes "window_inv cfg U prev lm log"
  shows "distinct (map fst (lm_recent lm))" "distinct (map fst (lm_locked lm))"
    "set (map fst (lm_recent lm)) \<subseteq> U" "set (map fst (lm_locked lm)) \<subseteq> U"
    "\<forall>e \<in> set log. snd e \<le> prev" "remembers cfg prev lm log key"
    "in_window (lc_window cfg) t (times_of key log) \<le> lc_max cfg"
  using assms by (simp_all add: window_inv_def)

lemma attempt_unlocked_window:
  assumes inv: "window_inv cfg U prev lm log" and "prev \<le> now"
    and U: "finite U" "card U \<le> lc_maxKeys cfg" "key \<in> U" and w: "0 < lc_window cfg"
    and cover: "lockout_covers_window cfg" and free: "map_of (lm_locked lm) key = None"
    and run: "attempt_unlocked cfg now key cost lm = (lm', r)"
  shows "window_inv cfg U now lm' (if r = None then log @ replicate cost (key, now) else log)"
proof -
  let ?w = "lc_window cfg" and ?recent = "prune_old_timestamps (stored lm key) now (lc_window cfg)"
  note I = window_invD [OF inv]
  have le: "\<forall>e \<in> set log. snd e \<le> now" using I(5) assms(2) by fastforce
  have mem: "remembers cfg now lm log k" for k by (rule remembers_later [OF I(6) assms(2)])
  have past: "prune_old_timestamps (times_of key log) now ?w = ?recent"
    using mem [of key] free by (simp add: remembers_def)
  show ?thesis
  proof (cases "length ?recent + cost > lc_max cfg")
    case False
    then have r: "r = None" and lm': "lm' = lm\<lparr>lm_recent :=
        store_bounded (lc_maxKeys cfg) key (?recent @ replicate cost now) (lm_recent lm)\<rparr>"
      using run by (simp_all add: attempt_unlocked_def Let_def stored_def)
    have st: "stored lm' k = (if k = key then ?recent @ replicate cost now else stored lm k)" for k
      by (simp add: stored_def lm' bm.get_stored bm.store_in_universe [OF U(1,2) I(3) U(3) I(1)])
    have lk: "lm_locked lm' = lm_locked lm" by (simp add: lm')
    have "remembers cfg now lm' (log @ replicate cost (key, now)) k" for k
    proof (cases "k = key")
      case True
      have "prune_old_timestamps (times_of key log) t ?w = prune_old_timestamps ?recent t ?w" if "now \<le> t" for t
        using prune_prune [OF that] past by metis
      then show ?thesis using True free
        by (simp add: remembers_def st lk times_of_snoc) (simp add: prune_old_timestamps_def)
    next
      case False
      with mem [of k] show ?thesis
        by (simp add: remembers_def st times_of_snoc lk cong: option.case_cong)
    qed
    moreover have "in_window ?w t (times_of k (log @ replicate cost (key, now))) \<le> lc_max cfg" for k t
      using in_window_accept [of "times_of key log" now ?w cost "lc_max cfg" t] times_of_le [OF le] w False
        past I(7) by (simp add: times_of_snoc)
    moreover have "set (map fst (lm_recent lm')) \<subseteq> U" "distinct (map fst (lm_recent lm'))"
      using store_keys_in [OF I(3) U(3)] bm.keys_distinct [OF I(1)] by (simp_all add: lm')
    ultimately show ?thesis using I(2,4) r le by (auto simp: window_inv_def lk)
  next
    case True
    show ?thesis
    proof (cases "lc_lockout cfg")
      case None
      with True run have "lm' = lm" "r \<noteq> None"
        by (auto simp: attempt_unlocked_def Let_def stored_def)
      with I le mem show ?thesis by (auto simp: window_inv_def)
    next
      case (Some lockout)
      with True run have r: "r = Some lockout" and lm': "lm' = lm\<lparr>lm_recent := AList.delete key (lm_recent lm),
          lm_locked := store_bounded (lc_maxKeys cfg) key (now + lockout) (lm_locked lm)\<rparr>"
        by (simp_all add: attempt_unlocked_def Let_def stored_def)
      have lk: "map_of (lm_locked lm') k = (if k = key then Some (now + lockout) else map_of (lm_locked lm) k)" for k
        by (simp add: lm' bm.get_stored bm.store_in_universe [OF U(1,2) I(4) U(3) I(2)])
      have st: "stored lm' k = (if k = key then [] else stored lm k)" for k
        by (simp add: stored_def lm' delete_conv')
      have "remembers cfg now lm' log k" for k
      proof (cases "k = key")
        case True
        then show ?thesis
          using times_of_le [OF le, of _ key] Some cover
          by (force simp: remembers_def lk st lockout_covers_window_def)
      next
        case False
        with mem [of k] show ?thesis by (simp add: remembers_def lk st cong: option.case_cong)
      qed
      moreover have "set (map fst (lm_recent lm')) \<subseteq> U" "distinct (map fst (lm_recent lm'))"
        using I(1,3) dom_delete_subset [of key "lm_recent lm"] by (auto simp: lm' distinct_delete)
      moreover have "set (map fst (lm_locked lm')) \<subseteq> U" "distinct (map fst (lm_locked lm'))"
        using store_keys_in [OF I(4) U(3)] bm.keys_distinct [OF I(2)] by (simp_all add: lm')
      ultimately show ?thesis using I(7) r le by (simp add: window_inv_def)
    qed
  qed
qed

lemma attempt_window:
  assumes inv: "window_inv cfg U prev lm log" and "prev \<le> now"
    and U: "finite U" "card U \<le> lc_maxKeys cfg" "key \<in> U" and w: "0 < lc_window cfg"
    and cover: "lockout_covers_window cfg"
    and run: "attempt cfg now key cost lm = (lm', r)"
  shows "window_inv cfg U now lm' (if r = None then log @ replicate cost (key, now) else log)"
proof (cases "map_of (lm_locked lm) key")
  case None
  with run have "attempt_unlocked cfg now key cost lm = (lm', r)" by (simp add: attempt_def)
  then show ?thesis by (rule attempt_unlocked_window [OF assms(1-7) None])
next
  case (Some until)
  note I = window_invD [OF inv]
  show ?thesis
  proof (cases "now < until")
    case True
    with Some run have lm': "lm' = lm\<lparr>lm_locked := touch key until (lm_locked lm)\<rparr>" and r: "r \<noteq> None"
      by (auto simp: attempt_def)
    have "map_of (lm_locked lm') = map_of (lm_locked lm)"
      using Some by (auto simp: lm' map_of_touch fun_eq_iff)
    then have "remembers cfg now lm' log k" for k
      using remembers_later [OF I(6) assms(2)] by (simp add: remembers_def lm' cong: option.case_cong)
    moreover have "\<forall>e \<in> set log. snd e \<le> now" using I(5) assms(2) by fastforce
    moreover have "distinct (map fst (lm_locked lm'))" "set (map fst (lm_locked lm')) \<subseteq> U"
      using I(2,4) U(3) by (auto simp: lm' keys_touch)
    ultimately show ?thesis using I(1,3,7) r by (auto simp: window_inv_def lm')
  next
    case False
    let ?lm = "lm\<lparr>lm_locked := AList.delete key (lm_locked lm)\<rparr>"
    have old: "stored lm key = []" "\<forall>s \<in> set (times_of key log). s + lc_window cfg \<le> until"
      using I(6) [of key] Some by (simp_all add: remembers_def)
    have "remembers cfg now ?lm log k" for k
    proof (cases "k = key")
      case True
      have "prune_old_timestamps (times_of key log) t (lc_window cfg) = []" if "now \<le> t" for t
        using old(2) False that by (fastforce simp: prune_old_timestamps_def filter_empty_conv)
      then show ?thesis using True old(1)
        by (simp add: remembers_def delete_conv' stored_def prune_old_timestamps_def)
    next
      case False
      then show ?thesis
        using remembers_later [OF I(6) assms(2), of k]
        by (simp add: remembers_def cong: option.case_cong)
    qed
    moreover have "\<forall>e \<in> set log. snd e \<le> now" using I(5) assms(2) by fastforce
    moreover have "distinct (map fst (lm_locked ?lm))" "set (map fst (lm_locked ?lm)) \<subseteq> U"
      using I(2,4) dom_delete_subset [of key "lm_locked lm"] by (auto simp: distinct_delete)
    ultimately have "window_inv cfg U now ?lm log" using I(1,3,7) by (simp add: window_inv_def)
    moreover have "attempt_unlocked cfg now key cost ?lm = (lm', r)"
      using run Some False by (simp add: attempt_def)
    moreover have "map_of (lm_locked ?lm) key = None" by (simp add: delete_conv')
    ultimately show ?thesis
      using attempt_unlocked_window [of cfg U now ?lm log now key cost lm' r] U w cover by blast
  qed
qed

lemma run_limiter_window:
  assumes "window_inv cfg U prev lm log" and "sorted (prev # map fst rs)"
    and "finite U" "card U \<le> lc_maxKeys cfg" "(\<lambda>r. fst (snd r)) ` set rs \<subseteq> U" "0 < lc_window cfg"
    and "lockout_covers_window cfg"
    and "run_limiter cfg rs (lm, log) = (lm', log')"
  shows "in_window (lc_window cfg) t (times_of key log') \<le> lc_max cfg"
  using assms
proof (induction rs arbitrary: prev lm log)
  case Nil
  then show ?case using window_invD(7) by simp
next
  case (Cons r rs)
  obtain now k cost where r: "r = (now, k, cost)" by (cases r)
  obtain lm1 res where a: "attempt cfg now k cost lm = (lm1, res)" by fastforce
  have "window_inv cfg U now lm1 (if res = None then log @ replicate cost (k, now) else log)"
    using attempt_window [OF Cons.prems(1) _ Cons.prems(3,4) _ Cons.prems(6,7) a] Cons.prems(2,5) r by simp
  from Cons.IH [OF this _ Cons.prems(3,4) _ Cons.prems(6,7)] Cons.prems(2,5,8) r a show ?case by simp
qed

end
