(* ===== verification/Mls_Service.thy ===== *)
theory Mls_Service
  imports Mls_Commit Mls_Framing Rate_Limiter
begin

text \<open>
  \<open>mls-handshakes.service.ts\<close>, \<open>mls-commit-faults.service.ts\<close> and \<open>mls-self-join.service.ts\<close>: the
  requests of a device about a group's Commits. A request first spends from a rate limiter, which
  is in memory and keeps what was spent when the request fails; then it reads (\<open>seen\<close> is the
  conversation as those reads find it), and at last it writes the conversation \<open>cv\<close> the transaction
  finds. SHA-256 is an argument.
\<close>

section \<open>Shared checks\<close>

text \<open>\<open>assertOwnActiveDevice\<close>, without the hourly \<open>lastSeenAt\<close> write it starts in the background.\<close>

definition assert_own_active_device :: "registry \<Rightarrow> user_id \<Rightarrow> device_id \<Rightarrow> device_fact result" where
  "assert_own_active_device reg u d =
     (case map_of reg d of
        None \<Rightarrow> Inl (NotFound (Mls Device_not_found))
      | Some device \<Rightarrow>
          (if dv_user device \<noteq> u then Inl (NotFound (Mls Device_not_found))
           else if dv_revokedAt device \<noteq> None then Inl (Conflict (Mls Device_revoked))
           else Inr device))"

definition assert_entitled_participant :: "conversation \<Rightarrow> user_id \<Rightarrow> unit result" where
  "assert_entitled_participant seen u =
     require (is_entitled_to_leaf (state_of seen u)) (Forbidden (Mls Not_a_member_of_this_conversation))"

definition assert_active_participant :: "conversation \<Rightarrow> user_id \<Rightarrow> unit result" where
  "assert_active_participant seen u =
     require (state_of seen u = Some ACTIVE) (Forbidden (Mls Not_an_active_participant))"

text \<open>Spending from a limiter before the body of a request runs.\<close>

definition limited ::
    "limiter_config \<Rightarrow> int \<Rightarrow> user_id \<Rightarrow> limiter \<Rightarrow> 'a result \<Rightarrow> limiter \<times> 'a result" where
  "limited cfg now u lm body =
     (case assert_not_rate_limited cfg now u 1 lm of
        (lm', Inl e) \<Rightarrow> (lm', Inl e)
      | (lm', Inr _) \<Rightarrow> (lm', body))"

section \<open>Submitting a Commit\<close>

record submit_handshake_dto =
  sd_device :: device_id
  sd_epoch :: nat
  sd_payload :: string
  sd_groupInfo :: "string option"
  sd_welcome :: "(string \<times> device_id list) option"
  sd_added :: "device_id list"
  sd_removed :: "device_id list"

datatype submit_response = Outcome string handshake | Commit_conflict handshake

definition to_submit_response :: "accept_result \<Rightarrow> submit_response" where
  "to_submit_response result =
     (case result of
        Lost h \<Rightarrow> Commit_conflict h
      | Accepted h \<Rightarrow> Outcome ''accepted'' h
      | Duplicate h \<Rightarrow> Outcome ''duplicate'' h)"

definition fan_out_welcome ::
    "mls_library \<Rightarrow> (string \<times> device_id list) option \<Rightarrow> (device_id \<times> bytes) list result" where
  "fan_out_welcome lib w =
     (case w of
        None \<Rightarrow> Inr []
      | Some (encoded, recipients) \<Rightarrow>
          (let payload = base64_decode encoded
           in bind_result (assert_is_welcome_message lib payload)
                (\<lambda>_. Inr (map (\<lambda>d. (d, payload)) recipients))))"

definition decode_group_info ::
    "mls_library \<Rightarrow> conversation_id \<Rightarrow> string option \<Rightarrow> nat \<Rightarrow> bytes \<Rightarrow> bytes option result" where
  "decode_group_info lib cid encoded commit_epoch publisher_key =
     (case encoded of
        None \<Rightarrow> Inr None
      | Some text \<Rightarrow>
          (if text = [] then Inr None
           else let info = base64_decode text
                in bind_result (assert_is_group_info_for lib info cid (commit_epoch + 1)) (\<lambda>_.
                     case assert_group_info_signed_by lib info publisher_key of
                       Inr _ \<Rightarrow> Inr (Some info)
                     | Inl (BadRequest _) \<Rightarrow> Inr None
                     | Inl e \<Rightarrow> Inl e)))"

definition submit_handshake_body ::
    "mls_library \<Rightarrow> (bytes \<Rightarrow> string) \<Rightarrow> registry \<Rightarrow> time \<Rightarrow> user_id \<Rightarrow> conversation_id
      \<Rightarrow> submit_handshake_dto \<Rightarrow> conversation \<Rightarrow> conversation \<Rightarrow> (conversation \<times> submit_response) result" where
  "submit_handshake_body lib sha256 reg now u cid dto seen cv =
     bind_result (assert_active_participant seen u) (\<lambda>_.
     bind_result (assert_own_active_device reg u (sd_device dto)) (\<lambda>device.
     let payload = base64_decode (sd_payload dto) in
     bind_result (assert_is_commit_for_conversation lib payload cid (sd_epoch dto)) (\<lambda>_.
     bind_result (fan_out_welcome lib (sd_welcome dto)) (\<lambda>welcomes.
     bind_result (assert_declaration_is_consistent (sd_device dto) (sd_added dto) (sd_removed dto)
         (map fst welcomes)) (\<lambda>_.
     bind_result (decode_group_info lib cid (sd_groupInfo dto) (sd_epoch dto) (dv_key device)) (\<lambda>info.
     bind_result (accept_handshake reg now
         \<lparr>ca_epoch = sd_epoch dto, ca_device = sd_device dto, ca_user = u, ca_payload = payload,
          ca_sha256 = sha256 payload, ca_added = sd_added dto, ca_removed = sd_removed dto,
          ca_welcomes = welcomes, ca_groupInfo = info, ca_sender = Member, ca_resync = False\<rparr> cv)
       (\<lambda>(cv', result). Inr (cv', to_submit_response result))))))))"

definition submit_handshake ::
    "mls_library \<Rightarrow> (bytes \<Rightarrow> string) \<Rightarrow> registry \<Rightarrow> time \<Rightarrow> user_id \<Rightarrow> conversation_id
      \<Rightarrow> submit_handshake_dto \<Rightarrow> conversation \<Rightarrow> limiter \<Rightarrow> conversation
      \<Rightarrow> limiter \<times> (conversation \<times> submit_response) result" where
  "submit_handshake lib sha256 reg now u cid dto seen lm cv =
     limited submit_limiter now u lm (submit_handshake_body lib sha256 reg now u cid dto seen cv)"

section \<open>Joining by oneself\<close>

record external_join_dto =
  ed_device :: device_id
  ed_epoch :: nat
  ed_payload :: string
  ed_groupInfo :: "string option"

text \<open>
  The signature check: only when the epoch read equals the declared one, against the server's own
  snapshot.
\<close>

definition check_join_at_frontier ::
    "mls_library \<Rightarrow> external_joiner \<Rightarrow> user_id \<Rightarrow> device_id \<Rightarrow> bytes \<Rightarrow> nat \<Rightarrow> bytes \<Rightarrow> conversation
      \<Rightarrow> unit result" where
  "check_join_at_frontier lib joiner u d key epoch payload seen =
     (if cv_epoch seen = epoch
      then case find_current seen of
             None \<Rightarrow> Inl (Conflict (Mls The_group_moved_on))
           | Some snapshot \<Rightarrow>
               (if fst snapshot \<noteq> epoch then Inl (Conflict (Mls The_group_moved_on))
                else bind_result (assert_external_join_signed lib payload (snd snapshot) key) (\<lambda>_.
                  case ej_removedLeaf joiner of
                    None \<Rightarrow> Inr ()
                  | Some i \<Rightarrow> assert_removed_leaf_is_joiner lib i (snd snapshot) u d key))
      else Inr ())"

definition submit_external_join_body ::
    "mls_library \<Rightarrow> (bytes \<Rightarrow> string) \<Rightarrow> registry \<Rightarrow> time \<Rightarrow> user_id \<Rightarrow> conversation_id
      \<Rightarrow> external_join_dto \<Rightarrow> conversation \<Rightarrow> conversation \<Rightarrow> (conversation \<times> submit_response) result" where
  "submit_external_join_body lib sha256 reg now u cid dto seen cv =
     bind_result (assert_entitled_participant seen u) (\<lambda>_.
     bind_result (assert_own_active_device reg u (ed_device dto)) (\<lambda>device.
     let payload = base64_decode (ed_payload dto) in
     bind_result (read_external_join lib payload cid (ed_epoch dto)) (\<lambda>joiner.
     bind_result (assert_joiner_matches_device joiner u (ed_device dto) (dv_key device)) (\<lambda>_.
     let resync = (ej_removedLeaf joiner \<noteq> None) in
     bind_result (check_join_at_frontier lib joiner u (ed_device dto) (dv_key device) (ed_epoch dto)
         payload seen) (\<lambda>_.
     bind_result (decode_group_info lib cid (ed_groupInfo dto) (ed_epoch dto) (dv_key device)) (\<lambda>info.
     bind_result (accept_external_join reg now (ed_epoch dto) (ed_device dto) u payload (sha256 payload)
         info resync cv) (\<lambda>(cv', result). Inr (cv', to_submit_response result))))))))"

definition submit_external_join ::
    "mls_library \<Rightarrow> (bytes \<Rightarrow> string) \<Rightarrow> registry \<Rightarrow> time \<Rightarrow> user_id \<Rightarrow> conversation_id
      \<Rightarrow> external_join_dto \<Rightarrow> conversation \<Rightarrow> limiter \<Rightarrow> conversation
      \<Rightarrow> limiter \<times> (conversation \<times> submit_response) result" where
  "submit_external_join lib sha256 reg now u cid dto seen lm cv =
     limited join_limiter now u lm (submit_external_join_body lib sha256 reg now u cid dto seen cv)"

definition get_group_info ::
    "registry \<Rightarrow> int \<Rightarrow> user_id \<Rightarrow> device_id \<Rightarrow> conversation \<Rightarrow> limiter \<Rightarrow> limiter \<times> (nat \<times> string) result" where
  "get_group_info reg now u d seen lm =
     limited fetch_limiter now u lm
       (bind_result (assert_own_active_device reg u d) (\<lambda>_.
        bind_result (require (is_entitled_to_leaf (state_of seen u))
            (Forbidden (Mls Not_entitled_to_join))) (\<lambda>_.
        case find_current seen of
          None \<Rightarrow> Inl (NotFound (Mls No_up_to_date_snapshot))
        | Some info \<Rightarrow> Inr (fst info, base64_encode (snd info)))))"

section \<open>The log, the roster, the Welcomes\<close>

definition handshakes_per_page :: nat where
  "handshakes_per_page = 100"

definition get_handshakes_since :: "user_id \<Rightarrow> nat \<Rightarrow> conversation \<Rightarrow> handshake list result" where
  "get_handshakes_since u since seen =
     bind_result (assert_entitled_participant seen u)
       (\<lambda>_. Inr (find_handshakes_since seen since handshakes_per_page))"

definition get_roster_at_epoch ::
    "registry \<Rightarrow> int \<Rightarrow> user_id \<Rightarrow> nat \<Rightarrow> conversation \<Rightarrow> limiter
      \<Rightarrow> limiter \<times> (device_id \<times> user_id \<times> string option) list result" where
  "get_roster_at_epoch reg now u epoch seen lm =
     limited roster_limiter now u lm
       (bind_result (assert_entitled_participant seen u) (\<lambda>_.
          Inr (map (\<lambda>(d, v, key). (d, v, map_option base64_encode key))
            (find_roster_at_epoch reg seen epoch))))"

definition consume_welcome ::
    "registry \<Rightarrow> time \<Rightarrow> user_id \<Rightarrow> device_id \<Rightarrow> nat \<Rightarrow> limiter \<Rightarrow> conversation
      \<Rightarrow> limiter \<times> conversation result" where
  "consume_welcome reg now u d i lm cv =
     limited pending_limiter now u lm
       (bind_result (assert_own_active_device reg u d) (\<lambda>_.
          case mark_welcome_consumed now i d cv of
            (cv', True) \<Rightarrow> Inr cv'
          | (_, False) \<Rightarrow> Inl (NotFound (Mls Welcome_not_found_or_consumed))))"

section \<open>Reporting a Commit\<close>

definition discard_faulted_snapshot ::
    "int \<Rightarrow> conversation_id \<Rightarrow> nat \<Rightarrow> limiter \<Rightarrow> conversation \<Rightarrow> limiter \<times> conversation" where
  "discard_faulted_snapshot now cid epoch lm cv =
     (if \<not> describes_epoch epoch cv then (lm, cv)
      else case try_consume snapshot_deletion_limiter now cid 1 lm of
             (lm', True) \<Rightarrow> (lm', delete_if_describes_epoch epoch cv)
           | (lm', False) \<Rightarrow> (lm', cv))"

text \<open>The limiters of reports and of snapshot deletions are both state of the service.\<close>

definition report_fault ::
    "registry \<Rightarrow> int \<Rightarrow> user_id \<Rightarrow> conversation_id \<Rightarrow> device_id \<Rightarrow> nat \<Rightarrow> string
      \<Rightarrow> limiter \<times> limiter \<Rightarrow> conversation \<Rightarrow> (limiter \<times> limiter) \<times> (conversation \<times> bool) result" where
  "report_fault reg now u cid d epoch reason lms cv =
     (case assert_not_rate_limited fault_limiter now u 1 (fst lms) of
        (lm', Inl e) \<Rightarrow> ((lm', snd lms), Inl e)
      | (lm', Inr _) \<Rightarrow>
          (case bind_result (require (is_member_state (state_of cv u))
                    (Forbidden (Mls Not_a_member_of_this_conversation))) (\<lambda>_.
                bind_result (assert_own_active_device reg u d) (\<lambda>_.
                bind_result (require ((d, u) \<in> set (find_active_leaves cv))
                    (Forbidden (Mls This_device_is_not_in_the_group))) (\<lambda>_.
                case find_handshake_by_epoch cv epoch of
                  None \<Rightarrow> Inl (NotFound (Mls No_commit_at_that_epoch))
                | Some sender \<Rightarrow> Inr (record_commit_fault
                    \<lparr>cf_epoch = epoch, cf_sender = sender, cf_reporter = d, cf_reason = reason\<rparr> cv)))) of
             Inl e \<Rightarrow> ((lm', snd lms), Inl e)
           | Inr (cv1, is_new) \<Rightarrow>
               (if is_new
                then case discard_faulted_snapshot now cid (epoch + 1) (snd lms) cv1 of
                       (dl, cv2) \<Rightarrow> ((lm', dl), Inr (cv2, True))
                else ((lm', snd lms), Inr (cv1, False)))))"

text \<open>\<open>asInlineCode\<close>: backquotes become quotes, a run of white space one space.\<close>

definition is_space :: "char \<Rightarrow> bool" where
  "is_space c \<longleftrightarrow> c = CHR '' '' \<or> (of_char c :: nat) \<in> {9, 10, 11, 12, 13, 160}"

fun squeeze_spaces :: "string \<Rightarrow> string" where
  "squeeze_spaces [] = []"
| "squeeze_spaces (c # cs) =
     (if is_space c
      then (case cs of [] \<Rightarrow> [CHR '' '']
            | d # _ \<Rightarrow> (if is_space d then squeeze_spaces cs else CHR '' '' # squeeze_spaces cs))
      else c # squeeze_spaces cs)"

definition as_inline_code :: "string \<Rightarrow> string" where
  "as_inline_code text =
     [CHR 0x60] @ squeeze_spaces (map (\<lambda>c. if c = CHR 0x60 then CHR 0x27 else c) text) @ [CHR 0x60]"

end
