(* ===== verification/Mls_Work.thy ===== *)
theory Mls_Work
  imports Mls_Service
begin

text \<open>
  \<open>membership-work.ts\<close>, \<open>mls-membership-work.repository.ts\<close>, \<open>mls-membership-work.service.ts\<close>,
  \<open>mls-self-join.repository.ts\<close>, \<open>mls-pending.service.ts\<close> and \<open>mls-audit.repository.ts\<close>: what a device
  is told to do, the lease that hands the work to one device, and the queries for states that should
  never be. A database of conversations is an association list by conversation id.
\<close>

type_synonym conversations = "(conversation_id \<times> conversation) list"

section \<open>Building the work\<close>

record work_device =
  wd_user :: user_id
  wd_device :: device_id

record membership_work_item =
  wi_conversation :: conversation_id
  wi_epoch :: nat
  wi_add :: "work_device list"
  wi_remove :: "work_device list"
  wi_unreachable :: "user_id list"

record conversation_facts =
  fa_id :: conversation_id
  fa_epoch :: nat
  fa_participants :: "(user_id \<times> participant_state) list"
  fa_leaves :: "work_device list"

record device_record =
  dr_user :: user_id
  dr_device :: device_id
  dr_revoked :: bool

definition max_devices_per_commit :: nat where
  "max_devices_per_commit = 50"

definition unrevoked_device_ids :: "device_record list \<Rightarrow> device_id list" where
  "unrevoked_device_ids devices = map dr_device (filter (\<lambda>d. \<not> dr_revoked d) devices)"

definition unrevoked_devices_of :: "device_record list \<Rightarrow> user_id \<Rightarrow> device_id list" where
  "unrevoked_devices_of devices u =
     map dr_device (filter (\<lambda>d. \<not> dr_revoked d \<and> dr_user d = u) devices)"

definition compare_ids :: "string \<Rightarrow> string \<Rightarrow> int" where
  "compare_ids a b = (if a < b then -1 else if a > b then 1 else 0)"

definition first_chunk :: "work_device list \<Rightarrow> work_device list" where
  "first_chunk devices =
     take max_devices_per_commit
       (sort_by (\<lambda>a b. compare_ids (wd_device a) (wd_device b) \<le> 0) devices)"

text \<open>Whether the loop over participants skips one: not entitled, or an invitee who refuses.\<close>

definition skips_participant :: "user_id list \<Rightarrow> user_id \<times> participant_state \<Rightarrow> bool" where
  "skips_participant refusing p \<longleftrightarrow>
     \<not> is_entitled_to_leaf (Some (snd p)) \<or> (snd p = PENDING \<and> fst p \<in> set refusing)"

definition work_add ::
    "device_record list \<Rightarrow> user_id list \<Rightarrow> conversation_facts \<Rightarrow> work_device list" where
  "work_add devices refusing f =
     concat (map (\<lambda>p. if skips_participant refusing p then []
         else map (\<lambda>d. \<lparr>wd_user = fst p, wd_device = d\<rparr>)
           (filter (\<lambda>d. d \<notin> set (map wd_device (fa_leaves f))) (unrevoked_devices_of devices (fst p))))
       (fa_participants f))"

definition work_unreachable ::
    "device_record list \<Rightarrow> user_id list \<Rightarrow> conversation_facts \<Rightarrow> user_id list" where
  "work_unreachable devices refusing f =
     map fst (filter (\<lambda>p. \<not> skips_participant refusing p \<and> snd p = JOINING
         \<and> length (unrevoked_devices_of devices (fst p)) = 0) (fa_participants f))"

definition work_remove ::
    "device_record list \<Rightarrow> device_id \<Rightarrow> conversation_facts \<Rightarrow> work_device list" where
  "work_remove devices requesting f =
     filter (\<lambda>l. wd_device l \<noteq> requesting
         \<and> is_leaf_removable (map_of (js_map (fa_participants f)) (wd_user l))
             (wd_device l \<notin> set (unrevoked_device_ids devices))) (fa_leaves f)"

definition build_membership_work ::
    "conversation_facts list \<Rightarrow> device_record list \<Rightarrow> device_id \<Rightarrow> user_id list
      \<Rightarrow> membership_work_item list" where
  "build_membership_work conversations devices requesting refusing =
     concat (map (\<lambda>f.
       let add = work_add devices refusing f; remove = work_remove devices requesting f
       in if length add = 0 \<and> length remove = 0 then []
          else [\<lparr>wi_conversation = fa_id f, wi_epoch = fa_epoch f, wi_add = first_chunk add,
                 wi_remove = first_chunk remove,
                 wi_unreachable = work_unreachable devices refusing f\<rparr>]) conversations)"

section \<open>The queries\<close>

definition states_needing_work :: "participant_state list" where
  "states_needing_work = [PENDING, JOINING, LEAVING]"

datatype work_scope = Pending_scope | Full_scope

definition has_live_leaf :: "device_id \<Rightarrow> conversation \<Rightarrow> bool" where
  "has_live_leaf d cv \<longleftrightarrow> d \<in> set (map fst (find_active_leaves cv))"

definition someone_in :: "participant_state list \<Rightarrow> conversation \<Rightarrow> bool" where
  "someone_in states cv \<longleftrightarrow> (\<exists>(u, p) \<in> set (cv_parts cv). pt_state p \<in> set states)"

definition facts_of :: "conversation_id \<times> conversation \<Rightarrow> conversation_facts" where
  "facts_of c =
     \<lparr>fa_id = fst c, fa_epoch = cv_epoch (snd c),
      fa_participants = map (\<lambda>(u, p). (u, pt_state p)) (cv_parts (snd c)),
      fa_leaves = map (\<lambda>(d, u). \<lparr>wd_user = u, wd_device = d\<rparr>) (find_active_leaves (snd c))\<rparr>"

definition find_conversations_needing_work ::
    "conversations \<Rightarrow> device_id \<Rightarrow> user_id \<Rightarrow> work_scope \<Rightarrow> conversation_id option
      \<Rightarrow> conversation_id option \<Rightarrow> nat \<Rightarrow> conversation_facts list" where
  "find_conversations_needing_work db device user scope after only limit =
     map facts_of (take limit (sort_by (\<lambda>a b. fst a \<le> fst b)
       (filter (\<lambda>(cid, cv).
            (case after of None \<Rightarrow> True | Some a \<Rightarrow> cid > a)
          \<and> (case only of None \<Rightarrow> True | Some c \<Rightarrow> cid = c)
          \<and> has_live_leaf device cv
          \<and> state_of cv user = Some ACTIVE
          \<and> (scope = Pending_scope \<longrightarrow> someone_in states_needing_work cv)) db)))"

definition has_pending_work :: "conversations \<Rightarrow> device_id \<Rightarrow> user_id \<Rightarrow> bool" where
  "has_pending_work db device user \<longleftrightarrow>
     (\<exists>(cid, cv) \<in> set db. has_live_leaf device cv \<and> state_of cv user = Some ACTIVE
        \<and> someone_in states_needing_work cv)"

definition find_devices :: "registry \<Rightarrow> user_id list \<Rightarrow> device_id list \<Rightarrow> device_record list" where
  "find_devices reg users devices =
     map (\<lambda>(d, f). \<lparr>dr_user = dv_user f, dr_device = d, dr_revoked = (dv_revokedAt f \<noteq> None)\<rparr>)
       (filter (\<lambda>(d, f). dv_user f \<in> set users \<or> d \<in> set devices) reg)"

section \<open>The lease\<close>

definition lease_is_free :: "device_id \<Rightarrow> time \<Rightarrow> time \<Rightarrow> conversation \<Rightarrow> bool" where
  "lease_is_free device now cooldown_start cv \<longleftrightarrow>
     (case cv_leaseUntil cv of
        None \<Rightarrow> True
      | Some until \<Rightarrow> until < cooldown_start
          \<or> (until < now \<and> (case cv_leaseDevice cv of None \<Rightarrow> False | Some holder \<Rightarrow> holder \<noteq> device)))"

definition lease_conversation :: "device_id \<Rightarrow> time \<Rightarrow> time \<Rightarrow> time \<Rightarrow> conversation \<Rightarrow> conversation" where
  "lease_conversation device now until cooldown cv =
     (if lease_is_free device now (now - cooldown) cv
      then cv\<lparr>cv_leaseDevice := Some device, cv_leaseUntil := Some until\<rparr> else cv)"

definition holds_lease :: "device_id \<Rightarrow> time \<Rightarrow> conversation \<Rightarrow> bool" where
  "holds_lease device now cv \<longleftrightarrow>
     cv_leaseDevice cv = Some device \<and> (case cv_leaseUntil cv of None \<Rightarrow> False | Some t \<Rightarrow> t > now)"

definition lease_conversations ::
    "device_id \<Rightarrow> conversation_id list \<Rightarrow> time \<Rightarrow> time \<Rightarrow> time \<Rightarrow> conversations
      \<Rightarrow> conversations \<times> conversation_id list" where
  "lease_conversations device ids now until cooldown db =
     (let db' = map (\<lambda>(cid, cv). (cid, if cid \<in> set ids
                 then lease_conversation device now until cooldown cv else cv)) db
      in (db', map fst (filter (\<lambda>(cid, cv). cid \<in> set ids \<and> holds_lease device now cv) db')))"

definition release_lease :: "device_id \<Rightarrow> conversation_id \<Rightarrow> time \<Rightarrow> conversations \<Rightarrow> conversations" where
  "release_lease device cid now db =
     map (\<lambda>(c, cv). (c, if c = cid \<and> cv_leaseDevice cv = Some device
                         then cv\<lparr>cv_leaseUntil := Some now\<rparr> else cv)) db"

section \<open>The service\<close>

definition conversations_per_page :: nat where "conversations_per_page = 50"
definition work_lease_ms :: int where "work_lease_ms = 60000"
definition work_cooldown_ms :: int where "work_cooldown_ms = 2 * 60000"

definition keep_only_leased ::
    "membership_work_item list \<Rightarrow> device_id \<Rightarrow> time \<Rightarrow> conversations
      \<Rightarrow> conversations \<times> membership_work_item list" where
  "keep_only_leased items device now db =
     (if items = [] then (db, [])
      else case lease_conversations device (map wi_conversation items) now (now + work_lease_ms)
             work_cooldown_ms db of
             (db', held) \<Rightarrow> (db', filter (\<lambda>i. wi_conversation i \<in> set held) items))"

text \<open>
  \<open>findInviteesRefusingRequester\<close> asks about follows and blocks: it is \<open>refuses\<close>, which of the
  invitees it is given refuse the requester.
\<close>

definition get_membership_work ::
    "registry \<Rightarrow> (user_id \<Rightarrow> user_id list \<Rightarrow> user_id list) \<Rightarrow> int \<Rightarrow> user_id \<Rightarrow> device_id
      \<Rightarrow> work_scope option \<Rightarrow> conversation_id option \<Rightarrow> conversation_id option
      \<Rightarrow> limiter \<Rightarrow> conversations
      \<Rightarrow> limiter \<times> (conversations \<times> membership_work_item list \<times> conversation_id option) result" where
  "get_membership_work reg refuses now u device scope after only lm db =
     limited work_limiter now u lm
       (bind_result (assert_own_active_device reg u device) (\<lambda>_.
         let found = find_conversations_needing_work db device u
               (case scope of None \<Rightarrow> Pending_scope | Some s \<Rightarrow> s) after only conversations_per_page;
             devices = (if length found > 0
               then find_devices reg (js_set (concat (map (\<lambda>f. map fst (fa_participants f)) found)))
                      (js_set (concat (map (\<lambda>f. map wd_device (fa_leaves f)) found)))
               else []);
             refusing = refuses u (js_set (concat (map (\<lambda>f. map fst
                 (filter (\<lambda>p. snd p = PENDING \<and> fst p \<noteq> u) (fa_participants f))) found)));
             items = build_membership_work found devices device refusing
         in case keep_only_leased items device now db of
              (db', kept) \<Rightarrow> Inr (db', kept,
                if length found = conversations_per_page then Some (fa_id (last found)) else None)))"

definition release_membership_work ::
    "registry \<Rightarrow> time \<Rightarrow> user_id \<Rightarrow> device_id \<Rightarrow> conversation_id \<Rightarrow> conversations \<Rightarrow> conversations result" where
  "release_membership_work reg now u device cid db =
     bind_result (assert_own_active_device reg u device) (\<lambda>_. Inr (release_lease device cid now db))"

section \<open>Joinable conversations and the pending summary\<close>

definition find_joinable_conversation_ids ::
    "conversations \<Rightarrow> user_id \<Rightarrow> device_id \<Rightarrow> work_scope \<Rightarrow> nat \<Rightarrow> conversation_id list" where
  "find_joinable_conversation_ids db user device scope limit =
     (let states = (if scope = Pending_scope then [JOINING] else entitled_to_leaf_states)
      in take limit (sort_by (\<le>) (map fst (filter (\<lambda>(cid, cv).
           (case state_of cv user of None \<Rightarrow> False | Some s \<Rightarrow> s \<in> set states)
         \<and> (case cv_groupInfo cv of None \<Rightarrow> False | Some info \<Rightarrow> fst info = cv_epoch cv)
         \<and> \<not> has_live_leaf device cv) db))))"

definition joinable_per_request :: nat where "joinable_per_request = 50"

definition list_joinable ::
    "registry \<Rightarrow> int \<Rightarrow> user_id \<Rightarrow> device_id \<Rightarrow> work_scope \<Rightarrow> conversations \<Rightarrow> limiter
      \<Rightarrow> limiter \<times> conversation_id list result" where
  "list_joinable reg now u d scope db lm =
     limited pending_limiter now u lm
       (bind_result (assert_own_active_device reg u d) (\<lambda>_.
          Inr (find_joinable_conversation_ids db u d scope joinable_per_request)))"

definition get_pending_summary ::
    "registry \<Rightarrow> int \<Rightarrow> user_id \<Rightarrow> device_id \<Rightarrow> conversations \<Rightarrow> limiter
      \<Rightarrow> limiter \<times> (nat \<times> bool \<times> bool) result" where
  "get_pending_summary reg now u d db lm =
     limited pending_limiter now u lm
       (bind_result (assert_own_active_device reg u d) (\<lambda>_.
          Inr (count_pending_welcomes (map snd db) d,
               length (find_joinable_conversation_ids db u d Pending_scope 1) > 0,
               has_pending_work db d u)))"

section \<open>The integrity sweep\<close>

text \<open>\<open>findLeavesOfOutsiders\<close> and \<open>findLeavesOfDeadDevices\<close>, before the sample limit.\<close>

definition leaves_of_outsiders :: "conversations \<Rightarrow> (conversation_id \<times> device_id \<times> user_id) list" where
  "leaves_of_outsiders db =
     concat (map (\<lambda>(cid, cv). map (\<lambda>(d, u). (cid, d, u)) (filter (\<lambda>(d, u).
       case state_of cv u of None \<Rightarrow> True
       | Some s \<Rightarrow> s \<notin> set (entitled_to_leaf_states @ [LEAVING])) (find_active_leaves cv))) db)"

definition revoked_leaf_grace_ms :: int where "revoked_leaf_grace_ms = 7 * 24 * 60 * 60 * 1000"

definition leaves_of_dead_devices ::
    "registry \<Rightarrow> time \<Rightarrow> conversations \<Rightarrow> (conversation_id \<times> device_id \<times> user_id) list" where
  "leaves_of_dead_devices reg now db =
     concat (map (\<lambda>(cid, cv). map (\<lambda>(d, u). (cid, d, u)) (filter (\<lambda>(d, u).
       case map_of reg d of None \<Rightarrow> True
       | Some dv \<Rightarrow> (case dv_revokedAt dv of None \<Rightarrow> False
           | Some t \<Rightarrow> t < now - revoked_leaf_grace_ms)) (find_active_leaves cv))) db)"

end
