(* ===== verification/Group_Service.thy ===== *)
theory Group_Service
  imports Conversation_Invariant
begin

text \<open>
  The requests of \<open>chat-group.service.ts\<close> and \<open>chat-inbox.service.ts\<close> that change a participant, with
  the guards of \<open>chat-access.service.ts\<close>. A guard reads a snapshot \<open>seen\<close> before the transaction; the
  write runs on the rows \<open>cv\<close> it finds. Loading users, following, blocking and the events to clients
  are not part of the conversation's rows: the members to add are given with the entitlement
  \<open>resolveGroupMemberStates\<close> chose for them.
\<close>

section \<open>The guards\<close>

definition assert_is_group_member :: "user_id \<Rightarrow> conversation \<Rightarrow> participant result" where
  "assert_is_group_member u seen =
     (if \<not> cv_group seen then Inl (NotFound (Chat Group_conversation_not_found))
      else case map_of (cv_parts seen) u of
        None \<Rightarrow> Inl (Forbidden (Chat You_are_not_in_this_group))
      | Some p \<Rightarrow> (if pt_state p \<noteq> ACTIVE then Inl (Forbidden (Chat You_are_not_in_this_group)) else Inr p))"

definition assert_can_manage_group :: "user_id \<Rightarrow> conversation \<Rightarrow> participant result" where
  "assert_can_manage_group u seen =
     bind_result (assert_is_group_member u seen) (\<lambda>p.
       if pt_role p \<notin> set [OWNER, ADMIN] then Inl (Forbidden (Guard Group_admin_permission_required)) else Inr p)"

definition assert_is_group_owner :: "user_id \<Rightarrow> conversation \<Rightarrow> participant result" where
  "assert_is_group_owner u seen =
     bind_result (assert_can_manage_group u seen) (\<lambda>p.
       if pt_role p \<noteq> OWNER then Inl (Forbidden (Guard Only_the_group_owner_can_do_this)) else Inr p)"

definition can_read_state :: "participant_state \<Rightarrow> bool" where
  "can_read_state s \<longleftrightarrow> s \<in> set [ACTIVE, PENDING, ARCHIVED]"

definition assert_readable_participant :: "user_id \<Rightarrow> conversation \<Rightarrow> participant result" where
  "assert_readable_participant u seen =
     (case map_of (cv_parts seen) u of
        None \<Rightarrow> Inl (NotFound (Chat Conversation_not_found))
      | Some p \<Rightarrow>
          (if pt_deletedAt p \<noteq> None then Inl (NotFound (Chat Conversation_not_found))
           else if \<not> can_read_state (pt_state p) then Inl (Forbidden (Guard You_cannot_read_this_conversation))
           else Inr p))"

definition assert_participant_state ::
    "user_id \<Rightarrow> participant_state \<Rightarrow> reason \<Rightarrow> conversation \<Rightarrow> unit result" where
  "assert_participant_state u required msg seen =
     bind_result (assert_readable_participant u seen) (\<lambda>p.
       require (\<not> (pt_state p \<noteq> required)) (BadRequest msg))"

definition assert_has_visible_participant :: "user_id \<Rightarrow> conversation \<Rightarrow> unit result" where
  "assert_has_visible_participant u seen =
     (case map_of (cv_parts seen) u of
        None \<Rightarrow> Inl (NotFound (Chat Conversation_not_found))
      | Some p \<Rightarrow> require (pt_deletedAt p = None) (NotFound (Chat Conversation_not_found)))"

section \<open>The requests\<close>

definition remove_group_members ::
    "time \<Rightarrow> user_id \<Rightarrow> user_id list \<Rightarrow> conversation \<Rightarrow> conversation \<Rightarrow> (conversation \<times> nat) result" where
  "remove_group_members now u users seen cv =
     bind_result (assert_can_manage_group u seen) (\<lambda>_.
       if u \<in> set users then Inl (BadRequest (Guard Use_leave_group_instead))
       else remove_members now (js_set users) (Some u) cv)"

definition transfer_ownership ::
    "user_id \<Rightarrow> user_id \<Rightarrow> conversation \<Rightarrow> conversation \<Rightarrow> conversation result" where
  "transfer_ownership u new_owner seen cv =
     bind_result (assert_is_group_owner u seen) (\<lambda>_.
       if new_owner = u then Inl (BadRequest (Guard You_already_own_this_group))
       else if state_of seen new_owner \<noteq> Some ACTIVE
       then Inl (BadRequest (Guard New_owner_must_be_an_active_member))
       else transfer_group_ownership u new_owner cv)"

text \<open>\<open>updateParticipantRole\<close>, \<open>updateParticipantState\<close>: \<open>update\<close> throws when there is no row.\<close>

definition update_participant_role :: "user_id \<Rightarrow> participant_role \<Rightarrow> conversation \<Rightarrow> conversation result" where
  "update_participant_role u role cv =
     (case map_of (cv_parts cv) u of
        None \<Rightarrow> Inl (ServerError (Chat Group_membership_changed))
      | Some p \<Rightarrow> Inr (cv\<lparr>cv_parts := AList.update u (p\<lparr>pt_role := role\<rparr>) (cv_parts cv)\<rparr>))"

definition update_participant_state ::
    "time \<Rightarrow> user_id \<Rightarrow> participant_state \<Rightarrow> conversation \<Rightarrow> conversation result" where
  "update_participant_state now u st cv =
     (case map_of (cv_parts cv) u of
        None \<Rightarrow> Inl (ServerError (Chat Group_membership_changed))
      | Some p \<Rightarrow> Inr (cv\<lparr>cv_parts := AList.update u
           (p\<lparr>pt_state := st,
              pt_pendingSince := (if st = PENDING then Some now else None),
              pt_archivedAt := (if st = ARCHIVED then Some now else pt_archivedAt p)\<rparr>) (cv_parts cv)\<rparr>))"

text \<open>\<open>dto.role\<close> is MEMBER or ADMIN.\<close>

definition update_group_member_role ::
    "user_id \<Rightarrow> user_id \<Rightarrow> participant_role \<Rightarrow> conversation \<Rightarrow> conversation \<Rightarrow> conversation result" where
  "update_group_member_role u target role seen cv =
     bind_result (assert_is_group_owner u seen) (\<lambda>_.
       if target = u then Inl (BadRequest (Guard Use_transfer_to_change_your_own_role))
       else case map_of (cv_parts seen) target of
         None \<Rightarrow> Inl (NotFound (Guard Group_member_not_found))
       | Some p \<Rightarrow>
           (if pt_state p \<noteq> ACTIVE then Inl (NotFound (Guard Group_member_not_found))
            else if pt_role p = OWNER then Inl (BadRequest (Guard Cannot_change_role_of_group_owner))
            else in_transaction_as_role u [OWNER] (update_participant_role target role) cv))"

definition add_group_members ::
    "time \<Rightarrow> (user_id \<times> entitlement) list \<Rightarrow> user_id \<Rightarrow> conversation \<Rightarrow> conversation
      \<Rightarrow> (conversation \<times> participant_added list \<times> nat) result" where
  "add_group_members now members u seen cv =
     bind_result (assert_is_group_member u seen) (\<lambda>_. add_members now members u cv)"

definition accept_request :: "time \<Rightarrow> user_id \<Rightarrow> conversation \<Rightarrow> conversation \<Rightarrow> (conversation \<times> nat) result" where
  "accept_request now u seen cv =
     bind_result (assert_has_visible_participant u seen) (\<lambda>_. accept_invite now u cv)"

definition decline_request :: "time \<Rightarrow> user_id \<Rightarrow> conversation \<Rightarrow> conversation \<Rightarrow> (conversation \<times> nat) result" where
  "decline_request now u seen cv =
     bind_result (assert_has_visible_participant u seen) (\<lambda>_. decline_invite now u cv)"

definition archive_conversation :: "time \<Rightarrow> user_id \<Rightarrow> conversation \<Rightarrow> conversation \<Rightarrow> conversation result" where
  "archive_conversation now u seen cv =
     bind_result (assert_participant_state u ACTIVE (Guard Only_active_conversations_can_be_archived) seen)
       (\<lambda>_. update_archived_state now u True cv)"

definition unarchive_conversation :: "time \<Rightarrow> user_id \<Rightarrow> conversation \<Rightarrow> conversation \<Rightarrow> conversation result" where
  "unarchive_conversation now u seen cv =
     bind_result (assert_participant_state u ARCHIVED (Guard Only_archived_conversations_can_be_unarchived) seen)
       (\<lambda>_. update_archived_state now u False cv)"

text \<open>\<open>blockConversation\<close>; the block itself (\<open>blockUser\<close>) is not a row of the conversation.\<close>

definition block_conversation ::
    "time \<Rightarrow> user_id \<Rightarrow> conversation \<Rightarrow> conversation \<Rightarrow> (conversation \<times> user_id) result" where
  "block_conversation now u seen cv =
     bind_result (assert_readable_participant u seen) (\<lambda>p.
       case find (\<lambda>(v, q). v \<noteq> u) (cv_parts seen) of
         None \<Rightarrow> Inl (BadRequest (Guard Only_a_direct_chat_can_be_blocked))
       | Some (other, q) \<Rightarrow>
           (if cv_group seen then Inl (BadRequest (Guard Only_a_direct_chat_can_be_blocked))
            else if pt_state p = PENDING
            then bind_result (update_participant_state now u DECLINED cv) (\<lambda>cv'. Inr (cv', other))
            else Inr (cv, other)))"

definition soft_delete_conversation :: "time \<Rightarrow> user_id \<Rightarrow> conversation \<Rightarrow> conversation result" where
  "soft_delete_conversation now u cv =
     (case map_of (cv_parts cv) u of
        None \<Rightarrow> Inl (ServerError (Chat Group_membership_changed))
      | Some p \<Rightarrow> Inr (cv\<lparr>cv_parts := AList.update u (p\<lparr>pt_deletedAt := Some now\<rparr>) (cv_parts cv)\<rparr>))"

definition restore_deleted_participants :: "user_id list \<Rightarrow> conversation \<Rightarrow> conversation" where
  "restore_deleted_participants users cv =
     cv\<lparr>cv_parts := map (\<lambda>(u, p). (u, if u \<in> set users then p\<lparr>pt_deletedAt := None\<rparr> else p)) (cv_parts cv)\<rparr>"

section \<open>They keep the conversation's invariant\<close>

lemma block_keeps:
  assumes ok: "conv_ok cv" and run: "block_conversation now u seen cv = Inr (cv', other)"
    and same: "cv_group seen = cv_group cv"
  shows "conv_ok cv'"
proof -
  from run have direct: "\<not> cv_group cv" and cv': "cv' = cv \<or> (\<exists>p. cv' = cv\<lparr>cv_parts := AList.update u
      (p\<lparr>pt_state := DECLINED, pt_pendingSince := None\<rparr>) (cv_parts cv)\<rparr>)"
    using same by (auto simp: block_conversation_def bind_result_Inr_iff update_participant_state_def
        split: option.splits if_splits)
  from cv' show ?thesis
    by (elim disjE exE) (use ok direct in \<open>auto intro!: conv_ok_update [OF ok refl]\<close>)
qed

lemma restore_parts:
  "map fst (cv_parts (restore_deleted_participants users cv)) = map fst (cv_parts cv)"
  "map_of (cv_parts (restore_deleted_participants users cv)) u =
    map_option (\<lambda>p. if u \<in> set users then p\<lparr>pt_deletedAt := None\<rparr> else p) (map_of (cv_parts cv) u)"
  "state_of (restore_deleted_participants users cv) u = state_of cv u"
proof -
  have "map_of (map (\<lambda>(u, p). (u, if u \<in> set users then p\<lparr>pt_deletedAt := None\<rparr> else p)) ps) u =
    map_option (\<lambda>p. if u \<in> set users then p\<lparr>pt_deletedAt := None\<rparr> else p) (map_of ps u)"
    for ps :: "(user_id \<times> participant) list" by (induction ps) auto
  then show m: "map_of (cv_parts (restore_deleted_participants users cv)) u =
    map_option (\<lambda>p. if u \<in> set users then p\<lparr>pt_deletedAt := None\<rparr> else p) (map_of (cv_parts cv) u)"
    by (simp add: restore_deleted_participants_def)
  show "map fst (cv_parts (restore_deleted_participants users cv)) = map fst (cv_parts cv)"
    by (auto simp: restore_deleted_participants_def)
  show "state_of (restore_deleted_participants users cv) u = state_of cv u"
    by (simp add: state_of_def m option.map_comp comp_def) (cases "map_of (cv_parts cv) u"; simp)
qed

lemma restore_keeps: "conv_ok cv \<Longrightarrow> conv_ok (restore_deleted_participants users cv)"
proof -
  assume ok: "conv_ok cv"
  show ?thesis
  proof (rule conv_ok_parts [OF ok])
    show "distinct (map fst (cv_parts (restore_deleted_participants users cv)))"
      using conv_okD(1) [OF ok] by (simp only: restore_parts(1))
    show "restore_deleted_participants users cv = cv\<lparr>cv_parts := cv_parts (restore_deleted_participants users cv),
        cv_rounds := cv_rounds cv\<rparr>"
      by (simp add: restore_deleted_participants_def)
  qed (use conv_okD(4-6) [OF ok] in \<open>auto simp: restore_parts(3)\<close>)
qed

lemma role_keeps:
  "conv_ok cv \<Longrightarrow> update_participant_role u role cv = Inr cv' \<Longrightarrow> conv_ok cv'"
  by (auto simp: update_participant_role_def intro!: conv_ok_role split: option.splits)

lemma soft_delete_keeps:
  "conv_ok cv \<Longrightarrow> soft_delete_conversation now u cv = Inr cv' \<Longrightarrow> conv_ok cv'"
  by (auto simp: soft_delete_conversation_def intro!: conv_ok_role split: option.splits)

lemma member_role_keeps:
  "conv_ok cv \<Longrightarrow> update_group_member_role u target role seen cv = Inr cv' \<Longrightarrow> conv_ok cv'"
  by (auto simp: update_group_member_role_def in_transaction_as_role_def bind_result_Inr_iff
      intro: role_keeps split: option.splits if_splits)

lemma transfer_request_keeps:
  "conv_ok cv \<Longrightarrow> transfer_ownership u v seen cv = Inr cv' \<Longrightarrow> conv_ok cv'"
  by (auto simp: transfer_ownership_def bind_result_Inr_iff intro: transfer_ownership_keeps split: if_splits)

lemma invite_event_app [simp]:
  "app_event ACCEPT_INVITE" "app_event DECLINE_INVITE" "app_event ADD_INVITE" "app_event ADD_DIRECT"
  "app_event EXPIRE_INVITE" "app_event REMOVE"
  by (simp_all add: app_event_def)

lemma accept_invite_keeps: "conv_ok cv \<Longrightarrow> accept_invite now u cv = Inr (cv', n) \<Longrightarrow> conv_ok cv'"
  and decline_invite_keeps: "conv_ok cv \<Longrightarrow> decline_invite now u cv = Inr (cv', n) \<Longrightarrow> conv_ok cv'"
  and request_direct_again_keeps: "conv_ok cv \<Longrightarrow> request_direct_again now u cv = Inr (cv', n) \<Longrightarrow> conv_ok cv'"
  and reopen_direct_keeps: "conv_ok cv \<Longrightarrow> reopen_direct now u cv = Inr (cv', n) \<Longrightarrow> conv_ok cv'"
  and expire_invites_keeps: "conv_ok cv \<Longrightarrow> expire_invites now us cv = Inr (cv', n) \<Longrightarrow> conv_ok cv'"
  by (auto simp: accept_invite_def decline_invite_def request_direct_again_def reopen_direct_def
      expire_invites_def elim!: change_keeps)

end
