(* ===== verification/Mls_System.thy ===== *)
theory Mls_System
  imports Mls_Work Group_Service "HOL-Library.Sublist"
begin

text \<open>
  Every operation on a conversation as one step relation, from a conversation just created: what
  the members, the expiry job, the devices and the other requests do, in any order and interleaving
  (each step is one transaction), with any device registry at any step: every write to a
  conversation's participants and MLS rows is a step, those around the state machine (blocking, hiding,
  restoring) and around the row lock included. What a request read before its transaction is any
  earlier or later state. A membership change may find rows that archiving or blocking rewrote
  after it read them (\<open>beside\<close>); a Commit whose participants are rewritten in between either
  fails (its writes are conditional on what it read) or writes rows that write does not touch, so it
  is the step before it.
\<close>

section \<open>Steps\<close>

definition fresh_conversation :: "conversation \<Rightarrow> bool" where
  "fresh_conversation cv \<longleftrightarrow> cv_epoch cv = 0 \<and> cv_roster cv = [] \<and> cv_handshakes cv = []
     \<and> cv_groupInfo cv = None \<and> distinct (map fst (cv_parts cv))
     \<and> (\<forall>(u, p) \<in> set (cv_parts cv). pt_state p \<in> {ACTIVE, PENDING})"

inductive conversation_step :: "conversation \<Rightarrow> conversation \<Rightarrow> bool" where
  add: "add_members now members actor cv = Inr (cv', evs, n) \<Longrightarrow> conversation_step cv cv'"
| remove: "remove_members now users actor cv = Inr (cv', n) \<Longrightarrow> conversation_step cv cv'"
| accept: "accept_invite now u cv = Inr (cv', n) \<Longrightarrow> conversation_step cv cv'"
| decline: "decline_invite now u cv = Inr (cv', n) \<Longrightarrow> conversation_step cv cv'"
| again: "request_direct_again now u cv = Inr (cv', n) \<Longrightarrow> conversation_step cv cv'"
| reopen: "reopen_direct now u cv = Inr (cv', n) \<Longrightarrow> conversation_step cv cv'"
| expire: "expire_invites now users cv = Inr (cv', n) \<Longrightarrow> conversation_step cv cv'"
| stamp: "stamp_missing_pending_since now cv = (cv', n) \<Longrightarrow> conversation_step cv cv'"
| archive: "update_archived_state now u archived cv = Inr cv' \<Longrightarrow> conversation_step cv cv'"
| transfer: "transfer_ownership u v seen cv = Inr cv' \<Longrightarrow> conversation_step cv cv'"
| role: "update_group_member_role u v r seen cv = Inr cv' \<Longrightarrow> r \<in> {MEMBER, ADMIN} \<Longrightarrow> conversation_step cv cv'"
| hide: "soft_delete_conversation now u cv = Inr cv' \<Longrightarrow> conversation_step cv cv'"
| leave: "leave_group now u seen cv = Inr cv' \<Longrightarrow> cv_epoch seen \<le> cv_epoch cv \<Longrightarrow> conversation_step cv cv'"
| commit: "submit_handshake_body lib sha reg now u cid dto seen cv = Inr (cv', resp) \<Longrightarrow>
    conversation_step cv cv'"
| join: "submit_external_join_body lib sha reg now u cid dto' seen cv = Inr (cv', resp) \<Longrightarrow>
    conversation_step cv cv'"
| fault: "report_fault reg now u cid d e reason lms cv = (lms', Inr (cv', new)) \<Longrightarrow> conversation_step cv cv'"
| consume: "mark_welcome_consumed now i d cv = (cv', b) \<Longrightarrow> conversation_step cv cv'"
| lease: "cv' = lease_conversation d now until cooldown cv \<Longrightarrow> conversation_step cv cv'"
| release: "snd ` set (release_lease d cid now [(cid, cv)]) = {cv'} \<Longrightarrow> conversation_step cv cv'"
| beside: "change_beside now requests oi seen cv = Inr (cv', n) \<Longrightarrow> cv_roster seen = cv_roster cv \<Longrightarrow>
    \<forall>r \<in> set requests. app_event (rq_event r) \<Longrightarrow> conversation_step cv cv'"
| block: "block_conversation now u seen cv = Inr (cv', other) \<Longrightarrow> cv_group seen = cv_group cv \<Longrightarrow>
    conversation_step cv cv'"
| restore: "cv' = restore_deleted_participants users cv \<Longrightarrow> conversation_step cv cv'"

inductive_cases conversation_stepE: "conversation_step cv cv'"

section \<open>Steps that touch no participant and no leaf\<close>

definition same_membership :: "conversation \<Rightarrow> conversation \<Rightarrow> bool" where
  "same_membership cv cv' \<longleftrightarrow> cv_parts cv' = cv_parts cv \<and> cv_roster cv' = cv_roster cv
     \<and> cv_epoch cv' = cv_epoch cv \<and> cv_handshakes cv' = cv_handshakes cv \<and> cv_group cv' = cv_group cv
     \<and> (cv_groupInfo cv' = cv_groupInfo cv \<or> cv_groupInfo cv' = None)"

lemma same_membership_keeps:
  assumes "conv_ok cv" and "same_membership cv cv'"
  shows "conv_ok cv'"
proof -
  have "find_active_leaves cv' = find_active_leaves cv" "has_roster cv' = has_roster cv"
    "state_of cv' = state_of cv" "leaf_users cv' = leaf_users cv"
    using assms(2)
    by (simp_all add: same_membership_def find_active_leaves_def has_roster_def state_of_def fun_eq_iff
        leaf_users_def)
  with assms show ?thesis
    by (auto simp: conv_ok_def roster_ok_def log_ok_def leaves_ok_def phases_iff same_membership_def
        cong: option.case_cong)
qed

lemma record_fault_same: "record_commit_fault f cv = (cv', b) \<Longrightarrow> same_membership cv cv'"
  by (auto simp: record_commit_fault_def same_membership_def split: if_splits)

lemma report_fault_same:
  assumes "report_fault reg now u cid d e reason lms cv = (lms', Inr (cv', new))"
  shows "same_membership cv cv'"
proof -
  have disc: "same_membership cv2 cv3" if "discard_faulted_snapshot t c ep lm cv2 = (lm2, cv3)" for t c ep lm cv2 lm2 cv3
    using that by (auto simp: discard_faulted_snapshot_def delete_if_describes_epoch_def same_membership_def
        split: if_splits prod.splits bool.splits)
  from assms have "\<exists>f cv1 is_new. record_commit_fault f cv = (cv1, is_new)
      \<and> (cv' = cv1 \<or> (\<exists>t c ep lm lm2. discard_faulted_snapshot t c ep lm cv1 = (lm2, cv')))"
    by (auto simp: report_fault_def bind_result_Inr_iff split: prod.splits sum.splits option.splits if_splits)
       blast+
  then obtain f cv1 is_new where r: "record_commit_fault f cv = (cv1, is_new)"
    and rest: "cv' = cv1 \<or> (\<exists>t c ep lm lm2. discard_faulted_snapshot t c ep lm cv1 = (lm2, cv'))"
    by blast
  from record_fault_same [OF r] rest disc show ?thesis
    by (fastforce simp: same_membership_def)
qed

lemma consume_same: "mark_welcome_consumed now i d cv = (cv', b) \<Longrightarrow> same_membership cv cv'"
  by (auto simp: mark_welcome_consumed_def same_membership_def split: if_splits)

lemma lease_same: "same_membership cv (lease_conversation d now until cooldown cv)"
  by (simp add: lease_conversation_def same_membership_def)

lemma release_same: "snd ` set (release_lease d cid now [(cid, cv)]) = {cv'} \<Longrightarrow> same_membership cv cv'"
  by (auto simp: release_lease_def same_membership_def split: if_splits)

section \<open>Commits reach the repository declared\<close>

lemma submit_handshakeE:
  assumes "submit_handshake_body lib sha reg now u cid dto seen cv = Inr (cv', resp)"
  obtains c res where "declared c" and "accept_commit reg now c cv = Inr (cv', res)"
    and "resp = to_submit_response res" and "ca_sender c = Member" and "ca_user c = u"
    and "ca_device c = sd_device dto" and "ca_epoch c = sd_epoch dto" and "ca_added c = sd_added dto"
    and "ca_removed c = sd_removed dto" and "state_of seen u = Some ACTIVE"
    and "ca_payload c = base64_decode (sd_payload dto)"
    and "assert_is_commit_for_conversation lib (ca_payload c) cid (ca_epoch c) = Inr ()"
    and "\<exists>dv. map_of reg (sd_device dto) = Some dv \<and> dv_user dv = u \<and> dv_revokedAt dv = None"
proof -
  from assms obtain device welcomes info res where
    "state_of seen u = Some ACTIVE" "assert_own_active_device reg u (sd_device dto) = Inr device"
    "assert_is_commit_for_conversation lib (base64_decode (sd_payload dto)) cid (sd_epoch dto) = Inr ()"
    "assert_declaration_is_consistent (sd_device dto) (sd_added dto) (sd_removed dto) (map fst welcomes) = Inr ()"
    "accept_handshake reg now
         \<lparr>ca_epoch = sd_epoch dto, ca_device = sd_device dto, ca_user = u,
          ca_payload = base64_decode (sd_payload dto), ca_sha256 = sha (base64_decode (sd_payload dto)),
          ca_added = sd_added dto, ca_removed = sd_removed dto, ca_welcomes = welcomes,
          ca_groupInfo = info, ca_sender = Member, ca_resync = False\<rparr> cv = Inr (cv', res)"
    "resp = to_submit_response res"
    by (auto simp: submit_handshake_body_def assert_active_participant_def bind_result_Inr_iff Let_def)
  then show thesis
    by (intro that) (auto simp: accept_handshake_def declared_def assert_own_active_device_def
        split: option.splits if_splits)
qed

lemma submit_external_joinE:
  assumes "submit_external_join_body lib sha reg now u cid dto seen cv = Inr (cv', resp)"
  obtains c res joiner key where "declared c" and "accept_commit reg now c cv = Inr (cv', res)"
    and "resp = to_submit_response res" and "ca_sender c = External" and "ca_user c = u"
    and "ca_device c = ed_device dto" and "ca_epoch c = ed_epoch dto"
    and "ca_resync c = (ej_removedLeaf joiner \<noteq> None)"
    and "read_external_join lib (base64_decode (ed_payload dto)) cid (ed_epoch dto) = Inr joiner"
    and "ej_user joiner = u" and "ej_device joiner = ed_device dto" and "ej_key joiner = key"
    and "\<exists>dv. map_of reg (ed_device dto) = Some dv \<and> dv_user dv = u \<and> dv_revokedAt dv = None \<and> dv_key dv = key"
    and "check_join_at_frontier lib joiner u (ed_device dto) key (ed_epoch dto)
      (base64_decode (ed_payload dto)) seen = Inr ()"
    and "is_entitled_to_leaf (state_of seen u)"
proof -
  from assms obtain device joiner info res where
    "is_entitled_to_leaf (state_of seen u)" "assert_own_active_device reg u (ed_device dto) = Inr device"
    "read_external_join lib (base64_decode (ed_payload dto)) cid (ed_epoch dto) = Inr joiner"
    "assert_joiner_matches_device joiner u (ed_device dto) (dv_key device) = Inr ()"
    "check_join_at_frontier lib joiner u (ed_device dto) (dv_key device) (ed_epoch dto)
      (base64_decode (ed_payload dto)) seen = Inr ()"
    "accept_external_join reg now (ed_epoch dto) (ed_device dto) u (base64_decode (ed_payload dto))
      (sha (base64_decode (ed_payload dto))) info (ej_removedLeaf joiner \<noteq> None) cv = Inr (cv', res)"
    "resp = to_submit_response res"
    by (auto simp: submit_external_join_body_def assert_entitled_participant_def bind_result_Inr_iff Let_def)
  then show thesis
    by (intro that) (auto simp: accept_external_join_def declared_def assert_own_active_device_def
        assert_joiner_matches_device_def split: option.splits if_splits)
qed

section \<open>The invariant and what only grows\<close>

lemma change_tx_mls_rows:
  assumes "change_membership_in_transaction now requests oi cv = Inr (cv', cs)"
  shows "cv_roster cv' = cv_roster cv" "cv_epoch cv' = cv_epoch cv" "cv_handshakes cv' = cv_handshakes cv"
  using assms participant_frame [OF apply_frame]
  by (auto simp: change_tx_unfold bind_result_Inr_iff)

lemma accept_commit_cases:
  assumes "accept_commit reg now c cv = Inr (cv', res)"
  obtains h where "cv_epoch cv = ca_epoch c" and "commit_transaction reg now c cv = Inr (cv', h)"
    and "res = Accepted h"
  | "cv' = cv" and "cv_epoch cv \<noteq> ca_epoch c"
  using assms by (auto simp: accept_commit_def bind_result_Inr_iff split: if_splits option.splits)

lemma conversation_step_keeps:
  assumes ok: "conv_ok cv" and "conversation_step cv cv'"
  shows "conv_ok cv'"
  using assms(2)
proof (cases rule: conversation_step.cases)
  case stamp
  then show ?thesis using stamp_keeps [OF ok] by (metis fst_conv)
next
  case (commit lib sha reg now u cid dto seen resp)
  from commit(1) show ?thesis
    by (cases rule: submit_handshakeE) (rule accept_commit_keeps [OF ok])
next
  case (join lib sha reg now u cid dto' seen resp)
  from join(1) show ?thesis
    by (cases rule: submit_external_joinE) (rule accept_commit_keeps [OF ok])
next
  case lease
  then show ?thesis using same_membership_keeps [OF ok] lease_same by blast
qed (use same_membership_keeps [OF ok] in \<open>blast intro: add_members_keeps [OF ok] remove_members_keeps [OF ok]
     accept_invite_keeps [OF ok] decline_invite_keeps [OF ok] request_direct_again_keeps [OF ok]
     reopen_direct_keeps [OF ok] expire_invites_keeps [OF ok] update_archived_keeps [OF ok]
     transfer_request_keeps [OF ok] member_role_keeps [OF ok] soft_delete_keeps [OF ok]
     leave_group_keeps [OF ok] report_fault_same consume_same release_same change_beside_keeps [OF ok]
     block_keeps [OF ok] restore_keeps [OF ok]\<close>)+

lemma fresh_conversation_ok: "fresh_conversation cv \<Longrightarrow> conv_ok cv"
proof -
  assume f: "fresh_conversation cv"
  then have "state_of cv u \<noteq> Some JOINING \<and> state_of cv u \<noteq> Some LEAVING" for u
    by (auto simp: fresh_conversation_def state_of_def dest: map_of_SomeD)
  with f show "conv_ok cv"
    by (simp add: fresh_conversation_def conv_ok_def roster_ok_def log_ok_def leaves_ok_def phases_iff
        leaf_users_def find_active_leaves_def has_roster_def epochs_ok_def)
qed

interpretation conv_machine: state_machine fresh_conversation conversation_step conv_ok
  by unfold_locales (auto intro: fresh_conversation_ok conversation_step_keeps)

text \<open>The log of Commits is append-only: no step rewrites or drops an accepted Commit.\<close>

definition log_extends :: "conversation \<Rightarrow> conversation \<Rightarrow> bool" where
  "log_extends cv cv' \<longleftrightarrow> prefix (cv_handshakes cv) (cv_handshakes cv')"

lemma change_log: "change now requests oi cv = Inr (cv', n) \<Longrightarrow> cv_handshakes cv' = cv_handshakes cv"
  by (auto simp: change_def change_membership_def bind_result_Inr_iff dest: change_tx_mls_rows(3))

lemma add_members_log: "add_members now members actor cv = Inr (cv', evs, n) \<Longrightarrow> cv_handshakes cv' = cv_handshakes cv"
  by (auto elim!: add_membersE dest: change_tx_mls_rows(3))

lemma remove_members_log: "remove_members now users actor cv = Inr (cv', n) \<Longrightarrow> cv_handshakes cv' = cv_handshakes cv"
  by (auto elim!: remove_membersE dest: change_tx_mls_rows(3))

lemma parts_write_log:
  "update_archived_state now u archived cv = Inr cv' \<Longrightarrow> cv_handshakes cv' = cv_handshakes cv"
  "transfer_ownership u v seen cv = Inr cv' \<Longrightarrow> cv_handshakes cv' = cv_handshakes cv"
  "update_group_member_role u v r seen cv = Inr cv' \<Longrightarrow> cv_handshakes cv' = cv_handshakes cv"
  "soft_delete_conversation now u cv = Inr cv' \<Longrightarrow> cv_handshakes cv' = cv_handshakes cv"
  "stamp_missing_pending_since now cv = (cv', n) \<Longrightarrow> cv_handshakes cv' = cv_handshakes cv"
  by (auto simp: update_archived_state_def transfer_ownership_def transfer_group_ownership_def update_group_member_role_def
      in_transaction_as_role_def update_participant_role_def soft_delete_conversation_def
      stamp_missing_pending_since_def Let_def bind_result_Inr_iff split: option.splits if_splits)

lemma unlocked_write_log:
  "change_beside now requests oi seen cv = Inr (cv', n) \<Longrightarrow> cv_handshakes cv' = cv_handshakes cv"
  "block_conversation now u seen cv = Inr (cv', other) \<Longrightarrow> cv_handshakes cv' = cv_handshakes cv"
  "cv_handshakes (restore_deleted_participants users cv) = cv_handshakes cv"
  using participant_frame [OF apply_frame]
  by (auto simp: change_beside_unfold bind_result_Inr_iff block_conversation_def update_participant_state_def
      restore_deleted_participants_def split: option.splits if_splits)

lemma close_sole_owner_log: "close_sole_owner_group u e cv = Inr cv' \<Longrightarrow> cv_handshakes cv' = cv_handshakes cv"
  by (auto elim!: close_sole_ownerE dest!: remove_leaves_frame roster_frame(3))

lemma leave_group_log:
  assumes "leave_group now u seen cv = Inr cv'"
  shows "cv_handshakes cv' = cv_handshakes cv"
proof -
  have "cv_handshakes cv' = cv_handshakes cv" if "map_sum id fst (remove_members now [u] None cv) = Inr cv'"
    using that remove_members_log by (cases "remove_members now [u] None cv") auto
  with assms close_sole_owner_log show ?thesis
    by (auto simp: leave_group_def split: option.splits if_splits)
qed

lemma save_group_info_log [simp]: "cv_handshakes (save_group_info e p cv) = cv_handshakes cv"
  by (auto simp: save_group_info_def split: option.splits)

lemma commit_transaction_log:
  assumes "commit_transaction reg now c cv = Inr (cv', h)"
  shows "cv_handshakes cv' = cv_handshakes cv @ [h]"
proof -
  from assms obtain cv1 added removed where
    "apply_membership_change reg now c (advance cv) = Inr (cv1, added, removed)"
    and cv': "cv_handshakes cv' = cv_handshakes cv1 @ [h]"
    unfolding commit_transaction_def Let_def advance_def [symmetric]
    by (cases "ca_groupInfo c") (auto simp: bind_result_Inr_iff create_handshake_def)
  then obtain cv2 n cv3 cv4 ts where r: "remove_leaves (ca_removed c) (ca_epoch c + 1) (advance cv) = Inr (cv2, n)"
    and f: "(if has_roster cv then Inr cv2 else add_leaves (founder_leaf c (advance cv)) 0 cv2) = Inr cv3"
    and g: "add_leaves (added_leaves reg c) (ca_epoch c + 1) cv3 = Inr cv4"
    and ap: "apply_participant_transitions now ts cv4 = Inr cv1"
    unfolding apply_membership_change_unfold by (auto simp: bind_result_Inr_iff)
  have "cv_handshakes cv3 = cv_handshakes cv2"
    using f roster_frame(3) [OF add_leaves_frame] by (auto split: if_splits)
  then have "cv_handshakes cv1 = cv_handshakes cv"
    using participant_frame(3) [OF apply_frame [OF ap]] roster_frame(3) [OF add_leaves_frame [OF g]]
      roster_frame(3) [OF remove_leaves_frame [OF r]] by simp
  with cv' show ?thesis by simp
qed

lemma accept_commit_log: "accept_commit reg now c cv = Inr (cv', res) \<Longrightarrow> log_extends cv cv'"
  by (cases rule: accept_commit_cases) (auto simp: log_extends_def commit_transaction_log)

lemma conversation_step_log:
  assumes "conversation_step cv cv'"
  shows "log_extends cv cv'"
proof -
  have eq: "log_extends cv cv'" if "cv_handshakes cv' = cv_handshakes cv"
    using that by (simp add: log_extends_def)
  have same: "log_extends cv cv'" if "same_membership cv cv'"
    using that by (simp add: same_membership_def log_extends_def)
  show ?thesis
    using assms
  proof (cases rule: conversation_step.cases)
    case (commit lib sha reg now u cid dto seen resp)
    from commit(1) show ?thesis by (cases rule: submit_handshakeE) (rule accept_commit_log)
  next
    case (join lib sha reg now u cid dto' seen resp)
    from join(1) show ?thesis by (cases rule: submit_external_joinE) (rule accept_commit_log)
  next
    case lease
    then show ?thesis using same lease_same by blast
  next
    case fault
    then show ?thesis using same report_fault_same by blast
  next
    case consume
    then show ?thesis using same consume_same by blast
  next
    case release
    then show ?thesis using same release_same by blast
  next
    case restore
    then show ?thesis by (intro eq) (simp add: unlocked_write_log(3))
  qed (auto simp: accept_invite_def decline_invite_def request_direct_again_def reopen_direct_def
      expire_invites_def intro!: eq dest: change_log add_members_log remove_members_log parts_write_log
      leave_group_log unlocked_write_log(1,2))
qed

interpretation conv_log: growing_machine fresh_conversation conversation_step conv_ok log_extends
  by unfold_locales (auto simp: log_extends_def intro: prefix_order.trans conversation_step_log [unfolded log_extends_def])

end
