(* ===== verification/Chat_Samples.thy ===== *)
theory Chat_Samples
  imports Mls_System
begin

text \<open>
  Concrete conversations the witnesses evaluate: a group just created, and a group at epoch 3 with
  someone in every phase (an owner, a member waiting to join, one waiting to be removed, an invitee
  whose device is already in the group, one who declined).
\<close>

definition person :: "participant_role \<Rightarrow> participant_state \<Rightarrow> participant" where
  "person r s = \<lparr>pt_role = r, pt_state = s, pt_pendingSince = (if s = PENDING then Some 1 else None),
     pt_archivedAt = None, pt_deletedAt = None\<rparr>"

definition leaf :: "device_id \<Rightarrow> user_id \<Rightarrow> nat \<Rightarrow> leaf_row" where
  "leaf d u e = \<lparr>lf_device = d, lf_user = u, lf_added = e, lf_removed = None\<rparr>"

definition past_commit :: "nat \<Rightarrow> handshake" where
  "past_commit e = \<lparr>hs_epoch = e, hs_sender = Some ''a1'', hs_payload = [1], hs_sha256 = ''x'',
     hs_declared = True, hs_added = [], hs_removed = []\<rparr>"

definition sample_fresh :: conversation where
  "sample_fresh =
     \<lparr>cv_group = True, cv_epoch = 0,
      cv_parts = [(''ann'', person OWNER ACTIVE), (''bob'', person MEMBER PENDING)],
      cv_rounds = [], cv_roster = [], cv_handshakes = [], cv_groupInfo = None, cv_welcomes = [],
      cv_faults = [], cv_leaseDevice = None, cv_leaseUntil = None\<rparr>"

definition sample_group :: conversation where
  "sample_group =
     \<lparr>cv_group = True, cv_epoch = 3,
      cv_parts = [(''ann'', person OWNER ACTIVE), (''bob'', person MEMBER JOINING),
        (''cat'', person MEMBER LEAVING), (''dan'', person MEMBER PENDING),
        (''eve'', person MEMBER DECLINED), (''fay'', person ADMIN ACTIVE)],
      cv_rounds = [],
      cv_roster = [leaf ''a1'' ''ann'' 0, leaf ''c1'' ''cat'' 1, leaf ''d1'' ''dan'' 2, leaf ''f1'' ''fay'' 3],
      cv_handshakes = [past_commit 0, past_commit 1, past_commit 2],
      cv_groupInfo = Some (3, [7]), cv_welcomes = [],
      cv_faults = [], cv_leaseDevice = Some ''a1'', cv_leaseUntil = Some 90\<rparr>"

definition device :: "user_id \<Rightarrow> bytes \<Rightarrow> device_fact" where
  "device u key = \<lparr>dv_user = u, dv_revokedAt = None, dv_key = key\<rparr>"

definition sample_registry :: registry where
  "sample_registry = [(''a1'', device ''ann'' [1, 2, 3]), (''b1'', device ''bob'' [4]),
     (''c1'', device ''cat'' [5]), (''d1'', device ''dan'' [6]), (''f1'', device ''fay'' [9])]"

text \<open>The Commit that finishes what \<open>sample_group\<close> waits for: bob in, cat out.\<close>

definition sample_commit :: commit_to_accept where
  "sample_commit =
     \<lparr>ca_epoch = 3, ca_device = ''a1'', ca_user = ''ann'', ca_payload = [8], ca_sha256 = ''h3'',
      ca_added = [''b1''], ca_removed = [''c1''], ca_welcomes = [(''b1'', [2])],
      ca_groupInfo = Some [7, 7], ca_sender = Member, ca_resync = False\<rparr>"

definition result_of :: "'a result \<Rightarrow> 'a" where
  "result_of r = projr r"

lemma result_of_Inr [simp]: "result_of (Inr x) = x"
  by (simp add: result_of_def)

text \<open>
  A direct chat: ann founds its MLS group and adds the device of bob, who was only invited; then bob
  blocks the request.
\<close>

definition founding_library :: mls_library where
  "founding_library = \<lparr>ml_decode = (\<lambda>bs. if bs = []
       then Decoded (Private_message \<lparr>pm_content = Commit, pm_groupId = text_encode ''c'', pm_epoch = 0\<rparr>)
       else Decoded Welcome_message),
     ml_identity = (\<lambda>_. None), ml_leafToNodeIndex = (\<lambda>i. 2 * i), ml_leafKey = (\<lambda>_ _. None),
     ml_verifyContent = (\<lambda>_ _ _. False), ml_verifyGroupInfo = (\<lambda>_ _. False)\<rparr>"

definition founding_commit :: submit_handshake_dto where
  "founding_commit = \<lparr>sd_device = ''a1'', sd_epoch = 0, sd_payload = [], sd_groupInfo = None,
     sd_welcome = Some (''AAAA'', [''b1'']), sd_added = [''b1''], sd_removed = []\<rparr>"

definition sample_started :: "bool \<Rightarrow> conversation" where
  "sample_started is_group = sample_fresh\<lparr>cv_group := is_group\<rparr>"

definition sample_founded :: "bool \<Rightarrow> conversation" where
  "sample_founded is_group = fst (result_of (submit_handshake_body founding_library (\<lambda>_. ''h'')
     sample_registry 5 ''ann'' ''c'' founding_commit (sample_started is_group) (sample_started is_group)))"

definition sample_blocked :: conversation where
  "sample_blocked =
     fst (result_of (block_conversation 6 ''bob'' (sample_founded False) (sample_founded False)))"

lemma sample_started_fresh: "fresh_conversation (sample_started is_group)"
proof -
  have "fresh_conversation (sample_started True)" "fresh_conversation (sample_started False)" by code_simp+
  then show ?thesis by (cases is_group) simp_all
qed

lemma sample_founded_run: "conversation_step (sample_started is_group) (sample_founded is_group)"
proof -
  let ?run = "\<lambda>g. submit_handshake_body founding_library (\<lambda>_. ''h'') sample_registry 5 ''ann'' ''c''
    founding_commit (sample_started g) (sample_started g)"
  let ?r = "?run is_group"
  have "isl (?run True) = False" "isl (?run False) = False" by code_simp+
  then have "isl ?r = False" by (cases is_group) simp_all
  then obtain cv' resp where "?r = Inr (cv', resp)" by (cases ?r) auto
  then show ?thesis using conversation_step.commit by (fastforce simp: sample_founded_def)
qed

lemma sample_blocked_run:
  "block_conversation 6 ''bob'' (sample_founded False) (sample_founded False) = Inr (sample_blocked, ''ann'')"
proof -
  let ?r = "block_conversation 6 ''bob'' (sample_founded False) (sample_founded False)"
  have "isl ?r = False" "snd (result_of ?r) = ''ann''" by code_simp+
  then show ?thesis by (cases ?r) (auto simp: sample_blocked_def)
qed

lemma sample_fresh_ok: "fresh_conversation sample_fresh"
  by code_simp

lemma sample_group_ok: "conv_ok sample_group"
  by code_simp

lemma sample_commit_declared: "declared sample_commit"
  by code_simp

lemma sample_check: "check_membership_change sample_registry sample_commit sample_group = Inr ()"
  by code_simp

lemma sample_accept_bob:
  "accept_invite 5 ''bob'' sample_fresh = Inr (result_of (accept_invite 5 ''bob'' sample_fresh))"
  by code_simp

end
