(* ===== verification/Mls_Properties.thy ===== *)
theory Mls_Properties
  imports Chat_Samples
begin

text \<open>
  The properties of the server's MLS commit log: which Commits it accepts, what an accepted Commit
  does to the group's leaves, log and participants, that an epoch has one winner, and what the
  clients read back.
\<close>

section \<open>Which Commits are accepted\<close>

text \<open>The rule in one place, over the rows of the conversation and the device registry.\<close>

definition commit_allowed :: "registry \<Rightarrow> commit_to_accept \<Rightarrow> conversation \<Rightarrow> bool" where
  "commit_allowed reg c cv \<longleftrightarrow>
     (has_roster cv \<or> ca_sender c = Member \<and> ca_epoch c = 0)
     \<and> (ca_sender c = Member \<longrightarrow> state_of cv (ca_user c) = Some ACTIVE
         \<and> (has_roster cv \<longrightarrow> ca_device c \<in> set (map fst (find_active_leaves cv))))
     \<and> (ca_sender c = External \<longrightarrow> is_entitled_to_leaf (state_of cv (ca_user c)))
     \<and> (ca_resync c \<longrightarrow> ca_device c \<in> set (map fst (find_active_leaves cv)))
     \<and> (\<forall>d \<in> set (ca_added c). case map_of reg d of None \<Rightarrow> False
          | Some dv \<Rightarrow> dv_revokedAt dv = None \<and> d \<notin> set (map fst (find_active_leaves cv))
              \<and> is_entitled_to_leaf (state_of cv (dv_user dv)))
     \<and> (\<forall>d \<in> set (ca_removed c). case map_of (find_active_leaves cv) d of None \<Rightarrow> False
          | Some u \<Rightarrow> (case map_of reg d of None \<Rightarrow> True | Some dv \<Rightarrow> dv_revokedAt dv \<noteq> None)
              \<or> \<not> is_entitled_to_leaf (state_of cv u))"

lemma check_allowed: "check_membership_change reg c cv = Inr () \<longleftrightarrow> commit_allowed reg c cv"
proof -
  have add: "(\<exists>dv. map_of reg d = Some dv \<and> dv_revokedAt dv = None \<and> d \<notin> fst ` set (find_active_leaves cv)
      \<and> is_entitled_to_leaf (state_of cv (dv_user dv))) \<longleftrightarrow>
    (case map_of reg d of None \<Rightarrow> False
      | Some dv \<Rightarrow> dv_revokedAt dv = None \<and> d \<notin> set (map fst (find_active_leaves cv))
          \<and> is_entitled_to_leaf (state_of cv (dv_user dv)))" for d
    by (cases "map_of reg d") auto
  have rem: "(\<exists>v. map_of (find_active_leaves cv) d = Some v \<and> \<not> unauthorised_removal reg cv d v) \<longleftrightarrow>
    (case map_of (find_active_leaves cv) d of None \<Rightarrow> False
      | Some u \<Rightarrow> (case map_of reg d of None \<Rightarrow> True | Some dv \<Rightarrow> dv_revokedAt dv \<noteq> None)
          \<or> \<not> is_entitled_to_leaf (state_of cv u))" for d
    by (cases "map_of (find_active_leaves cv) d"; cases "map_of reg d") (auto simp: unauthorised_removal_def)
  show ?thesis unfolding check_ok commit_allowed_def add rem set_map ..
qed

lemma accept_at_epoch:
  "cv_epoch cv = ca_epoch c \<Longrightarrow> accept_commit reg now c cv =
    bind_result (commit_transaction reg now c cv) (\<lambda>(cv', h). Inr (cv', Accepted h))"
  by (simp add: accept_commit_def)

text \<open>
  C2. A Commit for the current epoch is accepted exactly when the membership rules allow it; every other
  one is refused by a rule, never by the database: once the rules pass, no unique index, CHECK,
  count or state transition further down can fail.
\<close>
theorem commit_accepted_iff_allowed:
  assumes ok: "conv_ok cv" and decl: "declared c" and epoch: "cv_epoch cv = ca_epoch c"
  shows "case accept_commit reg now c cv of
      Inr (cv', res) \<Rightarrow> commit_allowed reg c cv \<and> res = Accepted (commit_record reg c cv)
        \<and> cv_epoch cv' = ca_epoch c + 1
    | Inl x \<Rightarrow> \<not> commit_allowed reg c cv \<and> check_membership_change reg c cv = Inl x"
proof (cases "check_membership_change reg c cv")
  case (Inl x)
  then have "\<not> commit_allowed reg c cv" using check_allowed [of reg c cv] by auto
  then show ?thesis using Inl by (simp add: accept_at_epoch [OF epoch] commit_transaction_refused [OF Inl])
next
  case (Inr u)
  then have check: "check_membership_change reg c cv = Inr ()" by simp
  show ?thesis
    by (rule commit_transaction_ok [OF ok decl check epoch, of now])
       (use check check_allowed [of reg c cv] in \<open>simp add: accept_at_epoch [OF epoch]\<close>)
qed

theorem commit_accepted_iff_allowed_witness:
  "commit_allowed sample_registry sample_commit sample_group
   \<and> \<not> commit_allowed sample_registry (sample_commit\<lparr>ca_removed := [''f1'']\<rparr>) sample_group"
proof -
  let ?bad = "sample_commit\<lparr>ca_removed := [''f1'']\<rparr>"
  have e: "cv_epoch sample_group = ca_epoch sample_commit" "cv_epoch sample_group = ca_epoch ?bad"
    "declared ?bad" by code_simp+
  have "isl (accept_commit sample_registry 5 sample_commit sample_group) = False"
    "isl (accept_commit sample_registry 5 ?bad sample_group)" by code_simp+
  with commit_accepted_iff_allowed [OF sample_group_ok sample_commit_declared e(1), of sample_registry 5]
    commit_accepted_iff_allowed [OF sample_group_ok e(3,2), of sample_registry 5]
  show ?thesis by (auto split: sum.splits)
qed

section \<open>What an accepted Commit does\<close>

lemma commit_written:
  assumes ok: "conv_ok cv" and decl: "declared c"
    and run: "accept_commit reg now c cv = Inr (cv', Accepted h)"
  shows "cv_epoch cv' = cv_epoch cv + 1 \<and> cv_epoch cv = ca_epoch c
    \<and> find_active_leaves cv' = filter (\<lambda>l. fst l \<notin> set (ca_removed c)) (find_active_leaves cv)
        @ (if has_roster cv then [] else [(ca_device c, ca_user c)])
        @ map (\<lambda>d. (d, dv_user (the (map_of reg d)))) (ca_added c)
    \<and> cv_handshakes cv' = cv_handshakes cv @ [h] \<and> hs_epoch h = ca_epoch c
    \<and> map wl_recipient (cv_welcomes cv') = map wl_recipient (cv_welcomes cv) @ map fst (ca_welcomes c)
    \<and> cv_leaseUntil cv' = None
    \<and> cv_groupInfo cv' = (case ca_groupInfo c of None \<Rightarrow> cv_groupInfo cv | Some i \<Rightarrow> Some (ca_epoch c + 1, i))"
  using run
proof (cases rule: accept_commit_cases)
  case (1 h')
  have check: "check_membership_change reg c cv = Inr ()"
    using 1(2) commit_transaction_refused by (cases "check_membership_change reg c cv") auto
  have added: "added_leaves reg c = map (\<lambda>d. (d, dv_user (the (map_of reg d)))) (ca_added c)"
    by (simp add: added_leaves_def map_of_commit_devices)
  show ?thesis
  proof (cases rule: commit_transaction_ok [OF ok decl check 1(1), of now])
    case (1 cv2)
    have "cv2 = cv'" "h = commit_record reg c cv"
      using 1(1) \<open>commit_transaction reg now c cv = Inr (cv', h')\<close> \<open>Accepted h = Accepted h'\<close> by simp_all
    with 1 \<open>cv_epoch cv = ca_epoch c\<close> show ?thesis
      by (simp add: leaves_after_def founder_leaf_def added commit_record_def case_prod_beta Let_def comp_def)
  qed
next
  case 2
  then show ?thesis using run by (auto simp: accept_commit_def split: option.splits if_splits)
qed

text \<open>
  C6. An accepted Commit moves the group one epoch on and leaves exactly these live leaves: the ones it
  does not remove, the founder's in the group's first Commit, and the devices it adds, each under the
  user the device registry gives it. It frees the work lease, appends one handshake to the log and
  one Welcome per added device, and replaces the snapshot when it brings one.
\<close>
theorem commit_effect:
  assumes ok: "conv_ok cv" and decl: "declared c"
    and run: "accept_commit reg now c cv = Inr (cv', Accepted h)"
  shows "cv_epoch cv' = cv_epoch cv + 1 \<and> cv_epoch cv = ca_epoch c
    \<and> find_active_leaves cv' = filter (\<lambda>l. fst l \<notin> set (ca_removed c)) (find_active_leaves cv)
        @ (if has_roster cv then [] else [(ca_device c, ca_user c)])
        @ map (\<lambda>d. (d, dv_user (the (map_of reg d)))) (ca_added c)
    \<and> cv_handshakes cv' = cv_handshakes cv @ [h] \<and> hs_epoch h = ca_epoch c
    \<and> map wl_recipient (cv_welcomes cv') = map wl_recipient (cv_welcomes cv) @ map fst (ca_welcomes c)
    \<and> cv_leaseUntil cv' = None
    \<and> cv_groupInfo cv' = (case ca_groupInfo c of None \<Rightarrow> cv_groupInfo cv | Some i \<Rightarrow> Some (ca_epoch c + 1, i))"
  by (rule commit_written [OF ok decl run])

lemma sample_accepted:
  "\<exists>cv' h. accept_commit sample_registry 5 sample_commit sample_group = Inr (cv', Accepted h)"
proof -
  have "(case accept_commit sample_registry 5 sample_commit sample_group of
      Inr (_, Accepted _) \<Rightarrow> True | _ \<Rightarrow> False) = True" by code_simp
  then show ?thesis by (simp split: sum.splits prod.splits accept_result.splits)
qed

theorem commit_effect_witness:
  "\<exists>cv' h. accept_commit sample_registry 5 sample_commit sample_group = Inr (cv', Accepted h)
    \<and> cv_epoch cv' = 4 \<and> (''b1'', ''bob'') \<in> set (find_active_leaves cv')
    \<and> ''c1'' \<notin> set (map fst (find_active_leaves cv'))"
proof -
  obtain cv' h where run: "accept_commit sample_registry 5 sample_commit sample_group = Inr (cv', Accepted h)"
    using sample_accepted by blast
  have e: "cv_epoch sample_group = 3" "has_roster sample_group" "ca_removed sample_commit = [''c1'']"
    "map (\<lambda>d. (d, dv_user (the (map_of sample_registry d)))) (ca_added sample_commit) = [(''b1'', ''bob'')]"
    by code_simp+
  from commit_effect [OF sample_group_ok sample_commit_declared run] e run show ?thesis by auto
qed

text \<open>
  The membership change recorded with a Commit is the server's, not the sender's: it lists exactly
  the declared devices, each added one with the user and the credential key of the device registry
  (the key decodes back to the registered bytes), each removed one with the user its leaf belonged to.
\<close>
theorem attested_change_is_registered:
  assumes ok: "conv_ok cv" and decl: "declared c"
    and run: "accept_commit reg now c cv = Inr (cv', Accepted h)"
  shows "map ad_device (hs_added h) = ca_added c \<and> map rm_device (hs_removed h) = ca_removed c
    \<and> list_all (\<lambda>a. case map_of reg (ad_device a) of None \<Rightarrow> False
        | Some dv \<Rightarrow> dv_revokedAt dv = None \<and> ad_user a = dv_user dv \<and> base64_decode (ad_key a) = dv_key dv)
        (hs_added h)
    \<and> list_all (\<lambda>r. (rm_device r, rm_user r) \<in> set (find_active_leaves cv)) (hs_removed h)"
  using run
proof (cases rule: accept_commit_cases)
  case (1 h')
  have check: "check_membership_change reg c cv = Inr ()"
    using 1(2) commit_transaction_refused by (cases "check_membership_change reg c cv") auto
  have h: "h = commit_record reg c cv"
    by (rule commit_transaction_ok [OF ok decl check 1(1), of now]) (use 1 in simp)
  have reg: "\<exists>dv. map_of (commit_devices reg c) d = Some dv \<and> map_of reg d = Some dv \<and> dv_revokedAt dv = None"
    if "d \<in> set (ca_added c)" for d
    using check that unfolding check_ok by (auto simp: map_of_commit_devices)
  have leaf: "(d, the (map_of (find_active_leaves cv) d)) \<in> set (find_active_leaves cv)"
    if "d \<in> set (ca_removed c)" for d
  proof -
    from check that obtain v where "map_of (find_active_leaves cv) d = Some v" unfolding check_ok by blast
    then show ?thesis by (auto dest: map_of_SomeD)
  qed
  show ?thesis
    using reg leaf
    by (fastforce simp: h commit_record_def attest_membership_change_def Let_def comp_def list_all_iff base64_roundtrip)
next
  case 2
  then show ?thesis using run by (auto simp: accept_commit_def split: option.splits if_splits)
qed

theorem attested_change_is_registered_witness:
  "\<exists>cv' h. accept_commit sample_registry 5 sample_commit sample_group = Inr (cv', Accepted h)
    \<and> map ad_device (hs_added h) = [''b1''] \<and> map rm_device (hs_removed h) = [''c1'']"
proof -
  obtain cv' h where run: "accept_commit sample_registry 5 sample_commit sample_group = Inr (cv', Accepted h)"
    using sample_accepted by blast
  from attested_change_is_registered [OF sample_group_ok sample_commit_declared run] run
  show ?thesis by (simp add: sample_commit_def)
qed

text \<open>Somebody still joining holds no leaf, so a leaf they hold after a Commit is one it added.\<close>

lemma joining_gains:
  assumes ok: "conv_ok cv" and check: "check_membership_change reg c cv = Inr ()"
    and "u \<in> set (map snd (leaves_after reg c cv))" and "state_of cv u = Some JOINING"
  shows "u \<in> set (map snd (added_leaves reg c))"
proof -
  have "u \<notin> set (leaf_users cv)" "has_roster cv" using conv_okD(5) [OF ok assms(4)] by simp_all
  with assms(3) show ?thesis
    by (auto simp: leaves_after_def founder_leaf_def leaf_users_def)
qed

text \<open>
  C5. What an accepted Commit makes of every participant follows from the live leaves it leaves, and
  there are three cases: a \<open>JOINING\<close> user who has a leaf afterwards becomes \<open>ACTIVE\<close>; a \<open>LEAVING\<close> user who
  has none becomes \<open>DECLINED\<close> (one whose other device is still a leaf stays \<open>LEAVING\<close>); and when the
  Commit is the one that founds the MLS group, an \<open>ACTIVE\<close> user who has no leaf afterwards becomes
  \<open>JOINING\<close>. Everybody else keeps their state, whichever of their devices it added or removed (an
  invitee whose device is added is still an invitee).
\<close>
theorem commit_completes_phases:
  assumes ok: "conv_ok cv" and decl: "declared c"
    and run: "accept_commit reg now c cv = Inr (cv', Accepted h)"
  shows "state_of cv' u =
    (if state_of cv u = Some JOINING \<and> u \<in> set (leaf_users cv') then Some ACTIVE
     else if state_of cv u = Some LEAVING \<and> u \<notin> set (leaf_users cv') then Some DECLINED
     else if \<not> has_roster cv \<and> state_of cv u = Some ACTIVE \<and> u \<notin> set (leaf_users cv') then Some JOINING
     else state_of cv u)"
  using run
proof (cases rule: accept_commit_cases)
  case (1 h')
  have check: "check_membership_change reg c cv = Inr ()"
    using 1(2) commit_transaction_refused by (cases "check_membership_change reg c cv") auto
  obtain cv2 where tx: "commit_transaction reg now c cv = Inr (cv2, commit_record reg c cv)"
    and leaves: "find_active_leaves cv2 = leaves_after reg c cv"
    and st: "\<And>u. state_of cv2 u = commit_outcome (commit_event reg c cv u) (state_of cv u)"
    by (rule commit_transaction_ok [OF ok decl check 1(1), of now]) blast
  have same: "cv2 = cv'" using tx 1(2) by simp
  have lu: "leaf_users cv' = map snd (leaves_after reg c cv)" using leaves by (simp add: leaf_users_def same)
  let ?a = "set (map snd (added_leaves reg c))" and ?w = "set (map snd (leaves_after reg c cv))"
  have ent: "u \<in> ?a \<Longrightarrow> is_entitled_to_leaf (state_of cv u)"
    using added_users_entitled [OF check] unfolding participant_states_state by blast
  have a_w: "u \<in> ?a \<Longrightarrow> u \<in> ?w" by (auto simp: leaves_after_def)
  have gone: "u \<in> set (users_gone reg c cv) \<Longrightarrow> u \<notin> ?w" by (auto simp: users_gone_def)
  have join: "u \<in> ?w \<Longrightarrow> state_of cv u = Some JOINING \<Longrightarrow> u \<in> ?a"
    using joining_gains [OF ok check] by blast
  note eval = commit_outcome_def commit_event_def commit_event_for_def participant_states_state Let_def
    resolve_membership_transition_def mls_only_events_def
  have "commit_outcome (commit_event reg c cv u) (state_of cv u) =
    (if state_of cv u = Some JOINING \<and> u \<in> ?w then Some ACTIVE
     else if state_of cv u = Some LEAVING \<and> u \<notin> ?w then Some DECLINED
     else if \<not> has_roster cv \<and> state_of cv u = Some ACTIVE \<and> u \<notin> ?w then Some JOINING
     else state_of cv u)"
  proof (cases "state_of cv u")
    case None
    then show ?thesis by (simp add: commit_outcome_def split: option.splits)
  next
    case (Some s)
    then show ?thesis
      using ent a_w gone join by (cases s; cases "u \<in> ?a") (auto simp: eval)
  qed
  then show ?thesis using st [of u] by (simp only: same lu)
next
  case 2
  then show ?thesis using run by (auto simp: accept_commit_def split: option.splits if_splits)
qed

theorem commit_completes_phases_witness:
  "\<exists>cv' h. accept_commit sample_registry 5 sample_commit sample_group = Inr (cv', Accepted h)
    \<and> state_of cv' ''bob'' = Some ACTIVE \<and> state_of cv' ''cat'' = Some DECLINED
    \<and> state_of cv' ''dan'' = Some PENDING"
proof -
  obtain cv' h where run: "accept_commit sample_registry 5 sample_commit sample_group = Inr (cv', Accepted h)"
    using sample_accepted by blast
  then have cv': "cv' = fst (result_of (accept_commit sample_registry 5 sample_commit sample_group))" by simp
  have "set (leaf_users cv') = {''ann'', ''dan'', ''fay'', ''bob''}" unfolding cv' by code_simp
  moreover have "state_of sample_group ''bob'' = Some JOINING" "state_of sample_group ''cat'' = Some LEAVING"
    "state_of sample_group ''dan'' = Some PENDING" by code_simp+
  ultimately show ?thesis
    using commit_completes_phases [OF sample_group_ok sample_commit_declared run] run by auto
qed

section \<open>One winner per epoch\<close>

lemma winner_lookup:
  assumes "log_ok cv" and "e < cv_epoch cv"
  shows "find_winner cv e = Some (cv_handshakes cv ! e)"
proof -
  have m: "map hs_epoch (cv_handshakes cv) = [0..<cv_epoch cv]" using assms(1) by (simp add: log_ok_def)
  then have len: "length (cv_handshakes cv) = cv_epoch cv" by (metis length_map length_upt minus_nat.diff_0)
  have nth: "hs_epoch (cv_handshakes cv ! i) = i" if "i < cv_epoch cv" for i
    using that m len by (metis add_0 length_map nth_map nth_upt)
  show ?thesis
    unfolding find_winner_def find_Some_iff using assms(2) len nth
    by (intro exI [of _ e]) auto
qed

text \<open>
  C3. Every epoch has exactly one Commit, and every sender learns the same one: once a Commit has been
  accepted, submitting anything for that epoch, however much later, changes nothing and is answered
  with the accepted handshake, as a duplicate when the payload's hash is the same (a client may
  repeat its request) and as lost otherwise.
\<close>
theorem epoch_has_one_winner:
  assumes ok: "conv_ok cv" and decl: "declared c"
    and first: "accept_commit reg now c cv = Inr (cv1, Accepted h)"
    and later: "conversation_step\<^sup>*\<^sup>* cv1 cv2" and same: "ca_epoch c2 = ca_epoch c"
  shows "accept_commit reg2 now2 c2 cv2 =
    Inr (cv2, if hs_sha256 h = ca_sha256 c2 then Duplicate h else Lost h)"
proof -
  have ok1: "conv_ok cv1" by (rule accept_commit_keeps [OF ok decl first])
  have ok2: "conv_ok cv2" using later ok1 by (rule conv_machine.inv_steps)
  from first have e: "cv_epoch cv = ca_epoch c" and tx: "commit_transaction reg now c cv = Inr (cv1, h)"
    by (auto simp: accept_commit_def bind_result_Inr_iff split: option.splits if_splits)
  have log1: "cv_handshakes cv1 = cv_handshakes cv @ [h]" by (rule commit_transaction_log [OF tx])
  have len: "length (cv_handshakes x) = cv_epoch x" if "conv_ok x" for x
    using conv_okD(3) [OF that] by (metis log_ok_def length_map length_upt minus_nat.diff_0)
  have pre: "prefix (cv_handshakes cv1) (cv_handshakes cv2)"
    using conv_log.grows [OF later ok1] by (simp add: log_extends_def)
  have lt: "ca_epoch c < cv_epoch cv2"
    using prefix_length_le [OF pre] len [OF ok] len [OF ok2] log1 e by simp
  have "cv_handshakes cv2 ! ca_epoch c = h"
    using pre len [OF ok] e log1 by (auto simp: prefix_def nth_append)
  then have "find_winner cv2 (ca_epoch c2) = Some h"
    using winner_lookup [OF conv_okD(3) [OF ok2] lt] same by simp
  with lt same show ?thesis by (simp add: accept_commit_def)
qed

theorem epoch_has_one_winner_witness:
  "\<exists>cv' h. accept_commit sample_registry 5 sample_commit sample_group = Inr (cv', Accepted h)
    \<and> accept_commit sample_registry 6 sample_commit cv' = Inr (cv', Duplicate h)
    \<and> accept_commit sample_registry 7 (sample_commit\<lparr>ca_sha256 := ''other''\<rparr>) cv' = Inr (cv', Lost h)"
proof -
  obtain cv' h where run: "accept_commit sample_registry 5 sample_commit sample_group = Inr (cv', Accepted h)"
    using sample_accepted by blast
  note win = epoch_has_one_winner [OF sample_group_ok sample_commit_declared run rtranclp.rtrancl_refl]
  have h: "h = (case snd (result_of (accept_commit sample_registry 5 sample_commit sample_group)) of
      Accepted x \<Rightarrow> x | Duplicate x \<Rightarrow> x | Lost x \<Rightarrow> x)" using run by simp
  have "hs_sha256 h = ''h3''" unfolding h by code_simp
  moreover have "ca_sha256 sample_commit = ''h3''" by code_simp
  ultimately have
    "accept_commit sample_registry 6 sample_commit cv' = Inr (cv', Duplicate h)"
    "accept_commit sample_registry 7 (sample_commit\<lparr>ca_sha256 := ''other''\<rparr>) cv' = Inr (cv', Lost h)"
    using win [of sample_commit sample_registry 6] win [of "sample_commit\<lparr>ca_sha256 := ''other''\<rparr>" sample_registry 7]
    by simp_all
  with run show ?thesis by blast
qed

section \<open>What a client reads back\<close>

lemma sort_by_sorted: "sorted_wrt le xs \<Longrightarrow> sort_by le xs = xs"
proof (induction xs)
  case (Cons x xs)
  then show ?case by (cases xs) (simp_all add: sort_by_def)
qed (simp add: sort_by_def)

text \<open>
  A client that has read the log up to an epoch and asks for the rest gets the next Commits without
  a gap: the handshakes returned are exactly the log's entries from that epoch on, in epoch order, at
  most a page of them, so repeating the request from the last epoch received reads the whole log.
\<close>
theorem handshakes_since_contiguous:
  assumes "conv_ok cv"
  shows "find_handshakes_since cv since limit = take limit (drop since (cv_handshakes cv))
    \<and> map hs_epoch (find_handshakes_since cv since limit) = take limit [since..<cv_epoch cv]"
proof -
  have m: "map hs_epoch (cv_handshakes cv) = [0..<cv_epoch cv]"
    using conv_okD(3) [OF assms] by (simp add: log_ok_def)
  have flt: "filter (\<lambda>h. since \<le> hs_epoch h) hs = drop (since - a) hs" if "map hs_epoch hs = [a..<b]" for hs a b
    using that
  proof (induction hs arbitrary: a)
    case (Cons h hs)
    have "[a..<b] = hs_epoch h # map hs_epoch hs" using Cons.prems by simp
    then have h: "hs_epoch h = a" "map hs_epoch hs = [Suc a..<b]" by (auto simp: upt_eq_Cons_conv)
    note IH = Cons.IH [OF h(2)]
    show ?case
    proof (cases "since \<le> a")
      case True
      then have "filter (\<lambda>h. since \<le> hs_epoch h) hs = hs" using IH by simp
      with True h(1) show ?thesis by simp
    next
      case False
      then have "since - a = Suc (since - Suc a)" by simp
      with False h(1) IH show ?thesis by simp
    qed
  qed simp
  have srt: "sort_by (\<lambda>a b. hs_epoch a \<le> hs_epoch b) hs = hs" if "sorted (map hs_epoch hs)" for hs
    by (rule sort_by_sorted) (use that in \<open>simp add: sorted_map\<close>)
  have "sorted (map hs_epoch (drop since (cv_handshakes cv)))"
    using m by (metis drop_map sorted_wrt_drop sorted_upt)
  then have "find_handshakes_since cv since limit = take limit (drop since (cv_handshakes cv))"
    using flt [OF m] by (simp add: find_handshakes_since_def srt)
  moreover have "map hs_epoch (take limit (drop since (cv_handshakes cv))) = take limit [since..<cv_epoch cv]"
    using m by (metis add_0 drop_map drop_upt take_map)
  ultimately show ?thesis by simp
qed

theorem handshakes_since_contiguous_witness:
  "map hs_epoch (find_handshakes_since sample_group 1 100) = [1, 2]"
proof -
  have "take 100 [1..<cv_epoch sample_group] = [1, 2]" by code_simp
  with handshakes_since_contiguous [OF sample_group_ok, of 1 100] show ?thesis by metis
qed

section \<open>The roster of a past epoch\<close>

lemma roster_cong:
  "cv_roster cv' = cv_roster cv \<Longrightarrow> find_leaves_at_epoch cv' k = find_leaves_at_epoch cv k"
  by (simp add: find_leaves_at_epoch_def)

lemma commit_history:
  assumes ok: "conv_ok cv" and decl: "declared c" and run: "accept_commit reg now c cv = Inr (cv', res)"
    and k: "k < cv_epoch cv"
  shows "find_leaves_at_epoch cv' k = find_leaves_at_epoch cv k"
  using run
proof (cases rule: accept_commit_cases)
  case (1 h)
  have check: "check_membership_change reg c cv = Inr ()"
    using 1(2) commit_transaction_refused by (cases "check_membership_change reg c cv") auto
  have "has_roster cv" using check 1(1) k unfolding check_ok by auto
  then show ?thesis
    using commit_transaction_ok [OF ok decl check 1(1), of now "find_leaves_at_epoch cv' k = find_leaves_at_epoch cv k"]
      1(1,2) k by simp
qed simp

lemma member_write_roster:
  "change now requests oi cv = Inr (cv', n) \<Longrightarrow> cv_roster cv' = cv_roster cv"
  "add_members now members actor cv = Inr (cv', evs, n) \<Longrightarrow> cv_roster cv' = cv_roster cv"
  "remove_members now users remover cv = Inr (cv', n) \<Longrightarrow> cv_roster cv' = cv_roster cv"
  by (auto simp: change_def change_membership_def bind_result_Inr_iff elim!: add_membersE remove_membersE
      dest: change_tx_mls_rows(1))

lemma plain_write_roster:
  "update_archived_state now u archived cv = Inr cv' \<Longrightarrow> cv_roster cv' = cv_roster cv"
  "transfer_ownership u v seen cv = Inr cv' \<Longrightarrow> cv_roster cv' = cv_roster cv"
  "update_group_member_role u v r seen cv = Inr cv' \<Longrightarrow> cv_roster cv' = cv_roster cv"
  "soft_delete_conversation now u cv = Inr cv' \<Longrightarrow> cv_roster cv' = cv_roster cv"
  "stamp_missing_pending_since now cv = (cv', n) \<Longrightarrow> cv_roster cv' = cv_roster cv"
  by (auto simp: update_archived_state_def transfer_ownership_def transfer_group_ownership_def
      update_group_member_role_def in_transaction_as_role_def update_participant_role_def
      soft_delete_conversation_def stamp_missing_pending_since_def Let_def bind_result_Inr_iff
      split: option.splits if_splits)

lemma unlocked_write_roster:
  "change_beside now requests oi seen cv = Inr (cv', n) \<Longrightarrow> cv_roster cv' = cv_roster cv"
  "block_conversation now u seen cv = Inr (cv', other) \<Longrightarrow> cv_roster cv' = cv_roster cv"
  "cv_roster (restore_deleted_participants users cv) = cv_roster cv"
  using participant_frame(1) [OF apply_frame]
  by (auto simp: change_beside_unfold bind_result_Inr_iff block_conversation_def update_participant_state_def
      restore_deleted_participants_def split: option.splits if_splits)

lemma leave_history:
  assumes "leave_group now u seen cv = Inr cv'"
    and closed: "\<And>e. close_sole_owner_group u e cv = Inr cv' \<Longrightarrow> k < e"
  shows "find_leaves_at_epoch cv' k = find_leaves_at_epoch cv k"
proof -
  have "find_leaves_at_epoch cv' k = find_leaves_at_epoch cv k"
    if "map_sum id fst (remove_members now [u] None cv) = Inr cv'"
  proof -
    from that obtain n where "remove_members now [u] None cv = Inr (cv', n)"
      by (cases "remove_members now [u] None cv") auto
    then show ?thesis by (rule roster_cong [OF member_write_roster(3)])
  qed
  moreover have "find_leaves_at_epoch cv' k = find_leaves_at_epoch cv k"
    if "close_sole_owner_group u (cv_epoch seen) cv = Inr cv'"
    using that
  proof (cases rule: close_sole_ownerE)
    case (1 p cv1 n)
    then show ?thesis
      using remove_leaves_past [OF 1(5) closed [OF that]] roster_cong [of cv1 cv] by simp
  qed
  ultimately show ?thesis using assms(1) by (auto simp: leave_group_def split: option.splits if_splits)
qed

text \<open>
  The roster a client reads for a past epoch never changes again (it checks old messages' senders
  against it): no step rewrites the leaves of an epoch before the current one, except an owner closing
  their group with an epoch read before the last Commit.
\<close>
theorem roster_history_is_final:
  assumes ok: "conv_ok cv" and step: "conversation_step cv cv'" and k: "k < cv_epoch cv"
    and fresh: "\<And>u e. close_sole_owner_group u e cv = Inr cv' \<Longrightarrow> e = cv_epoch cv"
  shows "find_leaves_at_epoch cv' k = find_leaves_at_epoch cv k"
proof -
  have same: "same_membership cv cv' \<Longrightarrow> find_leaves_at_epoch cv' k = find_leaves_at_epoch cv k"
    by (rule roster_cong) (simp add: same_membership_def)
  show ?thesis
    using step
  proof (cases rule: conversation_step.cases)
    case (commit lib sha reg now u cid dto seen resp)
    from commit(1) show ?thesis by (cases rule: submit_handshakeE) (rule commit_history [OF ok _ _ k])
  next
    case (join lib sha reg now u cid dto' seen resp)
    from join(1) show ?thesis by (cases rule: submit_external_joinE) (rule commit_history [OF ok _ _ k])
  next
    case (leave now u seen)
    show ?thesis by (rule leave_history [OF leave(1)]) (use fresh k in blast)
  next
    case lease
    then show ?thesis using same lease_same by blast
  next
    case (beside now requests oi seen n)
    show ?thesis by (rule roster_cong [OF unlocked_write_roster(1) [OF beside(1)]])
  next
    case (block now u seen other)
    show ?thesis by (rule roster_cong [OF unlocked_write_roster(2) [OF block(1)]])
  next
    case restore
    then show ?thesis by (simp add: roster_cong [OF unlocked_write_roster(3)])
  qed (auto simp: accept_invite_def decline_invite_def request_direct_again_def reopen_direct_def
      expire_invites_def intro: same report_fault_same consume_same release_same roster_cong
      dest: member_write_roster plain_write_roster)
qed

theorem roster_history_is_final_witness:
  "\<exists>cv' n. remove_members 5 [''fay''] (Some ''ann'') sample_group = Inr (cv', n)
    \<and> find_leaves_at_epoch cv' 2 = [(''a1'', ''ann''), (''c1'', ''cat''), (''d1'', ''dan'')]"
proof -
  have "isl (remove_members 5 [''fay''] (Some ''ann'') sample_group) = False" by code_simp
  then obtain cv' n where run: "remove_members 5 [''fay''] (Some ''ann'') sample_group = Inr (cv', n)"
    by (cases "remove_members 5 [''fay''] (Some ''ann'') sample_group") auto
  have open_group: "close_sole_owner_group u e sample_group \<noteq> Inr cv''" for u e cv''
  proof
    assume "close_sole_owner_group u e sample_group = Inr cv''"
    then show False
    proof (cases rule: close_sole_ownerE)
      case (1 p cv1 m)
      have "(''fay'', person ADMIN ACTIVE) \<in> set (cv_parts sample_group)"
        "(''ann'', person OWNER ACTIVE) \<in> set (cv_parts sample_group)"
        "pt_state (person ADMIN ACTIVE) = ACTIVE" "pt_state (person OWNER ACTIVE) = ACTIVE" by code_simp+
      with 1(6) have u: "''fay'' = u" "''ann'' = u" by (metis fst_conv snd_conv)+
      have "''fay'' = ''ann''" by (rule trans [OF u(1) u(2) [symmetric]])
      then show False by simp
    qed
  qed
  have "2 < cv_epoch sample_group" by code_simp
  from roster_history_is_final [OF sample_group_ok conversation_step.remove [OF run] this] open_group
  have "find_leaves_at_epoch cv' 2 = find_leaves_at_epoch sample_group 2" by blast
  moreover have "find_leaves_at_epoch sample_group 2 = [(''a1'', ''ann''), (''c1'', ''cat''), (''d1'', ''dan'')]"
    by code_simp
  ultimately show ?thesis using run by auto
qed

end
