(* ===== verification/Mls_Work_Properties.thy ===== *)
theory Mls_Work_Properties
  imports Mls_Properties
begin

text \<open>
  The properties of the membership work and of self-joins: what a device is told to do is what the
  rules accept, one device at a time is told so, and what a device that joins by itself has proved.
\<close>

section \<open>The suggested work\<close>

lemma first_chunk_facts:
  "set (first_chunk ds) \<subseteq> set ds" "distinct (map wd_device ds) \<Longrightarrow> distinct (map wd_device (first_chunk ds))"
  "length (first_chunk ds) \<le> max_devices_per_commit"
proof -
  let ?s = "sort_by (\<lambda>a b. compare_ids (wd_device a) (wd_device b) \<le> 0) ds"
  show "set (first_chunk ds) \<subseteq> set ds"
    unfolding first_chunk_def using set_take_subset [of max_devices_per_commit ?s] by simp
  assume d: "distinct (map wd_device ds)"
  have "mset (map wd_device ?s) = mset (map wd_device ds)" by simp
  then have "distinct (map wd_device ?s)" using d by (metis mset_eq_imp_distinct_iff)
  then show "distinct (map wd_device (first_chunk ds))"
    unfolding first_chunk_def by (metis distinct_take take_map)
qed (simp add: first_chunk_def)

lemma work_add_facts:
  assumes "w \<in> set (work_add devices refusing f)"
  obtains st r where "(wd_user w, st) \<in> set (fa_participants f)" and "is_entitled_to_leaf (Some st)"
    and "r \<in> set devices" and "dr_device r = wd_device w" and "dr_user r = wd_user w" and "\<not> dr_revoked r"
    and "wd_device w \<notin> set (map wd_device (fa_leaves f))"
  using assms
  by (auto simp: work_add_def skips_participant_def unrevoked_devices_of_def split: if_splits)

lemma work_add_distinct:
  assumes keys: "distinct (map fst (fa_participants f))" and devs: "distinct (map dr_device devices)"
  shows "distinct (map wd_device (work_add devices refusing f))"
proof -
  have one: "u = v" if "d \<in> set (unrevoked_devices_of devices u)" "d \<in> set (unrevoked_devices_of devices v)" for d u v
    using that devs by (auto simp: unrevoked_devices_of_def distinct_map inj_on_def)
  have each: "distinct (filter P (unrevoked_devices_of devices u))" for P u
    using distinct_map_filter [OF devs] by (simp add: unrevoked_devices_of_def)
  have "distinct (map wd_device (concat (map (\<lambda>p. if skips_participant refusing p then []
      else map (\<lambda>d. \<lparr>wd_user = fst p, wd_device = d\<rparr>) (filter P (unrevoked_devices_of devices (fst p)))) ps)))"
    if "distinct (map fst ps)" for ps P
    using that
  proof (induction ps)
    case (Cons p ps)
    have "d \<notin> set (unrevoked_devices_of devices (fst p))"
      if "q \<in> set ps" "d \<in> set (unrevoked_devices_of devices (fst q))" for q d
      using one that Cons.prems by (metis distinct.simps(2) imageI list.set_map list.simps(9))
    then show ?case using Cons each by (auto simp: comp_def)
  qed simp
  with keys show ?thesis by (simp add: work_add_def)
qed

lemma work_remove_facts:
  assumes "w \<in> set (work_remove devices requesting f)" and "distinct (map fst (fa_participants f))"
  shows "w \<in> set (fa_leaves f)" and "wd_device w \<noteq> requesting"
    and "is_leaf_removable (map_of (fa_participants f) (wd_user w))
      (wd_device w \<notin> set (unrevoked_device_ids devices))"
  using assms by (auto simp: work_remove_def js_map_id)

lemma facts_of_simps [simp]:
  "fa_id (facts_of (cid, cv)) = cid" "fa_epoch (facts_of (cid, cv)) = cv_epoch cv"
  "map_of (fa_participants (facts_of (cid, cv))) u = state_of cv u"
  "map fst (fa_participants (facts_of (cid, cv))) = map fst (cv_parts cv)"
  "map wd_device (fa_leaves (facts_of (cid, cv))) = map fst (find_active_leaves cv)"
  by (auto simp: facts_of_def state_of_def map_of_map comp_def)

text \<open>The Commit a device builds from a work item, with one Welcome for all it adds.\<close>

definition commit_from_item ::
    "membership_work_item \<Rightarrow> device_id \<Rightarrow> user_id \<Rightarrow> bytes \<Rightarrow> string \<Rightarrow> bytes \<Rightarrow> bytes option \<Rightarrow> commit_to_accept" where
  "commit_from_item item d u payload sha w info =
     \<lparr>ca_epoch = wi_epoch item, ca_device = d, ca_user = u, ca_payload = payload, ca_sha256 = sha,
      ca_added = map wd_device (wi_add item), ca_removed = map wd_device (wi_remove item),
      ca_welcomes = map (\<lambda>x. (wd_device x, w)) (wi_add item), ca_groupInfo = info, ca_sender = Member,
      ca_resync = False\<rparr>"

lemma item_facts:
  assumes "item \<in> set (build_membership_work [facts_of (cid, cv)] devices d refusing)"
  shows "wi_epoch item = cv_epoch cv"
    and "wi_add item = first_chunk (work_add devices refusing (facts_of (cid, cv)))"
    and "wi_remove item = first_chunk (work_remove devices d (facts_of (cid, cv)))"
  using assms by (auto simp: build_membership_work_def Let_def split: if_splits)

lemma find_devices_keys: "distinct (map fst reg) \<Longrightarrow> distinct (map dr_device (find_devices reg us ds))"
proof -
  assume "distinct (map fst reg)"
  then have "distinct (map fst (filter (\<lambda>(d, f). dv_user f \<in> set us \<or> d \<in> set ds) reg))"
    by (rule distinct_map_filter)
  then show ?thesis by (simp add: find_devices_def comp_def split_def)
qed

lemma find_devices_record:
  assumes "distinct (map fst reg)" and "r \<in> set (find_devices reg us ds)"
  obtains f where "map_of reg (dr_device r) = Some f" and "dv_user f = dr_user r"
    and "dr_revoked r \<longleftrightarrow> dv_revokedAt f \<noteq> None"
  using assms by (auto simp: find_devices_def)

lemma find_devices_unrevoked:
  assumes "map_of reg d = Some f" and "dv_revokedAt f = None" and "d \<in> set ds"
  shows "d \<in> set (unrevoked_device_ids (find_devices reg us ds))"
  using map_of_SomeD [OF assms(1)] assms(2,3)
  by (force simp: unrevoked_device_ids_def find_devices_def)

lemma commit_accept_cases:
  assumes "conv_ok cv" and "declared c" and "cv_epoch cv = ca_epoch c" and "commit_allowed reg c cv"
  shows "\<exists>cv' h. accept_commit reg now c cv = Inr (cv', Accepted h)"
proof -
  have check: "check_membership_change reg c cv = Inr ()" using assms(4) by (simp add: check_allowed)
  show ?thesis
    by (rule commit_transaction_ok [OF assms(1,2) check assms(3), of now]) (simp add: accept_at_epoch [OF assms(3)])
qed

text \<open>
  C10. The work a device is handed is work it may do: a Commit that adds and removes exactly what an item
  lists passes the declaration check and every membership rule, so the server accepts it as long as the
  rows of the conversation and of the devices are the ones the item was built from (a removal or a
  revocation in between can make it refuse, also within the epoch). Neither the size limit of an item
  nor a device revoked by then, an invitee who refuses, or the sender's own leaf can make the
  suggestion one the server would refuse.
\<close>
theorem suggested_work_is_accepted:
  assumes ok: "conv_ok cv" and reg: "distinct (map fst reg)"
    and own: "d \<in> set (map fst (find_active_leaves cv))" and act: "state_of cv u = Some ACTIVE"
    and item: "item \<in> set (build_membership_work [facts_of (cid, cv)]
      (find_devices reg (map fst (cv_parts cv)) (map fst (find_active_leaves cv))) d refusing)"
  shows "\<exists>cv' h. accept_commit reg now (commit_from_item item d u payload sha w info) cv = Inr (cv', Accepted h)
    \<and> length (ca_added (commit_from_item item d u payload sha w info)) \<le> 50"
proof -
  let ?f = "facts_of (cid, cv)"
  let ?devs = "find_devices reg (map fst (cv_parts cv)) (map fst (find_active_leaves cv))"
  let ?c = "commit_from_item item d u payload sha w info"
  note it = item_facts [OF item]
  have keys: "distinct (map fst (fa_participants ?f))" using conv_okD(1) [OF ok] by simp
  have leaves: "distinct (map wd_device (fa_leaves ?f))" using conv_okD(2) [OF ok] by simp
  have add: "set (wi_add item) \<subseteq> set (work_add ?devs refusing ?f)"
    "set (wi_remove item) \<subseteq> set (work_remove ?devs d ?f)"
    unfolding it(2,3) by (rule first_chunk_facts(1))+
  have dist: "distinct (ca_added ?c)" "distinct (ca_removed ?c)"
  proof -
    show "distinct (ca_added ?c)"
      using first_chunk_facts(2) [OF work_add_distinct [OF keys find_devices_keys [OF reg]]]
      by (simp add: commit_from_item_def it(2))
    have "distinct (map wd_device (work_remove ?devs d ?f))"
      unfolding work_remove_def by (rule distinct_map_filter [OF leaves])
    then show "distinct (ca_removed ?c)"
      using first_chunk_facts(2) by (simp add: commit_from_item_def it(3))
  qed
  have added: "\<exists>f. map_of reg x = Some f \<and> dv_revokedAt f = None \<and> x \<notin> set (map fst (find_active_leaves cv))
      \<and> is_entitled_to_leaf (state_of cv (dv_user f))" if "x \<in> set (ca_added ?c)" for x
  proof -
    from that obtain k where k: "k \<in> set (work_add ?devs refusing ?f)" "wd_device k = x"
      using add(1) by (auto simp: commit_from_item_def)
    from work_add_facts [OF k(1)] obtain st r where r: "(wd_user k, st) \<in> set (fa_participants ?f)"
      "is_entitled_to_leaf (Some st)" "r \<in> set ?devs" "dr_device r = x" "dr_user r = wd_user k" "\<not> dr_revoked r"
      "x \<notin> set (map wd_device (fa_leaves ?f))" using k(2) by metis
    obtain f where "map_of reg x = Some f" "dv_user f = wd_user k" "dv_revokedAt f = None"
      using find_devices_record [OF reg r(3)] r(4-6) by metis
    moreover have "state_of cv (wd_user k) = Some st"
      using map_of_is_SomeI [OF keys r(1)] by simp
    ultimately show ?thesis using r(2,7) by simp
  qed
  have removed: "\<exists>v. map_of (find_active_leaves cv) x = Some v \<and> \<not> unauthorised_removal reg cv x v \<and> x \<noteq> d"
    if "x \<in> set (ca_removed ?c)" for x
  proof -
    from that obtain k where k: "k \<in> set (work_remove ?devs d ?f)" "wd_device k = x"
      using add(2) by (auto simp: commit_from_item_def)
    note rm = work_remove_facts [OF k(1) keys]
    from rm(1) have "(x, wd_user k) \<in> set (find_active_leaves cv)" using k(2) by (auto simp: facts_of_def)
    then have m: "map_of (find_active_leaves cv) x = Some (wd_user k)"
      using conv_okD(2) [OF ok] by simp
    then have live: "x \<in> set (map fst (find_active_leaves cv))" using map_of_SomeD by force
    have "\<not> unauthorised_removal reg cv x (wd_user k)"
    proof
      assume bad: "unauthorised_removal reg cv x (wd_user k)"
      then obtain dv where "map_of reg x = Some dv" "dv_revokedAt dv = None"
        by (auto simp: unauthorised_removal_def)
      from find_devices_unrevoked [OF this live] bad rm(3) k(2) show False
        by (simp add: unauthorised_removal_def is_leaf_removable_def)
    qed
    with m rm(2) k(2) show ?thesis by simp
  qed
  have disj: "set (ca_added ?c) \<inter> set (ca_removed ?c) = {}" "d \<notin> set (ca_added ?c) \<union> set (ca_removed ?c)"
  proof -
    have "x \<in> set (map fst (find_active_leaves cv)) \<and> x \<noteq> d" if "x \<in> set (ca_removed ?c)" for x
    proof -
      from removed [OF that] obtain v where "map_of (find_active_leaves cv) x = Some v" "x \<noteq> d" by blast
      then show ?thesis using map_of_SomeD by force
    qed
    with added own show "set (ca_added ?c) \<inter> set (ca_removed ?c) = {}" "d \<notin> set (ca_added ?c) \<union> set (ca_removed ?c)"
      by blast+
  qed
  have "declared ?c"
    using dist disj by (simp add: declared_def declaration_ok commit_from_item_def comp_def)
  moreover have "commit_allowed reg ?c cv"
  proof -
    have "has_roster cv" using own by (auto simp: find_active_leaves_def has_roster_def)
    moreover have "ca_sender ?c = Member" "\<not> ca_resync ?c" "ca_user ?c = u" "ca_device ?c = d"
      by (simp_all add: commit_from_item_def)
    ultimately have "check_membership_change reg ?c cv = Inr ()"
      unfolding check_ok using act own added removed by auto
    then show ?thesis by (simp add: check_allowed)
  qed
  moreover have "cv_epoch cv = ca_epoch ?c" by (simp add: commit_from_item_def it(1))
  ultimately have "\<exists>cv' h. accept_commit reg now ?c cv = Inr (cv', Accepted h)"
    using commit_accept_cases [OF ok, of ?c reg now] by blast
  moreover have "length (ca_added ?c) \<le> 50"
    using first_chunk_facts(3) by (simp add: commit_from_item_def it(2) max_devices_per_commit_def)
  ultimately show ?thesis by blast
qed

theorem suggested_work_is_accepted_witness:
  "\<exists>item cv' h. build_membership_work [facts_of (''c'', sample_group)]
      (find_devices sample_registry (map fst (cv_parts sample_group)) (map fst (find_active_leaves sample_group)))
      ''a1'' [] = [item] \<and> map wd_device (wi_add item) = [''b1''] \<and> map wd_device (wi_remove item) = [''c1'']
    \<and> accept_commit sample_registry 5 (commit_from_item item ''a1'' ''ann'' [8] ''h3'' [2] None) sample_group
      = Inr (cv', Accepted h)"
proof -
  let ?items = "build_membership_work [facts_of (''c'', sample_group)]
      (find_devices sample_registry (map fst (cv_parts sample_group)) (map fst (find_active_leaves sample_group)))
      ''a1'' []"
  have items: "?items = [hd ?items]" "map wd_device (wi_add (hd ?items)) = [''b1'']"
    "map wd_device (wi_remove (hd ?items)) = [''c1'']" by code_simp+
  have h: "distinct (map fst sample_registry)" "''a1'' \<in> set (map fst (find_active_leaves sample_group))"
    "state_of sample_group ''ann'' = Some ACTIVE" by code_simp+
  have "hd ?items \<in> set ?items" by (subst (2) items(1)) simp
  from suggested_work_is_accepted [OF sample_group_ok h this, of 5 "[8]" "''h3''" "[2]" None]
  obtain cv' h where run: "accept_commit sample_registry 5
      (commit_from_item (hd ?items) ''a1'' ''ann'' [8] ''h3'' [2] None) sample_group = Inr (cv', Accepted h)" by blast
  show ?thesis
    by (rule exI [of _ "hd ?items"], rule exI [of _ cv'], rule exI [of _ h], intro conjI; (rule items run)?)
qed

section \<open>The lease\<close>

lemma held_keys:
  "c \<in> set (map fst (filter (\<lambda>(c, v). P c v) (map (\<lambda>(c, v). (c, g c v)) db))) \<longleftrightarrow>
     (\<exists>v. (c, v) \<in> set db \<and> P c (g c v))"
  by (induction db) auto

lemma leased_iff:
  assumes "distinct (map fst db)" and "(cid, cv) \<in> set db"
  shows "cid \<in> set (snd (lease_conversations b ids now until cooldown db)) \<longleftrightarrow>
    cid \<in> set ids \<and> holds_lease b now (lease_conversation b now until cooldown cv)"
proof -
  let ?g = "\<lambda>c v. if c \<in> set ids then lease_conversation b now until cooldown v else v"
  have "cid \<in> set (snd (lease_conversations b ids now until cooldown db)) \<longleftrightarrow>
      (\<exists>v. (cid, v) \<in> set db \<and> cid \<in> set ids \<and> holds_lease b now (?g cid v))"
    unfolding lease_conversations_def Let_def snd_conv held_keys by blast
  also have "\<dots> \<longleftrightarrow> cid \<in> set ids \<and> holds_lease b now (?g cid cv)"
    using assms by (metis eq_key_imp_eq_value)
  finally show ?thesis by auto
qed

text \<open>
  While a device's lease runs no other device is handed the same conversation's work, whatever it
  asks for; when it ends without a Commit, another device gets it at once and the same device only
  after the cooldown.
\<close>
theorem lease_is_exclusive:
  assumes "distinct (map fst db)" and "(cid, cv) \<in> set db" and "cid \<in> set ids"
    and "cv_leaseDevice cv = Some a" and "cv_leaseUntil cv = Some until" and "until \<noteq> now"
  shows "cid \<in> set (snd (lease_conversations b ids now (now + work_lease_ms) work_cooldown_ms db)) \<longleftrightarrow>
    (if now < until then b = a else b \<noteq> a \<or> until + work_cooldown_ms < now)"
  unfolding leased_iff [OF assms(1,2)] using assms(3-)
  by (auto simp: lease_conversation_def lease_is_free_def holds_lease_def work_lease_ms_def work_cooldown_ms_def)

theorem lease_is_exclusive_witness:
  "\<not> (''c'' \<in> set (snd (lease_conversations ''f1'' [''c''] 80 (80 + work_lease_ms) work_cooldown_ms
      [(''c'', sample_group)])))
   \<and> ''c'' \<in> set (snd (lease_conversations ''f1'' [''c''] 91 (91 + work_lease_ms) work_cooldown_ms
      [(''c'', sample_group)]))"
proof -
  have l: "cv_leaseDevice sample_group = Some ''a1''" "cv_leaseUntil sample_group = Some 90" by code_simp+
  show ?thesis
    using lease_is_exclusive [OF _ _ _ l, where db = "[(''c'', sample_group)]" and cid = "''c''"
        and ids = "[''c'']" and now = 80 and b = "''f1''"]
      lease_is_exclusive [OF _ _ _ l, where db = "[(''c'', sample_group)]" and cid = "''c''"
        and ids = "[''c'']" and now = 91 and b = "''f1''"] by simp
qed

section \<open>Joining by oneself\<close>

lemma accepted_response: "to_submit_response res = Outcome ''accepted'' h \<longleftrightarrow> res = Accepted h"
  by (cases res) (auto simp: to_submit_response_def)

text \<open>
  C11. A device that joins by itself has proved who it is, when no Commit lands between the service's read
  and its transaction: the accepted payload is a public Commit of this conversation and epoch whose
  new leaf carries the key the device registered, signed with that key over the server's own snapshot
  of the epoch, and the only leaf it may replace is one of the same device, user and key.
\<close>
theorem self_join_is_verified:
  assumes run: "submit_external_join_body lib sha reg now u cid dto seen cv = Inr (cv', Outcome ''accepted'' h)"
    and quiet: "cv_epoch seen = cv_epoch cv"
  shows "\<exists>m leaf dv stored info. ml_decode lib (base64_decode (ed_payload dto)) = Decoded (Public_message m)
    \<and> pu_groupId m = text_encode cid \<and> pu_epoch m = cv_epoch cv \<and> pu_path m = Some leaf
    \<and> map_of reg (ed_device dto) = Some dv \<and> dv_user dv = u \<and> dv_revokedAt dv = None \<and> ln_key leaf = dv_key dv
    \<and> find_current seen = Some (cv_epoch cv, stored) \<and> ml_decode lib stored = Decoded (Group_info_message info)
    \<and> ml_verifyContent lib (dv_key dv) m info
    \<and> (\<forall>i \<in> set (removed_leaves (pu_proposals m)). \<exists>tree old. gi_tree info = Some tree
        \<and> ml_leafToNodeIndex lib i < length tree \<and> tree ! ml_leafToNodeIndex lib i = Leaf_node old
        \<and> read_identity lib (ln_credential old) = Inr (u, ed_device dto) \<and> ln_key old = dv_key dv)"
proof -
  obtain c res joiner key where c: "accept_commit reg now c cv = Inr (cv', res)"
    "Outcome ''accepted'' h = to_submit_response res" "ca_epoch c = ed_epoch dto"
    and j: "read_external_join lib (base64_decode (ed_payload dto)) cid (ed_epoch dto) = Inr joiner"
      "ej_key joiner = key"
    and dv: "\<exists>dv. map_of reg (ed_device dto) = Some dv \<and> dv_user dv = u \<and> dv_revokedAt dv = None \<and> dv_key dv = key"
    and front: "check_join_at_frontier lib joiner u (ed_device dto) key (ed_epoch dto)
      (base64_decode (ed_payload dto)) seen = Inr ()"
    by (rule submit_external_joinE [OF run]) blast
  from c(2) have "res = Accepted h" using accepted_response by metis
  with c(1,3) have e: "ed_epoch dto = cv_epoch cv"
    by (auto simp: accept_commit_def bind_result_Inr_iff split: option.splits if_splits)
  from external_join_shape [OF j(1)] obtain m leaf where m: "ml_decode lib (base64_decode (ed_payload dto)) = Decoded (Public_message m)"
    "pu_path m = Some leaf" "pu_groupId m = text_encode cid" "pu_epoch m = ed_epoch dto" "ej_key joiner = ln_key leaf"
    "ej_removedLeaf joiner = (case removed_leaves (pu_proposals m) of [] \<Rightarrow> None | i # _ \<Rightarrow> Some i)"
    by metis
  have few: "length (removed_leaves (pu_proposals m)) \<le> 1"
    using j(1) m(1) by (auto simp: read_external_join_def Let_def split: if_splits)
  from front e quiet obtain stored where st: "find_current seen = Some (cv_epoch cv, stored)"
    and sig: "assert_external_join_signed lib (base64_decode (ed_payload dto)) stored key = Inr ()"
    and rm: "case ej_removedLeaf joiner of None \<Rightarrow> True
      | Some i \<Rightarrow> assert_removed_leaf_is_joiner lib i stored u (ed_device dto) key = Inr ()"
    by (auto simp: check_join_at_frontier_def bind_result_Inr_iff split: option.splits if_splits)
  from sig m(1) obtain info where info: "ml_decode lib stored = Decoded (Group_info_message info)"
    "ml_verifyContent lib key m info"
    by (auto simp: assert_external_join_signed_def split: decoded.splits mls_message.splits)
  have old: "\<exists>tree old. gi_tree info = Some tree \<and> ml_leafToNodeIndex lib i < length tree
      \<and> tree ! ml_leafToNodeIndex lib i = Leaf_node old
      \<and> read_identity lib (ln_credential old) = Inr (u, ed_device dto) \<and> ln_key old = key"
    if "i \<in> set (removed_leaves (pu_proposals m))" for i
  proof -
    have "removed_leaves (pu_proposals m) = [i]" using few that by (cases "removed_leaves (pu_proposals m)") auto
    with m(6) rm have "assert_removed_leaf_is_joiner lib i stored u (ed_device dto) key = Inr ()" by simp
    with info(1) show ?thesis
      by (auto simp: assert_removed_leaf_is_joiner_def Let_def bind_result_Inr_iff
          split: option.splits tree_node.splits if_splits)
  qed
  from dv obtain d where "map_of reg (ed_device dto) = Some d" "dv_user d = u" "dv_revokedAt d = None" "dv_key d = key"
    by blast
  with m st info old e j(2) show ?thesis by auto
qed

definition sample_library :: mls_library where
  "sample_library = \<lparr>ml_decode = (\<lambda>bs. if bs = [] then Decoded (Public_message
       \<lparr>pu_newMember = True, pu_content = Commit, pu_groupId = text_encode ''c'', pu_epoch = 3,
        pu_proposals = [Inline External_init],
        pu_path = Some \<lparr>ln_credential = Basic (Some []), ln_key = [4]\<rparr>\<rparr>)
       else if bs = [7] then Decoded (Group_info_message \<lparr>gi_groupId = text_encode ''c'', gi_epoch = 3,
         gi_tree = None, gi_signer = 0\<rparr>)
       else Nothing),
     ml_identity = (\<lambda>_. Some (''bob'', ''b1'')), ml_leafToNodeIndex = (\<lambda>i. 2 * i), ml_leafKey = (\<lambda>_ _. None),
     ml_verifyContent = (\<lambda>_ _ _. True), ml_verifyGroupInfo = (\<lambda>_ _. False)\<rparr>"

definition join_of_bob :: external_join_dto where
  "join_of_bob = \<lparr>ed_device = ''b1'', ed_epoch = 3, ed_payload = [], ed_groupInfo = None\<rparr>"

theorem self_join_is_verified_witness:
  "\<exists>cv' h. submit_external_join_body sample_library (\<lambda>_. ''s'') sample_registry 5 ''bob'' ''c'' join_of_bob
      sample_group sample_group = Inr (cv', Outcome ''accepted'' h)
    \<and> find_current sample_group = Some (3, [7])"
proof -
  let ?r = "submit_external_join_body sample_library (\<lambda>_. ''s'') sample_registry 5 ''bob'' ''c'' join_of_bob
    sample_group sample_group"
  have "(case ?r of Inr (cv', Outcome out h) \<Rightarrow> out = ''accepted'' | _ \<Rightarrow> False) = True" by code_simp
  then obtain cv' h where run: "?r = Inr (cv', Outcome ''accepted'' h)"
    by (simp split: sum.splits prod.splits submit_response.splits)
  obtain stored where st: "find_current sample_group = Some (cv_epoch sample_group, stored)"
    using self_join_is_verified [OF run refl] by blast
  have "find_current sample_group = Some (3, [7])" by code_simp
  with run st show ?thesis by blast
qed

text \<open>
  When a Commit does land in between (the epoch read is not the one the request names), no signature
  is looked at: the request has the same outcome for a library that rejects every signature.
\<close>
theorem self_join_race_skips_signature:
  assumes "cv_epoch seen \<noteq> ed_epoch dto"
  shows "submit_external_join_body lib sha reg now u cid dto seen cv =
    submit_external_join_body (lib\<lparr>ml_verifyContent := \<lambda>_ _ _. False\<rparr>) sha reg now u cid dto seen cv"
proof -
  let ?lib = "lib\<lparr>ml_verifyContent := \<lambda>_ _ _. False\<rparr>"
  have sel: "ml_decode ?lib = ml_decode lib" "ml_identity ?lib = ml_identity lib"
    "ml_leafKey ?lib = ml_leafKey lib" "ml_verifyGroupInfo ?lib = ml_verifyGroupInfo lib" by simp_all
  have id: "read_identity ?lib = read_identity lib"
    unfolding read_identity_def sel by (rule refl)
  have "read_external_join ?lib = read_external_join lib"
    unfolding read_external_join_def id sel by (rule refl)
  moreover have gi: "assert_is_group_info_for ?lib = assert_is_group_info_for lib"
    "assert_group_info_signed_by ?lib = assert_group_info_signed_by lib"
    unfolding assert_is_group_info_for_def assert_group_info_signed_by_def sel by (rule refl)+
  have "decode_group_info ?lib = decode_group_info lib"
    unfolding decode_group_info_def gi by (rule refl)
  ultimately show ?thesis
    using assms by (simp add: submit_external_join_body_def check_join_at_frontier_def)
qed

theorem self_join_race_skips_signature_witness:
  "\<exists>cv' h. submit_external_join_body (sample_library\<lparr>ml_verifyContent := \<lambda>_ _ _. False\<rparr>) (\<lambda>_. ''s'')
      sample_registry 5 ''bob'' ''c'' join_of_bob (sample_group\<lparr>cv_epoch := 2\<rparr>) sample_group
    = Inr (cv', Outcome ''accepted'' h) \<and> (''b1'', ''bob'') \<in> set (find_active_leaves cv')"
proof -
  let ?r = "submit_external_join_body sample_library (\<lambda>_. ''s'') sample_registry 5 ''bob'' ''c'' join_of_bob
    (sample_group\<lparr>cv_epoch := 2\<rparr>) sample_group"
  have "(case ?r of Inr (cv', Outcome out h) \<Rightarrow> out = ''accepted'' \<and> (''b1'', ''bob'') \<in> set (find_active_leaves cv')
      | _ \<Rightarrow> False) = True" by code_simp
  then obtain cv' h where "?r = Inr (cv', Outcome ''accepted'' h)" "(''b1'', ''bob'') \<in> set (find_active_leaves cv')"
    by (simp split: sum.splits prod.splits submit_response.splits)
  moreover have e: "cv_epoch (sample_group\<lparr>cv_epoch := 2\<rparr>) \<noteq> ed_epoch join_of_bob" by code_simp
  ultimately show ?thesis
    unfolding self_join_race_skips_signature [OF e, of sample_library "\<lambda>_. ''s''" sample_registry 5
        "''bob''" "''c''" sample_group, symmetric] by blast
qed

section \<open>A snapshot survives the transport\<close>

text \<open>
  The snapshot a Commit brings is what a device joining right after it downloads: the base64 text
  it gets names the new epoch and decodes to exactly the bytes that were accepted.
\<close>
theorem snapshot_roundtrip:
  assumes "conv_ok cv" and "declared c" and "accept_commit reg now c cv = Inr (cv', Accepted h)"
    and "ca_groupInfo c = Some info" and "assert_own_active_device reg u d = Inr dv"
    and "is_entitled_to_leaf (state_of cv' u)"
    and "assert_not_rate_limited fetch_limiter t u 1 lm = (lm', Inr ())"
  shows "\<exists>text. get_group_info reg t u d cv' lm = (lm', Inr (ca_epoch c + 1, text)) \<and> base64_decode text = info"
proof -
  from commit_written [OF assms(1-3)] assms(4)
  have "find_current cv' = Some (ca_epoch c + 1, info)" by (simp add: find_current_def)
  with assms(5-7) show ?thesis by (simp add: get_group_info_def limited_def require_def base64_roundtrip)
qed

theorem snapshot_roundtrip_witness:
  "\<exists>cv' h text. accept_commit sample_registry 5 sample_commit sample_group = Inr (cv', Accepted h)
    \<and> snd (get_group_info sample_registry 6 ''bob'' ''b1'' cv' new_limiter) = Inr (4, text)
    \<and> base64_decode text = [7, 7]"
proof -
  obtain cv' h where run: "accept_commit sample_registry 5 sample_commit sample_group = Inr (cv', Accepted h)"
    using sample_accepted by blast
  have "(case accept_commit sample_registry 5 sample_commit sample_group of
      Inr (cv', _) \<Rightarrow> is_entitled_to_leaf (state_of cv' ''bob'')) = True" by code_simp
  with run have ent: "is_entitled_to_leaf (state_of cv' ''bob'')" by simp
  have e: "ca_groupInfo sample_commit = Some [7, 7]" "ca_epoch sample_commit + 1 = 4"
    "assert_own_active_device sample_registry ''bob'' ''b1'' = Inr (device ''bob'' [4])"
    "snd (assert_not_rate_limited fetch_limiter 6 ''bob'' 1 new_limiter) = Inr ()" by code_simp+
  then obtain lm' where "assert_not_rate_limited fetch_limiter 6 ''bob'' 1 new_limiter = (lm', Inr ())"
    by (metis prod.collapse)
  from snapshot_roundtrip [OF sample_group_ok sample_commit_declared run e(1,3) ent this] run e(2)
  show ?thesis by auto
qed

section \<open>A Commit from the future\<close>

text \<open>
  A Commit for an epoch the group has not reached changes nothing, but it is answered with the
  server error the code keeps for a conversation that vanished: no handshake has that epoch yet, and
  nothing checked the epoch before.
\<close>
theorem future_commit_is_a_server_error:
  assumes "conv_ok cv" and "cv_epoch cv < ca_epoch c"
  shows "accept_commit reg now c cv = Inl (ServerError (Mls No_handshake_at_epoch))"
proof -
  have log: "map hs_epoch (cv_handshakes cv) = [0..<cv_epoch cv]"
    using assms(1) by (simp add: conv_ok_def log_ok_def)
  then have "hs_epoch ` set (cv_handshakes cv) = {0..<cv_epoch cv}"
    by (metis set_map set_upt)
  with assms(2) have "find_winner cv (ca_epoch c) = None"
    unfolding find_winner_def find_None_iff by (metis atLeastLessThan_iff image_eqI not_less_iff_gr_or_eq)
  with assms(2) show ?thesis by (simp add: accept_commit_def)
qed

theorem future_commit_is_a_server_error_witness:
  "accept_commit sample_registry 5 (sample_commit\<lparr>ca_epoch := 9\<rparr>) sample_group
    = Inl (ServerError (Mls No_handshake_at_epoch))"
proof -
  have "cv_epoch sample_group < ca_epoch (sample_commit\<lparr>ca_epoch := 9\<rparr>)" by code_simp
  from future_commit_is_a_server_error [OF sample_group_ok this] show ?thesis .
qed

end
