(* ===== verification/Membership_Properties.thy ===== *)
theory Membership_Properties
  imports Chat_Samples
begin

text \<open>
  The properties of the membership component: the two-phase machine against the one-phase machine a
  reader of the API sees, what each operation does to every participant, and the invariant over
  every reachable conversation.
\<close>

section \<open>The machine\<close>

text \<open>What a user outside MLS sees of a state, and where a transition leaves a participant.\<close>

fun collapse_from :: "membership_from \<Rightarrow> membership_from" where
  "collapse_from NONE = NONE"
| "collapse_from (From s) = From (collapsed_when_not_mls s)"

fun settle :: "membership_from \<Rightarrow> membership_transition \<Rightarrow> membership_from option" where
  "settle fr (Change to) = Some (From to)"
| "settle fr Noop = Some fr"
| "settle fr Illegal = None"

text \<open>
  C4. The two-phase machine of an MLS conversation is a refinement of the one-phase machine of a plain
  one: collapsing the waiting states, every app-level event is legal in the same states and leads to
  the same state, and every event only a Commit raises is invisible.
\<close>
theorem two_phase_refines_one_phase:
  "(if event \<in> set mls_only_events
    then (case settle fr (resolve_membership_transition fr event True) of
            None \<Rightarrow> True | Some to \<Rightarrow> collapse_from to = collapse_from fr)
    else map_option collapse_from (settle fr (resolve_membership_transition fr event True))
      = settle (collapse_from fr) (resolve_membership_transition (collapse_from fr) event False))"
proof (cases fr)
  case NONE
  then show ?thesis
    by (cases event) (simp_all add: resolve_membership_transition_def mls_only_events_def Let_def)
next
  case (From s)
  then show ?thesis
    by (cases s; cases event)
       (simp_all add: resolve_membership_transition_def mls_only_events_def Let_def)
qed

section \<open>One transaction, request by request\<close>

definition request_outcome ::
    "participant_row list \<Rightarrow> bool \<Rightarrow> user_id list \<Rightarrow> membership_request \<Rightarrow> membership_transition" where
  "request_outcome parts mls with_leaves r =
     (if map_option pr_role (map_of (js_map (map (\<lambda>p. (pr_user p, p)) parts)) (rq_user r)) = Some OWNER
         \<and> rq_event r = REMOVE then Noop
      else planned_transition (from_of (row_state parts (rq_user r))) (rq_event r) mls
        (rq_user r \<in> set with_leaves))"

lemma plan_step:
  "plan_membership_changes (r # rs) parts mls wl oi =
     (case request_outcome parts mls wl r of
        Illegal \<Rightarrow> (if oi = Skip then plan_membership_changes rs parts mls wl oi
          else Inl (BadRequest (illegal_message (rq_event r) (row_state parts (rq_user r)))))
      | Noop \<Rightarrow> plan_membership_changes rs parts mls wl oi
      | Change to \<Rightarrow> bind_result (plan_membership_changes rs parts mls wl oi)
          (\<lambda>cs. Inr (\<lparr>tr_user = rq_user r, tr_from = row_state parts (rq_user r), tr_to = to\<rparr> # cs)))"
proof (cases "map_option pr_role (map_of (js_map (map (\<lambda>p. (pr_user p, p)) parts)) (rq_user r)) = Some OWNER
    \<and> rq_event r = REMOVE")
  case True
  then show ?thesis
    by (simp only: plan_membership_changes.simps Let_def request_outcome_def if_True simp_thms
        membership_transition.case)
next
  case False
  then show ?thesis
    by (simp only: plan_membership_changes.simps Let_def request_outcome_def if_False
        row_state_def [symmetric] from_of_def [symmetric])
qed

lemma plan_fails:
  "plan_membership_changes rs parts mls wl oi = Inl x \<longleftrightarrow> oi = Throw \<and>
     (\<exists>r. find (\<lambda>r. request_outcome parts mls wl r = Illegal) rs = Some r
        \<and> x = BadRequest (illegal_message (rq_event r) (row_state parts (rq_user r))))"
proof (induction rs)
  case Nil
  then show ?case by simp
next
  case (Cons r rs)
  show ?case
    using Cons by (cases "request_outcome parts mls wl r"; cases oi)
       (auto simp: plan_step bind_result_Inl_iff simp del: plan_membership_changes.simps)
qed

lemma plan_new_state:
  assumes "plan_membership_changes rs parts mls wl oi = Inr cs" and "distinct (map rq_user rs)"
    and "\<forall>r \<in> set rs. row_state parts (rq_user r) = st (rq_user r)"
  shows "new_state cs st u =
    (case find (\<lambda>r. rq_user r = u) rs of None \<Rightarrow> st u
     | Some r \<Rightarrow> (case request_outcome parts mls wl r of Change t \<Rightarrow> Some t | _ \<Rightarrow> st u))"
  using assms
proof (induction rs arbitrary: cs)
  case Nil
  then show ?case by simp
next
  case (Cons r rs)
  have notin: "find (\<lambda>r'. rq_user r' = rq_user r) rs = None"
  proof -
    have "rq_user r \<notin> rq_user ` set rs" using Cons.prems(2) by simp
    then show ?thesis unfolding find_None_iff by (metis imageI)
  qed
  from Cons.prems(1) obtain rest where rest: "plan_membership_changes rs parts mls wl oi = Inr rest"
    and cs: "cs = (case request_outcome parts mls wl r of
        Change to \<Rightarrow> \<lparr>tr_user = rq_user r, tr_from = row_state parts (rq_user r), tr_to = to\<rparr> # rest
      | _ \<Rightarrow> rest)"
    by (auto simp: plan_step bind_result_Inr_iff simp del: plan_membership_changes.simps
        split: membership_transition.splits if_splits)
  have IH: "new_state rest st u =
    (case find (\<lambda>r. rq_user r = u) rs of None \<Rightarrow> st u
     | Some r \<Rightarrow> (case request_outcome parts mls wl r of Change t \<Rightarrow> Some t | _ \<Rightarrow> st u))"
    using Cons.IH [OF rest] Cons.prems(2,3) by simp
  then show ?case
    using notin by (cases "request_outcome parts mls wl r"; cases "rq_user r = u") (auto simp: cs new_state_Cons)
qed

text \<open>The same over the conversation: what a request means there.\<close>

definition role_of :: "conversation \<Rightarrow> user_id \<Rightarrow> participant_role option" where
  "role_of cv u = map_option pt_role (map_of (cv_parts cv) u)"

definition meaning :: "conversation \<Rightarrow> membership_request \<Rightarrow> membership_transition" where
  "meaning cv r =
     (if role_of cv (rq_user r) = Some OWNER \<and> rq_event r = REMOVE then Noop
      else planned_transition (from_of (state_of cv (rq_user r))) (rq_event r) (has_roster cv)
        (rq_user r \<in> set (leaf_users cv)))"

definition state_after :: "conversation \<Rightarrow> membership_request list \<Rightarrow> user_id \<Rightarrow> participant_state option" where
  "state_after cv requests u =
     (case find (\<lambda>r. rq_user r = u) requests of
        None \<Rightarrow> state_of cv u
      | Some r \<Rightarrow> (case meaning cv r of Change t \<Rightarrow> Some t | _ \<Rightarrow> state_of cv u))"

lemma request_outcome_meaning:
  assumes "distinct (map fst (cv_parts cv))" and "r \<in> set requests"
  shows "request_outcome (requested_rows requests cv) (has_roster cv) (leaf_users cv) r = meaning cv r"
    and "row_state (requested_rows requests cv) (rq_user r) = state_of cv (rq_user r)"
proof -
  have u: "rq_user r \<in> rq_user ` set requests" using assms(2) by simp
  show st: "row_state (requested_rows requests cv) (rq_user r) = state_of cv (rq_user r)"
    by (rule requested_row_state [OF assms(1) u])
  show "request_outcome (requested_rows requests cv) (has_roster cv) (leaf_users cv) r = meaning cv r"
  proof -
    have "map_option pr_role (map_of (js_map (map (\<lambda>p. (pr_user p, p)) (requested_rows requests cv)))
        (rq_user r)) = role_of cv (rq_user r)"
      by (simp only: requested_row [OF assms(1) u] role_of_def option.map_comp comp_def participant_row.simps)
    with st show ?thesis by (simp only: request_outcome_def meaning_def)
  qed
qed

lemma change_tx_functional:
  assumes keys: "distinct (map fst (cv_parts cv))" and d: "distinct (map rq_user requests)"
  shows "case change_membership_in_transaction now requests oi cv of
      Inr (cv', cs) \<Rightarrow> (oi = Skip \<or> (\<forall>r \<in> set requests. meaning cv r \<noteq> Illegal))
        \<and> (\<forall>u. state_of cv' u = state_after cv requests u)
    | Inl x \<Rightarrow> oi = Throw \<and> (\<exists>r \<in> set requests. meaning cv r = Illegal
        \<and> x = BadRequest (illegal_message (rq_event r) (state_of cv (rq_user r))))"
proof (cases "plan_membership_changes requests (requested_rows requests cv) (has_roster cv) (leaf_users cv) oi")
  case (Inl x)
  then obtain r where r: "oi = Throw" "x = BadRequest (illegal_message (rq_event r)
      (row_state (requested_rows requests cv) (rq_user r)))"
    "find (\<lambda>r. request_outcome (requested_rows requests cv) (has_roster cv) (leaf_users cv) r = Illegal)
      requests = Some r"
    by (auto simp: plan_fails)
  then have "r \<in> set requests"
    "request_outcome (requested_rows requests cv) (has_roster cv) (leaf_users cv) r = Illegal"
    by (auto simp: find_Some_iff)
  with Inl r(1,2) request_outcome_meaning [OF keys] show ?thesis
    by (auto simp: change_tx_unfold)
next
  case (Inr cs)
  obtain cv' where run: "change_membership_in_transaction now requests oi cv = Inr (cv', cs)"
    using change_tx_result [OF keys d Inr] by metis
  have "oi = Skip \<or> (\<forall>r \<in> set requests. meaning cv r \<noteq> Illegal)"
  proof (cases oi)
    case Throw
    have "find (\<lambda>r. request_outcome (requested_rows requests cv) (has_roster cv) (leaf_users cv) r = Illegal)
        requests = None"
    proof (rule ccontr)
      assume "\<not> ?thesis"
      with Throw have "\<exists>x. plan_membership_changes requests (requested_rows requests cv) (has_roster cv)
          (leaf_users cv) oi = Inl x"
        unfolding plan_fails by auto
      with Inr show False by simp
    qed
    then show ?thesis using request_outcome_meaning(1) [OF keys] by (auto simp: find_None_iff)
  qed simp
  moreover have "state_of cv' u = state_after cv requests u" for u
  proof -
    have "state_of cv' u = new_state cs (state_of cv) u" by (rule change_tx_cases(4) [OF keys d run])
    also have "\<dots> = state_after cv requests u"
    proof -
      have "r \<in> set requests" if "find (\<lambda>r. rq_user r = u) requests = Some r" for r
        using that by (auto simp: find_Some_iff)
      moreover have "new_state cs (state_of cv) u = (case find (\<lambda>r. rq_user r = u) requests of
          None \<Rightarrow> state_of cv u
        | Some r \<Rightarrow> (case request_outcome (requested_rows requests cv) (has_roster cv) (leaf_users cv) r of
            Change t \<Rightarrow> Some t | _ \<Rightarrow> state_of cv u))"
        by (rule plan_new_state [OF Inr d]) (use request_outcome_meaning(2) [OF keys] in blast)
      ultimately show ?thesis
        using request_outcome_meaning(1) [OF keys] by (auto simp: state_after_def split: option.splits)
    qed
    finally show ?thesis .
  qed
  ultimately show ?thesis by (simp add: run)
qed

text \<open>What every property below reads off a transaction's result.\<close>

lemma change_unfold:
  "change now requests oi cv = (case change_membership_in_transaction now (dedupe_by_user requests) oi cv of
     Inl x \<Rightarrow> Inl x | Inr (cv', cs) \<Rightarrow> Inr (cv', length cs))"
  by (auto simp: change_def change_membership_def bind_result_def split: sum.splits prod.splits)

lemma change_counts:
  assumes "distinct (map fst (cv_parts cv))"
    and "change_membership_in_transaction now (dedupe_by_user requests) oi cv = Inr (cv', cs)"
  shows "cs = [] \<longleftrightarrow> (\<forall>r \<in> set (dedupe_by_user requests). \<forall>t. meaning cv r \<noteq> Change t)"
proof -
  let ?rs = "dedupe_by_user requests"
  note tx = change_tx_cases(1) [OF assms(1) dedupe_by_user_facts(1) assms(2)]
  have "plan_membership_changes rs parts mls wl oi = Inr cs \<Longrightarrow>
      cs = [] \<longleftrightarrow> (\<forall>r \<in> set rs. \<forall>t. request_outcome parts mls wl r \<noteq> Change t)" for rs parts mls wl cs
    by (induction rs arbitrary: cs)
       (auto simp: plan_step bind_result_Inr_iff simp del: plan_membership_changes.simps(2)
         split: membership_transition.splits if_splits)
  from this [OF tx] request_outcome_meaning(1) [OF assms(1)] show ?thesis by auto
qed

lemma change_functional:
  assumes "distinct (map fst (cv_parts cv))"
  shows "case change now requests oi cv of
      Inr (cv', n) \<Rightarrow> (oi = Skip \<or> (\<forall>r \<in> set (dedupe_by_user requests). meaning cv r \<noteq> Illegal))
        \<and> (\<forall>u. state_of cv' u = state_after cv (dedupe_by_user requests) u)
    | Inl x \<Rightarrow> oi = Throw \<and> (\<exists>r \<in> set (dedupe_by_user requests). meaning cv r = Illegal
        \<and> x = BadRequest (illegal_message (rq_event r) (state_of cv (rq_user r))))"
  using change_tx_functional [OF assms dedupe_by_user_facts(1) [of requests], where now = now and oi = oi]
  by (auto simp: change_unfold split: sum.splits)

text \<open>The plan holds a transition for exactly the requests that mean a change.\<close>

lemma plan_set:
  assumes "plan_membership_changes rs parts mls wl oi = Inr cs"
  shows "c \<in> set cs \<longleftrightarrow> (\<exists>r \<in> set rs. \<exists>t. request_outcome parts mls wl r = Change t
    \<and> c = \<lparr>tr_user = rq_user r, tr_from = row_state parts (rq_user r), tr_to = t\<rparr>)"
  using assms
  by (induction rs arbitrary: cs)
     (auto simp: plan_step bind_result_Inr_iff simp del: plan_membership_changes.simps(2)
       split: membership_transition.splits if_splits)

lemma plan_legal:
  assumes keys: "distinct (map fst (cv_parts seen))"
  shows "case plan_membership_changes rs (requested_rows rs seen) (has_roster seen) (leaf_users seen) oi of
      Inr cs \<Rightarrow> oi = Skip \<or> (\<forall>r \<in> set rs. meaning seen r \<noteq> Illegal)
    | Inl x \<Rightarrow> oi = Throw \<and> (\<exists>r \<in> set rs. meaning seen r = Illegal
        \<and> x = BadRequest (illegal_message (rq_event r) (state_of seen (rq_user r))))"
proof (cases "plan_membership_changes rs (requested_rows rs seen) (has_roster seen) (leaf_users seen) oi")
  case (Inl x)
  then obtain r where r: "oi = Throw" "x = BadRequest (illegal_message (rq_event r)
      (row_state (requested_rows rs seen) (rq_user r)))"
    "find (\<lambda>r. request_outcome (requested_rows rs seen) (has_roster seen) (leaf_users seen) r = Illegal) rs = Some r"
    by (auto simp: plan_fails)
  then have "r \<in> set rs" "request_outcome (requested_rows rs seen) (has_roster seen) (leaf_users seen) r = Illegal"
    by (auto simp: find_Some_iff)
  with Inl r(1,2) request_outcome_meaning [OF keys] show ?thesis by auto
next
  case (Inr cs)
  have "meaning seen r \<noteq> Illegal" if "oi = Throw" "r \<in> set rs" for r
  proof
    assume "meaning seen r = Illegal"
    with that(2) have "find (\<lambda>r. request_outcome (requested_rows rs seen) (has_roster seen) (leaf_users seen) r
        = Illegal) rs \<noteq> None"
      using request_outcome_meaning(1) [OF keys that(2)] by (auto simp: find_None_iff)
    then have "\<exists>x. plan_membership_changes rs (requested_rows rs seen) (has_roster seen) (leaf_users seen) oi = Inl x"
      unfolding plan_fails using that(1) by blast
    with Inr show False by simp
  qed
  then show ?thesis using Inr by (cases oi) auto
qed

text \<open>
  C8. A membership request is decided by the state machine on the rows it reads, and written only over
  the rows it read, whatever writes without the row lock land in between: it is refused with the
  machine's message when a request is illegal there; with a conflict exactly when a participant it would
  move is no longer in the state that was read; and otherwise it puts each of them in the state their
  request means and leaves every other participant, those rewritten in between included, as they are.
\<close>
theorem membership_change_decides:
  assumes keys: "distinct (map fst (cv_parts seen))"
  shows "case change_beside now requests oi seen cv of
      Inr (cv', n) \<Rightarrow> (oi = Skip \<or> (\<forall>r \<in> set (dedupe_by_user requests). meaning seen r \<noteq> Illegal))
        \<and> (\<forall>r \<in> set (dedupe_by_user requests). case meaning seen r of
            Change t \<Rightarrow> state_of cv (rq_user r) = state_of seen (rq_user r) \<and> state_of cv' (rq_user r) = Some t
          | _ \<Rightarrow> state_of cv' (rq_user r) = state_of cv (rq_user r))
        \<and> (\<forall>u. u \<notin> rq_user ` set requests \<longrightarrow> state_of cv' u = state_of cv u)
    | Inl x \<Rightarrow> oi = Throw \<and> (\<exists>r \<in> set (dedupe_by_user requests). meaning seen r = Illegal
          \<and> x = BadRequest (illegal_message (rq_event r) (state_of seen (rq_user r))))
        \<or> x = Conflict (Chat Membership_changed_while_running)
          \<and> (oi = Skip \<or> (\<forall>r \<in> set (dedupe_by_user requests). meaning seen r \<noteq> Illegal))
          \<and> (\<exists>r \<in> set (dedupe_by_user requests). (\<exists>t. meaning seen r = Change t)
              \<and> state_of cv (rq_user r) \<noteq> state_of seen (rq_user r))"
proof -
  let ?rs = "dedupe_by_user requests"
  let ?plan = "plan_membership_changes ?rs (requested_rows ?rs seen) (has_roster seen) (leaf_users seen) oi"
  note legal = plan_legal [OF keys, where rs = ?rs and oi = oi]
  show ?thesis
  proof (cases ?plan)
    case (Inl x)
    with legal show ?thesis by (simp add: change_beside_unfold)
  next
    case plan: (Inr cs)
    have dc: "distinct (map tr_user cs)" by (rule plan_users_distinct [OF plan dedupe_by_user_facts(1)])
    have in_cs: "c \<in> set cs \<longleftrightarrow> (\<exists>r \<in> set ?rs. \<exists>t. meaning seen r = Change t
        \<and> c = \<lparr>tr_user = rq_user r, tr_from = state_of seen (rq_user r), tr_to = t\<rparr>)" for c
      unfolding plan_set [OF plan] using request_outcome_meaning [OF keys] by (intro bex_cong) auto
    have users: "tr_user ` set cs \<subseteq> rq_user ` set requests"
      using plan_users_subset [OF plan] dedupe_by_user_facts(3) by simp
    show ?thesis
    proof (cases "apply_participant_transitions now cs cv")
      case (Inl x)
      then have "\<not> (\<forall>c \<in> set cs. state_of cv (tr_user c) = tr_from c)"
        using apply_ok_iff [OF dc, of now cv] by auto
      then have "\<exists>r \<in> set ?rs. (\<exists>t. meaning seen r = Change t) \<and> state_of cv (rq_user r) \<noteq> state_of seen (rq_user r)"
        using in_cs by fastforce
      with Inl plan legal apply_error [OF Inl] show ?thesis by (simp add: change_beside_unfold)
    next
      case (Inr cv')
      then have read: "state_of cv (tr_user c) = tr_from c" if "c \<in> set cs" for c
        using apply_ok_iff [OF dc, of now cv] that by blast
      have st: "state_of cv' u = new_state cs (state_of cv) u" for u by (rule apply_states [OF Inr dc])
      have moved: "state_of cv (rq_user r) = state_of seen (rq_user r) \<and> state_of cv' (rq_user r) = Some t"
        if "r \<in> set ?rs" "meaning seen r = Change t" for r t
      proof -
        let ?c = "\<lparr>tr_user = rq_user r, tr_from = state_of seen (rq_user r), tr_to = t\<rparr>"
        have c: "?c \<in> set cs" using in_cs that by blast
        show ?thesis using read [OF c] st [of "rq_user r"] new_state_in [OF c dc, of "state_of cv"] by simp
      qed
      have stays: "state_of cv' (rq_user r) = state_of cv (rq_user r)"
        if r: "r \<in> set ?rs" "\<And>t. meaning seen r \<noteq> Change t" for r
      proof -
        have "rq_user r \<notin> tr_user ` set cs"
        proof
          assume "rq_user r \<in> tr_user ` set cs"
          then obtain r' t where "r' \<in> set ?rs" "meaning seen r' = Change t" "rq_user r' = rq_user r"
            using in_cs by auto
          moreover have "r' = r"
            using calculation(1,3) r(1) dedupe_by_user_facts(1) [of requests] by (metis distinct_map inj_onD)
          ultimately show False using r(2) by simp
        qed
        with st show ?thesis by (simp add: new_state_notin)
      qed
      have "state_of cv' u = state_of cv u" if "u \<notin> rq_user ` set requests" for u
        using that users st new_state_notin [of u cs] by (metis subsetD)
      with Inr plan legal moved stays show ?thesis
        by (simp add: change_beside_unfold split: membership_transition.splits)
    qed
  qed
qed

text \<open>cat's removal is cancelled and fay is removed; the same two requests when fay archives the chat meanwhile.\<close>

theorem membership_change_decides_witness:
  "(\<exists>cv' n. change_beside 5 [\<lparr>rq_user = ''cat'', rq_event = ADD_DIRECT\<rparr>,
      \<lparr>rq_user = ''fay'', rq_event = REMOVE\<rparr>] Throw sample_group sample_group = Inr (cv', n)
      \<and> state_of cv' ''cat'' = Some ACTIVE \<and> state_of cv' ''fay'' = Some LEAVING)
   \<and> change_beside 5 [\<lparr>rq_user = ''cat'', rq_event = ADD_DIRECT\<rparr>,
      \<lparr>rq_user = ''fay'', rq_event = REMOVE\<rparr>] Throw sample_group
      (result_of (update_archived_state 4 ''fay'' True sample_group)) = Inl (Conflict (Chat Membership_changed_while_running))"
proof -
  let ?rs = "[\<lparr>rq_user = ''cat'', rq_event = ADD_DIRECT\<rparr>, \<lparr>rq_user = ''fay'', rq_event = REMOVE\<rparr>]"
  let ?moved = "result_of (update_archived_state 4 ''fay'' True sample_group)"
  have keys: "distinct (map fst (cv_parts sample_group))" by code_simp
  note decides = membership_change_decides [OF keys, where now = 5 and requests = ?rs and oi = Throw]
  have means: "dedupe_by_user ?rs = ?rs"
    "meaning sample_group \<lparr>rq_user = ''cat'', rq_event = ADD_DIRECT\<rparr> = Change ACTIVE"
    "meaning sample_group \<lparr>rq_user = ''fay'', rq_event = REMOVE\<rparr> = Change LEAVING" by code_simp+
  have runs: "isl (change_beside 5 ?rs Throw sample_group sample_group) = False"
    "isl (change_beside 5 ?rs Throw sample_group ?moved)" by code_simp+
  from runs(1) obtain cv' n where run: "change_beside 5 ?rs Throw sample_group sample_group = Inr (cv', n)"
    by (cases "change_beside 5 ?rs Throw sample_group sample_group") auto
  have "state_of cv' ''cat'' = Some ACTIVE \<and> state_of cv' ''fay'' = Some LEAVING"
    using decides [of sample_group] unfolding run means by (simp add: means)
  moreover from runs(2) obtain x where "change_beside 5 ?rs Throw sample_group ?moved = Inl x"
    by (cases "change_beside 5 ?rs Throw sample_group ?moved") auto
  moreover have "x = Conflict (Chat Membership_changed_while_running)"
    using decides [of ?moved] unfolding calculation(2) means by (simp add: means)
  ultimately show ?thesis using run by blast
qed

text \<open>
  An invitation is answered once and by its state only: accepting succeeds exactly for a \<open>PENDING\<close>
  participant, makes them \<open>ACTIVE\<close> at once when the conversation is not MLS or their device is already
  in the group, \<open>JOINING\<close> until a Commit adds them otherwise, and changes nobody else.
\<close>
theorem accept_invite_functional:
  assumes "distinct (map fst (cv_parts cv))"
  shows "case accept_invite now u cv of
      Inr (cv', n) \<Rightarrow> state_of cv u = Some PENDING \<and> n = 1
        \<and> state_of cv' = (state_of cv)(u \<mapsto>
            (if has_roster cv \<and> u \<notin> set (leaf_users cv) then JOINING else ACTIVE))
    | Inl x \<Rightarrow> state_of cv u \<noteq> Some PENDING \<and> x = BadRequest (Chat Conversation_is_not_pending)"
proof -
  let ?r = "\<lparr>rq_user = u, rq_event = ACCEPT_INVITE\<rparr>"
  have d: "dedupe_by_user [?r] = [?r]" by (rule dedupe_id) simp
  have leaf: "u \<in> set (leaf_users cv) \<Longrightarrow> has_roster cv" by (rule leaf_users_roster)
  have m: "meaning cv ?r = (if state_of cv u = Some PENDING
      then Change (if has_roster cv \<and> u \<notin> set (leaf_users cv) then JOINING else ACTIVE) else Illegal)"
  proof (cases "state_of cv u")
    case None
    then show ?thesis
      by (simp add: meaning_def planned_transition_def resolve_membership_transition_def mls_only_events_def)
  next
    case (Some s)
    then show ?thesis using leaf
      by (cases s; cases "has_roster cv"; cases "u \<in> set (leaf_users cv)")
         (simp_all add: meaning_def planned_transition_def resolve_membership_transition_def
          mls_only_events_def Let_def)
  qed
  have msg: "illegal_message ACCEPT_INVITE st = Chat Conversation_is_not_pending" for st
  proof -
    have "is_answer_to_invite ACCEPT_INVITE" by code_simp
    then show ?thesis by (simp add: illegal_message_def)
  qed
  show ?thesis
  proof (cases "change_membership_in_transaction now [?r] Throw cv")
    case (Inl x)
    with change_tx_functional [OF assms, where requests = "[?r]" and now = now and oi = Throw] m msg show ?thesis
      by (simp add: accept_invite_def change_unfold d split: if_splits)
  next
    case (Inr res)
    obtain cv' cs where res: "res = (cv', cs)" by (cases res)
    have pend: "state_of cv u = Some PENDING"
      using change_tx_functional [OF assms, where requests = "[?r]" and now = now and oi = Throw] Inr res m by (simp split: if_splits)
    have "cs \<noteq> []"
      using change_counts [OF assms, where requests = "[?r]" and now = now and oi = Throw] Inr res m pend by (simp add: d)
    moreover have "length cs \<le> 1"
    proof -
      have plan: "plan_membership_changes [?r] (requested_rows [?r] cv) (has_roster cv) (leaf_users cv) Throw = Inr cs"
        using change_tx_cases(1) [OF assms, where requests = "[?r]" and now = now and oi = Throw] Inr res by simp
      have "distinct (map tr_user cs)" "tr_user ` set cs \<subseteq> {u}"
        using plan_users_distinct [OF plan] plan_users_subset [OF plan] by auto
      then have "card (set (map tr_user cs)) \<le> 1" "length cs = card (set (map tr_user cs))"
        using card_mono [of "{u}" "set (map tr_user cs)"] distinct_card [of "map tr_user cs"] by auto
      then show ?thesis by simp
    qed
    ultimately have "length cs = 1" by (cases cs) auto
    moreover have "state_of cv' v = state_after cv [?r] v" for v
      using change_tx_functional [OF assms, where requests = "[?r]" and now = now and oi = Throw] Inr res by simp
    ultimately show ?thesis
      using Inr res m pend by (auto simp: accept_invite_def change_unfold d state_after_def fun_eq_iff)
  qed
qed

theorem accept_invite_functional_witness:
  "state_of (fst (result_of (accept_invite 5 ''bob'' sample_fresh))) ''bob'' = Some ACTIVE"
proof -
  have d: "distinct (map fst (cv_parts sample_fresh))" by code_simp
  have r: "\<not> has_roster sample_fresh" by code_simp
  have "isl (accept_invite 5 ''bob'' sample_fresh) = False" by code_simp
  then obtain cv' n where "accept_invite 5 ''bob'' sample_fresh = Inr (cv', n)"
    by (cases "accept_invite 5 ''bob'' sample_fresh") auto
  with accept_invite_functional [OF d, where now = 5 and u = "''bob''"] r show ?thesis by simp
qed

section \<open>Removal, addition, ownership\<close>

lemma write_other:
  "write_participant c now parts = Some parts' \<Longrightarrow> u \<noteq> tr_user c \<Longrightarrow> map_of parts' u = map_of parts u"
  by (auto simp: write_participant_def map_add_def split: option.splits if_splits)

lemma apply_other:
  "apply_participant_transitions now cs cv = Inr cv' \<Longrightarrow> u \<notin> tr_user ` set cs \<Longrightarrow>
    map_of (cv_parts cv') u = map_of (cv_parts cv) u"
proof (induction cs arbitrary: cv)
  case Nil
  then show ?case by simp
next
  case (Cons c cs)
  then obtain parts where w: "write_participant c now (cv_parts cv) = Some parts"
    and app: "apply_participant_transitions now cs
      (record_round (tr_user c) (round_change (tr_from c) (tr_to c)) now (cv\<lparr>cv_parts := parts\<rparr>)) = Inr cv'"
    by (auto split: option.splits)
  from Cons.IH [OF app] Cons.prems(2) write_other [OF w, of u] show ?case by simp
qed

lemma change_tx_changed:
  assumes "distinct (map fst (cv_parts cv))" and "distinct (map rq_user requests)"
    and "change_membership_in_transaction now requests oi cv = Inr (cv', cs)" and "c \<in> set cs"
  obtains r where "r \<in> set requests" and "tr_user c = rq_user r" and "meaning cv r = Change (tr_to c)"
proof -
  note plan = change_tx_cases(1) [OF assms(1-3)]
  have "plan_membership_changes rs parts mls wl oi = Inr cs \<Longrightarrow> c \<in> set cs \<Longrightarrow>
      \<exists>r \<in> set rs. tr_user c = rq_user r \<and> request_outcome parts mls wl r = Change (tr_to c)" for rs parts mls wl cs
    by (induction rs arbitrary: cs)
       (fastforce simp: plan_step bind_result_Inr_iff simp del: plan_membership_changes.simps(2)
         split: membership_transition.splits if_splits)+
  from this [OF plan assms(4)] request_outcome_meaning(1) [OF assms(1)] that show thesis by metis
qed

lemma removal_meaning:
  assumes "role_of cv u \<noteq> Some OWNER"
  shows "\<not> is_entitled_to_leaf (case meaning cv \<lparr>rq_user = u, rq_event = REMOVE\<rparr> of
    Change t \<Rightarrow> Some t | _ \<Rightarrow> state_of cv u)"
proof (cases "state_of cv u")
  case None
  with assms show ?thesis
    by (simp add: meaning_def planned_transition_def resolve_membership_transition_def mls_only_events_def)
next
  case (Some s)
  with assms show ?thesis
    by (cases s; cases "has_roster cv"; cases "u \<in> set (leaf_users cv)")
       (simp_all add: meaning_def planned_transition_def resolve_membership_transition_def
         mls_only_events_def Let_def)
qed

text \<open>
  An owner cannot be removed: a removal that includes owners leaves their participant rows exactly as
  they were, whoever asks, and still removes the others.
\<close>
theorem owner_never_removed:
  assumes "distinct (map fst (cv_parts cv))" and "remove_members now users actor cv = Inr (cv', n)"
  shows "if role_of cv u = Some OWNER \<or> u \<notin> set users
    then map_of (cv_parts cv') u = map_of (cv_parts cv) u
    else \<not> is_entitled_to_leaf (state_of cv' u)"
  using assms(2)
proof (cases rule: remove_membersE)
  case (1 cs)
  let ?rs = "dedupe_by_user (map (\<lambda>u. \<lparr>rq_user = u, rq_event = REMOVE\<rparr>) users)"
  note d = dedupe_by_user_facts(1) [of "map (\<lambda>u. \<lparr>rq_user = u, rq_event = REMOVE\<rparr>) users"]
  have rs: "r \<in> set ?rs \<Longrightarrow> rq_event r = REMOVE \<and> rq_user r \<in> set users" for r
    using dedupe_by_user_facts(2) [of "map (\<lambda>u. \<lparr>rq_user = u, rq_event = REMOVE\<rparr>) users"] by auto
  note app = change_tx_cases(2) [OF assms(1) d 1(1)]
  have same: "map_of (cv_parts cv') u = map_of (cv_parts cv) u" if "role_of cv u = Some OWNER \<or> u \<notin> set users"
  proof (rule apply_other [OF app], rule)
    assume "u \<in> tr_user ` set cs"
    then obtain c where "c \<in> set cs" "tr_user c = u" by auto
    then obtain r where "r \<in> set ?rs" "u = rq_user r" "meaning cv r = Change (tr_to c)"
      using change_tx_changed [OF assms(1) d 1(1)] by metis
    with that rs show False by (auto simp: meaning_def)
  qed
  have gone: "\<not> is_entitled_to_leaf (state_of cv' u)" if "role_of cv u \<noteq> Some OWNER" "u \<in> set users"
  proof -
    have "u \<in> rq_user ` set ?rs" using that(2) unfolding dedupe_by_user_facts(3) by force
    then obtain r where r: "find (\<lambda>r. rq_user r = u) ?rs = Some r"
      by (cases "find (\<lambda>r. rq_user r = u) ?rs") (auto simp: find_None_iff)
    then have "r \<in> set ?rs" "rq_user r = u" by (auto simp: find_Some_iff)
    with rs have ev: "rq_event r = REMOVE" "rq_user r = u" by auto
    have "state_of cv' u = state_after cv ?rs u"
      using change_tx_functional [OF assms(1) d, where now = now and oi = Throw] 1(1) by simp
    also have "\<dots> = (case meaning cv r of Change t \<Rightarrow> Some t | _ \<Rightarrow> state_of cv u)"
      using r by (simp add: state_after_def)
    finally have st: "state_of cv' u = (case meaning cv r of Change t \<Rightarrow> Some t | _ \<Rightarrow> state_of cv u)" .
    have "r = \<lparr>rq_user = u, rq_event = REMOVE\<rparr>" using ev by simp
    with st removal_meaning [OF that(1)] show ?thesis by simp
  qed
  show ?thesis using same gone by auto
qed

theorem owner_never_removed_witness:
  "state_of (fst (result_of (remove_members 5 [''ann'', ''bob''] None sample_group))) ''ann'' = Some ACTIVE
   \<and> \<not> is_entitled_to_leaf (state_of (fst (result_of (remove_members 5 [''ann'', ''bob''] None sample_group))) ''bob'')"
proof -
  have d: "distinct (map fst (cv_parts sample_group))" by code_simp
  have "isl (remove_members 5 [''ann'', ''bob''] None sample_group) = False" by code_simp
  then obtain cv' n where run: "remove_members 5 [''ann'', ''bob''] None sample_group = Inr (cv', n)"
    by (cases "remove_members 5 [''ann'', ''bob''] None sample_group") auto
  have roles: "role_of sample_group ''ann'' = Some OWNER" "role_of sample_group ''bob'' \<noteq> Some OWNER"
    "state_of sample_group ''ann'' = Some ACTIVE" by code_simp+
  from owner_never_removed [OF d run, of "''ann''"] owner_never_removed [OF d run, of "''bob''"] roles run
  show ?thesis by (simp add: state_of_def)
qed

lemma addition_meaning:
  assumes "rq_event r = ADD_DIRECT \<or> rq_event r = ADD_INVITE"
  shows "meaning cv r \<noteq> Illegal"
    and "is_entitled_to_leaf (case meaning cv r of Change t \<Rightarrow> Some t | _ \<Rightarrow> state_of cv (rq_user r))"
    and "meaning cv r = Change t \<Longrightarrow> t \<in> {ACTIVE, JOINING, PENDING}"
proof -
  have "meaning cv r \<noteq> Illegal
    \<and> is_entitled_to_leaf (case meaning cv r of Change t \<Rightarrow> Some t | _ \<Rightarrow> state_of cv (rq_user r))
    \<and> (\<forall>t. meaning cv r = Change t \<longrightarrow> t \<in> {ACTIVE, JOINING, PENDING})"
  proof (cases "state_of cv (rq_user r)")
    case None
    with assms show ?thesis
      by (elim disjE; cases "has_roster cv"; cases "rq_user r \<in> set (leaf_users cv)")
         (simp_all add: meaning_def planned_transition_def resolve_membership_transition_def
           mls_only_events_def Let_def)
  next
    case (Some s)
    with assms show ?thesis
      by (elim disjE; cases s; cases "has_roster cv"; cases "rq_user r \<in> set (leaf_users cv)")
         (simp_all add: meaning_def planned_transition_def resolve_membership_transition_def
           mls_only_events_def Let_def)
  qed
  then show "meaning cv r \<noteq> Illegal"
    and "is_entitled_to_leaf (case meaning cv r of Change t \<Rightarrow> Some t | _ \<Rightarrow> state_of cv (rq_user r))"
    and "meaning cv r = Change t \<Longrightarrow> t \<in> {ACTIVE, JOINING, PENDING}" by auto
qed

lemma added_events_ok:
  assumes "\<forall>c \<in> set cs. tr_to c \<in> {ACTIVE, JOINING, PENDING}"
  shows "added_events actor cs = Inr (map (\<lambda>c. \<lparr>pa_addedUser = tr_user c, pa_actor = actor, pa_state = tr_to c\<rparr>) cs)"
  using assms by (induction cs) (auto simp: to_added_participant_state_def)

text \<open>
  Adding members never fails on a state: the only refusals are an actor who is no longer an active
  member and a group that would exceed 100 people. On success everyone asked for is entitled to a
  device in the group, one event is published per person whose state changed, and the size limit
  holds whenever anyone was added.
\<close>
theorem add_members_functional:
  assumes "distinct (map fst (cv_parts cv))"
  shows "case add_members now members actor cv of
      Inr (cv', evs, n) \<Rightarrow> state_of cv actor = Some ACTIVE
        \<and> set (map fst members) \<subseteq> {u. is_entitled_to_leaf (state_of cv' u)}
        \<and> length evs = n \<and> (n = 0 \<or> count_group_members cv' \<le> 100)
    | Inl x \<Rightarrow> x = Forbidden (Chat Your_role_in_this_group_changed)
        \<or> x = BadRequest (Chat Group_can_have_at_most_100_members)"
proof -
  let ?rs = "add_requests members"
  note d = add_requests_facts(1) [of members]
  have legal: "meaning cv r \<noteq> Illegal" if "r \<in> set ?rs" for r
    by (rule addition_meaning(1) [OF add_requests_facts(2) [OF that]])
  obtain cv1 cs where tx: "change_membership_in_transaction now ?rs Throw cv = Inr (cv1, cs)"
    and st: "\<And>u. state_of cv1 u = state_after cv ?rs u"
  proof (cases "change_membership_in_transaction now ?rs Throw cv")
    case (Inl x)
    with change_tx_functional [OF assms d, where now = now and oi = Throw] legal show thesis by auto
  next
    case (Inr res)
    with change_tx_functional [OF assms d, where now = now and oi = Throw] that show thesis
      by (cases res) auto
  qed
  have ent: "is_entitled_to_leaf (state_of cv1 u)" if "u \<in> fst ` set members" for u
  proof -
    have "u \<in> rq_user ` set ?rs" using that by (simp add: add_requests_facts(3))
    then obtain r where r: "find (\<lambda>r. rq_user r = u) ?rs = Some r"
      by (cases "find (\<lambda>r. rq_user r = u) ?rs") (auto simp: find_None_iff)
    then have "r \<in> set ?rs" "rq_user r = u" by (auto simp: find_Some_iff)
    moreover from calculation have
      "is_entitled_to_leaf (case meaning cv r of Change t \<Rightarrow> Some t | _ \<Rightarrow> state_of cv (rq_user r))"
      using addition_meaning(2) [OF add_requests_facts(2)] by blast
    moreover have "state_of cv1 u = (case meaning cv r of Change t \<Rightarrow> Some t | _ \<Rightarrow> state_of cv u)"
      using r st [of u] by (simp add: state_after_def)
    ultimately show ?thesis by metis
  qed
  have evs: "added_events actor cs =
      Inr (map (\<lambda>c. \<lparr>pa_addedUser = tr_user c, pa_actor = actor, pa_state = tr_to c\<rparr>) cs)"
  proof (rule added_events_ok, rule ballI)
    fix c assume "c \<in> set cs"
    from change_tx_changed [OF assms d tx this] obtain r where "r \<in> set ?rs" "meaning cv r = Change (tr_to c)" .
    then show "tr_to c \<in> {ACTIVE, JOINING, PENDING}"
      using addition_meaning(3) add_requests_facts(2) by blast
  qed
  have unfold: "add_members now members actor cv =
      bind_result (lock_and_assert_actor_role actor group_member_roles cv) (\<lambda>_.
        if cs \<noteq> [] \<and> count_group_members cv1 > max_group_members
        then Inl (BadRequest (Chat Group_can_have_at_most_100_members))
        else Inr (cv1, map (\<lambda>c. \<lparr>pa_addedUser = tr_user c, pa_actor = actor, pa_state = tr_to c\<rparr>) cs, length cs))"
    unfolding add_members_def in_transaction_as_role_def Let_def add_requests_def [symmetric]
    by (simp add: tx evs require_def)
  have lock: "lock_and_assert_actor_role actor group_member_roles cv = Inr () \<Longrightarrow> state_of cv actor = Some ACTIVE"
    "lock_and_assert_actor_role actor group_member_roles cv = Inl x \<Longrightarrow>
      x = Forbidden (Chat Your_role_in_this_group_changed)" for x
    by (auto simp: lock_and_assert_actor_role_def state_of_def split: option.splits)
  show ?thesis
    using ent lock unfolding unfold
    by (cases "lock_and_assert_actor_role actor group_member_roles cv") (auto simp: max_group_members_def)
qed

theorem add_members_functional_witness:
  "is_entitled_to_leaf (state_of (fst (result_of
     (add_members 5 [(''eve'', DIRECT), (''gus'', INVITE)] ''fay'' sample_group))) ''gus'')"
proof -
  have d: "distinct (map fst (cv_parts sample_group))" by code_simp
  have "isl (add_members 5 [(''eve'', DIRECT), (''gus'', INVITE)] ''fay'' sample_group) = False" by code_simp
  then obtain cv' evs n where
    "add_members 5 [(''eve'', DIRECT), (''gus'', INVITE)] ''fay'' sample_group = Inr (cv', evs, n)"
    by (cases "add_members 5 [(''eve'', DIRECT), (''gus'', INVITE)] ''fay'' sample_group") auto
  with add_members_functional [OF d, where now = 5 and actor = "''fay''"
      and members = "[(''eve'', DIRECT), (''gus'', INVITE)]"]
  show ?thesis by simp
qed

text \<open>
  Adding back a member whose removal no Commit has carried out yet cancels the removal: both
  requests succeed and everyone is in the state they started in.
\<close>
theorem re_adding_cancels_removal:
  assumes ok: "conv_ok cv" and "state_of cv u = Some ACTIVE" and "role_of cv u \<noteq> Some OWNER"
    and "u \<in> set (leaf_users cv)"
  shows "\<exists>cv1 cv2 m n. remove_members now [u] None cv = Inr (cv1, m) \<and> state_of cv1 u = Some LEAVING
    \<and> reopen_direct later u cv1 = Inr (cv2, n) \<and> state_of cv2 = state_of cv"
proof -
  note keys = conv_okD(1) [OF ok]
  have hr: "has_roster cv" by (rule leaf_users_roster [OF assms(4)])
  let ?rm = "\<lparr>rq_user = u, rq_event = REMOVE\<rparr>" and ?ad = "\<lparr>rq_user = u, rq_event = ADD_DIRECT\<rparr>"
  have d: "dedupe_by_user [?rm] = [?rm]" "dedupe_by_user [?ad] = [?ad]" by (simp_all add: dedupe_id)
  have m1: "meaning cv ?rm = Change LEAVING"
    using assms hr by (simp add: meaning_def planned_transition_def resolve_membership_transition_def
        mls_only_events_def Let_def)
  have same: "remove_members now [u] None cv = change now [?rm] Throw cv"
    by (simp add: remove_members_def d Let_def)
  obtain cv1 m where r1: "remove_members now [u] None cv = Inr (cv1, m)"
    and st1: "\<And>v. state_of cv1 v = state_after cv [?rm] v"
    unfolding same
    using change_functional [OF keys, where now = now and requests = "[?rm]" and oi = Throw] m1 d
    by (cases "change now [?rm] Throw cv") auto
  have leaving: "state_of cv1 = (state_of cv)(u \<mapsto> LEAVING)"
    using m1 by (auto simp: st1 state_after_def fun_eq_iff)
  have ok1: "conv_ok cv1" by (rule remove_members_keeps [OF ok r1])
  have rows: "has_roster cv1" "u \<in> set (leaf_users cv1)"
    using conv_okD(6) [OF ok1, of u] leaving leaf_users_roster by auto
  have m2: "meaning cv1 ?ad = Change ACTIVE"
    using leaving rows by (simp add: meaning_def planned_transition_def resolve_membership_transition_def
        mls_only_events_def Let_def)
  then obtain cv2 n where r2: "reopen_direct later u cv1 = Inr (cv2, n)"
    and st2: "\<And>v. state_of cv2 v = state_after cv1 [?ad] v"
    using change_functional [OF conv_okD(1) [OF ok1], where now = later and requests = "[?ad]" and oi = Throw] d
    by (cases "change later [?ad] Throw cv1") (auto simp: reopen_direct_def)
  have "state_of cv2 = state_of cv"
    using m2 leaving assms(2) by (auto simp: st2 state_after_def fun_eq_iff)
  with r1 r2 leaving show ?thesis by auto
qed

theorem re_adding_cancels_removal_witness:
  "\<exists>cv1 cv2 m n. remove_members 5 [''fay''] None sample_group = Inr (cv1, m)
    \<and> state_of cv1 ''fay'' = Some LEAVING
    \<and> reopen_direct 6 ''fay'' cv1 = Inr (cv2, n) \<and> state_of cv2 = state_of sample_group"
proof (rule re_adding_cancels_removal [OF sample_group_ok])
  show "state_of sample_group ''fay'' = Some ACTIVE" "role_of sample_group ''fay'' \<noteq> Some OWNER"
    "''fay'' \<in> set (leaf_users sample_group)" by code_simp+
qed

end
