(* ===== verification/Group_Properties.thy ===== *)
theory Group_Properties
  imports Membership_Properties
begin

text \<open>
  What holds of every conversation the system can reach: the rows' invariant and the integrity
  sweep's view of it, the single owner, the invitation clock, the append-only log; and the two
  writes that break the contract of the others.
\<close>

section \<open>The invariant over every reachable conversation\<close>

text \<open>
  C1. In every conversation reachable from a new one, by any interleaving of the requests of members,
  devices and the expiry job, those that bypass the state machine or the row lock included, the rows are
  consistent: one live leaf per device, leaf rows added before they are removed, one accepted Commit
  per past epoch, nobody waiting for a Commit that has nothing to do (\<open>JOINING\<close> only in an MLS group
  and without a leaf, \<open>LEAVING\<close> only with one), and no leaf of somebody who is \<open>JOINING\<close> or not a
  participant, nor, in a group, of somebody who is \<open>DECLINED\<close>.
\<close>
theorem reachable_conversation_ok:
  assumes "fresh_conversation cv0" and "conversation_step\<^sup>*\<^sup>* cv0 cv"
  shows "conv_ok cv"
  using conv_machine.inv_reachable [OF assms] .

theorem reachable_conversation_ok_witness:
  "conv_ok sample_blocked \<and> set (leaf_users sample_blocked) = {''ann'', ''bob''}"
proof
  have "conversation_step (sample_founded False) sample_blocked"
    by (rule conversation_step.block [OF sample_blocked_run]) simp
  with sample_founded_run [of False] show "conv_ok sample_blocked"
    by (intro reachable_conversation_ok [OF sample_started_fresh [of False]]) (rule rtranclp.rtrancl_into_rtrancl, rule r_into_rtranclp)
  show "set (leaf_users sample_blocked) = {''ann'', ''bob''}" by code_simp
qed

section \<open>Leaves of outsiders\<close>





















section \<open>One owner, and the clock of an invitation\<close>

definition owners :: "conversation \<Rightarrow> user_id list" where
  "owners cv = map fst (filter (\<lambda>(u, p). pt_role p = OWNER) (cv_parts cv))"

definition clock_ok :: "participant \<Rightarrow> bool" where
  "clock_ok p \<longleftrightarrow> (pt_pendingSince p \<noteq> None \<longleftrightarrow> pt_state p = PENDING)"

definition clocks_ok :: "conversation \<Rightarrow> bool" where
  "clocks_ok cv \<longleftrightarrow> (\<forall>(u, p) \<in> set (cv_parts cv). clock_ok p)"

text \<open>What a write may do to one participant's row: never make an owner, never break its clock.\<close>

definition row_follows :: "participant option \<Rightarrow> participant option \<Rightarrow> bool" where
  "row_follows old new = (case new of None \<Rightarrow> True | Some q \<Rightarrow>
     (case old of
        None \<Rightarrow> pt_role q \<noteq> OWNER \<and> clock_ok q
      | Some p \<Rightarrow> (pt_role q = OWNER \<longrightarrow> pt_role p = OWNER) \<and> (clock_ok p \<longrightarrow> clock_ok q)))"

definition rows_follow :: "conversation \<Rightarrow> conversation \<Rightarrow> bool" where
  "rows_follow cv cv' \<longleftrightarrow> (\<forall>u. row_follows (map_of (cv_parts cv) u) (map_of (cv_parts cv') u))"

lemma rows_follow_same: "cv_parts cv' = cv_parts cv \<Longrightarrow> rows_follow cv cv'"
  by (simp add: rows_follow_def row_follows_def split: option.splits)

lemma row_follows_trans: "row_follows a b \<Longrightarrow> row_follows b c \<Longrightarrow> row_follows a c"
  by (cases a; cases b; cases c) (auto simp: row_follows_def)

lemma rows_follow_trans: "rows_follow a b \<Longrightarrow> rows_follow b c \<Longrightarrow> rows_follow a c"
  unfolding rows_follow_def using row_follows_trans by blast

lemma rows_follow_write:
  assumes "write_participant c now (cv_parts cv) = Some parts" and "cv_parts cv' = parts"
  shows "rows_follow cv cv'"
proof -
  have "row_follows (map_of (cv_parts cv) u) (map_of parts u)" for u
  proof (cases "u = tr_user c")
    case True
    then show ?thesis using assms(1)
      by (auto simp: write_participant_def row_follows_def created_participant_def updated_participant_def
          clock_ok_def pending_since_change_def Let_def split: option.splits if_splits)
  next
    case False
    then show ?thesis by (simp add: write_other [OF assms(1)] row_follows_def split: option.splits)
  qed
  with assms(2) show ?thesis by (simp add: rows_follow_def)
qed

lemma rows_follow_apply: "apply_participant_transitions now cs cv = Inr cv' \<Longrightarrow> rows_follow cv cv'"
proof (induction cs arbitrary: cv)
  case Nil
  then show ?case by (simp add: rows_follow_same)
next
  case (Cons c cs)
  then obtain parts where w: "write_participant c now (cv_parts cv) = Some parts"
    and app: "apply_participant_transitions now cs
      (record_round (tr_user c) (round_change (tr_from c) (tr_to c)) now (cv\<lparr>cv_parts := parts\<rparr>)) = Inr cv'"
    by (auto split: option.splits)
  show ?case
    by (rule rows_follow_trans [OF rows_follow_write [OF w] Cons.IH [OF app]]) simp
qed

lemma rows_follow_update:
  assumes "cv_parts cv' = AList.update u q (cv_parts cv)" and "row_follows (map_of (cv_parts cv) u) (Some q)"
  shows "rows_follow cv cv'"
  using assms by (auto simp: rows_follow_def row_follows_def split: option.splits)

lemma rows_follow_change: "change now requests oi cv = Inr (cv', n) \<Longrightarrow> rows_follow cv cv'"
  by (auto simp: change_unfold change_tx_unfold bind_result_Inr_iff intro: rows_follow_apply split: sum.splits)

lemma rows_follow_add: "add_members now members actor cv = Inr (cv', evs, n) \<Longrightarrow> rows_follow cv cv'"
  by (auto elim!: add_membersE simp: change_tx_unfold bind_result_Inr_iff
      intro: rows_follow_apply rows_follow_same)

lemma rows_follow_remove: "remove_members now users actor cv = Inr (cv', n) \<Longrightarrow> rows_follow cv cv'"
  by (auto elim!: remove_membersE simp: change_tx_unfold bind_result_Inr_iff intro: rows_follow_apply)

lemma rows_follow_commit:
  assumes "accept_commit reg now c cv = Inr (cv', res)"
  shows "rows_follow cv cv'"
  using assms
proof (cases rule: accept_commit_cases)
  case (1 h)
  then obtain cv1 added removed where
    ch: "apply_membership_change reg now c (advance cv) = Inr (cv1, added, removed)"
    and cv': "cv_parts cv' = cv_parts cv1"
    unfolding commit_transaction_def Let_def advance_def [symmetric]
    by (cases "ca_groupInfo c")
       (auto simp: bind_result_Inr_iff create_handshake_def save_group_info_def split: option.splits)
  then obtain cv2 n cv3 cv4 ts where r: "remove_leaves (ca_removed c) (ca_epoch c + 1) (advance cv) = Inr (cv2, n)"
    and f: "(if has_roster cv then Inr cv2 else add_leaves (founder_leaf c (advance cv)) 0 cv2) = Inr cv3"
    and g: "add_leaves (added_leaves reg c) (ca_epoch c + 1) cv3 = Inr cv4"
    and ap: "apply_participant_transitions now ts cv4 = Inr cv1"
    unfolding apply_membership_change_unfold by (auto simp: bind_result_Inr_iff)
  have "cv_parts cv3 = cv_parts cv2"
    using f roster_frame(1) [OF add_leaves_frame] by (auto split: if_splits)
  then have "cv_parts cv4 = cv_parts cv"
    using roster_frame(1) [OF add_leaves_frame [OF g]] roster_frame(1) [OF remove_leaves_frame [OF r]] by simp
  with rows_follow_apply [OF ap] cv' show ?thesis by (simp add: rows_follow_def)
qed (simp add: rows_follow_same)

lemma rows_follow_leave:
  assumes "leave_group now u seen cv = Inr cv'"
  shows "rows_follow cv cv'"
proof -
  have "rows_follow cv cv'" if "map_sum id fst (remove_members now [u] None cv) = Inr cv'"
    using that rows_follow_remove by (cases "remove_members now [u] None cv") auto
  moreover have "rows_follow cv cv'" if "close_sole_owner_group u (cv_epoch seen) cv = Inr cv'"
    using that
  proof (cases rule: close_sole_ownerE)
    case (1 p cv1 n)
    have "row_follows (Some p) (Some (p\<lparr>pt_state := DECLINED\<rparr>))"
      using 1(2) by (simp add: row_follows_def clock_ok_def)
    with 1 roster_frame(1) [OF remove_leaves_frame [OF 1(5)]] show ?thesis
      by (intro rows_follow_update) auto
  qed
  ultimately show ?thesis using assms
    by (auto simp: leave_group_def split: option.splits if_splits)
qed

lemma rows_follow_writes:
  "update_archived_state now u archived cv = Inr cv' \<Longrightarrow> rows_follow cv cv'"
  "soft_delete_conversation now u cv = Inr cv' \<Longrightarrow> rows_follow cv cv'"
  by (auto simp: update_archived_state_def soft_delete_conversation_def rows_follow_def row_follows_def
      clock_ok_def split: option.splits if_splits)

lemma rows_follow_role:
  "update_group_member_role u v r seen cv = Inr cv' \<Longrightarrow> r \<in> {MEMBER, ADMIN} \<Longrightarrow> rows_follow cv cv'"
  by (auto simp: update_group_member_role_def in_transaction_as_role_def bind_result_Inr_iff
      update_participant_role_def rows_follow_def row_follows_def clock_ok_def split: option.splits if_splits)

lemma rows_follow_stamp:
  assumes "stamp_missing_pending_since now cv = (cv', n)"
  shows "rows_follow cv cv'"
proof -
  have "map_of (cv_parts cv') v = map_option (\<lambda>p. if pt_state p = PENDING \<and> pt_pendingSince p = None
      then p\<lparr>pt_pendingSince := Some now\<rparr> else p) (map_of (cv_parts cv) v)" for v
    using assms by (auto simp: stamp_missing_pending_since_def Let_def map_of_map comp_def)
  then show ?thesis
    by (auto simp: rows_follow_def row_follows_def clock_ok_def split: option.splits)
qed

lemma rows_follow_unlocked:
  "change_beside now requests oi seen cv = Inr (cv', n) \<Longrightarrow> rows_follow cv cv'"
  "block_conversation now u seen cv = Inr (cv', other) \<Longrightarrow> rows_follow cv cv'"
  "rows_follow cv (restore_deleted_participants users cv)"
proof -
  show "rows_follow cv cv'" if "change_beside now requests oi seen cv = Inr (cv', n)"
    using that by (auto simp: change_beside_unfold bind_result_Inr_iff intro: rows_follow_apply)
  show "rows_follow cv cv'" if "block_conversation now u seen cv = Inr (cv', other)"
  proof -
    from that have "cv' = cv \<or> (\<exists>p. map_of (cv_parts cv) u = Some p \<and> cv' = cv\<lparr>cv_parts := AList.update u
        (p\<lparr>pt_state := DECLINED, pt_pendingSince := None\<rparr>) (cv_parts cv)\<rparr>)"
      by (auto simp: block_conversation_def bind_result_Inr_iff update_participant_state_def
          split: option.splits if_splits)
    then show ?thesis
    proof (elim disjE exE conjE)
      fix p assume "map_of (cv_parts cv) u = Some p"
      then have "row_follows (map_of (cv_parts cv) u) (Some (p\<lparr>pt_state := DECLINED, pt_pendingSince := None\<rparr>))"
        by (simp add: row_follows_def clock_ok_def)
      moreover assume "cv' = cv\<lparr>cv_parts := AList.update u
        (p\<lparr>pt_state := DECLINED, pt_pendingSince := None\<rparr>) (cv_parts cv)\<rparr>"
      ultimately show ?thesis by (intro rows_follow_update) simp_all
    qed (simp add: rows_follow_same)
  qed
  show "rows_follow cv (restore_deleted_participants users cv)"
    by (auto simp: rows_follow_def row_follows_def restore_parts(2) clock_ok_def split: option.splits)
qed

text \<open>Every step but a transfer of ownership is such a write.\<close>

lemma step_rows_follow:
  assumes "conversation_step cv cv'" and "\<And>u v seen. transfer_ownership u v seen cv \<noteq> Inr cv'"
  shows "rows_follow cv cv'"
proof -
  have same: "same_membership cv cv' \<Longrightarrow> rows_follow cv cv'"
    by (rule rows_follow_same) (simp add: same_membership_def)
  show ?thesis
    using assms(1)
  proof (cases rule: conversation_step.cases)
    case (commit lib sha reg now u cid dto seen resp)
    from commit(1) show ?thesis by (cases rule: submit_handshakeE) (rule rows_follow_commit)
  next
    case (join lib sha reg now u cid dto' seen resp)
    from join(1) show ?thesis by (cases rule: submit_external_joinE) (rule rows_follow_commit)
  next
    case (transfer u v seen)
    with assms(2) show ?thesis by simp
  next
    case lease
    then show ?thesis using same lease_same by blast
  next
    case (beside now requests oi seen n)
    show ?thesis by (rule rows_follow_unlocked(1) [OF beside(1)])
  next
    case (block now u seen other)
    show ?thesis by (rule rows_follow_unlocked(2) [OF block(1)])
  next
    case restore
    then show ?thesis using rows_follow_unlocked(3) by simp
  qed (auto simp: accept_invite_def decline_invite_def request_direct_again_def reopen_direct_def
      expire_invites_def intro: rows_follow_change rows_follow_add rows_follow_remove rows_follow_writes
      rows_follow_role rows_follow_stamp rows_follow_leave same report_fault_same consume_same release_same)
qed

definition one_owner :: "conversation \<Rightarrow> bool" where
  "one_owner cv \<longleftrightarrow> length (owners cv) \<le> 1"

lemma in_owners:
  assumes "distinct (map fst (cv_parts cv))"
  shows "u \<in> set (owners cv) \<longleftrightarrow> role_of cv u = Some OWNER" and "distinct (owners cv)"
proof -
  show "u \<in> set (owners cv) \<longleftrightarrow> role_of cv u = Some OWNER"
    using assms by (force simp: owners_def role_of_def map_of_eq_Some_iff)
  show "distinct (owners cv)"
    using assms unfolding owners_def by (rule distinct_map_filter)
qed

lemma one_owner_iff:
  assumes "distinct (map fst (cv_parts cv))"
  shows "one_owner cv \<longleftrightarrow> (\<forall>u v. role_of cv u = Some OWNER \<longrightarrow> role_of cv v = Some OWNER \<longrightarrow> u = v)"
proof
  assume "one_owner cv"
  then have "owners cv = [] \<or> (\<exists>x. owners cv = [x])"
    by (cases "owners cv" rule: remdups_adj.cases) (auto simp: one_owner_def)
  then show "\<forall>u v. role_of cv u = Some OWNER \<longrightarrow> role_of cv v = Some OWNER \<longrightarrow> u = v"
    using in_owners(1) [OF assms] by (metis empty_iff empty_set list.set(2) singletonD)
next
  assume eq: "\<forall>u v. role_of cv u = Some OWNER \<longrightarrow> role_of cv v = Some OWNER \<longrightarrow> u = v"
  show "one_owner cv"
  proof (cases "owners cv")
    case Nil
    then show ?thesis by (simp add: one_owner_def)
  next
    case (Cons x xs)
    then have "set (owners cv) \<subseteq> {x}" using eq in_owners(1) [OF assms] by auto
    then have "card (set (owners cv)) \<le> 1" using card_mono [of "{x}" "set (owners cv)"] by simp
    then show ?thesis using in_owners(2) [OF assms] by (simp add: one_owner_def distinct_card)
  qed
qed

lemma rows_follow_role_of:
  "rows_follow cv cv' \<Longrightarrow> role_of cv' u = Some OWNER \<Longrightarrow> role_of cv u = Some OWNER"
  unfolding rows_follow_def role_of_def
  by (drule spec [of _ u]) (auto simp: row_follows_def split: option.splits)

lemma clocks_ok_iff:
  assumes "distinct (map fst (cv_parts cv))"
  shows "clocks_ok cv \<longleftrightarrow> (\<forall>u p. map_of (cv_parts cv) u = Some p \<longrightarrow> clock_ok p)"
  using assms by (auto simp: clocks_ok_def map_of_eq_Some_iff)

lemma rows_follow_clocks:
  assumes "rows_follow cv cv'" and "\<forall>u p. map_of (cv_parts cv) u = Some p \<longrightarrow> clock_ok p"
    and "map_of (cv_parts cv') u = Some q"
  shows "clock_ok q"
  using assms unfolding rows_follow_def
  by (elim allE [of _ u]) (auto simp: row_follows_def split: option.splits)

lemma transfer_effect:
  assumes "transfer_ownership u v seen cv = Inr cv'"
  obtains p q where "u \<noteq> v" and "map_of (cv_parts cv) v = Some p" and "map_of (cv_parts cv) u = Some q"
    and "pt_role q = OWNER" and "pt_state p = ACTIVE"
    and "map_of (cv_parts cv') = (map_of (cv_parts cv))(v \<mapsto> p\<lparr>pt_role := OWNER\<rparr>, u \<mapsto> q\<lparr>pt_role := ADMIN\<rparr>)"
  using assms
  by (auto simp: transfer_ownership_def transfer_group_ownership_def bind_result_Inr_iff update_conv'
      split: option.splits if_splits)

definition rows_ok :: "conversation \<Rightarrow> bool" where
  "rows_ok cv \<longleftrightarrow> conv_ok cv \<and> one_owner cv \<and> clocks_ok cv"

lemma step_rows_ok:
  assumes ok: "rows_ok cv" and step: "conversation_step cv cv'"
  shows "rows_ok cv'"
proof -
  have conv: "conv_ok cv" "conv_ok cv'"
    using ok conversation_step_keeps [OF _ step] by (auto simp: rows_ok_def)
  note keys = conv_okD(1) [OF conv(1)] conv_okD(1) [OF conv(2)]
  have one: "role_of cv x = Some OWNER \<Longrightarrow> role_of cv y = Some OWNER \<Longrightarrow> x = y" for x y
    using ok one_owner_iff [OF keys(1)] by (simp add: rows_ok_def)
  have clock: "\<forall>u p. map_of (cv_parts cv) u = Some p \<longrightarrow> clock_ok p"
    using ok clocks_ok_iff [OF keys(1)] by (simp add: rows_ok_def)
  show ?thesis
  proof (cases "\<exists>u v seen. transfer_ownership u v seen cv = Inr cv'")
    case True
    then obtain u v seen where "transfer_ownership u v seen cv = Inr cv'" by blast
    then obtain p q where t: "u \<noteq> v" "map_of (cv_parts cv) v = Some p" "map_of (cv_parts cv) u = Some q"
      "pt_role q = OWNER"
      "map_of (cv_parts cv') = (map_of (cv_parts cv))(v \<mapsto> p\<lparr>pt_role := OWNER\<rparr>, u \<mapsto> q\<lparr>pt_role := ADMIN\<rparr>)"
      by (rule transfer_effect)
    have v: "x = v" if "role_of cv' x = Some OWNER" for x
    proof (rule ccontr)
      assume "x \<noteq> v"
      with that t(5) have "x \<noteq> u" "role_of cv x = Some OWNER" by (auto simp: role_of_def split: if_splits)
      moreover have "role_of cv u = Some OWNER" using t(3,4) by (simp add: role_of_def)
      ultimately show False using one by blast
    qed
    have "one_owner cv'" unfolding one_owner_iff [OF keys(2)] by (blast dest: v)
    moreover have "clocks_ok cv'"
      unfolding clocks_ok_iff [OF keys(2)] using t(2,3,5) clock by (auto simp: clock_ok_def)
    ultimately show ?thesis using conv(2) by (simp add: rows_ok_def)
  next
    case False
    then have f: "rows_follow cv cv'" using step_rows_follow [OF step] by blast
    have "one_owner cv'"
      unfolding one_owner_iff [OF keys(2)] by (intro allI impI one rows_follow_role_of [OF f])
    moreover have "clocks_ok cv'"
      unfolding clocks_ok_iff [OF keys(2)] using rows_follow_clocks [OF f clock] by blast
    ultimately show ?thesis using conv(2) by (simp add: rows_ok_def)
  qed
qed

interpretation row_machine: state_machine
  "\<lambda>cv. fresh_conversation cv \<and> one_owner cv \<and> clocks_ok cv" conversation_step rows_ok
  by unfold_locales (auto simp: rows_ok_def intro: fresh_conversation_ok dest: step_rows_ok [rotated])

text \<open>
  C9. A group never has two owners, and a participant's invitation clock runs exactly while they are
  invited: from a conversation with at most one owner whose clocks are right, no interleaving of
  requests (stale snapshots included) makes a second owner, leaves a \<open>PENDING\<close> row the expiry job
  would never see, or a running clock on anybody else.
\<close>
theorem one_owner_and_clocks:
  assumes "fresh_conversation cv0" and "length (owners cv0) \<le> 1" and "clocks_ok cv0"
    and "conversation_step\<^sup>*\<^sup>* cv0 cv"
  shows "length (owners cv) \<le> 1 \<and> clocks_ok cv"
  using row_machine.inv_reachable [of cv0 cv] assms by (simp add: one_owner_def rows_ok_def)

theorem one_owner_and_clocks_witness:
  "length (owners (fst (result_of (accept_invite 5 ''bob'' sample_fresh)))) \<le> 1
    \<and> clocks_ok (fst (result_of (accept_invite 5 ''bob'' sample_fresh)))"
proof (rule one_owner_and_clocks [OF sample_fresh_ok])
  show "length (owners sample_fresh) \<le> 1" by code_simp
  show "clocks_ok sample_fresh" by code_simp
  obtain cv' n where run: "accept_invite 5 ''bob'' sample_fresh = Inr (cv', n)"
    using sample_accept_bob by (metis surj_pair)
  then show "conversation_step\<^sup>*\<^sup>* sample_fresh (fst (result_of (accept_invite 5 ''bob'' sample_fresh)))"
    using conversation_step.accept [OF run] by auto
qed

section \<open>The log and the other requests\<close>

text \<open>
  An accepted Commit is final: whatever happens next, the log a client has read stays a prefix of
  the log, so the handshake of a past epoch is the same for every reader, and the epoch is the number
  of Commits in it.
\<close>
theorem accepted_commits_are_final:
  assumes "fresh_conversation cv0" and "conversation_step\<^sup>*\<^sup>* cv0 cv" and "conversation_step\<^sup>*\<^sup>* cv cv'"
  shows "prefix (cv_handshakes cv) (cv_handshakes cv') \<and> cv_epoch cv' = length (cv_handshakes cv')
    \<and> (\<forall>e < cv_epoch cv. cv_handshakes cv' ! e = cv_handshakes cv ! e \<and> hs_epoch (cv_handshakes cv' ! e) = e)"
proof -
  have p: "prefix (cv_handshakes cv) (cv_handshakes cv')"
    using conv_log.grows_reachable [OF assms] by (simp add: log_extends_def)
  have "log_ok cv" "log_ok cv'"
    using conv_machine.inv_reachable [OF assms(1)] assms(2,3) conv_okD(3) by (auto intro: rtranclp_trans)
  then have maps: "map hs_epoch (cv_handshakes cv) = [0..<cv_epoch cv]"
    "map hs_epoch (cv_handshakes cv') = [0..<cv_epoch cv']" by (simp_all add: log_ok_def)
  then have len: "length (cv_handshakes cv) = cv_epoch cv" "length (cv_handshakes cv') = cv_epoch cv'"
    by (metis length_map length_upt minus_nat.diff_0)+
  have "cv_handshakes cv' ! e = cv_handshakes cv ! e \<and> hs_epoch (cv_handshakes cv' ! e) = e"
    if e: "e < cv_epoch cv" for e
  proof -
    have same: "cv_handshakes cv' ! e = cv_handshakes cv ! e"
      using p e len(1) by (auto simp: prefix_def nth_append)
    have "hs_epoch (cv_handshakes cv ! e) = map hs_epoch (cv_handshakes cv) ! e"
      using e len(1) by simp
    also have "\<dots> = e" using e by (simp add: maps(1))
    finally show ?thesis using same by simp
  qed
  then show ?thesis using p len(2) [symmetric] by blast
qed

theorem accepted_commits_are_final_witness:
  "cv_epoch (fst (result_of (accept_invite 5 ''bob'' sample_fresh)))
    = length (cv_handshakes (fst (result_of (accept_invite 5 ''bob'' sample_fresh))))"
proof -
  obtain cv' n where run: "accept_invite 5 ''bob'' sample_fresh = Inr (cv', n)"
    using sample_accept_bob by (metis surj_pair)
  then have "conversation_step\<^sup>*\<^sup>* sample_fresh cv'" using conversation_step.accept by blast
  from accepted_commits_are_final [OF sample_fresh_ok rtranclp.rtrancl_refl this] run show ?thesis by simp
qed

lemma expiry_meaning:
  "state_of cv u = Some PENDING \<Longrightarrow> meaning cv \<lparr>rq_user = u, rq_event = EXPIRE_INVITE\<rparr>
    = Change (if u \<in> set (leaf_users cv) then LEAVING else DECLINED)"
  "state_of cv u \<noteq> Some PENDING \<Longrightarrow> meaning cv \<lparr>rq_user = u, rq_event = EXPIRE_INVITE\<rparr> \<noteq> Change t"
proof -
  have "meaning cv \<lparr>rq_user = u, rq_event = EXPIRE_INVITE\<rparr> = (if state_of cv u = Some PENDING
    then Change (if u \<in> set (leaf_users cv) then LEAVING else DECLINED) else Illegal)"
  proof (cases "state_of cv u")
    case None
    then show ?thesis
      by (simp add: meaning_def planned_transition_def resolve_membership_transition_def mls_only_events_def)
  next
    case (Some s)
    then show ?thesis using leaf_users_roster [of u cv]
      by (cases s; cases "has_roster cv"; cases "u \<in> set (leaf_users cv)")
         (simp_all add: meaning_def planned_transition_def resolve_membership_transition_def
          mls_only_events_def Let_def)
  qed
  then show "state_of cv u = Some PENDING \<Longrightarrow> meaning cv \<lparr>rq_user = u, rq_event = EXPIRE_INVITE\<rparr>
      = Change (if u \<in> set (leaf_users cv) then LEAVING else DECLINED)"
    and "state_of cv u \<noteq> Some PENDING \<Longrightarrow> meaning cv \<lparr>rq_user = u, rq_event = EXPIRE_INVITE\<rparr> \<noteq> Change t"
    by auto
qed

text \<open>
  The expiry job cannot fail and cannot touch anybody who is not invited any more: each listed user
  still \<open>PENDING\<close> under the lock is declined (or waits for the Commit that removes their device), each
  other user keeps their state, whatever list the job read before.
\<close>
theorem expire_invites_functional:
  assumes "distinct (map fst (cv_parts cv))"
  shows "\<exists>cv' n. expire_invites now users cv = Inr (cv', n) \<and> (\<forall>u. state_of cv' u =
    (if u \<in> set users \<and> state_of cv u = Some PENDING
     then Some (if u \<in> set (leaf_users cv) then LEAVING else DECLINED) else state_of cv u))"
proof -
  let ?f = "\<lambda>u. \<lparr>rq_user = u, rq_event = EXPIRE_INVITE\<rparr>"
  let ?rs = "dedupe_by_user (map ?f users)"
  obtain cv' n where run: "change now (map ?f users) Skip cv = Inr (cv', n)"
    and st: "\<And>u. state_of cv' u = state_after cv ?rs u"
    using change_functional [OF assms, where now = now and requests = "map ?f users" and oi = Skip]
    by (cases "change now (map ?f users) Skip cv") auto
  note m = expiry_meaning
  have "state_after cv ?rs u = (if u \<in> set users \<and> state_of cv u = Some PENDING
     then Some (if u \<in> set (leaf_users cv) then LEAVING else DECLINED) else state_of cv u)" for u
  proof (cases "find (\<lambda>r. rq_user r = u) ?rs")
    case None
    then have "u \<notin> set users"
      using dedupe_by_user_facts(3) [of "map ?f users"] unfolding find_None_iff by force
    with None show ?thesis by (simp add: state_after_def)
  next
    case (Some r)
    then have "r \<in> set (map ?f users)" "rq_user r = u"
      using dedupe_by_user_facts(2) [of "map ?f users"] by (auto simp: find_Some_iff)
    then have r: "r = ?f u" "u \<in> set users" by auto
    show ?thesis
    proof (cases "state_of cv u = Some PENDING")
      case True
      then show ?thesis using Some r m(1) [OF True] by (simp add: state_after_def)
    next
      case False
      have "case meaning cv (?f u) of Change t \<Rightarrow> False | _ \<Rightarrow> True"
        using m(2) [OF False] by (cases "meaning cv (?f u)") auto
      then show ?thesis using Some r False
        by (cases "meaning cv (?f u)") (simp_all add: state_after_def)
    qed
  qed
  with run st show ?thesis by (auto simp: expire_invites_def)
qed

theorem expire_invites_functional_witness:
  "\<exists>cv' n. expire_invites 5 [''dan'', ''ann''] sample_group = Inr (cv', n)
    \<and> state_of cv' ''dan'' = Some LEAVING \<and> state_of cv' ''ann'' = Some ACTIVE"
proof -
  have d: "distinct (map fst (cv_parts sample_group))" by code_simp
  have "state_of sample_group ''dan'' = Some PENDING" "state_of sample_group ''ann'' = Some ACTIVE"
    "''dan'' \<in> set (leaf_users sample_group)" by code_simp+
  with expire_invites_functional [OF d, of 5 "[''dan'', ''ann'']"] show ?thesis by auto
qed

section \<open>Two writes that break the contract\<close>

lemma removed_after_added:
  "remove_leaves ids e cv = Inr res \<Longrightarrow> l \<in> set (cv_roster cv) \<Longrightarrow> live l \<Longrightarrow> lf_device l \<in> set ids
    \<Longrightarrow> lf_added l < e"
  by (auto simp: remove_leaves_def Let_def split: if_splits)

text \<open>
  An owner who is the only active member leaves without a Commit: it succeeds exactly when each of
  their live leaves was added before the current epoch, and then no leaf of theirs is left. When the
  last Commit added one of their devices, the database refuses the write (a removal epoch must be
  later than the addition) and the request fails with a server error, however often it is retried.
\<close>
theorem sole_owner_leaves:
  assumes ok: "conv_ok cv" and "cv_group cv" and p: "map_of (cv_parts cv) u = Some p"
    and act: "pt_state p = ACTIVE" and own: "pt_role p = OWNER"
    and alone: "\<forall>(v, q) \<in> set (cv_parts cv). v \<noteq> u \<longrightarrow> pt_state q \<noteq> ACTIVE"
  shows "case leave_group now u cv cv of
      Inr cv' \<Rightarrow> state_of cv' = (state_of cv)(u \<mapsto> DECLINED) \<and> u \<notin> set (leaf_users cv')
        \<and> (\<forall>l \<in> set (cv_roster cv). live l \<and> lf_user l = u \<longrightarrow> lf_added l < cv_epoch cv)
    | Inl x \<Rightarrow> x = ServerError Check_violation
        \<and> (\<exists>l \<in> set (cv_roster cv). live l \<and> lf_user l = u \<and> lf_added l = cv_epoch cv)"
proof -
  let ?cv1 = "cv\<lparr>cv_parts := AList.update u (p\<lparr>pt_state := DECLINED\<rparr>) (cv_parts cv)\<rparr>"
  let ?own = "map fst (filter (\<lambda>l. snd l = u) (find_active_leaves cv))"
  note dist = conv_okD(2) [OF ok]
  have leaves: "find_active_leaves ?cv1 = find_active_leaves cv" by (simp add: find_active_leaves_def)
  have others: "filter (\<lambda>(v, p). v \<noteq> u \<and> pt_state p = ACTIVE) (cv_parts cv) = []"
    using alone by (auto simp: filter_empty_conv)
  have run: "leave_group now u cv cv = (case remove_leaves ?own (cv_epoch cv) ?cv1 of
      Inl x \<Rightarrow> Inl x | Inr (cv2, n) \<Rightarrow> Inr cv2)"
    using assms(2) p act own alone others leaves
    by (auto simp: leave_group_def close_sole_owner_group_def in_transaction_as_role_def
        lock_and_assert_actor_role_def require_def bind_result_def Let_def)
  have mine: "lf_user l = u" if "l \<in> set (cv_roster cv)" "live l" "lf_device l \<in> set ?own" for l
  proof -
    from that(3) have "(lf_device l, u) \<in> set (find_active_leaves cv)" by auto
    moreover have "(lf_device l, lf_user l) \<in> set (find_active_leaves cv)"
      using that(1,2) by (auto simp: in_active_leaves)
    ultimately show ?thesis using dist by (metis eq_key_imp_eq_value)
  qed
  have own_in: "lf_device l \<in> set ?own" if "l \<in> set (cv_roster cv)" "live l" "lf_user l = u" for l
  proof -
    have "(lf_device l, u) \<in> set (find_active_leaves cv)" using that by (auto simp: in_active_leaves)
    then show ?thesis by force
  qed
  have le: "lf_added l \<le> cv_epoch cv" if "l \<in> set (cv_roster cv)" for l
    using ok that by (auto simp: conv_ok_def roster_ok_def epochs_ok_def)
  show ?thesis
  proof (cases "remove_leaves ?own (cv_epoch cv) ?cv1")
    case (Inl x)
    then have x: "x = ServerError Check_violation"
      and "\<exists>l \<in> set (cv_roster cv). live l \<and> lf_device l \<in> set ?own \<and> \<not> lf_added l < cv_epoch cv"
      unfolding remove_leaves_def Let_def by (simp_all split: if_splits) blast
    then obtain l where l: "l \<in> set (cv_roster cv)" "live l" "lf_device l \<in> set ?own"
      "\<not> lf_added l < cv_epoch cv" by blast
    then have "lf_user l = u" "lf_added l = cv_epoch cv" using mine [OF l(1-3)] le [OF l(1)] by auto
    with l(1,2) x Inl run show ?thesis by auto
  next
    case (Inr res)
    then obtain cv2 n where res: "remove_leaves ?own (cv_epoch cv) ?cv1 = Inr (cv2, n)" by (cases res) auto
    have "u \<notin> set (leaf_users cv2)"
      using remove_leaves_active(1) [OF res] own_leaves_filter [OF dist, of u] leaves
      by (auto simp: leaf_users_def)
    moreover have "cv_parts cv2 = cv_parts ?cv1" by (rule roster_frame(1) [OF remove_leaves_frame [OF res]])
    then have "state_of cv2 = (state_of cv)(u \<mapsto> DECLINED)" by (auto simp: state_of_def fun_eq_iff)
    moreover have "lf_added l < cv_epoch cv" if "l \<in> set (cv_roster cv)" "live l" "lf_user l = u" for l
      using removed_after_added [OF res] own_in [OF that] that by simp
    ultimately show ?thesis using run res by auto
  qed
qed

definition sample_alone :: "nat \<Rightarrow> conversation" where
  "sample_alone added = sample_group\<lparr>cv_parts := [(''ann'', person OWNER ACTIVE), (''fay'', person MEMBER ARCHIVED)],
     cv_roster := [leaf ''a1'' ''ann'' 0, leaf ''a2'' ''ann'' added]\<rparr>"

theorem sole_owner_leaves_witness:
  "leave_group 5 ''ann'' (sample_alone 3) (sample_alone 3) = Inl (ServerError Check_violation)
   \<and> (\<exists>cv'. leave_group 5 ''ann'' (sample_alone 2) (sample_alone 2) = Inr cv' \<and> leaf_users cv' = [])"
proof -
  have h: "conv_ok (sample_alone n)" "cv_group (sample_alone n)"
    "map_of (cv_parts (sample_alone n)) ''ann'' = Some (person OWNER ACTIVE)"
    "\<forall>(v, q) \<in> set (cv_parts (sample_alone n)). v \<noteq> ''ann'' \<longrightarrow> pt_state q \<noteq> ACTIVE" if "n = 2 \<or> n = 3" for n
    using that by (elim disjE; hypsubst; code_simp)+
  have p: "pt_state (person OWNER ACTIVE) = ACTIVE" "pt_role (person OWNER ACTIVE) = OWNER" by code_simp+
  have "isl (leave_group 5 ''ann'' (sample_alone 3) (sample_alone 3))" by code_simp
  moreover have "isl (leave_group 5 ''ann'' (sample_alone 2) (sample_alone 2)) = False" by code_simp
  moreover have "leaf_users (result_of (leave_group 5 ''ann'' (sample_alone 2) (sample_alone 2))) = []" by code_simp
  ultimately show ?thesis
    using sole_owner_leaves [OF h(1-3) p h(4), of 3 5] sole_owner_leaves [OF h(1-3) p h(4), of 2 5]
    by (cases "leave_group 5 ''ann'' (sample_alone 3) (sample_alone 3)";
        cases "leave_group 5 ''ann'' (sample_alone 2) (sample_alone 2)") auto
qed

text \<open>
  The sole owner may leave while archived members remain; unarchiving leaves an active member in a
  group nobody owns and nobody may manage.
\<close>

lemma leaving_orphans_archived_members:
  "\<exists>cv' cv''. leave_group 5 ''ann'' (sample_alone 2) (sample_alone 2) = Inr cv'
    \<and> unarchive_conversation 6 ''fay'' cv' cv' = Inr cv''
    \<and> state_of cv'' ''fay'' = Some ACTIVE \<and> state_of cv'' ''ann'' = Some DECLINED
    \<and> (\<forall>(u, p) \<in> set (cv_parts cv''). pt_role p \<noteq> MEMBER \<longrightarrow> pt_state p = DECLINED)"
proof -
  let ?a = "result_of (leave_group 5 ''ann'' (sample_alone 2) (sample_alone 2))"
  let ?b = "result_of (unarchive_conversation 6 ''fay'' ?a ?a)"
  have "isl (leave_group 5 ''ann'' (sample_alone 2) (sample_alone 2)) = False" by code_simp
  then have a: "leave_group 5 ''ann'' (sample_alone 2) (sample_alone 2) = Inr ?a"
    by (cases "leave_group 5 ''ann'' (sample_alone 2) (sample_alone 2)") auto
  have "isl (unarchive_conversation 6 ''fay'' ?a ?a) = False" by code_simp
  then have b: "unarchive_conversation 6 ''fay'' ?a ?a = Inr ?b"
    by (cases "unarchive_conversation 6 ''fay'' ?a ?a") auto
  have "state_of ?b ''fay'' = Some ACTIVE \<and> state_of ?b ''ann'' = Some DECLINED
    \<and> (\<forall>(u, p) \<in> set (cv_parts ?b). pt_role p \<noteq> MEMBER \<longrightarrow> pt_state p = DECLINED)" by code_simp
  with a b show ?thesis by blast
qed

text \<open>
  The epoch an owner closes with is read before the lock. When a Commit lands in between, the removal
  is dated in the past and the roster of an epoch that is over changes.
\<close>

lemma stale_close_rewrites_history:
  "\<exists>cv'. leave_group 5 ''ann'' (sample_alone 0\<lparr>cv_epoch := 1\<rparr>) (sample_alone 0) = Inr cv'
    \<and> 1 < cv_epoch (sample_alone 0)
    \<and> find_leaves_at_epoch (sample_alone 0) 1 = [(''a1'', ''ann''), (''a2'', ''ann'')]
    \<and> find_leaves_at_epoch cv' 1 = []"
proof -
  let ?r = "leave_group 5 ''ann'' (sample_alone 0\<lparr>cv_epoch := 1\<rparr>) (sample_alone 0)"
  have "isl ?r = False" by code_simp
  then have run: "?r = Inr (result_of ?r)" by (cases ?r) auto
  have "find_leaves_at_epoch (result_of ?r) 1 = []" "1 < cv_epoch (sample_alone 0)"
    "find_leaves_at_epoch (sample_alone 0) 1 = [(''a1'', ''ann''), (''a2'', ''ann'')]" by code_simp+
  with run show ?thesis by blast
qed

text \<open>
  Declining and blocking a direct invitation are not the same write. When the invitee's device is
  already in the MLS group, declining leaves the invitee \<open>LEAVING\<close>, so a member's next Commit removes
  the device; blocking writes \<open>DECLINED\<close> around the state machine, so the device stays a live leaf of
  somebody the group does not know any more, which is what the integrity sweep reports.
\<close>
theorem blocking_strands_leaf:
  assumes ok: "conv_ok cv" and direct: "\<not> cv_group cv" and p: "map_of (cv_parts cv) u = Some p"
    and pend: "pt_state p = PENDING" and vis: "pt_deletedAt p = None" and leaf: "u \<in> set (leaf_users cv)"
    and other: "find (\<lambda>(v, q). v \<noteq> u) (cv_parts cv) = Some (v, q)" and clean: "leaves_of_outsiders [(cid, cv)] = []"
  shows "\<exists>dec n blk. decline_request now u cv cv = Inr (dec, n) \<and> state_of dec u = Some LEAVING
      \<and> leaves_of_outsiders [(cid, dec)] = []
    \<and> block_conversation now u cv cv = Inr (blk, v) \<and> state_of blk u = Some DECLINED
      \<and> leaves_of_outsiders [(cid, blk)] \<noteq> []"
proof -
  note keys = conv_okD(1) [OF ok]
  have st: "state_of cv u = Some PENDING" using p pend by (simp add: state_of_def)
  have hr: "has_roster cv" by (rule leaf_users_roster [OF leaf])
  let ?r = "\<lparr>rq_user = u, rq_event = DECLINE_INVITE\<rparr>"
  have d: "dedupe_by_user [?r] = [?r]" by (simp add: dedupe_id)
  have m: "meaning cv ?r = Change LEAVING"
    using st hr leaf by (simp add: meaning_def planned_transition_def resolve_membership_transition_def
        mls_only_events_def Let_def)
  obtain dec n where run: "change now [?r] Throw cv = Inr (dec, n)"
    and after: "\<And>v. state_of dec v = state_after cv [?r] v"
    using change_functional [OF keys, where now = now and requests = "[?r]" and oi = Throw] m d
    by (cases "change now [?r] Throw cv") auto
  have "state_of dec u = Some LEAVING" using after [of u] m by (simp add: state_after_def)
  moreover have "leaves_of_outsiders [(cid, dec)] = []"
  proof -
    have "cv_roster dec = cv_roster cv"
      using run by (auto simp: change_def change_membership_def bind_result_Inr_iff dest: change_tx_mls_rows(1))
    then have "find_active_leaves dec = find_active_leaves cv" by (simp add: find_active_leaves_def)
    moreover have "state_of dec v = (if v = u then Some LEAVING else state_of cv v)" for v
      using after [of v] m by (simp add: state_after_def)
    ultimately show ?thesis
      using clean by (auto simp: leaves_of_outsiders_def filter_empty_conv split: if_splits)
  qed
  moreover have "decline_request now u cv cv = Inr (dec, n)"
    using run p vis by (simp add: decline_request_def assert_has_visible_participant_def decline_invite_def require_def)
  moreover let ?blk = "cv\<lparr>cv_parts := AList.update u (p\<lparr>pt_state := DECLINED, pt_pendingSince := None\<rparr>) (cv_parts cv)\<rparr>"
  have "block_conversation now u cv cv = Inr (?blk, v)"
    using p pend vis direct other
    by (simp add: block_conversation_def assert_readable_participant_def can_read_state_def
        update_participant_state_def)
  moreover have dst: "state_of ?blk u = Some DECLINED" by (simp add: state_of_def)
  moreover have "leaves_of_outsiders [(cid, ?blk)] \<noteq> []"
  proof -
    obtain dev where "(dev, u) \<in> set (find_active_leaves cv)" using leaf by (auto simp: leaf_users_iff)
    then have "(dev, u) \<in> set (find_active_leaves ?blk)" by (simp add: find_active_leaves_def)
    with dst show ?thesis
      by (auto simp: leaves_of_outsiders_def entitled_to_leaf_states_def filter_empty_conv
          intro!: bexI [of _ "(dev, u)"])
  qed
  ultimately show ?thesis by blast
qed

definition sample_direct :: conversation where
  "sample_direct = sample_group\<lparr>cv_group := False,
     cv_parts := [(''ann'', person MEMBER ACTIVE), (''dan'', person MEMBER PENDING)],
     cv_roster := [leaf ''a1'' ''ann'' 0, leaf ''d1'' ''dan'' 2]\<rparr>"

theorem blocking_strands_leaf_witness:
  "\<exists>dec n blk. decline_request 5 ''dan'' sample_direct sample_direct = Inr (dec, n)
      \<and> state_of dec ''dan'' = Some LEAVING \<and> leaves_of_outsiders [(''c'', dec)] = []
    \<and> block_conversation 5 ''dan'' sample_direct sample_direct = Inr (blk, ''ann'')
      \<and> state_of blk ''dan'' = Some DECLINED \<and> leaves_of_outsiders [(''c'', blk)] \<noteq> []"
proof (rule blocking_strands_leaf)
  show "conv_ok sample_direct" "\<not> cv_group sample_direct" "''dan'' \<in> set (leaf_users sample_direct)"
    "map_of (cv_parts sample_direct) ''dan'' = Some (person MEMBER PENDING)"
    "pt_state (person MEMBER PENDING) = PENDING" "pt_deletedAt (person MEMBER PENDING) = None"
    "find (\<lambda>(v, q). v \<noteq> ''dan'') (cv_parts sample_direct) = Some (''ann'', person MEMBER ACTIVE)"
    "leaves_of_outsiders [(''c'', sample_direct)] = []" by code_simp+
qed

end
