(* ===== verification/Limiter_Properties.thy ===== *)
theory Limiter_Properties
  imports Rate_Limiter
begin

text \<open>
  The remaining configured limiters of the backend, and the properties of the rate limiter: the cap over
  every window, bounded memory, the retry hint, and the one configuration the cap does not hold for.
\<close>

section \<open>The other limiters\<close>

definition user_search_limiter :: limiter_config where
  "user_search_limiter = \<lparr>lc_window = 60000, lc_max = 30, lc_lockout = None, lc_maxKeys = 10000\<rparr>"

definition username_limiter :: limiter_config where
  "username_limiter = \<lparr>lc_window = 60000, lc_max = 30, lc_lockout = None, lc_maxKeys = 10000\<rparr>"

definition key_package_upload_limiter :: limiter_config where
  "key_package_upload_limiter = \<lparr>lc_window = 60000, lc_max = 5, lc_lockout = None, lc_maxKeys = 10000\<rparr>"

definition by_requester :: limiter_config where
  "by_requester = \<lparr>lc_window = 60000, lc_max = 20, lc_lockout = None, lc_maxKeys = 10000\<rparr>"

definition by_target :: limiter_config where
  "by_target = \<lparr>lc_window = 60000, lc_max = 60, lc_lockout = None, lc_maxKeys = 10000\<rparr>"

definition backup_upload_limiter :: limiter_config where
  "backup_upload_limiter = \<lparr>lc_window = 60000, lc_max = 60, lc_lockout = None, lc_maxKeys = 10000\<rparr>"

definition backup_download_limiter :: limiter_config where
  "backup_download_limiter = \<lparr>lc_window = 60000, lc_max = 120, lc_lockout = None, lc_maxKeys = 10000\<rparr>"

definition backup_manage_limiter :: limiter_config where
  "backup_manage_limiter = \<lparr>lc_window = 60000, lc_max = 10, lc_lockout = None, lc_maxKeys = 10000\<rparr>"

definition backup_destroy_limiter :: limiter_config where
  "backup_destroy_limiter = \<lparr>lc_window = 60 * 60000, lc_max = 3, lc_lockout = None, lc_maxKeys = 10000\<rparr>"

definition community_chat_limiter :: limiter_config where
  "community_chat_limiter = \<lparr>lc_window = 5000, lc_max = 5, lc_lockout = Some 5000, lc_maxKeys = 10000\<rparr>"

definition link_preview_limiter :: limiter_config where
  "link_preview_limiter = per_minute_per_user_limiter 12"

definition history_fetch_limiter :: limiter_config where
  "history_fetch_limiter = \<lparr>lc_window = 10000, lc_max = 3, lc_lockout = Some 8000, lc_maxKeys = 10000\<rparr>"

text \<open>The chat services key a limiter by a pair of ids.\<close>

definition pair_key :: "string \<Rightarrow> string \<Rightarrow> string" where
  "pair_key a b = a @ '':'' @ b"

text \<open>
  Fetching key packages spends from the requester's limiter first; what it spent stays spent when the
  target's limiter then refuses.
\<close>

definition assert_may_fetch_key_packages ::
    "int \<Rightarrow> string \<Rightarrow> string \<Rightarrow> nat \<Rightarrow> limiter \<times> limiter \<Rightarrow> (limiter \<times> limiter) \<times> unit result" where
  "assert_may_fetch_key_packages now requester target cost lms =
     (case assert_not_rate_limited by_requester now requester cost (fst lms) of
        (req, Inl e) \<Rightarrow> ((req, snd lms), Inl e)
      | (req, Inr _) \<Rightarrow>
          (case assert_not_rate_limited by_target now target cost (snd lms) of
             (tgt, r) \<Rightarrow> ((req, tgt), r)))"

section \<open>The cap\<close>

lemma new_limiter_inv: "window_inv cfg U prev new_limiter []"
  by (simp add: window_inv_def new_limiter_def remembers_def times_of_def stored_def in_window_def
      prune_old_timestamps_def)

text \<open>
  C12. The limiter keeps its promise over every window, not only aligned ones: however attempts of many
  keys interleave, the accepted units of one key within any stretch of the configured length are at
  most the configured maximum, as long as a lockout lasts at least the window and the keys fit the
  map (past that, the oldest key is forgotten). The limiter of history fetches is configured with a
  lockout shorter than its window, and does pass its maximum: \<open>history_limiter_exceeds_cap\<close> below.
\<close>
theorem limiter_caps_every_window:
  assumes "sorted (map fst rs)" and "length (js_set (map (\<lambda>r. fst (snd r)) rs)) \<le> lc_maxKeys cfg"
    and "0 < lc_window cfg" and "lockout_covers_window cfg"
  shows "in_window (lc_window cfg) t (times_of key (snd (run_limiter cfg rs (new_limiter, [])))) \<le> lc_max cfg"
proof -
  let ?U = "(\<lambda>r. fst (snd r)) ` set rs"
  let ?prev = "case rs of [] \<Rightarrow> 0 | r # _ \<Rightarrow> fst r"
  have "sorted (?prev # map fst rs)" using assms(1) by (cases rs) auto
  moreover have "card ?U = length (js_set (map (\<lambda>r. fst (snd r)) rs))"
    by (metis distinct_card distinct_js_set image_set set_js_set)
  ultimately show ?thesis
    using run_limiter_window [OF new_limiter_inv, of ?prev rs ?U cfg] assms
    by (cases "run_limiter cfg rs (new_limiter, [])") auto
qed

theorem limiter_caps_every_window_witness:
  "in_window 5000 4 (times_of ''u'' (snd (run_limiter message_limiter
     (map (\<lambda>t. (int t, ''u'', 1)) [0..<9]) (new_limiter, [])))) \<le> 6"
proof -
  have c: "lc_window message_limiter = 5000" "lc_max message_limiter = 6" by code_simp+
  have "sorted (map fst (map (\<lambda>t. (int t, ''u'', 1 :: nat)) [0..<9]))"
    "length (js_set (map (\<lambda>r. fst (snd r)) (map (\<lambda>t. (int t, ''u'', 1 :: nat)) [0..<9]))) \<le> lc_maxKeys message_limiter"
    "0 < lc_window message_limiter" "lockout_covers_window message_limiter" by code_simp+
  from limiter_caps_every_window [OF this, of 4 "''u''"] show ?thesis unfolding c .
qed

text \<open>
  The history limiter's lockout is shorter than its window, and a lockout forgets the history: a
  client that keeps scrolling gets six pages within ten seconds where three is the limit.
\<close>
theorem history_limiter_exceeds_cap:
  "\<exists>rs t. sorted (map fst rs) \<and> lc_max history_fetch_limiter = 3
    \<and> in_window (lc_window history_fetch_limiter) t
        (times_of ''u:c'' (snd (run_limiter history_fetch_limiter rs (new_limiter, [])))) = 6"
proof -
  let ?rs = "map (\<lambda>t. (t :: int, ''u:c'', 1 :: nat)) [0, 1, 2, 3, 8003, 8004, 8005]"
  have "sorted (map fst ?rs)" "lc_max history_fetch_limiter = 3" "in_window (lc_window history_fetch_limiter) 8005
        (times_of ''u:c'' (snd (run_limiter history_fetch_limiter ?rs (new_limiter, [])))) = 6" by code_simp+
  then show ?thesis by blast
qed

section \<open>Memory\<close>

definition bounded_limiter :: "nat \<Rightarrow> limiter \<Rightarrow> bool" where
  "bounded_limiter n lm \<longleftrightarrow> distinct (map fst (lm_recent lm)) \<and> distinct (map fst (lm_locked lm))
     \<and> length (lm_recent lm) \<le> n \<and> length (lm_locked lm) \<le> n"

lemma touch_present:
  assumes "distinct (map fst m)" and "map_of m k = Some v"
  shows "distinct (map fst (touch k w m))" and "length (touch k w m) = length m"
proof -
  have k: "k \<in> set (map fst m)" using assms(2) map_of_SomeD by force
  show "distinct (map fst (touch k w m))" using assms(1) by (simp add: keys_touch)
  have "length (touch k w m) = length (map fst (touch k w m))" by simp
  also have "\<dots> = length m - 1 + 1" unfolding keys_touch using length_filter_neq [OF assms(1), of k] k by simp
  also have "\<dots> = length m" using k by (cases m) auto
  finally show "length (touch k w m) = length m" .
qed

lemma delete_bounded:
  "distinct (map fst m) \<Longrightarrow> distinct (map fst (AList.delete k m))" "length (AList.delete k m) \<le> length m"
  by (simp_all add: distinct_delete length_delete_le)

lemma store_bounded_distinct: "distinct (map fst m) \<Longrightarrow> distinct (map fst (store_bounded n k v m))"
  by (rule bm.keys_distinct)

lemma attempt_bounded:
  assumes "bounded_limiter (lc_maxKeys cfg) lm" and "0 < lc_maxKeys cfg"
  shows "bounded_limiter (lc_maxKeys cfg) (fst (attempt cfg now key cost lm))"
proof -
  have un: "bounded_limiter (lc_maxKeys cfg) (fst (attempt_unlocked cfg now key cost lm'))"
    if "bounded_limiter (lc_maxKeys cfg) lm'" for lm'
    using that assms(2) delete_bounded [of "lm_recent lm'"] order_trans [OF delete_bounded(2) [of key "lm_recent lm'"]]
    by (auto simp: attempt_unlocked_def Let_def bounded_limiter_def store_bounded_size store_bounded_distinct
        split: option.splits)
  show ?thesis
  proof (cases "map_of (lm_locked lm) key")
    case None
    with un [OF assms(1)] show ?thesis by (simp add: attempt_def)
  next
    case (Some until)
    have "bounded_limiter (lc_maxKeys cfg) (lm\<lparr>lm_locked := AList.delete key (lm_locked lm)\<rparr>)"
      using assms(1) delete_bounded [of "lm_locked lm"] order_trans [OF delete_bounded(2) [of key "lm_locked lm"]]
      by (simp add: bounded_limiter_def)
    from un [OF this] Some assms(1) touch_present [of "lm_locked lm" key until]
    show ?thesis by (simp add: attempt_def bounded_limiter_def)
  qed
qed

text \<open>
  The limiter's memory is bounded however many keys callers invent: neither map ever holds more
  than the configured number of keys, each at most once.
\<close>
theorem limiter_memory_bounded:
  assumes "0 < lc_maxKeys cfg"
  shows "bounded_limiter (lc_maxKeys cfg) (fst (run_limiter cfg rs (new_limiter, [])))"
proof -
  have "bounded_limiter (lc_maxKeys cfg) lm \<Longrightarrow>
      bounded_limiter (lc_maxKeys cfg) (fst (run_limiter cfg rs (lm, log)))" for lm log
  proof (induction rs arbitrary: lm log)
    case (Cons r rest)
    obtain now key cost where r: "r = (now, key, cost)" by (cases r)
    show ?case using Cons.IH attempt_bounded [OF Cons.prems assms, of now key cost]
      by (cases "attempt cfg now key cost lm") (auto simp: r)
  qed simp
  then show ?thesis by (simp add: bounded_limiter_def new_limiter_def)
qed

theorem limiter_memory_bounded_witness:
  "bounded_limiter 1 (fst (run_limiter (message_limiter\<lparr>lc_maxKeys := 1\<rparr>)
     [(0, ''a'', 1), (1, ''b'', 1), (2, ''a'', 7)] (new_limiter, [])))"
proof -
  have "lc_maxKeys (message_limiter\<lparr>lc_maxKeys := 1\<rparr>) = 1" by simp
  with limiter_memory_bounded [of "message_limiter\<lparr>lc_maxKeys := 1\<rparr>" "[(0, ''a'', 1), (1, ''b'', 1), (2, ''a'', 7)]"]
  show ?thesis by simp
qed

section \<open>The hint to retry\<close>

text \<open>Of a sorted list, at least \<open>m\<close> elements are at most \<open>x\<close> exactly when the \<open>m\<close>-th is.\<close>

lemma sorted_age_out:
  fixes xs :: "int list"
  assumes "sorted xs" and "0 < m" and "m \<le> length xs"
  shows "length (filter (\<lambda>t. x < t) xs) \<le> length xs - m \<longleftrightarrow> xs ! (m - 1) \<le> x"
  using assms
proof (induction xs arbitrary: m)
  case (Cons a xs)
  have all: "filter (\<lambda>t. x < t) (a # xs) = a # xs" if "x < a" using that Cons.prems(1) by (auto simp: filter_id_conv)
  show ?case
  proof (cases "x < a")
    case True
    have "a \<le> (a # xs) ! (m - 1)" using Cons.prems by (cases "m - 1") (auto simp: nth_Cons)
    with True all Cons.prems(2,3) show ?thesis by simp
  next
    case False
    show ?thesis
    proof (cases "m = 1")
      case True
      have "length (filter (\<lambda>t. x < t) xs) \<le> length xs" by (rule length_filter_le)
      with False True show ?thesis by simp
    next
      case m: False
      have "length (filter (\<lambda>t. x < t) xs) \<le> length xs - (m - 1) \<longleftrightarrow> xs ! (m - 1 - 1) \<le> x"
        using Cons.prems m by (intro Cons.IH) auto
      moreover obtain j where "m = Suc (Suc j)" using m Cons.prems(2) by (metis One_nat_def Suc_pred' not_gr_zero Suc_lessI)
      ultimately show ?thesis using False by simp
    qed
  qed
qed simp

text \<open>
  The time a refused caller is told to wait is exact: with nothing else happening, the same request
  is refused at every earlier moment and accepted from that moment on (for a limiter without lockout
  and a cost it can ever accept).
\<close>
theorem retry_hint_is_exact:
  assumes "attempt cfg now key cost lm = (lm', Some wait)" and "lc_lockout cfg = None"
    and "cost \<le> lc_max cfg" and "map_of (lm_locked lm) key = None" and "sorted (stored lm key)" and "now \<le> later"
  shows "snd (attempt cfg later key cost lm') = None \<longleftrightarrow> now + wait \<le> later"
proof -
  let ?w = "lc_window cfg"
  let ?rec = "prune_old_timestamps (stored lm key) now ?w"
  let ?m = "length ?rec + cost - lc_max cfg"
  from assms(1-4) have full: "length ?rec + cost > lc_max cfg" and lm': "lm' = lm"
    and wait: "wait = ?rec ! (?m - 1) + ?w - now"
    by (auto simp: attempt_def attempt_unlocked_def stored_def Let_def split: if_splits)
  have "snd (attempt cfg later key cost lm) = None \<longleftrightarrow>
      length (prune_old_timestamps (stored lm key) later ?w) + cost \<le> lc_max cfg"
    using assms(2,4) by (auto simp: attempt_def attempt_unlocked_def stored_def Let_def)
  also have "prune_old_timestamps (stored lm key) later ?w = prune_old_timestamps ?rec later ?w"
    by (rule prune_prune [OF assms(6), symmetric])
  also have "length (prune_old_timestamps ?rec later ?w) + cost \<le> lc_max cfg \<longleftrightarrow>
      length (filter (\<lambda>t. later - ?w < t) ?rec) \<le> length ?rec - ?m"
    using full assms(3) by (auto simp: prune_old_timestamps_def)
  also have "\<dots> \<longleftrightarrow> ?rec ! (?m - 1) \<le> later - ?w"
    using full assms(3) sorted_wrt_filter [OF assms(5)] by (intro sorted_age_out) (auto simp: prune_old_timestamps_def)
  also have "\<dots> \<longleftrightarrow> now + wait \<le> later" using wait by auto
  finally show ?thesis by (simp add: lm')
qed

theorem retry_hint_is_exact_witness:
  "snd (attempt join_limiter 60000 ''u'' 10 (fst (attempt join_limiter 0 ''u'' 10 new_limiter))) = None"
proof -
  let ?lm = "fst (attempt join_limiter 0 ''u'' 10 new_limiter)"
  have run: "attempt join_limiter 1000 ''u'' 10 ?lm = (?lm, Some 59000)" by code_simp
  have "lc_lockout join_limiter = None" "10 \<le> lc_max join_limiter" "map_of (lm_locked ?lm) ''u'' = None"
    "sorted (stored ?lm ''u'')" by code_simp+
  from retry_hint_is_exact [OF run this, of 60000] show ?thesis by simp
qed

end
