(* ===== verification/Economy_Rules.thy ===== *)
theory Economy_Rules
  imports Prelude
begin

text \<open>
  \<open>economy/economy-rules.ts\<close>: the numbers behind earning. Days, the steps that turn likes and comments
  into Reputation, the daily cap on Shards, the ranks, and how established an account must be before
  its likes earn others anything. Counts and balances are integers, as the columns that hold them.
\<close>

section \<open>Constants and days\<close>

definition economy_utc_offset_ms :: int where
  "economy_utc_offset_ms = 7 * 60 * 60 * 1000"

definition check_in_shards :: int where
  "check_in_shards = 10"

definition daily_shard_cap :: int where
  "daily_shard_cap = 60"

definition shards_per_counted_interaction :: int where
  "shards_per_counted_interaction = 1"

definition shard_paying_comments_per_day :: int where
  "shard_paying_comments_per_day = 3"

definition max_reputation_per_giver_per_day :: int where
  "max_reputation_per_giver_per_day = 5"

definition like_milestone_shards :: "(int \<times> int) list" where
  "like_milestone_shards = [(10, 5), (50, 20), (100, 50)]"

definition rank_window_days :: int where
  "rank_window_days = 90"

definition day_ms :: int where
  "day_ms = 24 * 60 * 60 * 1000"

text \<open>
  \<open>economyDay\<close>: the date of \<open>now\<close> shifted by seven hours, at midnight UTC. \<open>Date.UTC\<close> of the UTC year,
  month and day of a time is that time cut down to a multiple of a day.
\<close>

definition economy_day :: "time \<Rightarrow> time" where
  "economy_day now = (let shifted = now + economy_utc_offset_ms in shifted div day_ms * day_ms)"

definition next_economy_day_start :: "time \<Rightarrow> time" where
  "next_economy_day_start now = economy_day now + day_ms - economy_utc_offset_ms"

lemma day_ms_pos [simp]: "0 < day_ms"
  by (simp add: day_ms_def)

lemma economy_day_bounds:
  "economy_day now \<le> now + economy_utc_offset_ms \<and> now < next_economy_day_start now"
proof -
  let ?t = "now + economy_utc_offset_ms"
  have "?t = ?t div day_ms * day_ms + ?t mod day_ms" by simp
  moreover have "0 \<le> ?t mod day_ms" "?t mod day_ms < day_ms" by simp_all
  ultimately show ?thesis unfolding economy_day_def next_economy_day_start_def Let_def by linarith
qed

lemma economy_day_iff:
  "economy_day now = economy_day later \<longleftrightarrow>
    economy_day now - economy_utc_offset_ms \<le> later \<and> later < next_economy_day_start now"
proof
  assume "economy_day now = economy_day later"
  then show "economy_day now - economy_utc_offset_ms \<le> later \<and> later < next_economy_day_start now"
    using economy_day_bounds [of later] by (simp add: next_economy_day_start_def)
next
  let ?q = "(now + economy_utc_offset_ms) div day_ms"
  assume "economy_day now - economy_utc_offset_ms \<le> later \<and> later < next_economy_day_start now"
  then have "?q * day_ms \<le> later + economy_utc_offset_ms" "later + economy_utc_offset_ms < (?q + 1) * day_ms"
    by (simp_all add: economy_day_def next_economy_day_start_def Let_def distrib_right)
  then have "(later + economy_utc_offset_ms) div day_ms = ?q"
    by (intro int_div_pos_eq [where r = "later + economy_utc_offset_ms - ?q * day_ms"]) (auto simp: algebra_simps)
  then show "economy_day now = economy_day later" by (simp add: economy_day_def Let_def)
qed

section \<open>Reputation by steps\<close>

text \<open>
  \<open>Step\<close>: a bound (\<open>None\<close> is \<open>Infinity\<close>) and the interactions per point. The loop stops at the first
  step that does not fill up.
\<close>

record reputation_step =
  rs_upToPoints :: "int option"
  rs_perPoint :: int

definition like_steps :: "reputation_step list" where
  "like_steps =
     [\<lparr>rs_upToPoints = Some 100, rs_perPoint = 1\<rparr>,
      \<lparr>rs_upToPoints = Some 1000, rs_perPoint = 10\<rparr>,
      \<lparr>rs_upToPoints = None, rs_perPoint = 100\<rparr>]"

definition comment_steps :: "reputation_step list" where
  "comment_steps =
     [\<lparr>rs_upToPoints = Some 20, rs_perPoint = 1\<rparr>,
      \<lparr>rs_upToPoints = Some 150, rs_perPoint = 5\<rparr>,
      \<lparr>rs_upToPoints = None, rs_perPoint = 20\<rparr>]"

fun stepped_from :: "int \<Rightarrow> int \<Rightarrow> reputation_step list \<Rightarrow> int" where
  "stepped_from points left [] = points"
| "stepped_from points left (step # steps) =
     (let worth = left div rs_perPoint step
      in case rs_upToPoints step of
           None \<Rightarrow> points + worth
         | Some bound \<Rightarrow>
             (let room = bound - points; paid = min room worth
              in if paid < room then points + paid
                 else stepped_from (points + paid) (left - paid * rs_perPoint step) steps))"

definition stepped_points :: "int \<Rightarrow> reputation_step list \<Rightarrow> int" where
  "stepped_points interactions steps = stepped_from 0 interactions steps"

definition reputation_from_likes :: "int \<Rightarrow> int" where
  "reputation_from_likes interactions = stepped_points interactions like_steps"

definition reputation_from_comments :: "int \<Rightarrow> int" where
  "reputation_from_comments interactions = stepped_points interactions comment_steps"

lemma likes_closed_form:
  "reputation_from_likes n =
    (if n < 100 then n else if n < 9100 then 100 + (n - 100) div 10 else 1000 + (n - 9100) div 100)"
  by (auto simp: reputation_from_likes_def stepped_points_def like_steps_def Let_def min_def)

lemma comments_closed_form:
  "reputation_from_comments n =
    (if n < 20 then n else if n < 670 then 20 + (n - 20) div 5 else 150 + (n - 670) div 20)"
  by (auto simp: reputation_from_comments_def stepped_points_def comment_steps_def Let_def min_def)

text \<open>One more interaction pays nothing or one point, whatever the count.\<close>

definition pays_at_most_one :: "(int \<Rightarrow> int) \<Rightarrow> bool" where
  "pays_at_most_one f \<longleftrightarrow> f 0 = 0 \<and> (\<forall>n. f (n + 1) = f n \<or> f (n + 1) = f n + 1)"

lemma div_step:
  assumes "0 < (d :: int)"
  shows "(m + 1) div d = m div d \<or> (m + 1) div d = m div d + 1"
proof -
  have lo: "m div d \<le> (m + 1) div d" using assms by (intro zdiv_mono1) auto
  have "(m + 1) div d \<le> (m + d) div d" using assms by (intro zdiv_mono1) auto
  also have "\<dots> = m div d + 1" using div_add_self2 [of d m] assms by (simp del: div_add_self2)
  finally show ?thesis using lo by linarith
qed

lemma likes_pay_at_most_one: "pays_at_most_one reputation_from_likes"
  unfolding pays_at_most_one_def
proof (intro conjI allI)
  show "reputation_from_likes 0 = 0" by (simp add: likes_closed_form)
next
  fix n :: int
  consider "n + 1 < 100" | "n + 1 = 100" | "100 < n + 1" "n + 1 < 9100" | "n + 1 = 9100" | "9100 < n + 1" by linarith
  then show "reputation_from_likes (n + 1) = reputation_from_likes n
      \<or> reputation_from_likes (n + 1) = reputation_from_likes n + 1"
  proof cases
    case 3
    with div_step [of 10 "n - 100"] show ?thesis by (auto simp: likes_closed_form algebra_simps)
  next
    case 5
    with div_step [of 100 "n - 9100"] show ?thesis by (auto simp: likes_closed_form algebra_simps)
  next
    case 4
    then have "n = 9099" by simp
    then show ?thesis by (simp add: likes_closed_form)
  qed (auto simp: likes_closed_form)
qed

lemma comments_pay_at_most_one: "pays_at_most_one reputation_from_comments"
  unfolding pays_at_most_one_def
proof (intro conjI allI)
  show "reputation_from_comments 0 = 0" by (simp add: comments_closed_form)
next
  fix n :: int
  consider "n + 1 < 20" | "n + 1 = 20" | "20 < n + 1" "n + 1 < 670" | "n + 1 = 670" | "670 < n + 1" by linarith
  then show "reputation_from_comments (n + 1) = reputation_from_comments n
      \<or> reputation_from_comments (n + 1) = reputation_from_comments n + 1"
  proof cases
    case 3
    with div_step [of 5 "n - 20"] show ?thesis by (auto simp: comments_closed_form algebra_simps)
  next
    case 5
    with div_step [of 20 "n - 670"] show ?thesis by (auto simp: comments_closed_form algebra_simps)
  next
    case 4
    then have "n = 669" by simp
    then show ?thesis by (simp add: comments_closed_form)
  qed (auto simp: comments_closed_form)
qed

section \<open>Shards\<close>

text \<open>\<open>shardsToCredit\<close>, with the multiplier 1 that every caller leaves in place.\<close>

definition shards_to_credit :: "int \<Rightarrow> int \<Rightarrow> int" where
  "shards_to_credit base_today credited_today =
     (let target = min daily_shard_cap base_today in max 0 (target - credited_today))"

section \<open>Ranks\<close>

datatype reputation_rank = STARGAZER | METEOR | COMET | NOVA | SUPERNOVA | GALAXY

text \<open>The order of the enum, lowest first.\<close>

primrec rank_level :: "reputation_rank \<Rightarrow> nat" where
  "rank_level STARGAZER = 0"
| "rank_level METEOR = 1"
| "rank_level COMET = 2"
| "rank_level NOVA = 3"
| "rank_level SUPERNOVA = 4"
| "rank_level GALAXY = 5"

lemma rank_level_inj: "rank_level a = rank_level b \<Longrightarrow> a = b"
  by (cases a; cases b) auto

instantiation reputation_rank :: linorder
begin

definition less_eq_reputation_rank :: "reputation_rank \<Rightarrow> reputation_rank \<Rightarrow> bool" where
  "less_eq_reputation_rank a b \<longleftrightarrow> rank_level a \<le> rank_level b"

definition less_reputation_rank :: "reputation_rank \<Rightarrow> reputation_rank \<Rightarrow> bool" where
  "less_reputation_rank a b \<longleftrightarrow> rank_level a < rank_level b"

instance
  by standard (auto simp: less_eq_reputation_rank_def less_reputation_rank_def dest: rank_level_inj)

end

record rank_rule =
  rr_rank :: reputation_rank
  rr_lifetime :: int
  rr_keep90d :: int

definition rank_rules :: "rank_rule list" where
  "rank_rules =
     [\<lparr>rr_rank = GALAXY, rr_lifetime = 75000, rr_keep90d = 4000\<rparr>,
      \<lparr>rr_rank = SUPERNOVA, rr_lifetime = 30000, rr_keep90d = 1000\<rparr>,
      \<lparr>rr_rank = NOVA, rr_lifetime = 12000, rr_keep90d = 0\<rparr>,
      \<lparr>rr_rank = COMET, rr_lifetime = 4000, rr_keep90d = 0\<rparr>,
      \<lparr>rr_rank = METEOR, rr_lifetime = 1000, rr_keep90d = 0\<rparr>]"

definition rank_for :: "int \<Rightarrow> int \<Rightarrow> reputation_rank" where
  "rank_for lifetime recent =
     (case find (\<lambda>entry. rr_lifetime entry \<le> lifetime \<and> rr_keep90d entry \<le> recent) rank_rules of
        None \<Rightarrow> STARGAZER
      | Some entry \<Rightarrow> rr_rank entry)"

lemma rank_for_cases:
  "rank_for lifetime recent =
    (if 75000 \<le> lifetime \<and> 4000 \<le> recent then GALAXY
     else if 30000 \<le> lifetime \<and> 1000 \<le> recent then SUPERNOVA
     else if recent < 0 then STARGAZER
     else if 12000 \<le> lifetime then NOVA
     else if 4000 \<le> lifetime then COMET
     else if 1000 \<le> lifetime then METEOR else STARGAZER)"
  by (auto simp: rank_for_def rank_rules_def)

lemma rank_for_mono:
  assumes "a \<le> b" and "x \<le> y"
  shows "rank_for a x \<le> rank_for b y"
  using assms by (auto simp: rank_for_cases less_eq_reputation_rank_def)

lemma rank_for_never_below_nova:
  assumes "12000 \<le> lifetime" and "0 \<le> recent"
  shows "NOVA \<le> rank_for lifetime recent"
  using assms by (auto simp: rank_for_cases less_eq_reputation_rank_def)

lemma rank_for_0 [simp]: "rank_for 0 0 = STARGAZER"
  by (simp add: rank_for_cases)

section \<open>Established accounts\<close>

text \<open>The bytes of the HMAC of a user id under the server's secret are an argument.\<close>

record trust_threshold =
  tt_minAgeDays :: int
  tt_minPosts :: int
  tt_minComments :: int

definition trust_thresholds :: "(user_id \<Rightarrow> bytes) \<Rightarrow> user_id \<Rightarrow> trust_threshold" where
  "trust_thresholds hmac u =
     (let digest = hmac u
      in \<lparr>tt_minAgeDays = 5 + int (unat (digest ! 0) mod 6),
          tt_minPosts = 1 + int (unat (digest ! 1) mod 2),
          tt_minComments = 3 + int (unat (digest ! 2) mod 3)\<rparr>)"

datatype user_status = ACTIVE_USER | SUSPENDED | BANNED | DELETED

record account =
  ac_status :: user_status
  ac_createdAt :: time
  ac_postCount :: int
  ac_commentCount :: int

text \<open>
  The age in days is a quotient of floating point numbers; compared with a small whole number of days
  it decides as the exact quotient does.
\<close>

definition is_established :: "account \<Rightarrow> trust_threshold \<Rightarrow> time \<Rightarrow> bool" where
  "is_established account thresholds now \<longleftrightarrow>
     ac_status account = ACTIVE_USER
     \<and> tt_minAgeDays thresholds * 86400000 \<le> now - ac_createdAt account
     \<and> (tt_minPosts thresholds \<le> ac_postCount account \<or> tt_minComments thresholds \<le> ac_commentCount account)"

lemma established_is_active: "is_established a t now \<Longrightarrow> ac_status a = ACTIVE_USER"
  by (simp add: is_established_def)

text \<open>An account does not stop being established by ageing or by publishing more.\<close>

lemma established_mono:
  assumes "is_established a t now" and "now \<le> later" and "ac_status b = ACTIVE_USER"
    and "ac_createdAt b = ac_createdAt a" and "ac_postCount a \<le> ac_postCount b" and "ac_commentCount a \<le> ac_commentCount b"
  shows "is_established b t later"
  using assms by (auto simp: is_established_def)

end
