(* ===== verification/Transactions.thy ===== *)
theory Transactions
  imports Prelude
begin

text \<open>
  A database transaction as a function from the tables to new tables and a value, or to the error that
  rolls it back; the sequencing of its calls; and the triples its invariants are proved with:
  \<open>tx_valid P m Q\<close> when \<open>Q\<close> holds after every run of \<open>m\<close> from \<open>P\<close> that does not fail, \<open>tx_total P m Q\<close>
  when in addition no run from \<open>P\<close> fails.
\<close>

type_synonym ('s, 'a) tx = "'s \<Rightarrow> ('s \<times> 'a) result"

section \<open>Sequencing\<close>

definition tx_return :: "'a \<Rightarrow> ('s, 'a) tx" where
  "tx_return x s = Inr (s, x)"

definition tx_bind :: "('s, 'a) tx \<Rightarrow> ('a \<Rightarrow> ('s, 'b) tx) \<Rightarrow> ('s, 'b) tx" where
  "tx_bind m f s = (case m s of Inl e \<Rightarrow> Inl e | Inr (s', x) \<Rightarrow> f x s')"

definition tx_then :: "('s, 'a) tx \<Rightarrow> ('s, 'b) tx \<Rightarrow> ('s, 'b) tx" where
  "tx_then m n = tx_bind m (\<lambda>_. n)"

definition tx_fail :: "http_error \<Rightarrow> ('s, 'a) tx" where
  "tx_fail e s = Inl e"

definition tx_gets :: "('s \<Rightarrow> 'a) \<Rightarrow> ('s, 'a) tx" where
  "tx_gets f s = Inr (s, f s)"

definition tx_modify :: "('s \<Rightarrow> 's) \<Rightarrow> ('s, unit) tx" where
  "tx_modify f s = Inr (f s, ())"

definition tx_when :: "bool \<Rightarrow> ('s, unit) tx \<Rightarrow> ('s, unit) tx" where
  "tx_when b m = (if b then m else tx_return ())"

definition tx_require :: "bool \<Rightarrow> http_error \<Rightarrow> ('s, unit) tx" where
  "tx_require b e = (if b then tx_return () else tx_fail e)"

definition tx_result :: "'a result \<Rightarrow> ('s, 'a) tx" where
  "tx_result r = (case r of Inl e \<Rightarrow> tx_fail e | Inr x \<Rightarrow> tx_return x)"

text \<open>A loop that awaits its body for every element, collecting what the bodies return.\<close>

fun tx_map :: "('x \<Rightarrow> ('s, 'a) tx) \<Rightarrow> 'x list \<Rightarrow> ('s, 'a list) tx" where
  "tx_map f [] = tx_return []"
| "tx_map f (x # xs) = tx_bind (f x) (\<lambda>y. tx_bind (tx_map f xs) (\<lambda>ys. tx_return (y # ys)))"

named_theorems tx_simps \<open>run a transaction\<close>

lemma tx_run [tx_simps]:
  "tx_return x s = Inr (s, x)"
  "tx_fail e s = Inl e"
  "tx_gets f s = Inr (s, f s)"
  "tx_modify g s = Inr (g s, ())"
  "tx_then m n = tx_bind m (\<lambda>_. n)"
  by (simp_all add: tx_return_def tx_fail_def tx_gets_def tx_modify_def tx_then_def)

lemma tx_bind_run [tx_simps]:
  "m s = Inr (s', x) \<Longrightarrow> tx_bind m f s = f x s'"
  "m s = Inl e \<Longrightarrow> tx_bind m f s = Inl e"
  by (simp_all add: tx_bind_def)

lemma tx_require_run [tx_simps]:
  "tx_require b e s = (if b then Inr (s, ()) else Inl e)"
  by (simp add: tx_require_def tx_run)

lemma tx_result_run [tx_simps]:
  "tx_result r s = Inr (s', x) \<longleftrightarrow> r = Inr x \<and> s' = s"
  "tx_result r s = Inl e \<longleftrightarrow> r = Inl e"
  by (auto simp: tx_result_def tx_run split: sum.splits)

lemma tx_when_run [tx_simps]: "tx_when b m s = (if b then m s else Inr (s, ()))"
  by (simp add: tx_when_def tx_run)

lemma tx_bind_Inl: "tx_bind m f s = Inl e \<longleftrightarrow> m s = Inl e \<or> (\<exists>s' x. m s = Inr (s', x) \<and> f x s' = Inl e)"
  by (auto simp: tx_bind_def split: sum.splits)

lemma tx_bind_Inr: "tx_bind m f s = Inr r \<longleftrightarrow> (\<exists>s' x. m s = Inr (s', x) \<and> f x s' = Inr r)"
  by (auto simp: tx_bind_def split: sum.splits)

section \<open>Triples\<close>

definition tx_valid :: "('s \<Rightarrow> bool) \<Rightarrow> ('s, 'a) tx \<Rightarrow> ('a \<Rightarrow> 's \<Rightarrow> bool) \<Rightarrow> bool" where
  "tx_valid P m Q \<longleftrightarrow> (\<forall>s s' x. P s \<longrightarrow> m s = Inr (s', x) \<longrightarrow> Q x s')"

definition tx_total :: "('s \<Rightarrow> bool) \<Rightarrow> ('s, 'a) tx \<Rightarrow> ('a \<Rightarrow> 's \<Rightarrow> bool) \<Rightarrow> bool" where
  "tx_total P m Q \<longleftrightarrow> (\<forall>s. P s \<longrightarrow> (\<exists>s' x. m s = Inr (s', x) \<and> Q x s'))"

text \<open>An invariant kept by a transaction, whatever it returns.\<close>

abbreviation tx_keeps :: "('s \<Rightarrow> bool) \<Rightarrow> ('s, 'a) tx \<Rightarrow> bool" where
  "tx_keeps P m \<equiv> tx_valid P m (\<lambda>_. P)"

lemma tx_validD: "tx_valid P m Q \<Longrightarrow> P s \<Longrightarrow> m s = Inr (s', x) \<Longrightarrow> Q x s'"
  by (auto simp: tx_valid_def)

lemma tx_validI: "(\<And>s s' x. P s \<Longrightarrow> m s = Inr (s', x) \<Longrightarrow> Q x s') \<Longrightarrow> tx_valid P m Q"
  by (auto simp: tx_valid_def)

lemma tx_totalI: "(\<And>s. P s \<Longrightarrow> \<exists>s' x. m s = Inr (s', x) \<and> Q x s') \<Longrightarrow> tx_total P m Q"
  by (auto simp: tx_total_def)

lemma tx_totalE:
  assumes "tx_total P m Q" and "P s"
  obtains s' x where "m s = Inr (s', x)" and "Q x s'"
  using assms unfolding tx_total_def by blast

lemma tx_total_valid: "tx_total P m Q \<Longrightarrow> tx_valid P m Q"
  by (fastforce simp: tx_total_def tx_valid_def)

lemma tx_valid_pre: "tx_valid P m Q \<Longrightarrow> (\<And>s. P' s \<Longrightarrow> P s) \<Longrightarrow> tx_valid P' m Q"
  by (auto simp: tx_valid_def)

lemma tx_valid_post: "tx_valid P m Q \<Longrightarrow> (\<And>x s. Q x s \<Longrightarrow> Q' x s) \<Longrightarrow> tx_valid P m Q'"
  by (auto simp: tx_valid_def)

lemma tx_total_pre: "tx_total P m Q \<Longrightarrow> (\<And>s. P' s \<Longrightarrow> P s) \<Longrightarrow> tx_total P' m Q"
  by (auto simp: tx_total_def)

lemma tx_total_post: "tx_total P m Q \<Longrightarrow> (\<And>x s. Q x s \<Longrightarrow> Q' x s) \<Longrightarrow> tx_total P m Q'"
  by (fastforce simp: tx_total_def)

named_theorems tx_intros \<open>rules that push a triple through a transaction\<close>

lemma tx_valid_return [tx_intros]: "(\<And>s. P s \<Longrightarrow> Q x s) \<Longrightarrow> tx_valid P (tx_return x) Q"
  by (auto simp: tx_valid_def tx_simps)

lemma tx_valid_gets [tx_intros]: "(\<And>s. P s \<Longrightarrow> Q (f s) s) \<Longrightarrow> tx_valid P (tx_gets f) Q"
  by (auto simp: tx_valid_def tx_simps)

lemma tx_valid_modify [tx_intros]: "(\<And>s. P s \<Longrightarrow> Q () (g s)) \<Longrightarrow> tx_valid P (tx_modify g) Q"
  by (auto simp: tx_valid_def tx_simps)

lemma tx_valid_fail [tx_intros]: "tx_valid P (tx_fail e) Q"
  by (auto simp: tx_valid_def tx_simps)

lemma tx_valid_bind: "tx_valid P m R \<Longrightarrow> (\<And>x. tx_valid (R x) (f x) Q) \<Longrightarrow> tx_valid P (tx_bind m f) Q"
  unfolding tx_valid_def tx_bind_Inr by blast

text \<open>The common case: every part keeps one invariant.\<close>

lemma tx_keeps_bind [tx_intros]: "tx_keeps P m \<Longrightarrow> (\<And>x. tx_keeps P (f x)) \<Longrightarrow> tx_keeps P (tx_bind m f)"
  by (rule tx_valid_bind)

lemma tx_keeps_then [tx_intros]: "tx_keeps P m \<Longrightarrow> tx_keeps P n \<Longrightarrow> tx_keeps P (tx_then m n)"
  unfolding tx_then_def by (rule tx_valid_bind)

lemma tx_keeps_when [tx_intros]: "(b \<Longrightarrow> tx_keeps P m) \<Longrightarrow> tx_keeps P (tx_when b m)"
  by (auto simp: tx_when_def tx_valid_def tx_simps)

lemma tx_keeps_if [tx_intros]: "(b \<Longrightarrow> tx_keeps P m) \<Longrightarrow> (\<not> b \<Longrightarrow> tx_keeps P n) \<Longrightarrow> tx_keeps P (if b then m else n)"
  by simp

lemma tx_keeps_map [tx_intros]: "(\<And>x. x \<in> set xs \<Longrightarrow> tx_keeps P (f x)) \<Longrightarrow> tx_keeps P (tx_map f xs)"
proof (induction xs)
  case Nil
  show ?case by (simp add: tx_valid_def tx_simps)
next
  case (Cons x xs)
  then show ?case by (simp, intro tx_intros) auto
qed

lemma tx_total_return [tx_intros]: "(\<And>s. P s \<Longrightarrow> Q x s) \<Longrightarrow> tx_total P (tx_return x) Q"
  by (auto simp: tx_total_def tx_simps)

lemma tx_total_gets [tx_intros]: "(\<And>s. P s \<Longrightarrow> Q (f s) s) \<Longrightarrow> tx_total P (tx_gets f) Q"
  by (auto simp: tx_total_def tx_simps)

lemma tx_total_modify [tx_intros]: "(\<And>s. P s \<Longrightarrow> Q () (g s)) \<Longrightarrow> tx_total P (tx_modify g) Q"
  by (auto simp: tx_total_def tx_simps)

lemma tx_total_bind: "tx_total P m R \<Longrightarrow> (\<And>x. tx_total (R x) (f x) Q) \<Longrightarrow> tx_total P (tx_bind m f) Q"
  unfolding tx_total_def by (metis tx_bind_run(1))

lemma tx_total_then: "tx_total P m R \<Longrightarrow> (\<And>x. tx_total (R x) n Q) \<Longrightarrow> tx_total P (tx_then m n) Q"
  unfolding tx_then_def by (rule tx_total_bind)

lemma tx_total_map:
  assumes "\<And>x. x \<in> set xs \<Longrightarrow> tx_total P (f x) (\<lambda>_. P)"
  shows "tx_total P (tx_map f xs) (\<lambda>ys s. P s \<and> length ys = length xs)"
  using assms
proof (induction xs)
  case Nil
  show ?case by (auto simp: tx_total_def tx_simps)
next
  case (Cons x xs)
  have "tx_total P (f x) (\<lambda>_. P)" using Cons.prems by simp
  moreover have "tx_total P (tx_bind (tx_map f xs) (\<lambda>ys. tx_return (y # ys)))
      (\<lambda>ys s. P s \<and> length ys = length (x # xs))" for y
    by (rule tx_total_bind [OF Cons.IH]) (use Cons.prems in \<open>auto simp: tx_total_def tx_simps\<close>)
  ultimately show ?case unfolding tx_map.simps by (rule tx_total_bind)
qed

section \<open>Branching on what a transaction read\<close>

named_theorems tx_cases \<open>rules for reads, checks and case distinctions of a transaction\<close>

lemma tx_valid_gets_bind: "(\<And>x. tx_valid (\<lambda>s. P s \<and> f s = x) (g x) Q) \<Longrightarrow> tx_valid P (tx_bind (tx_gets f) g) Q"
  by (auto simp: tx_valid_def tx_bind_Inr tx_simps)

lemma tx_valid_require_bind: "(b \<Longrightarrow> tx_valid P (g ()) Q) \<Longrightarrow> tx_valid P (tx_bind (tx_require b e) g) Q"
  by (auto simp: tx_valid_def tx_bind_Inr tx_simps split: if_splits)

lemma tx_valid_result_bind: "(\<And>x. r = Inr x \<Longrightarrow> tx_valid P (g x) Q) \<Longrightarrow> tx_valid P (tx_bind (tx_result r) g) Q"
  by (auto simp: tx_valid_def tx_bind_Inr tx_simps)

lemma tx_valid_if: "(b \<Longrightarrow> tx_valid P m Q) \<Longrightarrow> (\<not> b \<Longrightarrow> tx_valid P n Q) \<Longrightarrow> tx_valid P (if b then m else n) Q"
  by simp

lemma tx_valid_option:
  "(x = None \<Longrightarrow> tx_valid P m Q) \<Longrightarrow> (\<And>y. x = Some y \<Longrightarrow> tx_valid P (n y) Q)
    \<Longrightarrow> tx_valid P (case x of None \<Rightarrow> m | Some y \<Rightarrow> n y) Q"
  by (simp split: option.split)

lemma tx_valid_pair: "(\<And>y z. x = (y, z) \<Longrightarrow> tx_valid P (m y z) Q) \<Longrightarrow> tx_valid P (case x of (y, z) \<Rightarrow> m y z) Q"
  by (simp split: prod.split)

lemma tx_valid_conj_pre: "(p \<Longrightarrow> tx_valid P m Q) \<Longrightarrow> tx_valid (\<lambda>s. P s \<and> p) m Q"
  by (auto simp: tx_valid_def)

lemma tx_valid_when: "(b \<Longrightarrow> tx_valid P m Q) \<Longrightarrow> (\<not> b \<Longrightarrow> tx_valid P (tx_return ()) Q) \<Longrightarrow> tx_valid P (tx_when b m) Q"
  by (auto simp: tx_when_def)

lemma tx_keeps_require [tx_cases]: "tx_keeps P (tx_require b e)"
  by (auto simp: tx_valid_def tx_simps split: if_splits)

lemma tx_keeps_result [tx_cases]: "tx_keeps P (tx_result r)"
  by (auto simp: tx_valid_def tx_simps)

lemmas [tx_cases] = tx_valid_option tx_valid_pair

end
