(* ===== verification/Economy_Ledger.thy ===== *)
theory Economy_Ledger
  imports Economy_Rules Transactions
begin

text \<open>
  \<open>economy/economy.service.ts\<close>: wallets, the ledger behind them, the daily counters, and every operation
  that writes them, each one transaction under the row locks it takes. Balances are unbounded
  integers. The idempotency keys are a datatype: each constructor is one of the templates the code
  builds a key with, and the ids in them are cuids, which hold no colon. The random part of a key
  is the number of the ledger row it is written with, which is as unique. What the code reads of
  users and their published posts and comments is the argument \<open>accounts\<close>; the ids it is called
  with are of existing users, as the foreign keys demand. The JSON metadata of a ledger row is left
  out.
\<close>

section \<open>Tables\<close>

datatype currency = REPUTATION | SHARDS | PRISMS

datatype ledger_reason =
    DAILY_CHECKIN | LIKE_RECEIVED | COMMENT_RECEIVED | LIKE_MILESTONE | COMMENT_WRITTEN
  | REVOKED | RESTORED | ADMIN_ADJUST | TAKEDOWN_REFUND

datatype economy_source = POST_SOURCE | COMMENT_SOURCE | COSMETIC_SOURCE

datatype interaction_kind = LIKE | COMMENT

datatype revoke_cause = CONTENT | ACTOR

record wallet =
  wa_reputation :: int
  wa_shards :: int
  wa_prisms :: int
  wa_reputation90d :: int
  wa_rank :: reputation_rank
  wa_rankUpdatedAt :: time

datatype key_part = Rep_part | Shards_part

datatype ledger_key =
    Check_in_key user_id time
  | Like_key economy_source string user_id key_part
  | Milestone_key economy_source string int
  | Comment_written_key string
  | Comment_key string user_id key_part
  | Adjust_key nat
  | Takedown_key string user_id
  | Revoke_key nat nat
  | Restore_key nat nat

record ledger_entry =
  le_id :: nat
  le_user :: user_id
  le_currency :: currency
  le_delta :: int
  le_balanceAfter :: int
  le_reason :: ledger_reason
  le_sourceType :: "economy_source option"
  le_sourceId :: "string option"
  le_actor :: "user_id option"
  le_award :: "nat option"
  le_revokedAt :: "time option"
  le_revokedCause :: "revoke_cause option"
  le_revokedAmount :: "int option"
  le_key :: ledger_key
  le_createdAt :: time

record daily_earning =
  de_baseShards :: int
  de_creditedShards :: int
  de_likesCounted :: int
  de_commentsCounted :: int
  de_repFromLikes :: int
  de_repFromComments :: int
  de_commentsWritten :: int

record counted_interaction =
  ci_kind :: interaction_kind
  ci_targetType :: economy_source
  ci_targetId :: string
  ci_actor :: user_id
  ci_owner :: user_id

record wallet_audit =
  au_admin :: user_id
  au_user :: user_id
  au_currency :: currency
  au_delta :: int
  au_balanceAfter :: int
  au_reason :: string
  au_entry :: nat

record economy =
  ec_wallets :: "(user_id \<times> wallet) list"
  ec_ledger :: "ledger_entry list"
  ec_days :: "((user_id \<times> time) \<times> daily_earning) list"
  ec_given :: "((user_id \<times> user_id \<times> time) \<times> int) list"
  ec_counted :: "counted_interaction list"
  ec_audit :: "wallet_audit list"

type_synonym 'a economy_tx = "(economy, 'a) tx"
type_synonym accounts = "(user_id \<times> account) list"

text \<open>The reasons that are earnings, and the columns a currency selects.\<close>

definition award_reasons :: "ledger_reason list" where
  "award_reasons = [LIKE_RECEIVED, COMMENT_RECEIVED, LIKE_MILESTONE, COMMENT_WRITTEN]"

fun balance_field :: "currency \<Rightarrow> wallet \<Rightarrow> int" where
  "balance_field REPUTATION w = wa_reputation w"
| "balance_field SHARDS w = wa_shards w"
| "balance_field PRISMS w = wa_prisms w"

fun increment_balance :: "currency \<Rightarrow> int \<Rightarrow> wallet \<Rightarrow> wallet" where
  "increment_balance REPUTATION d w = w\<lparr>wa_reputation := wa_reputation w + d\<rparr>"
| "increment_balance SHARDS d w = w\<lparr>wa_shards := wa_shards w + d\<rparr>"
| "increment_balance PRISMS d w = w\<lparr>wa_prisms := wa_prisms w + d\<rparr>"

fun source_of_content :: "economy_source \<Rightarrow> string \<Rightarrow> ledger_entry \<Rightarrow> bool" where
  "source_of_content t i e \<longleftrightarrow> le_sourceType e = Some t \<and> le_sourceId e = Some i"

section \<open>Rows\<close>

definition new_wallet :: "time \<Rightarrow> wallet" where
  "new_wallet now = \<lparr>wa_reputation = 0, wa_shards = 0, wa_prisms = 0, wa_reputation90d = 0,
     wa_rank = STARGAZER, wa_rankUpdatedAt = now\<rparr>"

definition new_day :: daily_earning where
  "new_day = \<lparr>de_baseShards = 0, de_creditedShards = 0, de_likesCounted = 0, de_commentsCounted = 0,
     de_repFromLikes = 0, de_repFromComments = 0, de_commentsWritten = 0\<rparr>"

text \<open>\<open>lockWallet\<close> and \<open>lockWallets\<close>: the row, created when it is missing.\<close>

definition lock_wallet :: "time \<Rightarrow> user_id \<Rightarrow> wallet economy_tx" where
  "lock_wallet now u s =
     (case map_of (ec_wallets s) u of
        Some w \<Rightarrow> Inr (s, w)
      | None \<Rightarrow> Inr (s\<lparr>ec_wallets := AList.update u (new_wallet now) (ec_wallets s)\<rparr>, new_wallet now))"

definition lock_wallets :: "time \<Rightarrow> user_id list \<Rightarrow> wallet list economy_tx" where
  "lock_wallets now us =
     tx_bind (tx_map (\<lambda>u. tx_bind (lock_wallet now u) (\<lambda>w. tx_return (u, w))) (sort (js_set us)))
       (\<lambda>rows. tx_return (map (\<lambda>u. the (map_of rows u)) us))"

definition lock_day :: "time \<Rightarrow> user_id \<Rightarrow> daily_earning economy_tx" where
  "lock_day day u s =
     (case map_of (ec_days s) (u, day) of
        Some r \<Rightarrow> Inr (s, r)
      | None \<Rightarrow> Inr (s\<lparr>ec_days := AList.update (u, day) new_day (ec_days s)\<rparr>, new_day))"

definition lock_days :: "user_id list \<Rightarrow> time \<Rightarrow> daily_earning list economy_tx" where
  "lock_days us day =
     tx_bind (tx_map (\<lambda>u. tx_bind (lock_day day u) (\<lambda>r. tx_return (u, r))) (sort (js_set us)))
       (\<lambda>rows. tx_return (map (\<lambda>u. the (map_of rows u)) us))"

text \<open>An \<open>update\<close> by primary key returns the new row and throws when there is none.\<close>

definition update_wallet :: "user_id \<Rightarrow> (wallet \<Rightarrow> wallet) \<Rightarrow> wallet economy_tx" where
  "update_wallet u f s =
     (case map_of (ec_wallets s) u of
        None \<Rightarrow> Inl (ServerError Record_not_found)
      | Some w \<Rightarrow> Inr (s\<lparr>ec_wallets := AList.update u (f w) (ec_wallets s)\<rparr>, f w))"

definition update_day :: "user_id \<Rightarrow> time \<Rightarrow> (daily_earning \<Rightarrow> daily_earning) \<Rightarrow> daily_earning economy_tx" where
  "update_day u day f s =
     (case map_of (ec_days s) (u, day) of
        None \<Rightarrow> Inl (ServerError Record_not_found)
      | Some r \<Rightarrow> Inr (s\<lparr>ec_days := AList.update (u, day) (f r) (ec_days s)\<rparr>, f r))"

text \<open>A new ledger row; the unique index on the idempotency key refuses a second one.\<close>

definition find_key :: "ledger_key \<Rightarrow> economy \<Rightarrow> ledger_entry option" where
  "find_key k s = find (\<lambda>e. le_key e = k) (ec_ledger s)"

definition create_entry :: "(nat \<Rightarrow> ledger_entry) \<Rightarrow> ledger_entry economy_tx" where
  "create_entry mk s =
     (let e = mk (length (ec_ledger s))
      in if find_key (le_key e) s = None then Inr (s\<lparr>ec_ledger := ec_ledger s @ [e]\<rparr>, e)
         else Inl (ServerError Unique_violation))"

text \<open>\<open>countedInteraction.createMany\<close> with \<open>skipDuplicates\<close>, returning how many rows were new.\<close>

definition same_interaction :: "counted_interaction \<Rightarrow> counted_interaction \<Rightarrow> bool" where
  "same_interaction a b \<longleftrightarrow> ci_kind a = ci_kind b \<and> ci_targetType a = ci_targetType b
     \<and> ci_targetId a = ci_targetId b \<and> ci_actor a = ci_actor b"

definition create_counted :: "counted_interaction \<Rightarrow> nat economy_tx" where
  "create_counted c s =
     (if \<exists>d \<in> set (ec_counted s). same_interaction d c then Inr (s, 0)
      else Inr (s\<lparr>ec_counted := ec_counted s @ [c]\<rparr>, 1))"

definition count_likes :: "economy_source \<Rightarrow> string \<Rightarrow> economy \<Rightarrow> int" where
  "count_likes t i s = int (length (filter (\<lambda>c. ci_kind c = LIKE \<and> ci_targetType c = t \<and> ci_targetId c = i) (ec_counted s)))"

section \<open>Moving a balance\<close>

record credit_request =
  cr_user :: user_id
  cr_currency :: currency
  cr_delta :: int
  cr_reason :: ledger_reason
  cr_key :: ledger_key
  cr_sourceType :: "economy_source option"
  cr_sourceId :: "string option"
  cr_actor :: "user_id option"
  cr_award :: "nat option"

definition credit_entry :: "time \<Rightarrow> credit_request \<Rightarrow> int \<Rightarrow> nat \<Rightarrow> ledger_entry" where
  "credit_entry now cr balance_after n =
     \<lparr>le_id = n, le_user = cr_user cr, le_currency = cr_currency cr, le_delta = cr_delta cr,
      le_balanceAfter = balance_after, le_reason = cr_reason cr, le_sourceType = cr_sourceType cr,
      le_sourceId = cr_sourceId cr, le_actor = cr_actor cr, le_award = cr_award cr,
      le_revokedAt = None, le_revokedCause = None, le_revokedAmount = None, le_key = cr_key cr,
      le_createdAt = now\<rparr>"

definition rank_delta :: "credit_request \<Rightarrow> int" where
  "rank_delta cr = (if cr_currency cr = REPUTATION \<and> cr_reason cr \<in> set award_reasons then cr_delta cr else 0)"

text \<open>The columns \<open>credit\<close> writes, from the row it locked (\<open>current\<close>) and the row as it is.\<close>

definition credit_data :: "credit_request \<Rightarrow> wallet \<Rightarrow> wallet \<Rightarrow> wallet" where
  "credit_data cr current w =
     (let next_balance = balance_field (cr_currency cr) current + cr_delta cr;
          next_rep90d = max 0 (wa_reputation90d current + rank_delta cr);
          w1 = increment_balance (cr_currency cr) (cr_delta cr) w;
          w2 = (if rank_delta cr \<noteq> 0 then w1\<lparr>wa_reputation90d := wa_reputation90d w1 + rank_delta cr\<rparr> else w1)
      in if cr_currency cr = REPUTATION then w2\<lparr>wa_rank := rank_for next_balance next_rep90d\<rparr> else w2)"

definition credit :: "time \<Rightarrow> credit_request \<Rightarrow> ledger_entry economy_tx" where
  "credit now cr =
     tx_bind (lock_wallet now (cr_user cr)) (\<lambda>current.
     tx_bind (update_wallet (cr_user cr) (credit_data cr current)) (\<lambda>wallet.
     create_entry (credit_entry now cr (balance_field (cr_currency cr) wallet))))"

text \<open>What the callers of \<open>creditCappedShards\<close> pass as \<open>award\<close>: a credit without user, currency, delta.\<close>

definition shards_award :: "ledger_reason \<Rightarrow> ledger_key \<Rightarrow> economy_source option \<Rightarrow> string option
    \<Rightarrow> user_id option \<Rightarrow> credit_request" where
  "shards_award reason key t i actor =
     \<lparr>cr_user = [], cr_currency = SHARDS, cr_delta = 0, cr_reason = reason, cr_key = key,
      cr_sourceType = t, cr_sourceId = i, cr_actor = actor, cr_award = None\<rparr>"

definition credit_capped_shards :: "time \<Rightarrow> user_id \<Rightarrow> time \<Rightarrow> int \<Rightarrow> credit_request \<Rightarrow> unit economy_tx" where
  "credit_capped_shards now u day base award =
     tx_bind (update_day u day (\<lambda>r. r\<lparr>de_baseShards := de_baseShards r + base\<rparr>)) (\<lambda>updated.
     let shards = shards_to_credit (de_baseShards updated) (de_creditedShards updated)
     in if shards \<le> 0 then tx_return ()
        else tx_bind (update_day u day (\<lambda>r. r\<lparr>de_creditedShards := de_creditedShards r + shards\<rparr>)) (\<lambda>_.
             tx_bind (credit now (award\<lparr>cr_user := u, cr_currency := SHARDS, cr_delta := shards\<rparr>)) (\<lambda>_.
             tx_return ())))"

text \<open>
  \<open>countField\<close>, \<open>repField\<close> and \<open>stepFn\<close> of \<open>awardSteppedReputation\<close> always go together, so the kind of
  interaction selects all three.
\<close>

fun count_field :: "interaction_kind \<Rightarrow> daily_earning \<Rightarrow> int" where
  "count_field LIKE r = de_likesCounted r"
| "count_field COMMENT r = de_commentsCounted r"

fun rep_field :: "interaction_kind \<Rightarrow> daily_earning \<Rightarrow> int" where
  "rep_field LIKE r = de_repFromLikes r"
| "rep_field COMMENT r = de_repFromComments r"

fun increment_count :: "interaction_kind \<Rightarrow> daily_earning \<Rightarrow> daily_earning" where
  "increment_count LIKE r = r\<lparr>de_likesCounted := de_likesCounted r + 1\<rparr>"
| "increment_count COMMENT r = r\<lparr>de_commentsCounted := de_commentsCounted r + 1\<rparr>"

fun increment_rep :: "interaction_kind \<Rightarrow> int \<Rightarrow> daily_earning \<Rightarrow> daily_earning" where
  "increment_rep LIKE d r = r\<lparr>de_repFromLikes := de_repFromLikes r + d\<rparr>"
| "increment_rep COMMENT d r = r\<lparr>de_repFromComments := de_repFromComments r + d\<rparr>"

fun step_fn :: "interaction_kind \<Rightarrow> int \<Rightarrow> int" where
  "step_fn LIKE = reputation_from_likes"
| "step_fn COMMENT = reputation_from_comments"

fun received :: "interaction_kind \<Rightarrow> ledger_reason" where
  "received LIKE = LIKE_RECEIVED"
| "received COMMENT = COMMENT_RECEIVED"

definition given_by :: "user_id \<Rightarrow> user_id \<Rightarrow> time \<Rightarrow> economy \<Rightarrow> int" where
  "given_by owner giver day s = (case map_of (ec_given s) (owner, giver, day) of None \<Rightarrow> 0 | Some n \<Rightarrow> n)"

definition giver_has_room :: "user_id \<Rightarrow> user_id \<Rightarrow> time \<Rightarrow> economy \<Rightarrow> bool" where
  "giver_has_room owner giver day s \<longleftrightarrow> given_by owner giver day s < max_reputation_per_giver_per_day"

definition record_given :: "user_id \<Rightarrow> user_id \<Rightarrow> time \<Rightarrow> int \<Rightarrow> unit economy_tx" where
  "record_given owner giver day reputation =
     tx_modify (\<lambda>s. s\<lparr>ec_given :=
       AList.update (owner, giver, day) (given_by owner giver day s + reputation) (ec_given s)\<rparr>)"

definition award_stepped_reputation ::
    "time \<Rightarrow> user_id \<Rightarrow> user_id \<Rightarrow> time \<Rightarrow> interaction_kind \<Rightarrow> ledger_key \<Rightarrow> economy_source \<Rightarrow> string \<Rightarrow> unit economy_tx" where
  "award_stepped_reputation now owner giver day kind key t i =
     tx_bind (tx_gets (giver_has_room owner giver day)) (\<lambda>room.
     if \<not> room then tx_return ()
     else
     tx_bind (update_day owner day (increment_count kind)) (\<lambda>updated.
     let reputation = step_fn kind (count_field kind updated) - rep_field kind updated
     in if reputation \<le> 0 then tx_return ()
        else
        tx_bind (update_day owner day (increment_rep kind reputation)) (\<lambda>_.
        tx_bind (record_given owner giver day reputation) (\<lambda>_.
        tx_bind (credit now
          \<lparr>cr_user = owner, cr_currency = REPUTATION, cr_delta = reputation, cr_reason = received kind,
           cr_key = key, cr_sourceType = Some t, cr_sourceId = Some i, cr_actor = Some giver,
           cr_award = None\<rparr>) (\<lambda>_.
        tx_return ())))))"

section \<open>Likes and comments\<close>

text \<open>\<open>hmac\<close> is the digest of a user id under the server's secret.\<close>

definition is_active :: "accounts \<Rightarrow> user_id \<Rightarrow> bool" where
  "is_active accounts u = (case map_of accounts u of None \<Rightarrow> False | Some a \<Rightarrow> ac_status a = ACTIVE_USER)"

definition can_earn_from :: "(user_id \<Rightarrow> bytes) \<Rightarrow> accounts \<Rightarrow> user_id \<Rightarrow> user_id \<Rightarrow> time \<Rightarrow> bool" where
  "can_earn_from hmac accounts owner giver now =
     (is_active accounts owner \<and>
      (case map_of accounts giver of
         None \<Rightarrow> False
       | Some g \<Rightarrow> is_established g (trust_thresholds hmac giver) now))"

definition credit_milestone :: "time \<Rightarrow> user_id \<Rightarrow> economy_source \<Rightarrow> string \<Rightarrow> unit economy_tx" where
  "credit_milestone now owner t i =
     tx_bind (tx_gets (count_likes t i)) (\<lambda>likes.
     case map_of like_milestone_shards likes of
       None \<Rightarrow> tx_return ()
     | Some shards \<Rightarrow>
         tx_bind (credit now
           \<lparr>cr_user = owner, cr_currency = SHARDS, cr_delta = shards, cr_reason = LIKE_MILESTONE,
            cr_key = Milestone_key t i likes, cr_sourceType = Some t, cr_sourceId = Some i,
            cr_actor = None, cr_award = None\<rparr>) (\<lambda>_. tx_return ()))"

definition record_like ::
    "(user_id \<Rightarrow> bytes) \<Rightarrow> accounts \<Rightarrow> time \<Rightarrow> economy_source \<Rightarrow> string \<Rightarrow> user_id \<Rightarrow> user_id \<Rightarrow> unit economy_tx" where
  "record_like hmac accounts now t i owner liker =
     (if owner = liker then tx_return ()
      else if \<not> can_earn_from hmac accounts owner liker now then tx_return ()
      else
      tx_bind (create_counted \<lparr>ci_kind = LIKE, ci_targetType = t, ci_targetId = i, ci_actor = liker, ci_owner = owner\<rparr>) (\<lambda>counted.
      if counted = 0 then tx_return ()
      else
      let day = economy_day now in
      tx_bind (lock_days [owner] day) (\<lambda>_.
      tx_bind (award_stepped_reputation now owner liker day LIKE (Like_key t i liker Rep_part) t i) (\<lambda>_.
      tx_bind (credit_capped_shards now owner day shards_per_counted_interaction
        (shards_award LIKE_RECEIVED (Like_key t i liker Shards_part) (Some t) (Some i) (Some liker))) (\<lambda>_.
      credit_milestone now owner t i)))))"

text \<open>\<open>recordComment\<close>: the two halves that follow the locks, then the whole.\<close>

definition pay_comment_writer :: "time \<Rightarrow> string \<Rightarrow> user_id \<Rightarrow> daily_earning \<Rightarrow> unit economy_tx" where
  "pay_comment_writer now comment commenter commenter_day =
     (if de_commentsWritten commenter_day < shard_paying_comments_per_day
      then tx_bind (update_day commenter (economy_day now) (\<lambda>r. r\<lparr>de_commentsWritten := de_commentsWritten r + 1\<rparr>)) (\<lambda>_.
           credit_capped_shards now commenter (economy_day now) 1
             (shards_award COMMENT_WRITTEN (Comment_written_key comment) (Some COMMENT_SOURCE)
               (Some comment) (Some commenter)))
      else tx_return ())"

definition reward_post_owner ::
    "(user_id \<Rightarrow> bytes) \<Rightarrow> accounts \<Rightarrow> time \<Rightarrow> string \<Rightarrow> string \<Rightarrow> user_id \<Rightarrow> user_id \<Rightarrow> unit economy_tx" where
  "reward_post_owner hmac accounts now comment post post_owner commenter =
     (if \<not> can_earn_from hmac accounts post_owner commenter now then tx_return ()
      else
      tx_bind (create_counted \<lparr>ci_kind = COMMENT, ci_targetType = POST_SOURCE, ci_targetId = post,
                 ci_actor = commenter, ci_owner = post_owner\<rparr>) (\<lambda>counted.
      if counted = 0 then tx_return ()
      else
      let day = economy_day now in
      tx_bind (award_stepped_reputation now post_owner commenter day COMMENT
        (Comment_key post commenter Rep_part) COMMENT_SOURCE comment) (\<lambda>_.
      credit_capped_shards now post_owner day shards_per_counted_interaction
        (shards_award COMMENT_RECEIVED (Comment_key post commenter Shards_part) (Some COMMENT_SOURCE)
          (Some comment) (Some commenter)))))"

definition record_comment ::
    "(user_id \<Rightarrow> bytes) \<Rightarrow> accounts \<Rightarrow> time \<Rightarrow> string \<Rightarrow> string \<Rightarrow> user_id \<Rightarrow> user_id \<Rightarrow> unit economy_tx" where
  "record_comment hmac accounts now comment post post_owner commenter =
     (if post_owner = commenter then tx_return ()
      else if \<not> is_active accounts commenter then tx_return ()
      else
      tx_bind (lock_days [commenter, post_owner] (economy_day now)) (\<lambda>days.
      tx_bind (lock_wallets now [commenter, post_owner]) (\<lambda>_.
      tx_bind (pay_comment_writer now comment commenter (days ! 0)) (\<lambda>_.
      reward_post_owner hmac accounts now comment post post_owner commenter))))"

section \<open>The check-in, corrections, refunds\<close>

definition check_in :: "accounts \<Rightarrow> time \<Rightarrow> user_id \<Rightarrow> int economy_tx" where
  "check_in accounts now u =
     (let day = economy_day now in
      case map_of accounts u of
        None \<Rightarrow> tx_fail (ServerError Record_not_found)
      | Some a \<Rightarrow>
          if ac_status a \<noteq> ACTIVE_USER then tx_fail (BadRequest (Economy Account_cannot_earn))
          else
          tx_bind (lock_days [u] day) (\<lambda>_.
          tx_bind (tx_gets (find_key (Check_in_key u day))) (\<lambda>already.
          if already \<noteq> None then tx_fail (Conflict (Economy Already_checked_in))
          else
          tx_bind (update_day u day (\<lambda>r. r\<lparr>de_baseShards := de_baseShards r + check_in_shards\<rparr>)) (\<lambda>updated.
          let shards = shards_to_credit (de_baseShards updated) (de_creditedShards updated) in
          tx_bind (if 0 < shards
                   then tx_bind (update_day u day (\<lambda>r. r\<lparr>de_creditedShards := de_creditedShards r + shards\<rparr>)) (\<lambda>_. tx_return ())
                   else tx_return ()) (\<lambda>_.
          tx_bind (credit now
            \<lparr>cr_user = u, cr_currency = SHARDS, cr_delta = shards, cr_reason = DAILY_CHECKIN,
             cr_key = Check_in_key u day, cr_sourceType = None, cr_sourceId = None, cr_actor = None,
             cr_award = None\<rparr>) (\<lambda>_.
          tx_return shards))))))"

definition adjust ::
    "accounts \<Rightarrow> time \<Rightarrow> user_id \<Rightarrow> user_id \<Rightarrow> currency \<Rightarrow> int \<Rightarrow> string \<Rightarrow> ledger_entry economy_tx" where
  "adjust accounts now admin u c delta reason =
     (if map_of accounts u = None then tx_fail (NotFound (Economy User_not_found))
      else
      tx_bind (lock_wallet now u) (\<lambda>wallet.
      if balance_field c wallet + delta < 0 then tx_fail (BadRequest (Economy Balance_below_zero))
      else
      tx_bind (tx_gets (\<lambda>s. length (ec_ledger s))) (\<lambda>uuid.
      tx_bind (credit now
        \<lparr>cr_user = u, cr_currency = c, cr_delta = delta, cr_reason = ADMIN_ADJUST, cr_key = Adjust_key uuid,
         cr_sourceType = None, cr_sourceId = None, cr_actor = Some admin, cr_award = None\<rparr>) (\<lambda>entry.
      tx_bind (tx_modify (\<lambda>s. s\<lparr>ec_audit := ec_audit s @
        [\<lparr>au_admin = admin, au_user = u, au_currency = c, au_delta = delta,
          au_balanceAfter = le_balanceAfter entry, au_reason = reason, au_entry = le_id entry\<rparr>]\<rparr>)) (\<lambda>_.
      tx_return entry)))))"

definition refund_one :: "time \<Rightarrow> string \<Rightarrow> int \<Rightarrow> user_id \<Rightarrow> user_id \<Rightarrow> nat economy_tx" where
  "refund_one now item amount actor u =
     tx_bind (tx_gets (find_key (Takedown_key item u))) (\<lambda>existing.
     if existing \<noteq> None then tx_return 0
     else
     tx_bind (credit now
       \<lparr>cr_user = u, cr_currency = SHARDS, cr_delta = amount, cr_reason = TAKEDOWN_REFUND,
        cr_key = Takedown_key item u, cr_sourceType = Some COSMETIC_SOURCE, cr_sourceId = Some item,
        cr_actor = Some actor, cr_award = None\<rparr>) (\<lambda>_.
     tx_return 1))"

definition credit_takedown_refunds ::
    "time \<Rightarrow> user_id list \<Rightarrow> string \<Rightarrow> int \<Rightarrow> user_id \<Rightarrow> nat economy_tx" where
  "credit_takedown_refunds now users item amount actor =
     (if amount \<le> 0 \<or> users = [] then tx_return 0
      else
      let ordered = sort (js_set users) in
      tx_bind (lock_wallets now ordered) (\<lambda>_.
      tx_bind (tx_map (refund_one now item amount actor) ordered) (\<lambda>refunded.
      tx_return (sum_list refunded))))"

section \<open>Ranks\<close>

definition recent_reputation :: "time \<Rightarrow> user_id \<Rightarrow> economy \<Rightarrow> int" where
  "recent_reputation since u s =
     sum_list (map le_delta (filter (\<lambda>e. le_user e = u \<and> le_currency e = REPUTATION
       \<and> le_reason e \<in> set award_reasons \<and> le_revokedAt e = None \<and> since \<le> le_createdAt e) (ec_ledger s)))"

text \<open>
  \<open>recountRank\<close> reads the ledger and the wallet, then writes the wallet. Inside a transaction that holds
  the wallet's lock the two go together; \<open>refreshRank\<close> runs them outside any transaction.
\<close>

definition read_rank :: "time \<Rightarrow> user_id \<Rightarrow> economy \<Rightarrow> int \<times> int" where
  "read_rank now u s =
     (max 0 (recent_reputation (now - rank_window_days * 86400000) u s),
      case map_of (ec_wallets s) u of None \<Rightarrow> 0 | Some w \<Rightarrow> wa_reputation w)"

definition write_rank :: "time \<Rightarrow> user_id \<Rightarrow> int \<times> int \<Rightarrow> unit economy_tx" where
  "write_rank now u counts =
     tx_bind (update_wallet u (\<lambda>w. w\<lparr>wa_reputation90d := fst counts,
       wa_rank := rank_for (snd counts) (fst counts), wa_rankUpdatedAt := now\<rparr>)) (\<lambda>_. tx_return ())"

definition recount_rank :: "time \<Rightarrow> user_id \<Rightarrow> unit economy_tx" where
  "recount_rank now u = tx_bind (tx_gets (read_rank now u)) (write_rank now u)"

definition recount_ranks_of :: "time \<Rightarrow> ledger_entry list \<Rightarrow> unit economy_tx" where
  "recount_ranks_of now awards =
     tx_bind (tx_map (recount_rank now)
       (sort (js_set (map le_user (filter (\<lambda>e. le_currency e = REPUTATION) awards))))) (\<lambda>_. tx_return ())"

text \<open>
  The nightly refresh: every wallet whose window may have moved, one after the other, when nothing
  else runs in between.
\<close>

definition stale_ranks :: "time \<Rightarrow> economy \<Rightarrow> user_id list" where
  "stale_ranks now s =
     map fst (filter (\<lambda>(_, w). (0 < wa_reputation90d w \<or> wa_rank w \<in> set [SUPERNOVA, GALAXY])
       \<and> wa_rankUpdatedAt w < now - 12 * 60 * 60 * 1000) (ec_wallets s))"

definition refresh_stale_ranks :: "time \<Rightarrow> nat economy_tx" where
  "refresh_stale_ranks now =
     tx_bind (tx_gets (stale_ranks now)) (\<lambda>stale.
     tx_bind (tx_map (recount_rank now) stale) (\<lambda>_. tx_return (length stale)))"

definition prune_old_giver_days :: "time \<Rightarrow> nat economy_tx" where
  "prune_old_giver_days now =
     tx_bind (tx_gets (\<lambda>s. length (filter (\<lambda>((_, _, day), _). day < economy_day now) (ec_given s)))) (\<lambda>n.
     tx_bind (tx_modify (\<lambda>s. s\<lparr>ec_given := filter (\<lambda>((_, _, day), _). \<not> day < economy_day now) (ec_given s)\<rparr>)) (\<lambda>_.
     tx_return n))"

text \<open>The nightly check of the cached balances against the ledger.\<close>

definition ledger_sum :: "user_id \<Rightarrow> currency \<Rightarrow> ledger_entry list \<Rightarrow> int" where
  "ledger_sum u c es = sum_list (map le_delta (filter (\<lambda>e. le_user e = u \<and> le_currency e = c) es))"

definition verify_wallet_balances :: "economy \<Rightarrow> user_id list" where
  "verify_wallet_balances s =
     map fst (filter (\<lambda>(u, w). wa_reputation w \<noteq> ledger_sum u REPUTATION (ec_ledger s)
       \<or> wa_shards w \<noteq> ledger_sum u SHARDS (ec_ledger s)
       \<or> wa_prisms w \<noteq> ledger_sum u PRISMS (ec_ledger s)) (ec_wallets s))"

section \<open>Taking back and giving back\<close>

text \<open>
  The order rows are taken in compares user ids, then row ids, with \<open>localeCompare\<close>: an argument, the
  two comparisons.
\<close>

definition locale_order ::
    "(user_id \<Rightarrow> user_id \<Rightarrow> bool) \<Rightarrow> (nat \<Rightarrow> nat \<Rightarrow> bool) \<Rightarrow> ledger_entry \<Rightarrow> ledger_entry \<Rightarrow> bool" where
  "locale_order user_le id_le a b =
     (if le_user a = le_user b then id_le (le_id a) (le_id b) else user_le (le_user a) (le_user b))"

text \<open>\<open>updateMany\<close> on one row id with a condition, returning how many rows it changed.\<close>

definition update_entry_if ::
    "nat \<Rightarrow> (ledger_entry \<Rightarrow> bool) \<Rightarrow> (ledger_entry \<Rightarrow> ledger_entry) \<Rightarrow> nat economy_tx" where
  "update_entry_if i cond f s =
     Inr (s\<lparr>ec_ledger := map (\<lambda>e. if le_id e = i \<and> cond e then f e else e) (ec_ledger s)\<rparr>,
          length (filter (\<lambda>e. le_id e = i \<and> cond e) (ec_ledger s)))"

definition undo_entry :: "time \<Rightarrow> ledger_entry \<Rightarrow> int \<Rightarrow> int \<Rightarrow> ledger_reason \<Rightarrow> (nat \<Rightarrow> nat \<Rightarrow> ledger_key) \<Rightarrow> nat \<Rightarrow> ledger_entry" where
  "undo_entry now award delta balance_after reason key n =
     \<lparr>le_id = n, le_user = le_user award, le_currency = le_currency award, le_delta = delta,
      le_balanceAfter = balance_after, le_reason = reason, le_sourceType = le_sourceType award,
      le_sourceId = le_sourceId award, le_actor = le_actor award, le_award = Some (le_id award),
      le_revokedAt = None, le_revokedCause = None, le_revokedAmount = None,
      le_key = key (le_id award) n, le_createdAt = now\<rparr>"

definition revoke_one :: "time \<Rightarrow> revoke_cause \<Rightarrow> ledger_entry \<Rightarrow> unit economy_tx" where
  "revoke_one now cause award =
     tx_bind (update_entry_if (le_id award) (\<lambda>e. le_revokedAt e = None)
       (\<lambda>e. e\<lparr>le_revokedAt := Some now, le_revokedCause := Some cause\<rparr>)) (\<lambda>claimed.
     if claimed = 0 then tx_return ()
     else
     tx_bind (lock_wallet now (le_user award)) (\<lambda>wallet.
     let taken = min (le_delta award) (balance_field (le_currency award) wallet) in
     tx_bind (update_wallet (le_user award) (increment_balance (le_currency award) (- taken))) (\<lambda>updated.
     tx_bind (update_entry_if (le_id award) (\<lambda>_. True) (\<lambda>e. e\<lparr>le_revokedAmount := Some taken\<rparr>)) (\<lambda>_.
     tx_bind (create_entry (undo_entry now award (- taken) (balance_field (le_currency award) updated) REVOKED Revoke_key)) (\<lambda>_.
     tx_return ())))))"

definition revoke ::
    "(ledger_entry \<Rightarrow> ledger_entry \<Rightarrow> bool) \<Rightarrow> time \<Rightarrow> ledger_entry list \<Rightarrow> revoke_cause \<Rightarrow> unit economy_tx" where
  "revoke le now awards cause =
     (let ordered = sort_by le awards in
      tx_bind (tx_map (revoke_one now cause) ordered) (\<lambda>_. recount_ranks_of now ordered))"

definition restore_one :: "time \<Rightarrow> ledger_entry \<Rightarrow> unit economy_tx" where
  "restore_one now award =
     (let given = (case le_revokedAmount award of None \<Rightarrow> 0 | Some n \<Rightarrow> n) in
      tx_bind (update_entry_if (le_id award) (\<lambda>e. le_revokedAt e \<noteq> None)
        (\<lambda>e. e\<lparr>le_revokedAt := None, le_revokedCause := None, le_revokedAmount := None\<rparr>)) (\<lambda>claimed.
      if claimed = 0 then tx_return ()
      else
      tx_bind (lock_wallet now (le_user award)) (\<lambda>_.
      tx_bind (update_wallet (le_user award) (increment_balance (le_currency award) given)) (\<lambda>updated.
      tx_bind (create_entry (undo_entry now award given (balance_field (le_currency award) updated) RESTORED Restore_key)) (\<lambda>_.
      tx_return ())))))"

definition restore :: "(ledger_entry \<Rightarrow> ledger_entry \<Rightarrow> bool) \<Rightarrow> time \<Rightarrow> ledger_entry list \<Rightarrow> unit economy_tx" where
  "restore le now awards =
     (let ordered = sort_by le awards in
      tx_bind (tx_map (restore_one now) ordered) (\<lambda>_. recount_ranks_of now ordered))"

definition revoke_for_content ::
    "(ledger_entry \<Rightarrow> ledger_entry \<Rightarrow> bool) \<Rightarrow> time \<Rightarrow> economy_source \<Rightarrow> string \<Rightarrow> unit economy_tx" where
  "revoke_for_content le now t i =
     tx_bind (tx_gets (\<lambda>s. filter (\<lambda>e. source_of_content t i e \<and> le_reason e \<in> set award_reasons
       \<and> le_revokedAt e = None) (ec_ledger s))) (\<lambda>awards. revoke le now awards CONTENT)"

definition restore_for_content ::
    "(ledger_entry \<Rightarrow> ledger_entry \<Rightarrow> bool) \<Rightarrow> time \<Rightarrow> economy_source \<Rightarrow> string \<Rightarrow> unit economy_tx" where
  "restore_for_content le now t i =
     tx_bind (tx_gets (\<lambda>s. filter (\<lambda>e. source_of_content t i e \<and> le_revokedCause e = Some CONTENT) (ec_ledger s)))
       (\<lambda>awards. restore le now awards)"

section \<open>Reading\<close>

record wallet_view =
  wv_balances :: "int \<times> int \<times> int"
  wv_rank :: reputation_rank
  wv_reputation90d :: int
  wv_shardsEarned :: int
  wv_shardCap :: int
  wv_checkedIn :: bool
  wv_resetsAt :: time

definition get_wallet :: "time \<Rightarrow> user_id \<Rightarrow> economy \<Rightarrow> wallet_view" where
  "get_wallet now u s =
     (let day = economy_day now;
          w = (case map_of (ec_wallets s) u of None \<Rightarrow> new_wallet now | Some w \<Rightarrow> w)
      in \<lparr>wv_balances = (wa_reputation w, wa_shards w, wa_prisms w), wv_rank = wa_rank w,
          wv_reputation90d = wa_reputation90d w,
          wv_shardsEarned = (case map_of (ec_days s) (u, day) of None \<Rightarrow> 0 | Some r \<Rightarrow> de_creditedShards r),
          wv_shardCap = daily_shard_cap,
          wv_checkedIn = (find_key (Check_in_key u day) s \<noteq> None),
          wv_resetsAt = next_economy_day_start now\<rparr>)"

text \<open>
  \<open>listLedger\<close>: newest first, from after the cursor, and the id to go on from when there is more. Rows are
  appended in the order they are created, so newest first is the reverse of the table.
\<close>

definition list_ledger :: "user_id \<Rightarrow> nat option \<Rightarrow> nat \<Rightarrow> economy \<Rightarrow> ledger_entry list \<times> nat option" where
  "list_ledger u cursor limit s =
     (let newest = rev (filter (\<lambda>e. le_user e = u) (ec_ledger s));
          after = (case cursor of
              None \<Rightarrow> newest
            | Some i \<Rightarrow> tl (dropWhile (\<lambda>e. le_id e \<noteq> i) newest));
          items = take (limit + 1) after;
          page = take limit items
      in (page, if limit < length items then Some (le_id (List.last page)) else None))"

end
