(* ===== verification/Economy_Invariant.thy ===== *)
theory Economy_Invariant
  imports Economy_Ledger
begin

text \<open>
  What every economy operation keeps: each balance is the sum of its ledger rows and never negative
  (\<open>money_ok\<close>), the rank is the one the counters give (\<open>ranks_ok\<close>), the daily caps and steps hold
  (\<open>caps_ok\<close>), and ledger keys only exist for interactions that were counted (\<open>keys_ok\<close>).
\<close>

section \<open>Primitive steps\<close>

definition balance :: "economy \<Rightarrow> user_id \<Rightarrow> currency \<Rightarrow> int" where
  "balance s u c = (case map_of (ec_wallets s) u of None \<Rightarrow> 0 | Some w \<Rightarrow> balance_field c w)"

definition wallet_of :: "time \<Rightarrow> user_id \<Rightarrow> economy \<Rightarrow> wallet" where
  "wallet_of now u s = (case map_of (ec_wallets s) u of None \<Rightarrow> new_wallet now | Some w \<Rightarrow> w)"

lemma balance_new_wallet [simp]: "balance_field c (new_wallet now) = 0"
  by (cases c) (simp_all add: new_wallet_def)

lemma balance_wallet_of [simp]: "balance_field c (wallet_of now u s) = balance s u c"
  by (simp add: wallet_of_def balance_def split: option.splits)

lemma balance_increment [simp]:
  "balance_field c (increment_balance c' d w) = balance_field c w + (if c = c' then d else 0)"
  by (cases c; cases c') simp_all

lemma increment_reputation: "wa_reputation (increment_balance c d w) = wa_reputation w + (if c = REPUTATION then d else 0)"
  by (cases c) simp_all

lemma increment_others [simp]:
  "wa_reputation90d (increment_balance c d w) = wa_reputation90d w"
  "wa_rank (increment_balance c d w) = wa_rank w"
  by (cases c; simp)+

lemma balance_rank_fields [simp]:
  "balance_field c (w\<lparr>wa_reputation90d := x\<rparr>) = balance_field c w"
  "balance_field c (w\<lparr>wa_rank := r\<rparr>) = balance_field c w"
  "balance_field c (w\<lparr>wa_rankUpdatedAt := t\<rparr>) = balance_field c w"
  by (cases c; simp)+

lemma balance_credit_data [simp]:
  "balance_field c (credit_data cr w' w) = balance_field c w + (if c = cr_currency cr then cr_delta cr else 0)"
  by (cases c; cases "cr_currency cr") (simp_all add: credit_data_def Let_def)

lemma lock_wallet_run:
  "lock_wallet now u s = Inr (s\<lparr>ec_wallets := AList.update u (wallet_of now u s) (ec_wallets s)\<rparr>, wallet_of now u s)
   \<or> map_of (ec_wallets s) u = Some (wallet_of now u s) \<and> lock_wallet now u s = Inr (s, wallet_of now u s)"
  by (simp add: lock_wallet_def wallet_of_def split: option.splits)

lemma credit_run:
  "credit now cr s =
    (let w = credit_data cr (wallet_of now (cr_user cr) s) (wallet_of now (cr_user cr) s);
         e = credit_entry now cr (balance_field (cr_currency cr) w) (length (ec_ledger s))
     in if find_key (cr_key cr) s = None
        then Inr (s\<lparr>ec_wallets := AList.update (cr_user cr) w (ec_wallets s), ec_ledger := ec_ledger s @ [e]\<rparr>, e)
        else Inl (ServerError Unique_violation))"
  by (simp add: credit_def tx_bind_def lock_wallet_def update_wallet_def create_entry_def wallet_of_def
      find_key_def credit_entry_def Let_def AList.update_last split: option.splits) auto

lemma credit_InrE:
  assumes "credit now cr s = Inr (s', e)"
  obtains w where "w = credit_data cr (wallet_of now (cr_user cr) s) (wallet_of now (cr_user cr) s)"
    and "e = credit_entry now cr (balance_field (cr_currency cr) w) (length (ec_ledger s))"
    and "s' = s\<lparr>ec_wallets := AList.update (cr_user cr) w (ec_wallets s), ec_ledger := ec_ledger s @ [e]\<rparr>"
    and "find_key (cr_key cr) s = None"
  using assms unfolding credit_run Let_def by (auto split: if_splits)

lemma balance_update [simp]:
  "balance (s\<lparr>ec_wallets := AList.update u w ws\<rparr>) v c = (if v = u then balance_field c w else balance (s\<lparr>ec_wallets := ws\<rparr>) v c)"
  by (simp add: balance_def)

lemma balance_frame [simp]:
  "balance (s\<lparr>ec_ledger := l\<rparr>) u c = balance s u c"
  "balance (s\<lparr>ec_days := d\<rparr>) u c = balance s u c"
  "balance (s\<lparr>ec_given := g\<rparr>) u c = balance s u c"
  "balance (s\<lparr>ec_counted := k\<rparr>) u c = balance s u c"
  "balance (s\<lparr>ec_audit := a\<rparr>) u c = balance s u c"
  "balance (s\<lparr>ec_wallets := ec_wallets s\<rparr>) u c = balance s u c"
  by (simp_all add: balance_def)

lemma ledger_sum_simps [simp]:
  "ledger_sum u c [] = 0"
  "ledger_sum u c (es @ [e]) = ledger_sum u c es + (if le_user e = u \<and> le_currency e = c then le_delta e else 0)"
  by (simp_all add: ledger_sum_def)

lemma ledger_sum_map:
  assumes "\<And>e. le_user (f e) = le_user e \<and> le_currency (f e) = le_currency e \<and> le_delta (f e) = le_delta e"
  shows "ledger_sum u c (map f es) = ledger_sum u c es"
  by (induction es) (simp_all add: ledger_sum_def assms)

section \<open>Balances and the ledger\<close>

text \<open>
  The rows of the ledger are numbered, their keys are unique, awards are never negative and what a
  revocation took is recorded as an amount that is not negative, on revoked rows only. A key with a random part (the row's
  number) sits on that row.
\<close>

fun key_numbered :: "ledger_key \<Rightarrow> nat \<Rightarrow> bool" where
  "key_numbered (Adjust_key n) i = (n = i)"
| "key_numbered (Revoke_key _ n) i = (n = i)"
| "key_numbered (Restore_key _ n) i = (n = i)"
| "key_numbered _ _ = True"

definition entry_ok :: "ledger_entry \<Rightarrow> bool" where
  "entry_ok e \<longleftrightarrow> key_numbered (le_key e) (le_id e) \<and> (le_reason e \<in> set award_reasons \<longrightarrow> 0 \<le> le_delta e)
     \<and> (case le_revokedAmount e of None \<Rightarrow> True | Some n \<Rightarrow> 0 \<le> n)
     \<and> (le_revokedAmount e = None) = (le_revokedAt e = None) \<and> (le_revokedCause e = None) = (le_revokedAt e = None)"

definition money_ok :: "economy \<Rightarrow> bool" where
  "money_ok s \<longleftrightarrow> (\<forall>u c. balance s u c = ledger_sum u c (ec_ledger s) \<and> 0 \<le> balance s u c)
     \<and> distinct (map fst (ec_wallets s)) \<and> list_all entry_ok (ec_ledger s)
     \<and> distinct (map le_key (ec_ledger s)) \<and> map le_id (ec_ledger s) = [0..<length (ec_ledger s)]"

lemma money_ok_frame [simp]:
  "money_ok (s\<lparr>ec_days := d\<rparr>) = money_ok s"
  "money_ok (s\<lparr>ec_given := g\<rparr>) = money_ok s"
  "money_ok (s\<lparr>ec_counted := k\<rparr>) = money_ok s"
  "money_ok (s\<lparr>ec_audit := a\<rparr>) = money_ok s"
  by (simp_all add: money_ok_def)

lemma find_key_None: "find_key k s = None \<longleftrightarrow> k \<notin> set (map le_key (ec_ledger s))"
  by (auto simp: find_key_def find_None_iff)

lemma lock_wallet_frame:
  assumes "lock_wallet now u s = Inr (s', w)"
  shows "balance s' v c = balance s v c" and "ec_ledger s' = ec_ledger s"
    and "distinct (map fst (ec_wallets s)) \<Longrightarrow> distinct (map fst (ec_wallets s'))"
  using assms by (cases "v = u"; auto simp: lock_wallet_def balance_def distinct_update split: option.splits)+

lemma money_ok_same:
  assumes "money_ok s" and "\<And>u c. balance s' u c = balance s u c" and "ec_ledger s' = ec_ledger s"
    and "distinct (map fst (ec_wallets s'))"
  shows "money_ok s'"
  using assms(1,4) unfolding money_ok_def assms(2,3) by metis

lemma money_ok_lock: "money_ok s \<Longrightarrow> lock_wallet now u s = Inr (s', w) \<Longrightarrow> money_ok s'"
  using money_ok_same lock_wallet_frame unfolding money_ok_def by metis

lemma money_ok_append:
  assumes "money_ok s" and "le_id e = length (ec_ledger s)" and "find_key (le_key e) s = None" and "entry_ok e"
    and "\<And>c. balance_field c w = balance s (le_user e) c + (if c = le_currency e then le_delta e else 0)"
    and "0 \<le> balance s (le_user e) (le_currency e) + le_delta e"
  shows "money_ok (s\<lparr>ec_wallets := AList.update (le_user e) w (ec_wallets s), ec_ledger := ec_ledger s @ [e]\<rparr>)"
proof -
  have b: "ledger_sum u c (ec_ledger s) = balance s u c" for u c
    using assms(1) unfolding money_ok_def by metis
  have n: "0 \<le> balance s u c" for u c
    using assms(1) unfolding money_ok_def by metis
  have "distinct (map fst (ec_wallets s))" "list_all entry_ok (ec_ledger s)" "distinct (map le_key (ec_ledger s))"
    "map le_id (ec_ledger s) = [0..<length (ec_ledger s)]"
    using assms(1) by (simp_all add: money_ok_def)
  with assms(2-6) n show ?thesis
    unfolding money_ok_def find_key_None by (simp add: b distinct_update)
qed

lemma credit_money:
  assumes "money_ok s" and "credit now cr s = Inr (s', e)" and "0 \<le> balance s (cr_user cr) (cr_currency cr) + cr_delta cr"
    and "cr_reason cr \<in> set award_reasons \<Longrightarrow> 0 \<le> cr_delta cr" and "key_numbered (cr_key cr) (length (ec_ledger s))"
  shows "money_ok s'"
  using assms(2)
proof (cases rule: credit_InrE)
  case (1 w)
  have "le_user e = cr_user cr" unfolding 1(2) by (simp add: credit_entry_def)
  moreover have "money_ok (s\<lparr>ec_wallets := AList.update (le_user e) w (ec_wallets s), ec_ledger := ec_ledger s @ [e]\<rparr>)"
    by (rule money_ok_append [OF assms(1)])
       (use assms(3-5) 1(4) in \<open>auto simp: 1(1,2) credit_entry_def entry_ok_def\<close>)
  ultimately show ?thesis by (simp add: 1(3))
qed

lemma tx_keeps_option [tx_intros]:
  "(x = None \<Longrightarrow> tx_keeps P m) \<Longrightarrow> (\<And>y. x = Some y \<Longrightarrow> tx_keeps P (f y)) \<Longrightarrow> tx_keeps P (case x of None \<Rightarrow> m | Some y \<Rightarrow> f y)"
  by (cases x) auto

lemma tx_keeps_let [tx_intros]: "tx_keeps P (f x) \<Longrightarrow> tx_keeps P (let y = x in f y)"
  by simp

lemma money_ok_nonneg: "money_ok s \<Longrightarrow> 0 \<le> balance s u c"
  unfolding money_ok_def by metis

named_theorems money_intros \<open>operations that keep the balances right\<close>

lemma credit_keeps_money [money_intros]:
  assumes "0 \<le> cr_delta cr" and "\<And>i. key_numbered (cr_key cr) i"
  shows "tx_keeps money_ok (credit now cr)"
proof (rule tx_validI)
  fix s s' e
  assume ok: "money_ok s" and run: "credit now cr s = Inr (s', e)"
  show "money_ok s'"
    by (rule credit_money [OF ok run]) (use assms money_ok_nonneg [OF ok] in \<open>simp_all add: add_nonneg_nonneg\<close>)
qed

lemma lock_wallet_keeps_money [money_intros]: "tx_keeps money_ok (lock_wallet now u)"
  by (rule tx_validI) (rule money_ok_lock)

lemma day_rows_keep_money [money_intros]:
  "tx_keeps money_ok (lock_day day u)"
  "tx_keeps money_ok (update_day u day f)"
  "tx_keeps money_ok (record_given owner giver day n)"
  "tx_keeps money_ok (create_counted c)"
  by (auto simp: tx_valid_def lock_day_def update_day_def record_given_def create_counted_def tx_simps
      split: option.splits if_splits)

lemma locks_keep_money [money_intros]:
  "tx_keeps money_ok (lock_wallets now us)"
  "tx_keeps money_ok (lock_days us day)"
  unfolding lock_wallets_def lock_days_def by (intro tx_intros money_intros; simp)+

lemma capped_keeps_money [money_intros]:
  "\<forall>i. key_numbered (cr_key award) i \<Longrightarrow> tx_keeps money_ok (credit_capped_shards now u day base award)"
  unfolding credit_capped_shards_def by (intro tx_intros money_intros) auto

lemma award_keeps_money [money_intros]:
  "\<forall>i. key_numbered key i \<Longrightarrow> tx_keeps money_ok (award_stepped_reputation now owner giver day kind key t i)"
  unfolding award_stepped_reputation_def by (intro tx_intros money_intros) auto

lemma milestone_keeps_money [money_intros]: "tx_keeps money_ok (credit_milestone now owner t i)"
  unfolding credit_milestone_def
  by (intro tx_intros money_intros) (auto simp: like_milestone_shards_def split: if_splits)

lemma record_like_keeps_money: "tx_keeps money_ok (record_like hmac accounts now t i owner liker)"
  unfolding record_like_def by (intro tx_intros money_intros) (auto simp: shards_award_def)

lemma record_comment_keeps_money: "tx_keeps money_ok (record_comment hmac accounts now c p owner u)"
  unfolding record_comment_def pay_comment_writer_def reward_post_owner_def by (intro tx_intros money_intros) (auto simp: shards_award_def)

lemma check_in_keeps_money: "tx_keeps money_ok (check_in accounts now u)"
  unfolding check_in_def by (intro tx_intros money_intros) (auto simp: shards_to_credit_def)

lemma refunds_keep_money: "tx_keeps money_ok (credit_takedown_refunds now us item amount actor)"
  unfolding credit_takedown_refunds_def refund_one_def by (intro tx_intros money_intros) auto

lemma write_rank_keeps_money [money_intros]: "tx_keeps money_ok (write_rank now u counts)"
proof (rule tx_validI)
  fix s s' x
  assume ok: "money_ok s" and "write_rank now u counts s = Inr (s', x)"
  then obtain w where w: "map_of (ec_wallets s) u = Some w"
    and s': "s' = s\<lparr>ec_wallets := AList.update u (w\<lparr>wa_reputation90d := fst counts,
       wa_rank := rank_for (snd counts) (fst counts), wa_rankUpdatedAt := now\<rparr>) (ec_wallets s)\<rparr>"
    by (auto simp: write_rank_def tx_bind_Inr update_wallet_def tx_simps split: option.splits)
  have "balance s' v c = balance s v c" for v c
    using w by (cases "v = u") (simp_all add: s' balance_def)
  then show "money_ok s'"
    by (rule money_ok_same [OF ok]) (use ok in \<open>simp_all add: s' money_ok_def distinct_update\<close>)
qed

lemma recounts_keep_money [money_intros]:
  "tx_keeps money_ok (recount_rank now u)"
  "tx_keeps money_ok (recount_ranks_of now awards)"
  "tx_keeps money_ok (refresh_stale_ranks now)"
  unfolding recount_ranks_of_def refresh_stale_ranks_def recount_rank_def by (intro tx_intros money_intros; simp)+

lemma adjust_keeps_money: "tx_keeps money_ok (adjust accounts now admin u c delta reason)"
proof (rule tx_validI)
  fix s s' e
  assume ok: "money_ok s" and run: "adjust accounts now admin u c delta reason s = Inr (s', e)"
  let ?cr = "\<lambda>n. \<lparr>cr_user = u, cr_currency = c, cr_delta = delta, cr_reason = ADMIN_ADJUST, cr_key = Adjust_key n,
         cr_sourceType = None, cr_sourceId = None, cr_actor = Some admin, cr_award = None\<rparr>"
  from run obtain s1 w s2 where lock: "lock_wallet now u s = Inr (s1, w)" and pos: "0 \<le> balance_field c w + delta"
    and credit: "credit now (?cr (length (ec_ledger s1))) s1 = Inr (s2, e)"
    and s': "s' = s2\<lparr>ec_audit := ec_audit s'\<rparr>"
    by (force simp: adjust_def tx_bind_Inr tx_simps split: if_splits)
  have ok1: "money_ok s1" by (rule money_ok_lock [OF ok lock])
  have "balance_field c w = balance s1 u c"
    using lock by (auto simp: lock_wallet_def balance_def split: option.splits)
  then have "money_ok s2"
    using pos by (intro credit_money [OF ok1 credit]) (simp_all add: award_reasons_def)
  then show "money_ok s'" by (subst s') simp
qed

section \<open>Taking back and giving back\<close>

lemma fresh_number:
  assumes "money_ok s"
  shows "find_key (Revoke_key i (length (ec_ledger s))) s = None"
    and "find_key (Restore_key i (length (ec_ledger s))) s = None"
    and "find_key (Adjust_key (length (ec_ledger s))) s = None"
proof -
  have ids: "map le_id (ec_ledger s) = [0..<length (ec_ledger s)]" and all: "list_all entry_ok (ec_ledger s)"
    using assms by (simp_all add: money_ok_def)
  have *: "k \<notin> le_key ` set (ec_ledger s)" if "\<And>j. key_numbered k j \<Longrightarrow> j = length (ec_ledger s)" for k
  proof
    assume "k \<in> le_key ` set (ec_ledger s)"
    then obtain e where "e \<in> set (ec_ledger s)" "k = le_key e" by auto
    with all that have "le_id e = length (ec_ledger s)" "le_id e \<in> set (map le_id (ec_ledger s))"
      by (auto simp: list_all_iff entry_ok_def)
    then show False unfolding ids by simp
  qed
  show "find_key (Revoke_key i (length (ec_ledger s))) s = None"
    "find_key (Restore_key i (length (ec_ledger s))) s = None"
    "find_key (Adjust_key (length (ec_ledger s))) s = None"
    unfolding find_key_None set_map by (intro *, simp)+
qed

lemma unique_row:
  assumes "money_ok s" and "e \<in> set (ec_ledger s)" and "d \<in> set (ec_ledger s)" and "le_id e = le_id d"
  shows "e = d"
proof -
  have "distinct (map le_id (ec_ledger s))" using assms(1) by (simp add: money_ok_def)
  with assms(2-) show ?thesis by (auto simp: distinct_map inj_on_def)
qed

lemma filter_unique:
  assumes "distinct (map f xs)" and "e \<in> set xs"
  shows "filter (\<lambda>d. f d = f e) xs = [e]"
  using assms by (induction xs) (auto simp: filter_empty_conv image_iff)

definition is_claimable :: "bool \<Rightarrow> nat \<Rightarrow> economy \<Rightarrow> bool" where
  "is_claimable revoked i s \<longleftrightarrow> (\<exists>e \<in> set (ec_ledger s). le_id e = i \<and> (le_revokedAt e \<noteq> None) = revoked)"

definition mark_revoked :: "time \<Rightarrow> revoke_cause \<Rightarrow> int \<Rightarrow> ledger_entry \<Rightarrow> ledger_entry" where
  "mark_revoked now cause taken e = e\<lparr>le_revokedAt := Some now, le_revokedCause := Some cause, le_revokedAmount := Some taken\<rparr>"

definition mark_restored :: "ledger_entry \<Rightarrow> ledger_entry" where
  "mark_restored e = e\<lparr>le_revokedAt := None, le_revokedCause := None, le_revokedAmount := None\<rparr>"

definition on_row :: "nat \<Rightarrow> (ledger_entry \<Rightarrow> ledger_entry) \<Rightarrow> ledger_entry list \<Rightarrow> ledger_entry list" where
  "on_row i f es = map (\<lambda>e. if le_id e = i then f e else e) es"

lemma update_entry_claim:
  assumes "money_ok s"
  shows "is_claimable revoked i s \<Longrightarrow>
      update_entry_if i (\<lambda>e. (le_revokedAt e \<noteq> None) = revoked) f s = Inr (s\<lparr>ec_ledger := on_row i f (ec_ledger s)\<rparr>, 1)"
    and "\<not> is_claimable revoked i s \<Longrightarrow>
      update_entry_if i (\<lambda>e. (le_revokedAt e \<noteq> None) = revoked) f s = Inr (s, 0)"
proof -
  assume "is_claimable revoked i s"
  then obtain e where e: "e \<in> set (ec_ledger s)" "le_id e = i" "(le_revokedAt e \<noteq> None) = revoked"
    by (auto simp: is_claimable_def)
  have same: "(le_id d = i \<and> (le_revokedAt d \<noteq> None) = revoked) = (le_id d = i)" if "d \<in> set (ec_ledger s)" for d
    using unique_row [OF assms that e(1)] e by auto
  have "length (filter (\<lambda>d. le_id d = i) (ec_ledger s)) = 1"
  proof -
    have "distinct (map le_id (ec_ledger s))" using assms by (simp add: money_ok_def)
    from filter_unique [OF this e(1)] e(2) show ?thesis by simp
  qed
  moreover have "map (\<lambda>d. if le_id d = i \<and> (le_revokedAt d \<noteq> None) = revoked then f d else d) (ec_ledger s) = on_row i f (ec_ledger s)"
    "filter (\<lambda>d. le_id d = i \<and> (le_revokedAt d \<noteq> None) = revoked) (ec_ledger s) = filter (\<lambda>d. le_id d = i) (ec_ledger s)"
    unfolding on_row_def using same by (auto intro!: map_cong filter_cong)
  ultimately show "update_entry_if i (\<lambda>e. (le_revokedAt e \<noteq> None) = revoked) f s = Inr (s\<lparr>ec_ledger := on_row i f (ec_ledger s)\<rparr>, 1)"
    by (simp add: update_entry_if_def)
next
  assume "\<not> is_claimable revoked i s"
  then have no: "\<not> (le_id d = i \<and> (le_revokedAt d \<noteq> None) = revoked)" if "d \<in> set (ec_ledger s)" for d
    using that by (auto simp: is_claimable_def)
  then have "map (\<lambda>d. if le_id d = i \<and> (le_revokedAt d \<noteq> None) = revoked then f d else d) (ec_ledger s) = ec_ledger s"
    "filter (\<lambda>d. le_id d = i \<and> (le_revokedAt d \<noteq> None) = revoked) (ec_ledger s) = []"
    by (auto intro!: map_idI simp: filter_empty_conv)
  then show "update_entry_if i (\<lambda>e. (le_revokedAt e \<noteq> None) = revoked) f s = Inr (s, 0)"
    by (simp add: update_entry_if_def)
qed

lemma update_wallet_locked:
  assumes "lock_wallet now u s = Inr (s1, w)" and "ec_wallets s2 = ec_wallets s1"
  shows "update_wallet u f s2 = Inr (s2\<lparr>ec_wallets := AList.update u (f w) (ec_wallets s)\<rparr>, f w)"
    and "w = wallet_of now u s"
  using assms by (auto simp: lock_wallet_def update_wallet_def wallet_of_def AList.update_last split: option.splits)

lemma lock_wallet_total:
  obtains s1 where "lock_wallet now u s = Inr (s1, wallet_of now u s)" and "s1 = s\<lparr>ec_wallets := ec_wallets s1\<rparr>"
  using that by (cases "map_of (ec_wallets s) u") (auto simp: lock_wallet_def wallet_of_def)

definition undone :: "time \<Rightarrow> ledger_entry \<Rightarrow> int \<Rightarrow> ledger_reason \<Rightarrow> (nat \<Rightarrow> nat \<Rightarrow> ledger_key)
    \<Rightarrow> (ledger_entry \<Rightarrow> ledger_entry) \<Rightarrow> economy \<Rightarrow> economy" where
  "undone now award delta reason key mark s = s\<lparr>
     ec_wallets := AList.update (le_user award)
       (increment_balance (le_currency award) delta (wallet_of now (le_user award) s)) (ec_wallets s),
     ec_ledger := on_row (le_id award) mark (ec_ledger s)
       @ [undo_entry now award delta (balance s (le_user award) (le_currency award) + delta) reason key (length (ec_ledger s))]\<rparr>"

lemma update_entry_always:
  "update_entry_if i (\<lambda>_. True) f s = Inr (s\<lparr>ec_ledger := on_row i f (ec_ledger s)\<rparr>, length (filter (\<lambda>e. le_id e = i) (ec_ledger s)))"
  by (simp add: update_entry_if_def on_row_def)

lemma find_key_on_row:
  assumes "\<And>e. le_key (f e) = le_key e" and "ec_ledger s' = on_row i f (ec_ledger s)"
  shows "(find_key k s' = None) = (find_key k s = None)"
proof -
  have "map le_key (on_row i f es) = map le_key es" for es by (simp add: on_row_def assms(1))
  then show ?thesis unfolding find_key_None assms(2) by simp
qed

lemma revoke_one_run:
  assumes ok: "money_ok s"
  defines "taken award \<equiv> min (le_delta award) (balance s (le_user award) (le_currency award))"
  shows "is_claimable False (le_id award) s \<Longrightarrow> revoke_one now cause award s =
      Inr (undone now award (- taken award) REVOKED Revoke_key (mark_revoked now cause (taken award)) s, ())"
    and "\<not> is_claimable False (le_id award) s \<Longrightarrow> revoke_one now cause award s = Inr (s, ())"
proof -
  note claim = update_entry_claim [OF ok, of False "le_id award", simplified]
  let ?f = "\<lambda>e. e\<lparr>le_revokedAt := Some now, le_revokedCause := Some cause\<rparr>"
  let ?s0 = "s\<lparr>ec_ledger := on_row (le_id award) ?f (ec_ledger s)\<rparr>"
  assume "is_claimable False (le_id award) s"
  note c = claim(1) [OF this, of ?f]
  obtain s1 where lock: "lock_wallet now (le_user award) ?s0 = Inr (s1, wallet_of now (le_user award) ?s0)"
    and s1: "s1 = ?s0\<lparr>ec_wallets := ec_wallets s1\<rparr>" by (rule lock_wallet_total)
  have w: "wallet_of now (le_user award) ?s0 = wallet_of now (le_user award) s" by (simp add: wallet_of_def)
  have b: "balance_field (le_currency award) (wallet_of now (le_user award) ?s0)
      = balance s (le_user award) (le_currency award)" by (simp add: w)
  note upd = update_wallet_locked(1) [OF lock refl]
  let ?L = "on_row (le_id award) (mark_revoked now cause (taken award)) (ec_ledger s)"
  have rows: "on_row (le_id award) (\<lambda>e. e\<lparr>le_revokedAmount := Some (taken award)\<rparr>)
      (on_row (le_id award) ?f (ec_ledger s)) = ?L"
    by (simp add: on_row_def mark_revoked_def)
  have fresh: "find_key (Revoke_key (le_id award) (length (ec_ledger s))) t = None" if "ec_ledger t = ?L" for t
    using fresh_number(1) [OF ok] find_key_on_row [OF _ that] by (simp add: mark_revoked_def)
  have len: "length ?L = length (ec_ledger s)" by (simp add: on_row_def)
  have l1: "ec_ledger s1 = on_row (le_id award) ?f (ec_ledger s)" by (subst s1) simp
  have s1': "s1\<lparr>ec_wallets := x, ec_ledger := y\<rparr> = s\<lparr>ec_wallets := x, ec_ledger := y\<rparr>" for x y
    by (subst s1) simp
  show "revoke_one now cause award s =
      Inr (undone now award (- taken award) REVOKED Revoke_key (mark_revoked now cause (taken award)) s, ())"
    unfolding revoke_one_def undone_def
    by (simp add: c lock upd tx_simps b l1 rows s1' fresh len update_entry_always create_entry_def undo_entry_def
        taken_def [symmetric] Let_def w)
next
  assume "\<not> is_claimable False (le_id award) s"
  then show "revoke_one now cause award s = Inr (s, ())"
    using update_entry_claim(2) [OF ok, of False "le_id award", simplified] by (simp add: revoke_one_def tx_simps)
qed

lemma restore_one_run:
  assumes ok: "money_ok s"
  defines "given award \<equiv> (case le_revokedAmount award of None \<Rightarrow> 0 | Some n \<Rightarrow> n)"
  shows "is_claimable True (le_id award) s \<Longrightarrow> restore_one now award s =
      Inr (undone now award (given award) RESTORED Restore_key mark_restored s, ())"
    and "\<not> is_claimable True (le_id award) s \<Longrightarrow> restore_one now award s = Inr (s, ())"
proof -
  assume "is_claimable True (le_id award) s"
  note c = update_entry_claim(1) [OF ok this, of mark_restored, simplified]
  let ?s0 = "s\<lparr>ec_ledger := on_row (le_id award) mark_restored (ec_ledger s)\<rparr>"
  obtain s1 where lock: "lock_wallet now (le_user award) ?s0 = Inr (s1, wallet_of now (le_user award) ?s0)"
    and s1: "s1 = ?s0\<lparr>ec_wallets := ec_wallets s1\<rparr>" by (rule lock_wallet_total)
  have w: "wallet_of now (le_user award) ?s0 = wallet_of now (le_user award) s" by (simp add: wallet_of_def)
  note upd = update_wallet_locked(1) [OF lock refl]
  have fresh: "find_key (Restore_key (le_id award) (length (ec_ledger s))) t = None"
    if "ec_ledger t = on_row (le_id award) mark_restored (ec_ledger s)" for t
    using fresh_number(2) [OF ok] find_key_on_row [OF _ that] by (simp add: mark_restored_def)
  have len: "length (on_row (le_id award) mark_restored (ec_ledger s)) = length (ec_ledger s)" by (simp add: on_row_def)
  have l1: "ec_ledger s1 = on_row (le_id award) mark_restored (ec_ledger s)" by (subst s1) simp
  have s1': "s1\<lparr>ec_wallets := x, ec_ledger := y\<rparr> = s\<lparr>ec_wallets := x, ec_ledger := y\<rparr>" for x y
    by (subst s1) simp
  show "restore_one now award s = Inr (undone now award (given award) RESTORED Restore_key mark_restored s, ())"
    unfolding restore_one_def undone_def mark_restored_def [symmetric]
    by (simp add: c lock upd tx_simps l1 s1' fresh len create_entry_def undo_entry_def given_def [symmetric] Let_def w)
next
  assume "\<not> is_claimable True (le_id award) s"
  then show "restore_one now award s = Inr (s, ())"
    using update_entry_claim(2) [OF ok, of True "le_id award", simplified] by (simp add: restore_one_def Let_def tx_simps)
qed

text \<open>Marking a row touches none of the columns the sums and the numbering read.\<close>

definition mark_ok :: "(ledger_entry \<Rightarrow> ledger_entry) \<Rightarrow> bool" where
  "mark_ok f \<longleftrightarrow> (\<forall>e. le_id (f e) = le_id e \<and> le_key (f e) = le_key e \<and> le_user (f e) = le_user e
     \<and> le_currency (f e) = le_currency e \<and> le_delta (f e) = le_delta e \<and> le_reason (f e) = le_reason e
     \<and> (entry_ok e \<longrightarrow> entry_ok (f e)))"

lemma marks_ok [simp]: "mark_ok mark_restored" "0 \<le> n \<Longrightarrow> mark_ok (mark_revoked now cause n)"
  by (auto simp: mark_ok_def mark_restored_def mark_revoked_def entry_ok_def)

lemma on_row_columns:
  assumes "mark_ok f"
  shows "map le_id (on_row i f es) = map le_id es" and "map le_key (on_row i f es) = map le_key es"
    and "ledger_sum u c (on_row i f es) = ledger_sum u c es"
    and "list_all entry_ok es \<Longrightarrow> list_all entry_ok (on_row i f es)" and "length (on_row i f es) = length es"
proof -
  show "ledger_sum u c (on_row i f es) = ledger_sum u c es"
    unfolding on_row_def using assms by (intro ledger_sum_map) (simp add: mark_ok_def)
qed (use assms in \<open>auto simp: on_row_def mark_ok_def list_all_iff\<close>)

lemma undone_money:
  assumes ok: "money_ok s" and f: "mark_ok f" and "r \<notin> set award_reasons"
    and key: "\<And>n. key_numbered (key (le_id award) n) n" "find_key (key (le_id award) (length (ec_ledger s))) s = None"
    and pos: "0 \<le> balance s (le_user award) (le_currency award) + d"
  shows "money_ok (undone now award d r key f s)"
proof -
  let ?s = "s\<lparr>ec_ledger := on_row (le_id award) f (ec_ledger s)\<rparr>"
  let ?e = "undo_entry now award d (balance s (le_user award) (le_currency award) + d) r key (length (ec_ledger s))"
  have "0 \<le> ledger_sum u c (ec_ledger s)" for u c using ok unfolding money_ok_def by metis
  then have A: "money_ok ?s" using ok unfolding money_ok_def by (simp add: on_row_columns [OF f])
  have B: "find_key (le_key ?e) ?s = None"
    using key(2) unfolding find_key_None by (simp add: undo_entry_def on_row_columns(2) [OF f] del: set_map)
  have C: "entry_ok ?e" using assms(3) key(1) by (simp add: entry_ok_def undo_entry_def)
  have "money_ok (?s\<lparr>ec_wallets := AList.update (le_user ?e)
      (increment_balance (le_currency award) d (wallet_of now (le_user award) s)) (ec_wallets ?s), ec_ledger := ec_ledger ?s @ [?e]\<rparr>)"
    by (rule money_ok_append [OF A _ B C]) (use pos in \<open>simp_all add: undo_entry_def on_row_columns [OF f]\<close>)
  then show ?thesis by (simp add: undone_def undo_entry_def)
qed

lemma revoke_one_keeps_money [money_intros]:
  assumes "0 \<le> le_delta award"
  shows "tx_keeps money_ok (revoke_one now cause award)"
proof (rule tx_validI)
  fix s s' x
  assume ok: "money_ok s" and run: "revoke_one now cause award s = Inr (s', x)"
  let ?b = "balance s (le_user award) (le_currency award)"
  have n: "0 \<le> ?b" by (rule money_ok_nonneg [OF ok])
  show "money_ok s'"
  proof (cases "is_claimable False (le_id award) s")
    case True
    have "money_ok (undone now award (- min (le_delta award) ?b) REVOKED Revoke_key (mark_revoked now cause (min (le_delta award) ?b)) s)"
      using assms n fresh_number(1) [OF ok] by (intro undone_money [OF ok]) (auto simp: award_reasons_def)
    with run revoke_one_run(1) [OF ok True] show ?thesis by simp
  next
    case False
    with run ok revoke_one_run(2) [OF ok False] show ?thesis by simp
  qed
qed

lemma restore_one_keeps_money [money_intros]:
  assumes "entry_ok award"
  shows "tx_keeps money_ok (restore_one now award)"
proof (rule tx_validI)
  fix s s' x
  assume ok: "money_ok s" and run: "restore_one now award s = Inr (s', x)"
  let ?g = "case le_revokedAmount award of None \<Rightarrow> 0 | Some n \<Rightarrow> n"
  have n: "0 \<le> balance s (le_user award) (le_currency award) + ?g"
    using money_ok_nonneg [OF ok, of "le_user award" "le_currency award"] assms
    by (auto simp: entry_ok_def split: option.splits)
  show "money_ok s'"
  proof (cases "is_claimable True (le_id award) s")
    case True
    have "money_ok (undone now award ?g RESTORED Restore_key mark_restored s)"
      using n fresh_number(2) [OF ok] by (intro undone_money [OF ok]) (auto simp: award_reasons_def)
    with run restore_one_run(1) [OF ok True] show ?thesis by simp
  next
    case False
    with run ok restore_one_run(2) [OF ok False] show ?thesis by simp
  qed
qed

lemma revoke_keeps_money:
  assumes "\<And>e. e \<in> set awards \<Longrightarrow> 0 \<le> le_delta e"
  shows "tx_keeps money_ok (revoke le now awards cause)"
  unfolding revoke_def by (intro tx_intros money_intros) (simp add: assms)

lemma restore_keeps_money:
  assumes "\<And>e. e \<in> set awards \<Longrightarrow> entry_ok e"
  shows "tx_keeps money_ok (restore le now awards)"
  unfolding restore_def by (intro tx_intros money_intros) (simp add: assms)

lemma revoke_for_content_keeps_money: "tx_keeps money_ok (revoke_for_content le now t i)"
proof (rule tx_validI)
  fix s s' x
  assume ok: "money_ok s" and "revoke_for_content le now t i s = Inr (s', x)"
  then have run: "revoke le now (filter (\<lambda>e. source_of_content t i e \<and> le_reason e \<in> set award_reasons \<and> le_revokedAt e = None) (ec_ledger s))
    CONTENT s = Inr (s', x)" by (simp add: revoke_for_content_def tx_simps)
  show "money_ok s'"
    by (rule tx_validD [OF revoke_keeps_money ok run]) (use ok in \<open>auto simp: money_ok_def list_all_iff entry_ok_def\<close>)
qed

lemma restore_for_content_keeps_money: "tx_keeps money_ok (restore_for_content le now t i)"
proof (rule tx_validI)
  fix s s' x
  assume ok: "money_ok s" and "restore_for_content le now t i s = Inr (s', x)"
  then have run: "restore le now (filter (\<lambda>e. source_of_content t i e \<and> le_revokedCause e = Some CONTENT) (ec_ledger s)) s = Inr (s', x)"
    by (simp add: restore_for_content_def tx_simps)
  show "money_ok s'"
    by (rule tx_validD [OF restore_keeps_money ok run]) (use ok in \<open>auto simp: money_ok_def list_all_iff\<close>)
qed

end
