(* ===== verification/Economy_Caps.thy ===== *)
theory Economy_Caps
  imports Economy_Invariant
begin

text \<open>
  The counters beside the balances: the rank every wallet shows, the daily caps on Shards and paid
  comments, the steps of Reputation, and the limit on what one person can give one author in a day.
\<close>

section \<open>Ranks\<close>

definition wallet_rank_ok :: "wallet \<Rightarrow> bool" where
  "wallet_rank_ok w \<longleftrightarrow> wa_rank w = rank_for (wa_reputation w) (wa_reputation90d w) \<and> 0 \<le> wa_reputation90d w"

text \<open>In the middle of a revocation the ranks of the users whose Reputation moved are still to be recounted.\<close>

definition ranks_except :: "user_id set \<Rightarrow> economy \<Rightarrow> bool" where
  "ranks_except U s \<longleftrightarrow> (\<forall>u w. map_of (ec_wallets s) u = Some w \<longrightarrow> u \<notin> U \<longrightarrow> wallet_rank_ok w)"

lemma ranks_except_frame [simp]:
  "ranks_except U (s\<lparr>ec_ledger := l\<rparr>) = ranks_except U s"
  "ranks_except U (s\<lparr>ec_days := d\<rparr>) = ranks_except U s"
  "ranks_except U (s\<lparr>ec_given := g\<rparr>) = ranks_except U s"
  "ranks_except U (s\<lparr>ec_counted := k\<rparr>) = ranks_except U s"
  "ranks_except U (s\<lparr>ec_audit := a\<rparr>) = ranks_except U s"
  by (simp_all add: ranks_except_def)

lemma ranks_except_update:
  "ranks_except U s \<Longrightarrow> (u \<notin> U \<Longrightarrow> wallet_rank_ok w) \<Longrightarrow> ranks_except U (s\<lparr>ec_wallets := AList.update u w (ec_wallets s)\<rparr>)"
  by (simp add: ranks_except_def)

lemma new_wallet_rank_ok: "wallet_rank_ok (new_wallet now)"
  by (simp add: wallet_rank_ok_def new_wallet_def)

lemma wallet_of_rank_ok: "ranks_except U s \<Longrightarrow> u \<notin> U \<Longrightarrow> wallet_rank_ok (wallet_of now u s)"
  by (auto simp: ranks_except_def wallet_of_def new_wallet_rank_ok split: option.splits)

named_theorems rank_intros \<open>operations that keep the ranks right\<close>

lemma credit_data_rank:
  assumes "wallet_rank_ok w" and "cr_reason cr \<in> set award_reasons \<Longrightarrow> 0 \<le> cr_delta cr"
  shows "wallet_rank_ok (credit_data cr w w)"
  using assms by (cases "cr_currency cr") (auto simp: wallet_rank_ok_def credit_data_def rank_delta_def Let_def)

lemma credit_keeps_ranks [rank_intros]:
  assumes "cr_reason cr \<in> set award_reasons \<Longrightarrow> 0 \<le> cr_delta cr"
  shows "tx_keeps (ranks_except U) (credit now cr)"
proof (rule tx_validI)
  fix s s' e
  assume ok: "ranks_except U s" and "credit now cr s = Inr (s', e)"
  then obtain w where "w = credit_data cr (wallet_of now (cr_user cr) s) (wallet_of now (cr_user cr) s)"
    and s': "s' = s\<lparr>ec_wallets := AList.update (cr_user cr) w (ec_wallets s), ec_ledger := ec_ledger s @ [e]\<rparr>"
    by (blast elim: credit_InrE)
  then have "cr_user cr \<notin> U \<Longrightarrow> wallet_rank_ok w"
    using assms wallet_of_rank_ok [OF ok] by (simp add: credit_data_rank)
  from ranks_except_update [OF ok this] show "ranks_except U s'" by (simp add: s')
qed

lemma lock_wallet_keeps_ranks [rank_intros]: "tx_keeps (ranks_except U) (lock_wallet now u)"
  by (auto simp: tx_valid_def lock_wallet_def new_wallet_rank_ok intro: ranks_except_update split: option.splits)

lemma day_rows_keep_ranks [rank_intros]:
  "tx_keeps (ranks_except U) (lock_day day u)"
  "tx_keeps (ranks_except U) (update_day u day f)"
  "tx_keeps (ranks_except U) (record_given owner giver day n)"
  "tx_keeps (ranks_except U) (create_counted c)"
  by (auto simp: tx_valid_def lock_day_def update_day_def record_given_def create_counted_def tx_simps
      split: option.splits if_splits)

lemma locks_keep_ranks [rank_intros]:
  "tx_keeps (ranks_except U) (lock_wallets now us)"
  "tx_keeps (ranks_except U) (lock_days us day)"
  unfolding lock_wallets_def lock_days_def by (intro tx_intros rank_intros; simp)+

lemma capped_keeps_ranks [rank_intros]: "tx_keeps (ranks_except U) (credit_capped_shards now u day base award)"
  unfolding credit_capped_shards_def by (intro tx_intros rank_intros) auto

lemma award_keeps_ranks [rank_intros]:
  "tx_keeps (ranks_except U) (award_stepped_reputation now owner giver day kind key t i)"
  unfolding award_stepped_reputation_def by (intro tx_intros rank_intros) auto

lemma milestone_keeps_ranks [rank_intros]: "tx_keeps (ranks_except U) (credit_milestone now owner t i)"
  unfolding credit_milestone_def
  by (intro tx_intros rank_intros) (auto simp: like_milestone_shards_def split: if_splits)

lemma record_like_keeps_ranks: "tx_keeps (ranks_except U) (record_like hmac accounts now t i owner liker)"
  unfolding record_like_def by (intro tx_intros rank_intros) auto

lemma record_comment_keeps_ranks: "tx_keeps (ranks_except U) (record_comment hmac accounts now c p owner u)"
  unfolding record_comment_def pay_comment_writer_def reward_post_owner_def by (intro tx_intros rank_intros) auto

lemma check_in_keeps_ranks: "tx_keeps (ranks_except U) (check_in accounts now u)"
  unfolding check_in_def by (intro tx_intros rank_intros) (auto simp: award_reasons_def)

lemma adjust_keeps_ranks: "tx_keeps (ranks_except U) (adjust accounts now admin u c delta reason)"
  unfolding adjust_def by (intro tx_intros rank_intros) (auto simp: award_reasons_def)

lemma refunds_keep_ranks: "tx_keeps (ranks_except U) (credit_takedown_refunds now us item amount actor)"
  unfolding credit_takedown_refunds_def refund_one_def by (intro tx_intros rank_intros) auto

lemma recount_rank_run:
  "recount_rank now u s = (case map_of (ec_wallets s) u of
      None \<Rightarrow> Inl (ServerError Record_not_found)
    | Some w \<Rightarrow> Inr (s\<lparr>ec_wallets := AList.update u
        (w\<lparr>wa_reputation90d := fst (read_rank now u s),
           wa_rank := rank_for (wa_reputation w) (fst (read_rank now u s)), wa_rankUpdatedAt := now\<rparr>) (ec_wallets s)\<rparr>, ()))"
  by (simp add: recount_rank_def write_rank_def update_wallet_def tx_bind_def tx_simps read_rank_def split: option.splits)

lemma recount_fixes_rank: "tx_valid (ranks_except U) (recount_rank now u) (\<lambda>_. ranks_except (U - {u}))"
  by (auto simp: tx_valid_def recount_rank_run ranks_except_def wallet_rank_ok_def read_rank_def
      split: option.splits if_splits)

lemma recounts_fix_ranks: "tx_valid (ranks_except U) (tx_map (recount_rank now) us) (\<lambda>_. ranks_except (U - set us))"
proof (induction us arbitrary: U)
  case Nil
  show ?case by (simp add: tx_valid_def tx_simps)
next
  case (Cons u us)
  have "tx_valid (ranks_except U) (tx_map (recount_rank now) (u # us)) (\<lambda>_. ranks_except (U - {u} - set us))"
    unfolding tx_map.simps
    by (rule tx_valid_bind [OF recount_fixes_rank], rule tx_valid_bind [OF Cons.IH]) (rule tx_valid_return)
  moreover have "U - {u} - set us = U - set (u # us)" by auto
  ultimately show ?case by simp
qed

lemma refresh_keeps_ranks: "tx_keeps (ranks_except {}) (refresh_stale_ranks now)"
  unfolding refresh_stale_ranks_def
  by (intro tx_intros tx_valid_post [OF recounts_fix_ranks [of "{}"]]) auto

lemma rank_fields_increment:
  "c \<noteq> REPUTATION \<Longrightarrow> wallet_rank_ok (increment_balance c d w) = wallet_rank_ok w"
  by (cases c) (simp_all add: wallet_rank_ok_def)

lemma undone_ranks:
  assumes "ranks_except U s" and "le_currency award = REPUTATION \<Longrightarrow> le_user award \<in> U"
  shows "ranks_except U (undone now award d r key f s)"
proof -
  have "wallet_rank_ok (increment_balance (le_currency award) d (wallet_of now (le_user award) s))"
    if "le_user award \<notin> U"
  proof -
    have "le_currency award \<noteq> REPUTATION" using that assms(2) by blast
    then show ?thesis using wallet_of_rank_ok [OF assms(1) that] by (simp add: rank_fields_increment)
  qed
  from ranks_except_update [OF assms(1) this] show ?thesis by (simp add: undone_def)
qed

text \<open>Taking back and giving back need the rows' balances in order, for the loop never to fail.\<close>

definition money_and_ranks :: "user_id set \<Rightarrow> economy \<Rightarrow> bool" where
  "money_and_ranks U s \<longleftrightarrow> money_ok s \<and> ranks_except U s"

lemma undo_keeps_ranks:
  assumes "le_currency award = REPUTATION \<Longrightarrow> le_user award \<in> U"
  shows "0 \<le> le_delta award \<Longrightarrow> tx_keeps (money_and_ranks U) (revoke_one now cause award)"
    and "entry_ok award \<Longrightarrow> tx_keeps (money_and_ranks U) (restore_one now award)"
proof -
  assume "0 \<le> le_delta award"
  note keep = tx_validD [OF revoke_one_keeps_money [OF this]]
  show "tx_keeps (money_and_ranks U) (revoke_one now cause award)"
  proof (rule tx_validI)
    fix s s' x assume a: "money_and_ranks U s" and run: "revoke_one now cause award s = Inr (s', x)"
    then have ok: "money_ok s" by (simp add: money_and_ranks_def)
    have "ranks_except U s'"
    proof (cases "is_claimable False (le_id award) s")
      case True
      with run revoke_one_run(1) [OF ok] a show ?thesis by (auto simp: money_and_ranks_def undone_ranks assms)
    next
      case False
      with run revoke_one_run(2) [OF ok] a show ?thesis by (auto simp: money_and_ranks_def)
    qed
    with keep [OF ok run] show "money_and_ranks U s'" by (simp add: money_and_ranks_def)
  qed
next
  assume "entry_ok award"
  note keep = tx_validD [OF restore_one_keeps_money [OF this]]
  show "tx_keeps (money_and_ranks U) (restore_one now award)"
  proof (rule tx_validI)
    fix s s' x assume a: "money_and_ranks U s" and run: "restore_one now award s = Inr (s', x)"
    then have ok: "money_ok s" by (simp add: money_and_ranks_def)
    have "ranks_except U s'"
    proof (cases "is_claimable True (le_id award) s")
      case True
      with run restore_one_run(1) [OF ok] a show ?thesis by (auto simp: money_and_ranks_def undone_ranks assms)
    next
      case False
      with run restore_one_run(2) [OF ok] a show ?thesis by (auto simp: money_and_ranks_def)
    qed
    with keep [OF ok run] show "money_and_ranks U s'" by (simp add: money_and_ranks_def)
  qed
qed

lemma ranks_except_mono: "ranks_except {} s \<Longrightarrow> ranks_except U s"
  by (simp add: ranks_except_def)

lemma loop_then_recount:
  assumes loop: "tx_keeps (money_and_ranks (set (map le_user (filter (\<lambda>e. le_currency e = REPUTATION) es)))) m"
  shows "tx_keeps (money_and_ranks {}) (tx_bind m (\<lambda>_. recount_ranks_of now es))"
proof (rule tx_valid_bind)
  let ?U = "set (map le_user (filter (\<lambda>e. le_currency e = REPUTATION) es))"
  show "tx_valid (money_and_ranks {}) m (\<lambda>_. money_and_ranks ?U)"
    by (rule tx_valid_pre [OF loop]) (simp add: money_and_ranks_def ranks_except_mono)
  show "tx_valid (money_and_ranks ?U) (recount_ranks_of now es) (\<lambda>_. money_and_ranks {})"
  proof (rule tx_validI)
    fix s s' x assume a: "money_and_ranks ?U s" and run: "recount_ranks_of now es s = Inr (s', x)"
    from run obtain xs where
      "tx_map (recount_rank now) (sort (js_set (map le_user (filter (\<lambda>e. le_currency e = REPUTATION) es)))) s = Inr (s', xs)"
      by (auto simp: recount_ranks_of_def tx_bind_Inr tx_simps)
    from tx_validD [OF recounts_fix_ranks [of ?U] _ this] a have "ranks_except {} s'"
      by (simp add: money_and_ranks_def)
    moreover have "money_ok s'"
      using tx_validD [OF recounts_keep_money(2) _ run] a by (simp add: money_and_ranks_def)
    ultimately show "money_and_ranks {} s'" by (simp add: money_and_ranks_def)
  qed
qed

lemma revoke_keeps_ranks:
  assumes "\<And>e. e \<in> set awards \<Longrightarrow> 0 \<le> le_delta e"
  shows "tx_keeps (money_and_ranks {}) (revoke le now awards cause)"
  unfolding revoke_def Let_def
  by (rule loop_then_recount, rule tx_keeps_map, rule undo_keeps_ranks(1)) (use assms in auto)

lemma restore_keeps_ranks:
  assumes "\<And>e. e \<in> set awards \<Longrightarrow> entry_ok e"
  shows "tx_keeps (money_and_ranks {}) (restore le now awards)"
  unfolding restore_def Let_def
  by (rule loop_then_recount, rule tx_keeps_map, rule undo_keeps_ranks(2)) (use assms in auto)

lemma content_keeps_ranks:
  "tx_keeps (money_and_ranks {}) (revoke_for_content le now t i)"
  "tx_keeps (money_and_ranks {}) (restore_for_content le now t i)"
proof -
  show "tx_keeps (money_and_ranks {}) (revoke_for_content le now t i)"
  proof (rule tx_validI)
    fix s s' x
    assume ok: "money_and_ranks {} s" and "revoke_for_content le now t i s = Inr (s', x)"
    then have run: "revoke le now (filter (\<lambda>e. source_of_content t i e \<and> le_reason e \<in> set award_reasons \<and> le_revokedAt e = None) (ec_ledger s))
      CONTENT s = Inr (s', x)" by (simp add: revoke_for_content_def tx_simps)
    show "money_and_ranks {} s'"
      by (rule tx_validD [OF revoke_keeps_ranks ok run])
         (use ok in \<open>auto simp: money_and_ranks_def money_ok_def list_all_iff entry_ok_def\<close>)
  qed
  show "tx_keeps (money_and_ranks {}) (restore_for_content le now t i)"
  proof (rule tx_validI)
    fix s s' x
    assume ok: "money_and_ranks {} s" and "restore_for_content le now t i s = Inr (s', x)"
    then have run: "restore le now (filter (\<lambda>e. source_of_content t i e \<and> le_revokedCause e = Some CONTENT) (ec_ledger s)) s = Inr (s', x)"
      by (simp add: restore_for_content_def tx_simps)
    show "money_and_ranks {} s'"
      by (rule tx_validD [OF restore_keeps_ranks ok run])
         (use ok in \<open>auto simp: money_and_ranks_def money_ok_def list_all_iff\<close>)
  qed
qed

section \<open>Daily caps and steps\<close>

definition day_ok :: "daily_earning \<Rightarrow> bool" where
  "day_ok r \<longleftrightarrow> 0 \<le> de_baseShards r \<and> de_creditedShards r = min daily_shard_cap (de_baseShards r)
     \<and> de_repFromLikes r = reputation_from_likes (de_likesCounted r)
     \<and> de_repFromComments r = reputation_from_comments (de_commentsCounted r)
     \<and> de_commentsWritten r \<le> shard_paying_comments_per_day"

definition caps_ok :: "economy \<Rightarrow> bool" where
  "caps_ok s \<longleftrightarrow> (\<forall>k r. map_of (ec_days s) k = Some r \<longrightarrow> day_ok r)
     \<and> (\<forall>p \<in> set (ec_given s). snd p \<le> max_reputation_per_giver_per_day)"

lemma caps_ok_frame [simp]:
  "caps_ok (s\<lparr>ec_wallets := w\<rparr>) = caps_ok s"
  "caps_ok (s\<lparr>ec_ledger := l\<rparr>) = caps_ok s"
  "caps_ok (s\<lparr>ec_counted := k\<rparr>) = caps_ok s"
  "caps_ok (s\<lparr>ec_audit := a\<rparr>) = caps_ok s"
  by (simp_all add: caps_ok_def)

lemma caps_ok_day: "caps_ok s \<Longrightarrow> day_ok r \<Longrightarrow> caps_ok (s\<lparr>ec_days := AList.update k r (ec_days s)\<rparr>)"
  by (simp add: caps_ok_def)

lemma new_day_ok: "day_ok new_day"
  by (simp add: day_ok_def new_day_def daily_shard_cap_def shard_paying_comments_per_day_def
      likes_closed_form comments_closed_form)

lemma set_update_cases: "p \<in> set (AList.update k v al) \<Longrightarrow> p = (k, v) \<or> p \<in> set al"
  by (induction al) (auto split: if_splits)

named_theorems cap_intros \<open>operations that keep the caps\<close>

lemma wallets_keep_caps [cap_intros]:
  "tx_keeps caps_ok (credit now cr)"
  "tx_keeps caps_ok (lock_wallet now u)"
  "tx_keeps caps_ok (update_wallet u f)"
  "tx_keeps caps_ok (create_counted c)"
  "tx_keeps caps_ok (update_entry_if i cond g)"
  "tx_keeps caps_ok (create_entry mk)"
  by (auto simp: tx_valid_def credit_run lock_wallet_def update_wallet_def create_counted_def update_entry_if_def
      create_entry_def Let_def split: option.splits if_splits)

lemma lock_day_keeps_caps [cap_intros]: "tx_keeps caps_ok (lock_day day u)"
  by (auto simp: tx_valid_def lock_day_def intro: caps_ok_day new_day_ok split: option.splits)

lemma locks_keep_caps [cap_intros]:
  "tx_keeps caps_ok (lock_wallets now us)"
  "tx_keeps caps_ok (lock_days us day)"
  unfolding lock_wallets_def lock_days_def by (intro tx_intros cap_intros; simp)+

text \<open>Crediting Shards brings the credited total to the capped base, whatever the cap already took.\<close>

lemma credited_is_capped:
  assumes "day_ok r" and "0 \<le> base"
  defines "r1 \<equiv> r\<lparr>de_baseShards := de_baseShards r + base\<rparr>"
  defines "d \<equiv> shards_to_credit (de_baseShards r1) (de_creditedShards r1)"
  shows "d \<le> 0 \<Longrightarrow> day_ok r1" and "day_ok (r1\<lparr>de_creditedShards := de_creditedShards r1 + d\<rparr>)" and "0 \<le> d"
  using assms by (auto simp: day_ok_def shards_to_credit_def Let_def)

lemma capped_keeps_caps [cap_intros]:
  assumes "0 \<le> base"
  shows "tx_keeps caps_ok (credit_capped_shards now u day base award)"
proof (rule tx_validI)
  fix s s' x
  assume ok: "caps_ok s" and run: "credit_capped_shards now u day base award s = Inr (s', x)"
  then obtain r where r: "map_of (ec_days s) (u, day) = Some r"
    by (auto simp: credit_capped_shards_def tx_bind_Inr update_day_def split: option.splits)
  have "day_ok r" using ok r by (simp add: caps_ok_def)
  note capped = credited_is_capped [OF this assms]
  let ?r1 = "r\<lparr>de_baseShards := de_baseShards r + base\<rparr>"
  let ?d = "shards_to_credit (de_baseShards ?r1) (de_creditedShards ?r1)"
  let ?s = "\<lambda>r. s\<lparr>ec_days := AList.update (u, day) r (ec_days s)\<rparr>"
  show "caps_ok s'"
  proof (cases "?d \<le> 0")
    case True
    with run r have "s' = ?s ?r1" by (simp add: credit_capped_shards_def update_day_def tx_simps Let_def)
    with caps_ok_day [OF ok capped(1) [OF True]] show ?thesis by simp
  next
    case False
    with run r obtain e where
      "credit now (award\<lparr>cr_user := u, cr_currency := SHARDS, cr_delta := ?d\<rparr>)
        (?s (?r1\<lparr>de_creditedShards := de_creditedShards ?r1 + ?d\<rparr>)) = Inr (s', e)"
      by (auto simp: credit_capped_shards_def update_day_def tx_simps tx_bind_Inr Let_def AList.update_last)
    from tx_validD [OF wallets_keep_caps(1) caps_ok_day [OF ok capped(2)] this] show ?thesis .
  qed
qed

text \<open>One more interaction pays at most one point, so a giver with room never gives more than the limit.\<close>

lemma step_pays_at_most_one:
  fixes kind :: interaction_kind
  assumes "day_ok r"
  defines "r1 \<equiv> increment_count kind r"
  defines "d \<equiv> step_fn kind (count_field kind r1) - rep_field kind r1"
  shows "d \<le> 1" and "d \<le> 0 \<Longrightarrow> day_ok r1" and "day_ok (increment_rep kind d r1)"
proof -
  have f: "reputation_from_likes (n + 1) = reputation_from_likes n \<or> reputation_from_likes (n + 1) = reputation_from_likes n + 1"
    "reputation_from_comments (n + 1) = reputation_from_comments n \<or> reputation_from_comments (n + 1) = reputation_from_comments n + 1" for n
    using likes_pay_at_most_one comments_pay_at_most_one by (auto simp: pays_at_most_one_def)
  show "d \<le> 1"
    using assms(1) f [of "count_field kind r"] by (cases kind) (auto simp: d_def r1_def day_ok_def)
  show "day_ok r1" if "d \<le> 0"
    using assms(1) f [of "count_field kind r"] that by (cases kind) (auto simp: d_def r1_def day_ok_def)
  show "day_ok (increment_rep kind d r1)"
    using assms(1) by (cases kind) (auto simp: d_def r1_def day_ok_def)
qed

lemma given_by_member: "0 \<noteq> given_by owner giver day s \<Longrightarrow> ((owner, giver, day), given_by owner giver day s) \<in> set (ec_given s)"
  by (auto simp: given_by_def dest: map_of_SomeD split: option.splits)

lemma caps_ok_given:
  assumes "caps_ok s" and "giver_has_room owner giver day s" and "d \<le> 1"
  shows "caps_ok (s\<lparr>ec_given := AList.update (owner, giver, day) (given_by owner giver day s + d) (ec_given s)\<rparr>)"
proof -
  have "snd p \<le> max_reputation_per_giver_per_day"
    if "p \<in> set (AList.update (owner, giver, day) (given_by owner giver day s + d) (ec_given s))" for p
    using set_update_cases [OF that] assms by (auto simp: caps_ok_def giver_has_room_def)
  then show ?thesis using assms(1) unfolding caps_ok_def by simp
qed

lemma award_keeps_caps [cap_intros]: "tx_keeps caps_ok (award_stepped_reputation now owner giver day kind key t i)"
proof (rule tx_validI)
  fix s s' x
  assume ok: "caps_ok s" and run: "award_stepped_reputation now owner giver day kind key t i s = Inr (s', x)"
  show "caps_ok s'"
  proof (cases "giver_has_room owner giver day s")
    case False
    with run ok show ?thesis by (simp add: award_stepped_reputation_def tx_simps)
  next
    case room: True
    with run obtain r where r: "map_of (ec_days s) (owner, day) = Some r"
      by (auto simp: award_stepped_reputation_def tx_bind_Inr tx_simps update_day_def split: option.splits)
    have "day_ok r" using ok r by (simp add: caps_ok_def)
    note step = step_pays_at_most_one [OF this, of kind]
    let ?r1 = "increment_count kind r"
    let ?d = "step_fn kind (count_field kind ?r1) - rep_field kind ?r1"
    let ?s = "\<lambda>r. s\<lparr>ec_days := AList.update (owner, day) r (ec_days s)\<rparr>"
    show ?thesis
    proof (cases "?d \<le> 0")
      case True
      with run r room have "s' = ?s ?r1" by (simp add: award_stepped_reputation_def update_day_def tx_simps Let_def)
      with caps_ok_day [OF ok step(2) [OF True]] show ?thesis by simp
    next
      case False
      let ?s2 = "?s (increment_rep kind ?d ?r1)"
      have g: "given_by owner giver day ?s2 = given_by owner giver day s" by (simp add: given_by_def)
      from False run r room obtain cr e where
        "credit now cr (?s2\<lparr>ec_given := AList.update (owner, giver, day) (given_by owner giver day ?s2 + ?d) (ec_given ?s2)\<rparr>)
          = Inr (s', e)"
        by (auto simp: award_stepped_reputation_def update_day_def record_given_def tx_simps tx_bind_Inr Let_def
            AList.update_last g)
      from tx_validD [OF wallets_keep_caps(1) caps_ok_given this] show ?thesis
        using caps_ok_day [OF ok step(3)] step(1) room by (simp add: giver_has_room_def g)
    qed
  qed
qed

lemma milestone_keeps_caps [cap_intros]: "tx_keeps caps_ok (credit_milestone now owner t i)"
  unfolding credit_milestone_def by (intro tx_intros cap_intros)

lemma record_like_keeps_caps: "tx_keeps caps_ok (record_like hmac accounts now t i owner liker)"
  unfolding record_like_def
  by (intro tx_intros cap_intros) (auto simp: shards_per_counted_interaction_def)

lemma lock_day_run:
  "\<exists>ds r. lock_day day u s = Inr (s\<lparr>ec_days := ds\<rparr>, r) \<and> map_of ds (u, day) = Some r
    \<and> (\<forall>k. map_of (ec_days s) k \<noteq> None \<longrightarrow> map_of ds k = map_of (ec_days s) k)"
proof (cases "map_of (ec_days s) (u, day)")
  case None
  then show ?thesis by (intro exI [where x = "AList.update (u, day) new_day (ec_days s)"]) (auto simp: lock_day_def)
next
  case (Some r)
  then show ?thesis by (intro exI [where x = "ec_days s"]) (simp add: lock_day_def)
qed

lemma lock_days_loop:
  "\<exists>ds rows. tx_map (\<lambda>u. tx_bind (lock_day day u) (\<lambda>r. tx_return (u, r))) us s = Inr (s\<lparr>ec_days := ds\<rparr>, rows)
    \<and> map fst rows = us \<and> (\<forall>(u, r) \<in> set rows. map_of ds (u, day) = Some r)
    \<and> (\<forall>k. map_of (ec_days s) k \<noteq> None \<longrightarrow> map_of ds k = map_of (ec_days s) k)"
proof (induction us arbitrary: s)
  case Nil
  then show ?case by (intro exI [where x = "ec_days s"] exI [where x = "[]"]) (simp add: tx_simps)
next
  case (Cons u us)
  obtain ds r where 1: "lock_day day u s = Inr (s\<lparr>ec_days := ds\<rparr>, r)" "map_of ds (u, day) = Some r"
    "\<forall>k. map_of (ec_days s) k \<noteq> None \<longrightarrow> map_of ds k = map_of (ec_days s) k"
    using lock_day_run by blast
  obtain ds' rows where 2: "tx_map (\<lambda>u. tx_bind (lock_day day u) (\<lambda>r. tx_return (u, r))) us (s\<lparr>ec_days := ds\<rparr>)
      = Inr (s\<lparr>ec_days := ds'\<rparr>, rows)" "map fst rows = us" "\<forall>(u, r) \<in> set rows. map_of ds' (u, day) = Some r"
    "\<forall>k. map_of ds k \<noteq> None \<longrightarrow> map_of ds' k = map_of ds k"
    using Cons.IH [of "s\<lparr>ec_days := ds\<rparr>"] by auto
  have "map_of ds' (u, day) = Some r" using 1(2) 2(4) by simp
  moreover have "\<forall>k. map_of (ec_days s) k \<noteq> None \<longrightarrow> map_of ds' k = map_of (ec_days s) k"
    using 1(3) 2(4) by metis
  moreover have "tx_map (\<lambda>u. tx_bind (lock_day day u) (\<lambda>r. tx_return (u, r))) (u # us) s
      = Inr (s\<lparr>ec_days := ds'\<rparr>, (u, r) # rows)"
    using 1(1) 2(1) by (simp add: tx_bind_def tx_return_def)
  ultimately show ?case using 2(2,3) by (intro exI [where x = ds'] exI [where x = "(u, r) # rows"]) auto
qed

lemma lock_days_run:
  obtains ds where "lock_days us day s = Inr (s\<lparr>ec_days := ds\<rparr>, map (\<lambda>u. the (map_of ds (u, day))) us)"
    and "\<And>u. u \<in> set us \<Longrightarrow> map_of ds (u, day) \<noteq> None"
    and "\<And>k. map_of (ec_days s) k \<noteq> None \<Longrightarrow> map_of ds k = map_of (ec_days s) k"
proof -
  obtain ds rows where *: "tx_map (\<lambda>u. tx_bind (lock_day day u) (\<lambda>r. tx_return (u, r))) (sort (js_set us)) s
      = Inr (s\<lparr>ec_days := ds\<rparr>, rows)" "map fst rows = sort (js_set us)" "\<forall>(u, r) \<in> set rows. map_of ds (u, day) = Some r"
    "\<forall>k. map_of (ec_days s) k \<noteq> None \<longrightarrow> map_of ds k = map_of (ec_days s) k"
    using lock_days_loop by blast
  have row: "map_of rows u = map_of ds (u, day) \<and> map_of ds (u, day) \<noteq> None" if "u \<in> set us" for u
  proof -
    have "u \<in> fst ` set rows" using that arg_cong [OF *(2), of set] by simp
    then obtain r where r: "map_of rows u = Some r" by (metis map_of_eq_None_iff not_Some_eq)
    have "(u, r) \<in> set rows" using r by (rule map_of_SomeD)
    with *(3) r show ?thesis by auto
  qed
  have "lock_days us day s = Inr (s\<lparr>ec_days := ds\<rparr>, map (\<lambda>u. the (map_of ds (u, day))) us)"
    unfolding lock_days_def using *(1) row by (simp add: tx_simps)
  then show thesis by (rule that [of ds]) (use row *(4) in auto)
qed

lemma pay_comment_keeps_caps:
  assumes ok: "caps_ok s" and r: "map_of (ec_days s) (u, economy_day now) = Some r"
    and run: "pay_comment_writer now c u r s = Inr (s', x)"
  shows "caps_ok s'"
proof (cases "de_commentsWritten r < shard_paying_comments_per_day")
  case False
  with run ok show ?thesis by (simp add: pay_comment_writer_def tx_simps)
next
  case True
  let ?r = "r\<lparr>de_commentsWritten := de_commentsWritten r + 1\<rparr>"
  let ?s = "s\<lparr>ec_days := AList.update (u, economy_day now) ?r (ec_days s)\<rparr>"
  have "day_ok ?r" using ok r True by (auto simp: caps_ok_def day_ok_def)
  from caps_ok_day [OF ok this] have "caps_ok ?s" .
  moreover from run r True obtain award where "credit_capped_shards now u (economy_day now) 1 award ?s = Inr (s', x)"
    by (auto simp: pay_comment_writer_def update_day_def tx_bind_def)
  ultimately show ?thesis using tx_validD [OF capped_keeps_caps [of 1]] by simp
qed

lemma reward_owner_keeps_caps [cap_intros]: "tx_keeps caps_ok (reward_post_owner hmac accounts now c p owner u)"
  unfolding reward_post_owner_def
  by (intro tx_intros cap_intros) (simp_all add: shards_per_counted_interaction_def)

lemma lock_wallets_frame:
  assumes "lock_wallets now us s = Inr (s', ws)"
  shows "ec_days s' = ec_days s \<and> ec_ledger s' = ec_ledger s \<and> ec_counted s' = ec_counted s \<and> ec_given s' = ec_given s"
proof -
  have "tx_keeps (\<lambda>t. ec_days t = ec_days s \<and> ec_ledger t = ec_ledger s \<and> ec_counted t = ec_counted s \<and> ec_given t = ec_given s)
      (lock_wallets now us)"
    unfolding lock_wallets_def
    by (intro tx_intros) (auto simp: tx_valid_def lock_wallet_def tx_simps split: option.splits)
  from tx_validD [OF this _ assms] show ?thesis by simp
qed

lemma record_comment_keeps_caps: "tx_keeps caps_ok (record_comment hmac accounts now c p owner u)"
proof (rule tx_validI)
  fix s s' x
  assume ok: "caps_ok s" and run: "record_comment hmac accounts now c p owner u s = Inr (s', x)"
  let ?day = "economy_day now"
  obtain ds where lock: "lock_days [u, owner] ?day s = Inr (s\<lparr>ec_days := ds\<rparr>, map (\<lambda>u. the (map_of ds (u, ?day))) [u, owner])"
    and some: "\<And>v. v \<in> set [u, owner] \<Longrightarrow> map_of ds (v, ?day) \<noteq> None"
    by (rule lock_days_run [of "[u, owner]" ?day s]) blast
  have ok1: "caps_ok (s\<lparr>ec_days := ds\<rparr>)" using tx_validD [OF locks_keep_caps(2) ok lock] .
  obtain r where r: "map_of ds (u, ?day) = Some r" using some [of u] by auto
  show "caps_ok s'"
  proof (cases "owner = u \<or> \<not> is_active accounts u")
    case True
    then have "record_comment hmac accounts now c p owner u = tx_return ()"
      unfolding record_comment_def by auto
    with run ok show ?thesis by (simp add: tx_simps)
  next
    case False
    from False run lock r obtain s2 ws s3 where ws: "lock_wallets now [u, owner] (s\<lparr>ec_days := ds\<rparr>) = Inr (s2, ws)"
      and pay: "pay_comment_writer now c u r s2 = Inr (s3, ())"
      and rest: "reward_post_owner hmac accounts now c p owner u s3 = Inr (s', x)"
      by (auto simp: record_comment_def tx_bind_Inr)
    have ok2: "caps_ok s2" by (rule tx_validD [OF locks_keep_caps(1) ok1 ws])
    have "map_of (ec_days s2) (u, ?day) = Some r" using lock_wallets_frame [OF ws] r by simp
    from pay_comment_keeps_caps [OF ok2 this pay] have "caps_ok s3" .
    from tx_validD [OF reward_owner_keeps_caps this rest] show ?thesis .
  qed
qed

lemma check_in_keeps_caps: "tx_keeps caps_ok (check_in accounts now u)"
proof (rule tx_validI)
  fix s s' x
  assume ok: "caps_ok s" and run: "check_in accounts now u s = Inr (s', x)"
  let ?day = "economy_day now"
  obtain ds where lock: "lock_days [u] ?day s = Inr (s\<lparr>ec_days := ds\<rparr>, map (\<lambda>u. the (map_of ds (u, ?day))) [u])"
    and some: "\<And>v. v \<in> set [u] \<Longrightarrow> map_of ds (v, ?day) \<noteq> None"
    by (rule lock_days_run [of "[u]" ?day s]) blast
  have ok1: "caps_ok (s\<lparr>ec_days := ds\<rparr>)" using tx_validD [OF locks_keep_caps(2) ok lock] .
  obtain r where r: "map_of ds (u, ?day) = Some r" using some [of u] by auto
  have "day_ok r" using ok1 r by (simp add: caps_ok_def)
  note capped = credited_is_capped [OF this, of check_in_shards]
  let ?r1 = "r\<lparr>de_baseShards := de_baseShards r + check_in_shards\<rparr>"
  let ?d = "shards_to_credit (de_baseShards ?r1) (de_creditedShards ?r1)"
  let ?r2 = "if 0 < ?d then ?r1\<lparr>de_creditedShards := de_creditedShards ?r1 + ?d\<rparr> else ?r1"
  have "day_ok ?r2" using capped by (auto simp: check_in_shards_def)
  from caps_ok_day [OF ok1 this, of "(u, ?day)"]
  have ok2: "caps_ok (s\<lparr>ec_days := AList.update (u, ?day) ?r2 ds\<rparr>)" by simp
  from run lock r obtain cr e where "credit now cr (s\<lparr>ec_days := AList.update (u, ?day) ?r2 ds\<rparr>) = Inr (s', e)"
    by (auto simp: check_in_def update_day_def tx_simps tx_bind_Inr Let_def AList.update_last split: option.splits if_splits)
  from tx_validD [OF wallets_keep_caps(1) ok2 this] show "caps_ok s'" .
qed

lemma money_ops_keep_caps:
  "tx_keeps caps_ok (adjust accounts now admin u c delta reason)"
  "tx_keeps caps_ok (credit_takedown_refunds now us item amount actor)"
  "tx_keeps caps_ok (recount_rank now u)"
  "tx_keeps caps_ok (write_rank now u counts)"
  "tx_keeps caps_ok (refresh_stale_ranks now)"
  unfolding adjust_def credit_takedown_refunds_def refund_one_def refresh_stale_ranks_def recount_rank_def write_rank_def
  by (intro tx_intros cap_intros; simp)+

lemma undo_keeps_caps:
  "tx_keeps caps_ok (revoke_for_content le now t i)"
  "tx_keeps caps_ok (restore_for_content le now t i)"
  unfolding revoke_for_content_def restore_for_content_def revoke_def restore_def revoke_one_def restore_one_def
    recount_ranks_of_def recount_rank_def write_rank_def
  by (intro tx_intros cap_intros; simp)+

lemma prune_keeps_caps: "tx_keeps caps_ok (prune_old_giver_days now)"
  by (auto simp: tx_valid_def prune_old_giver_days_def tx_simps caps_ok_def)

section \<open>Ledger keys\<close>

text \<open>
  A key of a like or comment exists only when the interaction was counted, a milestone's only when
  that many likes were.
\<close>

fun key_counted :: "economy \<Rightarrow> ledger_key \<Rightarrow> bool" where
  "key_counted s (Like_key t i u _) \<longleftrightarrow> (\<exists>c \<in> set (ec_counted s).
     ci_kind c = LIKE \<and> ci_targetType c = t \<and> ci_targetId c = i \<and> ci_actor c = u)"
| "key_counted s (Comment_key p u _) \<longleftrightarrow> (\<exists>c \<in> set (ec_counted s).
     ci_kind c = COMMENT \<and> ci_targetType c = POST_SOURCE \<and> ci_targetId c = p \<and> ci_actor c = u)"
| "key_counted s (Milestone_key t i n) \<longleftrightarrow> n \<le> count_likes t i s"
| "key_counted s _ \<longleftrightarrow> True"

text \<open>Keys are in order, and \<open>k\<close> may be written.\<close>

definition keys_with :: "ledger_key \<Rightarrow> economy \<Rightarrow> bool" where
  "keys_with k s \<longleftrightarrow> (\<forall>e \<in> set (ec_ledger s). key_counted s (le_key e)) \<and> key_counted s k"

abbreviation keys_ok :: "economy \<Rightarrow> bool" where
  "keys_ok \<equiv> keys_with (Adjust_key 0)"

lemma key_counted_cong: "ec_counted s = ec_counted s' \<Longrightarrow> key_counted s k = key_counted s' k"
  by (cases k) (simp_all add: count_likes_def)

lemma keys_with_cong:
  assumes "ec_counted s' = ec_counted s" and "le_key ` set (ec_ledger s') = le_key ` set (ec_ledger s)"
  shows "keys_with k s' = keys_with k s"
proof -
  have "keys_with k s \<longleftrightarrow> (\<forall>j \<in> le_key ` set (ec_ledger s). key_counted s j) \<and> key_counted s k" for s
    by (auto simp: keys_with_def)
  then show ?thesis by (simp only: assms key_counted_cong [OF assms(1)])
qed

lemma keys_with_frame [simp]:
  "keys_with k (s\<lparr>ec_wallets := w\<rparr>) = keys_with k s"
  "keys_with k (s\<lparr>ec_days := d\<rparr>) = keys_with k s"
  "keys_with k (s\<lparr>ec_given := g\<rparr>) = keys_with k s"
  "keys_with k (s\<lparr>ec_audit := a\<rparr>) = keys_with k s"
  by (rule keys_with_cong; simp)+

named_theorems key_intros \<open>operations that only write keys they may\<close>

lemma credit_keeps_keys [key_intros]:
  assumes "\<And>s. key_counted s k \<Longrightarrow> key_counted s (cr_key cr)"
  shows "tx_keeps (keys_with k) (credit now cr)"
proof (rule tx_validI)
  fix s s' e
  assume ok: "keys_with k s" and "credit now cr s = Inr (s', e)"
  then obtain w where s': "s' = s\<lparr>ec_wallets := AList.update (cr_user cr) w (ec_wallets s), ec_ledger := ec_ledger s @ [e]\<rparr>"
    and e: "le_key e = cr_key cr"
    by (auto elim!: credit_InrE simp: credit_entry_def)
  have "key_counted s' j = key_counted s j" for j by (rule key_counted_cong) (simp add: s')
  moreover have "set (ec_ledger s') = insert e (set (ec_ledger s))" by (simp add: s')
  ultimately show "keys_with k s'" using ok e assms unfolding keys_with_def by auto
qed

lemma rows_keep_keys [key_intros]:
  "tx_keeps (keys_with k) (lock_wallet now u)"
  "tx_keeps (keys_with k) (lock_day day u)"
  "tx_keeps (keys_with k) (update_wallet u f)"
  "tx_keeps (keys_with k) (update_day u day g)"
  "tx_keeps (keys_with k) (record_given owner giver day n)"
  by (auto simp: tx_valid_def lock_wallet_def lock_day_def update_wallet_def update_day_def record_given_def tx_simps
      split: option.splits)

lemma locks_keep_keys [key_intros]:
  "tx_keeps (keys_with k) (lock_wallets now us)"
  "tx_keeps (keys_with k) (lock_days us day)"
  unfolding lock_wallets_def lock_days_def by (intro tx_intros key_intros; simp)+

lemma capped_keeps_keys [key_intros]:
  "(\<And>s. key_counted s k \<Longrightarrow> key_counted s (cr_key award)) \<Longrightarrow> tx_keeps (keys_with k) (credit_capped_shards now u day base award)"
  unfolding credit_capped_shards_def by (intro tx_intros key_intros) auto

lemma award_keeps_keys [key_intros]:
  "(\<And>s. key_counted s k \<Longrightarrow> key_counted s key) \<Longrightarrow>
    tx_keeps (keys_with k) (award_stepped_reputation now owner giver day kind key t i)"
  unfolding award_stepped_reputation_def by (intro tx_intros key_intros) auto

lemma keys_grow:
  assumes "keys_with k s" and "ec_ledger s' = ec_ledger s" and "\<And>j. key_counted s j \<Longrightarrow> key_counted s' j" and "key_counted s' k'"
  shows "keys_with k' s'"
  using assms by (simp add: keys_with_def)

lemma create_counted_keys:
  assumes "\<And>s d. d \<in> set (ec_counted s) \<Longrightarrow> same_interaction d c \<Longrightarrow> key_counted s k"
  shows "tx_valid (keys_with j) (create_counted c) (\<lambda>_. keys_with k)"
proof (rule tx_validI)
  fix s s' n
  assume ok: "keys_with j s" and run: "create_counted c s = Inr (s', n)"
  have same: "same_interaction c c" by (simp add: same_interaction_def)
  show "keys_with k s'"
  proof (cases "\<exists>d \<in> set (ec_counted s). same_interaction d c")
    case True
    then have "s' = s" using run by (simp add: create_counted_def)
    with ok True assms show ?thesis unfolding keys_with_def by metis
  next
    case False
    then have s': "s' = s\<lparr>ec_counted := ec_counted s @ [c]\<rparr>" using run by (auto simp: create_counted_def split: if_splits)
    have "key_counted s i \<Longrightarrow> key_counted s' i" for i
      by (cases i) (auto simp: s' count_likes_def)
    moreover have "key_counted s' k" using assms [of c s'] same by (simp add: s')
    ultimately show ?thesis by (intro keys_grow [OF ok]) (simp_all add: s')
  qed
qed

lemma milestone_keeps_keys [key_intros]: "tx_keeps (keys_with k) (credit_milestone now owner t i)"
proof (rule tx_validI)
  fix s s' x
  assume ok: "keys_with k s" and run: "credit_milestone now owner t i s = Inr (s', x)"
  show "keys_with k s'"
  proof (cases "map_of like_milestone_shards (count_likes t i s)")
    case None
    with run ok show ?thesis by (simp add: credit_milestone_def tx_simps)
  next
    case (Some n)
    with run obtain cr e where c: "credit now cr s = Inr (s', e)" and "cr_key cr = Milestone_key t i (count_likes t i s)"
      by (auto simp: credit_milestone_def tx_simps tx_bind_Inr)
    then obtain w where s': "s' = s\<lparr>ec_wallets := AList.update (cr_user cr) w (ec_wallets s), ec_ledger := ec_ledger s @ [e]\<rparr>"
      and e: "le_key e = Milestone_key t i (count_likes t i s)"
      by (auto elim!: credit_InrE simp: credit_entry_def)
    have "key_counted s' j = key_counted s j" for j by (rule key_counted_cong) (simp add: s')
    moreover have "set (ec_ledger s') = insert e (set (ec_ledger s))" by (simp add: s')
    ultimately show ?thesis using ok e unfolding keys_with_def by auto
  qed
qed

lemma keys_ok_weaken: "keys_with k s \<Longrightarrow> keys_ok s"
  by (simp add: keys_with_def)

lemma counted_bind:
  assumes "tx_valid keys_ok m (\<lambda>_. keys_with k)" and "\<And>x. tx_keeps (keys_with k) (f x)"
  shows "tx_keeps keys_ok (tx_bind m f)"
  by (rule tx_valid_bind [OF assms(1)], rule tx_valid_post [OF assms(2)]) (rule keys_ok_weaken)

lemma record_like_keeps_keys: "tx_keeps keys_ok (record_like hmac accounts now t i owner liker)"
  unfolding record_like_def
proof (intro tx_keeps_if counted_bind [where k = "Like_key t i liker Rep_part"] create_counted_keys)
qed (intro tx_intros key_intros, auto simp: same_interaction_def shards_award_def)+

lemma reward_owner_keeps_keys: "tx_keeps keys_ok (reward_post_owner hmac accounts now c p owner u)"
  unfolding reward_post_owner_def
proof (intro tx_keeps_if counted_bind [where k = "Comment_key p u Rep_part"] create_counted_keys)
qed (intro tx_intros key_intros, auto simp: same_interaction_def shards_award_def)+

lemma pay_comment_keeps_keys: "tx_keeps keys_ok (pay_comment_writer now c u r)"
  unfolding pay_comment_writer_def by (intro tx_intros key_intros) (simp_all add: shards_award_def)

lemma record_comment_keeps_keys: "tx_keeps keys_ok (record_comment hmac accounts now c p owner u)"
  unfolding record_comment_def
  by (intro tx_intros key_intros pay_comment_keeps_keys reward_owner_keeps_keys)

lemma check_in_keeps_keys: "tx_keeps keys_ok (check_in accounts now u)"
  unfolding check_in_def by (intro tx_intros key_intros) auto

lemma adjust_keeps_keys: "tx_keeps keys_ok (adjust accounts now admin u c delta reason)"
  unfolding adjust_def by (intro tx_intros key_intros) auto

lemma refunds_keep_keys: "tx_keeps keys_ok (credit_takedown_refunds now us item amount actor)"
  unfolding credit_takedown_refunds_def refund_one_def by (intro tx_intros key_intros) auto

lemma recounts_keep_keys [key_intros]:
  "tx_keeps keys_ok (write_rank now u counts)"
  "tx_keeps keys_ok (recount_ranks_of now es)"
  "tx_keeps keys_ok (refresh_stale_ranks now)"
  unfolding recount_ranks_of_def refresh_stale_ranks_def recount_rank_def write_rank_def
  by (intro tx_intros key_intros; simp)+

lemma update_entry_keeps_keys [key_intros]:
  assumes "\<And>e. le_key (f e) = le_key e"
  shows "tx_keeps keys_ok (update_entry_if i cond f)"
proof -
  have "keys_ok (s\<lparr>ec_ledger := map (\<lambda>e. if b e then f e else e) (ec_ledger s)\<rparr>) = keys_ok s" for s b
  proof (rule keys_with_cong)
    have "map le_key (map (\<lambda>e. if b e then f e else e) es) = map le_key es" for es by (simp add: assms)
    from arg_cong [OF this, of set]
    show "le_key ` set (ec_ledger (s\<lparr>ec_ledger := map (\<lambda>e. if b e then f e else e) (ec_ledger s)\<rparr>)) = le_key ` set (ec_ledger s)"
      by (simp only: set_map economy.select_convs economy.update_convs) (simp add: image_Un)
  qed simp
  then show ?thesis by (auto simp: tx_valid_def update_entry_if_def)
qed

lemma create_entry_keeps_keys [key_intros]:
  assumes "\<And>n s. key_counted s (le_key (mk n))"
  shows "tx_keeps keys_ok (create_entry mk)"
proof (rule tx_validI)
  fix s s' e
  assume ok: "keys_ok s" and "create_entry mk s = Inr (s', e)"
  then have s': "s' = s\<lparr>ec_ledger := ec_ledger s @ [mk (length (ec_ledger s))]\<rparr>"
    by (auto simp: create_entry_def Let_def split: if_splits)
  have "key_counted s' j = key_counted s j" for j by (rule key_counted_cong) (simp add: s')
  moreover have "set (ec_ledger s') = insert (mk (length (ec_ledger s))) (set (ec_ledger s))" by (simp add: s')
  ultimately show "keys_ok s'" using ok assms unfolding keys_with_def by auto
qed

lemma undo_keeps_keys:
  "tx_keeps keys_ok (revoke_for_content le now t i)"
  "tx_keeps keys_ok (restore_for_content le now t i)"
  unfolding revoke_for_content_def restore_for_content_def revoke_def restore_def revoke_one_def restore_one_def
  by (intro tx_intros key_intros; simp add: undo_entry_def)+

end
