(* ===== verification/Economy_System.thy ===== *)
theory Economy_System
  imports Economy_Caps
begin

text \<open>
  The economy as one step relation: every operation of the service in any order, at any time and for
  any state of the accounts. A refresh of a rank reads and writes without a transaction, so the
  relation with races lets its reads come from any earlier moment.
\<close>

section \<open>Steps\<close>

definition no_economy :: economy where
  "no_economy = \<lparr>ec_wallets = [], ec_ledger = [], ec_days = [], ec_given = [], ec_counted = [], ec_audit = []\<rparr>"

inductive economy_step :: "economy \<Rightarrow> economy \<Rightarrow> bool" where
  like: "record_like hmac accounts now t i owner liker s = Inr (s', x) \<Longrightarrow> economy_step s s'"
| comment: "record_comment hmac accounts now c p owner u s = Inr (s', x) \<Longrightarrow> economy_step s s'"
| checked_in: "check_in accounts now u s = Inr (s', n) \<Longrightarrow> economy_step s s'"
| adjusted: "adjust accounts now admin u c delta reason s = Inr (s', e) \<Longrightarrow> economy_step s s'"
| refunded: "credit_takedown_refunds now us item amount actor s = Inr (s', k) \<Longrightarrow> economy_step s s'"
| hidden: "revoke_for_content le now t i s = Inr (s', x) \<Longrightarrow> economy_step s s'"
| shown: "restore_for_content le now t i s = Inr (s', x) \<Longrightarrow> economy_step s s'"
| refreshed: "refresh_stale_ranks now s = Inr (s', k) \<Longrightarrow> economy_step s s'"
| pruned: "prune_old_giver_days now s = Inr (s', k) \<Longrightarrow> economy_step s s'"

inductive economy_race :: "economy \<Rightarrow> economy \<Rightarrow> bool" where
  calm: "economy_step s s' \<Longrightarrow> economy_race s s'"
| stale: "write_rank now u (read_rank now u seen) s = Inr (s', x) \<Longrightarrow> economy_race s s'"

inductive_cases economy_raceE: "economy_race s s'"

definition counters_ok :: "economy \<Rightarrow> bool" where
  "counters_ok s \<longleftrightarrow> money_ok s \<and> caps_ok s \<and> keys_ok s"

lemma no_economy_ok: "counters_ok no_economy" "money_and_ranks {} no_economy"
  by (simp_all add: counters_ok_def money_and_ranks_def no_economy_def money_ok_def caps_ok_def keys_with_def
      ranks_except_def balance_def)

lemma prune_keeps:
  assumes "prune_old_giver_days now s = Inr (s', k)"
  shows "money_ok s' = money_ok s" and "keys_ok s' = keys_ok s" and "ranks_except U s' = ranks_except U s"
  using assms by (auto simp: prune_old_giver_days_def tx_simps)

lemma economy_step_counters: "economy_step s s' \<Longrightarrow> counters_ok s \<Longrightarrow> counters_ok s'"
proof (induction rule: economy_step.induct)
  case (like hmac accounts now t i owner liker s s' x)
  then show ?case unfolding counters_ok_def
    by (metis record_like_keeps_money record_like_keeps_caps record_like_keeps_keys tx_validD)
next
  case (comment hmac accounts now c p owner u s s' x)
  then show ?case unfolding counters_ok_def
    by (metis record_comment_keeps_money record_comment_keeps_caps record_comment_keeps_keys tx_validD)
next
  case (checked_in accounts now u s s' n)
  then show ?case unfolding counters_ok_def
    by (metis check_in_keeps_money check_in_keeps_caps check_in_keeps_keys tx_validD)
next
  case (adjusted accounts now admin u c delta reason s s' e)
  then show ?case unfolding counters_ok_def
    by (metis adjust_keeps_money money_ops_keep_caps(1) adjust_keeps_keys tx_validD)
next
  case (refunded now us item amount actor s s' k)
  then show ?case unfolding counters_ok_def
    by (metis refunds_keep_money money_ops_keep_caps(2) refunds_keep_keys tx_validD)
next
  case (hidden le now t i s s' x)
  then show ?case unfolding counters_ok_def
    by (metis revoke_for_content_keeps_money undo_keeps_caps(1) undo_keeps_keys(1) tx_validD)
next
  case (shown le now t i s s' x)
  then show ?case unfolding counters_ok_def
    by (metis restore_for_content_keeps_money undo_keeps_caps(2) undo_keeps_keys(2) tx_validD)
next
  case (refreshed now s s' k)
  then show ?case unfolding counters_ok_def
    by (metis recounts_keep_money(3) money_ops_keep_caps(5) recounts_keep_keys(3) tx_validD)
next
  case (pruned now s s' k)
  then show ?case unfolding counters_ok_def
    by (metis prune_keeps prune_keeps_caps tx_validD)
qed

lemma economy_race_counters: "economy_race s s' \<Longrightarrow> counters_ok s \<Longrightarrow> counters_ok s'"
  unfolding counters_ok_def
  by (erule economy_raceE)
     (metis counters_ok_def economy_step_counters, metis write_rank_keeps_money money_ops_keep_caps(4) recounts_keep_keys(1) tx_validD)

lemma economy_step_ranks: "economy_step s s' \<Longrightarrow> money_and_ranks {} s \<Longrightarrow> money_and_ranks {} s'"
proof (induction rule: economy_step.induct)
  case (like hmac accounts now t i owner liker s s' x)
  then show ?case unfolding money_and_ranks_def by (metis record_like_keeps_money record_like_keeps_ranks tx_validD)
next
  case (comment hmac accounts now c p owner u s s' x)
  then show ?case unfolding money_and_ranks_def by (metis record_comment_keeps_money record_comment_keeps_ranks tx_validD)
next
  case (checked_in accounts now u s s' n)
  then show ?case unfolding money_and_ranks_def by (metis check_in_keeps_money check_in_keeps_ranks tx_validD)
next
  case (adjusted accounts now admin u c delta reason s s' e)
  then show ?case unfolding money_and_ranks_def by (metis adjust_keeps_money adjust_keeps_ranks tx_validD)
next
  case (refunded now us item amount actor s s' k)
  then show ?case unfolding money_and_ranks_def by (metis refunds_keep_money refunds_keep_ranks tx_validD)
next
  case (hidden le now t i s s' x)
  then show ?case by (metis content_keeps_ranks(1) tx_validD)
next
  case (shown le now t i s s' x)
  then show ?case by (metis content_keeps_ranks(2) tx_validD)
next
  case (refreshed now s s' k)
  then show ?case unfolding money_and_ranks_def by (metis recounts_keep_money(3) refresh_keeps_ranks tx_validD)
next
  case (pruned now s s' k)
  then show ?case unfolding money_and_ranks_def by (metis prune_keeps)
qed

interpretation calm: state_machine "\<lambda>s. s = no_economy" economy_step "money_and_ranks {}"
  by unfold_locales (auto simp: no_economy_ok intro: economy_step_ranks)

interpretation racy: state_machine "\<lambda>s. s = no_economy" economy_race counters_ok
  by unfold_locales (auto simp: no_economy_ok intro: economy_race_counters)

end
