(* ===== verification/Economy_Undo.thy ===== *)
theory Economy_Undo
  imports Economy_System
begin

text \<open>
  Hiding content and showing it again: the loops that take awards back and give them back never fail,
  conserve what each user holds (the balance and what revocations took from it), and leave every row
  of the ledger as it was.
\<close>

section \<open>What a user holds\<close>

definition revoked_amount :: "ledger_entry \<Rightarrow> int" where
  "revoked_amount e = (case le_revokedAmount e of None \<Rightarrow> 0 | Some n \<Rightarrow> n)"

definition taken_from :: "user_id \<Rightarrow> currency \<Rightarrow> ledger_entry list \<Rightarrow> int" where
  "taken_from u c es = sum_list (map (\<lambda>e. if le_user e = u \<and> le_currency e = c then revoked_amount e else 0) es)"

definition held :: "user_id \<Rightarrow> currency \<Rightarrow> economy \<Rightarrow> int" where
  "held u c s = balance s u c + taken_from u c (ec_ledger s)"

lemma taken_from_append [simp]: "taken_from u c (es @ fs) = taken_from u c es + taken_from u c fs"
  by (simp add: taken_from_def)

lemma on_row_other: "i \<notin> le_id ` set es \<Longrightarrow> on_row i f es = es"
  unfolding on_row_def by (rule map_idI) auto

lemma taken_from_on_row:
  assumes "distinct (map le_id es)" and "a \<in> set es" and "le_user (f a) = le_user a" and "le_currency (f a) = le_currency a"
  shows "taken_from u c (on_row (le_id a) f es) = taken_from u c es
    + (if le_user a = u \<and> le_currency a = c then revoked_amount (f a) - revoked_amount a else 0)"
  using assms
proof (induction es)
  case (Cons e es)
  show ?case
  proof (cases "le_id e = le_id a")
    case True
    with Cons.prems have "e = a" "le_id a \<notin> le_id ` set es" by auto
    with Cons.prems(3,4) show ?thesis
      using on_row_other [of "le_id a" es f] by (simp add: taken_from_def on_row_def)
  next
    case False
    with Cons show ?thesis by (auto simp: taken_from_def on_row_def)
  qed
qed simp

lemma balance_undone:
  "balance (undone now award d r key f s) u c
    = balance s u c + (if u = le_user award \<and> c = le_currency award then d else 0)"
  by (simp add: undone_def)

lemma held_undone:
  assumes ok: "money_ok s" and a: "award \<in> set (ec_ledger s)" and f: "mark_ok f" and d: "revoked_amount (f award) - revoked_amount award = - d"
  shows "held u c (undone now award d r key f s) = held u c s"
proof -
  have "distinct (map le_id (ec_ledger s))" using ok by (simp add: money_ok_def)
  note row = taken_from_on_row [OF this a, of f u c]
  have "le_user (f award) = le_user award" "le_currency (f award) = le_currency award" using f by (simp_all add: mark_ok_def)
  note row = row [OF this]
  have led: "ec_ledger (undone now award d r key f s) = on_row (le_id award) f (ec_ledger s)
      @ [undo_entry now award d (balance s (le_user award) (le_currency award) + d) r key (length (ec_ledger s))]"
    by (simp add: undone_def)
  have new: "taken_from u c [undo_entry now award d b r key n] = 0" for b n
    by (simp add: taken_from_def undo_entry_def revoked_amount_def)
  show ?thesis
    unfolding held_def led taken_from_append new balance_undone row using d by auto
qed

section \<open>The loops\<close>

text \<open>
  One iteration: it changes the row of its award by a mark (\<open>P\<close> says which marks), adds a row that is
  no award and is not revoked, and conserves what users hold.
\<close>

definition undo_step :: "(ledger_entry \<Rightarrow> unit economy_tx) \<Rightarrow> ((ledger_entry \<Rightarrow> ledger_entry) \<Rightarrow> bool)
    \<Rightarrow> (ledger_entry \<Rightarrow> bool) \<Rightarrow> bool" where
  "undo_step one P A \<longleftrightarrow> (\<forall>s a. money_ok s \<and> a \<in> set (ec_ledger s) \<and> A a \<longrightarrow>
     (\<exists>s' f x. one a s = Inr (s', ()) \<and> money_ok s' \<and> P f \<and> mark_ok f
       \<and> ec_ledger s' = on_row (le_id a) f (ec_ledger s) @ [x]
       \<and> le_id x = length (ec_ledger s) \<and> le_reason x \<notin> set award_reasons \<and> le_revokedAt x = None \<and> revoked_amount x = 0
       \<and> (\<forall>u c. held u c s' = held u c s)
       \<and> map_of (ec_wallets s') (le_user a) \<noteq> None
       \<and> (\<forall>u. map_of (ec_wallets s) u \<noteq> None \<longrightarrow> map_of (ec_wallets s') u \<noteq> None)))"

definition marked :: "nat list \<Rightarrow> (nat \<Rightarrow> ledger_entry \<Rightarrow> ledger_entry) \<Rightarrow> ledger_entry list \<Rightarrow> ledger_entry list" where
  "marked is g es = map (\<lambda>e. if le_id e \<in> set is then g (le_id e) e else e) es"

definition new_row :: "ledger_entry \<Rightarrow> bool" where
  "new_row x \<longleftrightarrow> le_reason x \<notin> set award_reasons \<and> le_revokedAt x = None \<and> revoked_amount x = 0"

lemma undo_loop:
  assumes step: "undo_step one P A" and "P f0"
    and "money_ok s" and "distinct (map le_id es)" and "set es \<subseteq> set (ec_ledger s)" and "\<forall>a \<in> set es. A a"
  shows "\<exists>s' xs g ex. tx_map one es s = Inr (s', xs) \<and> money_ok s'
    \<and> ec_ledger s' = marked (map le_id es) g (ec_ledger s) @ ex \<and> (\<forall>i. P (g i)) \<and> list_all new_row ex
    \<and> (\<forall>u c. held u c s' = held u c s)
    \<and> (\<forall>a \<in> set es. map_of (ec_wallets s') (le_user a) \<noteq> None)
    \<and> (\<forall>u. map_of (ec_wallets s) u \<noteq> None \<longrightarrow> map_of (ec_wallets s') u \<noteq> None)"
  using assms(3-)
proof (induction es arbitrary: s)
  case Nil
  then show ?case using assms(2)
    by (intro exI [where x = s] exI [where x = "[]"] exI [where x = "\<lambda>_. f0"]) (simp add: tx_simps marked_def)
next
  case (Cons a es)
  have a: "a \<in> set (ec_ledger s)" "A a" using Cons.prems by auto
  obtain s1 f x where 1: "one a s = Inr (s1, ())" "money_ok s1" "P f" "mark_ok f"
    "ec_ledger s1 = on_row (le_id a) f (ec_ledger s) @ [x]" "le_id x = length (ec_ledger s)" "new_row x"
    "\<And>u c. held u c s1 = held u c s" "map_of (ec_wallets s1) (le_user a) \<noteq> None"
    "\<And>u. map_of (ec_wallets s) u \<noteq> None \<Longrightarrow> map_of (ec_wallets s1) u \<noteq> None"
    using step a Cons.prems(1) unfolding undo_step_def new_row_def by metis
  have ids: "le_id e < length (ec_ledger s)" if "e \<in> set (ec_ledger s)" for e
  proof -
    have "le_id e \<in> set (map le_id (ec_ledger s))" using that by simp
    then show ?thesis using Cons.prems(1) unfolding money_ok_def by simp
  qed
  have sub: "set es \<subseteq> set (ec_ledger s1)"
  proof
    fix b assume b: "b \<in> set es"
    then have "b \<in> set (ec_ledger s)" using Cons.prems(3) by auto
    have "le_id b \<in> le_id ` set es" using b by simp
    then have "le_id b \<noteq> le_id a" using Cons.prems(2) by auto
    note \<open>b \<in> set (ec_ledger s)\<close> this
    then have "b \<in> set (on_row (le_id a) f (ec_ledger s))" by (auto simp: on_row_def image_iff intro!: bexI [of _ b])
    then show "b \<in> set (ec_ledger s1)" by (simp add: 1(5))
  qed
  obtain s2 xs g ex where 2: "tx_map one es s1 = Inr (s2, xs)" "money_ok s2"
    "ec_ledger s2 = marked (map le_id es) g (ec_ledger s1) @ ex" "\<forall>i. P (g i)" "list_all new_row ex"
    "\<And>u c. held u c s2 = held u c s1" "\<And>b. b \<in> set es \<Longrightarrow> map_of (ec_wallets s2) (le_user b) \<noteq> None"
    "\<And>u. map_of (ec_wallets s1) u \<noteq> None \<Longrightarrow> map_of (ec_wallets s2) u \<noteq> None"
    using Cons.IH [OF 1(2) _ sub] Cons.prems(2,4) by auto
  let ?g = "\<lambda>i. if i = le_id a then f else g i"
  have "le_id x \<notin> le_id ` set es" using ids Cons.prems(3) 1(6) by fastforce
  then have "marked (map le_id es) g [x] = [x]" by (simp add: marked_def)
  moreover have "le_id (f e) = le_id e" for e using 1(4) by (simp add: mark_ok_def)
  then have "marked (map le_id es) g (on_row (le_id a) f (ec_ledger s)) = marked (map le_id (a # es)) ?g (ec_ledger s)"
    using Cons.prems(2) by (auto simp: marked_def on_row_def)
  ultimately have "ec_ledger s2 = marked (map le_id (a # es)) ?g (ec_ledger s) @ (x # ex)"
    unfolding 2(3) 1(5) by (simp add: marked_def)
  moreover have "tx_map one (a # es) s = Inr (s2, () # xs)" using 1(1) 2(1) by (simp add: tx_bind_def tx_return_def)
  ultimately show ?case
    using 1 2 by (intro exI [where x = s2] exI [where x = "() # xs"] exI [where x = ?g] exI [where x = "x # ex"]) auto
qed

lemma revoke_step:
  "undo_step (revoke_one now cause) (\<lambda>f. \<exists>n. f = mark_revoked now cause n) (\<lambda>a. 0 \<le> le_delta a \<and> le_revokedAt a = None)"
  unfolding undo_step_def
proof (intro allI impI)
  fix s a
  assume h: "money_ok s \<and> a \<in> set (ec_ledger s) \<and> 0 \<le> le_delta a \<and> le_revokedAt a = None"
  then have ok: "money_ok s" and a: "a \<in> set (ec_ledger s)" and pos: "0 \<le> le_delta a" and now: "le_revokedAt a = None" by simp_all
  let ?n = "min (le_delta a) (balance s (le_user a) (le_currency a))"
  let ?s = "undone now a (- ?n) REVOKED Revoke_key (mark_revoked now cause ?n) s"
  have c: "is_claimable False (le_id a) s" using a now by (auto simp: is_claimable_def)
  have run: "revoke_one now cause a s = Inr (?s, ())" by (rule revoke_one_run(1) [OF ok c])
  have n: "0 \<le> ?n" using pos money_ok_nonneg [OF ok] by simp
  have "entry_ok a" using ok a by (simp add: money_ok_def list_all_iff)
  then have "revoked_amount (mark_revoked now cause ?n a) - revoked_amount a = - (- ?n)"
    using now by (simp add: revoked_amount_def mark_revoked_def entry_ok_def)
  from held_undone [OF ok a marks_ok(2) [OF n] this]
  have held: "held u c ?s = held u c s" for u c .
  show "\<exists>s' f x. revoke_one now cause a s = Inr (s', ()) \<and> money_ok s' \<and> (\<exists>n. f = mark_revoked now cause n) \<and> mark_ok f
       \<and> ec_ledger s' = on_row (le_id a) f (ec_ledger s) @ [x]
       \<and> le_id x = length (ec_ledger s) \<and> le_reason x \<notin> set award_reasons \<and> le_revokedAt x = None \<and> revoked_amount x = 0
       \<and> (\<forall>u c. held u c s' = held u c s)
       \<and> map_of (ec_wallets s') (le_user a) \<noteq> None
       \<and> (\<forall>u. map_of (ec_wallets s) u \<noteq> None \<longrightarrow> map_of (ec_wallets s') u \<noteq> None)"
    using tx_validD [OF revoke_one_keeps_money [OF pos] ok run] run held marks_ok(2) [OF n]
    by (intro exI [where x = ?s] exI [where x = "mark_revoked now cause ?n"]
         exI [where x = "undo_entry now a (- ?n) (balance s (le_user a) (le_currency a) + - ?n) REVOKED Revoke_key (length (ec_ledger s))"])
       (auto simp: undone_def undo_entry_def award_reasons_def revoked_amount_def)
qed

lemma restore_step:
  "undo_step (restore_one now) (\<lambda>f. f = mark_restored) (\<lambda>a. le_revokedAt a \<noteq> None)"
  unfolding undo_step_def
proof (intro allI impI)
  fix s a
  assume h: "money_ok s \<and> a \<in> set (ec_ledger s) \<and> le_revokedAt a \<noteq> None"
  then have ok: "money_ok s" and a: "a \<in> set (ec_ledger s)" and now: "le_revokedAt a \<noteq> None" by simp_all
  let ?n = "case le_revokedAmount a of None \<Rightarrow> 0 | Some n \<Rightarrow> n"
  let ?s = "undone now a ?n RESTORED Restore_key mark_restored s"
  have c: "is_claimable True (le_id a) s" using a now by (auto simp: is_claimable_def)
  have run: "restore_one now a s = Inr (?s, ())" by (rule restore_one_run(1) [OF ok c])
  have e: "entry_ok a" using ok a by (simp add: money_ok_def list_all_iff)
  have "revoked_amount (mark_restored a) - revoked_amount a = - ?n" by (simp add: revoked_amount_def mark_restored_def)
  from held_undone [OF ok a marks_ok(1) this]
  have held: "held u c ?s = held u c s" for u c .
  show "\<exists>s' f x. restore_one now a s = Inr (s', ()) \<and> money_ok s' \<and> f = mark_restored \<and> mark_ok f
       \<and> ec_ledger s' = on_row (le_id a) f (ec_ledger s) @ [x]
       \<and> le_id x = length (ec_ledger s) \<and> le_reason x \<notin> set award_reasons \<and> le_revokedAt x = None \<and> revoked_amount x = 0
       \<and> (\<forall>u c. held u c s' = held u c s)
       \<and> map_of (ec_wallets s') (le_user a) \<noteq> None
       \<and> (\<forall>u. map_of (ec_wallets s) u \<noteq> None \<longrightarrow> map_of (ec_wallets s') u \<noteq> None)"
    using tx_validD [OF restore_one_keeps_money [OF e] ok run] run held
    by (intro exI [where x = ?s] exI [where x = mark_restored]
         exI [where x = "undo_entry now a ?n (balance s (le_user a) (le_currency a) + ?n) RESTORED Restore_key (length (ec_ledger s))"])
       (auto simp: undone_def undo_entry_def award_reasons_def revoked_amount_def)
qed

section \<open>Recounting never fails on users with a wallet\<close>

lemma recount_rank_total:
  assumes "map_of (ec_wallets s) u \<noteq> None"
  obtains ws where "recount_rank now u s = Inr (s\<lparr>ec_wallets := ws\<rparr>, ())"
    and "\<And>v c. balance (s\<lparr>ec_wallets := ws\<rparr>) v c = balance s v c"
    and "\<And>v. map_of (ec_wallets s) v \<noteq> None \<Longrightarrow> map_of ws v \<noteq> None"
proof -
  obtain w where w: "map_of (ec_wallets s) u = Some w" using assms by auto
  let ?w = "w\<lparr>wa_reputation90d := fst (read_rank now u s),
           wa_rank := rank_for (wa_reputation w) (fst (read_rank now u s)), wa_rankUpdatedAt := now\<rparr>"
  have "balance_field c w = balance s u c" for c using w by (simp add: balance_def)
  then show thesis using w by (intro that [of "AList.update u ?w (ec_wallets s)"]) (auto simp: recount_rank_run)
qed

lemma recounts_total:
  assumes "\<forall>u \<in> set us. map_of (ec_wallets s) u \<noteq> None"
  shows "\<exists>ws xs. tx_map (recount_rank now) us s = Inr (s\<lparr>ec_wallets := ws\<rparr>, xs)
    \<and> (\<forall>v c. balance (s\<lparr>ec_wallets := ws\<rparr>) v c = balance s v c)
    \<and> (\<forall>v. map_of (ec_wallets s) v \<noteq> None \<longrightarrow> map_of ws v \<noteq> None)"
  using assms
proof (induction us arbitrary: s)
  case Nil
  then show ?case by (intro exI [where x = "ec_wallets s"] exI [where x = "[]"]) (simp add: tx_simps)
next
  case (Cons u us)
  obtain ws where 1: "recount_rank now u s = Inr (s\<lparr>ec_wallets := ws\<rparr>, ())"
    "\<And>v c. balance (s\<lparr>ec_wallets := ws\<rparr>) v c = balance s v c"
    "\<And>v. map_of (ec_wallets s) v \<noteq> None \<Longrightarrow> map_of ws v \<noteq> None"
    using recount_rank_total [of s u now] Cons.prems by auto
  have "\<forall>u \<in> set us. map_of (ec_wallets (s\<lparr>ec_wallets := ws\<rparr>)) u \<noteq> None" using Cons.prems 1(3) by simp
  from Cons.IH [OF this] obtain ws' xs where 2: "tx_map (recount_rank now) us (s\<lparr>ec_wallets := ws\<rparr>) = Inr (s\<lparr>ec_wallets := ws'\<rparr>, xs)"
    "\<And>v c. balance (s\<lparr>ec_wallets := ws'\<rparr>) v c = balance (s\<lparr>ec_wallets := ws\<rparr>) v c"
    "\<And>v. map_of ws v \<noteq> None \<Longrightarrow> map_of ws' v \<noteq> None" by auto
  have "tx_map (recount_rank now) (u # us) s = Inr (s\<lparr>ec_wallets := ws'\<rparr>, () # xs)"
    using 1(1) 2(1) by (simp add: tx_bind_def tx_return_def)
  then show ?case using 1(2,3) 2(2,3) by (intro exI [where x = ws'] exI [where x = "() # xs"]) auto
qed

lemma recount_ranks_total:
  assumes "\<forall>e \<in> set es. map_of (ec_wallets s) (le_user e) \<noteq> None"
  obtains ws where "recount_ranks_of now es s = Inr (s\<lparr>ec_wallets := ws\<rparr>, ())"
    and "\<And>v c. balance (s\<lparr>ec_wallets := ws\<rparr>) v c = balance s v c"
proof -
  have "\<forall>u \<in> set (sort (js_set (map le_user (filter (\<lambda>e. le_currency e = REPUTATION) es)))). map_of (ec_wallets s) u \<noteq> None"
    using assms by auto
  from recounts_total [OF this, of now] show thesis
    using that by (auto simp: recount_ranks_of_def tx_bind_def tx_return_def)
qed

section \<open>Hiding and showing\<close>

definition awards_of :: "economy_source \<Rightarrow> string \<Rightarrow> economy \<Rightarrow> ledger_entry list" where
  "awards_of t i s = filter (\<lambda>e. source_of_content t i e \<and> le_reason e \<in> set award_reasons \<and> le_revokedAt e = None) (ec_ledger s)"

definition revoked_of :: "economy_source \<Rightarrow> string \<Rightarrow> economy \<Rightarrow> ledger_entry list" where
  "revoked_of t i s = filter (\<lambda>e. source_of_content t i e \<and> le_revokedCause e = Some CONTENT) (ec_ledger s)"

lemma sort_by_ids:
  assumes "money_ok s" and "es = filter f (ec_ledger s)"
  shows "distinct (map le_id (sort_by le es))" and "set (sort_by le es) \<subseteq> set (ec_ledger s)"
proof -
  have "distinct (map le_id (ec_ledger s))" using assms(1) by (simp add: money_ok_def)
  then have "distinct (map le_id es)" using assms(2) by (simp add: distinct_map_filter)
  then show "distinct (map le_id (sort_by le es))"
    by (metis mset_eq_imp_distinct_iff mset_map mset_sort_by)
  show "set (sort_by le es) \<subseteq> set (ec_ledger s)" using assms(2) by auto
qed

text \<open>Both directions: what a run of the loop and the recount after it leave behind.\<close>

lemma undo_run:
  assumes step: "undo_step one P A" and "P f0" and ok: "money_ok s" and es: "es = filter f (ec_ledger s)" and "\<forall>a \<in> set es. A a"
  obtains s' g ex where
    "tx_bind (tx_map one (sort_by le es)) (\<lambda>_. recount_ranks_of now (sort_by le es)) s = Inr (s', ())"
    and "ec_ledger s' = marked (map le_id es) g (ec_ledger s) @ ex" and "\<And>i. P (g i)" and "list_all new_row ex"
    and "\<And>u c. held u c s' = held u c s" and "money_ok s'"
proof -
  from undo_loop [OF step assms(2) ok sort_by_ids [OF ok es, of le]] assms(5)
  obtain s1 xs g ex where 1: "tx_map one (sort_by le es) s = Inr (s1, xs)" "money_ok s1"
    "ec_ledger s1 = marked (map le_id (sort_by le es)) g (ec_ledger s) @ ex" "\<forall>i. P (g i)" "list_all new_row ex"
    "\<forall>u c. held u c s1 = held u c s" "\<forall>a \<in> set (sort_by le es). map_of (ec_wallets s1) (le_user a) \<noteq> None"
    by auto
  obtain ws where ws: "recount_ranks_of now (sort_by le es) s1 = Inr (s1\<lparr>ec_wallets := ws\<rparr>, ())"
    "\<And>v c. balance (s1\<lparr>ec_wallets := ws\<rparr>) v c = balance s1 v c"
    by (rule recount_ranks_total [OF 1(7)]) blast
  have "ec_ledger s1 = marked (map le_id es) g (ec_ledger s) @ ex" using 1(3) by (simp add: marked_def)
  moreover have "held u c (s1\<lparr>ec_wallets := ws\<rparr>) = held u c s" for u c using 1(6) by (simp add: held_def ws(2))
  moreover have "money_ok (s1\<lparr>ec_wallets := ws\<rparr>)" using tx_validD [OF recounts_keep_money(2) 1(2) ws(1)] .
  ultimately show thesis
    using 1(1,4,5) ws(1) by (intro that [of "s1\<lparr>ec_wallets := ws\<rparr>" g ex]) (auto simp: tx_bind_def)
qed

lemma hide_run:
  assumes ok: "money_ok s"
  obtains s1 g ex where "revoke_for_content le now t i s = Inr (s1, ())"
    and "ec_ledger s1 = marked (map le_id (awards_of t i s)) g (ec_ledger s) @ ex"
    and "\<And>j. \<exists>n. g j = mark_revoked now CONTENT n" and "list_all new_row ex"
    and "\<And>u c. held u c s1 = held u c s" and "money_ok s1"
proof (rule undo_run [where le = le and now = now, OF revoke_step [of now CONTENT] _ ok awards_of_def])
  show "\<exists>n. mark_revoked now CONTENT 0 = mark_revoked now CONTENT n" by blast
  show "\<forall>a\<in>set (awards_of t i s). 0 \<le> le_delta a \<and> le_revokedAt a = None"
    using ok by (auto simp: awards_of_def money_ok_def list_all_iff entry_ok_def)
qed (use that in \<open>simp add: revoke_for_content_def revoke_def tx_simps awards_of_def Let_def\<close>)

lemma show_run:
  assumes ok: "money_ok s"
  obtains s1 ex where "restore_for_content le now t i s = Inr (s1, ())"
    and "ec_ledger s1 = marked (map le_id (revoked_of t i s)) (\<lambda>_. mark_restored) (ec_ledger s) @ ex" and "list_all new_row ex"
    and "\<And>u c. held u c s1 = held u c s" and "money_ok s1"
proof (rule undo_run [where le = le and now = now, OF restore_step [of now] _ ok revoked_of_def])
  show "\<forall>a\<in>set (revoked_of t i s). le_revokedAt a \<noteq> None"
    using ok by (auto simp: revoked_of_def money_ok_def list_all_iff entry_ok_def)
  fix s' ex and g :: "nat \<Rightarrow> ledger_entry \<Rightarrow> ledger_entry"
  assume "\<And>j. g j = mark_restored"
  then have "g = (\<lambda>_. mark_restored)" by auto
  moreover assume "tx_bind (tx_map (restore_one now) (sort_by le (revoked_of t i s)))
      (\<lambda>_. recount_ranks_of now (sort_by le (revoked_of t i s))) s = Inr (s', ())"
    and "ec_ledger s' = marked (map le_id (revoked_of t i s)) g (ec_ledger s) @ ex" "list_all new_row ex"
    "\<And>u c. held u c s' = held u c s" "money_ok s'"
  ultimately show thesis
    using that [of s' ex] by (simp add: restore_for_content_def restore_def tx_simps revoked_of_def Let_def)
qed simp

lemma restored_is_original: "entry_ok e \<Longrightarrow> le_revokedAt e = None \<Longrightarrow> mark_restored (mark_revoked now cause n e) = e"
  by (simp add: mark_restored_def mark_revoked_def entry_ok_def)

lemma taken_from_new: "list_all new_row es \<Longrightarrow> taken_from u c (marked is (\<lambda>_. mark_restored) es) = 0 \<and> taken_from u c es = 0"
  by (induction es) (auto simp: taken_from_def marked_def new_row_def revoked_amount_def mark_restored_def)

lemma hide_then_show:
  assumes ok: "money_ok s" and clean: "\<forall>e \<in> set (ec_ledger s). source_of_content t i e \<longrightarrow> le_revokedAt e = None"
    and hide: "revoke_for_content le now t i s = Inr (s1, ())"
  shows "\<exists>s2. restore_for_content le' later t i s1 = Inr (s2, ()) \<and> (\<forall>u c. balance s2 u c = balance s u c)
    \<and> take (length (ec_ledger s)) (ec_ledger s2) = ec_ledger s"
proof -
  obtain g ex where 1: "ec_ledger s1 = marked (map le_id (awards_of t i s)) g (ec_ledger s) @ ex"
    "\<And>j. \<exists>n. g j = mark_revoked now CONTENT n" "list_all new_row ex" "\<And>u c. held u c s1 = held u c s" "money_ok s1"
    by (rule hide_run [OF ok, of le now t i]) (use hide in auto)
  obtain s2 ex' where 2: "restore_for_content le' later t i s1 = Inr (s2, ())"
    "ec_ledger s2 = marked (map le_id (revoked_of t i s1)) (\<lambda>_. mark_restored) (ec_ledger s1) @ ex'" "list_all new_row ex'"
    "\<And>u c. held u c s2 = held u c s1"
    by (rule show_run [OF 1(5), of le' later t i]) auto
  let ?A = "map le_id (awards_of t i s)" and ?R = "map le_id (revoked_of t i s1)"
  have row: "(if le_id e \<in> set ?R then mark_restored e1 else e1) = e"
    if e: "e \<in> set (ec_ledger s)" and e1: "e1 = (if le_id e \<in> set ?A then g (le_id e) e else e)" for e e1
  proof -
    have in1: "e1 \<in> set (ec_ledger s1)" using e e1 by (auto simp: 1(1) marked_def)
    have good: "entry_ok e" using ok e by (simp add: money_ok_def list_all_iff)
    obtain n where n: "g (le_id e) = mark_revoked now CONTENT n" using 1(2) by blast
    show ?thesis
    proof (cases "le_id e \<in> set ?A")
      case True
      then have a: "source_of_content t i e" "le_revokedAt e = None"
        using unique_row [OF ok e] by (auto simp: awards_of_def)
      have "e1 \<in> set (revoked_of t i s1)" using in1 a(1) True by (simp add: revoked_of_def e1 n mark_revoked_def)
      moreover have "le_id e1 = le_id e" using True by (simp add: e1 n mark_revoked_def)
      ultimately have "le_id e \<in> set ?R" by (metis image_eqI set_map)
      with True n e1 restored_is_original [OF good a(2)] show ?thesis by simp
    next
      case False
      then have same: "e1 = e" by (simp add: e1)
      have "le_id e \<notin> set ?R"
      proof
        assume "le_id e \<in> set ?R"
        then obtain b where b: "b \<in> set (ec_ledger s1)" "source_of_content t i b" "le_revokedCause b = Some CONTENT" "le_id b = le_id e"
          by (auto simp: revoked_of_def)
        then have "b = e" using unique_row [OF 1(5) b(1) in1] same by simp
        with b(2,3) clean e good show False by (auto simp: entry_ok_def)
      qed
      with same show ?thesis by simp
    qed
  qed
  have ids: "le_id (if le_id e \<in> set ?A then g (le_id e) e else e) = le_id e" for e
    using 1(2) [of "le_id e"] by (auto simp: mark_revoked_def)
  have "marked ?R (\<lambda>_. mark_restored) (marked ?A g (ec_ledger s)) = ec_ledger s"
  proof -
    let ?f = "\<lambda>e. if le_id e \<in> set ?A then g (le_id e) e else e"
    have "map (\<lambda>e. if le_id e \<in> set ?R then mark_restored e else e) (map ?f (ec_ledger s)) = ec_ledger s"
      unfolding map_map
    proof (rule map_idI)
      fix e assume e: "e \<in> set (ec_ledger s)"
      show "((\<lambda>e. if le_id e \<in> set ?R then mark_restored e else e) \<circ> ?f) e = e"
        unfolding comp_def ids by (rule row [OF e refl])
    qed
    then show ?thesis unfolding marked_def .
  qed
  then have led: "ec_ledger s2 = ec_ledger s @ (marked ?R (\<lambda>_. mark_restored) ex @ ex')"
    unfolding 2(2) 1(1) by (simp add: marked_def)
  have "held u c s2 = balance s2 u c + taken_from u c (ec_ledger s)" for u c
    unfolding held_def led using taken_from_new [OF 1(3)] taken_from_new [OF 2(3)] by simp
  then have "balance s2 u c = balance s u c" for u c
    using 1(4) [of u c] 2(4) [of u c] by (simp add: held_def)
  moreover have "take (length (ec_ledger s)) (ec_ledger s2) = ec_ledger s" by (simp add: led)
  ultimately show ?thesis using 2(1) by blast
qed

lemma hide_revokes:
  assumes ok: "money_ok s" and "e \<in> set (ec_ledger s1)" and "revoke_for_content le now t i s = Inr (s1, ())"
    and "source_of_content t i e" and "le_reason e \<in> set award_reasons"
  shows "le_revokedAt e \<noteq> None"
proof -
  obtain g ex where 1: "ec_ledger s1 = marked (map le_id (awards_of t i s)) g (ec_ledger s) @ ex"
    "\<And>j. \<exists>n. g j = mark_revoked now CONTENT n" "list_all new_row ex"
    by (rule hide_run [OF ok, of le now t i]) (use assms(3) in auto)
  have "e \<notin> set ex" using 1(3) assms(5) by (auto simp: list_all_iff new_row_def)
  then obtain d where d: "d \<in> set (ec_ledger s)"
    "e = (if le_id d \<in> set (map le_id (awards_of t i s)) then g (le_id d) d else d)"
    using assms(2) unfolding 1(1) marked_def by auto
  obtain n where n: "g (le_id d) = mark_revoked now CONTENT n" using 1(2) by blast
  show ?thesis
  proof (cases "le_id d \<in> set (map le_id (awards_of t i s))")
    case True
    with d(2) n show ?thesis by (simp add: mark_revoked_def)
  next
    case False
    then have "e = d" using d(2) by simp
    with False d(1) assms(4,5) show ?thesis by (auto simp: awards_of_def)
  qed
qed

end
