(* ===== verification/Economy_Runs.thy ===== *)
theory Economy_Runs
  imports Economy_System
begin

text \<open>
  When operations do not fail: what a transaction writes only blocks the keys it names, so counting
  an interaction first guarantees that its credits go through.
\<close>

section \<open>Which keys a transaction writes\<close>

definition only_keys :: "ledger_key set \<Rightarrow> economy \<Rightarrow> economy \<Rightarrow> bool" where
  "only_keys K s s' \<longleftrightarrow> ec_counted s' = ec_counted s
     \<and> (\<forall>d. map_of (ec_days s) d \<noteq> None \<longrightarrow> map_of (ec_days s') d \<noteq> None)
     \<and> (\<forall>k. k \<notin> K \<longrightarrow> find_key k s = None \<longrightarrow> find_key k s' = None)"

lemma only_keys_refl: "only_keys K s s"
  by (simp add: only_keys_def)

lemma only_keys_trans: "only_keys K r s \<Longrightarrow> only_keys K s t \<Longrightarrow> only_keys K r t"
  unfolding only_keys_def by metis

lemma only_keys_mono: "only_keys K s t \<Longrightarrow> K \<subseteq> L \<Longrightarrow> only_keys L s t"
  unfolding only_keys_def by blast

lemma only_keys_rows:
  "only_keys K s (s\<lparr>ec_days := AList.update d r (ec_days s)\<rparr>)"
  "only_keys K s (s\<lparr>ec_given := g\<rparr>)"
  by (auto simp: only_keys_def find_key_def)

lemma credit_total:
  assumes "find_key (cr_key cr) s = None"
  obtains s' e where "credit now cr s = Inr (s', e)" and "only_keys {cr_key cr} s s'"
    and "\<And>u c. balance s' u c = balance s u c + (if u = cr_user cr \<and> c = cr_currency cr then cr_delta cr else 0)"
    and "ec_days s' = ec_days s" and "find_key (cr_key cr) s' \<noteq> None"
proof -
  let ?w = "credit_data cr (wallet_of now (cr_user cr) s) (wallet_of now (cr_user cr) s)"
  let ?e = "credit_entry now cr (balance_field (cr_currency cr) ?w) (length (ec_ledger s))"
  let ?s = "s\<lparr>ec_wallets := AList.update (cr_user cr) ?w (ec_wallets s), ec_ledger := ec_ledger s @ [?e]\<rparr>"
  have k: "le_key (credit_entry now cr b n) = cr_key cr" for b n by (simp add: credit_entry_def)
  have "credit now cr s = Inr (?s, ?e)" using assms by (simp add: credit_run Let_def)
  moreover have "only_keys {cr_key cr} s ?s" by (auto simp: only_keys_def find_key_None k)
  moreover have "find_key (cr_key cr) ?s \<noteq> None" by (simp add: find_key_None k)
  ultimately show thesis by (intro that [of ?s ?e]) simp_all
qed

lemma update_day_total:
  assumes "map_of (ec_days s) (u, day) = Some r"
  shows "update_day u day f s = Inr (s\<lparr>ec_days := AList.update (u, day) (f r) (ec_days s)\<rparr>, f r)"
  using assms by (simp add: update_day_def)

lemma capped_total:
  assumes r: "map_of (ec_days s) (u, day) \<noteq> None" and key: "find_key (cr_key award) s = None"
  obtains s' where "credit_capped_shards now u day base award s = Inr (s', ())" and "only_keys {cr_key award} s s'"
proof -
  obtain r where r: "map_of (ec_days s) (u, day) = Some r" using r by auto
  let ?r1 = "r\<lparr>de_baseShards := de_baseShards r + base\<rparr>"
  let ?d = "shards_to_credit (de_baseShards ?r1) (de_creditedShards ?r1)"
  let ?s = "\<lambda>r. s\<lparr>ec_days := AList.update (u, day) r (ec_days s)\<rparr>"
  show thesis
  proof (cases "?d \<le> 0")
    case True
    with r show thesis
      by (intro that [of "?s ?r1"]) (simp_all add: credit_capped_shards_def update_day_def tx_simps Let_def only_keys_rows)
  next
    case False
    let ?s2 = "?s (?r1\<lparr>de_creditedShards := de_creditedShards ?r1 + ?d\<rparr>)"
    let ?cr = "award\<lparr>cr_user := u, cr_currency := SHARDS, cr_delta := ?d\<rparr>"
    have "find_key (cr_key ?cr) ?s2 = None" using key by (simp add: find_key_def)
    then obtain s' e where c: "credit now ?cr ?s2 = Inr (s', e)" "only_keys {cr_key award} ?s2 s'"
      by (rule credit_total [of ?cr ?s2 now]) simp
    then have "credit_capped_shards now u day base award s = Inr (s', ())"
      using r False by (simp add: credit_capped_shards_def update_day_def tx_simps Let_def AList.update_last)
    moreover have "only_keys {cr_key award} s s'" by (rule only_keys_trans [OF only_keys_rows(1) c(2)])
    ultimately show thesis by (rule that)
  qed
qed

lemma award_total:
  assumes r: "map_of (ec_days s) (owner, day) \<noteq> None" and key: "find_key key s = None"
  obtains s' where "award_stepped_reputation now owner giver day kind key t i s = Inr (s', ())" and "only_keys {key} s s'"
proof (cases "giver_has_room owner giver day s")
  case False
  then show thesis by (intro that [of s]) (simp_all add: award_stepped_reputation_def tx_simps only_keys_refl)
next
  case room: True
  obtain r where r: "map_of (ec_days s) (owner, day) = Some r" using r by auto
  let ?r1 = "increment_count kind r"
  let ?d = "step_fn kind (count_field kind ?r1) - rep_field kind ?r1"
  let ?s = "\<lambda>r. s\<lparr>ec_days := AList.update (owner, day) r (ec_days s)\<rparr>"
  show thesis
  proof (cases "?d \<le> 0")
    case True
    with r room show thesis
      by (intro that [of "?s ?r1"]) (simp_all add: award_stepped_reputation_def update_day_def tx_simps Let_def only_keys_rows)
  next
    case False
    let ?s2 = "?s (increment_rep kind ?d ?r1)"
    let ?s3 = "?s2\<lparr>ec_given := AList.update (owner, giver, day) (given_by owner giver day ?s2 + ?d) (ec_given ?s2)\<rparr>"
    let ?cr = "\<lparr>cr_user = owner, cr_currency = REPUTATION, cr_delta = ?d, cr_reason = received kind,
           cr_key = key, cr_sourceType = Some t, cr_sourceId = Some i, cr_actor = Some giver, cr_award = None\<rparr>"
    have "find_key (cr_key ?cr) ?s3 = None" using key by (simp add: find_key_def)
    then obtain s' e where c: "credit now ?cr ?s3 = Inr (s', e)" "only_keys {key} ?s3 s'"
      by (rule credit_total [of ?cr ?s3 now]) simp
    then have "award_stepped_reputation now owner giver day kind key t i s = Inr (s', ())"
      using r room False
      by (simp add: award_stepped_reputation_def update_day_def record_given_def tx_simps Let_def AList.update_last)
    moreover have "only_keys {key} s s'"
      by (rule only_keys_trans [OF only_keys_rows(1) only_keys_trans [OF only_keys_rows(2) c(2)]])
    ultimately show thesis by (rule that)
  qed
qed

lemma milestone_total:
  assumes "find_key (Milestone_key t i (count_likes t i s)) s = None"
  obtains s' where "credit_milestone now owner t i s = Inr (s', ())" and "ec_counted s' = ec_counted s"
proof (cases "map_of like_milestone_shards (count_likes t i s)")
  case None
  then show thesis by (intro that [of s]) (simp_all add: credit_milestone_def tx_simps)
next
  case (Some n)
  let ?cr = "\<lparr>cr_user = owner, cr_currency = SHARDS, cr_delta = n, cr_reason = LIKE_MILESTONE,
            cr_key = Milestone_key t i (count_likes t i s), cr_sourceType = Some t, cr_sourceId = Some i,
            cr_actor = None, cr_award = None\<rparr>"
  have "find_key (cr_key ?cr) s = None" using assms by simp
  then obtain s' e where "credit now ?cr s = Inr (s', e)" "only_keys {cr_key ?cr} s s'"
    by (rule credit_total [of ?cr s now])
  then show thesis using Some by (intro that [of s']) (simp_all add: credit_milestone_def tx_simps only_keys_def)
qed

section \<open>A like\<close>

definition like_of :: "economy_source \<Rightarrow> string \<Rightarrow> user_id \<Rightarrow> user_id \<Rightarrow> counted_interaction" where
  "like_of t i owner liker = \<lparr>ci_kind = LIKE, ci_targetType = t, ci_targetId = i, ci_actor = liker, ci_owner = owner\<rparr>"

definition like_is_counted :: "economy_source \<Rightarrow> string \<Rightarrow> user_id \<Rightarrow> economy \<Rightarrow> bool" where
  "like_is_counted t i liker s \<longleftrightarrow> (\<exists>c \<in> set (ec_counted s).
     ci_kind c = LIKE \<and> ci_targetType c = t \<and> ci_targetId c = i \<and> ci_actor c = liker)"

lemma counted_like_changes_nothing:
  assumes "like_is_counted t i liker s"
  shows "record_like hmac accounts now t i owner liker s = Inr (s, ())"
proof -
  have "create_counted \<lparr>ci_kind = LIKE, ci_targetType = t, ci_targetId = i, ci_actor = liker, ci_owner = owner\<rparr> s = Inr (s, 0)"
    using assms by (auto simp: create_counted_def like_is_counted_def same_interaction_def)
  then show ?thesis by (simp add: record_like_def tx_simps)
qed

lemma keys_of_uncounted:
  assumes "keys_ok s" and "\<not> like_is_counted t i liker s"
  shows "find_key (Like_key t i liker p) s = None" and "count_likes t i s < n \<Longrightarrow> find_key (Milestone_key t i n) s = None"
proof -
  have free: "find_key k s = None" if "\<not> key_counted s k" for k
    using assms(1) that unfolding find_key_None keys_with_def by auto
  show "find_key (Like_key t i liker p) s = None" using assms(2) by (intro free) (simp add: like_is_counted_def)
  show "count_likes t i s < n \<Longrightarrow> find_key (Milestone_key t i n) s = None" by (intro free) simp
qed

lemma new_like_goes_through:
  assumes keys: "keys_ok s" and new: "\<not> like_is_counted t i liker s"
    and "owner \<noteq> liker" and "can_earn_from hmac accounts owner liker now"
  shows "\<exists>s'. record_like hmac accounts now t i owner liker s = Inr (s', ()) \<and> like_is_counted t i liker s'"
proof -
  let ?day = "economy_day now"
  let ?s1 = "s\<lparr>ec_counted := ec_counted s @ [like_of t i owner liker]\<rparr>"
  let ?r = "Like_key t i liker Rep_part" and ?h = "Like_key t i liker Shards_part"
  let ?m = "Milestone_key t i (count_likes t i ?s1)"
  have c: "create_counted \<lparr>ci_kind = LIKE, ci_targetType = t, ci_targetId = i, ci_actor = liker, ci_owner = owner\<rparr> s = Inr (?s1, 1)"
    using new by (auto simp: create_counted_def like_is_counted_def same_interaction_def like_of_def)
  have "count_likes t i s < count_likes t i ?s1" by (simp add: count_likes_def like_of_def)
  from keys_of_uncounted(2) [OF keys new this] keys_of_uncounted(1) [OF keys new]
  have free: "find_key ?r ?s1 = None" "find_key ?h ?s1 = None" "find_key ?m ?s1 = None" by (simp_all add: find_key_def)
  obtain ds where d: "lock_days [owner] ?day ?s1 = Inr (?s1\<lparr>ec_days := ds\<rparr>, map (\<lambda>u. the (map_of ds (u, ?day))) [owner])"
    and row: "\<And>u. u \<in> set [owner] \<Longrightarrow> map_of ds (u, ?day) \<noteq> None"
    by (rule lock_days_run [of "[owner]" ?day ?s1]) blast
  let ?s2 = "?s1\<lparr>ec_days := ds\<rparr>"
  have free2: "find_key k ?s2 = find_key k ?s1" for k by (simp add: find_key_def)
  have c2: "ec_counted ?s2 = ec_counted ?s1" by simp
  obtain s3 where 3: "award_stepped_reputation now owner liker ?day LIKE ?r t i ?s2 = Inr (s3, ())" "only_keys {?r} ?s2 s3"
    by (rule award_total [of ?s2 owner ?day ?r now liker LIKE t i]) (use row free free2 in auto)
  let ?aw = "shards_award LIKE_RECEIVED ?h (Some t) (Some i) (Some liker)"
  have aw: "cr_key ?aw = ?h" by (simp add: shards_award_def)
  have 4: "find_key ?h s3 = None" "find_key ?m s3 = None" "map_of (ec_days s3) (owner, ?day) \<noteq> None" "ec_counted s3 = ec_counted ?s1"
    using 3(2) free free2 row unfolding only_keys_def by auto
  obtain s4 where 5: "credit_capped_shards now owner ?day shards_per_counted_interaction ?aw s3 = Inr (s4, ())" "only_keys {?h} s3 s4"
    by (rule capped_total [of s3 owner ?day ?aw now shards_per_counted_interaction]) (use 4 aw in auto)
  have 6: "ec_counted s4 = ec_counted ?s1" "find_key ?m s4 = None" using 5(2) 4 unfolding only_keys_def by auto
  then have "count_likes t i s4 = count_likes t i ?s1" by (simp add: count_likes_def)
  with 6(2) obtain s5 where 7: "credit_milestone now owner t i s4 = Inr (s5, ())" "ec_counted s5 = ec_counted s4"
    using milestone_total [of t i s4 now owner] by metis
  have "record_like hmac accounts now t i owner liker s = Inr (s5, ())"
    using assms(3,4) by (simp add: record_like_def c d 3(1) 5(1) 7(1) tx_simps Let_def)
  moreover have "like_is_counted t i liker s5" using 6(1) 7(2) by (simp add: like_is_counted_def like_of_def)
  ultimately show ?thesis by blast
qed

section \<open>A check-in\<close>

lemma find_key_days [simp]: "find_key k (s\<lparr>ec_days := d\<rparr>) = find_key k s"
  by (simp add: find_key_def)

lemma first_check_in:
  assumes caps: "caps_ok s" and acc: "map_of accounts u = Some a" "ac_status a = ACTIVE_USER"
    and new: "find_key (Check_in_key u (economy_day now)) s = None"
  obtains s' n where "check_in accounts now u s = Inr (s', n)" and "find_key (Check_in_key u (economy_day now)) s' \<noteq> None"
    and "0 \<le> n" and "n \<le> 10" and "balance s' u SHARDS = balance s u SHARDS + n"
proof -
  let ?day = "economy_day now"
  obtain ds where lock: "lock_days [u] ?day s = Inr (s\<lparr>ec_days := ds\<rparr>, map (\<lambda>u. the (map_of ds (u, ?day))) [u])"
    and some: "\<And>v. v \<in> set [u] \<Longrightarrow> map_of ds (v, ?day) \<noteq> None"
    by (rule lock_days_run [of "[u]" ?day s]) blast
  obtain r where r: "map_of ds (u, ?day) = Some r" using some [of u] by auto
  have "day_ok r" using tx_validD [OF locks_keep_caps(2) caps lock] r by (simp add: caps_ok_def)
  let ?r1 = "r\<lparr>de_baseShards := de_baseShards r + check_in_shards\<rparr>"
  let ?d = "shards_to_credit (de_baseShards ?r1) (de_creditedShards ?r1)"
  let ?r2 = "if 0 < ?d then ?r1\<lparr>de_creditedShards := de_creditedShards ?r1 + ?d\<rparr> else ?r1"
  let ?s = "s\<lparr>ec_days := AList.update (u, ?day) ?r2 ds\<rparr>"
  let ?cr = "\<lparr>cr_user = u, cr_currency = SHARDS, cr_delta = ?d, cr_reason = DAILY_CHECKIN,
             cr_key = Check_in_key u ?day, cr_sourceType = None, cr_sourceId = None, cr_actor = None, cr_award = None\<rparr>"
  have d: "0 \<le> ?d" "?d \<le> 10"
    using \<open>day_ok r\<close> by (auto simp: day_ok_def shards_to_credit_def check_in_shards_def daily_shard_cap_def)
  have "find_key (cr_key ?cr) ?s = None" using new by simp
  then obtain s' e where c: "credit now ?cr ?s = Inr (s', e)"
    "\<And>v c. balance s' v c = balance ?s v c + (if v = cr_user ?cr \<and> c = cr_currency ?cr then cr_delta ?cr else 0)"
    "find_key (cr_key ?cr) s' \<noteq> None"
    by (rule credit_total [of ?cr ?s now]) blast
  have "check_in accounts now u s = Inr (s', ?d)"
    using acc new lock r c(1) by (cases "0 < ?d") (simp_all add: check_in_def update_day_def tx_simps Let_def AList.update_last)
  then show thesis by (rule that) (use c(2,3) d in simp_all)
qed

lemma second_check_in:
  assumes "is_active accounts u" and "find_key (Check_in_key u (economy_day now)) s \<noteq> None"
  shows "check_in accounts now u s = Inl (Conflict (Economy Already_checked_in))"
proof -
  obtain a where a: "map_of accounts u = Some a" "ac_status a = ACTIVE_USER"
    using assms(1) by (auto simp: is_active_def split: option.splits)
  obtain ds where "lock_days [u] (economy_day now) s = Inr (s\<lparr>ec_days := ds\<rparr>, map (\<lambda>v. the (map_of ds (v, economy_day now))) [u])"
    by (rule lock_days_run [of "[u]" "economy_day now" s]) blast
  with a assms(2) show ?thesis by (simp add: check_in_def Let_def tx_simps)
qed

section \<open>Refunds\<close>

definition same_money :: "economy \<Rightarrow> economy \<Rightarrow> bool" where
  "same_money s t \<longleftrightarrow> ec_ledger t = ec_ledger s \<and> (\<forall>u c. balance t u c = balance s u c)"

lemma lock_wallets_total:
  obtains t ws where "lock_wallets now us s = Inr (t, ws)" and "same_money s t"
proof -
  have one: "tx_total (same_money s) (tx_bind (lock_wallet now u) (\<lambda>w. tx_return (u, w))) (\<lambda>_. same_money s)" for u
  proof (rule tx_totalI)
    fix t assume t: "same_money s t"
    obtain t' where "lock_wallet now u t = Inr (t', wallet_of now u t)" by (rule lock_wallet_total)
    with t lock_wallet_frame [OF this] show "\<exists>s' x. tx_bind (lock_wallet now u) (\<lambda>w. tx_return (u, w)) t = Inr (s', x) \<and> same_money s s'"
      by (auto simp: tx_simps same_money_def)
  qed
  have "tx_total (same_money s) (lock_wallets now us) (\<lambda>_. same_money s)"
    unfolding lock_wallets_def
    by (rule tx_total_bind [OF tx_total_map [OF one]]) (auto simp: tx_total_def tx_simps)
  then show thesis by (rule tx_totalE) (use that in \<open>auto simp: same_money_def\<close>)
qed

definition refund_due :: "string \<Rightarrow> economy \<Rightarrow> user_id \<Rightarrow> bool" where
  "refund_due item s u \<longleftrightarrow> find_key (Takedown_key item u) s = None"

lemma refund_loop:
  assumes "distinct us"
  shows "\<exists>s' ns. tx_map (refund_one now item amount actor) us s = Inr (s', ns)
    \<and> sum_list ns = length (filter (refund_due item s) us)
    \<and> (\<forall>u. refund_due item s' u \<longleftrightarrow> refund_due item s u \<and> u \<notin> set us)
    \<and> (\<forall>u c. balance s' u c = balance s u c + (if c = SHARDS \<and> u \<in> set us \<and> refund_due item s u then amount else 0))
    \<and> (filter (refund_due item s) us = [] \<longrightarrow> s' = s)"
  using assms
proof (induction us arbitrary: s)
  case Nil
  then show ?case by (simp add: tx_simps)
next
  case (Cons u us)
  let ?cr = "\<lparr>cr_user = u, cr_currency = SHARDS, cr_delta = amount, cr_reason = TAKEDOWN_REFUND,
        cr_key = Takedown_key item u, cr_sourceType = Some COSMETIC_SOURCE, cr_sourceId = Some item,
        cr_actor = Some actor, cr_award = None\<rparr>"
  have "\<exists>s1 n. refund_one now item amount actor u s = Inr (s1, n) \<and> n = (if refund_due item s u then 1 else 0)
    \<and> (\<forall>v. refund_due item s1 v \<longleftrightarrow> refund_due item s v \<and> v \<noteq> u)
    \<and> (\<forall>v c. balance s1 v c = balance s v c + (if c = SHARDS \<and> v = u \<and> refund_due item s u then amount else 0))
    \<and> (\<not> refund_due item s u \<longrightarrow> s1 = s)"
  proof (cases "refund_due item s u")
    case False
    then show ?thesis
      by (intro exI [where x = s] exI [where x = 0]) (auto simp: refund_one_def tx_simps refund_due_def)
  next
    case True
    then have "find_key (cr_key ?cr) s = None" by (simp add: refund_due_def)
    then obtain s1 e where c: "credit now ?cr s = Inr (s1, e)" "only_keys {cr_key ?cr} s s1"
      "\<And>v c. balance s1 v c = balance s v c + (if v = cr_user ?cr \<and> c = cr_currency ?cr then cr_delta ?cr else 0)"
      "find_key (cr_key ?cr) s1 \<noteq> None"
      by (rule credit_total [of ?cr s now]) blast
    have old: "find_key k s \<noteq> None \<Longrightarrow> find_key k s1 \<noteq> None" for k
      using c(1) unfolding find_key_None by (auto simp: credit_run Let_def split: if_splits)
    have "refund_due item s1 v \<longleftrightarrow> refund_due item s v \<and> v \<noteq> u" for v
      using c(2,4) old [of "Takedown_key item v"] unfolding refund_due_def only_keys_def
      by (metis credit_request.select_convs(5) ledger_key.inject(7) singletonD)
    with c True show ?thesis
      by (intro exI [where x = s1] exI [where x = 1]) (auto simp: refund_one_def tx_simps refund_due_def)
  qed
  then obtain s1 n where 1: "refund_one now item amount actor u s = Inr (s1, n)" "n = (if refund_due item s u then 1 else 0)"
    "\<And>v. refund_due item s1 v \<longleftrightarrow> refund_due item s v \<and> v \<noteq> u"
    "\<And>v c. balance s1 v c = balance s v c + (if c = SHARDS \<and> v = u \<and> refund_due item s u then amount else 0)"
    "\<not> refund_due item s u \<Longrightarrow> s1 = s" by blast
  have "distinct us" using Cons.prems by simp
  from Cons.IH [OF this, of s1] obtain s2 ns where 2: "tx_map (refund_one now item amount actor) us s1 = Inr (s2, ns)"
    "sum_list ns = length (filter (refund_due item s1) us)"
    "\<And>v. refund_due item s2 v \<longleftrightarrow> refund_due item s1 v \<and> v \<notin> set us"
    "\<And>v c. balance s2 v c = balance s1 v c + (if c = SHARDS \<and> v \<in> set us \<and> refund_due item s1 v then amount else 0)"
    "filter (refund_due item s1) us = [] \<Longrightarrow> s2 = s1" by blast
  have same: "filter (refund_due item s1) us = filter (refund_due item s) us"
    using 1(3) Cons.prems by (auto intro!: filter_cong)
  have "tx_map (refund_one now item amount actor) (u # us) s = Inr (s2, n # ns)"
    using 1(1) 2(1) by (simp add: tx_bind_def tx_return_def)
  moreover have "sum_list (n # ns) = length (filter (refund_due item s) (u # us))" using 1(2) 2(2) same by simp
  moreover have "refund_due item s2 v \<longleftrightarrow> refund_due item s v \<and> v \<notin> set (u # us)" for v using 1(3) 2(3) by auto
  moreover have "balance s2 v c = balance s v c + (if c = SHARDS \<and> v \<in> set (u # us) \<and> refund_due item s v then amount else 0)" for v c
    using 1(3,4) 2(4) Cons.prems by auto
  moreover have "filter (refund_due item s) (u # us) = [] \<longrightarrow> s2 = s" using 1(5) 2(5) same by (auto split: if_splits)
  ultimately show ?case by blast
qed

end
