(* ===== verification/Economy_Books.thy ===== *)
theory Economy_Books
  imports Economy_System
begin

text \<open>
  What the daily counters are worth: the ledger rows behind them. A tally is one of the sums a daily
  limit is about, read off the ledger (\<open>paid\<close>) and off the counter that is to bound it (\<open>tallied\<close>);
  the two agree in every state the economy reaches. The rows of a giver's day are deleted by the nightly
  job, so the relation below remembers up to which day they are gone.
\<close>

section \<open>Tallies\<close>

datatype tally =
    Shards_tally user_id time
  | Written_tally user_id time
  | Reputation_tally interaction_kind user_id time
  | Given_tally user_id user_id time

definition earning_reasons :: "ledger_reason list" where
  "earning_reasons = [DAILY_CHECKIN, LIKE_RECEIVED, COMMENT_RECEIVED, COMMENT_WRITTEN]"

text \<open>The ledger rows of a tally, and what one of them adds: its amount, or one paid comment.\<close>

fun of_tally :: "tally \<Rightarrow> ledger_entry \<Rightarrow> bool" where
  "of_tally (Shards_tally u day) e \<longleftrightarrow> le_user e = u \<and> le_currency e = SHARDS
     \<and> le_reason e \<in> set earning_reasons \<and> economy_day (le_createdAt e) = day"
| "of_tally (Written_tally u day) e \<longleftrightarrow> le_user e = u \<and> le_reason e = COMMENT_WRITTEN
     \<and> economy_day (le_createdAt e) = day"
| "of_tally (Reputation_tally kind u day) e \<longleftrightarrow> le_user e = u \<and> le_currency e = REPUTATION
     \<and> le_reason e = received kind \<and> economy_day (le_createdAt e) = day"
| "of_tally (Given_tally owner giver day) e \<longleftrightarrow> le_user e = owner \<and> le_currency e = REPUTATION
     \<and> le_reason e \<in> set [LIKE_RECEIVED, COMMENT_RECEIVED] \<and> le_actor e = Some giver
     \<and> economy_day (le_createdAt e) = day"

fun worth :: "tally \<Rightarrow> ledger_entry \<Rightarrow> int" where
  "worth (Written_tally u day) e = 1"
| "worth _ e = le_delta e"

definition paid :: "tally \<Rightarrow> ledger_entry list \<Rightarrow> int" where
  "paid t es = sum_list (map (worth t) (filter (of_tally t) es))"

definition day_of :: "user_id \<Rightarrow> time \<Rightarrow> economy \<Rightarrow> daily_earning" where
  "day_of u day s = (case map_of (ec_days s) (u, day) of None \<Rightarrow> new_day | Some r \<Rightarrow> r)"

text \<open>The counter's side.\<close>

fun day_field :: "tally \<Rightarrow> daily_earning \<Rightarrow> int" where
  "day_field (Shards_tally u day) r = de_creditedShards r"
| "day_field (Written_tally u day) r = de_commentsWritten r"
| "day_field (Reputation_tally kind u day) r = rep_field kind r"
| "day_field (Given_tally owner giver day) r = 0"

fun day_key :: "tally \<Rightarrow> (user_id \<times> time) option" where
  "day_key (Shards_tally u day) = Some (u, day)"
| "day_key (Written_tally u day) = Some (u, day)"
| "day_key (Reputation_tally kind u day) = Some (u, day)"
| "day_key (Given_tally owner giver day) = None"

fun tallied :: "tally \<Rightarrow> economy \<Rightarrow> int" where
  "tallied (Given_tally owner giver day) s = given_by owner giver day s"
| "tallied (Shards_tally u day) s = de_creditedShards (day_of u day s)"
| "tallied (Written_tally u day) s = de_commentsWritten (day_of u day s)"
| "tallied (Reputation_tally kind u day) s = rep_field kind (day_of u day s)"

lemma tallied_day: "day_key t = Some (u, day) \<Longrightarrow> tallied t s = day_field t (day_of u day s)"
  by (cases t) auto

text \<open>
  Inside a transaction a counter may be ahead of the ledger by \<open>A\<close>. A paid comment may bring nothing
  when the cap is reached, so its counter only bounds its rows. \<open>F\<close> is the day from which the rows of
  givers are still there.
\<close>

fun agrees :: "time \<Rightarrow> tally \<Rightarrow> int \<Rightarrow> int \<Rightarrow> int \<Rightarrow> bool" where
  "agrees F (Shards_tally u day) p a c \<longleftrightarrow> p + a = c"
| "agrees F (Written_tally u day) p a c \<longleftrightarrow> p + a \<le> c"
| "agrees F (Reputation_tally kind u day) p a c \<longleftrightarrow> p + a = c"
| "agrees F (Given_tally owner giver day) p a c \<longleftrightarrow>
     (if F \<le> day then p + a = c else p \<le> max_reputation_per_giver_per_day)"

definition books :: "time \<Rightarrow> (tally \<Rightarrow> int) \<Rightarrow> economy \<Rightarrow> bool" where
  "books F A s \<longleftrightarrow> (\<forall>t. agrees F t (paid t (ec_ledger s)) (A t) (tallied t s))"

lemma agrees_credit:
  "agrees F t p a c \<Longrightarrow> (\<And>owner giver day. t = Given_tally owner giver day \<Longrightarrow> d \<noteq> 0 \<Longrightarrow> F \<le> day)
    \<Longrightarrow> agrees F t (p + d) (a - d) c"
  by (cases t; cases "d = 0") auto

lemma agrees_count: "agrees F t p a c \<Longrightarrow> c' - a' = c - a \<Longrightarrow> agrees F t p a' c'"
  by (cases t) (auto split: if_splits)

abbreviation settled :: "tally \<Rightarrow> int" where
  "settled \<equiv> \<lambda>_. 0"

lemma books_mono:
  assumes "books F A s" and "\<And>t. A' t = A t \<or> (\<exists>u day. t = Written_tally u day \<and> A' t \<le> A t)"
  shows "books F A' s"
  unfolding books_def
proof
  fix t
  show "agrees F t (paid t (ec_ledger s)) (A' t) (tallied t s)"
    using assms(1) [unfolded books_def, THEN spec [where x = t]] assms(2) [of t] by (cases t) auto
qed

lemma books_cong:
  assumes "ec_ledger s' = ec_ledger s" and "\<And>u day. day_of u day s' = day_of u day s" and "ec_given s' = ec_given s"
  shows "books F A s' = books F A s"
proof -
  have "tallied t s' = tallied t s" for t using assms by (cases t) (simp_all add: given_by_def)
  then show ?thesis by (simp add: books_def assms(1))
qed

section \<open>The rows a transaction writes\<close>

named_theorems book_intros \<open>operations that keep the books\<close>

lemma paid_append: "paid t (es @ [e]) = paid t es + (if of_tally t e then worth t e else 0)"
  by (simp add: paid_def)

definition brings :: "time \<Rightarrow> credit_request \<Rightarrow> tally \<Rightarrow> int" where
  "brings now cr t = (let e = credit_entry now cr 0 0 in if of_tally t e then worth t e else 0)"

lemma brings_entry: "(if of_tally t (credit_entry now cr b n) then worth t (credit_entry now cr b n) else 0) = brings now cr t"
  by (cases t) (auto simp: brings_def credit_entry_def Let_def)

lemma brings_past: "brings now cr (Given_tally owner giver day) \<noteq> 0 \<Longrightarrow> economy_day now = day"
  by (simp add: brings_def credit_entry_def Let_def split: if_splits)

lemma credit_books:
  assumes "\<And>owner giver day. brings now cr (Given_tally owner giver day) \<noteq> 0 \<Longrightarrow> F \<le> day"
  shows "tx_valid (books F A) (credit now cr) (\<lambda>_. books F (\<lambda>t. A t - brings now cr t))"
proof (rule tx_validI)
  fix s s' e
  assume ok: "books F A s" and "credit now cr s = Inr (s', e)"
  then obtain w b n where s': "s' = s\<lparr>ec_wallets := w, ec_ledger := ec_ledger s @ [credit_entry now cr b n]\<rparr>"
    by (auto elim!: credit_InrE)
  have p: "paid t (ec_ledger s') = paid t (ec_ledger s) + brings now cr t" for t
    by (simp add: s' paid_append brings_entry)
  have "tallied t s' = tallied t s" for t by (cases t) (simp_all add: s' day_of_def given_by_def)
  with ok assms show "books F (\<lambda>t. A t - brings now cr t) s'"
    unfolding books_def by (auto simp: p intro: agrees_credit)
qed

lemma rows_keep_books [book_intros]:
  "tx_keeps (books F A) (lock_wallet now u)"
  "tx_keeps (books F A) (lock_day day u)"
  "tx_keeps (books F A) (update_wallet u f)"
  "tx_keeps (books F A) (create_counted c)"
  by (auto simp: tx_valid_def lock_wallet_def lock_day_def update_wallet_def create_counted_def day_of_def
      split: option.splits if_splits elim!: books_cong [THEN iffD2, rotated -1])

lemma locks_keep_books [book_intros]:
  "tx_keeps (books F A) (lock_wallets now us)"
  "tx_keeps (books F A) (lock_days us day)"
  unfolding lock_wallets_def lock_days_def by (intro tx_intros book_intros; simp)+

lemma update_day_books:
  assumes "\<And>t r. day_key t = Some (u, day) \<Longrightarrow> day_field t (f r) = day_field t r + (A' t - A t)"
    and "\<And>t. day_key t \<noteq> Some (u, day) \<Longrightarrow> A' t = A t"
  shows "tx_valid (books F A) (update_day u day f) (\<lambda>_. books F A')"
proof (rule tx_validI)
  fix s s' r
  assume ok: "books F A s" and "update_day u day f s = Inr (s', r)"
  then obtain r0 where r0: "map_of (ec_days s) (u, day) = Some r0"
    and s': "s' = s\<lparr>ec_days := AList.update (u, day) (f r0) (ec_days s)\<rparr>"
    by (auto simp: update_day_def split: option.splits)
  have "tallied t s' - A' t = tallied t s - A t" for t
  proof (cases "day_key t = Some (u, day)")
    case True
    then show ?thesis using assms(1) [OF True, of r0]
      by (simp add: tallied_day [OF True] day_of_def s' r0)
  next
    case False
    then have "tallied t s' = tallied t s" by (cases t) (auto simp: day_of_def s' given_by_def)
    with assms(2) [OF False] show ?thesis by simp
  qed
  moreover have "ec_ledger s' = ec_ledger s" by (simp add: s')
  ultimately show "books F A' s'"
    using ok unfolding books_def by (metis agrees_count)
qed

lemma record_given_books:
  "tx_valid (books F A) (record_given owner giver day n)
     (\<lambda>_. books F (A(Given_tally owner giver day := A (Given_tally owner giver day) + n)))"
proof (rule tx_validI)
  fix s s' x
  assume ok: "books F A s" and "record_given owner giver day n s = Inr (s', x)"
  then have s': "s' = s\<lparr>ec_given := AList.update (owner, giver, day) (given_by owner giver day s + n) (ec_given s)\<rparr>"
    by (simp add: record_given_def tx_simps)
  let ?A = "A(Given_tally owner giver day := A (Given_tally owner giver day) + n)"
  have "tallied t s' - ?A t = tallied t s - A t" for t
    by (cases t) (auto simp: s' day_of_def given_by_def)
  moreover have "ec_ledger s' = ec_ledger s" by (simp add: s')
  ultimately show "books F ?A s'"
    using ok unfolding books_def by (metis agrees_count)
qed

lemma other_credit_books [book_intros]:
  assumes "cr_reason cr \<notin> set earning_reasons"
  shows "tx_keeps (books F A) (credit now cr)"
proof -
  have "of_tally t (credit_entry now cr 0 0) = False" for t
  proof (cases t)
    case (Reputation_tally k u d)
    then show ?thesis using assms by (cases k) (auto simp: credit_entry_def earning_reasons_def)
  qed (use assms in \<open>auto simp: credit_entry_def earning_reasons_def\<close>)
  then have "brings now cr t = 0" for t by (simp add: brings_def)
  with credit_books [of now cr F A] show ?thesis by simp
qed

section \<open>What the operations write\<close>

lemma rep_field_other [simp]:
  "rep_field k (r\<lparr>de_baseShards := x\<rparr>) = rep_field k r"
  "rep_field k (r\<lparr>de_creditedShards := x\<rparr>) = rep_field k r"
  "rep_field k (r\<lparr>de_commentsWritten := x\<rparr>) = rep_field k r"
  by (cases k; simp)+

text \<open>Paying a comment raises its counter first, then perhaps the Shards.\<close>

definition ahead_of :: "ledger_reason \<Rightarrow> user_id \<Rightarrow> time \<Rightarrow> tally \<Rightarrow> int" where
  "ahead_of reason u day t = (if reason = COMMENT_WRITTEN \<and> t = Written_tally u day then 1 else 0)"

lemma capped_books:
  assumes "cr_reason award \<in> set earning_reasons"
  shows "tx_valid (books F (ahead_of (cr_reason award) u (economy_day now)))
    (credit_capped_shards now u (economy_day now) base award) (\<lambda>_. books F settled)"
proof -
  let ?day = "economy_day now" and ?R = "cr_reason award"
  let ?A = "ahead_of ?R u ?day"
  have behind: "books F settled s" if "books F ?A s" for s
    by (rule books_mono [OF that]) (auto simp: ahead_of_def)
  have base: "tx_valid (books F ?A) (update_day u ?day (\<lambda>r. r\<lparr>de_baseShards := de_baseShards r + base\<rparr>)) (\<lambda>_. books F ?A)"
  proof (rule update_day_books)
    show "day_field t (r\<lparr>de_baseShards := de_baseShards r + base\<rparr>) = day_field t r + (?A t - ?A t)" for t r
      by (cases t) simp_all
  qed simp
  have grow: "tx_valid (books F ?A) (update_day u ?day (\<lambda>r. r\<lparr>de_creditedShards := de_creditedShards r + n\<rparr>))
      (\<lambda>_. books F (?A(Shards_tally u ?day := n)))" for n
  proof (rule update_day_books)
    show "day_field t (r\<lparr>de_creditedShards := de_creditedShards r + n\<rparr>)
        = day_field t r + ((?A(Shards_tally u ?day := n)) t - ?A t)" if "day_key t = Some (u, ?day)" for t r
      using that by (cases t) (auto simp: ahead_of_def)
  qed auto
  have pay: "tx_valid (books F (?A(Shards_tally u ?day := n)))
      (credit now (award\<lparr>cr_user := u, cr_currency := SHARDS, cr_delta := n\<rparr>)) (\<lambda>_. books F settled)" for n
  proof (rule tx_valid_post [OF credit_books])
    fix s
    let ?b = "brings now (award\<lparr>cr_user := u, cr_currency := SHARDS, cr_delta := n\<rparr>)"
    assume "books F (\<lambda>t. (?A(Shards_tally u ?day := n)) t - ?b t) s"
    moreover have "(?A(Shards_tally u ?day := n)) t = ?b t" for t
      using assms by (cases t) (auto simp: brings_def credit_entry_def ahead_of_def)
    ultimately show "books F settled s" by simp
  qed (auto simp: brings_def credit_entry_def)
  show ?thesis
    unfolding credit_capped_shards_def Let_def
    by (intro tx_valid_bind [OF base] tx_valid_if tx_valid_bind [OF grow] tx_valid_bind [OF pay] tx_valid_return) (auto intro: behind)
qed

lemma settled_ahead: "reason \<noteq> COMMENT_WRITTEN \<Longrightarrow> ahead_of reason u day = settled"
  by (simp add: ahead_of_def fun_eq_iff)

lemma capped_keeps_books [book_intros]:
  assumes "cr_reason award \<in> set [DAILY_CHECKIN, LIKE_RECEIVED, COMMENT_RECEIVED]" and "day = economy_day now"
  shows "tx_keeps (books F settled) (credit_capped_shards now u day base award)"
proof -
  have "cr_reason award \<in> set earning_reasons" "ahead_of (cr_reason award) u day = settled"
    using assms(1) by (auto simp: earning_reasons_def intro: settled_ahead)
  with capped_books [OF this(1), of F u now base] assms(2) show ?thesis by simp
qed

lemma pay_comment_books [book_intros]: "tx_keeps (books F settled) (pay_comment_writer now c u r)"
proof -
  let ?day = "economy_day now"
  have "tx_valid (books F settled) (update_day u ?day (\<lambda>r. r\<lparr>de_commentsWritten := de_commentsWritten r + 1\<rparr>))
      (\<lambda>_. books F (ahead_of COMMENT_WRITTEN u ?day))"
  proof (rule update_day_books)
    show "day_field t (r\<lparr>de_commentsWritten := de_commentsWritten r + 1\<rparr>)
        = day_field t r + (ahead_of COMMENT_WRITTEN u ?day t - 0)" if "day_key t = Some (u, ?day)" for t r
      using that by (cases t) (auto simp: ahead_of_def)
  qed (auto simp: ahead_of_def)
  moreover have "tx_valid (books F (ahead_of COMMENT_WRITTEN u ?day)) (credit_capped_shards now u ?day 1
      (shards_award COMMENT_WRITTEN key t i a)) (\<lambda>_. books F settled)" for key t i a
    using capped_books [of "shards_award COMMENT_WRITTEN key t i a" F u now 1]
    by (simp add: shards_award_def earning_reasons_def)
  ultimately show ?thesis
    unfolding pay_comment_writer_def by (intro tx_valid_if tx_valid_bind tx_valid_return)
qed

text \<open>Reputation moves the counter of its kind, the giver's, and the ledger, by the same amount.\<close>

lemma award_keeps_books [book_intros]:
  assumes "F \<le> economy_day now" and "day = economy_day now"
  shows "tx_keeps (books F settled) (award_stepped_reputation now owner giver day kind key t i)"
proof -
  let ?R = "\<lambda>n. settled(Reputation_tally kind owner day := n)"
  let ?G = "\<lambda>n. (?R n)(Given_tally owner giver day := n)"
  have count: "tx_keeps (books F settled) (update_day owner day (increment_count kind))"
  proof (rule update_day_books)
    show "day_field t (increment_count kind r) = day_field t r + (0 - 0)" for t r
    proof (cases t)
      case (Reputation_tally k u d)
      then show ?thesis by (cases k; cases kind) simp_all
    qed (cases kind; simp)+
  qed simp
  have rep: "tx_valid (books F settled) (update_day owner day (increment_rep kind n)) (\<lambda>_. books F (?R n))" for n
  proof (rule update_day_books)
    show "day_field t (increment_rep kind n r) = day_field t r + (?R n t - 0)" if "day_key t = Some (owner, day)" for t r
    proof (cases t)
      case (Reputation_tally k u d)
      then show ?thesis using that by (cases k; cases kind) simp_all
    qed (cases kind; simp)+
  qed auto
  have given: "tx_valid (books F (?R n)) (record_given owner giver day n) (\<lambda>_. books F (?G n))" for n
    using record_given_books [of F "?R n" owner giver day n] by simp
  have pay: "tx_valid (books F (?G n)) (credit now \<lparr>cr_user = owner, cr_currency = REPUTATION, cr_delta = n,
      cr_reason = received kind, cr_key = key, cr_sourceType = Some t, cr_sourceId = Some i, cr_actor = Some giver,
      cr_award = None\<rparr>) (\<lambda>_. books F settled)" for n
  proof (rule tx_valid_post [OF credit_books])
    fix s
    let ?b = "brings now \<lparr>cr_user = owner, cr_currency = REPUTATION, cr_delta = n, cr_reason = received kind,
      cr_key = key, cr_sourceType = Some t, cr_sourceId = Some i, cr_actor = Some giver, cr_award = None\<rparr>"
    assume "books F (\<lambda>t. ?G n t - ?b t) s"
    moreover have "?G n t = ?b t" for t
    proof (cases t)
      case (Reputation_tally k u d)
      then show ?thesis using assms(2) by (cases k; cases kind) (auto simp: brings_def credit_entry_def)
    qed (use assms(2) in \<open>cases kind; auto simp: brings_def credit_entry_def earning_reasons_def\<close>)+
    ultimately show "books F settled s" by simp
  qed (use assms(1) in \<open>auto dest: brings_past\<close>)
  show ?thesis
    unfolding award_stepped_reputation_def Let_def
    by (intro tx_valid_bind [OF tx_valid_gets [where Q = "\<lambda>_. books F settled"]] tx_valid_if tx_valid_bind [OF count] tx_valid_bind [OF rep] tx_valid_bind [OF given]
        tx_valid_bind [OF pay] tx_valid_return) simp_all
qed

lemma milestone_keeps_books [book_intros]: "tx_keeps (books F A) (credit_milestone now owner t i)"
  unfolding credit_milestone_def by (intro tx_intros tx_valid_option book_intros) (auto simp: earning_reasons_def)

lemma record_like_books:
  "F \<le> economy_day now \<Longrightarrow> tx_keeps (books F settled) (record_like hmac accounts now t i owner liker)"
  unfolding record_like_def Let_def by (intro tx_intros book_intros) (auto simp: shards_award_def)

lemma record_comment_books:
  "F \<le> economy_day now \<Longrightarrow> tx_keeps (books F settled) (record_comment hmac accounts now c p owner u)"
  unfolding record_comment_def reward_post_owner_def Let_def
  by (intro tx_intros book_intros) (auto simp: shards_award_def)

lemma check_in_books: "tx_keeps (books F settled) (check_in accounts now u)"
proof -
  let ?day = "economy_day now"
  let ?A = "\<lambda>n. settled(Shards_tally u ?day := n)"
  have base: "tx_keeps (books F settled) (update_day u ?day (\<lambda>r. r\<lparr>de_baseShards := de_baseShards r + check_in_shards\<rparr>))"
  proof (rule update_day_books)
    show "day_field t (r\<lparr>de_baseShards := de_baseShards r + check_in_shards\<rparr>) = day_field t r + (0 - 0)" for t r
      by (cases t) simp_all
  qed simp
  have grow: "tx_valid (books F settled) (update_day u ?day (\<lambda>r. r\<lparr>de_creditedShards := de_creditedShards r + n\<rparr>))
      (\<lambda>_. books F (?A n))" for n
  proof (rule update_day_books)
    show "day_field t (r\<lparr>de_creditedShards := de_creditedShards r + n\<rparr>) = day_field t r + (?A n t - 0)"
      if "day_key t = Some (u, ?day)" for t r using that by (cases t) auto
  qed auto
  have pay: "tx_valid (books F (?A n)) (credit now \<lparr>cr_user = u, cr_currency = SHARDS, cr_delta = n,
      cr_reason = DAILY_CHECKIN, cr_key = key, cr_sourceType = None, cr_sourceId = None, cr_actor = None,
      cr_award = None\<rparr>) (\<lambda>_. books F settled)" for n key
  proof (rule tx_valid_post [OF credit_books])
    fix s
    let ?b = "brings now \<lparr>cr_user = u, cr_currency = SHARDS, cr_delta = n, cr_reason = DAILY_CHECKIN,
      cr_key = key, cr_sourceType = None, cr_sourceId = None, cr_actor = None, cr_award = None\<rparr>"
    assume "books F (\<lambda>t. ?A n t - ?b t) s"
    moreover have "?A n t = ?b t" for t
    proof (cases t)
      case (Reputation_tally k v d)
      then show ?thesis by (cases k) (auto simp: brings_def credit_entry_def)
    qed (auto simp: brings_def credit_entry_def earning_reasons_def)
    ultimately show "books F settled s" by simp
  qed (auto simp: brings_def credit_entry_def)
  have shards: "tx_valid (books F settled) (if 0 < n
      then tx_bind (update_day u ?day (\<lambda>r. r\<lparr>de_creditedShards := de_creditedShards r + n\<rparr>)) (\<lambda>_. tx_return ())
      else tx_return ()) (\<lambda>_. books F (?A n))" if "0 \<le> n" for n
  proof (cases "0 < n")
    case True
    then show ?thesis by (simp, intro tx_valid_bind [OF grow] tx_valid_return)
  next
    case False
    with that have "n = 0" by simp
    moreover have "settled(Shards_tally u ?day := 0) = settled" by (simp add: fun_eq_iff)
    ultimately show ?thesis by (simp add: tx_valid_return)
  qed
  have pos: "0 \<le> shards_to_credit b c" for b c by (simp add: shards_to_credit_def Let_def)
  have rest: "tx_keeps (books F settled) (tx_bind
      (update_day u ?day (\<lambda>r. r\<lparr>de_baseShards := de_baseShards r + check_in_shards\<rparr>)) (\<lambda>updated.
       let shards = shards_to_credit (de_baseShards updated) (de_creditedShards updated) in
       tx_bind (if 0 < shards
         then tx_bind (update_day u ?day (\<lambda>r. r\<lparr>de_creditedShards := de_creditedShards r + shards\<rparr>)) (\<lambda>_. tx_return ())
         else tx_return ()) (\<lambda>_.
       tx_bind (credit now \<lparr>cr_user = u, cr_currency = SHARDS, cr_delta = shards, cr_reason = DAILY_CHECKIN,
         cr_key = Check_in_key u ?day, cr_sourceType = None, cr_sourceId = None, cr_actor = None, cr_award = None\<rparr>)
         (\<lambda>_. tx_return shards))))"
    unfolding Let_def
    by (intro tx_valid_bind [OF base] tx_valid_bind [OF shards [OF pos]] tx_valid_bind [OF pay] tx_valid_return)
  show ?thesis
    unfolding check_in_def Let_def [of "economy_day now"]
    by (intro tx_valid_option tx_valid_if tx_valid_fail tx_valid_bind [OF rows_keep_books(1)] tx_valid_bind [OF locks_keep_books(2)]
        tx_valid_bind [OF tx_valid_gets [where Q = "\<lambda>_. books F settled"]] rest) simp_all
qed

lemma money_ops_keep_books:
  "tx_keeps (books F A) (adjust accounts now admin u c delta reason)"
  "tx_keeps (books F A) (credit_takedown_refunds now us item amount actor)"
proof -
  have audit: "tx_keeps (books F A) (tx_modify (\<lambda>s. s\<lparr>ec_audit := ec_audit s @ [a]\<rparr>))" for a
    by (rule tx_valid_modify) (erule books_cong [THEN iffD2, rotated -1]; simp add: day_of_def)
  show "tx_keeps (books F A) (adjust accounts now admin u c delta reason)"
    unfolding adjust_def by (intro tx_intros book_intros audit) (auto simp: earning_reasons_def)
  show "tx_keeps (books F A) (credit_takedown_refunds now us item amount actor)"
    unfolding credit_takedown_refunds_def refund_one_def by (intro tx_intros book_intros) (auto simp: earning_reasons_def)
qed

lemma ranks_keep_books [book_intros]:
  "tx_keeps (books F A) (write_rank now u counts)"
  "tx_keeps (books F A) (recount_ranks_of now es)"
  "tx_keeps (books F A) (refresh_stale_ranks now)"
  unfolding recount_ranks_of_def refresh_stale_ranks_def recount_rank_def write_rank_def
  by (intro tx_intros book_intros; simp)+

text \<open>Taking back and giving back mark the rows and add rows of their own; no row is paid again.\<close>

lemma marks_keep_books [book_intros]:
  assumes "\<And>t e. of_tally t (f e) = of_tally t e" and "\<And>e. le_delta (f e) = le_delta e"
  shows "tx_keeps (books F A) (update_entry_if i cond f)"
proof (rule tx_validI)
  fix s s' n
  assume ok: "books F A s" and "update_entry_if i cond f s = Inr (s', n)"
  then have s': "s' = s\<lparr>ec_ledger := map (\<lambda>e. if le_id e = i \<and> cond e then f e else e) (ec_ledger s)\<rparr>"
    by (simp add: update_entry_if_def)
  have w: "worth t (f e) = worth t e" for t e using assms(2) by (cases t) simp_all
  have "paid t (map (\<lambda>e. if b e then f e else e) es) = paid t es" for t b es
    by (induction es) (auto simp: paid_def assms(1) w)
  moreover have "tallied t s' = tallied t s" for t by (cases t) (simp_all add: s' day_of_def given_by_def)
  ultimately show "books F A s'" using ok by (simp add: books_def s')
qed

lemma undo_entry_books [book_intros]:
  assumes "reason = REVOKED \<or> reason = RESTORED"
  shows "tx_keeps (books F A) (create_entry (undo_entry now award d b reason key))"
proof (rule tx_validI)
  fix s s' e
  assume ok: "books F A s" and "create_entry (undo_entry now award d b reason key) s = Inr (s', e)"
  then have s': "s' = s\<lparr>ec_ledger := ec_ledger s @ [undo_entry now award d b reason key (length (ec_ledger s))]\<rparr>"
    by (auto simp: create_entry_def Let_def split: if_splits)
  have "of_tally t (undo_entry now award d b reason key n) = False" for t n
  proof (cases t)
    case (Reputation_tally k u day)
    then show ?thesis using assms by (cases k) (auto simp: undo_entry_def)
  qed (use assms in \<open>auto simp: undo_entry_def earning_reasons_def\<close>)
  then have "paid t (ec_ledger s') = paid t (ec_ledger s)" for t by (simp add: s' paid_append)
  moreover have "tallied t s' = tallied t s" for t by (cases t) (simp_all add: s' day_of_def given_by_def)
  ultimately show "books F A s'" using ok by (simp add: books_def)
qed

lemma marks_other [simp]:
  "of_tally t (e\<lparr>le_revokedAt := a\<rparr>) = of_tally t e"
  "of_tally t (e\<lparr>le_revokedCause := c\<rparr>) = of_tally t e"
  "of_tally t (e\<lparr>le_revokedAmount := n\<rparr>) = of_tally t e"
  by (cases t; simp)+

lemma undo_keeps_books:
  "tx_keeps (books F A) (revoke_for_content le now t i)"
  "tx_keeps (books F A) (restore_for_content le now t i)"
  unfolding revoke_for_content_def restore_for_content_def revoke_def restore_def revoke_one_def restore_one_def Let_def
  by (intro tx_intros book_intros; simp)+

text \<open>The nightly job forgets what was given on the days before, and nothing of those days is paid later.\<close>

lemma books_floor:
  assumes ok: "books F settled s" and caps: "caps_ok s" and "F \<le> F'"
  shows "books F' settled s"
  unfolding books_def
proof
  fix t
  have t: "agrees F t (paid t (ec_ledger s)) 0 (tallied t s)" using ok by (simp add: books_def)
  show "agrees F' t (paid t (ec_ledger s)) 0 (tallied t s)"
  proof (cases t)
    case (Given_tally owner giver day)
    have "given_by owner giver day s \<le> max_reputation_per_giver_per_day"
      using caps given_by_member [of owner giver day s]
      by (force simp: caps_ok_def max_reputation_per_giver_per_day_def)
    with t Given_tally assms(3) show ?thesis by (auto split: if_splits)
  qed (use t in simp_all)
qed

lemma prune_books:
  assumes ok: "books F settled s" and caps: "caps_ok s" and run: "prune_old_giver_days now s = Inr (s', k)"
  shows "books (max F (economy_day now)) settled s'"
proof -
  let ?F = "max F (economy_day now)"
  have s': "s' = s\<lparr>ec_given := filter (\<lambda>((_, _, day), _). \<not> day < economy_day now) (ec_given s)\<rparr>"
    using run by (simp add: prune_old_giver_days_def tx_simps)
  have gone: "map_of (filter (\<lambda>((_, _, day), _). \<not> day < economy_day now) gs) (o', g, day)
      = map_of gs (o', g, day)" if "economy_day now \<le> day" for o' g day and gs :: "((user_id \<times> user_id \<times> time) \<times> int) list"
    using that by (induction gs) auto
  have "agrees ?F t (paid t (ec_ledger s')) 0 (tallied t s')" for t
  proof -
    have t: "agrees ?F t (paid t (ec_ledger s)) 0 (tallied t s)"
      using books_floor [OF ok caps, of ?F] by (simp add: books_def)
    show ?thesis
    proof (cases t)
      case (Given_tally owner giver day)
      with t gone [of day] show ?thesis by (auto simp: s' given_by_def)
    qed (use t in \<open>simp_all add: s' day_of_def\<close>)
  qed
  then show ?thesis by (simp add: books_def)
qed

section \<open>Runs\<close>

text \<open>
  Every operation in any order and at any clock, with any race of the rank refresh, except that no like
  or comment is booked for a day whose givers the nightly job has already forgotten.
\<close>

inductive booked_step :: "time \<times> economy \<Rightarrow> time \<times> economy \<Rightarrow> bool" where
  liked: "record_like hmac accounts now t i owner liker s = Inr (s', x) \<Longrightarrow> F \<le> economy_day now \<Longrightarrow>
    booked_step (F, s) (F, s')"
| commented: "record_comment hmac accounts now c p owner u s = Inr (s', x) \<Longrightarrow> F \<le> economy_day now \<Longrightarrow>
    booked_step (F, s) (F, s')"
| checked: "check_in accounts now u s = Inr (s', n) \<Longrightarrow> booked_step (F, s) (F, s')"
| corrected: "adjust accounts now admin u c delta reason s = Inr (s', e) \<Longrightarrow> booked_step (F, s) (F, s')"
| reimbursed: "credit_takedown_refunds now us item amount actor s = Inr (s', k) \<Longrightarrow> booked_step (F, s) (F, s')"
| taken_down: "revoke_for_content le now t i s = Inr (s', x) \<Longrightarrow> booked_step (F, s) (F, s')"
| put_back: "restore_for_content le now t i s = Inr (s', x) \<Longrightarrow> booked_step (F, s) (F, s')"
| reranked: "write_rank now u (read_rank now u seen) s = Inr (s', x) \<Longrightarrow> booked_step (F, s) (F, s')"
| nightly: "refresh_stale_ranks now s = Inr (s', k) \<Longrightarrow> booked_step (F, s) (F, s')"
| forgotten: "prune_old_giver_days now s = Inr (s', k) \<Longrightarrow> booked_step (F, s) (max F (economy_day now), s')"

lemma booked_is_race: "booked_step (F, s) (F', s') \<Longrightarrow> economy_race s s'"
  by (cases rule: booked_step.cases) (auto intro: economy_race.intros economy_step.intros)

definition booked_ok :: "time \<times> economy \<Rightarrow> bool" where
  "booked_ok st = (counters_ok (snd st) \<and> books (fst st) settled (snd st))"

lemma booked_step_keeps:
  assumes "booked_step st st'" and "booked_ok st"
  shows "booked_ok st'"
proof -
  obtain F s F' s' where st: "st = (F, s)" "st' = (F', s')" by (cases st; cases st')
  have ok: "counters_ok s" "books F settled s" using assms(2) by (simp_all add: booked_ok_def st)
  have "counters_ok s'"
    using economy_race_counters [OF booked_is_race ok(1)] assms(1) by (simp add: st)
  moreover have "books F' settled s'"
    using assms(1) unfolding st
  proof (cases rule: booked_step.cases)
    case (forgotten now k)
    then show ?thesis using prune_books [OF ok(2)] ok(1) by (simp add: counters_ok_def)
  qed (use ok(2) in \<open>blast dest: tx_validD [OF record_like_books] tx_validD [OF record_comment_books]
        tx_validD [OF check_in_books] tx_validD [OF money_ops_keep_books(1)] tx_validD [OF money_ops_keep_books(2)]
        tx_validD [OF undo_keeps_books(1)] tx_validD [OF undo_keeps_books(2)] tx_validD [OF ranks_keep_books(1)]
        tx_validD [OF ranks_keep_books(3)]\<close>)+
  ultimately show ?thesis by (simp add: booked_ok_def st)
qed

lemma no_economy_books: "books F settled no_economy"
proof -
  have "agrees F t (paid t (ec_ledger no_economy)) 0 (tallied t no_economy)" for t
  proof (cases t)
    case (Reputation_tally k u d)
    then show ?thesis by (cases k) (simp_all add: no_economy_def paid_def day_of_def new_day_def)
  qed (simp_all add: no_economy_def paid_def day_of_def new_day_def given_by_def max_reputation_per_giver_per_day_def)
  then show ?thesis by (simp add: books_def)
qed

interpretation booked: state_machine "\<lambda>st. snd st = no_economy" booked_step booked_ok
  by unfold_locales (simp add: booked_ok_def no_economy_ok no_economy_books, erule booked_step_keeps)

end
