(* ===== verification/Economy_Properties.thy ===== *)
theory Economy_Properties
  imports Economy_Undo Economy_Runs Economy_Books
begin

text \<open>
  The properties of the economy: balances are the ledger's, ranks are the counters', the daily limits
  hold, a like counts once and never fails, a check-in pays once a day, hiding and showing content
  cancel out, a refund is paid once, and the steps of Reputation in closed form.
\<close>

section \<open>Samples\<close>

definition sample_account :: account where
  "sample_account = \<lparr>ac_status = ACTIVE_USER, ac_createdAt = 0, ac_postCount = 4, ac_commentCount = 9\<rparr>"

definition sample_accounts :: accounts where
  "sample_accounts = [(''ann'', sample_account), (''bob'', sample_account), (''cat'', sample_account)]"

definition sample_now :: time where
  "sample_now = 20 * day_ms"

definition sample_hmac :: "user_id \<Rightarrow> bytes" where
  "sample_hmac u = [0, 0, 0]"

definition after :: "economy \<Rightarrow> (economy \<times> 'a) result \<Rightarrow> economy" where
  "after s r = (case r of Inl _ \<Rightarrow> s | Inr (s', _) \<Rightarrow> s')"

lemma after_step: "(\<And>s' x. r = Inr (s', x) \<Longrightarrow> economy_step s s') \<Longrightarrow> economy_step\<^sup>*\<^sup>* s (after s r)"
  by (cases r) (auto simp: after_def)

text \<open>Bob likes a post of ann, then cat does, and ann checks in.\<close>

definition sample_liked :: economy where
  "sample_liked = after no_economy (record_like sample_hmac sample_accounts sample_now POST_SOURCE ''p'' ''ann'' ''bob'' no_economy)"

definition sample_economy :: economy where
  "sample_economy = after sample_liked (check_in sample_accounts sample_now ''ann'' sample_liked)"

lemma sample_liked_reachable: "economy_step\<^sup>*\<^sup>* no_economy sample_liked"
  unfolding sample_liked_def by (rule after_step) (rule economy_step.like)

lemma sample_reachable: "economy_step\<^sup>*\<^sup>* no_economy sample_economy"
  unfolding sample_economy_def
  by (rule rtranclp_trans [OF sample_liked_reachable after_step]) (rule economy_step.checked_in)

lemma calm_is_race: "economy_step\<^sup>*\<^sup>* s t \<Longrightarrow> economy_race\<^sup>*\<^sup>* s t"
  by (induction rule: rtranclp_induct) (auto intro: economy_race.calm rtranclp.rtrancl_into_rtrancl)

lemmas sample_race = calm_is_race [OF sample_reachable] and liked_race = calm_is_race [OF sample_liked_reachable]

lemma reachable_counters: "economy_race\<^sup>*\<^sup>* no_economy s \<Longrightarrow> counters_ok s"
  by (rule racy.inv_reachable) simp_all

lemma not_failed:
  fixes r :: "(economy \<times> unit) result"
  assumes "isl r = False"
  obtains s' where "r = Inr (s', ())"
  using assms by (cases r) auto

section \<open>Balances and ranks\<close>

lemma balances_verified:
  assumes "money_ok s"
  shows "verify_wallet_balances s = []"
proof -
  have b: "balance s u c = ledger_sum u c (ec_ledger s)" for u c using assms unfolding money_ok_def by metis
  have d: "distinct (map fst (ec_wallets s))" using assms by (simp add: money_ok_def)
  have "balance_field c w = ledger_sum u c (ec_ledger s)" if "(u, w) \<in> set (ec_wallets s)" for u w c
    using b [of u c] map_of_is_SomeI [OF d that] by (simp add: balance_def)
  from this [of _ _ REPUTATION] this [of _ _ SHARDS] this [of _ _ PRISMS]
  show ?thesis by (auto simp: verify_wallet_balances_def filter_empty_conv)
qed

text \<open>
  C13. Whatever likes, comments, check-ins, corrections, refunds, takedowns, restorations and nightly
  jobs happen, in any order and with any race of the rank refresh, every balance is the sum of its
  ledger rows and never negative, so the nightly check finds no mismatch.
\<close>
theorem wallets_match_ledger:
  assumes "economy_race\<^sup>*\<^sup>* no_economy s"
  shows "verify_wallet_balances s = [] \<and> balance s u c = ledger_sum u c (ec_ledger s) \<and> 0 \<le> balance s u c"
proof -
  have ok: "money_ok s" using reachable_counters [OF assms] by (simp add: counters_ok_def)
  then show ?thesis using balances_verified [OF ok] unfolding money_ok_def by metis
qed

theorem wallets_match_ledger_witness:
  "verify_wallet_balances sample_economy = [] \<and> balance sample_economy ''ann'' SHARDS = 11"
proof -
  have "ledger_sum ''ann'' SHARDS (ec_ledger sample_economy) = 11" by code_simp
  with wallets_match_ledger [OF sample_race, of "''ann''" SHARDS] show ?thesis by simp
qed

text \<open>
  C14. When no rank refresh is overtaken by another operation, every wallet shows the rank its two
  counters give, after every operation, and its recent Reputation is never negative.
\<close>
theorem rank_is_current:
  assumes "economy_step\<^sup>*\<^sup>* no_economy s" and "map_of (ec_wallets s) u = Some w"
  shows "wa_rank w = rank_for (wa_reputation w) (wa_reputation90d w) \<and> 0 \<le> wa_reputation90d w"
  using calm.inv_reachable [OF refl assms(1)] assms(2)
  by (auto simp: money_and_ranks_def ranks_except_def wallet_rank_ok_def)

theorem rank_is_current_witness:
  "\<exists>w. map_of (ec_wallets sample_economy) ''ann'' = Some w
    \<and> wa_rank w = rank_for (wa_reputation w) (wa_reputation90d w)"
proof -
  have "(map_of (ec_wallets sample_economy) ''ann'' = None) = False" by code_simp
  then obtain w where w: "map_of (ec_wallets sample_economy) ''ann'' = Some w" by auto
  from rank_is_current [OF sample_reachable w] w show ?thesis by blast
qed

definition correct :: "int \<Rightarrow> economy \<Rightarrow> economy" where
  "correct n s = after s (adjust sample_accounts sample_now ''root'' ''ann'' REPUTATION n ''fix'' s)"

lemma correct_step: "economy_race\<^sup>*\<^sup>* s (correct n s)"
  unfolding correct_def by (intro calm_is_race after_step) (rule economy_step.adjusted)

text \<open>
  The refresh of a rank reads the wallet and writes the rank without a transaction: when an award
  lands in between, it overwrites the new rank with the old one, and the wallet shows a rank its own
  Reputation does not give.
\<close>
theorem stale_refresh_loses_rank:
  "\<exists>s w. economy_race\<^sup>*\<^sup>* no_economy s \<and> map_of (ec_wallets s) ''ann'' = Some w
    \<and> wa_rank w \<noteq> rank_for (wa_reputation w) (wa_reputation90d w)"
proof -
  let ?seen = "correct 500 no_economy"
  let ?s = "correct 500 ?seen"
  let ?t = "after ?s (write_rank sample_now ''ann'' (read_rank sample_now ''ann'' ?seen) ?s)"
  have "isl (write_rank sample_now ''ann'' (read_rank sample_now ''ann'' ?seen) ?s) = False" by code_simp
  then obtain s' where "write_rank sample_now ''ann'' (read_rank sample_now ''ann'' ?seen) ?s = Inr (s', ())"
    by (rule not_failed)
  then have "economy_race ?s ?t" by (auto simp: after_def intro: economy_race.stale)
  then have reach: "economy_race\<^sup>*\<^sup>* no_economy ?t"
    using correct_step [of no_economy 500] correct_step [of ?seen 500] by (meson rtranclp.rtrancl_into_rtrancl rtranclp_trans)
  have "(case map_of (ec_wallets ?t) ''ann'' of None \<Rightarrow> False
    | Some w \<Rightarrow> wa_rank w \<noteq> rank_for (wa_reputation w) (wa_reputation90d w)) = True" by code_simp
  with reach show ?thesis by (auto split: option.splits)
qed

section \<open>Limits\<close>

text \<open>
  C15. What a day of a user is paid, by the rows of the ledger and not by the counters that are to
  bound it: the earned Shards are the base earnings of the day cut at 60, so they never pass 60 and the
  cap loses nothing; at most three comments are paid; the Reputation for likes and for comments is
  exactly what the steps give for the interactions counted; and nobody gives the same author more than 5
  Reputation. It holds after every operation, in any order and at any clock, as long as no like or
  comment is booked for a day whose givers the nightly job has already forgotten.
\<close>
theorem daily_limits:
  assumes "booked_step\<^sup>*\<^sup>* (F, no_economy) (F', s)"
  shows "paid (Shards_tally u day) (ec_ledger s) \<le> 60 \<and> paid (Written_tally u day) (ec_ledger s) \<le> 3
    \<and> paid (Given_tally u giver day) (ec_ledger s) \<le> 5
    \<and> (case map_of (ec_days s) (u, day) of
         None \<Rightarrow> paid (Shards_tally u day) (ec_ledger s) = 0 \<and> paid (Written_tally u day) (ec_ledger s) \<le> 0
           \<and> paid (Reputation_tally LIKE u day) (ec_ledger s) = 0
           \<and> paid (Reputation_tally COMMENT u day) (ec_ledger s) = 0
       | Some r \<Rightarrow> paid (Shards_tally u day) (ec_ledger s) = min 60 (de_baseShards r)
           \<and> paid (Reputation_tally LIKE u day) (ec_ledger s) = reputation_from_likes (de_likesCounted r)
           \<and> paid (Reputation_tally COMMENT u day) (ec_ledger s) = reputation_from_comments (de_commentsCounted r))"
proof -
  have ok: "caps_ok s" "books F' settled s"
    using booked.inv_reachable [OF _ assms] by (simp_all add: booked_ok_def counters_ok_def)
  have t: "agrees F' t (paid t (ec_ledger s)) 0 (tallied t s)" for t using ok(2) by (simp add: books_def)
  have "given_by u giver day s \<le> 5"
    using ok(1) given_by_member [of u giver day s] by (force simp: caps_ok_def max_reputation_per_giver_per_day_def)
  then have given: "paid (Given_tally u giver day) (ec_ledger s) \<le> 5"
    using t [of "Given_tally u giver day"] by (simp add: max_reputation_per_giver_per_day_def split: if_splits)
  have sums: "paid (Shards_tally u day) (ec_ledger s) = de_creditedShards (day_of u day s)"
    "paid (Written_tally u day) (ec_ledger s) \<le> de_commentsWritten (day_of u day s)"
    "paid (Reputation_tally kind u day) (ec_ledger s) = rep_field kind (day_of u day s)" for kind
    using t [of "Shards_tally u day"] t [of "Written_tally u day"] t [of "Reputation_tally kind u day"] by simp_all
  show ?thesis
  proof (cases "map_of (ec_days s) (u, day)")
    case None
    then show ?thesis using sums given by (simp add: day_of_def new_day_def)
  next
    case (Some r)
    then have "day_ok r" using ok(1) by (simp add: caps_ok_def)
    with Some sums given show ?thesis
      by (simp add: day_of_def day_ok_def daily_shard_cap_def shard_paying_comments_per_day_def)
  qed
qed

text \<open>Bob likes six posts of ann on one day: five of the likes pay Reputation.\<close>

definition sample_gifts :: "string list \<Rightarrow> economy" where
  "sample_gifts posts = foldl (\<lambda>s p. after s (record_like sample_hmac sample_accounts sample_now POST_SOURCE p
     ''ann'' ''bob'' s)) no_economy posts"

lemma sample_gifts_booked: "booked_step\<^sup>*\<^sup>* (0, no_economy) (0, sample_gifts posts)"
proof (induction posts rule: rev_induct)
  case Nil
  show ?case by (simp add: sample_gifts_def)
next
  case (snoc p ps)
  let ?like = "record_like sample_hmac sample_accounts sample_now POST_SOURCE p ''ann'' ''bob'' (sample_gifts ps)"
  have now: "0 \<le> economy_day sample_now" by code_simp
  have next_day: "sample_gifts (ps @ [p]) = after (sample_gifts ps) ?like" by (simp add: sample_gifts_def)
  show ?case
  proof (cases ?like)
    case (Inl e)
    with snoc show ?thesis by (simp add: next_day after_def)
  next
    case (Inr r)
    then obtain s' x where run: "?like = Inr (s', x)" by (cases r) auto
    from booked_step.liked [OF run now] snoc show ?thesis by (simp add: next_day after_def run)
  qed
qed

theorem daily_limits_witness:
  "paid (Given_tally ''ann'' ''bob'' (economy_day sample_now))
      (ec_ledger (sample_gifts [''a'', ''b'', ''c'', ''d'', ''e'', ''f''])) = 5
    \<and> paid (Shards_tally ''ann'' (economy_day sample_now))
      (ec_ledger (sample_gifts [''a'', ''b'', ''c'', ''d'', ''e'', ''f''])) \<le> 60"
proof -
  let ?s = "sample_gifts [''a'', ''b'', ''c'', ''d'', ''e'', ''f'']"
  have "5 \<le> paid (Given_tally ''ann'' ''bob'' (economy_day sample_now)) (ec_ledger ?s)" by code_simp
  with daily_limits [OF sample_gifts_booked, of "''ann''" "economy_day sample_now" "[''a'', ''b'', ''c'', ''d'', ''e'', ''f'']" "''bob''"]
  show ?thesis by linarith
qed

text \<open>
  The Reputation steps in closed form: the first 100 likes of a day pay one each, the next 9000 one
  per ten, the rest one per hundred; comments one each up to 20, one per five up to 670, then one per
  twenty. Each further interaction pays nothing or one point.
\<close>
theorem reputation_steps:
  "reputation_from_likes n =
      (if n < 100 then n else if n < 9100 then 100 + (n - 100) div 10 else 1000 + (n - 9100) div 100)
   \<and> reputation_from_comments n =
      (if n < 20 then n else if n < 670 then 20 + (n - 20) div 5 else 150 + (n - 670) div 20)
   \<and> reputation_from_likes (n + 1) - reputation_from_likes n \<in> {0, 1}
   \<and> reputation_from_comments (n + 1) - reputation_from_comments n \<in> {0, 1}"
proof -
  have "f (n + 1) - f n \<in> {0, 1}" if "pays_at_most_one f" for f
    using that unfolding pays_at_most_one_def by (auto dest: spec [of _ n])
  from this [OF likes_pay_at_most_one] this [OF comments_pay_at_most_one] show ?thesis
    unfolding likes_closed_form [of n] comments_closed_form [of n] by simp
qed

section \<open>Hiding and showing content\<close>

text \<open>
  C16. Hiding a post or comment takes back every award it is the source of, and showing it again before
  anything else happens restores everything: every balance (also one that could not pay all of it
  back), and every row of the ledger; neither can fail.
\<close>
theorem hide_show_roundtrip:
  assumes "economy_race\<^sup>*\<^sup>* no_economy s" and "\<forall>e \<in> set (ec_ledger s). source_of_content t i e \<longrightarrow> le_revokedAt e = None"
  shows "\<exists>s1 s2. revoke_for_content le now t i s = Inr (s1, ()) \<and> restore_for_content le' later t i s1 = Inr (s2, ())
    \<and> (\<forall>e \<in> set (ec_ledger s1). source_of_content t i e \<and> le_reason e \<in> set award_reasons \<longrightarrow> le_revokedAt e \<noteq> None)
    \<and> (\<forall>u c. balance s2 u c = balance s u c) \<and> take (length (ec_ledger s)) (ec_ledger s2) = ec_ledger s"
proof -
  have ok: "money_ok s" using reachable_counters [OF assms(1)] by (simp add: counters_ok_def)
  obtain s1 where 1: "revoke_for_content le now t i s = Inr (s1, ())" by (rule hide_run [OF ok])
  from hide_then_show [OF ok assms(2) 1] obtain s2 where "restore_for_content le' later t i s1 = Inr (s2, ())"
    "\<forall>u c. balance s2 u c = balance s u c" "take (length (ec_ledger s)) (ec_ledger s2) = ec_ledger s" by blast
  with 1 hide_revokes [OF ok _ 1] show ?thesis by blast
qed

theorem hide_show_roundtrip_witness:
  "\<exists>s1 s2. revoke_for_content (locale_order (\<le>) (\<le>)) 7 POST_SOURCE ''p'' sample_economy = Inr (s1, ())
    \<and> restore_for_content (locale_order (\<le>) (\<le>)) 8 POST_SOURCE ''p'' s1 = Inr (s2, ())
    \<and> balance s2 ''ann'' SHARDS = 11"
proof -
  have "list_all (\<lambda>e. source_of_content POST_SOURCE ''p'' e \<longrightarrow> le_revokedAt e = None) (ec_ledger sample_economy)" by code_simp
  then have c: "\<forall>e \<in> set (ec_ledger sample_economy). source_of_content POST_SOURCE ''p'' e \<longrightarrow> le_revokedAt e = None"
    by (simp only: list_all_iff)
  have "balance sample_economy ''ann'' SHARDS = 11" by code_simp
  with hide_show_roundtrip [OF sample_race c, of "locale_order (\<le>) (\<le>)" 7 "locale_order (\<le>) (\<le>)" 8] show ?thesis by auto
qed

section \<open>Once\<close>

text \<open>
  Recording a like never fails, whatever happened before; and once it was counted, recording it
  again, at any later time and for any state of the accounts, changes nothing.
\<close>
theorem like_counts_once:
  assumes "economy_race\<^sup>*\<^sup>* no_economy s"
  shows "\<exists>s'. record_like hmac accounts now t i owner liker s = Inr (s', ())
    \<and> (owner \<noteq> liker \<and> can_earn_from hmac accounts owner liker now \<longrightarrow>
        record_like hmac' accounts' later t i owner' liker s' = Inr (s', ()))"
proof (cases "like_is_counted t i liker s \<or> owner = liker \<or> \<not> can_earn_from hmac accounts owner liker now")
  case True
  then consider "like_is_counted t i liker s" | "owner = liker \<or> \<not> can_earn_from hmac accounts owner liker now" by blast
  then show ?thesis
  proof cases
    case 1
    then show ?thesis by (simp add: counted_like_changes_nothing)
  next
    case 2
    then have "record_like hmac accounts now t i owner liker = tx_return ()" by (auto simp: record_like_def)
    with 2 show ?thesis by (auto simp: tx_simps)
  qed
next
  case False
  have "keys_ok s" using reachable_counters [OF assms] by (simp add: counters_ok_def)
  from new_like_goes_through [OF this] False obtain s' where
    "record_like hmac accounts now t i owner liker s = Inr (s', ())" "like_is_counted t i liker s'" by blast
  with counted_like_changes_nothing [OF this(2)] show ?thesis by blast
qed

theorem like_counts_once_witness:
  "\<exists>s'. record_like sample_hmac sample_accounts sample_now POST_SOURCE ''p'' ''ann'' ''cat'' sample_economy = Inr (s', ())
    \<and> record_like sample_hmac sample_accounts (sample_now + 5) POST_SOURCE ''p'' ''ann'' ''cat'' s' = Inr (s', ())"
proof -
  have "''ann'' \<noteq> ''cat'' \<and> can_earn_from sample_hmac sample_accounts ''ann'' ''cat'' sample_now" by code_simp
  with like_counts_once [OF sample_race, of sample_hmac sample_accounts sample_now POST_SOURCE "''p''" "''ann''" "''cat''"
      sample_hmac sample_accounts "sample_now + 5" "''ann''"] show ?thesis by blast
qed

text \<open>
  C17. The check-in: it succeeds exactly for an active account whose wallet does not yet show today's
  check-in, pays between 0 and 10 Shards (what the daily cap leaves), and until the next economy day
  every further check-in is refused; it fails in no other way.
\<close>
theorem check_in_once_a_day:
  assumes "economy_race\<^sup>*\<^sup>* no_economy s" and "map_of accounts u = Some a"
  shows "(ac_status a \<noteq> ACTIVE_USER \<longrightarrow> check_in accounts now u s = Inl (BadRequest (Economy Account_cannot_earn)))
    \<and> (ac_status a = ACTIVE_USER \<and> wv_checkedIn (get_wallet now u s) \<longrightarrow>
       check_in accounts now u s = Inl (Conflict (Economy Already_checked_in)))
    \<and> (ac_status a = ACTIVE_USER \<and> \<not> wv_checkedIn (get_wallet now u s) \<longrightarrow>
       (\<exists>s' n. check_in accounts now u s = Inr (s', n) \<and> 0 \<le> n \<and> n \<le> 10
         \<and> balance s' u SHARDS = balance s u SHARDS + n
         \<and> (\<forall>later. now \<le> later \<and> later < next_economy_day_start now \<longrightarrow>
              check_in accounts later u s' = Inl (Conflict (Economy Already_checked_in)))))"
proof -
  have view: "wv_checkedIn (get_wallet now u s) \<longleftrightarrow> find_key (Check_in_key u (economy_day now)) s \<noteq> None"
    by (simp add: get_wallet_def Let_def)
  show ?thesis
  proof (cases "ac_status a = ACTIVE_USER")
    case False
    then show ?thesis using assms(2) by (simp add: check_in_def Let_def tx_simps)
  next
    case True
    then have act: "is_active accounts u" using assms(2) by (simp add: is_active_def)
    show ?thesis
    proof (cases "wv_checkedIn (get_wallet now u s)")
      case checked: True
      with second_check_in [OF act, of now s] True show ?thesis by (simp add: view)
    next
      case new: False
      have "caps_ok s" using reachable_counters [OF assms(1)] by (simp add: counters_ok_def)
      from first_check_in [OF this assms(2) True] new obtain s' n where
        run: "check_in accounts now u s = Inr (s', n)" "find_key (Check_in_key u (economy_day now)) s' \<noteq> None"
          "0 \<le> n" "n \<le> 10" "balance s' u SHARDS = balance s u SHARDS + n"
        unfolding view by blast
      have "check_in accounts later u s' = Inl (Conflict (Economy Already_checked_in))"
        if "now \<le> later" "later < next_economy_day_start now" for later
      proof -
        have "economy_day now = economy_day later"
          unfolding economy_day_iff using that economy_day_bounds [of now] by simp
        with second_check_in [OF act, of later s'] run(2) show ?thesis by simp
      qed
      with run True new show ?thesis by auto
    qed
  qed
qed

theorem check_in_once_a_day_witness:
  "check_in sample_accounts (sample_now + 9) ''ann'' sample_economy = Inl (Conflict (Economy Already_checked_in))"
proof -
  have m: "map_of sample_accounts ''ann'' = Some sample_account" and n: "wv_checkedIn (get_wallet (sample_now + 9) ''ann'' sample_economy)"
    and st: "ac_status sample_account = ACTIVE_USER" by code_simp+
  from check_in_once_a_day [OF sample_race m, of "sample_now + 9"] n st show ?thesis by simp
qed

text \<open>
  Refunding the owners of a withdrawn item pays each of them the amount once: it never fails, it
  counts exactly the owners who had not been refunded for this item, and running it again for any of
  them, with any amount, pays nobody and changes no balance.
\<close>
theorem refund_is_paid_once:
  assumes "0 < amount"
  shows "\<exists>s'. credit_takedown_refunds now us item amount actor s
      = Inr (s', length (filter (refund_due item s) (js_set us)))
    \<and> (\<forall>u c. balance s' u c = balance s u c + (if c = SHARDS \<and> u \<in> set us \<and> refund_due item s u then amount else 0))
    \<and> (set vs \<subseteq> set us \<longrightarrow> (\<exists>t. credit_takedown_refunds later vs item amount' actor' s' = Inr (t, 0)
         \<and> (\<forall>u c. balance t u c = balance s' u c)))"
proof -
  have run: "\<exists>t. credit_takedown_refunds now us item amount actor s = Inr (t, length (filter (refund_due item s) (js_set us)))
      \<and> (\<forall>u. refund_due item t u \<longleftrightarrow> refund_due item s u \<and> u \<notin> set us)
      \<and> (\<forall>u c. balance t u c = balance s u c + (if c = SHARDS \<and> u \<in> set us \<and> refund_due item s u then amount else 0))"
    if pos: "0 < amount" for now us amount actor s
  proof (cases "us = []")
    case True
    then show ?thesis by (simp add: credit_takedown_refunds_def tx_simps js_set_def)
  next
    case False
    let ?o = "sort (js_set us)"
    obtain s1 ws where l: "lock_wallets now ?o s = Inr (s1, ws)" "same_money s s1" by (rule lock_wallets_total)
    have due: "refund_due item s1 = refund_due item s" using l(2) by (auto simp: fun_eq_iff refund_due_def find_key_def same_money_def)
    from refund_loop [of ?o now item amount actor s1] obtain t ns where 1: "tx_map (refund_one now item amount actor) ?o s1 = Inr (t, ns)"
      "sum_list ns = length (filter (refund_due item s1) ?o)" "\<forall>u. refund_due item t u \<longleftrightarrow> refund_due item s1 u \<and> u \<notin> set ?o"
      "\<forall>u c. balance t u c = balance s1 u c + (if c = SHARDS \<and> u \<in> set ?o \<and> refund_due item s1 u then amount else 0)"
      by (auto simp: distinct_sort)
    have "length (filter P (sort xs)) = length (filter P xs)" for P and xs :: "user_id list"
      by (metis mset_filter mset_sort size_mset)
    with 1 l pos False show ?thesis
      by (intro exI [where x = t]) (simp add: credit_takedown_refunds_def tx_simps Let_def due same_money_def)
  qed
  obtain s' where s': "credit_takedown_refunds now us item amount actor s = Inr (s', length (filter (refund_due item s) (js_set us)))"
    "\<forall>u. refund_due item s' u \<longleftrightarrow> refund_due item s u \<and> u \<notin> set us"
    "\<forall>u c. balance s' u c = balance s u c + (if c = SHARDS \<and> u \<in> set us \<and> refund_due item s u then amount else 0)"
    using run [OF assms] by blast
  have "\<exists>t. credit_takedown_refunds later vs item amount' actor' s' = Inr (t, 0) \<and> (\<forall>u c. balance t u c = balance s' u c)"
    if vs: "set vs \<subseteq> set us"
  proof (cases "0 < amount'")
    case False
    then show ?thesis by (simp add: credit_takedown_refunds_def tx_simps)
  next
    case True
    have paid: "\<not> refund_due item s' v" if "v \<in> set vs" for v using s'(2) vs that by blast
    then have "filter (refund_due item s') (js_set vs) = []" by (simp add: filter_empty_conv)
    with run [OF True, of later vs actor' s'] paid show ?thesis by auto
  qed
  with s' show ?thesis by blast
qed

theorem refund_is_paid_once_witness:
  "\<exists>s'. credit_takedown_refunds 5 [''cat'', ''ann'', ''cat''] ''hat'' 30 ''root'' sample_economy = Inr (s', 2)
    \<and> balance s' ''ann'' SHARDS = 41
    \<and> (\<exists>t. credit_takedown_refunds 6 [''ann''] ''hat'' 99 ''root'' s' = Inr (t, 0))"
proof -
  have l: "length (filter (refund_due ''hat'' sample_economy) (js_set [''cat'', ''ann'', ''cat''])) = 2"
    "refund_due ''hat'' sample_economy ''ann''" "balance sample_economy ''ann'' SHARDS = 11" by code_simp+
  have "(0::int) < 30" by simp
  from refund_is_paid_once [OF this, of 5 "[''cat'', ''ann'', ''cat'']" "''hat''" "''root''" sample_economy "[''ann'']" 6 99 "''root''"]
  show ?thesis unfolding l(1) using l(2,3) by auto
qed

end
