(* ===== verification/Outbox.thy ===== *)
theory Outbox
  imports Transactions
begin

text \<open>
  \<open>outbox/outbox.repository.ts\<close> and \<open>outbox/outbox-dispatcher.service.ts\<close>: domain events wait in a table
  until a dispatcher has sent them to the broker. The table and the broker are the state; \<open>clock\<close>
  gives what the n-th reading of the time returns, \<open>broker\<close> how the n-th send of an event ends (an
  error message, or not). What an event carries for its consumers (version, aggregate, payload) is
  passed on unchanged and left out.
\<close>

section \<open>Events\<close>

datatype outbox_status = EVENT_PENDING | EVENT_PROCESSING | EVENT_PUBLISHED | EVENT_FAILED

record outbox_event =
  oe_id :: string
  oe_type :: string
  oe_status :: outbox_status
  oe_attemptCount :: nat
  oe_availableAt :: time
  oe_processingAt :: "time option"
  oe_publishedAt :: "time option"
  oe_lastError :: "string option"
  oe_createdAt :: time

definition domain_event_types :: "string list" where
  "domain_event_types =
     [''moderation.notice'', ''moderation.analysis.requested'', ''post.liked'', ''comment.created'',
      ''user.followed'', ''user.mentioned'', ''chat.message.sent'', ''chat.participant.added'']"

definition batch_size :: nat where
  "batch_size = 20"

definition max_batches_per_cycle :: nat where
  "max_batches_per_cycle = 50"

definition max_attempts :: nat where
  "max_attempts = 8"

definition max_retry_delay_ms :: int where
  "max_retry_delay_ms = 5 * 60 * 1000"

definition stale_processing_ms :: int where
  "stale_processing_ms = 5 * 60 * 1000"

definition calculate_retry_delay :: "nat \<Rightarrow> int" where
  "calculate_retry_delay attempt = min (1000 * 2 ^ (attempt - 1)) max_retry_delay_ms"

definition is_domain_event_type :: "string \<Rightarrow> bool" where
  "is_domain_event_type t \<longleftrightarrow> list_ex (\<lambda>v. v = t) domain_event_types"

section \<open>The table\<close>

text \<open>The writes of the repository, each one statement on the table.\<close>

definition new_event :: "time \<Rightarrow> string \<Rightarrow> string \<Rightarrow> outbox_event" where
  "new_event now i t = \<lparr>oe_id = i, oe_type = t, oe_status = EVENT_PENDING, oe_attemptCount = 0,
     oe_availableAt = now, oe_processingAt = None, oe_publishedAt = None, oe_lastError = None, oe_createdAt = now\<rparr>"

definition create_event :: "time \<Rightarrow> string \<Rightarrow> string \<Rightarrow> outbox_event list \<Rightarrow> outbox_event list result" where
  "create_event now i t es =
     (if i \<in> set (map oe_id es) then Inl (ServerError Unique_violation) else Inr (es @ [new_event now i t]))"

definition is_ready :: "time \<Rightarrow> outbox_event \<Rightarrow> bool" where
  "is_ready now e \<longleftrightarrow> oe_status e = EVENT_PENDING \<and> oe_availableAt e \<le> now"

definition ready_order :: "outbox_event \<Rightarrow> outbox_event \<Rightarrow> bool" where
  "ready_order a b \<longleftrightarrow> oe_availableAt a < oe_availableAt b
     \<or> (oe_availableAt a = oe_availableAt b \<and> oe_createdAt a \<le> oe_createdAt b)"

definition ready_events :: "time \<Rightarrow> nat \<Rightarrow> outbox_event list \<Rightarrow> outbox_event list" where
  "ready_events now limit es = take limit (sort_by ready_order (filter (is_ready now) es))"

definition on_event :: "string \<Rightarrow> (outbox_event \<Rightarrow> outbox_event) \<Rightarrow> outbox_event list \<Rightarrow> outbox_event list" where
  "on_event i f es = map (\<lambda>e. if oe_id e = i then f e else e) es"

definition claimed :: "time \<Rightarrow> outbox_event \<Rightarrow> outbox_event" where
  "claimed now e = e\<lparr>oe_status := EVENT_PROCESSING, oe_processingAt := Some now, oe_attemptCount := oe_attemptCount e + 1\<rparr>"

definition published :: "time \<Rightarrow> outbox_event \<Rightarrow> outbox_event" where
  "published now e = e\<lparr>oe_status := EVENT_PUBLISHED, oe_publishedAt := Some now, oe_processingAt := None, oe_lastError := None\<rparr>"

definition to_retry :: "string \<Rightarrow> time \<Rightarrow> outbox_event \<Rightarrow> outbox_event" where
  "to_retry msg available e = e\<lparr>oe_status := EVENT_PENDING, oe_processingAt := None, oe_lastError := Some msg,
     oe_availableAt := available\<rparr>"

definition failed :: "string \<Rightarrow> outbox_event \<Rightarrow> outbox_event" where
  "failed msg e = e\<lparr>oe_status := EVENT_FAILED, oe_processingAt := None, oe_lastError := Some msg\<rparr>"

definition is_stale :: "time \<Rightarrow> outbox_event \<Rightarrow> bool" where
  "is_stale cutoff e \<longleftrightarrow> oe_status e = EVENT_PROCESSING
     \<and> (case oe_processingAt e of None \<Rightarrow> False | Some t \<Rightarrow> t \<le> cutoff)"

definition recovered :: "time \<Rightarrow> outbox_event \<Rightarrow> outbox_event" where
  "recovered now e = e\<lparr>oe_status := EVENT_PENDING, oe_processingAt := None, oe_availableAt := now\<rparr>"

definition claim_in :: "time \<Rightarrow> string \<Rightarrow> outbox_event list \<Rightarrow> outbox_event list \<times> bool" where
  "claim_in now i es =
     (map (\<lambda>e. if oe_id e = i \<and> is_ready now e then claimed now e else e) es,
      length (filter (\<lambda>e. oe_id e = i \<and> is_ready now e) es) = 1)"

definition recover_in :: "time \<Rightarrow> time \<Rightarrow> outbox_event list \<Rightarrow> outbox_event list" where
  "recover_in now cutoff es = map (\<lambda>e. if is_stale cutoff e then recovered now e else e) es"

section \<open>The dispatcher\<close>

record outbox =
  ob_events :: "outbox_event list"
  ob_sent :: "string list"
  ob_sends :: nat
  ob_reads :: nat

type_synonym 'a outbox_tx = "(outbox, 'a) tx"

definition read_clock :: "(nat \<Rightarrow> time) \<Rightarrow> time outbox_tx" where
  "read_clock clock s = Inr (s\<lparr>ob_reads := ob_reads s + 1\<rparr>, clock (ob_reads s))"

definition find_ready :: "(nat \<Rightarrow> time) \<Rightarrow> nat \<Rightarrow> outbox_event list outbox_tx" where
  "find_ready clock limit =
     tx_bind (read_clock clock) (\<lambda>now. tx_gets (\<lambda>s. ready_events now limit (ob_events s)))"

definition claim :: "(nat \<Rightarrow> time) \<Rightarrow> string \<Rightarrow> bool outbox_tx" where
  "claim clock i =
     tx_bind (read_clock clock) (\<lambda>now s.
       Inr (s\<lparr>ob_events := fst (claim_in now i (ob_events s))\<rparr>, snd (claim_in now i (ob_events s))))"

definition update_event :: "string \<Rightarrow> (outbox_event \<Rightarrow> outbox_event) \<Rightarrow> unit outbox_tx" where
  "update_event i f s =
     (if i \<in> set (map oe_id (ob_events s)) then Inr (s\<lparr>ob_events := on_event i f (ob_events s)\<rparr>, ())
      else Inl (ServerError Record_not_found))"

definition mark_published :: "(nat \<Rightarrow> time) \<Rightarrow> string \<Rightarrow> unit outbox_tx" where
  "mark_published clock i = tx_bind (read_clock clock) (\<lambda>now. update_event i (published now))"

definition mark_for_retry :: "string \<Rightarrow> string \<Rightarrow> time \<Rightarrow> unit outbox_tx" where
  "mark_for_retry i msg available = update_event i (to_retry msg available)"

definition mark_failed :: "string \<Rightarrow> string \<Rightarrow> unit outbox_tx" where
  "mark_failed i msg = update_event i (failed msg)"

definition recover_stale_processing :: "(nat \<Rightarrow> time) \<Rightarrow> time \<Rightarrow> unit outbox_tx" where
  "recover_stale_processing clock cutoff =
     tx_bind (read_clock clock) (\<lambda>now. tx_modify (\<lambda>s. s\<lparr>ob_events := recover_in now cutoff (ob_events s)\<rparr>))"

text \<open>\<open>kafkaProducer.publish\<close>: a send that succeeds is logged.\<close>

definition publish :: "(nat \<Rightarrow> outbox_event \<Rightarrow> string option) \<Rightarrow> outbox_event \<Rightarrow> string option outbox_tx" where
  "publish broker e s =
     (case broker (ob_sends s) e of
        None \<Rightarrow> Inr (s\<lparr>ob_sends := ob_sends s + 1, ob_sent := ob_sent s @ [oe_id e]\<rparr>, None)
      | Some msg \<Rightarrow> Inr (s\<lparr>ob_sends := ob_sends s + 1\<rparr>, Some msg))"

definition process_event ::
    "(nat \<Rightarrow> time) \<Rightarrow> (nat \<Rightarrow> outbox_event \<Rightarrow> string option) \<Rightarrow> outbox_event \<Rightarrow> unit outbox_tx" where
  "process_event clock broker e =
     tx_bind (claim clock (oe_id e)) (\<lambda>got.
     if \<not> got then tx_return ()
     else
     let attempt = oe_attemptCount e + 1 in
     if \<not> is_domain_event_type (oe_type e)
     then mark_failed (oe_id e) (''Unsupported domain event type: '' @ oe_type e)
     else
     tx_bind (publish broker e) (\<lambda>outcome.
     case outcome of
       None \<Rightarrow> mark_published clock (oe_id e)
     | Some message \<Rightarrow>
         (if max_attempts \<le> attempt then mark_failed (oe_id e) message
          else
          tx_bind (read_clock clock) (\<lambda>now.
          mark_for_retry (oe_id e) message (now + calculate_retry_delay attempt)))))"

definition recover_stale_events :: "(nat \<Rightarrow> time) \<Rightarrow> unit outbox_tx" where
  "recover_stale_events clock =
     tx_bind (read_clock clock) (\<lambda>now. recover_stale_processing clock (now - stale_processing_ms))"

text \<open>The loop over batches; its bound is the loop's own.\<close>

primrec batches ::
    "nat \<Rightarrow> (nat \<Rightarrow> time) \<Rightarrow> (nat \<Rightarrow> outbox_event \<Rightarrow> string option) \<Rightarrow> unit outbox_tx" where
  "batches 0 clock broker = tx_return ()"
| "batches (Suc n) clock broker =
     tx_bind (find_ready clock batch_size) (\<lambda>events.
     tx_bind (tx_map (process_event clock broker) events) (\<lambda>_.
     if length events < batch_size then tx_return () else batches n clock broker))"

definition dispatch ::
    "(nat \<Rightarrow> time) \<Rightarrow> bool \<Rightarrow> (nat \<Rightarrow> outbox_event \<Rightarrow> string option) \<Rightarrow> unit outbox_tx" where
  "dispatch clock connected broker =
     tx_bind (recover_stale_events clock) (\<lambda>_.
     if \<not> connected then tx_return () else batches max_batches_per_cycle clock broker)"

section \<open>Several dispatchers\<close>

text \<open>
  Instances of the service share the table. Each step is one statement of one of them: \<open>held\<close> lists the
  events dispatchers have claimed and not yet marked, each with the row it was read from (the attempt
  number comes from that row). A dispatcher that dies just never marks. The rows a dispatcher read
  may be old.
\<close>

record dispatchers =
  ds_events :: "outbox_event list"
  ds_held :: "outbox_event list"

inductive event_step :: "dispatchers \<Rightarrow> dispatchers \<Rightarrow> bool" where
  created: "create_event now i t (ds_events s) = Inr es \<Longrightarrow> event_step s (s\<lparr>ds_events := es\<rparr>)"
| claims: "claim_in now (oe_id e) (ds_events s) = (es, True) \<Longrightarrow>
    event_step s (s\<lparr>ds_events := es, ds_held := e # ds_held s\<rparr>)"
| publishes: "e \<in> set (ds_held s) \<Longrightarrow>
    event_step s (s\<lparr>ds_events := on_event (oe_id e) (published now) (ds_events s), ds_held := remove1 e (ds_held s)\<rparr>)"
| retries: "e \<in> set (ds_held s) \<Longrightarrow> oe_attemptCount e + 1 < max_attempts \<Longrightarrow>
    event_step s (s\<lparr>ds_events := on_event (oe_id e) (to_retry msg (now + calculate_retry_delay (oe_attemptCount e + 1))) (ds_events s),
      ds_held := remove1 e (ds_held s)\<rparr>)"
| fails: "e \<in> set (ds_held s) \<Longrightarrow>
    event_step s (s\<lparr>ds_events := on_event (oe_id e) (failed msg) (ds_events s), ds_held := remove1 e (ds_held s)\<rparr>)"
| dies: "event_step s (s\<lparr>ds_held := remove1 e (ds_held s)\<rparr>)"

inductive recovery_step :: "dispatchers \<Rightarrow> dispatchers \<Rightarrow> bool" where
  normal: "event_step s s' \<Longrightarrow> recovery_step s s'"
| recovers: "recovery_step s (s\<lparr>ds_events := recover_in now (now - stale_processing_ms) (ds_events s)\<rparr>)"

end
