(* ===== verification/Outbox_Properties.thy ===== *)
theory Outbox_Properties
  imports Outbox
begin

text \<open>
  The properties of the outbox: a cycle with a working broker publishes everything that was ready, a
  claim is exclusive and finished events stay finished as long as no claim is taken away, what goes
  wrong when one is, and how long an event is retried.
\<close>

section \<open>One cycle\<close>

lemma ids_on_event [simp]: "(\<And>e. oe_id (f e) = oe_id e) \<Longrightarrow> map oe_id (on_event i f es) = map oe_id es"
  by (simp add: on_event_def)

lemma marks_keep_id [simp]:
  "oe_id (claimed now e) = oe_id e" "oe_id (published now e) = oe_id e" "oe_id (to_retry m t e) = oe_id e"
  "oe_id (failed m e) = oe_id e" "oe_id (recovered now e) = oe_id e"
  by (simp_all add: claimed_def published_def to_retry_def failed_def recovered_def)

lemma row_by_id: "distinct (map oe_id es) \<Longrightarrow> a \<in> set es \<Longrightarrow> b \<in> set es \<Longrightarrow> oe_id a = oe_id b \<Longrightarrow> a = b"
  by (auto simp: distinct_map inj_on_def)

lemma claim_in_ready:
  assumes d: "distinct (map oe_id es)" and e: "e \<in> set es" and r: "is_ready now e"
  shows "claim_in now (oe_id e) es = (on_event (oe_id e) (claimed now) es, True)"
proof -
  have same: "(oe_id d = oe_id e \<and> is_ready now d) = (oe_id d = oe_id e)" if "d \<in> set es" for d
    using row_by_id [OF d that e] r by auto
  have "filter (\<lambda>d. oe_id d = oe_id e \<and> is_ready now d) es = filter (\<lambda>d. oe_id d = oe_id e) es"
    by (rule filter_cong) (simp_all add: same)
  moreover have "length (filter (\<lambda>d. oe_id d = oe_id e) es) = 1"
    using d e by (induction es) (auto simp: filter_empty_conv image_iff)
  moreover have "map (\<lambda>d. if oe_id d = oe_id e \<and> is_ready now d then claimed now d else d) es
      = on_event (oe_id e) (claimed now) es"
    unfolding on_event_def by (rule map_cong) (simp_all add: same)
  ultimately show ?thesis by (simp add: claim_in_def)
qed

text \<open>What one publication leaves: the row is published, the others are as they were.\<close>

definition is_pending :: "outbox_event \<Rightarrow> bool" where
  "is_pending e \<longleftrightarrow> oe_status e = EVENT_PENDING"

definition is_published :: "outbox_event \<Rightarrow> bool" where
  "is_published e \<longleftrightarrow> oe_status e = EVENT_PUBLISHED"

definition publishes_rows :: "outbox_event list \<Rightarrow> outbox \<Rightarrow> outbox \<Rightarrow> bool" where
  "publishes_rows es s t \<longleftrightarrow> map oe_id (ob_events t) = map oe_id (ob_events s)
     \<and> (\<forall>e \<in> set (ob_events s). oe_id e \<notin> oe_id ` set es \<longrightarrow> e \<in> set (ob_events t))
     \<and> (\<forall>e \<in> set (ob_events t). e \<in> set (ob_events s) \<and> oe_id e \<notin> oe_id ` set es
          \<or> oe_id e \<in> oe_id ` set es \<and> is_published e)
     \<and> ob_sent t = ob_sent s @ map oe_id es \<and> ob_reads s \<le> ob_reads t"

lemma process_ready:
  assumes d: "distinct (map oe_id (ob_events s))" and e: "e \<in> set (ob_events s)" and r: "is_ready now e"
    and now: "now \<le> clock (ob_reads s)" and type: "is_domain_event_type (oe_type e)" and up: "\<forall>n x. broker n x = None"
  obtains t where "process_event clock broker e s = Inr (t, ())" and "publishes_rows [e] s t"
proof -
  let ?c = "clock (ob_reads s)" and ?p = "clock (ob_reads s + 1)"
  let ?es = "on_event (oe_id e) (published ?p) (on_event (oe_id e) (claimed ?c) (ob_events s))"
  let ?t = "s\<lparr>ob_reads := ob_reads s + 2, ob_events := ?es, ob_sends := ob_sends s + 1, ob_sent := ob_sent s @ [oe_id e]\<rparr>"
  have "is_ready ?c e" using r now by (simp add: is_ready_def)
  note c = claim_in_ready [OF d e this]
  have i: "oe_id e \<in> oe_id ` set (ob_events s)" using e by simp
  then have i': "oe_id e \<in> set (map oe_id (on_event (oe_id e) (claimed ?c) (ob_events s)))" by (subst ids_on_event) simp_all
  have "process_event clock broker e s = Inr (?t, ())"
    using i' by (simp add: process_event_def claim_def read_clock_def tx_bind_def c type publish_def up mark_published_def
        update_event_def Let_def del: set_map)
  moreover have "publishes_rows [e] s ?t"
    unfolding publishes_rows_def by (auto simp: on_event_def is_published_def published_def image_iff)
  ultimately show thesis by (rule that)
qed

lemma publishes_rows_trans:
  assumes "publishes_rows xs r s" and "publishes_rows ys s t"
  shows "publishes_rows (xs @ ys) r t"
proof -
  have keep: "e \<in> set (ob_events t)" if "e \<in> set (ob_events r)" "oe_id e \<notin> oe_id ` set (xs @ ys)" for e
    using that assms unfolding publishes_rows_def by (simp add: image_Un)
  have cases: "e \<in> set (ob_events r) \<and> oe_id e \<notin> oe_id ` set (xs @ ys) \<or> oe_id e \<in> oe_id ` set (xs @ ys) \<and> is_published e"
    if "e \<in> set (ob_events t)" for e
    using that assms unfolding publishes_rows_def by (auto simp: image_Un)
  show ?thesis
    using keep cases assms unfolding publishes_rows_def by auto
qed

lemma process_batch:
  assumes "distinct (map oe_id (ob_events s))" and "distinct (map oe_id es)" and "set es \<subseteq> set (ob_events s)"
    and "\<forall>e \<in> set es. is_ready now e" and "now \<le> clock (ob_reads s)" and mono: "mono clock"
    and "\<forall>e \<in> set (ob_events s). is_pending e \<longrightarrow> is_domain_event_type (oe_type e)" and up: "\<forall>n x. broker n x = None"
  shows "\<exists>t xs. tx_map (process_event clock broker) es s = Inr (t, xs) \<and> publishes_rows es s t"
  using assms(1-5,7)
proof (induction es arbitrary: s)
  case Nil
  then show ?case by (auto simp: tx_simps publishes_rows_def)
next
  case (Cons e es)
  obtain s1 where 1: "process_event clock broker e s = Inr (s1, ())" "publishes_rows [e] s s1"
    by (rule process_ready [of s e now clock broker]) (use Cons.prems up in \<open>auto simp: is_ready_def is_pending_def\<close>)
  have sub: "set es \<subseteq> set (ob_events s1)"
  proof
    fix x assume x: "x \<in> set es"
    then have "oe_id x \<in> oe_id ` set es" by simp
    then have "oe_id x \<noteq> oe_id e" using Cons.prems(2) by auto
    with x Cons.prems(3) 1(2) show "x \<in> set (ob_events s1)" unfolding publishes_rows_def by auto
  qed
  have d1: "distinct (map oe_id (ob_events s1))" using 1(2) Cons.prems(1) by (simp add: publishes_rows_def)
  have "clock (ob_reads s) \<le> clock (ob_reads s1)" using 1(2) mono by (simp add: publishes_rows_def monoD)
  then have n1: "now \<le> clock (ob_reads s1)" using Cons.prems(5) by simp
  have t1: "\<forall>x \<in> set (ob_events s1). is_pending x \<longrightarrow> is_domain_event_type (oe_type x)"
    using 1(2) Cons.prems(6) unfolding publishes_rows_def by (auto simp: is_pending_def is_published_def)
  from Cons.IH [OF d1 _ sub _ n1 t1] Cons.prems(2,4) obtain t xs where
    2: "tx_map (process_event clock broker) es s1 = Inr (t, xs)" "publishes_rows es s1 t" by auto
  have "tx_map (process_event clock broker) (e # es) s = Inr (t, () # xs)"
    using 1(1) 2(1) by (simp add: tx_bind_def tx_return_def)
  moreover have "publishes_rows (e # es) s t" using publishes_rows_trans [OF 1(2) 2(2)] by simp
  ultimately show ?case by blast
qed

lemma published_stay:
  assumes p: "publishes_rows xs s t" and "\<forall>x \<in> set xs. is_pending x" and d: "distinct (map oe_id (ob_events s))"
    and sub: "set xs \<subseteq> set (ob_events s)" and e: "e \<in> set (ob_events s)" "is_published e"
  shows "e \<in> set (ob_events t)"
proof -
  have "oe_id e \<notin> oe_id ` set xs"
  proof
    assume "oe_id e \<in> oe_id ` set xs"
    then obtain x where x: "x \<in> set xs" "oe_id x = oe_id e" by auto
    with row_by_id [OF d, of x e] sub e(1) have "x = e" by auto
    with x(1) assms(2) e(2) show False by (auto simp: is_pending_def is_published_def)
  qed
  with p e(1) show ?thesis by (simp add: publishes_rows_def)
qed

definition published_id :: "string \<Rightarrow> outbox \<Rightarrow> bool" where
  "published_id i s \<longleftrightarrow> (\<exists>e \<in> set (ob_events s). oe_id e = i \<and> is_published e)"

lemma batch_publishes:
  assumes "publishes_rows xs s t" and "e \<in> set xs" and "set xs \<subseteq> set (ob_events s)"
  shows "published_id (oe_id e) t"
proof -
  have "oe_id e \<in> oe_id ` set (ob_events t)"
    using assms unfolding publishes_rows_def by (metis imageI list.set_map subsetD)
  then obtain d where d: "d \<in> set (ob_events t)" "oe_id d = oe_id e" by auto
  with assms show ?thesis unfolding publishes_rows_def published_id_def by (metis imageI)
qed

text \<open>The rows a cycle may still have to send.\<close>

definition pending_count :: "outbox \<Rightarrow> nat" where
  "pending_count s = length (filter is_pending (ob_events s))"

lemma batch_shrinks:
  assumes p: "publishes_rows xs s t" and d: "distinct (map oe_id (ob_events s))" and "distinct (map oe_id xs)"
    and sub: "set xs \<subseteq> set (ob_events s)" and pend: "\<forall>e \<in> set xs. is_pending e"
  shows "pending_count t + length xs = pending_count s"
proof -
  have dt: "distinct (map oe_id (ob_events t))" using p d by (simp add: publishes_rows_def)
  have count: "pending_count r = card (set (filter is_pending (ob_events r)))" if "distinct (map oe_id (ob_events r))" for r
    using that unfolding pending_count_def by (metis distinct_card distinct_filter distinct_map)
  have "set (filter is_pending (ob_events t)) = set (filter is_pending (ob_events s)) - set xs"
  proof (intro set_eqI iffI)
    fix e assume "e \<in> set (filter is_pending (ob_events t))"
    then show "e \<in> set (filter is_pending (ob_events s)) - set xs"
      using p unfolding publishes_rows_def by (auto simp: is_pending_def is_published_def)
  next
    fix e assume e: "e \<in> set (filter is_pending (ob_events s)) - set xs"
    then have "oe_id e \<notin> oe_id ` set xs" using row_by_id [OF d, of e] sub by auto
    with e p show "e \<in> set (filter is_pending (ob_events t))" unfolding publishes_rows_def by auto
  qed
  moreover have "set xs \<subseteq> set (filter is_pending (ob_events s))" using sub pend by auto
  moreover have "card (set xs) = length xs" using assms(3) by (simp add: distinct_card distinct_map)
  ultimately show ?thesis
    using count [OF d] count [OF dt] card_Diff_subset [of "set xs" "set (filter is_pending (ob_events s))"]
      card_mono [of "set (filter is_pending (ob_events s))" "set xs"] by simp
qed

text \<open>The batches of a cycle together: what they send, and that it is every event ready when they begin.\<close>

lemma ids_apart:
  assumes "distinct (map oe_id xs)" and "distinct (map oe_id ys)" and "\<And>y. y \<in> set ys \<Longrightarrow> oe_id y \<notin> oe_id ` set xs"
  shows "distinct (map oe_id (xs @ ys))"
proof -
  have "oe_id x \<notin> oe_id ` set ys" if "x \<in> set xs" for x
    using assms(3) that by (metis image_iff)
  with assms(1,2) show ?thesis by auto
qed

lemma batches_publish:
  assumes "distinct (map oe_id (ob_events s))" and mono: "mono clock"
    and "\<forall>e \<in> set (ob_events s). is_pending e \<longrightarrow> is_domain_event_type (oe_type e)" and up: "\<forall>n x. broker n x = None"
    and "pending_count s \<le> n * batch_size"
  shows "\<exists>t ys. batches n clock broker s = Inr (t, ()) \<and> publishes_rows ys s t \<and> distinct (map oe_id ys)
    \<and> set ys \<subseteq> set (filter is_pending (ob_events s))
    \<and> set (filter (is_ready (clock (ob_reads s))) (ob_events s)) \<subseteq> set ys"
  using assms(1,3,5)
proof (induction n arbitrary: s)
  case 0
  then have "\<forall>e \<in> set (ob_events s). \<not> is_pending e"
    by (auto simp: pending_count_def filter_empty_conv)
  then have "set (filter (is_ready (clock (ob_reads s))) (ob_events s)) = {}"
    by (auto simp: is_ready_def is_pending_def)
  moreover have "publishes_rows [] s s" by (simp add: publishes_rows_def)
  ultimately show ?case by (intro exI [where x = s] exI [where x = "[]"]) (simp add: tx_simps)
next
  case (Suc n)
  let ?now = "clock (ob_reads s)" and ?s = "s\<lparr>ob_reads := ob_reads s + 1\<rparr>"
  let ?all = "sort_by ready_order (filter (is_ready ?now) (ob_events s))"
  let ?xs = "ready_events ?now batch_size (ob_events s)"
  have find: "find_ready clock batch_size s = Inr (?s, ?xs)" by (simp add: find_ready_def read_clock_def tx_bind_def tx_simps)
  have xs: "?xs = take batch_size ?all" by (simp add: ready_events_def)
  have sub: "set ?xs \<subseteq> set (ob_events ?s)" "\<forall>e \<in> set ?xs. is_ready ?now e" unfolding xs by (auto dest: in_set_takeD)
  have "distinct (map oe_id ?all)"
    using Suc.prems(1) by (metis distinct_map_filter mset_eq_imp_distinct_iff mset_map mset_sort_by)
  then have dx: "distinct (map oe_id ?xs)" unfolding xs by (simp add: take_map [symmetric] distinct_take)
  have now: "?now \<le> clock (ob_reads ?s)" using mono by (simp add: monoD)
  obtain t zs where t: "tx_map (process_event clock broker) ?xs ?s = Inr (t, zs)" "publishes_rows ?xs ?s t"
    using process_batch [OF _ dx sub now mono _ up] Suc.prems(1,2) by auto
  have from_s: "publishes_rows ?xs s t" using t(2) by (simp add: publishes_rows_def)
  have pend: "\<forall>e \<in> set ?xs. is_pending e" using sub(2) by (auto simp: is_ready_def is_pending_def)
  have pending: "set ?xs \<subseteq> set (filter is_pending (ob_events s))" using sub(1) pend by auto
  show ?case
  proof (cases "length ?xs < batch_size")
    case True
    then have "?xs = ?all" unfolding xs by simp
    then have "set (filter (is_ready ?now) (ob_events s)) \<subseteq> set ?xs" by auto
    moreover have "batches (Suc n) clock broker s = Inr (t, ())" using find t(1) True by (simp add: tx_simps)
    ultimately show ?thesis using from_s dx pending by blast
  next
    case False
    then have len: "length ?xs = batch_size" unfolding xs by simp
    have d: "distinct (map oe_id (ob_events ?s))" using Suc.prems(1) by simp
    have dt: "distinct (map oe_id (ob_events t))" using t(2) d by (simp add: publishes_rows_def)
    have "pending_count ?s = pending_count s" by (simp add: pending_count_def)
    with batch_shrinks [OF t(2) d dx sub(1) pend] Suc.prems(3) have small: "pending_count t \<le> n * batch_size"
      by (simp add: len)
    have types: "\<forall>e \<in> set (ob_events t). is_pending e \<longrightarrow> is_domain_event_type (oe_type e)"
      using t(2) Suc.prems(2) unfolding publishes_rows_def by (auto simp: is_pending_def is_published_def)
    from Suc.IH [OF dt types small] obtain u ys where u: "batches n clock broker t = Inr (u, ())"
      "publishes_rows ys t u" "distinct (map oe_id ys)" "set ys \<subseteq> set (filter is_pending (ob_events t))"
      "set (filter (is_ready (clock (ob_reads t))) (ob_events t)) \<subseteq> set ys" by blast
    have left: "y \<in> set (ob_events s) \<and> oe_id y \<notin> oe_id ` set ?xs" if "y \<in> set ys" for y
    proof -
      from that u(4) have y: "y \<in> set (ob_events t)" "\<not> is_published y" by (auto simp: is_pending_def is_published_def)
      have "\<forall>e \<in> set (ob_events t). e \<in> set (ob_events ?s) \<and> oe_id e \<notin> oe_id ` set ?xs \<or> oe_id e \<in> oe_id ` set ?xs \<and> is_published e"
        using t(2) unfolding publishes_rows_def by blast
      with y show ?thesis by auto
    qed
    have "distinct (map oe_id (?xs @ ys))" using ids_apart [OF dx u(3)] left by blast
    moreover have "set (?xs @ ys) \<subseteq> set (filter is_pending (ob_events s))" using pending u(4) left by auto
    moreover have "set (filter (is_ready ?now) (ob_events s)) \<subseteq> set (?xs @ ys)"
    proof
      fix e assume e: "e \<in> set (filter (is_ready ?now) (ob_events s))"
      show "e \<in> set (?xs @ ys)"
      proof (cases "oe_id e \<in> oe_id ` set ?xs")
        case True
        then obtain x where "x \<in> set ?xs" "oe_id x = oe_id e" by auto
        with row_by_id [OF Suc.prems(1), of x e] sub(1) e show ?thesis by auto
      next
        case False
        with e t(2) have "e \<in> set (ob_events t)" by (simp add: publishes_rows_def)
        moreover have "?now \<le> clock (ob_reads t)"
          using t(2) monoD [OF mono, of "ob_reads s" "ob_reads t"] by (simp add: publishes_rows_def)
        ultimately show ?thesis using e u(5) by (auto simp: is_ready_def)
      qed
    qed
    moreover have "batches (Suc n) clock broker s = Inr (u, ())" using find t(1) False u(1) by (simp add: tx_simps)
    moreover have "publishes_rows (?xs @ ys) s u" by (rule publishes_rows_trans [OF from_s u(2)])
    ultimately show ?thesis by blast
  qed
qed

definition is_unfinished :: "outbox_event \<Rightarrow> bool" where
  "is_unfinished e \<longleftrightarrow> oe_status e = EVENT_PENDING \<or> oe_status e = EVENT_PROCESSING"

text \<open>
  C18. While the broker works, one cycle of the dispatcher never fails, and hands the broker every event
  that was ready when it began and every event a dead dispatcher had claimed five minutes before, each
  once in the cycle, as long as no more than 1000 events wait (50 batches of 20) and all are of known
  types. It sends nothing that was already finished, and marks published what it sent.
\<close>
theorem dispatch_publishes_ready:
  assumes "distinct (map oe_id (ob_events s))" and "mono clock"
    and "\<forall>e \<in> set (ob_events s). is_unfinished e \<longrightarrow> is_domain_event_type (oe_type e)"
    and "\<forall>n x. broker n x = None" and "length (filter is_unfinished (ob_events s)) \<le> 1000"
  shows "\<exists>t sent. dispatch clock True broker s = Inr (t, ()) \<and> ob_sent t = ob_sent s @ sent \<and> distinct sent
    \<and> (\<forall>e \<in> set (ob_events s). is_ready (clock (ob_reads s)) e
          \<or> is_stale (clock (ob_reads s) - stale_processing_ms) e \<longrightarrow> oe_id e \<in> set sent)
    \<and> (\<forall>i \<in> set sent. published_id i t \<and> (\<exists>e \<in> set (ob_events s). oe_id e = i \<and> is_unfinished e))"
proof -
  let ?t0 = "clock (ob_reads s)" and ?t1 = "clock (ob_reads s + 1)"
  let ?es = "recover_in ?t1 (?t0 - stale_processing_ms) (ob_events s)"
  let ?s = "s\<lparr>ob_reads := ob_reads s + 2, ob_events := ?es\<rparr>"
  have run: "recover_stale_events clock s = Inr (?s, ())"
    by (simp add: recover_stale_events_def recover_stale_processing_def read_clock_def tx_bind_def tx_simps)
  have row: "map oe_id ?es = map oe_id (ob_events s)" by (simp add: recover_in_def)
  have un: "is_unfinished (if is_stale b e then recovered now e else e) = is_unfinished e" for b now e
    by (auto simp: is_unfinished_def is_stale_def recovered_def)
  have type: "oe_type (if is_stale b e then recovered now e else e) = oe_type e" for b now e by (simp add: recovered_def)
  have "length (filter is_unfinished ?es) = length (filter is_unfinished (ob_events s))"
    by (simp add: recover_in_def filter_map comp_def un)
  moreover have "length (filter is_pending xs) \<le> length (filter is_unfinished xs)" for xs
    by (induction xs) (auto simp: is_pending_def is_unfinished_def)
  ultimately have "pending_count ?s \<le> max_batches_per_cycle * batch_size"
    using assms(5) by (simp add: pending_count_def max_batches_per_cycle_def batch_size_def) (metis le_trans)
  moreover have "\<forall>e \<in> set (ob_events ?s). is_pending e \<longrightarrow> is_domain_event_type (oe_type e)"
  proof (intro ballI impI)
    fix e assume "e \<in> set (ob_events ?s)" "is_pending e"
    then obtain d where "d \<in> set (ob_events s)"
      "e = (if is_stale (?t0 - stale_processing_ms) d then recovered ?t1 d else d)" "is_unfinished e"
      by (auto simp: recover_in_def is_pending_def is_unfinished_def)
    with assms(3) un type show "is_domain_event_type (oe_type e)" by metis
  qed
  moreover have "distinct (map oe_id (ob_events ?s))" using assms(1) row by simp
  ultimately obtain t ys where t: "batches max_batches_per_cycle clock broker ?s = Inr (t, ())"
    "publishes_rows ys ?s t" "distinct (map oe_id ys)" "set ys \<subseteq> set (filter is_pending ?es)"
    "set (filter (is_ready (clock (ob_reads s + 2))) ?es) \<subseteq> set ys"
    using batches_publish [of ?s clock broker max_batches_per_cycle] assms(2,4) by auto
  have "?t0 \<le> clock (ob_reads s + 2)" "?t1 \<le> clock (ob_reads s + 2)" using assms(2) by (simp_all add: monoD)
  then have "oe_id e \<in> oe_id ` set ys"
    if e: "e \<in> set (ob_events s)" and r: "is_ready ?t0 e \<or> is_stale (?t0 - stale_processing_ms) e" for e
  proof -
    let ?e = "if is_stale (?t0 - stale_processing_ms) e then recovered ?t1 e else e"
    have "?e \<in> set ?es" using e by (simp add: recover_in_def)
    moreover have "is_ready (clock (ob_reads s + 2)) ?e"
      using r \<open>?t0 \<le> clock (ob_reads s + 2)\<close> \<open>?t1 \<le> clock (ob_reads s + 2)\<close>
      by (auto simp: is_ready_def recovered_def is_stale_def)
    ultimately have "?e \<in> set ys" using t(5) by auto
    then show ?thesis by (auto simp: image_iff intro!: bexI [of _ ?e])
  qed
  moreover have "published_id (oe_id y) t \<and> (\<exists>e \<in> set (ob_events s). oe_id e = oe_id y \<and> is_unfinished e)"
    if y: "y \<in> set ys" for y
  proof -
    have sub: "set ys \<subseteq> set (ob_events ?s)" using t(4) by auto
    from y t(4) obtain d where "d \<in> set (ob_events s)" "is_pending y"
      "y = (if is_stale (?t0 - stale_processing_ms) d then recovered ?t1 d else d)"
      by (auto simp: recover_in_def)
    then have "oe_id d = oe_id y" "is_unfinished d" using un by (auto simp: is_pending_def is_unfinished_def is_stale_def)
    with \<open>d \<in> set (ob_events s)\<close> batch_publishes [OF t(2) y sub] show ?thesis by blast
  qed
  moreover have "ob_sent t = ob_sent s @ map oe_id ys" using t(2) by (simp add: publishes_rows_def)
  ultimately show ?thesis
    using t(1,3) run by (intro exI [where x = t] exI [where x = "map oe_id ys"]) (simp add: dispatch_def tx_simps)
qed

definition sample_event :: "string \<Rightarrow> time \<Rightarrow> outbox_event" where
  "sample_event i t = new_event t i ''post.liked''"

definition sample_outbox :: outbox where
  "sample_outbox = \<lparr>ob_events = [sample_event ''a'' 5, claimed 9 (sample_event ''b'' 6), sample_event ''c'' 900000],
     ob_sent = [], ob_sends = 0, ob_reads = 0\<rparr>"

theorem dispatch_publishes_ready_witness:
  "\<exists>t sent. dispatch (\<lambda>n. 400000 + int n) True (\<lambda>_ _. None) sample_outbox = Inr (t, ())
    \<and> ob_sent t = sent \<and> distinct sent \<and> {''a'', ''b''} \<subseteq> set sent \<and> published_id ''a'' t \<and> published_id ''b'' t"
proof -
  have m: "mono (\<lambda>n. 400000 + int n)" by (rule monoI) simp
  have "distinct (map oe_id (ob_events sample_outbox))" by code_simp
  moreover have "list_all (\<lambda>e. is_unfinished e \<longrightarrow> is_domain_event_type (oe_type e)) (ob_events sample_outbox)" by code_simp
  then have "\<forall>e \<in> set (ob_events sample_outbox). is_unfinished e \<longrightarrow> is_domain_event_type (oe_type e)" by (simp only: list_all_iff)
  moreover have "length (filter is_unfinished (ob_events sample_outbox)) \<le> 1000" by code_simp
  ultimately obtain t sent where t: "dispatch (\<lambda>n. 400000 + int n) True (\<lambda>_ _. None) sample_outbox = Inr (t, ())"
    "ob_sent t = ob_sent sample_outbox @ sent" "distinct sent"
    "\<forall>e \<in> set (ob_events sample_outbox). is_ready (400000 + int (ob_reads sample_outbox)) e
          \<or> is_stale (400000 + int (ob_reads sample_outbox) - stale_processing_ms) e \<longrightarrow> oe_id e \<in> set sent"
    "\<forall>i \<in> set sent. published_id i t \<and> (\<exists>e \<in> set (ob_events sample_outbox). oe_id e = i \<and> is_unfinished e)"
    using dispatch_publishes_ready [OF _ m, of sample_outbox "\<lambda>_ _. None"] by blast
  have "sample_event ''a'' 5 \<in> set (ob_events sample_outbox)" "claimed 9 (sample_event ''b'' 6) \<in> set (ob_events sample_outbox)"
    by (simp_all add: sample_outbox_def)
  moreover have "is_ready (400000 + int (ob_reads sample_outbox)) (sample_event ''a'' 5)"
    "is_stale (400000 + int (ob_reads sample_outbox) - stale_processing_ms) (claimed 9 (sample_event ''b'' 6))"
    "oe_id (sample_event ''a'' 5) = ''a''" "oe_id (claimed 9 (sample_event ''b'' 6)) = ''b''" by code_simp+
  ultimately have "''a'' \<in> set sent" "''b'' \<in> set sent" using t(4) by metis+
  with t(1-3,5) show ?thesis by (auto simp: sample_outbox_def)
qed

section \<open>Several dispatchers\<close>

definition claims_ok :: "dispatchers \<Rightarrow> bool" where
  "claims_ok s \<longleftrightarrow> distinct (map oe_id (ds_events s)) \<and> distinct (map oe_id (ds_held s))
     \<and> (\<forall>h \<in> set (ds_held s). \<exists>e \<in> set (ds_events s). oe_id e = oe_id h \<and> oe_status e = EVENT_PROCESSING)"

definition is_finished :: "outbox_event \<Rightarrow> bool" where
  "is_finished e \<longleftrightarrow> oe_status e = EVENT_PUBLISHED \<or> oe_status e = EVENT_FAILED"

definition keeps_finished :: "dispatchers \<Rightarrow> dispatchers \<Rightarrow> bool" where
  "keeps_finished s t \<longleftrightarrow> (\<forall>e \<in> set (ds_events s). is_finished e \<longrightarrow> e \<in> set (ds_events t))"

lemma held_is_processing:
  assumes "claims_ok s" and "h \<in> set (ds_held s)" and "e \<in> set (ds_events s)" and "oe_id e = oe_id h"
  shows "oe_status e = EVENT_PROCESSING"
  using assms row_by_id unfolding claims_ok_def by metis

lemma claim_in_True:
  assumes d: "distinct (map oe_id es)" and "claim_in now i es = (fs, True)"
  obtains e where "e \<in> set es" and "oe_id e = i" and "is_ready now e" and "fs = on_event i (claimed now) es"
proof -
  have "filter (\<lambda>e. oe_id e = i \<and> is_ready now e) es \<noteq> []" using assms(2) by (auto simp: claim_in_def)
  then obtain e where e: "e \<in> set es" "oe_id e = i" "is_ready now e" by (auto simp: filter_empty_conv)
  with claim_in_ready [OF d e(1,3)] assms(2) have "fs = on_event i (claimed now) es" by simp
  with e show thesis by (rule that)
qed

lemma marking_keeps_claims:
  assumes ok: "claims_ok s" and h: "h \<in> set (ds_held s)" and f: "\<And>e. oe_id (f e) = oe_id e"
  shows "claims_ok (s\<lparr>ds_events := on_event (oe_id h) f (ds_events s), ds_held := remove1 h (ds_held s)\<rparr>)"
    and "keeps_finished s (s\<lparr>ds_events := on_event (oe_id h) f (ds_events s), ds_held := remove1 h (ds_held s)\<rparr>)"
proof -
  have dh: "distinct (map oe_id (ds_held s))" using ok by (simp add: claims_ok_def)
  have other: "oe_id g \<noteq> oe_id h \<and> g \<in> set (ds_held s)" if "g \<in> set (remove1 h (ds_held s))" for g
    using that dh h row_by_id [OF dh, of g h] by (auto simp: distinct_map)
  have "distinct (map oe_id (remove1 h (ds_held s)))"
    using dh by (auto simp: distinct_map intro: inj_on_subset dest: notin_set_remove1)
  moreover have "\<exists>e \<in> set (on_event (oe_id h) f (ds_events s)). oe_id e = oe_id g \<and> oe_status e = EVENT_PROCESSING"
    if g: "g \<in> set (remove1 h (ds_held s))" for g
  proof -
    from other [OF g] ok obtain e where "e \<in> set (ds_events s)" "oe_id e = oe_id g" "oe_status e = EVENT_PROCESSING"
      unfolding claims_ok_def by metis
    with other [OF g] show ?thesis by (intro bexI [of _ e]) (auto simp: on_event_def image_iff intro!: bexI [of _ e])
  qed
  ultimately show "claims_ok (s\<lparr>ds_events := on_event (oe_id h) f (ds_events s), ds_held := remove1 h (ds_held s)\<rparr>)"
    using ok f by (simp add: claims_ok_def)
  show "keeps_finished s (s\<lparr>ds_events := on_event (oe_id h) f (ds_events s), ds_held := remove1 h (ds_held s)\<rparr>)"
    using held_is_processing [OF ok h]
    by (auto simp: keeps_finished_def is_finished_def on_event_def image_iff intro!: bexI)
qed

lemma event_step_ok: "event_step s t \<Longrightarrow> claims_ok s \<Longrightarrow> claims_ok t \<and> keeps_finished s t"
proof (induction rule: event_step.induct)
  case (created now i ty s es)
  then have "es = ds_events s @ [new_event now i ty]" "i \<notin> set (map oe_id (ds_events s))"
    by (auto simp: create_event_def split: if_splits)
  then show ?case using created.prems
    by (auto simp: claims_ok_def keeps_finished_def new_event_def)
next
  case (claims now h s es)
  have d: "distinct (map oe_id (ds_events s))" using claims.prems by (simp add: claims_ok_def)
  obtain e where e: "e \<in> set (ds_events s)" "oe_id e = oe_id h" "is_ready now e"
    "es = on_event (oe_id h) (claimed now) (ds_events s)"
    using claim_in_True [OF d claims.hyps] by blast
  have new: "oe_id h \<notin> oe_id ` set (ds_held s)"
    using held_is_processing [OF claims.prems _ e(1)] e(2,3) by (auto simp: is_ready_def)
  have "\<exists>x \<in> set es. oe_id x = oe_id h \<and> oe_status x = EVENT_PROCESSING"
  proof (rule bexI)
    show "claimed now e \<in> set es" using e(1,2) unfolding e(4) on_event_def by (auto intro!: image_eqI [of _ _ e])
    show "oe_id (claimed now e) = oe_id h \<and> oe_status (claimed now e) = EVENT_PROCESSING"
      using e(2) by (simp add: claimed_def)
  qed
  moreover have "\<exists>x \<in> set es. oe_id x = oe_id g \<and> oe_status x = EVENT_PROCESSING" if g: "g \<in> set (ds_held s)" for g
  proof -
    from g claims.prems obtain x where "x \<in> set (ds_events s)" "oe_id x = oe_id g" "oe_status x = EVENT_PROCESSING"
      unfolding claims_ok_def by blast
    moreover have "oe_id g \<noteq> oe_id h" using new g by (auto simp: image_iff)
    ultimately show ?thesis by (auto simp: e(4) on_event_def image_iff intro!: bexI [of _ x])
  qed
  moreover have "keeps_finished s (s\<lparr>ds_events := es, ds_held := h # ds_held s\<rparr>)"
  proof -
    have "x \<in> set es" if x: "x \<in> set (ds_events s)" "is_finished x" for x
    proof -
      have "oe_id x \<noteq> oe_id h" using row_by_id [OF d x(1) e(1)] e(2,3) x(2) by (auto simp: is_ready_def is_finished_def)
      with x(1) show ?thesis by (auto simp: e(4) on_event_def image_iff intro!: bexI [of _ x])
    qed
    then show ?thesis by (simp add: keeps_finished_def)
  qed
  moreover have "distinct (map oe_id es)" using d by (simp add: e(4))
  ultimately show ?case using claims.prems new by (auto simp: claims_ok_def)
next
  case (publishes h s now)
  then show ?case using marking_keeps_claims [of s h "published now"] by simp
next
  case (retries h s msg now)
  then show ?case
    using marking_keeps_claims [of s h "to_retry msg (now + calculate_retry_delay (oe_attemptCount h + 1))"] by simp
next
  case (fails h s msg)
  then show ?case using marking_keeps_claims [of s h "failed msg"] by simp
next
  case (dies s h)
  have "distinct (map oe_id (remove1 h (ds_held s)))"
    using dies.prems unfolding claims_ok_def
    by (auto simp: distinct_map intro: inj_on_subset dest: notin_set_remove1)
  then show ?case using dies.prems by (auto simp: claims_ok_def keeps_finished_def dest: notin_set_remove1)
qed

definition no_events :: dispatchers where
  "no_events = \<lparr>ds_events = [], ds_held = []\<rparr>"

interpretation calm_outbox: growing_machine "\<lambda>s. s = no_events" event_step claims_ok keeps_finished
proof unfold_locales
  show "claims_ok s" if "s = no_events" for s using that by (simp add: claims_ok_def no_events_def)
  show "keeps_finished s t" if "claims_ok s" "event_step s t" for s t using event_step_ok that by blast
qed (auto simp: event_step_ok keeps_finished_def)

text \<open>
  C19. As long as no claim is taken away from a dispatcher (none stalls for five minutes), no two
  dispatchers ever work on the same event, an event being worked on is in no other state, and an event
  that was published or has failed for good never changes again.
\<close>
theorem claims_are_exclusive:
  assumes "event_step\<^sup>*\<^sup>* no_events s" and "event_step\<^sup>*\<^sup>* s t"
  shows "distinct (map oe_id (ds_held s))
    \<and> (\<forall>h \<in> set (ds_held s). \<forall>e \<in> set (ds_events s). oe_id e = oe_id h \<longrightarrow> oe_status e = EVENT_PROCESSING)
    \<and> (\<forall>e \<in> set (ds_events s). is_finished e \<longrightarrow> e \<in> set (ds_events t))"
proof -
  have ok: "claims_ok s" by (rule calm_outbox.inv_reachable [OF refl assms(1)])
  moreover have "keeps_finished s t" by (rule calm_outbox.grows [OF assms(2) ok])
  ultimately show ?thesis using held_is_processing [OF ok] by (auto simp: claims_ok_def keeps_finished_def)
qed

definition one_event :: dispatchers where
  "one_event = \<lparr>ds_events = [new_event 0 ''a'' ''post.liked''], ds_held = []\<rparr>"

definition one_claimed :: dispatchers where
  "one_claimed = \<lparr>ds_events = [claimed 1 (new_event 0 ''a'' ''post.liked'')], ds_held = [new_event 0 ''a'' ''post.liked'']\<rparr>"

definition one_published :: dispatchers where
  "one_published = \<lparr>ds_events = [published 2 (claimed 1 (new_event 0 ''a'' ''post.liked''))], ds_held = []\<rparr>"

lemma sample_steps: "event_step no_events one_event" "event_step one_event one_claimed" "event_step one_claimed one_published"
proof -
  have "create_event 0 ''a'' ''post.liked'' (ds_events no_events) = Inr (ds_events one_event)" by code_simp
  from event_step.created [OF this] show "event_step no_events one_event" by (simp add: no_events_def one_event_def)
  have "claim_in 1 (oe_id (new_event 0 ''a'' ''post.liked'')) (ds_events one_event) = (ds_events one_claimed, True)" by code_simp
  from event_step.claims [OF this] show "event_step one_event one_claimed" by (simp add: one_event_def one_claimed_def)
  have "new_event 0 ''a'' ''post.liked'' \<in> set (ds_held one_claimed)" by (simp add: one_claimed_def)
  from event_step.publishes [OF this, of 2] show "event_step one_claimed one_published"
    by (simp add: one_claimed_def one_published_def on_event_def new_event_def)
qed

theorem claims_are_exclusive_witness:
  "distinct (map oe_id (ds_held one_claimed)) \<and> oe_status (claimed 1 (new_event 0 ''a'' ''post.liked'')) = EVENT_PROCESSING
   \<and> published 2 (claimed 1 (new_event 0 ''a'' ''post.liked'')) \<in> set (ds_events one_published)"
proof -
  have "event_step\<^sup>*\<^sup>* no_events one_claimed" "event_step\<^sup>*\<^sup>* one_claimed one_published"
    "event_step\<^sup>*\<^sup>* no_events one_published"
    using sample_steps by (auto intro: rtranclp.rtrancl_into_rtrancl)
  note claims = claims_are_exclusive [OF this(1,2)] and finished = claims_are_exclusive [OF this(3) rtranclp.rtrancl_refl]
  have "new_event 0 ''a'' ''post.liked'' \<in> set (ds_held one_claimed)"
    "claimed 1 (new_event 0 ''a'' ''post.liked'') \<in> set (ds_events one_claimed)"
    "oe_id (claimed 1 (new_event 0 ''a'' ''post.liked'')) = oe_id (new_event 0 ''a'' ''post.liked'')"
    "published 2 (claimed 1 (new_event 0 ''a'' ''post.liked'')) \<in> set (ds_events one_published)"
    by (simp_all add: one_claimed_def one_published_def)
  with claims finished show ?thesis by blast
qed

text \<open>
  Recovering stale claims breaks that promise: the marks name only the event's id, not the claim. A
  dispatcher that stalls for five minutes after its send comes back to an event another one has
  published meanwhile, and puts it back in the queue, to be sent again.
\<close>
theorem stalled_dispatcher_unpublishes:
  "\<exists>s t. recovery_step\<^sup>*\<^sup>* no_events s \<and> recovery_step s t
    \<and> map oe_status (ds_events s) = [EVENT_PUBLISHED] \<and> map oe_status (ds_events t) = [EVENT_PENDING]"
proof -
  let ?e = "new_event 0 ''a'' ''post.liked''"
  let ?w = "recovered 400000 (claimed 1 ?e)"
  let ?s2 = "\<lparr>ds_events = [?w], ds_held = [?e]\<rparr>"
  let ?s3 = "\<lparr>ds_events = [claimed 400001 ?w], ds_held = [?w, ?e]\<rparr>"
  let ?s4 = "\<lparr>ds_events = [published 400002 (claimed 400001 ?w)], ds_held = [?e]\<rparr>"
  let ?s5 = "\<lparr>ds_events = [to_retry ''timeout'' (400003 + 1000) (published 400002 (claimed 400001 ?w))], ds_held = []\<rparr>"
  note normal = recovery_step.normal
  have start: "recovery_step\<^sup>*\<^sup>* no_events one_claimed"
    using normal [OF sample_steps(1)] normal [OF sample_steps(2)] by (auto intro: rtranclp.rtrancl_into_rtrancl)
  have "recover_in 400000 (400000 - stale_processing_ms) (ds_events one_claimed) = [?w]" by code_simp
  then have 2: "recovery_step one_claimed ?s2"
    using recovery_step.recovers [of one_claimed 400000] by (simp add: one_claimed_def)
  have "claim_in 400001 (oe_id ?w) (ds_events ?s2) = (ds_events ?s3, True)" by code_simp
  from normal [OF event_step.claims [OF this]] have 3: "recovery_step ?s2 ?s3" by simp
  have "?w \<in> set (ds_held ?s3)" by simp
  from normal [OF event_step.publishes [OF this, of 400002]] have 4: "recovery_step ?s3 ?s4"
    by (simp add: on_event_def new_event_def claimed_def recovered_def)
  have 5: "recovery_step ?s4 ?s5"
  proof -
    have "?e \<in> set (ds_held ?s4)" "oe_attemptCount ?e + 1 < max_attempts" by (simp_all add: new_event_def max_attempts_def)
    moreover have "calculate_retry_delay (oe_attemptCount ?e + 1) = 1000" by code_simp
    ultimately show ?thesis
      using normal [OF event_step.retries [of ?e ?s4 "''timeout''" 400003]]
      by (simp add: on_event_def new_event_def claimed_def recovered_def published_def)
  qed
  note into = rtranclp.rtrancl_into_rtrancl [where r = recovery_step and a = no_events]
  from start 2 have "recovery_step\<^sup>*\<^sup>* no_events ?s2" by (rule into)
  from this 3 have "recovery_step\<^sup>*\<^sup>* no_events ?s3" by (rule into)
  from this 4 have "recovery_step\<^sup>*\<^sup>* no_events ?s4" by (rule into)
  moreover have "map oe_status (ds_events ?s4) = [EVENT_PUBLISHED]" "map oe_status (ds_events ?s5) = [EVENT_PENDING]"
    by (simp_all add: published_def to_retry_def)
  ultimately show ?thesis using 5 by (intro exI [of _ ?s4] exI [of _ ?s5] conjI)
qed

section \<open>Retries\<close>

text \<open>
  The waiting times before the retries double from one second, and the last one, after the seventh
  failure, is 64 seconds: the cap of five minutes is never reached, and an event is given up after
  waiting 127 seconds in all, so a broker that is down for longer than that loses it.
\<close>
theorem retries_end_after_two_minutes:
  "map calculate_retry_delay [1..<max_attempts] = [1000, 2000, 4000, 8000, 16000, 32000, 64000]
   \<and> sum_list (map calculate_retry_delay [1..<max_attempts]) = 127000
   \<and> calculate_retry_delay (max_attempts - 1) < max_retry_delay_ms"
proof (intro conjI)
  show "map calculate_retry_delay [1..<max_attempts] = [1000, 2000, 4000, 8000, 16000, 32000, 64000]" by code_simp
  show "sum_list (map calculate_retry_delay [1..<max_attempts]) = 127000" by code_simp
  show "calculate_retry_delay (max_attempts - 1) < max_retry_delay_ms" by code_simp
qed

end
