(* ===== verification/Moderation_State.thy ===== *)
theory Moderation_State
  imports Economy_System
begin

text \<open>
  The tables of moderation (posts and comments with their counters, cases, enforcements, violations,
  sanctions, appeals and the audit of decisions) and the guards every moderation request passes:
  \<open>common/moderation\<close>, \<open>moderation-enforcement/risk-policy.ts\<close> (durations) and the private helpers of
  \<open>enforcement.service.ts\<close>. What the code reads of users, assignments and communities is the
  argument \<open>staff\<close>. Rows with generated ids are numbered in the order they are created. The JSON
  states of an audit row are left out, and a notice is the event the outbox is given.
\<close>

section \<open>Tables\<close>

datatype user_role = User_role | Platform_moderator | Admin_role

datatype content_kind = Post_content | Comment_content

datatype content_status = Draft | Published | Hidden | Deleted

record post =
  po_author :: user_id
  po_gameId :: "string option"
  po_title :: string
  po_content :: string
  po_status :: content_status
  po_deletedAt :: "time option"
  po_commentCount :: int

record comment =
  cm_post :: string
  cm_author :: user_id
  cm_content :: string
  cm_status :: content_status
  cm_deletedAt :: "time option"

datatype case_status = Case_open | Case_in_review | Case_resolved | Case_dismissed

record moderation_case =
  mc_targetType :: content_kind
  mc_targetId :: string
  mc_gameId :: "string option"
  mc_status :: case_status
  mc_assigned :: "user_id option"
  mc_reportCount :: int
  mc_uniqueReporterCount :: int
  mc_lastReportedAt :: time
  mc_resolvedBy :: "user_id option"
  mc_resolvedAt :: "time option"
  mc_resolutionNote :: "string option"

datatype enforcement_scope = COMMUNITY | PLATFORM

record content_enforcement =
  en_id :: nat
  en_targetType :: content_kind
  en_targetId :: string
  en_subject :: user_id
  en_actor :: user_id
  en_scope :: enforcement_scope
  en_gameId :: "string option"
  en_caseId :: "string option"
  en_reason :: string
  en_createdAt :: time
  en_revokedAt :: "time option"

datatype violation_severity = MINOR | MODERATE | SEVERE | CRITICAL

datatype report_reason =
    UNMARKED_SPOILERS | HARASSMENT | HATE | VIOLENCE | COMMERCIAL_SPAM | SCAM | IMPERSONATION
  | MISINFORMATION | NSFW | OTHER

record violation =
  vi_id :: nat
  vi_caseId :: string
  vi_incidentKey :: string
  vi_subject :: user_id
  vi_actor :: user_id
  vi_scope :: enforcement_scope
  vi_gameId :: "string option"
  vi_category :: report_reason
  vi_severity :: violation_severity
  vi_reason :: string
  vi_createdAt :: time
  vi_reversedAt :: "time option"

datatype sanction_type = WARNING | COMMUNITY_RESTRICTION | COMMUNITY_BAN | PLATFORM_SUSPENSION

datatype sanction_status = Sanction_active | Sanction_expired | Sanction_revoked

record sanction =
  sa_id :: nat
  sa_subject :: user_id
  sa_actor :: user_id
  sa_type :: sanction_type
  sa_scope :: enforcement_scope
  sa_gameId :: "string option"
  sa_caseId :: string
  sa_violationId :: "nat option"
  sa_enforcementId :: "nat option"
  sa_reason :: string
  sa_startsAt :: time
  sa_expiresAt :: "time option"
  sa_status :: sanction_status
  sa_revokedAt :: "time option"
  sa_requestKey :: "user_id \<times> string"
  sa_requestHash :: string

datatype appeal_status = Appeal_pending | Appeal_accepted | Appeal_rejected

record appeal =
  ap_id :: nat
  ap_sanction :: nat
  ap_statement :: string
  ap_status :: appeal_status
  ap_reviewer :: "user_id option"
  ap_decisionReason :: "string option"
  ap_reviewedAt :: "time option"

datatype decision =
    CONTENT_HIDDEN | CONTENT_RESTORED | CONTENT_APPEAL_REVERSED | VIOLATION_CONFIRMED
  | VIOLATION_REVERSED | SANCTION_ISSUED | SANCTION_ADJUSTED | SANCTION_REVOKED | SANCTION_EXPIRED
  | APPEAL_SUBMITTED | APPEAL_ACCEPTED | APPEAL_REJECTED

datatype entity = Enforcement_row nat | Violation_row nat | Sanction_row nat | Appeal_row nat

record decision_audit =
  da_actor :: "user_id option"
  da_action :: decision
  da_entity :: entity
  da_reason :: string
  da_createdAt :: time

record notice =
  nt_recipient :: user_id
  nt_actor :: "user_id option"
  nt_entity :: entity

record moderation =
  mo_posts :: "(string \<times> post) list"
  mo_comments :: "(string \<times> comment) list"
  mo_postCounts :: "(string \<times> int) list"
  mo_cases :: "(string \<times> moderation_case) list"
  mo_enforcements :: "content_enforcement list"
  mo_violations :: "violation list"
  mo_sanctions :: "sanction list"
  mo_appeals :: "appeal list"
  mo_audits :: "decision_audit list"
  mo_notices :: "notice list"
  mo_economy :: economy

type_synonym 'a moderation_tx = "(moderation, 'a) tx"

section \<open>Rows by number\<close>

definition numbered :: "('r \<Rightarrow> nat) \<Rightarrow> 'r list \<Rightarrow> bool" where
  "numbered key rs \<longleftrightarrow> map key rs = [0..<length rs]"

definition find_row :: "('r \<Rightarrow> nat) \<Rightarrow> nat \<Rightarrow> 'r list \<Rightarrow> 'r option" where
  "find_row key i rs = find (\<lambda>r. key r = i) rs"

definition on_id :: "('r \<Rightarrow> nat) \<Rightarrow> nat \<Rightarrow> ('r \<Rightarrow> 'r) \<Rightarrow> 'r list \<Rightarrow> 'r list" where
  "on_id key i f rs = map (\<lambda>r. if key r = i then f r else r) rs"

lemma find_row_Some: "find_row key i rs = Some r \<Longrightarrow> r \<in> set rs \<and> key r = i"
  by (auto simp: find_row_def find_Some_iff)

lemma find_row_None: "find_row key i rs = None \<longleftrightarrow> (\<forall>r \<in> set rs. key r \<noteq> i)"
  by (auto simp: find_row_def find_None_iff)

lemma numbered_nth: "numbered key rs \<Longrightarrow> i < length rs \<Longrightarrow> key (rs ! i) = i"
  unfolding numbered_def by (metis nth_map nth_upt plus_nat.add_0 length_map diff_zero)

lemma numbered_distinct: "numbered key rs \<Longrightarrow> distinct (map key rs)"
  by (simp add: numbered_def)

lemma numbered_less: "numbered key rs \<Longrightarrow> r \<in> set rs \<Longrightarrow> key r < length rs"
  unfolding numbered_def by (metis atLeastLessThan_iff imageI list.set_map set_upt)

lemma numbered_inj: "numbered key rs \<Longrightarrow> r \<in> set rs \<Longrightarrow> q \<in> set rs \<Longrightarrow> key r = key q \<Longrightarrow> r = q"
  by (drule numbered_distinct) (simp add: distinct_map inj_on_def)

lemma numbered_row: "numbered key rs \<Longrightarrow> r \<in> set rs \<Longrightarrow> find_row key (key r) rs = Some r"
  by (cases "find_row key (key r) rs") (auto simp: find_row_None dest: find_row_Some numbered_inj)

lemma numbered_snoc [simp]: "numbered key (rs @ [r]) \<longleftrightarrow> numbered key rs \<and> key r = length rs"
  by (auto simp: numbered_def)

lemma numbered_Nil [simp]: "numbered key []"
  by (simp add: numbered_def)

lemma numbered_on_id [simp]: "(\<And>r. key (f r) = key r) \<Longrightarrow> numbered key (on_id k i f rs) = numbered key rs"
  by (simp add: numbered_def on_id_def comp_def if_distrib cong: if_cong)

lemma length_on_id [simp]: "length (on_id key i f rs) = length rs"
  by (simp add: on_id_def)

lemma set_on_id: "set (on_id key i f rs) = (\<lambda>r. if key r = i then f r else r) ` set rs"
  by (simp add: on_id_def)

lemma on_id_all: "(\<forall>r \<in> set (on_id key i f rs). P r) \<longleftrightarrow> (\<forall>r \<in> set rs. P (if key r = i then f r else r))"
  by (auto simp: on_id_def)

lemma filter_only:
  assumes "distinct xs" and "x \<in> set xs" and "P x" and "\<And>y. y \<in> set xs \<Longrightarrow> P y \<Longrightarrow> y = x"
  shows "filter P xs = [x]"
proof -
  have "filter P xs = filter ((=) x) xs" using assms(3,4) by (intro filter_cong) auto
  also have "\<dots> = [x]" using assms(1,2) by (induction xs) (auto simp: filter_empty_conv)
  finally show ?thesis .
qed

section \<open>Staff and the guards of a request\<close>

record staff_user =
  su_role :: user_role
  su_status :: user_status

record staff =
  st_users :: "(user_id \<times> staff_user) list"
  st_assignments :: "(user_id \<times> string) list"
  st_games :: "(string \<times> string) list"

record mod_context =
  mx_actor :: user_id
  mx_role :: user_role
  mx_scope :: enforcement_scope
  mx_gameId :: "string option"

definition has_platform_moderation_capability :: "user_role \<Rightarrow> bool" where
  "has_platform_moderation_capability role \<longleftrightarrow> role = Platform_moderator \<or> role = Admin_role"

definition lock_moderation_actor :: "staff \<Rightarrow> user_id \<Rightarrow> string option \<Rightarrow> staff_user result" where
  "lock_moderation_actor st actor game =
     (case map_of (st_users st) actor of
        None \<Rightarrow> Inl (Forbidden (Moderation Active_moderation_permission_required))
      | Some u \<Rightarrow>
          if su_status u \<noteq> ACTIVE_USER then Inl (Forbidden (Moderation Active_moderation_permission_required))
          else if has_platform_moderation_capability (su_role u) then Inr u
          else if (case game of None \<Rightarrow> False | Some g \<Rightarrow> (actor, g) \<in> set (st_assignments st)) then Inr u
          else Inl (Forbidden (Moderation Moderation_permission_was_removed)))"

text \<open>A slug that is given and not empty must name a community.\<close>

definition game_of_slug :: "staff \<Rightarrow> string option \<Rightarrow> string option result" where
  "game_of_slug st slug =
     (case slug of
        None \<Rightarrow> Inr None
      | Some g \<Rightarrow> if g = [] then Inr None
                  else (case map_of (st_games st) g of
                          None \<Rightarrow> Inl (NotFound (Moderation Community_not_found))
                        | Some i \<Rightarrow> Inr (Some i)))"

definition unexpired :: "time \<Rightarrow> sanction \<Rightarrow> bool" where
  "unexpired now x \<longleftrightarrow> (case sa_expiresAt x of None \<Rightarrow> False | Some e \<Rightarrow> now < e)"

definition in_scope_of :: "string option \<Rightarrow> sanction \<Rightarrow> bool" where
  "in_scope_of game x \<longleftrightarrow> sa_scope x = PLATFORM
     \<or> (game \<noteq> None \<and> sa_scope x = COMMUNITY \<and> sa_gameId x = game)"

definition blocks_actor :: "time \<Rightarrow> user_id \<Rightarrow> string option \<Rightarrow> sanction \<Rightarrow> bool" where
  "blocks_actor now actor game x \<longleftrightarrow> sa_subject x = actor \<and> sa_type x \<noteq> WARNING
     \<and> sa_status x = Sanction_active \<and> sa_startsAt x \<le> now \<and> in_scope_of game x \<and> unexpired now x"

definition moderation_context :: "staff \<Rightarrow> time \<Rightarrow> user_id \<Rightarrow> string option \<Rightarrow> mod_context moderation_tx" where
  "moderation_context st now actor slug =
     tx_bind (tx_result (game_of_slug st slug)) (\<lambda>game.
     tx_bind (tx_result (lock_moderation_actor st actor game)) (\<lambda>u.
     tx_bind (tx_require (game \<noteq> None \<or> su_role u \<in> {Admin_role, Platform_moderator})
       (Forbidden (Moderation Platform_moderation_permission_required))) (\<lambda>_.
     tx_bind (tx_gets (\<lambda>s. filter (blocks_actor now actor game) (mo_sanctions s))) (\<lambda>blocked.
     tx_bind (tx_require (blocked = []) (Forbidden (Moderation Account_cannot_moderate))) (\<lambda>_.
     tx_return \<lparr>mx_actor = actor, mx_role = su_role u,
       mx_scope = (if game \<noteq> None then COMMUNITY else PLATFORM), mx_gameId = game\<rparr>)))))"

text \<open>\<open>subject\<close>: who may be the subject of a decision, and \<open>canModerateAccount\<close>, which lists show.\<close>

definition is_assigned :: "staff \<Rightarrow> user_id \<Rightarrow> bool" where
  "is_assigned st u \<longleftrightarrow> u \<in> fst ` set (st_assignments st)"

definition can_moderate_account ::
    "user_id \<Rightarrow> user_role \<Rightarrow> user_id \<Rightarrow> user_role \<Rightarrow> user_status option \<Rightarrow> bool \<Rightarrow> bool" where
  "can_moderate_account actor actor_role subject role status assigned =
     (if subject = actor then False
      else if status = Some DELETED then False
      else if role = Admin_role then False
      else if actor_role \<noteq> Admin_role \<and> (role \<noteq> User_role \<or> assigned) then False
      else True)"

definition check_subject :: "staff \<Rightarrow> mod_context \<Rightarrow> user_id \<Rightarrow> unit result" where
  "check_subject st ctx subject =
     (if subject = mx_actor ctx then Inl (Forbidden (Moderation You_cannot_sanction_yourself))
      else case map_of (st_users st) subject of
        None \<Rightarrow> Inl (NotFound (Moderation Account_unavailable))
      | Some u \<Rightarrow>
          if su_status u = DELETED then Inl (NotFound (Moderation Account_unavailable))
          else require (can_moderate_account (mx_actor ctx) (mx_role ctx) subject (su_role u)
                 (Some (su_status u)) (is_assigned st subject))
                 (Forbidden (Moderation More_privileged_staff_must_review)))"

text \<open>
  The text of a decision: \<open>String.trim\<close> drops white space at both ends; a code unit above 255 that
  counts as white space does not occur in the 8-bit characters of a HOL string.
\<close>

definition js_space :: "char \<Rightarrow> bool" where
  "js_space c \<longleftrightarrow> of_char c \<in> {9, 10, 11, 12, 13, 32, 160 :: nat}"

definition js_trim :: "string \<Rightarrow> string" where
  "js_trim s = rev (dropWhile js_space (rev (dropWhile js_space s)))"

definition decision_reason :: "string \<Rightarrow> string result" where
  "decision_reason value =
     (let text = js_trim value in
      if length text < 3 \<or> 1000 < length text then Inl (BadRequest (Moderation Give_a_reason)) else Inr text)"

section \<open>Durations\<close>

definition duration_presets :: "int list" where
  "duration_presets = [1, 3, 7, 30]"

definition max_sanction_days :: int where
  "max_sanction_days = 30"

definition sanction_expiry :: "sanction_type \<Rightarrow> int option \<Rightarrow> bool \<Rightarrow> time \<Rightarrow> time option result" where
  "sanction_expiry type days admin now =
     (if type = WARNING then
        (if days \<noteq> None then Inl (BadRequest (Moderation Duration_not_allowed)) else Inr None)
      else case days of
        None \<Rightarrow> Inl (BadRequest (Moderation Duration_not_allowed))
      | Some d \<Rightarrow>
          if d = 0 \<or> d < 1 \<or> max_sanction_days < d \<or> \<not> admin \<and> d \<notin> set duration_presets
          then Inl (BadRequest (Moderation Duration_not_allowed))
          else Inr (Some (now + d * 86400000)))"

section \<open>Content and its counters\<close>

record content_target =
  ct_author :: user_id
  ct_status :: content_status
  ct_deletedAt :: "time option"
  ct_gameId :: "string option"
  ct_title :: "string option"
  ct_content :: string
  ct_post :: string

definition find_target :: "content_kind \<Rightarrow> string \<Rightarrow> moderation \<Rightarrow> content_target option" where
  "find_target kind i s =
     (case kind of
        Post_content \<Rightarrow> map_option (\<lambda>p. \<lparr>ct_author = po_author p, ct_status = po_status p,
          ct_deletedAt = po_deletedAt p, ct_gameId = po_gameId p, ct_title = Some (po_title p),
          ct_content = po_content p, ct_post = i\<rparr>) (map_of (mo_posts s) i)
      | Comment_content \<Rightarrow> Option.bind (map_of (mo_comments s) i) (\<lambda>c.
          map_option (\<lambda>p. \<lparr>ct_author = cm_author c, ct_status = cm_status c,
            ct_deletedAt = cm_deletedAt c, ct_gameId = po_gameId p, ct_title = None,
            ct_content = cm_content c, ct_post = cm_post c\<rparr>) (map_of (mo_posts s) (cm_post c))))"

definition restricts :: "content_kind \<Rightarrow> string \<Rightarrow> content_enforcement \<Rightarrow> bool" where
  "restricts kind i e \<longleftrightarrow> en_targetType e = kind \<and> en_targetId e = i \<and> en_revokedAt e = None"

definition restrictions :: "content_kind \<Rightarrow> string \<Rightarrow> moderation \<Rightarrow> content_enforcement list" where
  "restrictions kind i s = filter (restricts kind i) (mo_enforcements s)"

text \<open>
  The trigger \<open>enforce_moderation_visibility\<close>, which runs before every write of a status or of
  \<open>deletedAt\<close>: whether it lets the new values through.
\<close>

definition visibility_trigger ::
    "content_kind \<Rightarrow> string \<Rightarrow> content_status \<times> time option \<Rightarrow> content_status \<times> time option \<Rightarrow> moderation \<Rightarrow> bool" where
  "visibility_trigger kind i old new s \<longleftrightarrow>
     \<not> ((snd old \<noteq> None \<or> fst old = Deleted) \<and> (snd new = None \<or> fst new \<noteq> Deleted))
     \<and> \<not> (fst new \<notin> {Hidden, Deleted} \<and> restrictions kind i s \<noteq> [])"

definition write_post_status :: "string \<Rightarrow> content_status \<times> time option \<Rightarrow> unit moderation_tx" where
  "write_post_status i new s =
     (case map_of (mo_posts s) i of
        None \<Rightarrow> Inl (ServerError Record_not_found)
      | Some p \<Rightarrow>
          if visibility_trigger Post_content i (po_status p, po_deletedAt p) new s
          then Inr (s\<lparr>mo_posts := AList.update i (p\<lparr>po_status := fst new, po_deletedAt := snd new\<rparr>) (mo_posts s)\<rparr>, ())
          else Inl (ServerError Check_violation))"

definition write_comment_status :: "string \<Rightarrow> content_status \<times> time option \<Rightarrow> unit moderation_tx" where
  "write_comment_status i new s =
     (case map_of (mo_comments s) i of
        None \<Rightarrow> Inl (ServerError Record_not_found)
      | Some c \<Rightarrow>
          if visibility_trigger Comment_content i (cm_status c, cm_deletedAt c) new s
          then Inr (s\<lparr>mo_comments := AList.update i (c\<lparr>cm_status := fst new, cm_deletedAt := snd new\<rparr>) (mo_comments s)\<rparr>, ())
          else Inl (ServerError Check_violation))"

definition add_to_post_count :: "string \<Rightarrow> int \<Rightarrow> unit moderation_tx" where
  "add_to_post_count g d s =
     (case map_of (mo_postCounts s) g of
        None \<Rightarrow> Inl (ServerError Record_not_found)
      | Some n \<Rightarrow> Inr (s\<lparr>mo_postCounts := AList.update g (n + d) (mo_postCounts s)\<rparr>, ()))"

definition add_to_comment_count :: "string \<Rightarrow> int \<Rightarrow> unit moderation_tx" where
  "add_to_comment_count i d s =
     (case map_of (mo_posts s) i of
        None \<Rightarrow> Inl (ServerError Record_not_found)
      | Some p \<Rightarrow> Inr (s\<lparr>mo_posts := AList.update i (p\<lparr>po_commentCount := po_commentCount p + d\<rparr>) (mo_posts s)\<rparr>, ()))"

definition status_delta :: "content_status \<Rightarrow> content_status \<Rightarrow> int" where
  "status_delta from to = (if to = Published then 1 else if from = Published then -1 else 0)"

text \<open>\<open>transitionStatus\<close> of both repositories: whether the row was still where the caller saw it.\<close>

definition transition_post :: "string \<Rightarrow> string option \<Rightarrow> content_status \<Rightarrow> content_status \<Rightarrow> bool moderation_tx" where
  "transition_post i game from to =
     tx_bind (tx_gets (\<lambda>s. map_of (mo_posts s) i)) (\<lambda>found.
     case found of
       None \<Rightarrow> tx_return False
     | Some p \<Rightarrow>
         if \<not> (po_gameId p = game \<and> po_status p = from) then tx_return False
         else
         tx_bind (write_post_status i (to, po_deletedAt p)) (\<lambda>_.
         tx_bind (case game of
             None \<Rightarrow> tx_return ()
           | Some g \<Rightarrow> tx_when (status_delta from to \<noteq> 0) (add_to_post_count g (status_delta from to))) (\<lambda>_.
         tx_return True)))"

definition transition_comment :: "string \<Rightarrow> string \<Rightarrow> content_status \<Rightarrow> content_status \<Rightarrow> bool moderation_tx" where
  "transition_comment i post from to =
     tx_bind (tx_gets (\<lambda>s. map_of (mo_comments s) i)) (\<lambda>found.
     case found of
       None \<Rightarrow> tx_return False
     | Some c \<Rightarrow>
         if cm_status c \<noteq> from then tx_return False
         else
         tx_bind (write_comment_status i (to, cm_deletedAt c)) (\<lambda>_.
         tx_bind (tx_when (status_delta from to \<noteq> 0) (add_to_comment_count post (status_delta from to))) (\<lambda>_.
         tx_return True)))"

definition in_economy :: "'a economy_tx \<Rightarrow> 'a moderation_tx" where
  "in_economy m s =
     (case m (mo_economy s) of Inl e \<Rightarrow> Inl e | Inr (ec, x) \<Rightarrow> Inr (s\<lparr>mo_economy := ec\<rparr>, x))"

section \<open>Audit and notices\<close>

definition audit :: "time \<Rightarrow> user_id option \<Rightarrow> decision \<Rightarrow> entity \<Rightarrow> string \<Rightarrow> unit moderation_tx" where
  "audit now actor action entity reason =
     tx_modify (\<lambda>s. s\<lparr>mo_audits := mo_audits s @ [\<lparr>da_actor = actor, da_action = action,
       da_entity = entity, da_reason = reason, da_createdAt = now\<rparr>]\<rparr>)"

definition send_notice :: "user_id \<Rightarrow> user_id option \<Rightarrow> entity \<Rightarrow> unit moderation_tx" where
  "send_notice recipient actor entity =
     tx_modify (\<lambda>s. s\<lparr>mo_notices := mo_notices s @ [\<lparr>nt_recipient = recipient, nt_actor = actor,
       nt_entity = entity\<rparr>]\<rparr>)"

definition has_adjusted :: "user_id \<Rightarrow> nat \<Rightarrow> moderation \<Rightarrow> bool" where
  "has_adjusted actor i s \<longleftrightarrow> (\<exists>a \<in> set (mo_audits s). da_actor a = Some actor
     \<and> da_action a = SANCTION_ADJUSTED \<and> da_entity a = Sanction_row i)"

text \<open>\<open>caseTarget\<close>: the case, its content, and the community both are in.\<close>

definition case_target :: "string \<Rightarrow> mod_context \<Rightarrow> (moderation_case \<times> content_target) moderation_tx" where
  "case_target case_id ctx =
     tx_bind (tx_gets (\<lambda>s. map_of (mo_cases s) case_id)) (\<lambda>found.
     case found of
       None \<Rightarrow> tx_fail (NotFound (Moderation Case_unavailable))
     | Some item \<Rightarrow>
         if mx_scope ctx = COMMUNITY \<and> mc_gameId item \<noteq> mx_gameId ctx
         then tx_fail (NotFound (Moderation Case_unavailable))
         else
         tx_bind (tx_gets (find_target (mc_targetType item) (mc_targetId item))) (\<lambda>target.
         case target of
           None \<Rightarrow> tx_fail (NotFound (Moderation Content_unavailable))
         | Some t \<Rightarrow>
             if mc_gameId item \<noteq> ct_gameId t then tx_fail (Conflict (Moderation Case_scope_no_longer_matches))
             else tx_return (item, t)))"

definition release_moderator_cases :: "user_id \<Rightarrow> (string option \<Rightarrow> bool) \<Rightarrow> unit moderation_tx" where
  "release_moderator_cases u in_games =
     tx_modify (\<lambda>s. s\<lparr>mo_cases := map (\<lambda>(i, c).
       (i, if in_games (mc_gameId c) \<and> mc_assigned c = Some u
              \<and> mc_status c \<in> {Case_open, Case_in_review}
           then c\<lparr>mc_assigned := None, mc_status := Case_open\<rparr> else c)) (mo_cases s)\<rparr>)"

end
