(* ===== verification/Moderation_Service.thy ===== *)
theory Moderation_Service
  imports Moderation_State
begin

text \<open>
  \<open>moderation-enforcement/enforcement.service.ts\<close>, one definition per request and per private step; the
  expiry sweep and the access check of the same directory; and the requests by which an author
  creates, changes and deletes what moderation acts on. A request reads the clock several times within
  one transaction; the model reads it once. Hashes are the argument \<open>dg\<close>; the order in which awards are
  taken back is the argument \<open>le\<close>.
\<close>

record digests =
  dg_incident :: "content_kind \<times> string \<times> string option \<times> string \<Rightarrow> string"
  dg_request :: "user_id \<times> string \<times> enforcement_scope \<times> string option \<times> sanction_type \<times> int option
    \<times> string \<times> nat option \<times> nat option \<Rightarrow> string"

type_synonym award_order = "ledger_entry \<Rightarrow> ledger_entry \<Rightarrow> bool"

section \<open>Hiding and restoring content\<close>

definition create_enforcement :: "(nat \<Rightarrow> content_enforcement) \<Rightarrow> content_enforcement moderation_tx" where
  "create_enforcement mk s =
     (let e = mk (length (mo_enforcements s)) in
      if en_scope e = COMMUNITY \<and> en_gameId e = None then Inl (ServerError Check_violation)
      else if \<exists>f \<in> set (mo_enforcements s). restricts (en_targetType e) (en_targetId e) f
        \<and> en_revokedAt e = None \<and> en_scope f = en_scope e then Inl (ServerError Unique_violation)
      else Inr (s\<lparr>mo_enforcements := mo_enforcements s @ [e]\<rparr>, e))"

definition revoke_enforcement :: "time \<Rightarrow> nat \<Rightarrow> unit moderation_tx" where
  "revoke_enforcement now i =
     tx_modify (\<lambda>s. s\<lparr>mo_enforcements := on_id en_id i (\<lambda>e. e\<lparr>en_revokedAt := Some now\<rparr>) (mo_enforcements s)\<rparr>)"

definition hide_content ::
    "time \<Rightarrow> mod_context \<Rightarrow> content_kind \<Rightarrow> string \<Rightarrow> content_target \<Rightarrow> string \<Rightarrow> string option
      \<Rightarrow> content_enforcement list \<Rightarrow> unit moderation_tx" where
  "hide_content now ctx kind i target reason case_id active =
     tx_bind (tx_require (ct_status target \<in> {Published, Hidden})
       (BadRequest (Moderation Only_published_or_hidden_is_eligible))) (\<lambda>_.
     tx_when (\<not> (\<exists>e \<in> set active. en_scope e = mx_scope ctx))
       (tx_bind (create_enforcement (\<lambda>n. \<lparr>en_id = n, en_targetType = kind, en_targetId = i,
          en_subject = ct_author target, en_actor = mx_actor ctx, en_scope = mx_scope ctx,
          en_gameId = ct_gameId target, en_caseId = case_id, en_reason = reason, en_createdAt = now,
          en_revokedAt = None\<rparr>)) (\<lambda>record.
        tx_bind (audit now (Some (mx_actor ctx)) CONTENT_HIDDEN (Enforcement_row (en_id record)) reason) (\<lambda>_.
        tx_when (active = [] \<and> ct_status target \<noteq> Hidden)
          (send_notice (ct_author target) (Some (mx_actor ctx)) (Enforcement_row (en_id record)))))))"

definition restore_enforcement :: "time \<Rightarrow> mod_context \<Rightarrow> string \<Rightarrow> content_enforcement \<Rightarrow> unit moderation_tx" where
  "restore_enforcement now ctx reason e =
     tx_bind (revoke_enforcement now (en_id e)) (\<lambda>_.
     audit now (Some (mx_actor ctx)) CONTENT_RESTORED (Enforcement_row (en_id e)) reason)"

definition show_content ::
    "time \<Rightarrow> mod_context \<Rightarrow> content_target \<Rightarrow> string \<Rightarrow> content_enforcement list \<Rightarrow> unit moderation_tx" where
  "show_content now ctx target reason active =
     tx_bind (tx_require (\<not> ((\<exists>e \<in> set active. en_scope e = PLATFORM) \<and> mx_scope ctx \<noteq> PLATFORM))
       (Forbidden (Moderation Platform_staff_must_review))) (\<lambda>_.
     tx_bind (tx_map (restore_enforcement now ctx reason) active) (\<lambda>_.
     tx_bind (tx_when (active \<noteq> [] \<and> ct_status target = Hidden)
       (send_notice (ct_author target) (Some (mx_actor ctx)) (Enforcement_row (en_id (hd active))))) (\<lambda>_.
     tx_require (\<not> (active = [] \<and> ct_status target = Hidden)) (Conflict (Moderation Legacy_restriction)))))"

fun economy_source_of :: "content_kind \<Rightarrow> economy_source" where
  "economy_source_of Post_content = POST_SOURCE"
| "economy_source_of Comment_content = COMMENT_SOURCE"

definition transition :: "content_kind \<Rightarrow> string \<Rightarrow> content_target \<Rightarrow> content_status \<Rightarrow> bool moderation_tx" where
  "transition kind i target to =
     (case kind of
        Post_content \<Rightarrow> transition_post i (ct_gameId target) (ct_status target) to
      | Comment_content \<Rightarrow> transition_comment i (ct_post target) (ct_status target) to)"

definition move_content ::
    "award_order \<Rightarrow> time \<Rightarrow> content_kind \<Rightarrow> string \<Rightarrow> content_target \<Rightarrow> bool \<Rightarrow> unit moderation_tx" where
  "move_content le now kind i target hidden =
     (let to = (if hidden then Hidden else Published) in
      tx_when (ct_status target \<noteq> to)
        (tx_bind (transition kind i target to) (\<lambda>changed.
         tx_bind (tx_require changed (Conflict (Moderation Content_changed_during_review))) (\<lambda>_.
         in_economy (if hidden then revoke_for_content le now (economy_source_of kind) i
           else restore_for_content le now (economy_source_of kind) i)))))"

definition case_matches :: "string option \<Rightarrow> content_kind \<Rightarrow> string \<Rightarrow> string option \<Rightarrow> moderation \<Rightarrow> bool" where
  "case_matches case_id kind i game s =
     (case case_id of
        None \<Rightarrow> True
      | Some c \<Rightarrow> (case map_of (mo_cases s) c of
            None \<Rightarrow> False
          | Some item \<Rightarrow> mc_targetType item = kind \<and> mc_targetId item = i \<and> mc_gameId item = game))"

definition content_in_transaction ::
    "award_order \<Rightarrow> time \<Rightarrow> mod_context \<Rightarrow> content_kind \<Rightarrow> string \<Rightarrow> bool \<Rightarrow> string \<Rightarrow> string option
      \<Rightarrow> content_status moderation_tx" where
  "content_in_transaction le now ctx kind i hidden reason case_id =
     tx_bind (tx_gets (find_target kind i)) (\<lambda>found.
     case found of
       None \<Rightarrow> tx_fail (NotFound (Moderation Deleted_content_cannot_be_moderated))
     | Some target \<Rightarrow>
         if ct_deletedAt target \<noteq> None \<or> ct_status target = Deleted
         then tx_fail (NotFound (Moderation Deleted_content_cannot_be_moderated))
         else if mx_scope ctx = COMMUNITY \<and> ct_gameId target \<noteq> mx_gameId ctx
         then tx_fail (NotFound (Moderation Content_unavailable))
         else
         tx_bind (tx_gets (case_matches case_id kind i (ct_gameId target))) (\<lambda>matches.
         tx_bind (tx_require matches (BadRequest (Moderation Case_does_not_match_the_target))) (\<lambda>_.
         tx_bind (tx_gets (restrictions kind i)) (\<lambda>active.
         tx_bind (if hidden then hide_content now ctx kind i target reason case_id active
                  else show_content now ctx target reason active) (\<lambda>_.
         tx_bind (move_content le now kind i target hidden) (\<lambda>_.
         tx_return (if hidden then Hidden else Published)))))))"

definition content_decision ::
    "award_order \<Rightarrow> staff \<Rightarrow> time \<Rightarrow> user_id \<Rightarrow> content_kind \<Rightarrow> string \<Rightarrow> bool \<Rightarrow> string \<Rightarrow> string option
      \<Rightarrow> string option \<Rightarrow> content_status moderation_tx" where
  "content_decision le st now actor kind i hidden reason slug case_id =
     tx_bind (tx_result (decision_reason reason)) (\<lambda>text.
     tx_bind (moderation_context st now actor slug) (\<lambda>ctx.
     content_in_transaction le now ctx kind i hidden text case_id))"

definition content_for_case ::
    "award_order \<Rightarrow> staff \<Rightarrow> time \<Rightarrow> user_id \<Rightarrow> string \<Rightarrow> bool \<Rightarrow> string \<Rightarrow> string option
      \<Rightarrow> content_status moderation_tx" where
  "content_for_case le st now actor case_id hidden reason slug =
     tx_bind (tx_result (decision_reason reason)) (\<lambda>text.
     tx_bind (moderation_context st now actor slug) (\<lambda>ctx.
     tx_bind (case_target case_id ctx) (\<lambda>found.
     content_in_transaction le now ctx (mc_targetType (fst found)) (mc_targetId (fst found)) hidden text
       (Some case_id))))"

section \<open>Violations\<close>

record confirm_dto =
  cf_reason :: string
  cf_category :: report_reason
  cf_severity :: violation_severity

definition scope_check :: "enforcement_scope \<Rightarrow> string option \<Rightarrow> bool" where
  "scope_check scope game \<longleftrightarrow> (scope = PLATFORM \<and> game = None) \<or> (scope = COMMUNITY \<and> game \<noteq> None)"

definition create_violation :: "(nat \<Rightarrow> violation) \<Rightarrow> violation moderation_tx" where
  "create_violation mk s =
     (let v = mk (length (mo_violations s)) in
      if \<not> scope_check (vi_scope v) (vi_gameId v) then Inl (ServerError Check_violation)
      else if \<exists>w \<in> set (mo_violations s). vi_reversedAt w = None
        \<and> (vi_caseId w = vi_caseId v \<or> vi_incidentKey w = vi_incidentKey v) then Inl (ServerError Unique_violation)
      else Inr (s\<lparr>mo_violations := mo_violations s @ [v]\<rparr>, v))"

definition confirm :: "digests \<Rightarrow> staff \<Rightarrow> time \<Rightarrow> user_id \<Rightarrow> string \<Rightarrow> confirm_dto \<Rightarrow> string option \<Rightarrow> violation moderation_tx" where
  "confirm dg st now actor case_id dto slug =
     tx_bind (tx_result (decision_reason (cf_reason dto))) (\<lambda>reason.
     tx_bind (moderation_context st now actor slug) (\<lambda>ctx.
     tx_bind (case_target case_id ctx) (\<lambda>(item, target).
     tx_bind (tx_result (check_subject st ctx (ct_author target))) (\<lambda>_.
     tx_bind (tx_require (mc_status item \<in> {Case_open, Case_in_review})
       (Conflict (Moderation Only_an_active_case_can_establish))) (\<lambda>_.
     let key = dg_incident dg (mc_targetType item, mc_targetId item, ct_title target, ct_content target) in
     tx_bind (tx_gets (\<lambda>s. find (\<lambda>v. vi_reversedAt v = None \<and> (vi_caseId v = case_id \<or> vi_incidentKey v = key))
       (mo_violations s))) (\<lambda>existing.
     case existing of
       Some v \<Rightarrow>
         if vi_caseId v = case_id \<and> vi_category v = cf_category dto \<and> vi_severity v = cf_severity dto
           \<and> vi_reason v = reason
         then tx_return v else tx_fail (Conflict (Moderation Incident_already_has_a_finding))
     | None \<Rightarrow>
         tx_bind (create_violation (\<lambda>n. \<lparr>vi_id = n, vi_caseId = case_id, vi_incidentKey = key,
           vi_subject = ct_author target, vi_actor = actor, vi_scope = mx_scope ctx,
           vi_gameId = mx_gameId ctx, vi_category = cf_category dto, vi_severity = cf_severity dto,
           vi_reason = reason, vi_createdAt = now, vi_reversedAt = None\<rparr>)) (\<lambda>v.
         tx_bind (audit now (Some actor) VIOLATION_CONFIRMED (Violation_row (vi_id v)) reason) (\<lambda>_.
         tx_return v))))))))"

section \<open>Sanctions\<close>

record sanction_dto =
  sd_type :: sanction_type
  sd_requestKey :: string
  sd_durationDays :: "int option"
  sd_violationId :: "nat option"
  sd_enforcementId :: "nat option"
  sd_reason :: string

definition day_length :: int where
  "day_length = 86400000"

text \<open>The CHECK constraints of \<open>moderation_sanctions\<close>.\<close>

definition sanction_checks :: "sanction \<Rightarrow> bool" where
  "sanction_checks x \<longleftrightarrow>
     scope_check (sa_scope x) (sa_gameId x)
     \<and> (sa_type x = WARNING \<or> (sa_scope x = COMMUNITY \<and> sa_type x \<in> {COMMUNITY_RESTRICTION, COMMUNITY_BAN})
        \<or> (sa_scope x = PLATFORM \<and> sa_type x = PLATFORM_SUSPENSION))
     \<and> (case sa_expiresAt x of
          None \<Rightarrow> sa_type x = WARNING
        | Some e \<Rightarrow> sa_type x \<noteq> WARNING \<and> sa_startsAt x + day_length \<le> e \<and> e \<le> sa_startsAt x + 30 * day_length)
     \<and> (sa_status x = Sanction_revoked \<longleftrightarrow> sa_revokedAt x \<noteq> None)"

definition create_sanction :: "(nat \<Rightarrow> sanction) \<Rightarrow> sanction moderation_tx" where
  "create_sanction mk s =
     (let x = mk (length (mo_sanctions s)) in
      if \<not> sanction_checks x then Inl (ServerError Check_violation)
      else if sa_requestKey x \<in> sa_requestKey ` set (mo_sanctions s) then Inl (ServerError Unique_violation)
      else Inr (s\<lparr>mo_sanctions := mo_sanctions s @ [x]\<rparr>, x))"

definition update_sanction :: "nat \<Rightarrow> (sanction \<Rightarrow> sanction) \<Rightarrow> unit moderation_tx" where
  "update_sanction i f s =
     (case find_row sa_id i (mo_sanctions s) of
        None \<Rightarrow> Inl (ServerError Record_not_found)
      | Some x \<Rightarrow> if sanction_checks (f x) then Inr (s\<lparr>mo_sanctions := on_id sa_id i f (mo_sanctions s)\<rparr>, ())
                  else Inl (ServerError Check_violation))"

definition is_community_type :: "sanction_type \<Rightarrow> bool" where
  "is_community_type t \<longleftrightarrow> t \<in> {COMMUNITY_RESTRICTION, COMMUNITY_BAN}"

definition matching_violation :: "nat option \<Rightarrow> string \<Rightarrow> user_id \<Rightarrow> mod_context \<Rightarrow> moderation \<Rightarrow> bool" where
  "matching_violation vid case_id subject ctx s =
     (case vid of
        None \<Rightarrow> True
      | Some i \<Rightarrow> (case find_row vi_id i (mo_violations s) of
            None \<Rightarrow> False
          | Some v \<Rightarrow> vi_caseId v = case_id \<and> vi_subject v = subject \<and> vi_reversedAt v = None
              \<and> vi_scope v = mx_scope ctx \<and> vi_gameId v = mx_gameId ctx))"

definition matching_enforcement :: "nat option \<Rightarrow> string \<Rightarrow> user_id \<Rightarrow> mod_context \<Rightarrow> moderation \<Rightarrow> bool" where
  "matching_enforcement eid case_id subject ctx s =
     (case eid of
        None \<Rightarrow> True
      | Some i \<Rightarrow> (case find_row en_id i (mo_enforcements s) of
            None \<Rightarrow> False
          | Some e \<Rightarrow> en_caseId e = Some case_id \<and> en_subject e = subject \<and> en_revokedAt e = None
              \<and> en_scope e = mx_scope ctx))"

definition effective_like :: "time \<Rightarrow> user_id \<Rightarrow> sanction_type \<Rightarrow> mod_context \<Rightarrow> sanction \<Rightarrow> bool" where
  "effective_like now subject type ctx x \<longleftrightarrow> sa_subject x = subject \<and> sa_type x = type
     \<and> sa_scope x = mx_scope ctx \<and> sa_gameId x = mx_gameId ctx \<and> sa_status x = Sanction_active \<and> unexpired now x"

definition issue_sanction ::
    "time \<Rightarrow> mod_context \<Rightarrow> string \<Rightarrow> content_target \<Rightarrow> sanction_dto \<Rightarrow> string \<Rightarrow> time option \<Rightarrow> string \<Rightarrow> sanction moderation_tx" where
  "issue_sanction now ctx case_id target dto reason expires_at hash =
     tx_bind (tx_gets (\<lambda>s. filter (effective_like now (ct_author target) (sd_type dto) ctx) (mo_sanctions s))) (\<lambda>same.
     tx_bind (tx_require (sd_type dto = WARNING \<or> same = [])
       (Conflict (Moderation Effective_sanction_already_exists))) (\<lambda>_.
     tx_bind (tx_gets (matching_violation (sd_violationId dto) case_id (ct_author target) ctx)) (\<lambda>violation_ok.
     tx_bind (tx_require violation_ok (BadRequest (Moderation Choose_an_effective_violation))) (\<lambda>_.
     tx_bind (tx_gets (matching_enforcement (sd_enforcementId dto) case_id (ct_author target) ctx)) (\<lambda>enforcement_ok.
     tx_bind (tx_require enforcement_ok (BadRequest (Moderation Choose_an_active_restriction))) (\<lambda>_.
     tx_bind (create_sanction (\<lambda>n. \<lparr>sa_id = n, sa_subject = ct_author target, sa_actor = mx_actor ctx,
       sa_type = sd_type dto, sa_scope = mx_scope ctx, sa_gameId = mx_gameId ctx, sa_caseId = case_id,
       sa_violationId = sd_violationId dto, sa_enforcementId = sd_enforcementId dto, sa_reason = reason,
       sa_startsAt = now, sa_expiresAt = expires_at, sa_status = Sanction_active, sa_revokedAt = None,
       sa_requestKey = (mx_actor ctx, sd_requestKey dto), sa_requestHash = hash\<rparr>)) (\<lambda>x.
     tx_bind (tx_when (sd_type dto \<noteq> WARNING) (release_moderator_cases (ct_author target)
       (\<lambda>g. mx_scope ctx = COMMUNITY \<longrightarrow> g = mx_gameId ctx))) (\<lambda>_.
     tx_bind (audit now (Some (mx_actor ctx)) SANCTION_ISSUED (Sanction_row (sa_id x)) reason) (\<lambda>_.
     tx_bind (send_notice (ct_author target) (Some (mx_actor ctx)) (Sanction_row (sa_id x))) (\<lambda>_.
     tx_return x))))))))))"

definition sanction_request ::
    "digests \<Rightarrow> staff \<Rightarrow> time \<Rightarrow> user_id \<Rightarrow> string \<Rightarrow> sanction_dto \<Rightarrow> string option \<Rightarrow> sanction moderation_tx" where
  "sanction_request dg st now actor case_id dto slug =
     tx_bind (tx_result (decision_reason (sd_reason dto))) (\<lambda>reason.
     tx_bind (moderation_context st now actor slug) (\<lambda>ctx.
     tx_bind (case_target case_id ctx) (\<lambda>(item, target).
     tx_bind (tx_result (check_subject st ctx (ct_author target))) (\<lambda>_.
     tx_bind (tx_require (\<not> (is_community_type (sd_type dto) \<and> mx_scope ctx \<noteq> COMMUNITY
         \<or> \<not> is_community_type (sd_type dto) \<and> sd_type dto \<noteq> WARNING \<and> mx_scope ctx \<noteq> PLATFORM))
       (Forbidden (Moderation Choose_the_matching_workspace))) (\<lambda>_.
     tx_bind (tx_result (sanction_expiry (sd_type dto) (sd_durationDays dto) (mx_role ctx = Admin_role) now)) (\<lambda>expires_at.
     let hash = dg_request dg (actor, case_id, mx_scope ctx, mx_gameId ctx, sd_type dto, sd_durationDays dto,
           reason, sd_violationId dto, sd_enforcementId dto) in
     tx_bind (tx_gets (\<lambda>s. find (\<lambda>x. sa_requestKey x = (actor, sd_requestKey dto)) (mo_sanctions s))) (\<lambda>existing.
     case existing of
       Some x \<Rightarrow> if sa_requestHash x \<noteq> hash then tx_fail (Conflict (Moderation Request_key_already_used)) else tx_return x
     | None \<Rightarrow> issue_sanction now ctx case_id target dto reason expires_at hash)))))))"

definition scoped_sanction ::
    "staff \<Rightarrow> time \<Rightarrow> user_id \<Rightarrow> nat \<Rightarrow> string option \<Rightarrow> (mod_context \<times> sanction) moderation_tx" where
  "scoped_sanction st now actor i slug =
     tx_bind (moderation_context st now actor slug) (\<lambda>ctx.
     tx_bind (tx_gets (\<lambda>s. find_row sa_id i (mo_sanctions s))) (\<lambda>found.
     case found of
       None \<Rightarrow> tx_fail (NotFound (Moderation Sanction_unavailable))
     | Some x \<Rightarrow>
         if mx_scope ctx = COMMUNITY \<and> (sa_scope x \<noteq> COMMUNITY \<or> sa_gameId x \<noteq> mx_gameId ctx)
         then tx_fail (NotFound (Moderation Sanction_unavailable))
         else
         tx_bind (tx_result (check_subject st ctx (sa_subject x))) (\<lambda>_.
         tx_return (ctx, x))))"

definition expire_sanction :: "time \<Rightarrow> user_id option \<Rightarrow> sanction \<Rightarrow> unit moderation_tx" where
  "expire_sanction now actor x =
     tx_bind (update_sanction (sa_id x) (\<lambda>r. r\<lparr>sa_status := Sanction_expired\<rparr>)) (\<lambda>_.
     tx_bind (audit now actor SANCTION_EXPIRED (Sanction_row (sa_id x)) ''The scheduled restriction ended'') (\<lambda>_.
     send_notice (sa_subject x) actor (Sanction_row (sa_id x))))"

definition revoke_tx :: "time \<Rightarrow> user_id \<Rightarrow> string \<Rightarrow> sanction \<Rightarrow> unit moderation_tx" where
  "revoke_tx now actor reason x =
     (if sa_status x = Sanction_revoked \<or> sa_status x = Sanction_expired then tx_return ()
      else if (case sa_expiresAt x of None \<Rightarrow> False | Some e \<Rightarrow> e \<le> now) then expire_sanction now (Some actor) x
      else
      tx_bind (update_sanction (sa_id x) (\<lambda>r. r\<lparr>sa_status := Sanction_revoked, sa_revokedAt := Some now\<rparr>)) (\<lambda>_.
      tx_bind (audit now (Some actor) SANCTION_REVOKED (Sanction_row (sa_id x)) reason) (\<lambda>_.
      send_notice (sa_subject x) (Some actor) (Sanction_row (sa_id x)))))"

definition revoke_sanction ::
    "staff \<Rightarrow> time \<Rightarrow> user_id \<Rightarrow> nat \<Rightarrow> string \<Rightarrow> string option \<Rightarrow> sanction_status moderation_tx" where
  "revoke_sanction st now actor i reason slug =
     tx_bind (tx_result (decision_reason reason)) (\<lambda>text.
     tx_bind (scoped_sanction st now actor i slug) (\<lambda>(ctx, x).
     if sa_status x = Sanction_revoked then tx_return Sanction_revoked
     else if sa_status x = Sanction_expired \<or> (case sa_expiresAt x of None \<Rightarrow> False | Some e \<Rightarrow> e \<le> now)
     then tx_fail (Conflict (Moderation Expired_restrictions_remain))
     else tx_bind (revoke_tx now actor text x) (\<lambda>_. tx_return Sanction_revoked)))"

definition adjust_sanction ::
    "staff \<Rightarrow> time \<Rightarrow> user_id \<Rightarrow> nat \<Rightarrow> int \<Rightarrow> string \<Rightarrow> string option \<Rightarrow> time moderation_tx" where
  "adjust_sanction st now actor i days reason slug =
     tx_bind (tx_result (decision_reason reason)) (\<lambda>text.
     tx_bind (scoped_sanction st now actor i slug) (\<lambda>(ctx, x).
     tx_bind (tx_require (sa_status x = Sanction_active \<and> unexpired now x)
       (Conflict (Moderation Only_effective_sanctions_can_be_adjusted))) (\<lambda>_.
     tx_bind (tx_result (sanction_expiry (sa_type x) (Some days) (mx_role ctx = Admin_role) (sa_startsAt x))) (\<lambda>expires_at.
     case expires_at of
       None \<Rightarrow> tx_fail (BadRequest (Moderation Adjusted_end_must_be_in_the_future))
     | Some e \<Rightarrow>
         if e \<le> now then tx_fail (BadRequest (Moderation Adjusted_end_must_be_in_the_future))
         else
         tx_bind (update_sanction i (\<lambda>r. r\<lparr>sa_expiresAt := Some e\<rparr>)) (\<lambda>_.
         tx_bind (audit now (Some actor) SANCTION_ADJUSTED (Sanction_row i) text) (\<lambda>_.
         tx_bind (send_notice (sa_subject x) (Some actor) (Sanction_row i)) (\<lambda>_.
         tx_return e)))))))"

definition reverse_tx :: "time \<Rightarrow> user_id \<Rightarrow> nat \<Rightarrow> string \<Rightarrow> unit moderation_tx" where
  "reverse_tx now actor i reason =
     tx_bind (tx_gets (\<lambda>s. \<exists>v \<in> set (mo_violations s). vi_id v = i \<and> vi_reversedAt v = None)) (\<lambda>changed.
     tx_bind (tx_modify (\<lambda>s. s\<lparr>mo_violations := on_id vi_id i
       (\<lambda>v. if vi_reversedAt v = None then v\<lparr>vi_reversedAt := Some now\<rparr> else v) (mo_violations s)\<rparr>)) (\<lambda>_.
     tx_bind (tx_when changed (audit now (Some actor) VIOLATION_REVERSED (Violation_row i) reason)) (\<lambda>_.
     tx_bind (tx_gets (\<lambda>s. filter (\<lambda>x. sa_violationId x = Some i \<and> sa_status x \<noteq> Sanction_revoked) (mo_sanctions s))) (\<lambda>xs.
     tx_bind (tx_map (revoke_tx now actor reason) xs) (\<lambda>_. tx_return ())))))"

definition reverse_violation ::
    "staff \<Rightarrow> time \<Rightarrow> user_id \<Rightarrow> nat \<Rightarrow> string \<Rightarrow> string option \<Rightarrow> unit moderation_tx" where
  "reverse_violation st now actor i reason slug =
     tx_bind (tx_result (decision_reason reason)) (\<lambda>text.
     tx_bind (moderation_context st now actor slug) (\<lambda>ctx.
     tx_bind (tx_gets (\<lambda>s. find_row vi_id i (mo_violations s))) (\<lambda>found.
     case found of
       None \<Rightarrow> tx_fail (NotFound (Moderation Finding_unavailable))
     | Some v \<Rightarrow>
         if mx_scope ctx = COMMUNITY \<and> (vi_scope v \<noteq> mx_scope ctx \<or> vi_gameId v \<noteq> mx_gameId ctx)
         then tx_fail (NotFound (Moderation Finding_unavailable))
         else
         tx_bind (tx_result (check_subject st ctx (vi_subject v))) (\<lambda>_.
         reverse_tx now actor i text))))"

section \<open>Appeals\<close>

definition create_appeal :: "(nat \<Rightarrow> appeal) \<Rightarrow> appeal moderation_tx" where
  "create_appeal mk s =
     (let a = mk (length (mo_appeals s)) in
      if ap_sanction a \<in> ap_sanction ` set (mo_appeals s) then Inl (ServerError Unique_violation)
      else Inr (s\<lparr>mo_appeals := mo_appeals s @ [a]\<rparr>, a))"

definition submit_appeal :: "time \<Rightarrow> user_id \<Rightarrow> nat \<Rightarrow> string \<Rightarrow> appeal moderation_tx" where
  "submit_appeal now subject i statement =
     (let text = js_trim statement in
      if length text < 10 \<or> 2000 < length text then tx_fail (BadRequest (Moderation Explain_your_appeal))
      else
      tx_bind (tx_gets (\<lambda>s. find_row sa_id i (mo_sanctions s))) (\<lambda>found.
      case found of
        None \<Rightarrow> tx_fail (NotFound (Moderation Sanction_not_found))
      | Some x \<Rightarrow>
          if sa_subject x \<noteq> subject then tx_fail (NotFound (Moderation Sanction_not_found))
          else if sa_status x = Sanction_revoked then tx_fail (Conflict (Moderation Sanction_already_revoked))
          else
          tx_bind (tx_gets (\<lambda>s. find (\<lambda>a. ap_sanction a = i) (mo_appeals s))) (\<lambda>existing.
          if existing \<noteq> None then tx_fail (Conflict (Moderation Appeal_already_exists))
          else
          tx_bind (create_appeal (\<lambda>n. \<lparr>ap_id = n, ap_sanction = i, ap_statement = text,
            ap_status = Appeal_pending, ap_reviewer = None, ap_decisionReason = None, ap_reviewedAt = None\<rparr>)) (\<lambda>a.
          tx_bind (audit now (Some subject) APPEAL_SUBMITTED (Appeal_row (ap_id a))
            ''Account holder requested a review'') (\<lambda>_.
          tx_return a)))))"

record review_dto =
  rv_accepted :: bool
  rv_reverseViolation :: bool
  rv_restoreContent :: bool
  rv_reason :: string

definition restore_appealed_content ::
    "award_order \<Rightarrow> time \<Rightarrow> user_id \<Rightarrow> content_enforcement \<Rightarrow> string \<Rightarrow> unit moderation_tx" where
  "restore_appealed_content le now actor e reason =
     tx_bind (revoke_enforcement now (en_id e)) (\<lambda>_.
     tx_bind (tx_gets (restrictions (en_targetType e) (en_targetId e))) (\<lambda>remaining.
     tx_bind (tx_gets (find_target (en_targetType e) (en_targetId e))) (\<lambda>found.
     let restored = (case found of None \<Rightarrow> False
       | Some t \<Rightarrow> remaining = [] \<and> ct_deletedAt t = None \<and> ct_status t = Hidden) in
     tx_bind (tx_when restored (tx_bind (transition (en_targetType e) (en_targetId e) (the found) Published)
       (\<lambda>_. in_economy (restore_for_content le now (economy_source_of (en_targetType e)) (en_targetId e))))) (\<lambda>_.
     tx_bind (audit now (Some actor) CONTENT_APPEAL_REVERSED (Enforcement_row (en_id e)) reason) (\<lambda>_.
     send_notice (en_subject e) (Some actor) (Enforcement_row (en_id e)))))))"

definition review_consequences ::
    "award_order \<Rightarrow> time \<Rightarrow> mod_context \<Rightarrow> sanction \<Rightarrow> review_dto \<Rightarrow> string \<Rightarrow> unit moderation_tx" where
  "review_consequences le now ctx x dto reason =
     tx_bind (revoke_tx now (mx_actor ctx) reason x) (\<lambda>_.
     tx_bind (case (if rv_reverseViolation dto then sa_violationId x else None) of
         None \<Rightarrow> tx_return ()
       | Some i \<Rightarrow>
           tx_bind (tx_gets (\<lambda>s. find_row vi_id i (mo_violations s))) (\<lambda>found.
           case found of
             None \<Rightarrow> tx_fail (ServerError Record_not_found)
           | Some v \<Rightarrow>
               if mx_scope ctx = COMMUNITY \<and> (vi_scope v \<noteq> COMMUNITY \<or> vi_gameId v \<noteq> mx_gameId ctx)
               then tx_fail (Forbidden (Moderation Platform_staff_must_review))
               else reverse_tx now (mx_actor ctx) i reason)) (\<lambda>_.
     case (if rv_restoreContent dto then sa_enforcementId x else None) of
         None \<Rightarrow> tx_return ()
       | Some i \<Rightarrow>
           tx_bind (tx_gets (\<lambda>s. find_row en_id i (mo_enforcements s))) (\<lambda>found.
           case found of
             None \<Rightarrow> tx_fail (ServerError Record_not_found)
           | Some e \<Rightarrow>
               if mx_scope ctx = COMMUNITY \<and> en_scope e \<noteq> COMMUNITY
               then tx_fail (Forbidden (Moderation Platform_staff_must_review))
               else restore_appealed_content le now (mx_actor ctx) e reason)))"

definition decide_appeal :: "time \<Rightarrow> user_id \<Rightarrow> nat \<Rightarrow> bool \<Rightarrow> string \<Rightarrow> unit moderation_tx" where
  "decide_appeal now actor i accepted reason =
     tx_modify (\<lambda>s. s\<lparr>mo_appeals := on_id ap_id i (\<lambda>a. a\<lparr>
       ap_status := if accepted then Appeal_accepted else Appeal_rejected, ap_reviewer := Some actor,
       ap_decisionReason := Some reason, ap_reviewedAt := Some now\<rparr>) (mo_appeals s)\<rparr>)"

definition review_appeal ::
    "award_order \<Rightarrow> staff \<Rightarrow> time \<Rightarrow> user_id \<Rightarrow> nat \<Rightarrow> review_dto \<Rightarrow> string option \<Rightarrow> appeal_status moderation_tx" where
  "review_appeal le st now actor i dto slug =
     tx_bind (tx_result (decision_reason (rv_reason dto))) (\<lambda>reason.
     tx_bind (tx_gets (\<lambda>s. find_row ap_id i (mo_appeals s))) (\<lambda>found.
     case found of
       None \<Rightarrow> tx_fail (NotFound (Moderation Appeal_not_found))
     | Some a \<Rightarrow>
         tx_bind (scoped_sanction st now actor (ap_sanction a) slug) (\<lambda>(ctx, x).
         tx_bind (tx_gets (has_adjusted actor (sa_id x))) (\<lambda>adjusted.
         tx_bind (tx_require (rv_accepted dto \<or> \<not> (sa_actor x = actor \<or> adjusted))
           (Forbidden (Moderation Another_moderator_must_review))) (\<lambda>_.
         tx_bind (tx_require (ap_status a = Appeal_pending) (Conflict (Moderation Appeal_already_decided))) (\<lambda>_.
         tx_bind (if rv_accepted dto then review_consequences le now ctx x dto reason
                  else tx_require (\<not> (rv_reverseViolation dto \<or> rv_restoreContent dto))
                         (BadRequest (Moderation Reversals_require_acceptance))) (\<lambda>_.
         tx_bind (decide_appeal now actor i (rv_accepted dto) reason) (\<lambda>_.
         tx_bind (audit now (Some actor) (if rv_accepted dto then APPEAL_ACCEPTED else APPEAL_REJECTED)
           (Appeal_row i) reason) (\<lambda>_.
         tx_bind (send_notice (sa_subject x) (Some actor) (Appeal_row i)) (\<lambda>_.
         tx_return (if rv_accepted dto then Appeal_accepted else Appeal_rejected)))))))))))"

record appeal_item =
  ai_appeal :: appeal
  ai_sanction :: sanction
  ai_canReview :: bool
  ai_canReject :: bool

text \<open>The list of appeals a moderator sees, and what each one says the moderator may do; its pages are left out.\<close>

definition appeal_item_of :: "staff \<Rightarrow> mod_context \<Rightarrow> moderation \<Rightarrow> appeal \<Rightarrow> appeal_item list" where
  "appeal_item_of st ctx s a =
     (case find_row sa_id (ap_sanction a) (mo_sanctions s) of
        None \<Rightarrow> []
      | Some x \<Rightarrow>
          (case map_of (st_users st) (sa_subject x) of
             None \<Rightarrow> []
           | Some u \<Rightarrow>
               if mx_scope ctx = COMMUNITY \<and> \<not> (sa_scope x = COMMUNITY \<and> sa_gameId x = mx_gameId ctx) then []
               else let can_review = (ap_status a = Appeal_pending \<and> can_moderate_account (mx_actor ctx) (mx_role ctx)
                          (sa_subject x) (su_role u) (Some (su_status u)) (is_assigned st (sa_subject x)))
                    in [\<lparr>ai_appeal = a, ai_sanction = x, ai_canReview = can_review,
                         ai_canReject = (can_review \<and> sa_actor x \<noteq> mx_actor ctx
                           \<and> \<not> has_adjusted (mx_actor ctx) (ap_sanction a) s)\<rparr>]))"

definition list_appeals :: "staff \<Rightarrow> time \<Rightarrow> user_id \<Rightarrow> string option \<Rightarrow> appeal_item list moderation_tx" where
  "list_appeals st now actor slug =
     tx_bind (moderation_context st now actor slug) (\<lambda>ctx.
     tx_gets (\<lambda>s. concat (map (appeal_item_of st ctx s) (rev (mo_appeals s)))))"

section \<open>Expiry and access\<close>

definition due :: "time \<Rightarrow> sanction \<Rightarrow> bool" where
  "due now x \<longleftrightarrow> sa_status x = Sanction_active
     \<and> (case sa_expiresAt x of None \<Rightarrow> False | Some e \<Rightarrow> e \<le> now)"

definition expires_before :: "sanction \<Rightarrow> sanction \<Rightarrow> bool" where
  "expires_before x y \<longleftrightarrow> the (sa_expiresAt x) \<le> the (sa_expiresAt y)"

definition reconcile :: "time \<Rightarrow> nat moderation_tx" where
  "reconcile now =
     tx_bind (tx_gets (\<lambda>s. take 100 (sort_by expires_before (filter (due now) (mo_sanctions s))))) (\<lambda>xs.
     tx_bind (tx_map (expire_sanction now None) xs) (\<lambda>_.
     tx_return (length xs)))"

definition blocked_readers :: "time \<Rightarrow> user_id list \<Rightarrow> string option \<Rightarrow> moderation \<Rightarrow> user_id list" where
  "blocked_readers now users game s =
     (if users = [] then []
      else js_set (map sa_subject (filter (\<lambda>x. sa_subject x \<in> set users \<and> sa_status x = Sanction_active
        \<and> (sa_scope x = PLATFORM \<and> sa_type x = PLATFORM_SUSPENSION
           \<or> game \<noteq> None \<and> sa_scope x = COMMUNITY \<and> sa_gameId x = game \<and> sa_type x = COMMUNITY_BAN)
        \<and> sa_startsAt x \<le> now \<and> unexpired now x) (mo_sanctions s))))"

definition stops :: "bool \<Rightarrow> sanction_type \<Rightarrow> bool" where
  "stops is_write t \<longleftrightarrow> t \<in> {PLATFORM_SUSPENSION, COMMUNITY_BAN} \<or> is_write \<and> t = COMMUNITY_RESTRICTION"

definition assert_allowed :: "time \<Rightarrow> user_id \<Rightarrow> bool \<Rightarrow> string option \<Rightarrow> moderation \<Rightarrow> unit result" where
  "assert_allowed now u is_write game s =
     (let found = filter (\<lambda>x. sa_subject x = u \<and> sa_status x = Sanction_active \<and> sa_startsAt x \<le> now
        \<and> unexpired now x \<and> in_scope_of game x) (mo_sanctions s)
      in require (\<not> (\<exists>x \<in> set found. stops is_write (sa_type x))) (Forbidden (Moderation Account_restricted)))"

section \<open>What authors do\<close>

text \<open>
  \<open>posts.repository.ts\<close>, \<open>comments.repository.ts\<close> and the guards of their services. A service reads the
  row before its transaction (\<open>seen\<close>), and the repository reads what it counts by before it writes
  (\<open>counted\<close>), without a lock: both are arguments.
\<close>

definition create_post ::
    "string \<Rightarrow> user_id \<Rightarrow> string option \<Rightarrow> string \<Rightarrow> string \<Rightarrow> content_status \<Rightarrow> unit moderation_tx" where
  "create_post i author game title text status =
     tx_bind (tx_gets (\<lambda>s. map_of (mo_posts s) i)) (\<lambda>found.
     tx_bind (tx_require (found = None) (ServerError Unique_violation)) (\<lambda>_.
     tx_bind (tx_modify (\<lambda>s. s\<lparr>mo_posts := AList.update i \<lparr>po_author = author, po_gameId = game, po_title = title,
       po_content = text, po_status = status, po_deletedAt = None, po_commentCount = 0\<rparr> (mo_posts s)\<rparr>)) (\<lambda>_.
     case game of
       None \<Rightarrow> tx_return ()
     | Some g \<Rightarrow> tx_when (status = Published) (add_to_post_count g 1))))"

definition update_post ::
    "post option \<Rightarrow> content_status \<Rightarrow> user_id \<Rightarrow> string \<Rightarrow> string option \<Rightarrow> string option \<Rightarrow> content_status option
      \<Rightarrow> unit moderation_tx" where
  "update_post seen counted user i title text status =
     (case seen of
        None \<Rightarrow> tx_fail (NotFound (Content Post_not_found))
      | Some p \<Rightarrow>
          if po_deletedAt p \<noteq> None \<or> po_status p = Deleted then tx_fail (NotFound (Content Post_not_found))
          else if po_author p \<noteq> user then tx_fail (Forbidden (Content You_can_only_change_your_own))
          else if po_status p = Hidden then tx_fail (Forbidden (Content Hidden_by_a_moderator))
          else
          tx_bind (tx_gets (\<lambda>s. map_of (mo_posts s) i)) (\<lambda>current.
          case current of
            None \<Rightarrow> tx_fail (ServerError Record_not_found)
          | Some c \<Rightarrow>
              let updated = (case status of None \<Rightarrow> po_status c | Some x \<Rightarrow> x) in
              tx_bind (tx_when (status \<noteq> None) (write_post_status i (updated, po_deletedAt c))) (\<lambda>_.
              tx_bind (tx_modify (\<lambda>s. s\<lparr>mo_posts := AList.update i (c\<lparr>po_status := updated,
                po_title := (case title of None \<Rightarrow> po_title c | Some t \<Rightarrow> js_trim t),
                po_content := (case text of None \<Rightarrow> po_content c | Some t \<Rightarrow> js_trim t)\<rparr>) (mo_posts s)\<rparr>)) (\<lambda>_.
              case po_gameId c of
                None \<Rightarrow> tx_return ()
              | Some g \<Rightarrow> tx_when (counted \<noteq> updated \<and> status_delta counted updated \<noteq> 0)
                            (add_to_post_count g (status_delta counted updated))))))"

definition delete_post ::
    "post option \<Rightarrow> content_status \<times> time option \<Rightarrow> time \<Rightarrow> user_id \<Rightarrow> string \<Rightarrow> unit moderation_tx" where
  "delete_post seen counted now user i =
     (case seen of
        None \<Rightarrow> tx_fail (NotFound (Content Post_not_found))
      | Some p \<Rightarrow>
          if po_deletedAt p \<noteq> None \<or> po_status p = Deleted then tx_fail (NotFound (Content Post_not_found))
          else if po_author p \<noteq> user then tx_fail (Forbidden (Content You_can_only_change_your_own))
          else if snd counted \<noteq> None \<or> fst counted = Deleted then tx_return ()
          else
          tx_bind (tx_gets (\<lambda>s. map_of (mo_posts s) i)) (\<lambda>current.
          case current of
            None \<Rightarrow> tx_return ()
          | Some c \<Rightarrow>
              if po_deletedAt c \<noteq> None then tx_return ()
              else
              tx_bind (write_post_status i (Deleted, Some now)) (\<lambda>_.
              case po_gameId c of
                None \<Rightarrow> tx_return ()
              | Some g \<Rightarrow> tx_when (fst counted = Published) (add_to_post_count g (-1)))))"

definition create_comment :: "string \<Rightarrow> string \<Rightarrow> user_id \<Rightarrow> string \<Rightarrow> unit moderation_tx" where
  "create_comment i post author text =
     tx_bind (tx_gets (\<lambda>s. map_of (mo_comments s) i)) (\<lambda>found.
     tx_bind (tx_require (found = None) (ServerError Unique_violation)) (\<lambda>_.
     tx_bind (tx_modify (\<lambda>s. s\<lparr>mo_comments := AList.update i \<lparr>cm_post = post, cm_author = author,
       cm_content = text, cm_status = Published, cm_deletedAt = None\<rparr> (mo_comments s)\<rparr>)) (\<lambda>_.
     add_to_comment_count post 1)))"

definition update_comment :: "comment option \<Rightarrow> user_id \<Rightarrow> string \<Rightarrow> string \<Rightarrow> unit moderation_tx" where
  "update_comment seen user i text =
     (case seen of
        None \<Rightarrow> tx_fail (NotFound (Content Comment_not_found))
      | Some c \<Rightarrow>
          if cm_deletedAt c \<noteq> None then tx_fail (NotFound (Content Comment_not_found))
          else if cm_author c \<noteq> user then tx_fail (Forbidden (Content You_can_only_change_your_own))
          else if cm_status c = Hidden then tx_fail (Forbidden (Content Hidden_by_a_moderator))
          else
          tx_bind (tx_gets (\<lambda>s. map_of (mo_comments s) i)) (\<lambda>current.
          case current of
            None \<Rightarrow> tx_fail (ServerError Record_not_found)
          | Some r \<Rightarrow> tx_modify (\<lambda>s. s\<lparr>mo_comments := AList.update i (r\<lparr>cm_content := js_trim text\<rparr>) (mo_comments s)\<rparr>)))"

definition delete_comment :: "comment option \<Rightarrow> time \<Rightarrow> user_id \<Rightarrow> string \<Rightarrow> unit moderation_tx" where
  "delete_comment seen now user i =
     (case seen of
        None \<Rightarrow> tx_fail (NotFound (Content Comment_not_found))
      | Some c \<Rightarrow>
          if cm_deletedAt c \<noteq> None then tx_fail (NotFound (Content Comment_not_found))
          else if cm_author c \<noteq> user then tx_fail (Forbidden (Content You_can_only_change_your_own))
          else
          tx_bind (tx_gets (\<lambda>s. map_of (mo_comments s) i)) (\<lambda>current.
          case current of
            None \<Rightarrow> tx_return ()
          | Some r \<Rightarrow>
              if cm_deletedAt r \<noteq> None then tx_return ()
              else
              tx_bind (write_comment_status i (cm_status r, Some now)) (\<lambda>_.
              add_to_comment_count (cm_post c) (-1))))"

end
