(* ===== verification/Moderation_Invariant.thy ===== *)
theory Moderation_Invariant
  imports Moderation_Service
begin

text \<open>
  What every moderation and author request keeps of the content: what is restricted is not public, a
  scope restricts a target at most once (\<open>content_ok\<close>), and the counters of a community count its
  published posts (\<open>counts_ok\<close>).
\<close>

section \<open>What a request leaves alone\<close>

named_theorems mod_keeps \<open>steps that keep a predicate that does not mention what they write\<close>
named_theorems content_frames \<open>the same for the writes to content\<close>

lemma audit_keeps [mod_keeps]:
  "(\<And>s x. P s \<Longrightarrow> P (s\<lparr>mo_audits := x\<rparr>)) \<Longrightarrow> tx_keeps P (audit now actor action entity reason)"
  by (simp add: audit_def tx_valid_def tx_simps)

lemma notice_keeps [mod_keeps]:
  "(\<And>s x. P s \<Longrightarrow> P (s\<lparr>mo_notices := x\<rparr>)) \<Longrightarrow> tx_keeps P (send_notice recipient actor entity)"
  by (simp add: send_notice_def tx_valid_def tx_simps)

lemma release_keeps [mod_keeps]:
  "(\<And>s x. P s \<Longrightarrow> P (s\<lparr>mo_cases := x\<rparr>)) \<Longrightarrow> tx_keeps P (release_moderator_cases u game)"
  by (simp add: release_moderator_cases_def tx_valid_def tx_simps)

lemma economy_keeps [mod_keeps]:
  "(\<And>s x. P s \<Longrightarrow> P (s\<lparr>mo_economy := x\<rparr>)) \<Longrightarrow> tx_keeps P (in_economy m)"
  by (auto simp: in_economy_def tx_valid_def split: sum.splits)

lemma sanction_writes_keep [mod_keeps]:
  assumes "\<And>s x. P s \<Longrightarrow> P (s\<lparr>mo_sanctions := x\<rparr>)"
  shows "tx_keeps P (create_sanction mk)" and "tx_keeps P (update_sanction i f)"
  using assms by (auto simp: create_sanction_def update_sanction_def Let_def tx_valid_def split: if_splits option.splits)

lemma violation_writes_keep [mod_keeps]:
  "(\<And>s x. P s \<Longrightarrow> P (s\<lparr>mo_violations := x\<rparr>)) \<Longrightarrow> tx_keeps P (create_violation mk)"
  "(\<And>s x. P s \<Longrightarrow> P (s\<lparr>mo_violations := x\<rparr>)) \<Longrightarrow> tx_keeps P (tx_modify (\<lambda>s. s\<lparr>mo_violations := g s\<rparr>))"
  by (auto simp: create_violation_def Let_def tx_valid_def tx_simps split: if_splits)

lemma appeal_writes_keep [mod_keeps]:
  assumes "\<And>s x. P s \<Longrightarrow> P (s\<lparr>mo_appeals := x\<rparr>)"
  shows "tx_keeps P (create_appeal mk)" and "tx_keeps P (decide_appeal now actor i b reason)"
  using assms by (auto simp: create_appeal_def decide_appeal_def Let_def tx_valid_def tx_simps split: if_splits)

lemma enforcement_writes_keep [content_frames]:
  assumes "\<And>s x. P s \<Longrightarrow> P (s\<lparr>mo_enforcements := x\<rparr>)"
  shows "tx_keeps P (create_enforcement e)" and "tx_keeps P (revoke_enforcement now i)"
  using assms by (auto simp: create_enforcement_def revoke_enforcement_def Let_def tx_valid_def tx_simps split: if_splits)

lemma post_writes_keep [content_frames]:
  assumes "\<And>s x. P s \<Longrightarrow> P (s\<lparr>mo_posts := x\<rparr>)"
  shows "tx_keeps P (write_post_status i new)" and "tx_keeps P (add_to_comment_count i d)"
  using assms by (auto simp: write_post_status_def add_to_comment_count_def tx_valid_def split: if_splits option.splits)

lemma comment_writes_keep [content_frames]:
  "(\<And>s x. P s \<Longrightarrow> P (s\<lparr>mo_comments := x\<rparr>)) \<Longrightarrow> tx_keeps P (write_comment_status i new)"
  by (auto simp: write_comment_status_def tx_valid_def split: if_splits option.splits)

lemma count_writes_keep [mod_keeps]:
  "(\<And>s x. P s \<Longrightarrow> P (s\<lparr>mo_postCounts := x\<rparr>)) \<Longrightarrow> tx_keeps P (add_to_post_count g d)"
  by (auto simp: add_to_post_count_def tx_valid_def split: option.splits)

lemmas mod_rules = mod_keeps tx_intros tx_cases

lemma context_keeps [mod_keeps]: "tx_keeps P (moderation_context st now actor slug)"
  unfolding moderation_context_def by (intro tx_intros tx_cases) auto

lemma case_target_keeps [mod_keeps]: "tx_keeps P (case_target case_id ctx)"
  unfolding case_target_def by (intro tx_intros tx_cases) auto

lemma scoped_keeps [mod_keeps]: "tx_keeps P (scoped_sanction st now actor i slug)"
  unfolding scoped_sanction_def by (intro context_keeps tx_intros tx_cases) auto

section \<open>Restricted content is not public\<close>

definition covered :: "content_status \<Rightarrow> bool" where
  "covered st \<longleftrightarrow> st = Hidden \<or> st = Deleted"

definition content_except :: "(content_kind \<times> string) set \<Rightarrow> moderation \<Rightarrow> bool" where
  "content_except X s \<longleftrightarrow>
     numbered en_id (mo_enforcements s)
     \<and> (\<forall>i p. map_of (mo_posts s) i = Some p \<longrightarrow> (Post_content, i) \<notin> X \<longrightarrow> restrictions Post_content i s \<noteq> [] \<longrightarrow> covered (po_status p))
     \<and> (\<forall>i c. map_of (mo_comments s) i = Some c \<longrightarrow> (Comment_content, i) \<notin> X \<longrightarrow> restrictions Comment_content i s \<noteq> [] \<longrightarrow> covered (cm_status c))
     \<and> (\<forall>e \<in> set (mo_enforcements s). \<forall>f \<in> set (mo_enforcements s).
          restricts (en_targetType e) (en_targetId e) f \<longrightarrow> en_revokedAt e = None \<longrightarrow> en_scope f = en_scope e \<longrightarrow> e = f)"

abbreviation content_ok :: "moderation \<Rightarrow> bool" where
  "content_ok \<equiv> content_except {}"

lemma restrictions_frame [simp]:
  "restrictions k i (s\<lparr>mo_posts := a\<rparr>) = restrictions k i s"
  "restrictions k i (s\<lparr>mo_comments := b\<rparr>) = restrictions k i s"
  "restrictions k i (s\<lparr>mo_postCounts := c\<rparr>) = restrictions k i s"
  "restrictions k i (s\<lparr>mo_cases := d\<rparr>) = restrictions k i s"
  "restrictions k i (s\<lparr>mo_violations := v\<rparr>) = restrictions k i s"
  "restrictions k i (s\<lparr>mo_sanctions := x\<rparr>) = restrictions k i s"
  "restrictions k i (s\<lparr>mo_appeals := ap\<rparr>) = restrictions k i s"
  "restrictions k i (s\<lparr>mo_audits := au\<rparr>) = restrictions k i s"
  "restrictions k i (s\<lparr>mo_notices := n\<rparr>) = restrictions k i s"
  "restrictions k i (s\<lparr>mo_economy := ec\<rparr>) = restrictions k i s"
  by (simp_all add: restrictions_def)

lemma content_except_frame [simp]:
  "content_except X (s\<lparr>mo_postCounts := c\<rparr>) = content_except X s"
  "content_except X (s\<lparr>mo_cases := d\<rparr>) = content_except X s"
  "content_except X (s\<lparr>mo_violations := v\<rparr>) = content_except X s"
  "content_except X (s\<lparr>mo_sanctions := x\<rparr>) = content_except X s"
  "content_except X (s\<lparr>mo_appeals := ap\<rparr>) = content_except X s"
  "content_except X (s\<lparr>mo_audits := au\<rparr>) = content_except X s"
  "content_except X (s\<lparr>mo_notices := n\<rparr>) = content_except X s"
  "content_except X (s\<lparr>mo_economy := ec\<rparr>) = content_except X s"
  by (simp_all add: content_except_def)

lemma content_except_mono: "content_except X s \<Longrightarrow> X \<subseteq> Y \<Longrightarrow> content_except Y s"
  unfolding content_except_def by (elim conjE, intro conjI) (simp, blast, blast, simp)

text \<open>The trigger makes every write of a status safe, and writing \<open>Hidden\<close> or \<open>Deleted\<close> settles its row.\<close>

lemma write_post_content: "tx_valid (content_except X) (write_post_status i new) (\<lambda>_. content_except (X - {(Post_content, i)}))"
  by (auto simp: tx_valid_def write_post_status_def content_except_def visibility_trigger_def covered_def
      split: option.splits if_splits)

lemma write_comment_content:
  "tx_valid (content_except X) (write_comment_status i new) (\<lambda>_. content_except (X - {(Comment_content, i)}))"
  by (auto simp: tx_valid_def write_comment_status_def content_except_def visibility_trigger_def covered_def
      split: option.splits if_splits)

lemma comment_count_content [mod_keeps]: "tx_keeps (content_except X) (add_to_comment_count i d)"
  by (auto simp: tx_valid_def add_to_comment_count_def content_except_def split: option.splits)

lemma create_enforcement_content:
  assumes id: "\<And>n. en_id (mk n) = n" and k: "\<And>n. en_targetType (mk n) = k" and i: "\<And>n. en_targetId (mk n) = i"
  shows "tx_valid (content_except X) (create_enforcement mk) (\<lambda>_. content_except (insert (k, i) X))"
  using assms
  by (auto simp: tx_valid_def create_enforcement_def content_except_def restrictions_def restricts_def Let_def
      split: if_splits)

lemma restricts_revoked:
  "filter (restricts k i) (on_id en_id n (\<lambda>e. e\<lparr>en_revokedAt := Some now\<rparr>) es)
     = filter (\<lambda>e. en_id e \<noteq> n) (filter (restricts k i) es)"
  by (induction es) (auto simp: restricts_def on_id_def)

lemma revoke_restrictions:
  "restrictions k i (s\<lparr>mo_enforcements := on_id en_id n (\<lambda>e. e\<lparr>en_revokedAt := Some now\<rparr>) (mo_enforcements s)\<rparr>)
     = filter (\<lambda>e. en_id e \<noteq> n) (restrictions k i s)"
  by (simp add: restrictions_def restricts_revoked)

lemma fewer_restrictions:
  assumes "content_except X s" and "numbered en_id es"
    and "\<And>k i. filter (restricts k i) es \<noteq> [] \<Longrightarrow> restrictions k i s \<noteq> []"
    and "\<And>e. e \<in> set es \<Longrightarrow> en_revokedAt e = None \<Longrightarrow> e \<in> set (mo_enforcements s)"
  shows "content_except X (s\<lparr>mo_enforcements := es\<rparr>)"
proof -
  have "\<forall>e \<in> set es. \<forall>f \<in> set es. restricts (en_targetType e) (en_targetId e) f \<longrightarrow> en_revokedAt e = None
    \<longrightarrow> en_scope f = en_scope e \<longrightarrow> e = f"
    using assms(1,4) unfolding content_except_def by (metis restricts_def)
  with assms(1-3) show ?thesis
    unfolding content_except_def restrictions_def by simp
qed

lemma revoke_enforcement_content [mod_keeps]: "tx_keeps (content_except X) (revoke_enforcement now n)"
proof (rule tx_validI)
  fix s s' :: moderation and u
  assume ok: "content_except X s" and run: "revoke_enforcement now n s = Inr (s', u)"
  have s': "s' = s\<lparr>mo_enforcements := on_id en_id n (\<lambda>e. e\<lparr>en_revokedAt := Some now\<rparr>) (mo_enforcements s)\<rparr>"
    using run by (simp add: revoke_enforcement_def tx_simps)
  show "content_except X s'" unfolding s'
  proof (rule fewer_restrictions [OF ok])
    show "numbered en_id (on_id en_id n (\<lambda>e. e\<lparr>en_revokedAt := Some now\<rparr>) (mo_enforcements s))"
      using ok by (simp add: content_except_def)
  next
    fix k i
    assume "filter (restricts k i) (on_id en_id n (\<lambda>e. e\<lparr>en_revokedAt := Some now\<rparr>) (mo_enforcements s)) \<noteq> []"
    then show "restrictions k i s \<noteq> []"
      unfolding restricts_revoked restrictions_def by (metis filter.simps(1))
  qed (auto simp: set_on_id split: if_splits)
qed

lemma write_keeps_content [mod_keeps]:
  "tx_keeps (content_except X) (write_post_status i new)" "tx_keeps (content_except X) (write_comment_status i new)"
  using write_post_content write_comment_content by (blast intro: tx_valid_post content_except_mono)+

lemma count_keeps:
  assumes "\<And>g d. tx_keeps P (add_to_post_count g d)"
  shows "tx_keeps P (case game of None \<Rightarrow> tx_return () | Some g \<Rightarrow> tx_when b (add_to_post_count g d))"
  using assms by (cases game) (auto intro: tx_keeps_when tx_valid_return)

lemma transition_post_content: "tx_keeps (content_except X) (transition_post i game from to)"
  unfolding transition_post_def
  by (intro tx_keeps_bind tx_valid_gets tx_valid_option tx_valid_if count_keeps write_keeps_content tx_valid_return
      count_writes_keep) auto

lemma transition_comment_content: "tx_keeps (content_except X) (transition_comment i post from to)"
  unfolding transition_comment_def
  by (intro tx_keeps_bind tx_valid_gets tx_valid_option tx_valid_if tx_keeps_when write_keeps_content tx_valid_return
      comment_count_content) auto

lemma transition_content [mod_keeps]: "tx_keeps (content_except X) (transition k i target to)"
  by (cases k) (simp_all add: transition_def transition_post_content transition_comment_content)

text \<open>A transition that reports a change has settled its target.\<close>

lemma transition_post_settles:
  "tx_valid (content_except {(Post_content, i)}) (transition_post i game from to) (\<lambda>changed s. changed \<longrightarrow> content_ok s)"
proof -
  have w: "tx_valid (content_except {(Post_content, i)}) (write_post_status i new) (\<lambda>_. content_ok)" for new
    using write_post_content [of "{(Post_content, i)}" i new] by simp
  have c: "tx_keeps content_ok (case game of None \<Rightarrow> tx_return ()
      | Some g \<Rightarrow> tx_when b (add_to_post_count g d))" for b d
    by (rule count_keeps, rule count_writes_keep) simp
  show ?thesis unfolding transition_post_def
    by (intro tx_valid_gets_bind tx_valid_option tx_valid_if tx_valid_bind [OF tx_valid_pre [OF w]] tx_valid_bind [OF c]
        tx_valid_return) auto
qed

lemma transition_comment_settles:
  "tx_valid (content_except {(Comment_content, i)}) (transition_comment i post from to) (\<lambda>changed s. changed \<longrightarrow> content_ok s)"
proof -
  have w: "tx_valid (content_except {(Comment_content, i)}) (write_comment_status i new) (\<lambda>_. content_ok)" for new
    using write_comment_content [of "{(Comment_content, i)}" i new] by simp
  have c: "tx_keeps content_ok (tx_when b (add_to_comment_count post d))" for b d
    by (intro tx_keeps_when comment_count_content)
  show ?thesis unfolding transition_comment_def
    by (intro tx_valid_gets_bind tx_valid_option tx_valid_if tx_valid_bind [OF tx_valid_pre [OF w]] tx_valid_bind [OF c]
        tx_valid_return) auto
qed

lemma transition_settles:
  "tx_valid (content_except {(k, i)}) (transition k i target to) (\<lambda>changed s. changed \<longrightarrow> content_ok s)"
  by (cases k) (simp_all add: transition_def transition_post_settles transition_comment_settles)

section \<open>Requests keep it\<close>

lemma hide_content_content:
  "tx_valid content_ok (hide_content now ctx k i target reason case_id active) (\<lambda>_. content_except {(k, i)})"
proof -
  have c: "tx_valid content_ok (create_enforcement mk) (\<lambda>_. content_except {(k, i)})"
    if "\<And>n. en_id (mk n) = n" "\<And>n. en_targetType (mk n) = k" "\<And>n. en_targetId (mk n) = i" for mk
    using create_enforcement_content [of mk k i "{}"] that by simp
  have n: "tx_keeps (content_except {(k, i)}) (tx_bind (audit now a CONTENT_HIDDEN e reason) (\<lambda>_. tx_when b (send_notice u a e)))"
    for a e u b by (intro mod_keeps tx_intros) auto
  show ?thesis unfolding hide_content_def
    by (intro tx_valid_require_bind tx_valid_when tx_valid_bind [OF c] n tx_valid_return)
       (auto intro: content_except_mono)
qed

lemma show_content_content: "tx_keeps content_ok (show_content now ctx target reason active)"
  unfolding show_content_def restore_enforcement_def by (intro mod_keeps tx_intros tx_cases) auto

lemma find_target_frame [simp]:
  "find_target k i (s\<lparr>mo_enforcements := en\<rparr>) = find_target k i s"
  "find_target k i (s\<lparr>mo_audits := a\<rparr>) = find_target k i s"
  "find_target k i (s\<lparr>mo_notices := n\<rparr>) = find_target k i s"
  "find_target k i (s\<lparr>mo_sanctions := x\<rparr>) = find_target k i s"
  "find_target k i (s\<lparr>mo_violations := v\<rparr>) = find_target k i s"
  "find_target k i (s\<lparr>mo_appeals := ap\<rparr>) = find_target k i s"
  "find_target k i (s\<lparr>mo_economy := ec\<rparr>) = find_target k i s"
  "find_target k i (s\<lparr>mo_cases := d\<rparr>) = find_target k i s"
  by (cases k; simp add: find_target_def)+

lemma covered_target:
  assumes "content_except {(k, i)} s" and "find_target k i s = Some t" and "covered (ct_status t)"
  shows "content_ok s"
proof -
  have "covered (po_status p)" if "k = Post_content" "map_of (mo_posts s) i = Some p" for p
    using assms(2,3) that by (auto simp: find_target_def)
  moreover have "covered (cm_status c)" if "k = Comment_content" "map_of (mo_comments s) i = Some c" for c
    using assms(2,3) that by (auto simp: find_target_def bind_eq_Some_conv)
  ultimately show ?thesis using assms(1) unfolding content_except_def by blast
qed

lemma hide_keeps_target:
  "tx_keeps (\<lambda>s. find_target k i s = Some t) (hide_content now ctx k i target reason case_id active)"
  unfolding hide_content_def by (intro content_frames mod_keeps tx_intros tx_cases) auto

lemma move_content_ok:
  assumes "hidden \<Longrightarrow> ct_status target \<noteq> Hidden \<Longrightarrow> X = {(k, i)}" and "\<not> (hidden \<and> ct_status target \<noteq> Hidden) \<Longrightarrow> X = {}"
  shows "tx_valid (content_except X) (move_content le now k i target hidden) (\<lambda>_. content_ok)"
proof (cases "hidden \<and> ct_status target \<noteq> Hidden")
  case True
  have e: "tx_keeps content_ok (in_economy m)" for m :: "unit economy_tx" by (rule economy_keeps) simp
  from True show ?thesis unfolding move_content_def Let_def assms(1) [OF True [THEN conjunct1] True [THEN conjunct2]]
    by (intro tx_valid_when tx_valid_bind [OF transition_settles] tx_valid_require_bind)
       (auto intro: tx_valid_pre [OF e])
next
  case False
  have x: "X = {}" by (rule assms(2)) (rule False)
  show ?thesis unfolding move_content_def Let_def x by (intro mod_keeps tx_intros tx_cases) auto
qed

lemma content_in_transaction_content: "tx_keeps content_ok (content_in_transaction le now ctx k i hidden reason case_id)"
proof -
  define X where "X t = (if hidden \<and> ct_status t \<noteq> Hidden then {(k, i)} else {})" for t :: content_target
  have hide: "tx_valid (\<lambda>s. content_ok s \<and> find_target k i s = Some t)
      (hide_content now ctx k i t reason case_id active) (\<lambda>_. content_except (X t))" if hidden for t active
  proof (rule tx_validI)
    fix s s' :: moderation and u
    assume pre: "content_ok s \<and> find_target k i s = Some t" and run: "hide_content now ctx k i t reason case_id active s = Inr (s', u)"
    from pre have "content_except {(k, i)} s'" "find_target k i s' = Some t"
      using tx_validD [OF hide_content_content _ run] tx_validD [OF hide_keeps_target _ run] by auto
    with that show "content_except (X t) s'" using covered_target by (auto simp: X_def covered_def)
  qed
  have show_it: "tx_valid (\<lambda>s. content_ok s \<and> find_target k i s = Some t)
      (show_content now ctx t reason active) (\<lambda>_. content_except (X t))" if "\<not> hidden" for t active
    using that by (simp add: X_def) (rule tx_valid_pre [OF show_content_content], simp)
  have move: "tx_valid (content_except (X t)) (move_content le now k i t hidden) (\<lambda>_. content_ok)" for t
    by (rule move_content_ok) (auto simp: X_def)
  have step: "tx_valid (\<lambda>s. content_ok s \<and> find_target k i s = Some t)
      (if hidden then hide_content now ctx k i t reason case_id active else show_content now ctx t reason active)
      (\<lambda>_. content_except (X t))" for t active
    using hide show_it by (intro tx_valid_if) auto
  show ?thesis
    unfolding content_in_transaction_def
    apply (intro tx_valid_gets_bind tx_valid_option tx_valid_if tx_valid_require_bind tx_valid_fail)
    apply (rule tx_valid_bind [OF tx_valid_pre [OF step]], force)
    apply (rule tx_valid_bind [OF move])
    apply (simp add: tx_valid_return)
    done
qed

lemma decisions_keep_content:
  "tx_keeps content_ok (content_decision le st now actor k i hidden reason slug case_id)"
  "tx_keeps content_ok (content_for_case le st now actor case_id' hidden reason slug)"
  unfolding content_decision_def content_for_case_def
  by (intro content_in_transaction_content mod_keeps tx_intros tx_cases)+

lemma sanction_steps_keep_content [mod_keeps]:
  "tx_keeps content_ok (expire_sanction now a x)" "tx_keeps content_ok (revoke_tx now actor reason x)"
  "tx_keeps content_ok (issue_sanction now ctx case_id t dto reason e h)"
  unfolding expire_sanction_def revoke_tx_def issue_sanction_def by (intro mod_keeps tx_intros tx_cases; simp)+

lemma reverse_tx_content [mod_keeps]: "tx_keeps content_ok (reverse_tx now actor i reason)"
  unfolding reverse_tx_def by (intro mod_keeps tx_intros tx_cases) auto

lemma restore_appealed_content_content [mod_keeps]: "tx_keeps content_ok (restore_appealed_content le now actor e reason)"
  unfolding restore_appealed_content_def Let_def by (intro mod_keeps tx_intros tx_cases) auto

lemma review_consequences_content [mod_keeps]: "tx_keeps content_ok (review_consequences le now ctx x dto reason)"
  unfolding review_consequences_def by (intro mod_keeps tx_intros tx_cases) auto

lemma requests_keep_content:
  "tx_keeps content_ok (confirm dg st now actor case_id cf slug)"
  "tx_keeps content_ok (sanction_request dg st now actor case_id dto slug)"
  "tx_keeps content_ok (revoke_sanction st now actor n reason slug)"
  "tx_keeps content_ok (adjust_sanction st now actor n days reason slug)"
  "tx_keeps content_ok (reverse_violation st now actor n reason slug)"
  "tx_keeps content_ok (submit_appeal now subject n reason)"
  "tx_keeps content_ok (review_appeal le st now actor n rv slug)"
  "tx_keeps content_ok (reconcile now)"
  unfolding confirm_def sanction_request_def revoke_sanction_def adjust_sanction_def reverse_violation_def
    submit_appeal_def review_appeal_def reconcile_def Let_def
  by (intro mod_keeps tx_intros tx_cases; simp)+

text \<open>Authors change what they see, however old it is, and the trigger still keeps the restriction.\<close>

definition new_id :: "string \<Rightarrow> moderation \<Rightarrow> bool" where
  "new_id i s \<longleftrightarrow> i \<notin> en_targetId ` set (mo_enforcements s)"

lemma new_id_unrestricted: "new_id i s \<Longrightarrow> restrictions k i s = []"
  by (auto simp: new_id_def restrictions_def restricts_def filter_empty_conv)

lemma post_change_content:
  assumes "content_ok s" and "restrictions Post_content i s = [] \<or> covered (po_status p)"
  shows "content_ok (s\<lparr>mo_posts := AList.update i p (mo_posts s)\<rparr>)"
  using assms unfolding content_except_def by auto

lemma comment_change_content:
  assumes "content_ok s" and "restrictions Comment_content i s = [] \<or> covered (cm_status c)"
  shows "content_ok (s\<lparr>mo_comments := AList.update i c (mo_comments s)\<rparr>)"
  using assms unfolding content_except_def by auto

lemma create_post_content:
  "tx_valid (\<lambda>s. content_ok s \<and> new_id i s) (create_post i author game title text status) (\<lambda>_. content_ok)"
proof -
  have c: "tx_keeps content_ok (case game of None \<Rightarrow> tx_return () | Some g \<Rightarrow> tx_when b (add_to_post_count g d))" for b d
    by (rule count_keeps, rule count_writes_keep) simp
  have m: "tx_valid (\<lambda>s. content_ok s \<and> new_id i s) (tx_modify (\<lambda>s. s\<lparr>mo_posts := AList.update i p (mo_posts s)\<rparr>)) (\<lambda>_. content_ok)" for p
    by (rule tx_valid_modify) (simp add: post_change_content new_id_unrestricted)
  show ?thesis unfolding create_post_def
    by (intro tx_valid_gets_bind tx_valid_require_bind tx_valid_bind [OF tx_valid_pre [OF m]]) (auto intro: c)
qed

lemma create_comment_content:
  "tx_valid (\<lambda>s. content_ok s \<and> new_id i s) (create_comment i post author text) (\<lambda>_. content_ok)"
proof -
  have m: "tx_valid (\<lambda>s. content_ok s \<and> new_id i s) (tx_modify (\<lambda>s. s\<lparr>mo_comments := AList.update i c (mo_comments s)\<rparr>)) (\<lambda>_. content_ok)" for c
    by (rule tx_valid_modify) (simp add: comment_change_content new_id_unrestricted)
  show ?thesis unfolding create_comment_def
    by (intro tx_valid_gets_bind tx_valid_require_bind tx_valid_bind [OF tx_valid_pre [OF m]]) (auto intro: comment_count_content)
qed

definition settled :: "string \<Rightarrow> content_status \<Rightarrow> moderation \<Rightarrow> bool" where
  "settled i st s \<longleftrightarrow> content_ok s \<and> (restrictions Post_content i s = [] \<or> covered st)"

lemma write_settles: "tx_valid content_ok (write_post_status i (st, d)) (\<lambda>_. settled i st)"
proof (rule tx_validI)
  fix s s' :: moderation and u
  assume ok: "content_ok s" and run: "write_post_status i (st, d) s = Inr (s', u)"
  from run have "restrictions Post_content i s' = [] \<or> covered st"
    by (auto simp: write_post_status_def visibility_trigger_def covered_def split: option.splits if_splits)
  with tx_validD [OF write_keeps_content(1) ok run] show "settled i st s'" by (simp add: settled_def)
qed

lemma update_post_content: "tx_keeps content_ok (update_post seen before user i title text status)"
proof -
  have c: "tx_keeps content_ok (case game of None \<Rightarrow> tx_return () | Some g \<Rightarrow> tx_when b (add_to_post_count g d))" for game b d
    by (rule count_keeps, rule count_writes_keep) simp
  have w: "tx_valid (\<lambda>s. content_ok s \<and> map_of (mo_posts s) i = Some c)
      (tx_when (status \<noteq> None) (write_post_status i (case status of None \<Rightarrow> po_status c | Some x \<Rightarrow> x, po_deletedAt c)))
      (\<lambda>_. settled i (case status of None \<Rightarrow> po_status c | Some x \<Rightarrow> x))" for c
    by (intro tx_valid_when tx_valid_pre [OF write_settles] tx_valid_return)
       (auto simp: settled_def content_except_def)
  have m: "tx_valid (settled i st) (tx_modify (\<lambda>s. s\<lparr>mo_posts := AList.update i p (mo_posts s)\<rparr>)) (\<lambda>_. content_ok)"
    if "po_status p = st" for p st
    by (rule tx_valid_modify) (use that in \<open>auto simp: settled_def intro: post_change_content\<close>)
  show ?thesis unfolding update_post_def Let_def
    by (intro tx_valid_option tx_valid_if tx_valid_gets_bind tx_valid_fail tx_valid_bind [OF tx_valid_pre [OF w]]
        tx_valid_bind [OF m] c) auto
qed

lemma delete_post_content: "tx_keeps content_ok (delete_post seen before now user i)"
proof -
  have c: "tx_keeps content_ok (case game of None \<Rightarrow> tx_return () | Some g \<Rightarrow> tx_when b (add_to_post_count g d))" for game b d
    by (rule count_keeps, rule count_writes_keep) simp
  show ?thesis unfolding delete_post_def by (intro c mod_keeps tx_intros tx_cases) auto
qed

lemma comment_changes_content:
  "tx_keeps content_ok (update_comment seen user i text)" "tx_keeps content_ok (delete_comment seen now user i)"
proof -
  have "content_ok (s\<lparr>mo_comments := AList.update i (r\<lparr>cm_content := x\<rparr>) (mo_comments s)\<rparr>)"
    if "content_ok s" "map_of (mo_comments s) i = Some r" for s r x
    using that by (intro comment_change_content) (auto simp: content_except_def)
  then show "tx_keeps content_ok (update_comment seen user i text)"
    by (auto simp: update_comment_def tx_valid_def tx_bind_Inr tx_simps split: option.splits if_splits)
  show "tx_keeps content_ok (delete_comment seen now user i)"
    unfolding delete_comment_def by (intro mod_keeps tx_intros tx_cases) auto
qed

section \<open>The counters of published posts\<close>

definition is_published :: "post \<Rightarrow> int" where
  "is_published p = (if po_status p = Published then 1 else 0)"

definition published_in :: "string \<Rightarrow> (string \<times> post) list \<Rightarrow> int" where
  "published_in g ps = sum_list (map (\<lambda>(_, p). if po_gameId p = Some g then is_published p else 0) ps)"

definition counts_off :: "string option \<Rightarrow> int \<Rightarrow> moderation \<Rightarrow> bool" where
  "counts_off game d s \<longleftrightarrow> (\<forall>g n. map_of (mo_postCounts s) g = Some n \<longrightarrow>
     published_in g (mo_posts s) = n + (if game = Some g then d else 0))"

abbreviation counts_ok :: "moderation \<Rightarrow> bool" where
  "counts_ok \<equiv> counts_off None 0"

lemma counts_off_frame [simp]:
  "counts_off game d (s\<lparr>mo_comments := a\<rparr>) = counts_off game d s"
  "counts_off game d (s\<lparr>mo_cases := b\<rparr>) = counts_off game d s"
  "counts_off game d (s\<lparr>mo_enforcements := en\<rparr>) = counts_off game d s"
  "counts_off game d (s\<lparr>mo_violations := v\<rparr>) = counts_off game d s"
  "counts_off game d (s\<lparr>mo_sanctions := x\<rparr>) = counts_off game d s"
  "counts_off game d (s\<lparr>mo_appeals := ap\<rparr>) = counts_off game d s"
  "counts_off game d (s\<lparr>mo_audits := au\<rparr>) = counts_off game d s"
  "counts_off game d (s\<lparr>mo_notices := n\<rparr>) = counts_off game d s"
  "counts_off game d (s\<lparr>mo_economy := ec\<rparr>) = counts_off game d s"
  by (simp_all add: counts_off_def)

lemma published_update:
  "map_of ps i = Some p \<Longrightarrow> published_in g (AList.update i q ps) = published_in g ps
     - (if po_gameId p = Some g then is_published p else 0) + (if po_gameId q = Some g then is_published q else 0)"
  by (induction ps) (auto simp: published_in_def split: if_splits)

lemma published_new:
  "map_of ps i = None \<Longrightarrow> published_in g (AList.update i q ps) = published_in g ps + (if po_gameId q = Some g then is_published q else 0)"
  by (induction ps) (auto simp: published_in_def split: if_splits)

lemma counts_off_zero: "counts_off game 0 s = counts_ok s"
  by (simp add: counts_off_def)

lemma post_changed:
  assumes "counts_ok s" and "map_of (mo_posts s) i = Some p" and "po_gameId q = po_gameId p"
  shows "counts_off (po_gameId p) (is_published q - is_published p) (s\<lparr>mo_posts := AList.update i q (mo_posts s)\<rparr>)"
  using assms unfolding counts_off_def by (auto simp: published_update)

lemma count_settled:
  assumes "\<not> b \<Longrightarrow> d = 0" and "b \<Longrightarrow> e = d"
  shows "tx_valid (counts_off game d) (case game of None \<Rightarrow> tx_return () | Some g \<Rightarrow> tx_when b (add_to_post_count g e)) (\<lambda>_. counts_ok)"
  using assms unfolding tx_valid_def counts_off_def
  by (auto simp: tx_simps add_to_post_count_def split: option.splits if_splits)

lemma comment_count_counts [mod_keeps]: "tx_keeps counts_ok (add_to_comment_count i d)"
proof (rule tx_validI)
  fix s s' :: moderation and u
  assume ok: "counts_ok s" and run: "add_to_comment_count i d s = Inr (s', u)"
  then obtain p where p: "map_of (mo_posts s) i = Some p"
    and s': "s' = s\<lparr>mo_posts := AList.update i (p\<lparr>po_commentCount := po_commentCount p + d\<rparr>) (mo_posts s)\<rparr>"
    by (auto simp: add_to_comment_count_def split: option.splits)
  have "counts_off (po_gameId p) 0 s'" using post_changed [OF ok p, of "p\<lparr>po_commentCount := po_commentCount p + d\<rparr>"]
    unfolding s' by (simp add: is_published_def)
  then show "counts_ok s'" by (rule counts_off_zero [THEN iffD1])
qed

lemma write_status_counts:
  "tx_valid (\<lambda>s. counts_ok s \<and> map_of (mo_posts s) i = Some p) (write_post_status i (st, d))
     (\<lambda>_. counts_off (po_gameId p) (is_published (p\<lparr>po_status := st\<rparr>) - is_published p))"
proof (rule tx_validI)
  fix s s' :: moderation and u
  assume pre: "counts_ok s \<and> map_of (mo_posts s) i = Some p" and run: "write_post_status i (st, d) s = Inr (s', u)"
  then have s': "s' = s\<lparr>mo_posts := AList.update i (p\<lparr>po_status := st, po_deletedAt := d\<rparr>) (mo_posts s)\<rparr>"
    by (auto simp: write_post_status_def split: if_splits)
  show "counts_off (po_gameId p) (is_published (p\<lparr>po_status := st\<rparr>) - is_published p) s'"
    using post_changed [OF pre [THEN conjunct1] pre [THEN conjunct2], of "p\<lparr>po_status := st, po_deletedAt := d\<rparr>"]
    unfolding s' by (simp add: is_published_def)
qed

lemma transition_post_counts: "from \<noteq> to \<Longrightarrow> tx_keeps counts_ok (transition_post i game from to)"
  unfolding transition_post_def
  apply (intro tx_valid_gets_bind tx_valid_option tx_valid_if tx_valid_return, simp, simp)
  apply (rule tx_valid_bind [OF tx_valid_pre [OF write_status_counts]], force)
  apply (rule tx_valid_bind)
   apply (rule tx_valid_pre [OF count_settled])
  apply (auto simp: status_delta_def is_published_def intro: tx_valid_return)
  done

lemma transition_counts: "ct_status target \<noteq> to \<Longrightarrow> tx_keeps counts_ok (transition k i target to)"
  unfolding transition_def transition_comment_def
  by (cases k) (auto intro!: transition_post_counts comment_writes_keep mod_keeps tx_intros tx_cases)

lemma move_content_counts [mod_keeps]: "tx_keeps counts_ok (move_content le now k i target hidden)"
  unfolding move_content_def Let_def by (intro transition_counts mod_keeps tx_intros tx_cases) auto

lemma content_steps_keep_counts [mod_keeps]:
  "tx_keeps counts_ok (hide_content now ctx k i target reason case_id active)"
  "tx_keeps counts_ok (show_content now ctx target reason active)"
  "tx_keeps counts_ok (content_in_transaction le now ctx k i hidden reason case_id)"
proof -
  show h: "tx_keeps counts_ok (hide_content now ctx k i target reason case_id active)" for target active
    unfolding hide_content_def by (intro content_frames mod_keeps tx_intros tx_cases) auto
  show s: "tx_keeps counts_ok (show_content now ctx target reason active)" for target active
    unfolding show_content_def restore_enforcement_def by (intro content_frames mod_keeps tx_intros tx_cases) auto
  show "tx_keeps counts_ok (content_in_transaction le now ctx k i hidden reason case_id)"
    unfolding content_in_transaction_def by (intro h s mod_keeps tx_intros tx_cases) auto
qed

lemma sanction_steps_keep_counts [mod_keeps]:
  "tx_keeps counts_ok (expire_sanction now a x)" "tx_keeps counts_ok (revoke_tx now actor reason x)"
  "tx_keeps counts_ok (issue_sanction now ctx case_id t dto reason e h)"
  unfolding expire_sanction_def revoke_tx_def issue_sanction_def by (intro mod_keeps tx_intros tx_cases; simp)+

lemma reverse_tx_counts [mod_keeps]: "tx_keeps counts_ok (reverse_tx now actor i reason)"
  unfolding reverse_tx_def by (intro mod_keeps tx_intros tx_cases) auto

lemma restore_appealed_content_counts [mod_keeps]: "tx_keeps counts_ok (restore_appealed_content le now actor e reason)"
  unfolding restore_appealed_content_def Let_def
  by (intro transition_counts content_frames mod_keeps tx_intros tx_cases) (auto split: option.splits)

lemma review_consequences_counts [mod_keeps]: "tx_keeps counts_ok (review_consequences le now ctx x dto reason)"
  unfolding review_consequences_def by (intro mod_keeps tx_intros tx_cases) auto

lemma requests_keep_counts:
  "tx_keeps counts_ok (content_decision le st now actor k i hidden reason slug case_id)"
  "tx_keeps counts_ok (content_for_case le st now actor case_id' hidden reason slug)"
  "tx_keeps counts_ok (confirm dg st now actor case_id' cf slug)"
  "tx_keeps counts_ok (sanction_request dg st now actor case_id' dto slug)"
  "tx_keeps counts_ok (revoke_sanction st now actor n reason slug)"
  "tx_keeps counts_ok (adjust_sanction st now actor n days reason slug)"
  "tx_keeps counts_ok (reverse_violation st now actor n reason slug)"
  "tx_keeps counts_ok (submit_appeal now subject n reason)"
  "tx_keeps counts_ok (review_appeal le st now actor n rv slug)"
  "tx_keeps counts_ok (reconcile now)"
  unfolding content_decision_def content_for_case_def confirm_def sanction_request_def revoke_sanction_def
    adjust_sanction_def reverse_violation_def submit_appeal_def review_appeal_def reconcile_def Let_def
  by (intro mod_keeps tx_intros tx_cases; simp)+

text \<open>Authors keep the counters too, when what they count by is the row as it is.\<close>

lemma create_post_counts: "tx_keeps counts_ok (create_post i author game title text status)"
proof -
  have m: "tx_valid (\<lambda>s. counts_ok s \<and> map_of (mo_posts s) i = None)
      (tx_modify (\<lambda>s. s\<lparr>mo_posts := AList.update i p (mo_posts s)\<rparr>)) (\<lambda>_. counts_off (po_gameId p) (is_published p))" for p
    by (rule tx_valid_modify) (auto simp: counts_off_def published_new)
  show ?thesis unfolding create_post_def
    apply (intro tx_valid_gets_bind tx_valid_require_bind)
    apply (rule tx_valid_bind [OF tx_valid_pre [OF m]], force)
    apply (rule tx_valid_pre [OF count_settled])
      apply (auto simp: is_published_def)
    done
qed

lemma create_comment_counts: "tx_keeps counts_ok (create_comment i post author text)"
  unfolding create_comment_def by (intro comment_count_counts tx_intros tx_cases) auto

lemma comment_changes_counts:
  "tx_keeps counts_ok (update_comment seen user i text)" "tx_keeps counts_ok (delete_comment seen now user i)"
  unfolding update_comment_def delete_comment_def
  by (intro comment_count_counts comment_writes_keep tx_intros tx_cases; simp)+

lemma same_published:
  assumes "counts_off game d s" and "map_of (mo_posts s) i = Some p"
    and "po_gameId q = po_gameId p" and "is_published q = is_published p"
  shows "counts_off game d (s\<lparr>mo_posts := AList.update i q (mo_posts s)\<rparr>)"
  using assms unfolding counts_off_def by (simp add: published_update)

definition as_it_is :: "string \<Rightarrow> content_status \<Rightarrow> moderation \<Rightarrow> bool" where
  "as_it_is i st s \<longleftrightarrow> (\<forall>p. map_of (mo_posts s) i = Some p \<longrightarrow> po_status p = st)"

lemma update_post_counts:
  "tx_valid (\<lambda>s. counts_ok s \<and> as_it_is i before s) (update_post seen before user i title text status) (\<lambda>_. counts_ok)"
proof -
  define new where "new c = (case status of None \<Rightarrow> po_status c | Some x \<Rightarrow> x)" for c :: post
  define off where "off c s \<longleftrightarrow> counts_off (po_gameId c) (is_published (c\<lparr>po_status := new c\<rparr>) - is_published c) s
    \<and> (\<exists>p. map_of (mo_posts s) i = Some p \<and> po_gameId p = po_gameId c \<and> po_status p = new c)" for c s
  have w: "tx_valid (\<lambda>s. counts_ok s \<and> map_of (mo_posts s) i = Some c)
      (tx_when (status \<noteq> None) (write_post_status i (new c, po_deletedAt c))) (\<lambda>_. off c)" for c
  proof (rule tx_validI)
    fix s s' :: moderation and u
    assume pre: "counts_ok s \<and> map_of (mo_posts s) i = Some c"
      and run: "tx_when (status \<noteq> None) (write_post_status i (new c, po_deletedAt c)) s = Inr (s', u)"
    show "off c s'"
    proof (cases status)
      case None
      with pre run counts_off_zero [of "po_gameId c" s] show ?thesis by (auto simp: tx_simps off_def new_def is_published_def)
    next
      case (Some x)
      with run have r: "write_post_status i (new c, po_deletedAt c) s = Inr (s', u)" by (simp add: tx_simps)
      from tx_validD [OF write_status_counts pre r] r show ?thesis
        using pre by (auto simp: off_def write_post_status_def split: if_splits)
    qed
  qed
  have m: "tx_valid (off c) (tx_modify (\<lambda>s. s\<lparr>mo_posts := AList.update i q (mo_posts s)\<rparr>))
      (\<lambda>_. counts_off (po_gameId c) (is_published (c\<lparr>po_status := new c\<rparr>) - is_published c))"
    if "po_gameId q = po_gameId c" "po_status q = new c" for c q
    by (rule tx_valid_modify) (use that in \<open>auto simp: off_def is_published_def intro!: same_published\<close>)
  show ?thesis unfolding update_post_def Let_def new_def [symmetric]
    apply (intro tx_valid_option tx_valid_if tx_valid_gets_bind tx_valid_fail)
    subgoal for p x c
      apply (cases "before = po_status c")
       apply (rule tx_valid_bind [OF tx_valid_pre [OF w [of c]]], force)
       apply (rule tx_valid_bind [OF m], simp, simp)
       apply (rule count_settled; auto simp: status_delta_def is_published_def split: if_splits)
      apply (auto simp: as_it_is_def tx_valid_def)
      done
    done
qed

lemma delete_post_counts:
  "tx_valid (\<lambda>s. counts_ok s \<and> as_it_is i (fst before) s) (delete_post seen before now user i) (\<lambda>_. counts_ok)"
  unfolding delete_post_def
  apply (intro tx_valid_option tx_valid_if tx_valid_gets_bind tx_valid_fail tx_valid_return)
  apply (simp_all split del: if_split)
  subgoal for p x c
    apply (cases "fst before = po_status c")
     apply (rule tx_valid_bind [OF tx_valid_pre [OF write_status_counts [of i c]]], force)
     apply (rule count_settled; auto simp: is_published_def split: if_splits)
    apply (auto simp: as_it_is_def tx_valid_def)
    done
  done

end
