(* ===== verification/Moderation_Sanctions.thy ===== *)
theory Moderation_Sanctions
  imports Moderation_Invariant
begin

text \<open>
  What every request keeps of violations, sanctions and appeals (\<open>sanctions_ok\<close>): the CHECK
  constraints, that two sanctions of one kind on one account never overlap, that a sanction in force
  rests on a finding that stands, and that an appeal is rejected by someone else than who imposed the
  sanction. Ending a sanction, alone or in a loop, is computed in closed form.
\<close>

section \<open>The rows\<close>

definition same_kind :: "sanction \<Rightarrow> sanction \<Rightarrow> bool" where
  "same_kind x y \<longleftrightarrow> sa_subject x = sa_subject y \<and> sa_type x = sa_type y \<and> sa_scope x = sa_scope y
     \<and> sa_gameId x = sa_gameId y"

definition ended_by :: "time \<Rightarrow> sanction \<Rightarrow> bool" where
  "ended_by t x \<longleftrightarrow> (case sa_expiresAt x of None \<Rightarrow> False | Some e \<Rightarrow> e \<le> t)"

definition sanction_ok :: "time \<Rightarrow> sanction \<Rightarrow> bool" where
  "sanction_ok now x \<longleftrightarrow> sanction_checks x \<and> sa_startsAt x \<le> now
     \<and> (sa_status x = Sanction_expired \<longrightarrow> ended_by now x)"

definition follows :: "sanction \<Rightarrow> sanction \<Rightarrow> bool" where
  "follows x y \<longleftrightarrow> sa_id x < sa_id y \<and> same_kind x y \<and> sa_type x \<noteq> WARNING
     \<and> sa_status x \<noteq> Sanction_revoked \<and> sa_status y \<noteq> Sanction_revoked"

definition sanction_rows :: "time \<Rightarrow> sanction list \<Rightarrow> bool" where
  "sanction_rows now xs \<longleftrightarrow> numbered sa_id xs \<and> distinct (map sa_requestKey xs)
     \<and> (\<forall>x \<in> set xs. sanction_ok now x)
     \<and> (\<forall>x \<in> set xs. \<forall>y \<in> set xs. follows x y \<longrightarrow> ended_by (sa_startsAt y) x)"

definition violation_rows :: "violation list \<Rightarrow> bool" where
  "violation_rows vs \<longleftrightarrow> numbered vi_id vs \<and> (\<forall>v \<in> set vs. scope_check (vi_scope v) (vi_gameId v))
     \<and> (\<forall>v \<in> set vs. \<forall>w \<in> set vs. vi_reversedAt v = None \<longrightarrow> vi_reversedAt w = None
          \<longrightarrow> vi_caseId v = vi_caseId w \<or> vi_incidentKey v = vi_incidentKey w \<longrightarrow> v = w)"

definition attached_except :: "nat set \<Rightarrow> violation list \<Rightarrow> sanction list \<Rightarrow> bool" where
  "attached_except V vs xs \<longleftrightarrow> (\<forall>x \<in> set xs. \<forall>i. sa_status x = Sanction_active \<longrightarrow> sa_violationId x = Some i \<longrightarrow>
     i \<notin> V \<longrightarrow> (\<exists>v \<in> set vs. vi_id v = i \<and> vi_reversedAt v = None))"

definition appeal_ok :: "sanction list \<Rightarrow> appeal \<Rightarrow> bool" where
  "appeal_ok xs a \<longleftrightarrow> (\<exists>x \<in> set xs. sa_id x = ap_sanction a \<and> (ap_status a = Appeal_rejected \<longrightarrow> ap_reviewer a \<noteq> Some (sa_actor x)))
     \<and> (ap_status a = Appeal_pending \<longleftrightarrow> ap_reviewedAt a = None) \<and> (ap_status a = Appeal_pending \<longleftrightarrow> ap_decisionReason a = None)"

definition appeal_rows :: "sanction list \<Rightarrow> appeal list \<Rightarrow> bool" where
  "appeal_rows xs as \<longleftrightarrow> numbered ap_id as \<and> distinct (map ap_sanction as) \<and> (\<forall>a \<in> set as. appeal_ok xs a)"

definition sanctions_except :: "nat set \<Rightarrow> time \<Rightarrow> moderation \<Rightarrow> bool" where
  "sanctions_except V now s \<longleftrightarrow> sanction_rows now (mo_sanctions s) \<and> violation_rows (mo_violations s)
     \<and> attached_except V (mo_violations s) (mo_sanctions s) \<and> appeal_rows (mo_sanctions s) (mo_appeals s)"

abbreviation sanctions_ok :: "time \<Rightarrow> moderation \<Rightarrow> bool" where
  "sanctions_ok \<equiv> sanctions_except {}"

lemma sanctions_frame [simp]:
  "sanctions_except V now (s\<lparr>mo_posts := a\<rparr>) = sanctions_except V now s"
  "sanctions_except V now (s\<lparr>mo_comments := b\<rparr>) = sanctions_except V now s"
  "sanctions_except V now (s\<lparr>mo_postCounts := c\<rparr>) = sanctions_except V now s"
  "sanctions_except V now (s\<lparr>mo_cases := d\<rparr>) = sanctions_except V now s"
  "sanctions_except V now (s\<lparr>mo_enforcements := en\<rparr>) = sanctions_except V now s"
  "sanctions_except V now (s\<lparr>mo_audits := au\<rparr>) = sanctions_except V now s"
  "sanctions_except V now (s\<lparr>mo_notices := n\<rparr>) = sanctions_except V now s"
  "sanctions_except V now (s\<lparr>mo_economy := ec\<rparr>) = sanctions_except V now s"
  by (simp_all add: sanctions_except_def)

lemma ended_by_mono: "ended_by t x \<Longrightarrow> t \<le> now \<Longrightarrow> ended_by now x"
  by (auto simp: ended_by_def split: option.splits)

lemma unexpired_iff: "unexpired now x \<longleftrightarrow> sa_expiresAt x \<noteq> None \<and> \<not> ended_by now x"
  by (auto simp: unexpired_def ended_by_def split: option.splits)

lemma sanctions_later: "sanctions_except V t s \<Longrightarrow> t \<le> now \<Longrightarrow> sanctions_except V now s"
  unfolding sanctions_except_def sanction_rows_def sanction_ok_def using ended_by_mono by fastforce

section \<open>Ending sanctions\<close>

definition settle :: "time \<Rightarrow> sanction \<Rightarrow> sanction" where
  "settle now x =
     (if sa_status x \<noteq> Sanction_active then x
      else if ended_by now x then x\<lparr>sa_status := Sanction_expired\<rparr>
      else x\<lparr>sa_status := Sanction_revoked, sa_revokedAt := Some now\<rparr>)"

lemma settle_fields [simp]:
  "sa_id (settle now x) = sa_id x" "sa_subject (settle now x) = sa_subject x" "sa_actor (settle now x) = sa_actor x"
  "sa_type (settle now x) = sa_type x" "sa_scope (settle now x) = sa_scope x" "sa_gameId (settle now x) = sa_gameId x"
  "sa_startsAt (settle now x) = sa_startsAt x" "sa_expiresAt (settle now x) = sa_expiresAt x"
  "sa_violationId (settle now x) = sa_violationId x" "sa_requestKey (settle now x) = sa_requestKey x"
  by (simp_all add: settle_def)

lemma settle_inactive [simp]: "sa_status (settle now x) \<noteq> Sanction_active"
  by (simp add: settle_def)

lemma settle_not_revoked: "sa_status (settle now x) \<noteq> Sanction_revoked \<Longrightarrow> sa_status x \<noteq> Sanction_revoked"
  by (auto simp: settle_def split: if_splits)

lemma ended_by_settle [simp]: "ended_by t (settle now x) = ended_by t x"
  by (simp add: ended_by_def)

lemma same_kind_settle [simp]: "same_kind (settle now x) y = same_kind x y" "same_kind x (settle now y) = same_kind x y"
  by (simp_all add: same_kind_def)

lemma settle_ok: "sanction_ok now x \<Longrightarrow> sanction_ok now (settle now x)"
  by (auto simp: sanction_ok_def sanction_checks_def settle_def ended_by_def split: option.splits)

definition settle_if :: "(sanction \<Rightarrow> bool) \<Rightarrow> time \<Rightarrow> sanction \<Rightarrow> sanction" where
  "settle_if p now x = (if p x then settle now x else x)"

lemma settle_if_fields [simp]:
  "sa_id (settle_if p now x) = sa_id x" "sa_subject (settle_if p now x) = sa_subject x" "sa_actor (settle_if p now x) = sa_actor x"
  "sa_type (settle_if p now x) = sa_type x" "sa_scope (settle_if p now x) = sa_scope x" "sa_gameId (settle_if p now x) = sa_gameId x"
  "sa_startsAt (settle_if p now x) = sa_startsAt x" "sa_expiresAt (settle_if p now x) = sa_expiresAt x"
  "sa_violationId (settle_if p now x) = sa_violationId x" "sa_requestKey (settle_if p now x) = sa_requestKey x"
  "ended_by t (settle_if p now x) = ended_by t x"
  by (simp_all add: settle_if_def)

lemma settle_if_never: "settle_if (\<lambda>_. False) now = id"
  by (rule ext) (simp add: settle_if_def)

lemma settle_if_follows: "follows (settle_if p now x) (settle_if q now y) \<Longrightarrow> follows x y"
  using settle_not_revoked by (auto simp: follows_def settle_if_def same_kind_def split: if_splits)

lemma settled_rows: "sanction_rows now xs \<Longrightarrow> sanction_rows now (map (settle_if p now) xs)"
  unfolding sanction_rows_def
  by (auto simp: comp_def numbered_def dest: settle_if_follows) (simp add: settle_if_def settle_ok)

lemma settled_attached: "attached_except V vs xs \<Longrightarrow> attached_except V vs (map (settle_if p now) xs)"
  unfolding attached_except_def by (auto simp: settle_if_def)

lemma appeals_map:
  "(\<And>x. sa_id (f x) = sa_id x) \<Longrightarrow> (\<And>x. sa_actor (f x) = sa_actor x) \<Longrightarrow> appeal_rows xs as \<Longrightarrow> appeal_rows (map f xs) as"
  by (auto simp: appeal_rows_def appeal_ok_def)

lemma settled_appeals: "appeal_rows xs as \<Longrightarrow> appeal_rows (map (settle_if p now) xs) as"
  by (rule appeals_map) simp_all

lemma settled_sanctions:
  "sanctions_except V now s \<Longrightarrow> sanctions_except V now (s\<lparr>mo_sanctions := map (settle_if p now) (mo_sanctions s)\<rparr>)"
  by (simp add: sanctions_except_def settled_rows settled_attached settled_appeals)

lemma on_id_settle:
  assumes "numbered sa_id xs" and "x \<in> set xs"
  shows "on_id sa_id (sa_id x) (settle now) xs = map (settle_if ((=) x) now) xs"
  using assms numbered_inj by (fastforce simp: on_id_def settle_if_def)

text \<open>What a step that ends sanctions does, up to the audit and the notices it writes.\<close>

definition ends :: "(sanction \<Rightarrow> bool) \<Rightarrow> time \<Rightarrow> 'a moderation_tx \<Rightarrow> moderation \<Rightarrow> bool" where
  "ends p now m s \<longleftrightarrow> (\<exists>au n x. m s = Inr (s\<lparr>mo_sanctions := map (settle_if p now) (mo_sanctions s),
     mo_audits := au, mo_notices := n\<rparr>, x))"

lemma update_active:
  assumes "sanction_rows now (mo_sanctions s)" and "x \<in> set (mo_sanctions s)" and "sa_status x = Sanction_active"
    and "f x = settle now x"
  shows "update_sanction (sa_id x) f s = Inr (s\<lparr>mo_sanctions := map (settle_if ((=) x) now) (mo_sanctions s)\<rparr>, ())"
proof -
  have num: "numbered sa_id (mo_sanctions s)" and ok: "sanction_ok now x" using assms(1,2) by (auto simp: sanction_rows_def)
  have "on_id sa_id (sa_id x) f (mo_sanctions s) = map (settle_if ((=) x) now) (mo_sanctions s)"
    using assms(2,4) numbered_inj [OF num] by (fastforce simp: on_id_def settle_if_def)
  with numbered_row [OF num assms(2)] settle_ok [OF ok] assms(4) show ?thesis
    by (simp add: update_sanction_def sanction_ok_def)
qed

lemma settle_if_other: "sa_status x \<noteq> Sanction_active \<Longrightarrow> map (settle_if ((=) x) now) xs = xs"
  by (auto simp: settle_if_def settle_def intro!: map_idI)

lemma revoke_tx_ends:
  assumes "sanction_rows now (mo_sanctions s)" and "x \<in> set (mo_sanctions s)"
  shows "ends ((=) x) now (revoke_tx now actor reason x) s"
proof (cases "sa_status x = Sanction_active")
  case True
  show ?thesis
  proof (cases "ended_by now x")
    case ended: True
    have f: "x\<lparr>sa_status := Sanction_expired\<rparr> = settle now x" using True ended by (simp add: settle_def)
    show ?thesis
      using True ended update_active [OF assms True, of "\<lambda>r. r\<lparr>sa_status := Sanction_expired\<rparr>", OF f]
      by (auto simp: ends_def revoke_tx_def ended_by_def expire_sanction_def audit_def send_notice_def tx_simps
          split: option.splits)
  next
    case running: False
    have f: "x\<lparr>sa_status := Sanction_revoked, sa_revokedAt := Some now\<rparr> = settle now x" using True running by (simp add: settle_def)
    show ?thesis
      using True running update_active [OF assms True, of "\<lambda>r. r\<lparr>sa_status := Sanction_revoked, sa_revokedAt := Some now\<rparr>", OF f]
      by (auto simp: ends_def revoke_tx_def ended_by_def audit_def send_notice_def tx_simps split: option.splits)
  qed
next
  case False
  then have "sa_status x = Sanction_revoked \<or> sa_status x = Sanction_expired" by (cases "sa_status x") auto
  with settle_if_other [OF False] show ?thesis
    unfolding ends_def by (intro exI [of _ "mo_audits s"] exI [of _ "mo_notices s"]) (auto simp: revoke_tx_def tx_simps)
qed

lemma expire_ends:
  assumes "sanction_rows now (mo_sanctions s)" and "x \<in> set (mo_sanctions s)" and "due now x"
  shows "ends ((=) x) now (expire_sanction now actor x) s"
proof -
  have a: "sa_status x = Sanction_active" and f: "x\<lparr>sa_status := Sanction_expired\<rparr> = settle now x"
    using assms(3) by (auto simp: due_def settle_def ended_by_def split: option.splits)
  show ?thesis
    using update_active [OF assms(1,2) a, of "\<lambda>r. r\<lparr>sa_status := Sanction_expired\<rparr>", OF f]
    by (auto simp: ends_def expire_sanction_def audit_def send_notice_def tx_simps)
qed

text \<open>A loop over distinct rows ends each of them.\<close>

lemma loop_ends:
  assumes step: "\<And>x s. x \<in> set xs \<Longrightarrow> sanction_rows now (mo_sanctions s) \<Longrightarrow> x \<in> set (mo_sanctions s) \<Longrightarrow> ends ((=) x) now (f x) s"
    and "sanction_rows now (mo_sanctions s)" and "set xs \<subseteq> set (mo_sanctions s)" and "distinct xs"
  shows "ends (\<lambda>x. x \<in> set xs) now (tx_map f xs) s"
  using assms
proof (induction xs arbitrary: s)
  case Nil
  show ?case unfolding ends_def
    by (intro exI [of _ "mo_audits s"] exI [of _ "mo_notices s"]) (simp add: tx_simps settle_if_never)
next
  case (Cons x xs)
  let ?s = "\<lambda>au n. s\<lparr>mo_sanctions := map (settle_if ((=) x) now) (mo_sanctions s), mo_audits := au, mo_notices := n\<rparr>"
  have "ends ((=) x) now (f x) s" using Cons.prems(2,3) by (intro Cons.prems(1)) auto
  then obtain au n y where run: "f x s = Inr (?s au n, y)" unfolding ends_def by blast
  have rows: "sanction_rows now (mo_sanctions (?s au n))" using Cons.prems(2) by (simp add: settled_rows)
  have "set xs \<subseteq> set (mo_sanctions (?s au n))"
  proof
    fix z assume z: "z \<in> set xs"
    with Cons.prems(4) have "settle_if ((=) x) now z = z" by (auto simp: settle_if_def)
    moreover have "z \<in> set (mo_sanctions s)" using z Cons.prems(3) by auto
    ultimately show "z \<in> set (mo_sanctions (?s au n))" by (simp add: image_iff) metis
  qed
  then have "ends (\<lambda>x. x \<in> set xs) now (tx_map f xs) (?s au n)"
    using Cons.prems(4) by (intro Cons.IH Cons.prems(1) rows) auto
  then obtain au' n' ys where rest: "tx_map f xs (?s au n) = Inr (?s au n\<lparr>mo_sanctions :=
      map (settle_if (\<lambda>x. x \<in> set xs) now) (mo_sanctions (?s au n)), mo_audits := au', mo_notices := n'\<rparr>, ys)"
    by (auto simp: ends_def)
  have "settle_if (\<lambda>x. x \<in> set xs) now (settle_if ((=) x) now z) = settle_if (\<lambda>y. y \<in> set (x # xs)) now z"
    if "z \<in> set (mo_sanctions s)" for z
  proof (cases "z = x")
    case True
    then show ?thesis by (auto simp: settle_if_def settle_def)
  next
    case False
    then show ?thesis by (auto simp: settle_if_def)
  qed
  then have both: "map (settle_if (\<lambda>x. x \<in> set xs) now \<circ> settle_if ((=) x) now) (mo_sanctions s)
      = map (settle_if (\<lambda>y. y \<in> set (x # xs)) now) (mo_sanctions s)" by simp
  have "tx_map f (x # xs) s = Inr (s\<lparr>mo_sanctions := map (settle_if (\<lambda>y. y \<in> set (x # xs)) now) (mo_sanctions s),
      mo_audits := au', mo_notices := n'\<rparr>, y # ys)"
    using rest by (simp add: tx_simps run both)
  then show ?case unfolding ends_def by blast
qed

lemma ends_valid:
  assumes "\<And>s. P s \<Longrightarrow> ends p now m s" and "\<And>s. P s \<Longrightarrow> Q (s\<lparr>mo_sanctions := map (settle_if p now) (mo_sanctions s)\<rparr>)"
    and "\<And>s a n. Q s \<Longrightarrow> Q (s\<lparr>mo_audits := a, mo_notices := n\<rparr>)"
  shows "tx_valid P m (\<lambda>_. Q)"
proof (rule tx_validI)
  fix s s' :: moderation and x
  assume "P s" and "m s = Inr (s', x)"
  with assms(1) [of s] obtain a n where "s' = s\<lparr>mo_sanctions := map (settle_if p now) (mo_sanctions s)\<rparr>\<lparr>mo_audits := a, mo_notices := n\<rparr>"
    by (auto simp: ends_def)
  with assms(2) [OF \<open>P s\<close>] assms(3) show "Q s'" by blast
qed

section \<open>Reversing a finding\<close>

lemma reverse_tx_keeps: "tx_keeps (sanctions_ok now) (reverse_tx now actor i reason)"
proof -
  have v: "tx_valid (sanctions_ok now) (tx_modify (\<lambda>s. s\<lparr>mo_violations := on_id vi_id i
      (\<lambda>v. if vi_reversedAt v = None then v\<lparr>vi_reversedAt := Some now\<rparr> else v) (mo_violations s)\<rparr>)) (\<lambda>_. sanctions_except {i} now)"
    by (rule tx_valid_modify)
       (fastforce simp: sanctions_except_def violation_rows_def attached_except_def set_on_id split: if_splits)
  have loop: "tx_valid (\<lambda>s. sanctions_except {i} now s \<and> filter (\<lambda>x. sa_violationId x = Some i \<and> sa_status x \<noteq> Sanction_revoked) (mo_sanctions s) = xs)
      (tx_map (revoke_tx now actor reason) xs) (\<lambda>_. sanctions_ok now)" for xs
  proof (rule ends_valid)
    fix s
    assume pre: "sanctions_except {i} now s \<and> filter (\<lambda>x. sa_violationId x = Some i \<and> sa_status x \<noteq> Sanction_revoked) (mo_sanctions s) = xs"
    then have rows: "sanction_rows now (mo_sanctions s)" by (simp add: sanctions_except_def)
    have "distinct xs"
      using pre numbered_distinct [of sa_id "mo_sanctions s"] rows by (auto simp: sanction_rows_def distinct_map)
    with rows pre show "ends (\<lambda>x. x \<in> set xs) now (tx_map (revoke_tx now actor reason) xs) s"
      by (intro loop_ends revoke_tx_ends) auto
    let ?t = "s\<lparr>mo_sanctions := map (settle_if (\<lambda>x. x \<in> set xs) now) (mo_sanctions s)\<rparr>"
    have "sanctions_except {i} now ?t" using pre settled_sanctions by blast
    moreover have "sa_violationId x \<noteq> Some i" if "x \<in> set (mo_sanctions ?t)" "sa_status x = Sanction_active" for x
      using that pre by (auto simp: settle_if_def split: if_splits)
    ultimately show "sanctions_ok now ?t" unfolding sanctions_except_def attached_except_def by blast
  qed simp
  show ?thesis unfolding reverse_tx_def
    apply (intro tx_valid_gets_bind)
    apply (rule tx_valid_bind [OF tx_valid_pre [OF v]], simp)
    apply (rule tx_valid_bind [where R = "\<lambda>_. sanctions_except {i} now"])
     apply (intro mod_keeps tx_intros, simp)
    apply (rule tx_valid_gets_bind)
    apply (rule tx_valid_bind [OF loop])
    apply (simp add: tx_valid_return)
    done
qed

section \<open>Requests keep the rows\<close>

lemma violation_added:
  assumes "violation_rows vs" and "vi_id v = length vs" and "scope_check (vi_scope v) (vi_gameId v)"
    and "\<not> (\<exists>w \<in> set vs. vi_reversedAt w = None \<and> (vi_caseId w = vi_caseId v \<or> vi_incidentKey w = vi_incidentKey v))"
  shows "violation_rows (vs @ [v])"
proof -
  have "w = v" if "w \<in> set (vs @ [v])" "vi_reversedAt w = None" "vi_caseId w = vi_caseId v \<or> vi_incidentKey w = vi_incidentKey v" for w
    using that assms(4) by auto
  with assms(1-3) show ?thesis unfolding violation_rows_def by (auto; metis)
qed

lemma create_violation_keeps:
  assumes "\<And>n. vi_id (mk n) = n"
  shows "tx_keeps (sanctions_ok now) (create_violation mk)"
proof (rule tx_validI)
  fix s s' :: moderation and v
  assume ok: "sanctions_ok now s" and run: "create_violation mk s = Inr (s', v)"
  let ?v = "mk (length (mo_violations s))"
  from run have "violation_rows (mo_violations s @ [?v])" and s': "s' = s\<lparr>mo_violations := mo_violations s @ [?v]\<rparr>"
    using ok assms by (auto simp: create_violation_def Let_def sanctions_except_def intro!: violation_added split: if_splits)
  with ok show "sanctions_ok now s'" unfolding s' sanctions_except_def attached_except_def by auto
qed

lemma create_appeal_keeps:
  assumes "\<And>n. mk n = \<lparr>ap_id = n, ap_sanction = i, ap_statement = text, ap_status = Appeal_pending,
    ap_reviewer = None, ap_decisionReason = None, ap_reviewedAt = None\<rparr>"
  shows "tx_valid (\<lambda>s. sanctions_ok now s \<and> (\<exists>x \<in> set (mo_sanctions s). sa_id x = i)) (create_appeal mk) (\<lambda>_. sanctions_ok now)"
  using assms
  by (auto simp: tx_valid_def create_appeal_def Let_def sanctions_except_def appeal_rows_def appeal_ok_def split: if_splits)

definition may_start :: "time \<Rightarrow> sanction \<Rightarrow> moderation \<Rightarrow> bool" where
  "may_start now x s \<longleftrightarrow> sa_startsAt x = now \<and> sa_status x = Sanction_active
     \<and> (sa_type x = WARNING \<or> (\<forall>y \<in> set (mo_sanctions s). same_kind y x \<longrightarrow> sa_status y = Sanction_active \<longrightarrow> \<not> unexpired now y))
     \<and> (\<forall>i. sa_violationId x = Some i \<longrightarrow> (\<exists>v \<in> set (mo_violations s). vi_id v = i \<and> vi_reversedAt v = None))"

lemma started_rows:
  assumes rows: "sanction_rows now (mo_sanctions s)" and start: "may_start now x s" and checks: "sanction_checks x"
    and id: "sa_id x = length (mo_sanctions s)" and key: "sa_requestKey x \<notin> sa_requestKey ` set (mo_sanctions s)"
  shows "sanction_rows now (mo_sanctions s @ [x])"
proof -
  have num: "numbered sa_id (mo_sanctions s)" and okay: "\<And>y. y \<in> set (mo_sanctions s) \<Longrightarrow> sanction_ok now y"
    using rows by (auto simp: sanction_rows_def)
  have old: "ended_by now y" if y: "y \<in> set (mo_sanctions s)" and f: "follows y x" for y
  proof (cases "sa_status y")
    case Sanction_active
    have "same_kind y x" "sa_type y \<noteq> WARNING" "sa_type x \<noteq> WARNING" using f by (auto simp: follows_def same_kind_def)
    then have "\<not> unexpired now y" using start y Sanction_active by (auto simp: may_start_def)
    moreover have "sa_expiresAt y \<noteq> None"
      using okay [OF y] \<open>sa_type y \<noteq> WARNING\<close> by (auto simp: sanction_ok_def sanction_checks_def split: option.splits)
    ultimately show ?thesis by (simp add: unexpired_iff)
  next
    case Sanction_expired
    then show ?thesis using okay [OF y] by (simp add: sanction_ok_def)
  next
    case Sanction_revoked
    then show ?thesis using f by (simp add: follows_def)
  qed
  have "\<not> follows x y" if "y \<in> set (mo_sanctions s @ [x])" for y
    using that id numbered_less [OF num, of y] by (cases "y = x") (auto simp: follows_def)
  moreover have "sanction_ok now x" using start checks by (simp add: sanction_ok_def may_start_def)
  moreover have "sa_startsAt x = now" using start by (simp add: may_start_def)
  ultimately show ?thesis
    using rows id key old by (auto simp: sanction_rows_def)
qed

lemma create_sanction_keeps:
  assumes "\<And>n. sa_id (mk n) = n"
  shows "tx_valid (\<lambda>s. sanctions_ok now s \<and> (\<forall>n. may_start now (mk n) s)) (create_sanction mk) (\<lambda>_. sanctions_ok now)"
proof (rule tx_validI)
  fix s s' :: moderation and y
  assume pre: "sanctions_ok now s \<and> (\<forall>n. may_start now (mk n) s)" and run: "create_sanction mk s = Inr (s', y)"
  let ?x = "mk (length (mo_sanctions s))"
  from run have s': "s' = s\<lparr>mo_sanctions := mo_sanctions s @ [?x]\<rparr>" and c: "sanction_checks ?x"
    and k: "sa_requestKey ?x \<notin> sa_requestKey ` set (mo_sanctions s)"
    by (auto simp: create_sanction_def Let_def split: if_splits)
  have "sanction_rows now (mo_sanctions s @ [?x])"
    using pre assms c k by (intro started_rows) (auto simp: sanctions_except_def)
  moreover have "attached_except {} (mo_violations s) (mo_sanctions s @ [?x])"
    using pre by (auto simp: sanctions_except_def attached_except_def may_start_def)
  moreover have "appeal_rows (mo_sanctions s @ [?x]) (mo_appeals s)"
    using pre by (auto simp: sanctions_except_def appeal_rows_def appeal_ok_def)
  ultimately show "sanctions_ok now s'" using pre unfolding s' by (simp add: sanctions_except_def)
qed

lemma matching_violation_stands:
  "matching_violation (Some i) case_id u ctx s \<Longrightarrow> \<exists>v \<in> set (mo_violations s). vi_id v = i \<and> vi_reversedAt v = None"
  by (auto simp: matching_violation_def split: option.splits dest: find_row_Some)

lemma issue_sanction_keeps: "tx_keeps (sanctions_ok now) (issue_sanction now ctx case_id t dto reason e h)"
proof -
  define mk where "mk n = \<lparr>sa_id = n, sa_subject = ct_author t, sa_actor = mx_actor ctx,
       sa_type = sd_type dto, sa_scope = mx_scope ctx, sa_gameId = mx_gameId ctx, sa_caseId = case_id,
       sa_violationId = sd_violationId dto, sa_enforcementId = sd_enforcementId dto, sa_reason = reason,
       sa_startsAt = now, sa_expiresAt = e, sa_status = Sanction_active, sa_revokedAt = None,
       sa_requestKey = (mx_actor ctx, sd_requestKey dto), sa_requestHash = h\<rparr>" for n
  have c: "tx_valid (\<lambda>s. sanctions_ok now s \<and> (\<forall>n. may_start now (mk n) s)) (create_sanction mk) (\<lambda>_. sanctions_ok now)"
    by (rule create_sanction_keeps) (simp add: mk_def)
  have start: "may_start now (mk n) s" if "sd_type dto = WARNING \<or> filter (effective_like now (ct_author t) (sd_type dto) ctx) (mo_sanctions s) = []"
      and "matching_violation (sd_violationId dto) case_id (ct_author t) ctx s" for s n
    using that matching_violation_stands [of _ case_id "ct_author t" ctx s]
    by (auto simp: may_start_def mk_def same_kind_def effective_like_def filter_empty_conv)
  show ?thesis unfolding issue_sanction_def mk_def [symmetric]
    apply (intro tx_valid_gets_bind tx_valid_require_bind)
    apply (rule tx_valid_bind [OF tx_valid_pre [OF c]])
     apply (use start in blast)
    apply (intro mod_keeps tx_intros; simp)
    done
qed

lemma scoped_finds:
  "tx_valid P (scoped_sanction st now actor i slug) (\<lambda>r s. P s \<and> snd r \<in> set (mo_sanctions s) \<and> sa_id (snd r) = i
     \<and> mx_actor (fst r) = actor)"
proof -
  have c: "tx_valid P (moderation_context st now actor slug) (\<lambda>ctx s. P s \<and> mx_actor ctx = actor)"
    unfolding moderation_context_def
    by (intro tx_valid_result_bind tx_valid_require_bind tx_valid_gets_bind tx_valid_return) auto
  show ?thesis unfolding scoped_sanction_def
    by (rule tx_valid_bind [OF c])
       (intro tx_valid_gets_bind tx_valid_option tx_valid_if tx_valid_fail tx_valid_result_bind tx_valid_return,
        auto dest: find_row_Some)
qed

lemma revoke_tx_keeps:
  "tx_valid (\<lambda>s. sanctions_ok now s \<and> x \<in> set (mo_sanctions s)) (revoke_tx now actor reason x) (\<lambda>_. sanctions_ok now)"
  by (rule ends_valid [where p = "(=) x"]) (auto intro: revoke_tx_ends settled_sanctions simp: sanctions_except_def
      settled_rows settled_attached settled_appeals)

lemma reconcile_keeps: "tx_keeps (sanctions_ok now) (reconcile now)"
proof -
  have loop: "tx_valid (\<lambda>s. sanctions_ok now s \<and> take 100 (sort_by expires_before (filter (due now) (mo_sanctions s))) = xs)
      (tx_map (expire_sanction now None) xs) (\<lambda>_. sanctions_ok now)" for xs
  proof (rule ends_valid)
    fix s
    assume pre: "sanctions_ok now s \<and> take 100 (sort_by expires_before (filter (due now) (mo_sanctions s))) = xs"
    then have rows: "sanction_rows now (mo_sanctions s)" by (simp add: sanctions_except_def)
    have "distinct (mo_sanctions s)"
      using rows numbered_distinct [of sa_id "mo_sanctions s"] by (auto simp: sanction_rows_def distinct_map)
    with pre have d: "distinct xs" by (metis distinct_filter distinct_sort_by distinct_take)
    have sub: "x \<in> set (mo_sanctions s) \<and> due now x" if "x \<in> set xs" for x
      using that pre in_set_takeD [of x 100 "sort_by expires_before (filter (due now) (mo_sanctions s))"] by auto
    show "ends (\<lambda>x. x \<in> set xs) now (tx_map (expire_sanction now None) xs) s"
      using sub by (intro loop_ends expire_ends rows d) auto
    show "sanctions_ok now (s\<lparr>mo_sanctions := map (settle_if (\<lambda>x. x \<in> set xs) now) (mo_sanctions s)\<rparr>)"
      using pre settled_sanctions by blast
  qed simp
  show ?thesis unfolding reconcile_def
    by (intro tx_valid_gets_bind tx_valid_bind [OF loop] tx_valid_return)
qed

lemma adjusted_rows:
  assumes rows: "sanction_rows now xs" and x: "x \<in> set xs" "sa_status x = Sanction_active" "unexpired now x"
    and e: "now < e" and checks: "sanction_checks (x\<lparr>sa_expiresAt := Some e\<rparr>)"
  shows "sanction_rows now (on_id sa_id (sa_id x) (\<lambda>r. r\<lparr>sa_expiresAt := Some e\<rparr>) xs)"
proof -
  define f where "f r = (if sa_id r = sa_id x then r\<lparr>sa_expiresAt := Some e\<rparr> else r)" for r :: sanction
  have eq: "on_id sa_id (sa_id x) (\<lambda>r. r\<lparr>sa_expiresAt := Some e\<rparr>) xs = map f xs" by (simp add: on_id_def f_def)
  have num: "numbered sa_id xs" and okay: "\<And>y. y \<in> set xs \<Longrightarrow> sanction_ok now y" using rows by (auto simp: sanction_rows_def)
  have only: "f y = y" if "y \<in> set xs" "y \<noteq> x" for y using numbered_inj [OF num that(1) x(1)] that(2) by (auto simp: f_def)
  have fields: "sa_id (f y) = sa_id y" "sa_requestKey (f y) = sa_requestKey y" "sa_startsAt (f y) = sa_startsAt y"
    "follows (f y) (f z) = follows y z" for y z by (auto simp: f_def follows_def same_kind_def)
  have last: "\<not> follows x y" if "y \<in> set xs" for y
  proof
    assume "follows x y"
    then have "ended_by (sa_startsAt y) x" using rows x(1) that by (simp add: sanction_rows_def)
    moreover have "sa_startsAt y \<le> now" using okay [OF that] by (simp add: sanction_ok_def)
    ultimately show False using x(3) ended_by_mono unexpired_iff by blast
  qed
  have "sanction_ok now (f y)" if "y \<in> set xs" for y
    using okay [OF that] only [OF that] checks x by (cases "y = x") (auto simp: sanction_ok_def f_def)
  moreover have "ended_by (sa_startsAt z) (f y)" if "y \<in> set xs" "z \<in> set xs" "follows y z" for y z
    using that only last rows by (cases "y = x") (auto simp: sanction_rows_def)
  ultimately show ?thesis using rows num unfolding eq
    by (auto simp: sanction_rows_def numbered_def comp_def fields)
qed

lemma adjust_keeps:
  "tx_valid (\<lambda>s. sanctions_ok now s \<and> x \<in> set (mo_sanctions s) \<and> sa_id x = i \<and> sa_status x = Sanction_active \<and> unexpired now x \<and> now < e)
     (update_sanction i (\<lambda>r. r\<lparr>sa_expiresAt := Some e\<rparr>)) (\<lambda>_. sanctions_ok now)"
proof (rule tx_validI)
  fix s s' :: moderation and u
  assume pre: "sanctions_ok now s \<and> x \<in> set (mo_sanctions s) \<and> sa_id x = i \<and> sa_status x = Sanction_active \<and> unexpired now x \<and> now < e"
    and run: "update_sanction i (\<lambda>r. r\<lparr>sa_expiresAt := Some e\<rparr>) s = Inr (s', u)"
  have num: "numbered sa_id (mo_sanctions s)" using pre by (simp add: sanctions_except_def sanction_rows_def)
  have row: "find_row sa_id i (mo_sanctions s) = Some x" using numbered_row [OF num] pre by blast
  with run have s': "s' = s\<lparr>mo_sanctions := on_id sa_id i (\<lambda>r. r\<lparr>sa_expiresAt := Some e\<rparr>) (mo_sanctions s)\<rparr>"
    and checks: "sanction_checks (x\<lparr>sa_expiresAt := Some e\<rparr>)"
    by (auto simp: update_sanction_def split: if_splits)
  have "sanction_rows now (on_id sa_id i (\<lambda>r. r\<lparr>sa_expiresAt := Some e\<rparr>) (mo_sanctions s))"
    using adjusted_rows [of now "mo_sanctions s" x e] pre checks by (auto simp: sanctions_except_def)
  moreover have "attached_except {} (mo_violations s) (on_id sa_id i (\<lambda>r. r\<lparr>sa_expiresAt := Some e\<rparr>) (mo_sanctions s))"
    using pre by (auto simp: sanctions_except_def attached_except_def set_on_id)
  moreover have "appeal_rows (on_id sa_id i (\<lambda>r. r\<lparr>sa_expiresAt := Some e\<rparr>) (mo_sanctions s)) (mo_appeals s)"
    using pre unfolding on_id_def by (intro appeals_map) (auto simp: sanctions_except_def)
  ultimately show "sanctions_ok now s'" using pre unfolding s' by (simp add: sanctions_except_def)
qed

lemma decide_keeps:
  "tx_valid (\<lambda>s. sanctions_ok now s \<and> (\<forall>a \<in> set (mo_appeals s). ap_id a = i \<longrightarrow>
       \<not> accepted \<longrightarrow> (\<exists>x \<in> set (mo_sanctions s). sa_id x = ap_sanction a \<and> sa_actor x \<noteq> actor)))
     (decide_appeal now actor i accepted reason) (\<lambda>_. sanctions_ok now)"
  unfolding decide_appeal_def
  by (rule tx_valid_modify)
     (fastforce simp: sanctions_except_def appeal_rows_def appeal_ok_def on_id_def comp_def numbered_def if_distrib cong: if_cong)

lemma transition_keeps [content_frames]:
  assumes "\<And>s x. P s \<Longrightarrow> P (s\<lparr>mo_posts := x\<rparr>)" and "\<And>s x. P s \<Longrightarrow> P (s\<lparr>mo_comments := x\<rparr>)"
    and "\<And>s x. P s \<Longrightarrow> P (s\<lparr>mo_postCounts := x\<rparr>)"
  shows "tx_keeps P (transition k i target to)"
proof -
  have p: "tx_keeps P (transition_post i game old to)" for game old
    unfolding transition_post_def
    by (intro tx_keeps_bind tx_valid_gets tx_valid_option tx_valid_if post_writes_keep count_keeps count_writes_keep
        tx_valid_return) (auto intro: assms)
  have c: "tx_keeps P (transition_comment i post old to)" for post old
    unfolding transition_comment_def
    by (intro tx_keeps_bind tx_valid_gets tx_valid_option tx_valid_if tx_keeps_when post_writes_keep comment_writes_keep
        tx_valid_return) (auto intro: assms)
  show ?thesis by (cases k) (simp_all add: transition_def p c)
qed

lemma restore_appealed_keeps [mod_keeps]: "tx_keeps (sanctions_ok now) (restore_appealed_content le now actor e reason)"
  unfolding restore_appealed_content_def Let_def by (intro content_frames mod_keeps tx_intros tx_cases; simp)

lemma content_in_transaction_keeps [mod_keeps]:
  "tx_keeps (sanctions_ok now) (content_in_transaction le t ctx k i hidden reason case_id)"
  unfolding content_in_transaction_def hide_content_def show_content_def restore_enforcement_def move_content_def Let_def
  by (intro content_frames mod_keeps tx_intros tx_cases; simp)

lemma review_consequences_keeps:
  "tx_valid (\<lambda>s. sanctions_ok now s \<and> x \<in> set (mo_sanctions s)) (review_consequences le now ctx x dto reason) (\<lambda>_. sanctions_ok now)"
  unfolding review_consequences_def
  by (rule tx_valid_bind [OF revoke_tx_keeps]) (intro reverse_tx_keeps mod_keeps tx_intros tx_cases, auto)

lemma review_appeal_keeps: "tx_keeps (sanctions_ok now) (review_appeal le st now actor i dto slug)"
proof -
  define linked where "linked a x s \<longleftrightarrow> sanctions_ok now s \<and> find_row ap_id i (mo_appeals s) = Some a
    \<and> x \<in> set (mo_sanctions s) \<and> sa_id x = ap_sanction a" for a x s
  have same: "b = a" if "linked a x s" "b \<in> set (mo_appeals s)" "ap_id b = i" for a b x s
    using that numbered_inj find_row_Some by (fastforce simp: linked_def sanctions_except_def appeal_rows_def)
  have c: "tx_valid (linked a x)
      (if rv_accepted dto then review_consequences le now ctx x dto reason
       else tx_require (\<not> (rv_reverseViolation dto \<or> rv_restoreContent dto)) err)
      (\<lambda>_ s. sanctions_ok now s \<and> (\<not> rv_accepted dto \<longrightarrow> linked a x s))" for a x ctx reason err
    using tx_valid_pre [OF review_consequences_keeps [of now x le ctx dto reason], of "linked a x"]
    by (intro tx_valid_if) (auto simp: linked_def tx_valid_def tx_simps split: if_splits)
  have d: "tx_valid (\<lambda>s. sanctions_ok now s \<and> (\<not> rv_accepted dto \<longrightarrow> linked a x s))
      (decide_appeal now actor i (rv_accepted dto) reason) (\<lambda>_. sanctions_ok now)"
    if "rv_accepted dto \<or> sa_actor x \<noteq> actor" for a x reason
  proof (rule tx_valid_pre [OF decide_keeps])
    fix s assume pre: "sanctions_ok now s \<and> (\<not> rv_accepted dto \<longrightarrow> linked a x s)"
    have "\<exists>x \<in> set (mo_sanctions s). sa_id x = ap_sanction b \<and> sa_actor x \<noteq> actor"
      if b: "b \<in> set (mo_appeals s)" "ap_id b = i" and "\<not> rv_accepted dto" for b
    proof -
      have l: "linked a x s" using pre that(3) by blast
      from same [OF l b] l \<open>rv_accepted dto \<or> sa_actor x \<noteq> actor\<close> that(3) show ?thesis by (auto simp: linked_def)
    qed
    with pre show "sanctions_ok now s \<and> (\<forall>b \<in> set (mo_appeals s). ap_id b = i \<longrightarrow> \<not> rv_accepted dto \<longrightarrow>
        (\<exists>x \<in> set (mo_sanctions s). sa_id x = ap_sanction b \<and> sa_actor x \<noteq> actor))" by blast
  qed
  show ?thesis unfolding review_appeal_def
    apply (intro tx_valid_result_bind tx_valid_gets_bind tx_valid_option tx_valid_fail)
    subgoal for reason found a
      apply (rule tx_valid_bind [OF scoped_finds])
      apply (rule tx_valid_pair)
      apply (intro tx_valid_gets_bind tx_valid_require_bind)
      subgoal for r ctx x adjusted
        apply (rule tx_valid_bind [OF tx_valid_pre [OF c [of a x]]], force simp: linked_def)
        apply (rule tx_valid_bind [OF d], force)
        apply (intro mod_keeps tx_intros; simp)
        done
      done
    done
qed

lemma requests_keep_sanctions:
  "tx_keeps (sanctions_ok now) (content_decision le st t actor k i hidden reason slug case_id)"
  "tx_keeps (sanctions_ok now) (content_for_case le st t actor case_id' hidden reason slug)"
  "tx_keeps (sanctions_ok now) (confirm dg st t actor case_id' cf slug)"
  "tx_keeps (sanctions_ok now) (sanction_request dg st now actor case_id' dto slug)"
  "tx_keeps (sanctions_ok now) (reverse_violation st now actor n reason slug)"
  unfolding content_decision_def content_for_case_def confirm_def sanction_request_def reverse_violation_def Let_def
  by (intro create_violation_keeps issue_sanction_keeps reverse_tx_keeps mod_keeps tx_intros tx_cases; simp)+

lemma revoke_sanction_keeps: "tx_keeps (sanctions_ok now) (revoke_sanction st now actor n reason slug)"
  unfolding revoke_sanction_def
  apply (intro tx_valid_result_bind)
  apply (rule tx_valid_bind [OF scoped_finds], rule tx_valid_pair)
  apply (intro tx_valid_if tx_valid_return tx_valid_fail)
   apply simp
  apply (rule tx_valid_bind [OF tx_valid_pre [OF revoke_tx_keeps]], force)
  apply (simp add: tx_valid_return)
  done

lemma adjust_sanction_keeps: "tx_keeps (sanctions_ok now) (adjust_sanction st now actor n days why slug)"
  unfolding adjust_sanction_def
  apply (intro tx_valid_result_bind)
  apply (rule tx_valid_bind [OF scoped_finds], rule tx_valid_pair)
  apply (intro tx_valid_require_bind tx_valid_result_bind tx_valid_option tx_valid_if tx_valid_fail)
  subgoal for reason r ctx x e d
    apply (rule tx_valid_bind [OF tx_valid_pre [OF adjust_keeps [of now x n d]]], force)
    apply (intro mod_keeps tx_intros; simp)
    done
  done

lemma submit_appeal_keeps: "tx_keeps (sanctions_ok now) (submit_appeal t subject n statement)"
  unfolding submit_appeal_def Let_def
  apply (intro tx_valid_if tx_valid_fail tx_valid_gets_bind tx_valid_option)
  apply (rule tx_valid_bind [OF tx_valid_pre [OF create_appeal_keeps]])
    apply simp
   apply (force dest: find_row_Some)
  apply (intro mod_keeps tx_intros; simp)
  done

lemma author_requests_keep_sanctions:
  "tx_keeps (sanctions_ok now) (create_post i author game title text status)"
  "tx_keeps (sanctions_ok now) (update_post seen before author i t' x' status')"
  "tx_keeps (sanctions_ok now) (delete_post seen b t author i)"
  "tx_keeps (sanctions_ok now) (create_comment i p author text)"
  "tx_keeps (sanctions_ok now) (update_comment seen' author i text)"
  "tx_keeps (sanctions_ok now) (delete_comment seen' t author i)"
  unfolding create_post_def update_post_def delete_post_def create_comment_def update_comment_def delete_comment_def Let_def
  by (intro content_frames mod_keeps tx_intros tx_cases; simp)+

end
