(* ===== verification/Moderation_System.thy ===== *)
theory Moderation_System
  imports Moderation_Sanctions
begin

text \<open>
  Moderation and authors as one step relation over a clock that never runs back: any request by
  anyone, in any order, beside anything reports, the economy and new communities do. When \<open>fresh\<close>
  is set, an author's request counts by the row as it is when it writes; otherwise by any earlier read.
\<close>

section \<open>What moderation does to the economy\<close>

definition earned :: "moderation \<Rightarrow> bool" where
  "earned s \<longleftrightarrow> economy_race\<^sup>*\<^sup>* no_economy (mo_economy s)"

lemma earned_frame [simp]:
  "earned (s\<lparr>mo_posts := a\<rparr>) = earned s" "earned (s\<lparr>mo_comments := b\<rparr>) = earned s"
  "earned (s\<lparr>mo_postCounts := c\<rparr>) = earned s" "earned (s\<lparr>mo_cases := d\<rparr>) = earned s"
  "earned (s\<lparr>mo_enforcements := en\<rparr>) = earned s" "earned (s\<lparr>mo_violations := v\<rparr>) = earned s"
  "earned (s\<lparr>mo_sanctions := x\<rparr>) = earned s" "earned (s\<lparr>mo_appeals := ap\<rparr>) = earned s"
  "earned (s\<lparr>mo_audits := au\<rparr>) = earned s" "earned (s\<lparr>mo_notices := n\<rparr>) = earned s"
  by (simp_all add: earned_def)

lemma earned_step: "earned s \<Longrightarrow> economy_step (mo_economy s) ec \<Longrightarrow> earned (s\<lparr>mo_economy := ec\<rparr>)"
  unfolding earned_def by (auto intro: rtranclp.rtrancl_into_rtrancl economy_race.calm)

lemma awards_keep_earned:
  "tx_keeps earned (in_economy (revoke_for_content le now t i))" "tx_keeps earned (in_economy (restore_for_content le now t i))"
  by (auto simp: tx_valid_def in_economy_def split: sum.splits
      intro: earned_step economy_step.hidden economy_step.shown)

lemma move_content_earned [mod_keeps]: "tx_keeps earned (move_content le now k i target hidden)"
  unfolding move_content_def Let_def
  by (intro tx_keeps_when tx_keeps_bind transition_keeps tx_keeps_require) (auto simp: awards_keep_earned)

lemma restore_appealed_earned [mod_keeps]: "tx_keeps earned (restore_appealed_content le now actor e reason)"
  unfolding restore_appealed_content_def Let_def
  by (intro tx_keeps_when tx_keeps_bind tx_valid_gets transition_keeps awards_keep_earned enforcement_writes_keep
      audit_keeps notice_keeps) auto

lemma requests_keep_earned:
  "tx_keeps earned (content_decision le st now actor k i hidden reason slug case_id)"
  "tx_keeps earned (content_for_case le st now actor case_id' hidden reason slug)"
  "tx_keeps earned (confirm dg st now actor case_id' cf slug)"
  "tx_keeps earned (sanction_request dg st now actor case_id' dto slug)"
  "tx_keeps earned (revoke_sanction st now actor n reason slug)"
  "tx_keeps earned (adjust_sanction st now actor n days reason slug)"
  "tx_keeps earned (reverse_violation st now actor n reason slug)"
  "tx_keeps earned (submit_appeal now subject n reason)"
  "tx_keeps earned (review_appeal le st now actor n rv slug)"
  "tx_keeps earned (reconcile now)"
  "tx_keeps earned (create_post i author game title body status)"
  "tx_keeps earned (update_post seen before author i title' body' status')"
  "tx_keeps earned (delete_post seen b now author i)"
  "tx_keeps earned (create_comment i p author body)"
  "tx_keeps earned (update_comment seen' author i body)"
  "tx_keeps earned (delete_comment seen' now author i)"
  unfolding content_decision_def content_for_case_def content_in_transaction_def hide_content_def show_content_def
    restore_enforcement_def confirm_def sanction_request_def issue_sanction_def revoke_sanction_def adjust_sanction_def
    reverse_violation_def submit_appeal_def review_appeal_def review_consequences_def reverse_tx_def revoke_tx_def
    expire_sanction_def reconcile_def create_post_def update_post_def delete_post_def create_comment_def
    update_comment_def delete_comment_def Let_def
  by (intro content_frames mod_keeps tx_intros tx_cases; simp)+

section \<open>Steps\<close>

definition no_moderation :: moderation where
  "no_moderation = \<lparr>mo_posts = [], mo_comments = [], mo_postCounts = [], mo_cases = [], mo_enforcements = [],
     mo_violations = [], mo_sanctions = [], mo_appeals = [], mo_audits = [], mo_notices = [], mo_economy = no_economy\<rparr>"

inductive moderation_request :: "bool \<Rightarrow> time \<Rightarrow> moderation \<Rightarrow> moderation \<Rightarrow> bool" for fresh now where
  decided: "content_decision le st now actor k i hidden reason slug case_id s = Inr (s', x) \<Longrightarrow> moderation_request fresh now s s'"
| case_decided: "content_for_case le st now actor c hidden reason slug s = Inr (s', x) \<Longrightarrow> moderation_request fresh now s s'"
| confirmed: "confirm dg st now actor c cf slug s = Inr (s', v) \<Longrightarrow> moderation_request fresh now s s'"
| sanctioned: "sanction_request dg st now actor c dto slug s = Inr (s', y) \<Longrightarrow> moderation_request fresh now s s'"
| revoked: "revoke_sanction st now actor n reason slug s = Inr (s', z) \<Longrightarrow> moderation_request fresh now s s'"
| adjusted: "adjust_sanction st now actor n days reason slug s = Inr (s', e) \<Longrightarrow> moderation_request fresh now s s'"
| reversed: "reverse_violation st now actor n reason slug s = Inr (s', u) \<Longrightarrow> moderation_request fresh now s s'"
| appealed: "submit_appeal now subject n reason s = Inr (s', a) \<Longrightarrow> moderation_request fresh now s s'"
| reviewed: "review_appeal le st now actor n rv slug s = Inr (s', d) \<Longrightarrow> moderation_request fresh now s s'"
| reconciled: "reconcile now s = Inr (s', n) \<Longrightarrow> moderation_request fresh now s s'"
| post_created: "new_id i s \<Longrightarrow> status \<in> {Draft, Published} \<Longrightarrow>
    create_post i author game title body status s = Inr (s', u) \<Longrightarrow> moderation_request fresh now s s'"
| post_updated: "(fresh \<Longrightarrow> as_it_is i before s) \<Longrightarrow> change \<in> {None, Some Draft, Some Published} \<Longrightarrow>
    update_post seen before author i title' body' change s = Inr (s', u) \<Longrightarrow> moderation_request fresh now s s'"
| post_deleted: "(fresh \<Longrightarrow> as_it_is i (fst b) s) \<Longrightarrow>
    delete_post seen b now author i s = Inr (s', u) \<Longrightarrow> moderation_request fresh now s s'"
| comment_created: "new_id i s \<Longrightarrow> create_comment i p author body s = Inr (s', u) \<Longrightarrow> moderation_request fresh now s s'"
| comment_updated: "update_comment seen' author i body s = Inr (s', u) \<Longrightarrow> moderation_request fresh now s s'"
| comment_deleted: "delete_comment seen' now author i s = Inr (s', u) \<Longrightarrow> moderation_request fresh now s s'"

text \<open>What the rest of the platform does beside them.\<close>

inductive moderation_step :: "bool \<Rightarrow> time \<Rightarrow> moderation \<Rightarrow> moderation \<Rightarrow> bool" for fresh now where
  requested: "moderation_request fresh now s s' \<Longrightarrow> moderation_step fresh now s s'"
| reports_moved: "moderation_step fresh now s (s\<lparr>mo_cases := cs\<rparr>)"
| economy_moved: "economy_race (mo_economy s) ec \<Longrightarrow> moderation_step fresh now s (s\<lparr>mo_economy := ec\<rparr>)"
| community_created: "published_in g (mo_posts s) = 0 \<Longrightarrow>
    moderation_step fresh now s (s\<lparr>mo_postCounts := AList.update g 0 (mo_postCounts s)\<rparr>)"

inductive timed_step :: "bool \<Rightarrow> time \<times> moderation \<Rightarrow> time \<times> moderation \<Rightarrow> bool" for fresh where
  timed: "t \<le> now \<Longrightarrow> moderation_step fresh now s s' \<Longrightarrow> timed_step fresh (t, s) (now, s')"

inductive_cases timed_stepE: "timed_step fresh p q"

definition moderation_ok :: "time \<times> moderation \<Rightarrow> bool" where
  "moderation_ok p \<longleftrightarrow> content_ok (snd p) \<and> sanctions_ok (fst p) (snd p) \<and> earned (snd p)"

definition counted_ok :: "time \<times> moderation \<Rightarrow> bool" where
  "counted_ok p \<longleftrightarrow> counts_ok (snd p)"

lemma no_moderation_ok: "moderation_ok (t, no_moderation)" "counted_ok (t, no_moderation)"
  by (simp_all add: moderation_ok_def counted_ok_def no_moderation_def content_except_def counts_off_def sanctions_except_def
      sanction_rows_def violation_rows_def attached_except_def appeal_rows_def earned_def)

lemmas keep_content = decisions_keep_content requests_keep_content create_post_content update_post_content
  delete_post_content create_comment_content comment_changes_content

lemmas keep_sanctions = requests_keep_sanctions revoke_sanction_keeps adjust_sanction_keeps submit_appeal_keeps
  review_appeal_keeps reconcile_keeps author_requests_keep_sanctions

lemmas keep_counts = requests_keep_counts create_post_counts update_post_counts delete_post_counts
  create_comment_counts comment_changes_counts

lemma request_content: "moderation_request fresh now s s' \<Longrightarrow> content_ok s \<Longrightarrow> content_ok s'"
  by (induction rule: moderation_request.induct) (auto dest!: keep_content [THEN tx_validD, rotated])

lemma request_sanctions: "moderation_request fresh now s s' \<Longrightarrow> sanctions_ok now s \<Longrightarrow> sanctions_ok now s'"
  by (induction rule: moderation_request.induct) (auto dest!: keep_sanctions [THEN tx_validD, rotated])

lemma request_earned: "moderation_request fresh now s s' \<Longrightarrow> earned s \<Longrightarrow> earned s'"
  by (induction rule: moderation_request.induct) (auto dest!: requests_keep_earned [THEN tx_validD, rotated])

lemma request_counts: "moderation_request True now s s' \<Longrightarrow> counts_ok s \<Longrightarrow> counts_ok s'"
  by (induction rule: moderation_request.induct) (auto dest!: keep_counts [THEN tx_validD, rotated])

lemma step_content: "moderation_step fresh now s s' \<Longrightarrow> content_ok s \<Longrightarrow> content_ok s'"
  by (induction rule: moderation_step.induct) (simp_all add: request_content)

lemma step_sanctions: "moderation_step fresh now s s' \<Longrightarrow> sanctions_ok now s \<Longrightarrow> sanctions_ok now s'"
  by (induction rule: moderation_step.induct) (simp_all add: request_sanctions)

lemma step_earned: "moderation_step fresh now s s' \<Longrightarrow> earned s \<Longrightarrow> earned s'"
  by (induction rule: moderation_step.induct)
     (simp_all add: request_earned, simp add: earned_def rtranclp.rtrancl_into_rtrancl)

lemma step_counts: "moderation_step True now s s' \<Longrightarrow> counts_ok s \<Longrightarrow> counts_ok s'"
  by (induction rule: moderation_step.induct) (simp_all add: request_counts, simp_all add: counts_off_def)

interpretation moderated: state_machine "\<lambda>p. snd p = no_moderation" "timed_step fresh" moderation_ok
proof
  show "moderation_ok p" if "snd p = no_moderation" for p
    using that no_moderation_ok(1) [of "fst p"] by (cases p) simp
  show "moderation_ok q" if "moderation_ok p" "timed_step fresh p q" for p q
    using that by (auto simp: moderation_ok_def elim!: timed_stepE
        intro: step_content step_sanctions [OF _ sanctions_later] step_earned)
qed

interpretation counted: state_machine "\<lambda>p. snd p = no_moderation" "timed_step True" counted_ok
proof
  show "counted_ok p" if "snd p = no_moderation" for p
    using that no_moderation_ok(2) [of "fst p"] by (cases p) simp
  show "counted_ok q" if "counted_ok p" "timed_step True p q" for p q
    using that by (auto simp: counted_ok_def elim!: timed_stepE intro: step_counts)
qed

end
