(* ===== verification/Case_Desk.thy ===== *)
theory Case_Desk
  imports Moderation_System Rate_Limiter
begin

text \<open>
  The desk of moderation cases: reports on posts and comments (\<open>reports/reports.service.ts\<close>,
  \<open>reports.repository.ts\<close>), the workflow of the case they open (\<open>report-moderation.service.ts\<close>), and the
  staff who work on it (\<open>game-moderators\<close>, \<open>user-moderation.service.ts\<close>). The rows of moderation and the
  staff are parts of its state. A request that reads before its transaction takes the state it read.
\<close>

section \<open>Tables\<close>

datatype post_visibility = Public_post | Followers_only | Private_post

text \<open>Who may see a post: its visibility, and who follows whom.\<close>

record audience =
  au_visibility :: "string \<Rightarrow> post_visibility"
  au_follows :: "user_id \<Rightarrow> user_id \<Rightarrow> bool"

record report =
  rp_id :: nat
  rp_caseId :: string
  rp_reporter :: user_id
  rp_targetType :: content_kind
  rp_targetId :: string
  rp_reason :: report_reason
  rp_details :: "string option"
  rp_snapshot :: content_target
  rp_createdAt :: time

record analysis =
  an_caseId :: string
  an_sourceReport :: nat
  an_snapshotHash :: string
  an_generation :: nat

datatype log_action =
    CASE_ASSIGNED | CASE_CLAIMED | CASE_RESOLVED | CASE_DISMISSED
  | MODERATOR_ASSIGNED | MODERATOR_REMOVED | USER_REACTIVATED

record log_entry =
  lg_action :: log_action
  lg_actor :: user_id
  lg_target :: string

record desk =
  ds_mod :: moderation
  ds_staff :: staff
  ds_reports :: "report list"
  ds_analyses :: "analysis list"
  ds_log :: "log_entry list"

type_synonym 'a desk_tx = "(desk, 'a) tx"

abbreviation ds_cases :: "desk \<Rightarrow> (string \<times> moderation_case) list" where
  "ds_cases s \<equiv> mo_cases (ds_mod s)"

definition set_cases :: "((string \<times> moderation_case) list \<Rightarrow> (string \<times> moderation_case) list) \<Rightarrow> desk \<Rightarrow> desk" where
  "set_cases f s = s\<lparr>ds_mod := (ds_mod s)\<lparr>mo_cases := f (ds_cases s)\<rparr>\<rparr>"

definition in_moderation :: "'a moderation_tx \<Rightarrow> 'a desk_tx" where
  "in_moderation m s = (case m (ds_mod s) of Inl e \<Rightarrow> Inl e | Inr (m', x) \<Rightarrow> Inr (s\<lparr>ds_mod := m'\<rparr>, x))"

definition record_or_throw :: "log_action \<Rightarrow> user_id \<Rightarrow> string \<Rightarrow> unit desk_tx" where
  "record_or_throw action actor target =
     tx_modify (\<lambda>s. s\<lparr>ds_log := ds_log s @ [\<lparr>lg_action = action, lg_actor = actor, lg_target = target\<rparr>]\<rparr>)"

definition open_statuses :: "case_status set" where
  "open_statuses = {Case_open, Case_in_review}"

section \<open>Who may do what\<close>

definition load_active_user :: "staff \<Rightarrow> user_id \<Rightarrow> staff_user result" where
  "load_active_user st u =
     (case map_of (st_users st) u of
        None \<Rightarrow> Inl (Unauthorized (Desk User_unknown))
      | Some x \<Rightarrow> if su_status x \<noteq> ACTIVE_USER then Inl (Forbidden (Desk User_account_is_not_active)) else Inr x)"

definition assert_can_moderate_game :: "staff \<Rightarrow> string \<Rightarrow> user_id \<Rightarrow> unit result" where
  "assert_can_moderate_game st game u =
     (case load_active_user st u of
        Inl e \<Rightarrow> Inl e
      | Inr x \<Rightarrow> require (has_platform_moderation_capability (su_role x) \<or> (u, game) \<in> set (st_assignments st))
                   (Forbidden (Desk Cannot_moderate_this_game)))"

definition resolve_game_id :: "staff \<Rightarrow> string \<Rightarrow> string result" where
  "resolve_game_id st slug =
     (case map_of (st_games st) slug of None \<Rightarrow> Inl (NotFound (Desk Game_not_found)) | Some g \<Rightarrow> Inr g)"

definition resolve_moderatable_game_id :: "staff \<Rightarrow> string \<Rightarrow> user_id \<Rightarrow> string result" where
  "resolve_moderatable_game_id st slug u =
     (case resolve_game_id st slug of
        Inl e \<Rightarrow> Inl e
      | Inr g \<Rightarrow> (case assert_can_moderate_game st g u of Inl e \<Rightarrow> Inl e | Inr _ \<Rightarrow> Inr g))"

definition authorize_platform :: "staff \<Rightarrow> user_id \<Rightarrow> unit result" where
  "authorize_platform st u =
     (case load_active_user st u of
        Inl e \<Rightarrow> Inl e
      | Inr x \<Rightarrow> require (has_platform_moderation_capability (su_role x))
                   (Forbidden (Desk Platform_moderator_permission_required)))"

definition load_case :: "string \<Rightarrow> desk \<Rightarrow> moderation_case result" where
  "load_case i s =
     (case map_of (ds_cases s) i of None \<Rightarrow> Inl (NotFound (Desk Moderation_case_not_found)) | Some c \<Rightarrow> Inr c)"

definition authorize_game_case :: "string \<Rightarrow> user_id \<Rightarrow> string \<Rightarrow> desk \<Rightarrow> moderation_case result" where
  "authorize_game_case slug u i s =
     (case resolve_moderatable_game_id (ds_staff s) slug u of
        Inl e \<Rightarrow> Inl e
      | Inr g \<Rightarrow> (case load_case i s of
            Inl e \<Rightarrow> Inl e
          | Inr c \<Rightarrow> if mc_gameId c \<noteq> Some g then Inl (NotFound (Desk Moderation_case_not_found)) else Inr c))"

text \<open>\<open>caseModeratorWhere\<close>: who may be given a case of the community.\<close>

definition case_moderator :: "staff \<Rightarrow> string option \<Rightarrow> user_id \<Rightarrow> bool" where
  "case_moderator st game u \<longleftrightarrow>
     (case map_of (st_users st) u of
        None \<Rightarrow> False
      | Some x \<Rightarrow> su_status x = ACTIVE_USER
          \<and> (has_platform_moderation_capability (su_role x)
             \<or> (case game of None \<Rightarrow> False | Some g \<Rightarrow> (u, g) \<in> set (st_assignments st))))"

definition can_view :: "audience \<Rightarrow> user_id \<Rightarrow> string \<Rightarrow> post \<Rightarrow> bool" where
  "can_view au viewer i p \<longleftrightarrow>
     (if po_deletedAt p \<noteq> None \<or> po_status p \<noteq> Published then False
      else if au_visibility au i = Public_post then True
      else if au_visibility au i = Followers_only
        then po_author p = viewer \<or> au_follows au viewer (po_author p)
      else False)"

definition reportable_target :: "audience \<Rightarrow> user_id \<Rightarrow> content_kind \<Rightarrow> string \<Rightarrow> moderation \<Rightarrow> content_target result" where
  "reportable_target au reporter kind i s =
     (case find_target kind i s of
        None \<Rightarrow> Inl (NotFound (Desk Reported_content_not_found))
      | Some t \<Rightarrow>
          if kind = Comment_content \<and> (ct_deletedAt t \<noteq> None \<or> ct_status t = Hidden)
          then Inl (NotFound (Desk Reported_content_not_found))
          else (case map_of (mo_posts s) (ct_post t) of
                  None \<Rightarrow> Inl (NotFound (Desk Reported_content_not_found))
                | Some p \<Rightarrow> if can_view au reporter (ct_post t) p then Inr t
                            else Inl (NotFound (Desk Reported_content_not_found))))"

section \<open>Filing a report\<close>

definition report_limiter :: limiter_config where
  "report_limiter = \<lparr>lc_window = 60000, lc_max = 5, lc_lockout = Some 60000, lc_maxKeys = 10000\<rparr>"

text \<open>\<open>ReportRateLimiterService\<close> does not use the shared limiter; its own code, with \<open>reject\<close>'s message left out.\<close>

definition report_assert_not_rate_limited :: "time \<Rightarrow> user_id \<Rightarrow> limiter \<Rightarrow> limiter \<times> unit result" where
  "report_assert_not_rate_limited now u lm =
     (let reject = (\<lambda>remaining. Inl (TooManyRequests (ceil_seconds remaining)));
          proceed = (\<lambda>lm.
            let recent = prune_old_timestamps (case map_of (lm_recent lm) u of None \<Rightarrow> [] | Some ts \<Rightarrow> ts) now 60000 @ [now]
            in if length recent > 5
               then (lm\<lparr>lm_recent := AList.delete u (lm_recent lm),
                        lm_locked := touch u (now + 60000) (evict_oldest_if_at_capacity 10000 u (lm_locked lm))\<rparr>,
                     reject 60000)
               else (lm\<lparr>lm_recent := touch u recent (evict_oldest_if_at_capacity 10000 u (lm_recent lm))\<rparr>, Inr ()))
      in case map_of (lm_locked lm) u of
           None \<Rightarrow> proceed lm
         | Some lock_expires_at \<Rightarrow>
             if now < lock_expires_at
             then (lm\<lparr>lm_locked := touch u lock_expires_at (lm_locked lm)\<rparr>, reject (lock_expires_at - now))
             else proceed (lm\<lparr>lm_locked := AList.delete u (lm_locked lm)\<rparr>))"

record report_dto =
  rd_targetType :: content_kind
  rd_targetId :: string
  rd_reason :: report_reason
  rd_details :: "string option"

definition normalize_text :: "string option \<Rightarrow> string option" where
  "normalize_text value =
     (case value of None \<Rightarrow> None | Some t \<Rightarrow> if js_trim t = [] then None else Some (js_trim t))"

definition open_case :: "content_kind \<Rightarrow> string \<Rightarrow> desk \<Rightarrow> string option" where
  "open_case kind i s =
     map_option fst (find (\<lambda>(_, c). mc_targetType c = kind \<and> mc_targetId c = i \<and> mc_status c \<in> open_statuses) (ds_cases s))"

text \<open>
  Two unique keys: the id, and the partial index on open cases of a target (migration 20261015060000).
\<close>

definition insert_case :: "string \<Rightarrow> moderation_case \<Rightarrow> unit desk_tx" where
  "insert_case i c s =
     (if map_of (ds_cases s) i \<noteq> None \<or> mc_status c \<in> open_statuses \<and> open_case (mc_targetType c) (mc_targetId c) s \<noteq> None
      then Inl (ServerError Unique_violation)
      else Inr (set_cases (\<lambda>cs. cs @ [(i, c)]) s, ()))"

definition count_report :: "time \<Rightarrow> moderation_case \<Rightarrow> moderation_case" where
  "count_report now c = c\<lparr>mc_reportCount := mc_reportCount c + 1, mc_uniqueReporterCount := mc_uniqueReporterCount c + 1,
     mc_lastReportedAt := max (mc_lastReportedAt c) now\<rparr>"

definition schedule_if_needed :: "(content_target \<Rightarrow> string) \<Rightarrow> report \<Rightarrow> unit desk_tx" where
  "schedule_if_needed hash r =
     tx_bind (tx_gets (\<lambda>s. \<exists>a \<in> set (ds_analyses s). an_caseId a = rp_caseId r \<and> an_snapshotHash a = hash (rp_snapshot r))) (\<lambda>existing.
     if existing then tx_return ()
     else
     tx_bind (tx_gets (\<lambda>s. fold max (map an_generation (filter (\<lambda>a. an_caseId a = rp_caseId r) (ds_analyses s))) 0)) (\<lambda>latest.
     tx_modify (\<lambda>s. s\<lparr>ds_analyses := ds_analyses s @ [\<lparr>an_caseId = rp_caseId r, an_sourceReport = rp_id r,
       an_snapshotHash = hash (rp_snapshot r), an_generation = latest + 1\<rparr>]\<rparr>)))"

text \<open>
  The case an attempt works on: \<open>found\<close> is the open case its first statement read. When it is still open, its
  row is now locked; when it was closed since, the result is \<open>None\<close>. When none was found, a new one is inserted.
\<close>

definition lock_open_case ::
    "time \<Rightarrow> string \<Rightarrow> string option \<Rightarrow> report_dto \<Rightarrow> content_target \<Rightarrow> string option desk_tx" where
  "lock_open_case now new found dto snapshot =
     (case found of
         Some i \<Rightarrow> tx_gets (\<lambda>s. case map_of (ds_cases s) i of
             None \<Rightarrow> None | Some c \<Rightarrow> if mc_status c \<in> open_statuses then Some i else None)
       | None \<Rightarrow> tx_bind (insert_case new \<lparr>mc_targetType = rd_targetType dto, mc_targetId = rd_targetId dto,
             mc_gameId = ct_gameId snapshot, mc_status = Case_open, mc_assigned = None, mc_reportCount = 0,
             mc_uniqueReporterCount = 0, mc_lastReportedAt = now, mc_resolvedBy = None, mc_resolvedAt = None,
             mc_resolutionNote = None\<rparr>) (\<lambda>_. tx_return (Some new)))"

text \<open>One attempt; \<open>None\<close> asks for another.\<close>

definition report_attempt ::
    "(content_target \<Rightarrow> string) \<Rightarrow> time \<Rightarrow> string \<Rightarrow> string option \<Rightarrow> user_id \<Rightarrow> report_dto \<Rightarrow> content_target
      \<Rightarrow> report option desk_tx" where
  "report_attempt hash now new found reporter dto snapshot =
     tx_bind (lock_open_case now new found dto snapshot) (\<lambda>locked.
     case locked of
       None \<Rightarrow> tx_return None
     | Some i \<Rightarrow>
         tx_bind (tx_gets (\<lambda>s. \<exists>r \<in> set (ds_reports s). rp_caseId r = i \<and> rp_reporter r = reporter)) (\<lambda>duplicate.
         tx_bind (tx_require (\<not> duplicate) (Conflict (Desk Already_have_an_open_report))) (\<lambda>_.
         tx_bind (tx_gets (\<lambda>s. \<lparr>rp_id = length (ds_reports s), rp_caseId = i, rp_reporter = reporter,
           rp_targetType = rd_targetType dto, rp_targetId = rd_targetId dto, rp_reason = rd_reason dto,
           rp_details = normalize_text (rd_details dto), rp_snapshot = snapshot, rp_createdAt = now\<rparr>)) (\<lambda>r.
         tx_bind (tx_modify (\<lambda>s. s\<lparr>ds_reports := ds_reports s @ [r]\<rparr>)) (\<lambda>_.
         tx_bind (tx_modify (set_cases (AList.map_entry i (count_report now)))) (\<lambda>_.
         tx_bind (schedule_if_needed hash r) (\<lambda>_.
         tx_return (Some r))))))))"

text \<open>
  The loop of \<open>create\<close>. Each attempt is a transaction of its own: \<open>before\<close> is what others do before it reads,
  \<open>between\<close> what they do until it holds its lock.
\<close>

record attempt_world =
  aw_newId :: string
  aw_before :: "desk \<Rightarrow> desk"
  aw_between :: "desk \<Rightarrow> desk"

fun create_report ::
    "(content_target \<Rightarrow> string) \<Rightarrow> time \<Rightarrow> user_id \<Rightarrow> report_dto \<Rightarrow> content_target \<Rightarrow> attempt_world list
      \<Rightarrow> desk \<Rightarrow> desk \<times> report result" where
  "create_report hash now reporter dto snapshot [] s = (s, Inl (Conflict (Desk Moderation_case_changed)))"
| "create_report hash now reporter dto snapshot (w # ws) s =
     (let seen = aw_before w s; current = aw_between w seen
      in case report_attempt hash now (aw_newId w) (open_case (rd_targetType dto) (rd_targetId dto) seen) reporter dto snapshot current of
           Inr (s', Some r) \<Rightarrow> (s', Inr r)
         | Inr (s', None) \<Rightarrow> create_report hash now reporter dto snapshot ws s'
         | Inl e \<Rightarrow> if e = ServerError Unique_violation then create_report hash now reporter dto snapshot ws current
                    else (current, Inl e))"

definition has_open_report :: "user_id \<Rightarrow> content_kind \<Rightarrow> string \<Rightarrow> desk \<Rightarrow> bool" where
  "has_open_report reporter kind i s \<longleftrightarrow> (\<exists>r \<in> set (ds_reports s). rp_reporter r = reporter \<and> rp_targetType r = kind
     \<and> rp_targetId r = i \<and> (case map_of (ds_cases s) (rp_caseId r) of None \<Rightarrow> False | Some c \<Rightarrow> mc_status c \<in> open_statuses))"

definition file_report ::
    "audience \<Rightarrow> (content_target \<Rightarrow> string) \<Rightarrow> time \<Rightarrow> user_id \<Rightarrow> report_dto \<Rightarrow> attempt_world list
      \<Rightarrow> limiter \<times> desk \<Rightarrow> (limiter \<times> desk) \<times> report result" where
  "file_report au hash now reporter dto worlds p =
     (let (lm, limited) = report_assert_not_rate_limited now reporter (fst p); s = snd p
      in case limited of
           Inl e \<Rightarrow> ((lm, s), Inl e)
         | Inr _ \<Rightarrow>
         (case load_active_user (ds_staff s) reporter of
            Inl e \<Rightarrow> ((lm, s), Inl e)
          | Inr _ \<Rightarrow>
          (case reportable_target au reporter (rd_targetType dto) (rd_targetId dto) (ds_mod s) of
             Inl e \<Rightarrow> ((lm, s), Inl e)
           | Inr t \<Rightarrow>
               if has_open_report reporter (rd_targetType dto) (rd_targetId dto) s
               then ((lm, s), Inl (Conflict (Desk Already_have_an_open_report)))
               else map_prod (Pair lm) id (create_report hash now reporter dto t worlds s))))"

section \<open>Working on a case\<close>

definition transition_case ::
    "user_id \<Rightarrow> string option \<Rightarrow> string option \<Rightarrow> string \<Rightarrow> (moderation_case \<Rightarrow> moderation_case) \<Rightarrow> case_status set
      \<Rightarrow> user_id option \<Rightarrow> log_action \<Rightarrow> moderation_case option desk_tx" where
  "transition_case actor game case_game i change statuses assignee action =
     tx_bind (tx_gets ds_staff) (\<lambda>st.
     tx_bind (tx_result (lock_moderation_actor st actor game)) (\<lambda>_.
     tx_bind (tx_require (case assignee of None \<Rightarrow> True | Some u \<Rightarrow> case_moderator st case_game u)
       (BadRequest (Desk Choose_an_eligible_moderator))) (\<lambda>_.
     tx_bind (tx_gets (\<lambda>s. map_of (ds_cases s) i)) (\<lambda>found.
     case found of
       None \<Rightarrow> tx_return None
     | Some c \<Rightarrow>
         if mc_gameId c = case_game \<and> (game = None \<or> mc_gameId c = game) \<and> mc_status c \<in> statuses
         then
         tx_bind (tx_modify (set_cases (AList.map_entry i change))) (\<lambda>_.
         tx_bind (record_or_throw action actor i) (\<lambda>_.
         tx_return (Some (change c))))
         else tx_return None))))"

definition assign_case :: "user_id \<Rightarrow> string option \<Rightarrow> string option \<Rightarrow> string \<Rightarrow> user_id \<Rightarrow> moderation_case option desk_tx" where
  "assign_case actor game case_game i assignee =
     transition_case actor game case_game i (\<lambda>c. c\<lparr>mc_status := Case_in_review, mc_assigned := Some assignee\<rparr>)
       open_statuses (Some assignee) CASE_ASSIGNED"

definition claim_case :: "user_id \<Rightarrow> string option \<Rightarrow> string option \<Rightarrow> string \<Rightarrow> moderation_case option desk_tx" where
  "claim_case actor game case_game i =
     transition_case actor game case_game i (\<lambda>c. c\<lparr>mc_status := Case_in_review, mc_assigned := Some actor\<rparr>)
       {Case_open} None CASE_CLAIMED"

definition finalize_case ::
    "time \<Rightarrow> user_id \<Rightarrow> string option \<Rightarrow> string option \<Rightarrow> string \<Rightarrow> bool \<Rightarrow> string option \<Rightarrow> moderation_case option desk_tx" where
  "finalize_case now actor game case_game i resolved note =
     transition_case actor game case_game i (\<lambda>c. c\<lparr>mc_status := (if resolved then Case_resolved else Case_dismissed),
         mc_resolvedBy := Some actor, mc_resolvedAt := Some now, mc_resolutionNote := note\<rparr>)
       open_statuses None (if resolved then CASE_RESOLVED else CASE_DISMISSED)"

datatype case_action = Claim_it | Assign_to user_id | Resolve_it | Dismiss_it

text \<open>
  \<open>mutateCase\<close>: \<open>earlier\<close> is the state it read before the transaction. Its guards give the community the
  request is confined to (none for the platform) and the community of the case.
\<close>

definition case_scope :: "desk \<Rightarrow> user_id \<Rightarrow> string \<Rightarrow> string option \<Rightarrow> (string option \<times> string option) result" where
  "case_scope earlier u i slug =
     (case slug of
        Some g \<Rightarrow> (case authorize_game_case g u i earlier of Inl e \<Rightarrow> Inl e | Inr c \<Rightarrow> Inr (mc_gameId c, mc_gameId c))
      | None \<Rightarrow> (case authorize_platform (ds_staff earlier) u of
            Inl e \<Rightarrow> Inl e
          | Inr _ \<Rightarrow> (case load_case i earlier of Inl e \<Rightarrow> Inl e | Inr c \<Rightarrow> Inr (None, mc_gameId c))))"

definition act_on_case ::
    "time \<Rightarrow> user_id \<Rightarrow> string \<Rightarrow> case_action \<Rightarrow> string option \<Rightarrow> string option \<Rightarrow> string option \<Rightarrow> moderation_case option desk_tx" where
  "act_on_case now u i action note game case_game =
     (case action of
         Assign_to v \<Rightarrow> assign_case u game case_game i v
       | Claim_it \<Rightarrow> claim_case u game case_game i
       | Resolve_it \<Rightarrow> finalize_case now u game case_game i True (normalize_text note)
       | Dismiss_it \<Rightarrow> finalize_case now u game case_game i False (normalize_text note))"

definition mutate_case ::
    "desk \<Rightarrow> time \<Rightarrow> user_id \<Rightarrow> string \<Rightarrow> case_action \<Rightarrow> string option \<Rightarrow> string option \<Rightarrow> moderation_case desk_tx" where
  "mutate_case earlier now u i action note slug =
     tx_bind (tx_result (case_scope earlier u i slug)) (\<lambda>(game, case_game).
     tx_bind (act_on_case now u i action note game case_game) (\<lambda>changed.
     case changed of
       None \<Rightarrow> tx_fail (Conflict (Desk Case_no_longer_eligible))
     | Some c \<Rightarrow> tx_return c))"

section \<open>Staff\<close>

definition set_role :: "user_id \<Rightarrow> user_role \<Rightarrow> desk \<Rightarrow> desk" where
  "set_role u role s = s\<lparr>ds_staff := (ds_staff s)\<lparr>st_users := AList.map_entry u (\<lambda>x. x\<lparr>su_role := role\<rparr>) (st_users (ds_staff s))\<rparr>\<rparr>"

definition set_assignments :: "((user_id \<times> string) list \<Rightarrow> (user_id \<times> string) list) \<Rightarrow> desk \<Rightarrow> desk" where
  "set_assignments f s = s\<lparr>ds_staff := (ds_staff s)\<lparr>st_assignments := f (st_assignments (ds_staff s))\<rparr>\<rparr>"

definition games_of :: "user_id \<Rightarrow> desk \<Rightarrow> string list" where
  "games_of u s = map snd (filter (\<lambda>(v, _). v = u) (st_assignments (ds_staff s)))"

text \<open>
  \<open>change\<close> of the platform moderators. The user row is locked, the list of communities the user still
  moderates is not: \<open>games\<close> is what was read.
\<close>

definition change_platform_moderator :: "string list \<Rightarrow> user_id \<Rightarrow> user_id \<Rightarrow> bool \<Rightarrow> user_role desk_tx" where
  "change_platform_moderator games actor target grant =
     tx_bind (tx_gets (\<lambda>s. map_of (st_users (ds_staff s)) actor)) (\<lambda>a.
     tx_bind (tx_require (case a of None \<Rightarrow> False | Some x \<Rightarrow> su_status x = ACTIVE_USER \<and> su_role x = Admin_role)
       (Forbidden (Desk Active_admin_permission_required))) (\<lambda>_.
     tx_bind (tx_require (actor \<noteq> target) (BadRequest (Desk Admin_roles_cannot_be_changed))) (\<lambda>_.
     tx_bind (tx_gets (\<lambda>s. map_of (st_users (ds_staff s)) target)) (\<lambda>found.
     case found of
       None \<Rightarrow> tx_fail (NotFound (Desk Target_user_not_found))
     | Some x \<Rightarrow>
         if su_role x = Admin_role then tx_fail (BadRequest (Desk Admin_roles_cannot_be_changed))
         else if su_status x \<noteq> ACTIVE_USER then tx_fail (BadRequest (Desk Only_active_users_can_change_access))
         else if su_role x \<noteq> (if grant then User_role else Platform_moderator)
           then tx_fail (Conflict (Desk Already_has_the_requested_access))
         else
         tx_bind (tx_modify (set_role target (if grant then Platform_moderator else User_role))) (\<lambda>_.
         tx_bind (tx_when (\<not> grant) (in_moderation (release_moderator_cases target
           (\<lambda>game. game = None \<or> the game \<notin> set games)))) (\<lambda>_.
         tx_bind (record_or_throw (if grant then MODERATOR_ASSIGNED else MODERATOR_REMOVED) actor target) (\<lambda>_.
         tx_return (if grant then Platform_moderator else User_role))))))))"

text \<open>\<open>earlier\<close>: the reads ahead of the transaction. The unique key is on the community and the user.\<close>

definition assign_moderator :: "desk \<Rightarrow> string \<Rightarrow> user_id \<Rightarrow> user_id \<Rightarrow> unit desk_tx" where
  "assign_moderator earlier slug u assigned_by =
     tx_bind (tx_result (resolve_game_id (ds_staff earlier) slug)) (\<lambda>game.
     case map_of (st_users (ds_staff earlier)) u of
       None \<Rightarrow> tx_fail (NotFound (Desk Target_user_not_found))
     | Some x \<Rightarrow>
         if su_status x \<noteq> ACTIVE_USER then tx_fail (BadRequest (Desk Only_active_users_can_be_moderators))
         else if (u, game) \<in> set (st_assignments (ds_staff earlier))
           then tx_fail (Conflict (Desk Already_a_moderator_of_this_game))
         else
         tx_bind (tx_gets (\<lambda>s. (u, game) \<in> set (st_assignments (ds_staff s)))) (\<lambda>taken.
         tx_bind (tx_require (\<not> taken) (ServerError Unique_violation)) (\<lambda>_.
         tx_bind (tx_modify (set_assignments (\<lambda>as. as @ [(u, game)]))) (\<lambda>_.
         record_or_throw MODERATOR_ASSIGNED assigned_by u))))"

text \<open>\<open>removeModerator\<close> reads the role without a lock: \<open>role\<close> is what was read.\<close>

definition remove_moderator :: "desk \<Rightarrow> user_role option \<Rightarrow> string \<Rightarrow> user_id \<Rightarrow> user_id \<Rightarrow> unit desk_tx" where
  "remove_moderator earlier role slug u removed_by =
     tx_bind (tx_result (resolve_game_id (ds_staff earlier) slug)) (\<lambda>game.
     tx_bind (tx_gets (\<lambda>s. (u, game) \<in> set (st_assignments (ds_staff s)))) (\<lambda>assigned.
     tx_bind (tx_modify (set_assignments (filter (\<lambda>a. a \<noteq> (u, game))))) (\<lambda>_.
     tx_bind (tx_require assigned (NotFound (Desk Moderator_assignment_not_found))) (\<lambda>_.
     tx_bind (tx_when (case role of None \<Rightarrow> True | Some r \<Rightarrow> \<not> has_platform_moderation_capability r)
       (in_moderation (release_moderator_cases u (\<lambda>g. g = Some game)))) (\<lambda>_.
     record_or_throw MODERATOR_REMOVED removed_by u)))))"

text \<open>\<open>setStatus\<close> of \<open>user-moderation.service.ts\<close>: accounts are only ever reactivated.\<close>

definition set_user_status :: "desk \<Rightarrow> user_id \<Rightarrow> user_status \<Rightarrow> user_id \<Rightarrow> unit desk_tx" where
  "set_user_status earlier u to_status actor =
     (if u = actor then tx_fail (Forbidden (Desk Cannot_change_your_own_status))
      else if to_status \<noteq> ACTIVE_USER then tx_fail (BadRequest (Desk Use_a_temporary_sanction))
      else case map_of (st_users (ds_staff earlier)) u of
        None \<Rightarrow> tx_fail (NotFound (Desk Target_user_not_found))
      | Some x \<Rightarrow>
          if su_role x = Admin_role then tx_fail (Forbidden (Desk Cannot_change_status_of_admin))
          else if su_status x = DELETED then tx_fail (Conflict (Desk Deleted_account_cannot_be_moderated))
          else if su_status x = to_status then tx_fail (Conflict (Desk User_already_has_status))
          else
          tx_bind (tx_gets (\<lambda>s. map_option su_status (map_of (st_users (ds_staff s)) u))) (\<lambda>current.
          tx_bind (tx_require (current = Some (su_status x)) (Conflict (Desk User_status_changed))) (\<lambda>_.
          tx_bind (tx_modify (\<lambda>s. s\<lparr>ds_staff := (ds_staff s)\<lparr>st_users :=
            AList.map_entry u (\<lambda>y. y\<lparr>su_status := to_status\<rparr>) (st_users (ds_staff s))\<rparr>\<rparr>)) (\<lambda>_.
          record_or_throw USER_REACTIVATED actor u))))"

end
