(* ===== verification/Case_Desk_Invariant.thy ===== *)
theory Case_Desk_Invariant
  imports Case_Desk
begin

text \<open>
  What every step keeps of the desk (\<open>desk_ok\<close>): a target has one open case at most, a case counts its
  reports, a reporter is counted once, analyses are numbered in order, and status and assignee of a case
  agree. As long as no two removals of a moderator overtake each other, every case under review is with
  someone who may work on it (\<open>staffed\<close>).
\<close>

section \<open>Relating the cases before and after\<close>

definition on_cases ::
    "(moderation_case \<Rightarrow> moderation_case \<Rightarrow> bool) \<Rightarrow> (string \<times> moderation_case) list \<Rightarrow> (string \<times> moderation_case) list \<Rightarrow> bool" where
  "on_cases R cs ds \<longleftrightarrow> list_all2 (\<lambda>p q. fst p = fst q \<and> R (snd p) (snd q)) cs ds"

lemma on_cases_keys: "on_cases R cs ds \<Longrightarrow> map fst ds = map fst cs"
  unfolding on_cases_def by (induction rule: list_all2_induct) auto

lemma on_cases_map_of: "on_cases R cs ds \<Longrightarrow> rel_option R (map_of cs i) (map_of ds i)"
  unfolding on_cases_def by (induction rule: list_all2_induct) (auto split: prod.splits)

lemma on_cases_Some:
  assumes "on_cases R cs ds" and "map_of ds i = Some d"
  obtains c where "map_of cs i = Some c" and "R c d"
  using on_cases_map_of [OF assms(1), of i] assms(2) that by (cases "map_of cs i") auto

lemma on_cases_refl: "(\<And>c. R c c) \<Longrightarrow> on_cases R cs cs"
  by (simp add: on_cases_def list_all2_same)

lemma on_cases_trans: "(\<And>c d e. R c d \<Longrightarrow> R d e \<Longrightarrow> R c e) \<Longrightarrow> on_cases R cs ds \<Longrightarrow> on_cases R ds es \<Longrightarrow> on_cases R cs es"
  unfolding on_cases_def by (rule list_all2_trans) auto

lemma on_cases_mono: "on_cases R cs ds \<Longrightarrow> (\<And>c d. R c d \<Longrightarrow> Q c d) \<Longrightarrow> on_cases Q cs ds"
  unfolding on_cases_def by (erule list_all2_mono) auto

lemma on_cases_map: "(\<And>i c. (i, c) \<in> set cs \<Longrightarrow> R c (f c)) \<Longrightarrow> on_cases R cs (map (\<lambda>(i, c). (i, f c)) cs)"
  unfolding on_cases_def by (auto simp: list.rel_map list_all2_same)

lemma on_cases_entry:
  assumes "\<And>c. R c c" and "\<And>c. map_of cs i = Some c \<Longrightarrow> R c (f c)"
  shows "on_cases R cs (AList.map_entry i f cs)"
  using assms(2) unfolding on_cases_def
  by (induction cs) (auto simp: list_all2_same assms(1))

text \<open>Handing a case back to the queue, the only thing requests of moderation do to a case.\<close>

definition handed_back :: "moderation_case \<Rightarrow> moderation_case \<Rightarrow> bool" where
  "handed_back c d \<longleftrightarrow> d = c \<or> mc_status c \<in> open_statuses \<and> d = c\<lparr>mc_assigned := None, mc_status := Case_open\<rparr>"

lemma handed_back_trans: "handed_back c d \<Longrightarrow> handed_back d e \<Longrightarrow> handed_back c e"
  by (auto simp: handed_back_def open_statuses_def)

abbreviation returned_from :: "(string \<times> moderation_case) list \<Rightarrow> moderation \<Rightarrow> bool" where
  "returned_from cs m \<equiv> on_cases handed_back cs (mo_cases m)"

lemma release_returns: "tx_keeps (returned_from cs) (release_moderator_cases u in_games)"
proof (rule tx_validI)
  fix m m' :: moderation and x
  assume P: "returned_from cs m" and "release_moderator_cases u in_games m = Inr (m', x)"
  then have m': "mo_cases m' = map (\<lambda>(i, c). (i, if in_games (mc_gameId c) \<and> mc_assigned c = Some u \<and> mc_status c \<in> {Case_open, Case_in_review}
       then c\<lparr>mc_assigned := None, mc_status := Case_open\<rparr> else c)) (mo_cases m)"
    by (auto simp: release_moderator_cases_def tx_run)
  have "on_cases handed_back (mo_cases m) (mo_cases m')" unfolding m'
    by (rule on_cases_map) (auto simp: handed_back_def open_statuses_def)
  with P show "returned_from cs m'" by (rule on_cases_trans [rotated]) (rule handed_back_trans)
qed

lemma requests_return_cases:
  "tx_keeps (returned_from cs) (content_decision le st now actor k i hidden reason slug case_id)"
  "tx_keeps (returned_from cs) (content_for_case le st now actor case_id' hidden reason slug)"
  "tx_keeps (returned_from cs) (confirm dg st now actor case_id' cf slug)"
  "tx_keeps (returned_from cs) (sanction_request dg st now actor case_id' dto slug)"
  "tx_keeps (returned_from cs) (revoke_sanction st now actor n reason slug)"
  "tx_keeps (returned_from cs) (adjust_sanction st now actor n days reason slug)"
  "tx_keeps (returned_from cs) (reverse_violation st now actor n reason slug)"
  "tx_keeps (returned_from cs) (submit_appeal now subject n reason)"
  "tx_keeps (returned_from cs) (review_appeal le st now actor n rv slug)"
  "tx_keeps (returned_from cs) (reconcile now)"
  "tx_keeps (returned_from cs) (create_post i author game title body status)"
  "tx_keeps (returned_from cs) (update_post seen earlier author i title' body' status')"
  "tx_keeps (returned_from cs) (delete_post seen b now author i)"
  "tx_keeps (returned_from cs) (create_comment i p author body)"
  "tx_keeps (returned_from cs) (update_comment seen' author i body)"
  "tx_keeps (returned_from cs) (delete_comment seen' now author i)"
  unfolding content_decision_def content_for_case_def content_in_transaction_def hide_content_def show_content_def
    restore_enforcement_def confirm_def sanction_request_def issue_sanction_def revoke_sanction_def adjust_sanction_def
    reverse_violation_def submit_appeal_def review_appeal_def review_consequences_def reverse_tx_def revoke_tx_def
    expire_sanction_def reconcile_def create_post_def update_post_def delete_post_def create_comment_def
    update_comment_def delete_comment_def restore_appealed_content_def move_content_def Let_def
  by (intro release_returns content_frames mod_keeps tx_intros tx_cases; simp)+

lemma request_returns: "moderation_request fresh now m m' \<Longrightarrow> returned_from cs m \<Longrightarrow> returned_from cs m'"
  by (induction rule: moderation_request.induct) (auto dest!: requests_return_cases [THEN tx_validD, rotated])

lemma request_cases: "moderation_request fresh now m m' \<Longrightarrow> on_cases handed_back (mo_cases m) (mo_cases m')"
  by (rule request_returns, assumption, rule on_cases_refl, simp add: handed_back_def)

section \<open>The invariant\<close>

definition case_ok :: "moderation_case \<Rightarrow> bool" where
  "case_ok c \<longleftrightarrow> (mc_status c = Case_open \<longrightarrow> mc_assigned c = None) \<and> (mc_status c = Case_in_review \<longrightarrow> mc_assigned c \<noteq> None)
     \<and> (mc_status c \<in> open_statuses \<longleftrightarrow> mc_resolvedAt c = None) \<and> (mc_resolvedAt c = None \<longleftrightarrow> mc_resolvedBy c = None)"

definition case_rows :: "(string \<times> moderation_case) list \<Rightarrow> bool" where
  "case_rows cs \<longleftrightarrow> distinct (map fst cs) \<and> (\<forall>i c. map_of cs i = Some c \<longrightarrow> case_ok c)
     \<and> (\<forall>i c j d. map_of cs i = Some c \<longrightarrow> map_of cs j = Some d \<longrightarrow> mc_status c \<in> open_statuses \<longrightarrow> mc_status d \<in> open_statuses
          \<longrightarrow> mc_targetType c = mc_targetType d \<longrightarrow> mc_targetId c = mc_targetId d \<longrightarrow> i = j)"

definition reports_in :: "string \<Rightarrow> report list \<Rightarrow> report list" where
  "reports_in i rs = filter (\<lambda>r. rp_caseId r = i) rs"

definition report_rows :: "(string \<times> moderation_case) list \<Rightarrow> report list \<Rightarrow> bool" where
  "report_rows cs rs \<longleftrightarrow> numbered rp_id rs \<and> distinct (map (\<lambda>r. (rp_caseId r, rp_reporter r)) rs)
     \<and> (\<forall>r \<in> set rs. \<exists>c. map_of cs (rp_caseId r) = Some c \<and> mc_targetType c = rp_targetType r \<and> mc_targetId c = rp_targetId r)
     \<and> (\<forall>i c. map_of cs i = Some c \<longrightarrow> mc_reportCount c = int (length (reports_in i rs))
          \<and> mc_uniqueReporterCount c = mc_reportCount c)"

definition analysis_rows :: "analysis list \<Rightarrow> bool" where
  "analysis_rows as \<longleftrightarrow> distinct (map (\<lambda>a. (an_caseId a, an_snapshotHash a)) as)
     \<and> (\<forall>i. map an_generation (filter (\<lambda>a. an_caseId a = i) as) = [1..<Suc (length (filter (\<lambda>a. an_caseId a = i) as))])"

definition desk_ok :: "desk \<Rightarrow> bool" where
  "desk_ok s \<longleftrightarrow> case_rows (ds_cases s) \<and> report_rows (ds_cases s) (ds_reports s) \<and> analysis_rows (ds_analyses s)"

definition with_moderator :: "staff \<Rightarrow> moderation_case \<Rightarrow> bool" where
  "with_moderator st c \<longleftrightarrow> (mc_status c = Case_in_review \<longrightarrow>
     (case mc_assigned c of None \<Rightarrow> True | Some u \<Rightarrow> case_moderator st (mc_gameId c) u))"

definition staffed :: "desk \<Rightarrow> bool" where
  "staffed s \<longleftrightarrow> (\<forall>i c. map_of (ds_cases s) i = Some c \<longrightarrow> with_moderator (ds_staff s) c)"

lemma desk_frame [simp]:
  "desk_ok (s\<lparr>ds_staff := st\<rparr>) = desk_ok s" "desk_ok (s\<lparr>ds_log := l\<rparr>) = desk_ok s"
  "staffed (s\<lparr>ds_reports := rs\<rparr>) = staffed s" "staffed (s\<lparr>ds_analyses := as\<rparr>) = staffed s" "staffed (s\<lparr>ds_log := l\<rparr>) = staffed s"
  by (simp_all add: desk_ok_def staffed_def)

text \<open>What a step may do to a case that is there: an open case may move, the report it is about may not.\<close>

definition moved :: "moderation_case \<Rightarrow> moderation_case \<Rightarrow> bool" where
  "moved c d \<longleftrightarrow> d = c \<or> mc_status c \<in> open_statuses \<and> mc_targetType d = mc_targetType c \<and> mc_targetId d = mc_targetId c
     \<and> mc_reportCount d = mc_reportCount c \<and> mc_uniqueReporterCount d = mc_uniqueReporterCount c \<and> (case_ok c \<longrightarrow> case_ok d)"

lemma handed_back_moved: "handed_back c d \<Longrightarrow> moved c d"
  by (auto simp: handed_back_def moved_def case_ok_def open_statuses_def)

lemma moved_fields: "moved c d \<Longrightarrow> mc_targetType d = mc_targetType c \<and> mc_targetId d = mc_targetId c
    \<and> mc_reportCount d = mc_reportCount c \<and> mc_uniqueReporterCount d = mc_uniqueReporterCount c
    \<and> (mc_status d \<in> open_statuses \<longrightarrow> mc_status c \<in> open_statuses) \<and> (case_ok c \<longrightarrow> case_ok d)"
  by (auto simp: moved_def)

lemma moved_rows:
  assumes "on_cases moved cs ds" and "case_rows cs"
  shows "case_rows ds"
proof -
  have from_old: "\<exists>c. map_of cs i = Some c \<and> moved c d" if "map_of ds i = Some d" for i d
    using on_cases_Some [OF assms(1) that] by blast
  have "case_ok d" if "map_of ds i = Some d" for i d
    using from_old [OF that] assms(2) moved_fields by (auto simp: case_rows_def)
  moreover have "i = j" if d: "map_of ds i = Some c" "map_of ds j = Some d" and o: "mc_status c \<in> open_statuses" "mc_status d \<in> open_statuses"
      and same: "mc_targetType c = mc_targetType d" "mc_targetId c = mc_targetId d" for i j c d
  proof -
    obtain c' d' where old: "map_of cs i = Some c'" "moved c' c" "map_of cs j = Some d'" "moved d' d"
      using from_old [OF d(1)] from_old [OF d(2)] by blast
    then have "mc_status c' \<in> open_statuses" "mc_status d' \<in> open_statuses" "mc_targetType c' = mc_targetType d'" "mc_targetId c' = mc_targetId d'"
      using o same moved_fields by auto
    with old(1,3) assms(2) show ?thesis unfolding case_rows_def by blast
  qed
  moreover have "distinct (map fst ds)" using assms(2) on_cases_keys [OF assms(1)] by (simp add: case_rows_def)
  ultimately show ?thesis unfolding case_rows_def by blast
qed

lemma moved_reports:
  assumes "on_cases moved cs ds" and "report_rows cs rs"
  shows "report_rows ds rs"
proof -
  have "\<exists>d. map_of ds (rp_caseId r) = Some d \<and> mc_targetType d = rp_targetType r \<and> mc_targetId d = rp_targetId r" if r: "r \<in> set rs" for r
  proof -
    obtain c where c: "map_of cs (rp_caseId r) = Some c" "mc_targetType c = rp_targetType r" "mc_targetId c = rp_targetId r"
      using assms(2) r unfolding report_rows_def by blast
    with on_cases_map_of [OF assms(1), of "rp_caseId r"] obtain d where "map_of ds (rp_caseId r) = Some d" "moved c d"
      by (cases "map_of ds (rp_caseId r)") auto
    with c moved_fields show ?thesis by auto
  qed
  moreover have "mc_reportCount d = int (length (reports_in i rs)) \<and> mc_uniqueReporterCount d = mc_reportCount d"
    if d: "map_of ds i = Some d" for i d
  proof -
    obtain c where "map_of cs i = Some c" "moved c d" by (rule on_cases_Some [OF assms(1) d])
    with assms(2) moved_fields show ?thesis by (auto simp: report_rows_def)
  qed
  ultimately show ?thesis using assms(2) by (simp add: report_rows_def)
qed

lemma moved_desk:
  "desk_ok s \<Longrightarrow> on_cases moved (ds_cases s) (ds_cases t) \<Longrightarrow> ds_reports t = ds_reports s \<Longrightarrow> ds_analyses t = ds_analyses s \<Longrightarrow> desk_ok t"
  by (simp add: desk_ok_def moved_rows moved_reports)

section \<open>Reports\<close>

lemma open_case_None:
  "open_case k i s = None \<longleftrightarrow> (\<forall>(j, c) \<in> set (ds_cases s). \<not> (mc_targetType c = k \<and> mc_targetId c = i \<and> mc_status c \<in> open_statuses))"
  by (auto simp: open_case_def find_None_iff)

lemma open_case_Some:
  "open_case k i s = Some j \<Longrightarrow> \<exists>c. (j, c) \<in> set (ds_cases s) \<and> mc_targetType c = k \<and> mc_targetId c = i \<and> mc_status c \<in> open_statuses"
  by (auto simp: open_case_def find_Some_iff dest!: nth_mem)

lemma insert_case_rows:
  assumes "case_rows (ds_cases s)" and "insert_case i c s = Inr (s', u)" and "case_ok c"
  shows "case_rows (ds_cases s')"
proof -
  have new: "map_of (ds_cases s) i = None" and free: "mc_status c \<in> open_statuses \<Longrightarrow> open_case (mc_targetType c) (mc_targetId c) s = None"
    and s': "ds_cases s' = ds_cases s @ [(i, c)]"
    using assms(2) by (auto simp: insert_case_def set_cases_def split: if_splits)
  have old: "map_of (ds_cases s') j = (if j = i then Some c else map_of (ds_cases s) j)" for j
    using new by (auto simp: s' map_add_def split: option.splits)
  have no: "\<not> (mc_status d \<in> open_statuses \<and> mc_targetType d = mc_targetType c \<and> mc_targetId d = mc_targetId c)"
    if "map_of (ds_cases s) j = Some d" "mc_status c \<in> open_statuses" for j d
    using free [OF that(2)] map_of_SomeD [OF that(1)] by (auto simp: open_case_None)
  have "distinct (map fst (ds_cases s'))" using assms(1) new by (auto simp: s' case_rows_def map_of_eq_None_iff)
  moreover have "case_ok d" if "map_of (ds_cases s') j = Some d" for j d
    using that assms(1,3) by (auto simp: old case_rows_def split: if_splits)
  moreover have "j = k" if "map_of (ds_cases s') j = Some d" "map_of (ds_cases s') k = Some e" "mc_status d \<in> open_statuses"
      "mc_status e \<in> open_statuses" "mc_targetType d = mc_targetType e" "mc_targetId d = mc_targetId e" for j d k e
  proof (cases "j = i \<or> k = i")
    case True
    then show ?thesis using that no by (auto simp: old split: if_splits)
  next
    case False
    with that assms(1) show ?thesis unfolding old case_rows_def by simp
  qed
  ultimately show ?thesis unfolding case_rows_def by blast
qed

lemma insert_case_reports:
  assumes "report_rows (ds_cases s) (ds_reports s)" and "insert_case i c s = Inr (s', u)"
    and "mc_reportCount c = 0" and "mc_uniqueReporterCount c = 0"
  shows "report_rows (ds_cases s') (ds_reports s')"
proof -
  have new: "map_of (ds_cases s) i = None" and s': "ds_cases s' = ds_cases s @ [(i, c)]" "ds_reports s' = ds_reports s"
    using assms(2) by (auto simp: insert_case_def set_cases_def split: if_splits)
  have old: "map_of (ds_cases s') j = (if j = i then Some c else map_of (ds_cases s) j)" for j
    using new by (auto simp: s' map_add_def split: option.splits)
  have "reports_in i (ds_reports s) = []"
    using assms(1) new by (force simp: report_rows_def reports_in_def filter_empty_conv)
  then have "mc_reportCount d = int (length (reports_in j (ds_reports s))) \<and> mc_uniqueReporterCount d = mc_reportCount d"
    if "map_of (ds_cases s') j = Some d" for j d
    using that assms(1,3,4) by (auto simp: old report_rows_def split: if_splits)
  moreover have "\<exists>d. map_of (ds_cases s') (rp_caseId r) = Some d \<and> mc_targetType d = rp_targetType r \<and> mc_targetId d = rp_targetId r"
    if r: "r \<in> set (ds_reports s)" for r
  proof -
    obtain d where "map_of (ds_cases s) (rp_caseId r) = Some d" "mc_targetType d = rp_targetType r" "mc_targetId d = rp_targetId r"
      using assms(1) r unfolding report_rows_def by blast
    with new show ?thesis by (auto simp: old)
  qed
  ultimately show ?thesis using assms(1) by (simp add: report_rows_def s')
qed

lemma add_report_rows:
  assumes "case_rows cs" and "report_rows cs rs" and c: "map_of cs i = Some c"
    and r: "rp_id r = length rs" "rp_caseId r = i" "rp_targetType r = mc_targetType c" "rp_targetId r = mc_targetId c"
    and new: "\<not> (\<exists>q \<in> set rs. rp_caseId q = i \<and> rp_reporter q = rp_reporter r)"
    and ds_def: "ds = AList.map_entry i (count_report now) cs"
  shows "case_rows ds" and "report_rows ds (rs @ [r])"
proof -
  have m: "map_of ds j = (if j = i then Some (count_report now c) else map_of cs j)" for j
    using c by (simp add: ds_def AList.map_of_map_entry)
  have same: "mc_status (count_report now d) = mc_status d" "mc_targetType (count_report now d) = mc_targetType d"
    "mc_targetId (count_report now d) = mc_targetId d" "case_ok (count_report now d) = case_ok d" for d
    by (simp_all add: count_report_def case_ok_def)
  have was: "\<exists>d'. map_of cs j = Some d' \<and> mc_status d = mc_status d' \<and> mc_targetType d = mc_targetType d' \<and> mc_targetId d = mc_targetId d'
      \<and> case_ok d = case_ok d'" if "map_of ds j = Some d" for j d
    using that c by (auto simp: m same split: if_splits)
  have "map fst ds = map fst cs" unfolding ds_def by (induction cs) auto
  then have "distinct (map fst ds)" using assms(1) by (simp add: case_rows_def)
  moreover have "case_ok d" if "map_of ds j = Some d" for j d
    using was [OF that] assms(1) by (auto simp: case_rows_def)
  moreover have "j = k" if d: "map_of ds j = Some d" "map_of ds k = Some e" and o: "mc_status d \<in> open_statuses" "mc_status e \<in> open_statuses"
      and t: "mc_targetType d = mc_targetType e" "mc_targetId d = mc_targetId e" for j d k e
  proof -
    obtain d' where d': "map_of cs j = Some d'" "mc_status d = mc_status d'" "mc_targetType d = mc_targetType d'" "mc_targetId d = mc_targetId d'"
      using was [OF d(1)] by blast
    obtain e' where e': "map_of cs k = Some e'" "mc_status e = mc_status e'" "mc_targetType e = mc_targetType e'" "mc_targetId e = mc_targetId e'"
      using was [OF d(2)] by blast
    have rows: "\<forall>i c j d. map_of cs i = Some c \<longrightarrow> map_of cs j = Some d \<longrightarrow> mc_status c \<in> open_statuses \<longrightarrow> mc_status d \<in> open_statuses
          \<longrightarrow> mc_targetType c = mc_targetType d \<longrightarrow> mc_targetId c = mc_targetId d \<longrightarrow> i = j"
      using assms(1) by (simp add: case_rows_def)
    show ?thesis by (rule rows [rule_format, OF d'(1) e'(1)]) (use o t d' e' in simp_all)
  qed
  ultimately show "case_rows ds" unfolding case_rows_def by blast
  have "mc_reportCount d = int (length (reports_in j (rs @ [r]))) \<and> mc_uniqueReporterCount d = mc_reportCount d"
    if "map_of ds j = Some d" for j d
    using that assms(2) c r(2) by (auto simp: m report_rows_def reports_in_def count_report_def split: if_splits)
  moreover have "\<exists>d. map_of ds (rp_caseId q) = Some d \<and> mc_targetType d = rp_targetType q \<and> mc_targetId d = rp_targetId q"
    if q: "q \<in> set (rs @ [r])" for q
  proof (cases "q \<in> set rs")
    case True
    then obtain d where "map_of cs (rp_caseId q) = Some d" "mc_targetType d = rp_targetType q" "mc_targetId d = rp_targetId q"
      using assms(2) unfolding report_rows_def by blast
    with c show ?thesis by (auto simp: m same)
  next
    case False
    with q r c show ?thesis by (auto simp: m same)
  qed
  moreover have "distinct (map (\<lambda>q. (rp_caseId q, rp_reporter q)) rs)" using assms(2) by (simp add: report_rows_def)
  then have "distinct (map (\<lambda>q. (rp_caseId q, rp_reporter q)) (rs @ [r]))" using new r(2) by auto
  ultimately show "report_rows ds (rs @ [r])" using assms(2) r(1) by (simp add: report_rows_def)
qed

lemma latest_generation: "analysis_rows as \<Longrightarrow> fold max (map an_generation (filter (\<lambda>a. an_caseId a = i) as)) 0
    = length (filter (\<lambda>a. an_caseId a = i) as)"
proof -
  have "fold max [1..<Suc n] 0 = n" for n :: nat by (induction n) auto
  then show "analysis_rows as \<Longrightarrow> ?thesis" by (simp add: analysis_rows_def)
qed

lemma schedule_result:
  assumes "schedule_if_needed hash r s = Inr (s', u)" and "analysis_rows (ds_analyses s)"
  shows "ds_mod s' = ds_mod s \<and> ds_staff s' = ds_staff s \<and> ds_reports s' = ds_reports s \<and> ds_log s' = ds_log s
    \<and> analysis_rows (ds_analyses s')"
proof -
  have "analysis_rows (ds_analyses s @ [\<lparr>an_caseId = rp_caseId r, an_sourceReport = rp_id r, an_snapshotHash = hash (rp_snapshot r),
      an_generation = length (filter (\<lambda>a. an_caseId a = rp_caseId r) (ds_analyses s)) + 1\<rparr>])"
    if "\<not> (\<exists>a \<in> set (ds_analyses s). an_caseId a = rp_caseId r \<and> an_snapshotHash a = hash (rp_snapshot r))"
    using assms(2) that by (auto simp: analysis_rows_def)
  with assms show ?thesis
    by (auto simp: schedule_if_needed_def tx_bind_Inr tx_simps latest_generation split: if_splits)
qed

definition found_for :: "content_kind \<Rightarrow> string \<Rightarrow> string option \<Rightarrow> desk \<Rightarrow> bool" where
  "found_for k i found s \<longleftrightarrow> (case found of None \<Rightarrow> True
     | Some j \<Rightarrow> (case map_of (ds_cases s) j of None \<Rightarrow> True | Some c \<Rightarrow> mc_targetType c = k \<and> mc_targetId c = i))"

lemma lock_result:
  assumes "lock_open_case now new found dto snapshot s = Inr (s', locked)" and "found_for (rd_targetType dto) (rd_targetId dto) found s"
    and "case_rows (ds_cases s)" and "report_rows (ds_cases s) (ds_reports s)"
  shows "ds_staff s' = ds_staff s \<and> ds_reports s' = ds_reports s \<and> ds_analyses s' = ds_analyses s
    \<and> case_rows (ds_cases s') \<and> report_rows (ds_cases s') (ds_reports s')
    \<and> (\<forall>i. locked = Some i \<longrightarrow> (\<exists>c. map_of (ds_cases s') i = Some c \<and> mc_targetType c = rd_targetType dto \<and> mc_targetId c = rd_targetId dto
          \<and> mc_status c \<in> open_statuses))"
proof (cases found)
  case (Some i)
  with assms show ?thesis
    by (auto simp: lock_open_case_def tx_simps found_for_def split: option.splits if_splits)
next
  case None
  let ?c = "\<lparr>mc_targetType = rd_targetType dto, mc_targetId = rd_targetId dto,
    mc_gameId = ct_gameId snapshot, mc_status = Case_open, mc_assigned = None, mc_reportCount = 0,
    mc_uniqueReporterCount = 0, mc_lastReportedAt = now, mc_resolvedBy = None, mc_resolvedAt = None, mc_resolutionNote = None\<rparr>"
  have ok: "case_ok ?c" by (simp add: case_ok_def open_statuses_def)
  from None assms(1) have run: "insert_case new ?c s = Inr (s', ())" and l: "locked = Some new"
    by (auto simp: lock_open_case_def tx_bind_Inr tx_simps)
  have "case_rows (ds_cases s')" by (rule insert_case_rows [OF assms(3) run ok])
  moreover have "report_rows (ds_cases s') (ds_reports s')" by (rule insert_case_reports [OF assms(4) run]) simp_all
  ultimately show ?thesis using run l
    by (auto simp: insert_case_def set_cases_def open_statuses_def map_add_def split: if_splits option.splits)
qed

lemma attempt_keeps_desk:
  assumes "report_attempt hash now new found reporter dto snapshot s = Inr (s', r)" and "found_for (rd_targetType dto) (rd_targetId dto) found s"
    and "desk_ok s"
  shows "desk_ok s' \<and> ds_staff s' = ds_staff s"
proof -
  have rows: "case_rows (ds_cases s)" "report_rows (ds_cases s) (ds_reports s)" "analysis_rows (ds_analyses s)"
    using assms(3) by (simp_all add: desk_ok_def)
  obtain t locked where lock: "lock_open_case now new found dto snapshot s = Inr (t, locked)"
    using assms(1) by (auto simp: report_attempt_def tx_bind_Inr)
  from lock_result [OF lock assms(2) rows(1,2)] have t: "ds_staff t = ds_staff s" "ds_analyses t = ds_analyses s"
    "case_rows (ds_cases t)" "report_rows (ds_cases t) (ds_reports t)"
    "\<And>i. locked = Some i \<Longrightarrow> \<exists>c. map_of (ds_cases t) i = Some c \<and> mc_targetType c = rd_targetType dto \<and> mc_targetId c = rd_targetId dto"
    by auto
  show ?thesis
  proof (cases locked)
    case None
    with assms(1) lock t rows(3) show ?thesis by (auto simp: report_attempt_def tx_simps desk_ok_def)
  next
    case (Some i)
    let ?r = "\<lparr>rp_id = length (ds_reports t), rp_caseId = i, rp_reporter = reporter,
           rp_targetType = rd_targetType dto, rp_targetId = rd_targetId dto, rp_reason = rd_reason dto,
           rp_details = normalize_text (rd_details dto), rp_snapshot = snapshot, rp_createdAt = now\<rparr>"
    let ?t = "set_cases (AList.map_entry i (count_report now)) (t\<lparr>ds_reports := ds_reports t @ [?r]\<rparr>)"
    obtain c where c: "map_of (ds_cases t) i = Some c" "mc_targetType c = rd_targetType dto" "mc_targetId c = rd_targetId dto"
      using t(5) [OF Some] by blast
    have new: "\<not> (\<exists>q \<in> set (ds_reports t). rp_caseId q = i \<and> rp_reporter q = rp_reporter ?r)" and run: "schedule_if_needed hash ?r ?t = Inr (s', ())"
      using assms(1) lock Some by (auto simp: report_attempt_def tx_bind_Inr tx_simps split: if_splits)
    have "analysis_rows (ds_analyses ?t)" using rows(3) t(2) by (simp add: set_cases_def)
    from schedule_result [OF run this] have s': "ds_mod s' = ds_mod ?t" "ds_staff s' = ds_staff ?t" "ds_reports s' = ds_reports ?t"
      "analysis_rows (ds_analyses s')" by auto
    have "case_rows (AList.map_entry i (count_report now) (ds_cases t))"
      and "report_rows (AList.map_entry i (count_report now) (ds_cases t)) (ds_reports t @ [?r])"
      by (rule add_report_rows [OF t(3,4) c(1) _ _ _ _ new refl]; simp add: c)+
    with s' t(1) show ?thesis by (simp add: desk_ok_def set_cases_def)
  qed
qed

section \<open>Working on a case\<close>

lemma transition_result:
  assumes "transition_case actor game case_game i change statuses assignee action s = Inr (s', r)"
  shows "(r = None \<and> s' = s) \<or> (\<exists>c u. map_of (ds_cases s) i = Some c \<and> mc_gameId c = case_game \<and> (game = None \<or> mc_gameId c = game)
    \<and> mc_status c \<in> statuses \<and> lock_moderation_actor (ds_staff s) actor game = Inr u
    \<and> (case assignee of None \<Rightarrow> True | Some v \<Rightarrow> case_moderator (ds_staff s) case_game v) \<and> r = Some (change c)
    \<and> s' = (set_cases (AList.map_entry i change) s)\<lparr>ds_log := ds_log s @ [\<lparr>lg_action = action, lg_actor = actor, lg_target = i\<rparr>]\<rparr>)"
  using assms
  by (auto simp: transition_case_def tx_bind_Inr tx_simps record_or_throw_def set_cases_def split: option.splits if_splits)

lemma locked_actor:
  "lock_moderation_actor st actor game = Inr u \<Longrightarrow> game = None \<or> case_game = game \<Longrightarrow> case_moderator st case_game actor"
  by (auto simp: lock_moderation_actor_def case_moderator_def split: option.splits if_splits)

lemma change_moves:
  assumes "transition_case actor game case_game i change statuses assignee action s = Inr (s', r)"
    and "\<And>c. mc_status c \<in> statuses \<Longrightarrow> moved c (change c)" and "desk_ok s"
  shows "desk_ok s' \<and> ds_staff s' = ds_staff s"
proof -
  consider "s' = s" | c where "map_of (ds_cases s) i = Some c" "mc_status c \<in> statuses"
      "s' = (set_cases (AList.map_entry i change) s)\<lparr>ds_log := ds_log s @ [\<lparr>lg_action = action, lg_actor = actor, lg_target = i\<rparr>]\<rparr>"
    using transition_result [OF assms(1)] by blast
  then show ?thesis
  proof cases
    case 1
    with assms(3) show ?thesis by simp
  next
    case (2 c)
    have "on_cases moved (ds_cases s) (ds_cases s')" unfolding 2(3) set_cases_def
      by simp (rule on_cases_entry, simp add: moved_def, use 2(1,2) assms(2) in auto)
    with assms(3) show ?thesis by (auto simp: 2(3) set_cases_def intro: moved_desk)
  qed
qed

lemma case_actions_keep_desk:
  "assign_case actor game case_game i v s = Inr (s', r) \<Longrightarrow> desk_ok s \<Longrightarrow> desk_ok s' \<and> ds_staff s' = ds_staff s"
  "claim_case actor game case_game i s = Inr (s', r) \<Longrightarrow> desk_ok s \<Longrightarrow> desk_ok s' \<and> ds_staff s' = ds_staff s"
  "finalize_case now actor game case_game i resolved note s = Inr (s', r) \<Longrightarrow> desk_ok s \<Longrightarrow> desk_ok s' \<and> ds_staff s' = ds_staff s"
  unfolding assign_case_def claim_case_def finalize_case_def
  by (erule change_moves; auto simp: moved_def open_statuses_def case_ok_def)+

lemma mutate_result:
  "mutate_case earlier now u i action note slug s = Inr (s', c) \<longleftrightarrow> (\<exists>game case_game. case_scope earlier u i slug = Inr (game, case_game)
     \<and> act_on_case now u i action note game case_game s = Inr (s', Some c))"
  by (auto simp: mutate_case_def tx_bind_Inr tx_result_run tx_run split: option.splits) blast+

lemma scope_result: "case_scope earlier u i slug = Inr (game, case_game) \<Longrightarrow> game = None \<or> case_game = game"
  by (auto simp: case_scope_def split: option.splits sum.splits)

lemma mutate_keeps_desk: "mutate_case earlier now u i action note slug s = Inr (s', c) \<Longrightarrow> desk_ok s \<Longrightarrow> desk_ok s' \<and> ds_staff s' = ds_staff s"
  unfolding mutate_result act_on_case_def by (cases action) (auto dest: case_actions_keep_desk)

section \<open>Staff\<close>

lemma release_result:
  assumes "in_moderation (release_moderator_cases u in_games) s = Inr (s', x)"
  shows "on_cases handed_back (ds_cases s) (ds_cases s') \<and> ds_reports s' = ds_reports s \<and> ds_analyses s' = ds_analyses s \<and> ds_staff s' = ds_staff s
    \<and> (\<forall>i c. map_of (ds_cases s') i = Some c \<longrightarrow> mc_status c = Case_in_review \<longrightarrow> map_of (ds_cases s) i = Some c \<and> \<not> (in_games (mc_gameId c) \<and> mc_assigned c = Some u))"
proof -
  define give where "give c = (if in_games (mc_gameId c) \<and> mc_assigned c = Some u \<and> mc_status c \<in> {Case_open, Case_in_review}
       then c\<lparr>mc_assigned := None, mc_status := Case_open\<rparr> else c)" for c :: moderation_case
  have s': "s' = s\<lparr>ds_mod := (ds_mod s)\<lparr>mo_cases := map (\<lambda>(i, c). (i, give c)) (ds_cases s)\<rparr>\<rparr>"
    using assms by (auto simp: in_moderation_def release_moderator_cases_def tx_run give_def)
  have m: "map_of (map (\<lambda>(i, c). (i, give c)) cs) i = map_option give (map_of cs i)" for cs i
    by (induction cs) auto
  have "on_cases handed_back (ds_cases s) (ds_cases s')" unfolding s'
    by simp (rule on_cases_map, auto simp: give_def handed_back_def open_statuses_def)
  moreover have "map_of (ds_cases s) i = Some c \<and> \<not> (in_games (mc_gameId c) \<and> mc_assigned c = Some u)"
    if found: "map_of (ds_cases s') i = Some c" "mc_status c = Case_in_review" for i c
  proof -
    have "map_option give (map_of (ds_cases s) i) = Some c" using found(1) by (simp add: s' m)
    with found(2) show ?thesis by (auto simp: give_def dest: arg_cong [where f = mc_status] split: if_splits)
  qed
  ultimately show ?thesis by (simp add: s')
qed

lemma handed_back_desk:
  "desk_ok s \<Longrightarrow> on_cases handed_back (ds_cases s) (ds_cases t) \<Longrightarrow> ds_reports t = ds_reports s \<Longrightarrow> ds_analyses t = ds_analyses s \<Longrightarrow> desk_ok t"
  by (erule moved_desk) (auto elim: on_cases_mono handed_back_moved)

lemma staff_changes_keep_desk:
  "change_platform_moderator games actor target grant s = Inr (s', r) \<Longrightarrow> desk_ok s \<Longrightarrow> desk_ok s'"
  "assign_moderator earlier slug u by' s = Inr (s', x) \<Longrightarrow> desk_ok s \<Longrightarrow> desk_ok s'"
  "remove_moderator earlier role slug u by' s = Inr (s', x) \<Longrightarrow> desk_ok s \<Longrightarrow> desk_ok s'"
  "set_user_status earlier u to' actor s = Inr (s', x) \<Longrightarrow> desk_ok s \<Longrightarrow> desk_ok s'"
  by (auto simp: change_platform_moderator_def assign_moderator_def remove_moderator_def set_user_status_def tx_bind_Inr tx_simps
      record_or_throw_def set_role_def set_assignments_def dest!: release_result intro: handed_back_desk split: option.splits if_splits)

end
