(* ===== verification/Case_System.thy ===== *)
theory Case_System
  imports Case_Desk_Invariant "HOL-Library.Sublist"
begin

text \<open>
  The desk as one step relation over a clock that never runs back: reports, work on cases, changes of
  staff, and every request of moderation, in any order. \<open>fresh\<close> is set when a removal of a moderator saw
  what it read as it is when it commits. Every run of the desk is a run of moderation.
\<close>

section \<open>What the operations on staff come to\<close>

lemma recorded: "record_or_throw action actor target t = Inr (s', x)
    \<longleftrightarrow> s' = t\<lparr>ds_log := ds_log t @ [\<lparr>lg_action = action, lg_actor = actor, lg_target = target\<rparr>]\<rparr>"
  by (auto simp: record_or_throw_def tx_run)

lemma change_platform_result:
  assumes "change_platform_moderator games actor target grant s = Inr (s', r)"
  obtains x t y where "map_of (st_users (ds_staff s)) target = Some x" and "su_role x = (if grant then User_role else Platform_moderator)"
    and "tx_when (\<not> grant) (in_moderation (release_moderator_cases target (\<lambda>game. game = None \<or> the game \<notin> set games)))
       (set_role target (if grant then Platform_moderator else User_role) s) = Inr (t, y)"
    and "record_or_throw (if grant then MODERATOR_ASSIGNED else MODERATOR_REMOVED) actor target t = Inr (s', ())"
proof (cases "map_of (st_users (ds_staff s)) target")
  case (Some x)
  with assms show ?thesis unfolding change_platform_moderator_def
    by (auto simp: tx_bind_Inr tx_run tx_require_run intro: that split: if_splits)
qed (use assms in \<open>auto simp: change_platform_moderator_def tx_bind_Inr tx_run tx_require_run split: if_splits\<close>)

lemma assign_moderator_result:
  assumes "assign_moderator earlier slug u actor s = Inr (s', x)"
  obtains g where "(u, g) \<notin> set (st_assignments (ds_staff s))"
    and "record_or_throw MODERATOR_ASSIGNED actor u (set_assignments (\<lambda>as. as @ [(u, g)]) s) = Inr (s', x)"
proof (cases "map_of (st_users (ds_staff earlier)) u")
  case (Some y)
  with assms show ?thesis unfolding assign_moderator_def
    by (auto simp: tx_bind_Inr tx_run tx_require_run tx_result_run intro: that split: if_splits)
qed (use assms in \<open>auto simp: assign_moderator_def tx_bind_Inr tx_run\<close>)

lemma remove_moderator_result:
  assumes "remove_moderator earlier role slug u actor s = Inr (s', x)"
  obtains g t y where "tx_when (case role of None \<Rightarrow> True | Some r \<Rightarrow> \<not> has_platform_moderation_capability r)
       (in_moderation (release_moderator_cases u (\<lambda>h. h = Some g))) (set_assignments (filter (\<lambda>a. a \<noteq> (u, g))) s) = Inr (t, y)"
    and "record_or_throw MODERATOR_REMOVED actor u t = Inr (s', x)"
    and "resolve_game_id (ds_staff earlier) slug = Inr g" and "(u, g) \<in> set (st_assignments (ds_staff s))"
proof -
  define role_lost where "role_lost = (case role of None \<Rightarrow> True | Some r \<Rightarrow> \<not> has_platform_moderation_capability r)"
  obtain g t y where "resolve_game_id (ds_staff earlier) slug = Inr g" "(u, g) \<in> set (st_assignments (ds_staff s))"
    "tx_when role_lost (in_moderation (release_moderator_cases u (\<lambda>h. h = Some g))) (set_assignments (filter (\<lambda>a. a \<noteq> (u, g))) s) = Inr (t, y)"
    "record_or_throw MODERATOR_REMOVED actor u t = Inr (s', x)"
    using assms unfolding remove_moderator_def role_lost_def [symmetric]
    by (auto simp: tx_bind_Inr tx_run tx_require_run tx_result_run split: if_splits)
  then show ?thesis by (intro that) (simp_all add: role_lost_def)
qed

lemma set_user_status_result:
  assumes "set_user_status earlier u status actor s = Inr (s', x)"
  shows "record_or_throw USER_REACTIVATED actor u (s\<lparr>ds_staff := (ds_staff s)\<lparr>st_users :=
      AList.map_entry u (\<lambda>y. y\<lparr>su_status := ACTIVE_USER\<rparr>) (st_users (ds_staff s))\<rparr>\<rparr>) = Inr (s', x)"
proof (cases "map_of (st_users (ds_staff earlier)) u")
  case (Some y)
  with assms show ?thesis unfolding set_user_status_def
    by (auto simp: tx_bind_Inr tx_run tx_require_run split: if_splits)
qed (use assms in \<open>auto simp: set_user_status_def tx_bind_Inr tx_run split: if_splits\<close>)

section \<open>Cases are with someone who may work on them\<close>

lemma staffedD:
  assumes "staffed s" and "map_of (ds_cases s) i = Some c" and "mc_status c = Case_in_review" and "mc_assigned c = Some v"
  shows "case_moderator (ds_staff s) (mc_gameId c) v"
proof -
  have "with_moderator (ds_staff s) c" using assms(1,2) by (simp add: staffed_def)
  with assms(3,4) show ?thesis by (simp add: with_moderator_def)
qed

lemma with_moderator_handed_back: "on_cases handed_back cs ds \<Longrightarrow> (\<And>i c. map_of cs i = Some c \<Longrightarrow> with_moderator st c)
    \<Longrightarrow> map_of ds i = Some d \<Longrightarrow> with_moderator st d"
  by (erule (1) on_cases_Some) (auto simp: handed_back_def with_moderator_def)

lemma request_keeps_staffed: "moderation_request fresh now (ds_mod s) m \<Longrightarrow> staffed s \<Longrightarrow> staffed (s\<lparr>ds_mod := m\<rparr>)"
  using with_moderator_handed_back [OF request_cases] by (auto simp: staffed_def)

lemma case_moderator_more:
  assumes "case_moderator st game u" and "\<And>v x. map_of (st_users st) v = Some x \<Longrightarrow> \<exists>y. map_of (st_users st') v = Some y
      \<and> (su_status x = ACTIVE_USER \<longrightarrow> su_status y = ACTIVE_USER)
      \<and> (has_platform_moderation_capability (su_role x) \<longrightarrow> has_platform_moderation_capability (su_role y))"
    and "set (st_assignments st) \<subseteq> set (st_assignments st')"
  shows "case_moderator st' game u"
proof -
  obtain x where x: "map_of (st_users st) u = Some x" using assms(1) by (auto simp: case_moderator_def split: option.splits)
  obtain y where y: "map_of (st_users st') u = Some y" "su_status x = ACTIVE_USER \<longrightarrow> su_status y = ACTIVE_USER"
    "has_platform_moderation_capability (su_role x) \<longrightarrow> has_platform_moderation_capability (su_role y)"
    using assms(2) [OF x] by blast
  with x assms(1,3) show ?thesis by (auto simp: case_moderator_def split: option.splits)
qed

lemma staffed_more:
  assumes "staffed s" and "ds_cases t = ds_cases s"
    and "\<And>game u. case_moderator (ds_staff s) game u \<Longrightarrow> case_moderator (ds_staff t) game u"
  shows "staffed t"
  using assms by (fastforce simp: staffed_def with_moderator_def split: option.splits)

lemma attempt_keeps_staffed:
  assumes "report_attempt hash now new found reporter dto snapshot s = Inr (s', r)" and "staffed s"
  shows "staffed s'"
proof -
  obtain t locked where lock: "lock_open_case now new found dto snapshot s = Inr (t, locked)"
    using assms(1) by (auto simp: report_attempt_def tx_bind_Inr)
  then have t: "staffed t"
    using assms(2) by (auto simp: lock_open_case_def tx_bind_Inr tx_simps insert_case_def set_cases_def staffed_def map_add_def
        with_moderator_def split: option.splits if_splits)
  have sched: "schedule_if_needed hash q u = Inr (u', x) \<Longrightarrow> ds_mod u' = ds_mod u \<and> ds_staff u' = ds_staff u" for q u u' x
    by (auto simp: schedule_if_needed_def tx_bind_Inr tx_simps split: if_splits)
  show ?thesis
  proof (cases locked)
    case None
    with assms(1) lock t show ?thesis by (auto simp: report_attempt_def tx_simps)
  next
    case (Some i)
    then have s': "ds_cases s' = AList.map_entry i (count_report now) (ds_cases t)" "ds_staff s' = ds_staff t"
      using assms(1) lock by (auto simp: report_attempt_def tx_bind_Inr tx_simps set_cases_def dest!: sched split: if_splits)
    have "with_moderator st (count_report now c) = with_moderator st c" for st c by (simp add: with_moderator_def count_report_def split: option.split)
    with t show ?thesis by (auto simp: staffed_def s' AList.map_of_map_entry split: if_splits option.splits)
  qed
qed

lemma transition_keeps_staffed:
  assumes "transition_case actor game case_game i change statuses assignee action s = Inr (s', r)" and "staffed s"
    and change: "\<And>c u. mc_gameId c = case_game \<Longrightarrow> game = None \<or> mc_gameId c = game \<Longrightarrow> lock_moderation_actor (ds_staff s) actor game = Inr u
      \<Longrightarrow> (case assignee of None \<Rightarrow> True | Some v \<Rightarrow> case_moderator (ds_staff s) case_game v) \<Longrightarrow> with_moderator (ds_staff s) (change c)"
  shows "staffed s'"
proof -
  consider "s' = s" | c u where "map_of (ds_cases s) i = Some c" "mc_gameId c = case_game" "game = None \<or> mc_gameId c = game"
      "lock_moderation_actor (ds_staff s) actor game = Inr u" "case assignee of None \<Rightarrow> True | Some v \<Rightarrow> case_moderator (ds_staff s) case_game v"
      "s' = (set_cases (AList.map_entry i change) s)\<lparr>ds_log := ds_log s @ [\<lparr>lg_action = action, lg_actor = actor, lg_target = i\<rparr>]\<rparr>"
    using transition_result [OF assms(1)] by blast
  then show ?thesis
  proof cases
    case 1
    with assms(2) show ?thesis by simp
  next
    case (2 c u)
    have "with_moderator (ds_staff s) (change c)" by (rule change [OF 2(2,3,4,5)])
    with assms(2) 2(1) show ?thesis
      by (auto simp: staffed_def 2(6) set_cases_def AList.map_of_map_entry split: if_splits)
  qed
qed

lemma mutate_keeps_staffed:
  assumes "mutate_case earlier now u i action note slug s = Inr (s', c)" and "staffed s"
  shows "staffed s'"
proof -
  obtain game case_game where sc: "case_scope earlier u i slug = Inr (game, case_game)" and run: "act_on_case now u i action note game case_game s = Inr (s', Some c)"
    using assms(1) unfolding mutate_result by blast
  note scope = scope_result [OF sc]
  show ?thesis
  proof (cases action)
    case Claim_it
    with run have "claim_case u game case_game i s = Inr (s', Some c)" by (simp add: act_on_case_def)
    then show ?thesis unfolding claim_case_def
      by (rule transition_keeps_staffed [OF _ assms(2)])
         (use scope in \<open>auto simp: with_moderator_def intro: locked_actor\<close>)
  next
    case (Assign_to v)
    with run have "assign_case u game case_game i v s = Inr (s', Some c)" by (simp add: act_on_case_def)
    then show ?thesis unfolding assign_case_def
      by (rule transition_keeps_staffed [OF _ assms(2)]) (auto simp: with_moderator_def)
  next
    case Resolve_it
    with run have "finalize_case now u game case_game i True (normalize_text note) s = Inr (s', Some c)" by (simp add: act_on_case_def)
    then show ?thesis unfolding finalize_case_def
      by (rule transition_keeps_staffed [OF _ assms(2)]) (auto simp: with_moderator_def)
  next
    case Dismiss_it
    with run have "finalize_case now u game case_game i False (normalize_text note) s = Inr (s', Some c)" by (simp add: act_on_case_def)
    then show ?thesis unfolding finalize_case_def
      by (rule transition_keeps_staffed [OF _ assms(2)]) (auto simp: with_moderator_def)
  qed
qed

text \<open>Staff that gains a right, and staff that loses one.\<close>

lemma map_of_role: "map_of (st_users (ds_staff (set_role u role s))) v
    = map_option (\<lambda>x. if v = u then x\<lparr>su_role := role\<rparr> else x) (map_of (st_users (ds_staff s)) v)"
  by (cases "map_of (st_users (ds_staff s)) v") (auto simp: set_role_def AList.map_of_map_entry split: option.splits)

lemma role_granted_keeps_staffed:
  assumes "staffed s" and "map_of (st_users (ds_staff s)) u = Some x" and "su_role x = User_role"
  shows "staffed (set_role u Platform_moderator s)"
proof (rule staffed_more [OF assms(1)])
  show "case_moderator (ds_staff (set_role u Platform_moderator s)) game v" if "case_moderator (ds_staff s) game v" for game v
    by (rule case_moderator_more [OF that])
       (auto simp: map_of_role has_platform_moderation_capability_def, simp add: set_role_def)
qed (simp add: set_role_def)

lemma role_revoked_keeps_staffed:
  assumes "staffed s" and "set games = set (games_of u s)"
    and "in_moderation (release_moderator_cases u (\<lambda>game. game = None \<or> the game \<notin> set games)) (set_role u User_role s) = Inr (s', x)"
  shows "staffed s'"
  unfolding staffed_def
proof (intro allI impI)
  fix i c assume c: "map_of (ds_cases s') i = Some c"
  let ?t = "set_role u User_role s"
  note rel = release_result [OF assms(3)]
  have st: "ds_staff s' = ds_staff ?t" using rel by simp
  have "case_moderator (ds_staff ?t) (mc_gameId c) v" if review: "mc_status c = Case_in_review" and v: "mc_assigned c = Some v" for v
  proof -
    have old: "map_of (ds_cases s) i = Some c" and kept: "\<not> ((mc_gameId c = None \<or> the (mc_gameId c) \<notin> set games) \<and> mc_assigned c = Some u)"
      using rel c review by (auto simp: set_role_def)
    have earlier: "case_moderator (ds_staff s) (mc_gameId c) v"
      by (rule staffedD [OF assms(1) old review v])
    show ?thesis
    proof (cases "v = u")
      case True
      then obtain g where "mc_gameId c = Some g" "g \<in> set (games_of u s)" using kept v assms(2) by auto
      then have "(u, g) \<in> set (st_assignments (ds_staff s))" by (auto simp: games_of_def)
      with earlier True \<open>mc_gameId c = Some g\<close> show ?thesis
        by (auto simp: case_moderator_def map_of_role split: option.splits) (simp add: set_role_def)+
    next
      case False
      with earlier show ?thesis by (auto simp: case_moderator_def map_of_role split: option.splits) (auto simp: set_role_def)
    qed
  qed
  then show "with_moderator (ds_staff s') c" by (auto simp: with_moderator_def st split: option.splits)
qed

lemma removal_keeps_staffed:
  assumes "staffed s" and t: "t = set_assignments (filter (\<lambda>a. a \<noteq> (u, g))) s"
    and role: "role = map_option su_role (map_of (st_users (ds_staff s)) u)"
    and "tx_when (case role of None \<Rightarrow> True | Some r \<Rightarrow> \<not> has_platform_moderation_capability r)
       (in_moderation (release_moderator_cases u (\<lambda>h. h = Some g))) t = Inr (s', x)"
  shows "staffed s'"
  unfolding staffed_def
proof (intro allI impI)
  fix i c assume c: "map_of (ds_cases s') i = Some c"
  let ?platform = "\<not> (case role of None \<Rightarrow> True | Some r \<Rightarrow> \<not> has_platform_moderation_capability r)"
  have st: "ds_staff s' = ds_staff t" and old: "mc_status c = Case_in_review \<Longrightarrow> map_of (ds_cases s) i = Some c"
    and kept: "mc_status c = Case_in_review \<Longrightarrow> ?platform \<or> \<not> (mc_gameId c = Some g \<and> mc_assigned c = Some u)"
    using assms(4) c release_result by (fastforce simp: tx_simps t set_assignments_def split: if_splits)+
  have "case_moderator (ds_staff t) (mc_gameId c) v" if review: "mc_status c = Case_in_review" and v: "mc_assigned c = Some v" for v
  proof -
    have "case_moderator (ds_staff s) (mc_gameId c) v"
      by (rule staffedD [OF assms(1) old [OF review] review v])
    with kept [OF review] v role show ?thesis
      by (auto simp: case_moderator_def t set_assignments_def split: option.splits)
  qed
  then show "with_moderator (ds_staff s') c" by (auto simp: with_moderator_def st split: option.splits)
qed

section \<open>Steps\<close>

definition empty_desk :: "staff \<Rightarrow> desk" where
  "empty_desk st = \<lparr>ds_mod = no_moderation, ds_staff = st, ds_reports = [], ds_analyses = [], ds_log = []\<rparr>"

definition role_of :: "user_id \<Rightarrow> desk \<Rightarrow> user_role option" where
  "role_of u s = map_option su_role (map_of (st_users (ds_staff s)) u)"

definition register_user :: "user_id \<Rightarrow> desk \<Rightarrow> desk" where
  "register_user u s = s\<lparr>ds_staff := (ds_staff s)\<lparr>st_users := st_users (ds_staff s) @ [(u, \<lparr>su_role = User_role, su_status = ACTIVE_USER\<rparr>)]\<rparr>\<rparr>"

inductive desk_step :: "bool \<Rightarrow> time \<Rightarrow> desk \<Rightarrow> desk \<Rightarrow> bool" for fresh now where
  moderated: "moderation_request False now (ds_mod s) m \<Longrightarrow> desk_step fresh now s (s\<lparr>ds_mod := m\<rparr>)"
| economy_moved: "economy_race (mo_economy (ds_mod s)) ec \<Longrightarrow> desk_step fresh now s (s\<lparr>ds_mod := (ds_mod s)\<lparr>mo_economy := ec\<rparr>\<rparr>)"
| community_created: "published_in g (mo_posts (ds_mod s)) = 0 \<Longrightarrow>
    desk_step fresh now s (s\<lparr>ds_mod := (ds_mod s)\<lparr>mo_postCounts := AList.update g 0 (mo_postCounts (ds_mod s))\<rparr>,
      ds_staff := (ds_staff s)\<lparr>st_games := AList.update slug g (st_games (ds_staff s))\<rparr>\<rparr>)"
| attempted: "found_for (rd_targetType dto) (rd_targetId dto) found s \<Longrightarrow>
    report_attempt hash now new found reporter dto snapshot s = Inr (s', r) \<Longrightarrow> desk_step fresh now s s'"
| worked: "mutate_case earlier now u i action note slug s = Inr (s', c) \<Longrightarrow> desk_step fresh now s s'"
| platform_changed: "(fresh \<Longrightarrow> set games = set (games_of target s)) \<Longrightarrow>
    change_platform_moderator games actor target grant s = Inr (s', role) \<Longrightarrow> desk_step fresh now s s'"
| moderator_assigned: "assign_moderator earlier slug u actor s = Inr (s', x) \<Longrightarrow> desk_step fresh now s s'"
| moderator_removed: "(fresh \<Longrightarrow> role = role_of u s) \<Longrightarrow>
    remove_moderator earlier role slug u actor s = Inr (s', x) \<Longrightarrow> desk_step fresh now s s'"
| status_set: "set_user_status earlier u status actor s = Inr (s', x) \<Longrightarrow> desk_step fresh now s s'"
| registered: "map_of (st_users (ds_staff s)) u = None \<Longrightarrow> desk_step fresh now s (register_user u s)"

inductive timed_desk :: "bool \<Rightarrow> time \<times> desk \<Rightarrow> time \<times> desk \<Rightarrow> bool" for fresh where
  timed: "t \<le> now \<Longrightarrow> desk_step fresh now s s' \<Longrightarrow> timed_desk fresh (t, s) (now, s')"

inductive_cases timed_deskE: "timed_desk fresh p q"

lemma empty_desk_ok: "desk_ok (empty_desk st)" "staffed (empty_desk st)"
  by (simp_all add: empty_desk_def no_moderation_def desk_ok_def case_rows_def report_rows_def analysis_rows_def staffed_def)

lemma step_keeps_desk: "desk_step fresh now s s' \<Longrightarrow> desk_ok s \<Longrightarrow> desk_ok s'"
proof (induction rule: desk_step.induct)
  case (moderated s m)
  show ?case by (rule handed_back_desk [OF moderated(2)]) (simp_all add: request_cases [OF moderated(1)])
next
  case (attempted dto found s hash new reporter snapshot s' r)
  show ?case using attempt_keeps_desk [OF attempted(2,1,3)] by simp
qed (auto simp: register_user_def dest: mutate_keeps_desk staff_changes_keep_desk, simp_all add: desk_ok_def)

lemma step_keeps_staffed: "desk_step True now s s' \<Longrightarrow> staffed s \<Longrightarrow> staffed s'"
proof (induction rule: desk_step.induct)
  case (moderated s m)
  then show ?case by (rule request_keeps_staffed)
next
  case (community_created g s slug)
  show ?case by (rule staffed_more [OF community_created(2)]) (auto intro: case_moderator_more)
next
  case (attempted dto found s hash new reporter snapshot s' r)
  show ?case by (rule attempt_keeps_staffed [OF attempted(2,3)])
next
  case (worked earlier u i action nt slug s s' c)
  then show ?case by (rule mutate_keeps_staffed)
next
  case (platform_changed games target s actor grant s' role)
  show ?case
  proof (rule change_platform_result [OF platform_changed(2)])
    fix x t y
    assume x: "map_of (st_users (ds_staff s)) target = Some x" "su_role x = (if grant then User_role else Platform_moderator)"
      and run: "tx_when (\<not> grant) (in_moderation (release_moderator_cases target (\<lambda>game. game = None \<or> the game \<notin> set games)))
        (set_role target (if grant then Platform_moderator else User_role) s) = Inr (t, y)"
      and l: "record_or_throw (if grant then MODERATOR_ASSIGNED else MODERATOR_REMOVED) actor target t = Inr (s', ())"
    have "staffed t"
    proof (cases grant)
      case True
      with run x role_granted_keeps_staffed [OF platform_changed(3) x(1)] show ?thesis by (simp add: tx_simps)
    next
      case False
      with run have "in_moderation (release_moderator_cases target (\<lambda>game. game = None \<or> the game \<notin> set games))
        (set_role target User_role s) = Inr (t, y)" by (simp add: tx_simps)
      then show ?thesis by (rule role_revoked_keeps_staffed [OF platform_changed(3) platform_changed(1) [OF TrueI]])
    qed
    with l show ?thesis by (simp add: recorded)
  qed
next
  case (moderator_assigned earlier slug u actor s s' x)
  show ?case
  proof (rule assign_moderator_result [OF moderator_assigned(1)], simp add: recorded, rule staffed_more [OF moderator_assigned(2)])
    fix g game v
    show "ds_cases (set_assignments (\<lambda>as. as @ [(u, g)]) s) = ds_cases s" by (simp add: set_assignments_def)
    show "case_moderator (ds_staff (set_assignments (\<lambda>as. as @ [(u, g)]) s)) game v" if "case_moderator (ds_staff s) game v"
      by (rule case_moderator_more [OF that]) (auto simp: set_assignments_def)
  qed
next
  case (moderator_removed role u s earlier slug actor s' x)
  show ?case
  proof (rule remove_moderator_result [OF moderator_removed(2)])
    fix g t y
    assume "tx_when (case role of None \<Rightarrow> True | Some r \<Rightarrow> \<not> has_platform_moderation_capability r)
       (in_moderation (release_moderator_cases u (\<lambda>h. h = Some g))) (set_assignments (filter (\<lambda>a. a \<noteq> (u, g))) s) = Inr (t, y)"
      and l: "record_or_throw MODERATOR_REMOVED actor u t = Inr (s', x)"
    with removal_keeps_staffed [OF moderator_removed(3) refl] moderator_removed(1) have "staffed t" by (auto simp: role_of_def)
    with l show ?thesis by (simp add: recorded)
  qed
next
  case (status_set earlier u status actor s s' x)
  let ?t = "s\<lparr>ds_staff := (ds_staff s)\<lparr>st_users := AList.map_entry u (\<lambda>y. y\<lparr>su_status := ACTIVE_USER\<rparr>) (st_users (ds_staff s))\<rparr>\<rparr>"
  have "staffed ?t"
  proof (rule staffed_more [OF status_set(2)])
    show "case_moderator (ds_staff ?t) game v" if "case_moderator (ds_staff s) game v" for game v
      by (rule case_moderator_more [OF that]) (auto simp: AList.map_of_map_entry)
  qed simp
  with set_user_status_result [OF status_set(1)] show ?case by (simp add: recorded)
next
  case (registered s u)
  show ?case unfolding register_user_def
  proof (rule staffed_more [OF registered(2)])
    show "case_moderator (ds_staff (s\<lparr>ds_staff := (ds_staff s)\<lparr>st_users := st_users (ds_staff s) @ [(u, \<lparr>su_role = User_role, su_status = ACTIVE_USER\<rparr>)]\<rparr>\<rparr>)) game v"
      if "case_moderator (ds_staff s) game v" for game v
      by (rule case_moderator_more [OF that]) (auto simp: map_add_def)
  qed simp
qed (simp add: staffed_def)

section \<open>What is never undone\<close>

text \<open>
  A case stays where it is; once it is closed nothing about it changes. Reports, analyses and the log only
  grow at the end.
\<close>

definition case_kept :: "moderation_case \<Rightarrow> moderation_case \<Rightarrow> bool" where
  "case_kept c d \<longleftrightarrow> mc_targetType d = mc_targetType c \<and> mc_targetId d = mc_targetId c \<and> mc_gameId d = mc_gameId c
     \<and> mc_reportCount c \<le> mc_reportCount d \<and> mc_lastReportedAt c \<le> mc_lastReportedAt d \<and> (mc_status c \<notin> open_statuses \<longrightarrow> d = c)"

definition cases_grown :: "(string \<times> moderation_case) list \<Rightarrow> (string \<times> moderation_case) list \<Rightarrow> bool" where
  "cases_grown cs ds \<longleftrightarrow> (\<forall>i c. map_of cs i = Some c \<longrightarrow> (\<exists>d. map_of ds i = Some d \<and> case_kept c d))"

definition desk_grown :: "desk \<Rightarrow> desk \<Rightarrow> bool" where
  "desk_grown s t \<longleftrightarrow> cases_grown (ds_cases s) (ds_cases t) \<and> prefix (ds_reports s) (ds_reports t)
     \<and> prefix (ds_analyses s) (ds_analyses t) \<and> prefix (ds_log s) (ds_log t)"

lemma case_kept_refl [simp]: "case_kept c c" by (simp add: case_kept_def)

lemma case_kept_trans: "case_kept c d \<Longrightarrow> case_kept d e \<Longrightarrow> case_kept c e"
  by (auto simp: case_kept_def)

lemma cases_grown_refl [simp]: "cases_grown cs cs" by (simp add: cases_grown_def)

lemma cases_grown_trans: "cases_grown cs ds \<Longrightarrow> cases_grown ds es \<Longrightarrow> cases_grown cs es"
  unfolding cases_grown_def by (blast dest: case_kept_trans)

lemma desk_grown_refl [simp]: "desk_grown s s" by (simp add: desk_grown_def)

lemma desk_grown_trans: "desk_grown r s \<Longrightarrow> desk_grown s t \<Longrightarrow> desk_grown r t"
  unfolding desk_grown_def by (elim conjE, intro conjI; (erule (1) cases_grown_trans | erule (1) prefix_order.trans))

lemma grown_case:
  assumes "desk_grown s u" and "map_of (ds_cases s) i = Some c"
  obtains d where "map_of (ds_cases u) i = Some d" and "case_kept c d"
  using assms unfolding desk_grown_def cases_grown_def by blast

lemma on_cases_grown: "on_cases case_kept cs ds \<Longrightarrow> cases_grown cs ds"
  unfolding cases_grown_def
proof (intro allI impI)
  fix i c assume "on_cases case_kept cs ds" and "map_of cs i = Some c"
  with on_cases_map_of [of case_kept cs ds i] show "\<exists>d. map_of ds i = Some d \<and> case_kept c d"
    by (simp add: option_rel_Some1)
qed

lemma handed_back_grown: "on_cases handed_back cs ds \<Longrightarrow> cases_grown cs ds"
  by (rule on_cases_grown, erule on_cases_mono) (auto simp: handed_back_def case_kept_def)

lemma insert_case_grown: "insert_case i c s = Inr (s', u) \<Longrightarrow> cases_grown (ds_cases s) (ds_cases s') \<and> ds_reports s' = ds_reports s
    \<and> ds_analyses s' = ds_analyses s \<and> ds_log s' = ds_log s"
  by (auto simp: insert_case_def set_cases_def cases_grown_def map_add_def split: if_splits option.splits)

lemma lock_grown:
  assumes "lock_open_case now new found dto snapshot s = Inr (t, locked)"
  shows "desk_grown s t \<and> (\<forall>i. locked = Some i \<longrightarrow> (\<exists>c. map_of (ds_cases t) i = Some c \<and> mc_status c \<in> open_statuses))"
proof (cases found)
  case None
  with assms obtain c where ins: "insert_case new c s = Inr (t, ())" and c: "mc_status c = Case_open" and "locked = Some new"
    by (auto simp: lock_open_case_def tx_bind_Inr tx_simps)
  then show ?thesis using insert_case_grown [OF ins]
    by (auto simp: desk_grown_def insert_case_def set_cases_def open_statuses_def map_add_def split: if_splits option.splits)
next
  case (Some i)
  with assms show ?thesis by (auto simp: lock_open_case_def tx_simps split: option.splits if_splits)
qed

lemma schedule_grown: "schedule_if_needed hash r s = Inr (s', u) \<Longrightarrow> desk_grown s s'"
  by (auto simp: schedule_if_needed_def tx_bind_Inr tx_simps desk_grown_def split: if_splits)

lemma entry_grown:
  assumes "\<And>c. map_of (ds_cases s) i = Some c \<Longrightarrow> case_kept c (f c)"
  shows "desk_grown s (set_cases (AList.map_entry i f) s)"
  by (simp add: desk_grown_def set_cases_def) (rule on_cases_grown, rule on_cases_entry, simp, rule assms)

lemma attempt_grown:
  assumes "report_attempt hash now new found reporter dto snapshot s = Inr (s', r)"
  shows "desk_grown s s'"
proof -
  obtain t locked where lock: "lock_open_case now new found dto snapshot s = Inr (t, locked)"
    using assms by (auto simp: report_attempt_def tx_bind_Inr)
  show ?thesis
  proof (cases locked)
    case None
    with assms lock lock_grown [OF lock] show ?thesis by (auto simp: report_attempt_def tx_simps)
  next
    case (Some i)
    with assms lock obtain q u where run: "schedule_if_needed hash q (set_cases (AList.map_entry i (count_report now))
        (t\<lparr>ds_reports := ds_reports t @ [q]\<rparr>)) = Inr (s', u)"
      by (auto simp: report_attempt_def tx_bind_Inr tx_simps split: if_splits)
    have "desk_grown t (t\<lparr>ds_reports := ds_reports t @ [q]\<rparr>)" by (simp add: desk_grown_def)
    moreover have "desk_grown (t\<lparr>ds_reports := ds_reports t @ [q]\<rparr>) (set_cases (AList.map_entry i (count_report now)) (t\<lparr>ds_reports := ds_reports t @ [q]\<rparr>))"
      by (rule entry_grown) (use lock_grown [OF lock] Some in \<open>auto simp: case_kept_def count_report_def\<close>)
    ultimately show ?thesis using lock_grown [OF lock] schedule_grown [OF run] desk_grown_trans by blast
  qed
qed

lemma transition_grown:
  assumes "transition_case actor game case_game i change statuses assignee action s = Inr (s', r)"
    and "\<And>c. mc_status c \<in> statuses \<Longrightarrow> case_kept c (change c)"
  shows "desk_grown s s'"
proof -
  consider "s' = s" | c where "map_of (ds_cases s) i = Some c" "mc_status c \<in> statuses"
      "s' = (set_cases (AList.map_entry i change) s)\<lparr>ds_log := ds_log s @ [\<lparr>lg_action = action, lg_actor = actor, lg_target = i\<rparr>]\<rparr>"
    using transition_result [OF assms(1)] by blast
  then show ?thesis
  proof cases
    case (2 c)
    have "desk_grown s (set_cases (AList.map_entry i change) s)" by (rule entry_grown) (use 2(1,2) assms(2) in auto)
    then show ?thesis by (simp add: 2(3) desk_grown_def set_cases_def)
  qed simp
qed

lemma worked_grown: "mutate_case earlier now u i action note slug s = Inr (s', c) \<Longrightarrow> desk_grown s s'"
  unfolding mutate_result act_on_case_def assign_case_def claim_case_def finalize_case_def
  by (cases action) (auto elim!: transition_grown simp: case_kept_def open_statuses_def)

lemma release_grown: "in_moderation (release_moderator_cases u in_games) s = Inr (s', x) \<Longrightarrow> desk_grown s s'"
  by (frule release_result) (auto simp: desk_grown_def in_moderation_def handed_back_grown split: sum.splits)

lemma desk_grown_frame [simp]:
  "desk_grown (s\<lparr>ds_staff := st\<rparr>) t = desk_grown s t" "desk_grown s (t\<lparr>ds_staff := st\<rparr>) = desk_grown s t"
  by (simp_all add: desk_grown_def)

lemma desk_grown_recorded: "record_or_throw action actor target t = Inr (s', x) \<Longrightarrow> desk_grown s t \<Longrightarrow> desk_grown s s'"
  by (simp add: desk_grown_def prefix_prefix recorded)

lemma staff_grown:
  "change_platform_moderator games actor target grant s = Inr (s', role) \<Longrightarrow> desk_grown s s'"
  "assign_moderator earlier slug u actor s = Inr (s', x) \<Longrightarrow> desk_grown s s'"
  "remove_moderator earlier r slug u actor s = Inr (s', x) \<Longrightarrow> desk_grown s s'"
  "set_user_status earlier u status actor s = Inr (s', x) \<Longrightarrow> desk_grown s s'"
proof -
  note [simp] = tx_when_run set_role_def set_assignments_def and [dest!] = release_grown
  show "change_platform_moderator games actor target grant s = Inr (s', role) \<Longrightarrow> desk_grown s s'"
    by (erule change_platform_result, erule desk_grown_recorded) (cases grant; auto)
  show "assign_moderator earlier slug u actor s = Inr (s', x) \<Longrightarrow> desk_grown s s'"
    by (erule assign_moderator_result, erule desk_grown_recorded) auto
  show "remove_moderator earlier r slug u actor s = Inr (s', x) \<Longrightarrow> desk_grown s s'"
    by (erule remove_moderator_result, erule desk_grown_recorded) (auto split: if_splits)
  show "set_user_status earlier u status actor s = Inr (s', x) \<Longrightarrow> desk_grown s s'"
    by (drule set_user_status_result, erule desk_grown_recorded) auto
qed

lemma step_grows: "desk_step fresh now s s' \<Longrightarrow> desk_grown s s'"
proof (induction rule: desk_step.induct)
  case (moderated s m)
  then show ?case by (simp add: desk_grown_def handed_back_grown [OF request_cases])
qed (auto intro: attempt_grown worked_grown staff_grown simp: register_user_def, simp_all add: desk_grown_def)

section \<open>The desk machine\<close>

interpretation busy_desk: growing_machine "\<lambda>p. \<exists>st. snd p = empty_desk st" "timed_desk fresh" "\<lambda>p. desk_ok (snd p)"
  "\<lambda>p q. desk_grown (snd p) (snd q)"
  by unfold_locales (auto simp: empty_desk_ok elim!: timed_deskE intro: step_keeps_desk step_grows desk_grown_trans)

interpretation staffed_desk: state_machine "\<lambda>p. \<exists>st. snd p = empty_desk st" "timed_desk True" "\<lambda>p. staffed (snd p)"
  by unfold_locales (auto simp: empty_desk_ok elim!: timed_deskE intro: step_keeps_staffed)

text \<open>Every step of the desk is one of moderation, seen by its rows.\<close>

lemma release_cases: "in_moderation (release_moderator_cases u in_games) s = Inr (s', x) \<Longrightarrow> \<exists>cs. ds_mod s' = (ds_mod s)\<lparr>mo_cases := cs\<rparr>"
  by (auto simp: in_moderation_def release_moderator_cases_def tx_run)

lemma attempt_cases:
  assumes "report_attempt hash now new found reporter dto snapshot s = Inr (s', r)"
  shows "\<exists>cs. ds_mod s' = (ds_mod s)\<lparr>mo_cases := cs\<rparr>"
proof -
  have "schedule_if_needed hash q t = Inr (t', u) \<Longrightarrow> ds_mod t' = ds_mod t" for q t t' u
    by (auto simp: schedule_if_needed_def tx_bind_Inr tx_simps split: if_splits)
  moreover have "lock_open_case now new found dto snapshot s = Inr (t, l) \<Longrightarrow> \<exists>cs. ds_mod t = (ds_mod s)\<lparr>mo_cases := cs\<rparr>" for t l
    by (cases found) (auto simp: lock_open_case_def tx_bind_Inr tx_simps insert_case_def set_cases_def split: if_splits intro: exI [of _ "ds_cases s"])
  ultimately show ?thesis using assms
    by (fastforce simp: report_attempt_def tx_bind_Inr tx_simps set_cases_def split: option.splits if_splits)
qed

lemma transition_cases:
  "transition_case actor game case_game i change statuses assignee action s = Inr (s', r) \<Longrightarrow> \<exists>cs. ds_mod s' = (ds_mod s)\<lparr>mo_cases := cs\<rparr>"
  by (drule transition_result) (auto simp: set_cases_def intro: exI [of _ "ds_cases s"])

lemma worked_cases: "mutate_case earlier now u i action note slug s = Inr (s', c) \<Longrightarrow> \<exists>cs. ds_mod s' = (ds_mod s)\<lparr>mo_cases := cs\<rparr>"
  unfolding mutate_result act_on_case_def assign_case_def claim_case_def finalize_case_def
  by (cases action) (auto dest: transition_cases)

lemma staff_cases:
  "change_platform_moderator games actor target grant s = Inr (s', role) \<Longrightarrow> \<exists>cs. ds_mod s' = (ds_mod s)\<lparr>mo_cases := cs\<rparr>"
  "assign_moderator earlier slug u actor s = Inr (s', x) \<Longrightarrow> \<exists>cs. ds_mod s' = (ds_mod s)\<lparr>mo_cases := cs\<rparr>"
  "remove_moderator earlier r slug u actor s = Inr (s', x) \<Longrightarrow> \<exists>cs. ds_mod s' = (ds_mod s)\<lparr>mo_cases := cs\<rparr>"
  "set_user_status earlier u status actor s = Inr (s', x) \<Longrightarrow> \<exists>cs. ds_mod s' = (ds_mod s)\<lparr>mo_cases := cs\<rparr>"
proof -
  note [simp] = recorded tx_simps set_role_def set_assignments_def and [intro] = exI [of _ "ds_cases s"] and [dest!] = release_cases
  show "change_platform_moderator games actor target grant s = Inr (s', role) \<Longrightarrow> \<exists>cs. ds_mod s' = (ds_mod s)\<lparr>mo_cases := cs\<rparr>"
    by (erule change_platform_result) (cases grant; auto)
  show "assign_moderator earlier slug u actor s = Inr (s', x) \<Longrightarrow> \<exists>cs. ds_mod s' = (ds_mod s)\<lparr>mo_cases := cs\<rparr>"
    by (erule assign_moderator_result) auto
  show "remove_moderator earlier r slug u actor s = Inr (s', x) \<Longrightarrow> \<exists>cs. ds_mod s' = (ds_mod s)\<lparr>mo_cases := cs\<rparr>"
    by (erule remove_moderator_result) (auto split: if_splits)
  show "set_user_status earlier u status actor s = Inr (s', x) \<Longrightarrow> \<exists>cs. ds_mod s' = (ds_mod s)\<lparr>mo_cases := cs\<rparr>"
    by (drule set_user_status_result) auto
qed

lemma cases_moved: "\<exists>cs. m = (ds_mod s)\<lparr>mo_cases := cs\<rparr> \<Longrightarrow> moderation_step False now (ds_mod s) m"
  by (auto intro: moderation_step.reports_moved)

lemma step_is_moderation: "desk_step fresh now s s' \<Longrightarrow> moderation_step False now (ds_mod s) (ds_mod s')"
proof (induction rule: desk_step.induct)
  case (moderated s m)
  then show ?case by (auto intro: moderation_step.requested)
next
  case (economy_moved s ec)
  then show ?case by (auto intro: moderation_step.economy_moved)
next
  case (community_created g s slug)
  then show ?case by (auto intro: moderation_step.community_created)
next
  case (registered s u)
  have "ds_mod (register_user u s) = (ds_mod s)\<lparr>mo_cases := ds_cases s\<rparr>" by (simp add: register_user_def)
  then show ?case by (metis moderation_step.reports_moved)
qed (blast intro: cases_moved attempt_cases worked_cases staff_cases)+

definition moderation_of :: "time \<times> desk \<Rightarrow> time \<times> moderation" where
  "moderation_of p = map_prod id ds_mod p"

lemma timed_desk_is_moderation: "timed_desk fresh p q \<Longrightarrow> timed_step False (moderation_of p) (moderation_of q)"
  by (erule timed_deskE) (simp add: moderation_of_def timed_step.timed step_is_moderation)

lemma runs_are_moderation: "(timed_desk fresh)\<^sup>*\<^sup>* p q \<Longrightarrow> (timed_step False)\<^sup>*\<^sup>* (moderation_of p) (moderation_of q)"
  by (induction rule: rtranclp_induct) (auto intro: rtranclp.rtrancl_into_rtrancl timed_desk_is_moderation)

end
