(* ===== verification/Moderation_Properties.thy ===== *)
theory Moderation_Properties
  imports Moderation_System Economy_Undo
begin

text \<open>
  The properties of what moderators do with content: what is restricted is not public, no counter of
  published posts is ever off, hiding and showing content cancel out, and two things that go wrong.
\<close>

section \<open>Samples\<close>

definition ran :: "moderation \<Rightarrow> (moderation \<times> 'a) result \<Rightarrow> moderation" where
  "ran s r = (case r of Inl _ \<Rightarrow> s | Inr (s', _) \<Rightarrow> s')"

lemma ran_step:
  assumes "(timed_step fresh)\<^sup>*\<^sup>* p (t, s)" and "t \<le> now" and "\<And>s' x. r = Inr (s', x) \<Longrightarrow> moderation_step fresh now s s'"
  shows "(timed_step fresh)\<^sup>*\<^sup>* p (now, ran s r)"
proof (cases r)
  case (Inl e)
  have "moderation_step fresh now s s" using moderation_step.reports_moved [of fresh now s "mo_cases s"] by simp
  with assms(1,2) Inl show ?thesis by (auto simp: ran_def intro: rtranclp.rtrancl_into_rtrancl timed_step.timed)
next
  case (Inr b)
  obtain s' x where "b = (s', x)" by (cases b)
  with Inr assms show ?thesis by (auto simp: ran_def intro: rtranclp.rtrancl_into_rtrancl timed_step.timed)
qed

definition sample_staff :: staff where
  "sample_staff = \<lparr>st_users = [(''root'', \<lparr>su_role = Admin_role, su_status = ACTIVE_USER\<rparr>),
       (''meg'', \<lparr>su_role = User_role, su_status = ACTIVE_USER\<rparr>),
       (''max'', \<lparr>su_role = User_role, su_status = ACTIVE_USER\<rparr>),
       (''ann'', \<lparr>su_role = User_role, su_status = ACTIVE_USER\<rparr>),
       (''bob'', \<lparr>su_role = User_role, su_status = ACTIVE_USER\<rparr>)],
     st_assignments = [(''meg'', ''g''), (''max'', ''g'')], st_games = [(''game'', ''g'')]\<rparr>"

definition sample_digests :: digests where
  "sample_digests = \<lparr>dg_incident = (\<lambda>(k, i, t, c). i), dg_request = (\<lambda>_. ''h'')\<rparr>"

definition by_number :: award_order where
  "by_number = locale_order (\<le>) (\<le>)"

text \<open>A community with a post of ann, a draft of ann and a comment of bob; reports on the post and the comment.\<close>

definition sample_community :: moderation where
  "sample_community = no_moderation\<lparr>mo_postCounts := AList.update ''g'' 0 (mo_postCounts no_moderation)\<rparr>"

definition sample_posted :: moderation where
  "sample_posted = ran sample_community (create_post ''p'' ''ann'' (Some ''g'') ''title'' ''body'' Published sample_community)"

definition sample_drafted :: moderation where
  "sample_drafted = ran sample_posted (create_post ''d'' ''ann'' (Some ''g'') ''draft'' ''body'' Draft sample_posted)"

definition sample_commented :: moderation where
  "sample_commented = ran sample_drafted (create_comment ''c'' ''p'' ''bob'' ''rude'' sample_drafted)"

definition sample_case :: "content_kind \<Rightarrow> string \<Rightarrow> moderation_case" where
  "sample_case k i = \<lparr>mc_targetType = k, mc_targetId = i, mc_gameId = Some ''g'', mc_status = Case_open, mc_assigned = None,
     mc_reportCount = 1, mc_uniqueReporterCount = 1, mc_lastReportedAt = 0, mc_resolvedBy = None, mc_resolvedAt = None,
     mc_resolutionNote = None\<rparr>"

definition sample_reported :: moderation where
  "sample_reported = sample_commented\<lparr>mo_cases :=
     [(''case_p'', sample_case Post_content ''p''), (''case_c'', sample_case Comment_content ''c'')]\<rparr>"

lemma reported_reachable: "(timed_step True)\<^sup>*\<^sup>* (0, no_moderation) (0, sample_reported)"
proof -
  have "published_in ''g'' (mo_posts no_moderation) = 0" by code_simp
  then have 1: "(timed_step True)\<^sup>*\<^sup>* (0, no_moderation) (0, sample_community)"
    unfolding sample_community_def
    by (intro r_into_rtranclp timed_step.timed moderation_step.community_created) simp_all
  have "new_id ''p'' sample_community" by code_simp
  then have 2: "(timed_step True)\<^sup>*\<^sup>* (0, no_moderation) (0, sample_posted)"
    unfolding sample_posted_def by (intro ran_step [OF 1]) (simp, rule moderation_step.requested, rule moderation_request.post_created, auto)
  have "new_id ''d'' sample_posted" by code_simp
  then have 3: "(timed_step True)\<^sup>*\<^sup>* (0, no_moderation) (0, sample_drafted)"
    unfolding sample_drafted_def by (intro ran_step [OF 2]) (simp, rule moderation_step.requested, rule moderation_request.post_created, auto)
  have "new_id ''c'' sample_drafted" by code_simp
  then have 4: "(timed_step True)\<^sup>*\<^sup>* (0, no_moderation) (0, sample_commented)"
    unfolding sample_commented_def by (intro ran_step [OF 3]) (simp, rule moderation_step.requested, rule moderation_request.comment_created, auto)
  show ?thesis unfolding sample_reported_def
    by (rule rtranclp.rtrancl_into_rtrancl [OF 4]) (intro timed_step.timed moderation_step.reports_moved, simp)
qed

lemma any_timing: "(timed_step True)\<^sup>*\<^sup>* p q \<Longrightarrow> (timed_step fresh)\<^sup>*\<^sup>* p q"
proof (induction rule: rtranclp_induct)
  case (step q r)
  have req: "moderation_request True now s s' \<Longrightarrow> moderation_request fresh now s s'" for now s s'
    by (induction rule: moderation_request.induct) (blast intro: moderation_request.intros)+
  have up: "moderation_step True now s s' \<Longrightarrow> moderation_step fresh now s s'" for now s s'
    by (induction rule: moderation_step.induct) (blast intro: moderation_step.intros req)+
  from step.hyps(2) have "timed_step fresh q r" by (auto elim!: timed_stepE intro: timed_step.timed up)
  with step.IH show ?case by (rule rtranclp.rtrancl_into_rtrancl)
qed simp

lemma reachable_ok: "(timed_step fresh)\<^sup>*\<^sup>* (0, no_moderation) (t, s) \<Longrightarrow> content_ok s \<and> sanctions_ok t s \<and> earned s"
  using moderated.inv_reachable [of "(0, no_moderation)" fresh "(t, s)"] by (simp add: moderation_ok_def)

section \<open>Restrictions and counters\<close>

text \<open>
  C20. Whatever moderators, authors and reviewers do, in any order and however old the rows they decided
  on: content under a restriction that was not revoked is hidden or deleted, never a draft and never
  public, and one scope never restricts it twice.
\<close>
theorem restricted_content_is_hidden:
  assumes "(timed_step False)\<^sup>*\<^sup>* (0, no_moderation) (t, s)" and "e \<in> set (mo_enforcements s)" and "en_revokedAt e = None"
    and "find_target (en_targetType e) (en_targetId e) s = Some c"
  shows "ct_status c \<in> {Hidden, Deleted} \<and> filter (\<lambda>f. restricts (en_targetType e) (en_targetId e) f \<and> en_scope f = en_scope e) (mo_enforcements s) = [e]"
proof -
  have ok: "content_ok s" using reachable_ok [OF assms(1)] by simp
  have r: "restrictions (en_targetType e) (en_targetId e) s \<noteq> []"
    using assms(2,3) by (auto simp: restrictions_def restricts_def filter_empty_conv)
  have "covered (ct_status c)"
  proof (cases "en_targetType e")
    case Post_content
    with assms(4) obtain p where "map_of (mo_posts s) (en_targetId e) = Some p" "ct_status c = po_status p"
      by (auto simp: find_target_def)
    with ok r Post_content show ?thesis by (auto simp: content_except_def)
  next
    case Comment_content
    with assms(4) obtain k where "map_of (mo_comments s) (en_targetId e) = Some k" "ct_status c = cm_status k"
      by (auto simp: find_target_def bind_eq_Some_conv)
    with ok r Comment_content show ?thesis by (auto simp: content_except_def)
  qed
  moreover have "filter (\<lambda>f. restricts (en_targetType e) (en_targetId e) f \<and> en_scope f = en_scope e) (mo_enforcements s) = [e]"
  proof (rule filter_only)
    show "distinct (mo_enforcements s)" using ok numbered_distinct by (auto simp: content_except_def distinct_map)
    show "f = e" if "f \<in> set (mo_enforcements s)" "restricts (en_targetType e) (en_targetId e) f \<and> en_scope f = en_scope e" for f
      using ok assms(2,3) that unfolding content_except_def by metis
  qed (use assms(2,3) in \<open>simp_all add: restricts_def\<close>)
  ultimately show ?thesis by (simp add: covered_def)
qed

definition sample_hidden :: moderation where
  "sample_hidden = ran sample_reported (content_for_case by_number sample_staff 10 ''meg'' ''case_p'' True ''against the rules'' (Some ''game'') sample_reported)"

lemma hidden_reachable: "(timed_step True)\<^sup>*\<^sup>* (0, no_moderation) (10, sample_hidden)"
  unfolding sample_hidden_def by (rule ran_step [OF reported_reachable]) (simp, rule moderation_step.requested, rule moderation_request.case_decided)

theorem restricted_content_is_hidden_witness:
  "\<exists>e c. mo_enforcements sample_hidden = [e] \<and> find_target Post_content ''p'' sample_hidden = Some c \<and> ct_status c \<in> {Hidden, Deleted}"
proof -
  have "(case mo_enforcements sample_hidden of [e] \<Rightarrow> en_revokedAt e = None \<and> en_targetType e = Post_content \<and> en_targetId e = ''p''
    | _ \<Rightarrow> False) = True" by code_simp
  then obtain e where e: "mo_enforcements sample_hidden = [e]" "en_revokedAt e = None" "en_targetType e = Post_content" "en_targetId e = ''p''"
    by (auto split: list.splits)
  have "(find_target Post_content ''p'' sample_hidden = None) = False" by code_simp
  then obtain c where c: "find_target Post_content ''p'' sample_hidden = Some c" by auto
  from restricted_content_is_hidden [OF any_timing [OF hidden_reachable], of e c] e c show ?thesis by auto
qed

text \<open>
  C21. As long as an author's change counts by the row as it is when it is written, the counter of every
  community is the number of its published posts, after every request of moderators and authors.
\<close>
theorem post_counts_are_exact:
  assumes "(timed_step True)\<^sup>*\<^sup>* (0, no_moderation) (t, s)" and "map_of (mo_postCounts s) g = Some n"
  shows "n = published_in g (mo_posts s)"
  using counted.inv_reachable [of "(0, no_moderation)" "(t, s)"] assms by (simp add: counted_ok_def counts_off_def)

theorem post_counts_are_exact_witness: "map_of (mo_postCounts sample_hidden) ''g'' = Some 0 \<and> published_in ''g'' (mo_posts sample_hidden) = 0"
proof -
  have "map_of (mo_postCounts sample_hidden) ''g'' = Some 0" by code_simp
  with post_counts_are_exact [OF hidden_reachable this] show ?thesis by simp
qed

text \<open>What \<open>Post.commentCount\<close> is documented to count.\<close>

definition visible_comments :: "string \<Rightarrow> moderation \<Rightarrow> int" where
  "visible_comments i s = sum_list (map (\<lambda>(_, c). if cm_post c = i \<and> cm_status c = Published \<and> cm_deletedAt c = None then 1 else 0) (mo_comments s))"

lemma visible_update:
  "map_of cs i = Some c \<Longrightarrow> sum_list (map (\<lambda>(_, c). f c) (AList.update i d cs)) = sum_list (map (\<lambda>(_, c). f c) cs) - f c + (f d :: int)"
  by (induction cs) (auto split: if_splits)

text \<open>
  Hiding a comment takes it out of the counter of its post; when its author then deletes the hidden
  comment, the counter goes down a second time, although no visible comment went away.
\<close>
theorem deleting_a_hidden_comment_counts_twice:
  assumes "map_of (mo_comments s) i = Some c" and "cm_status c = Hidden" and "cm_deletedAt c = None"
    and "map_of (mo_posts s) (cm_post c) = Some p"
  shows "\<exists>s' q. delete_comment (Some c) now (cm_author c) i s = Inr (s', ()) \<and> map_of (mo_posts s') (cm_post c) = Some q
    \<and> po_commentCount q = po_commentCount p - 1 \<and> visible_comments (cm_post c) s' = visible_comments (cm_post c) s"
proof -
  let ?s' = "s\<lparr>mo_comments := AList.update i (c\<lparr>cm_deletedAt := Some now\<rparr>) (mo_comments s),
    mo_posts := AList.update (cm_post c) (p\<lparr>po_commentCount := po_commentCount p - 1\<rparr>) (mo_posts s)\<rparr>"
  have c: "c\<lparr>cm_status := Hidden, cm_deletedAt := Some now\<rparr> = c\<lparr>cm_deletedAt := Some now\<rparr>" using assms(2) by simp
  have "delete_comment (Some c) now (cm_author c) i s = Inr (?s', ())"
    using assms by (simp add: c delete_comment_def tx_simps write_comment_status_def visibility_trigger_def add_to_comment_count_def)
  moreover have "visible_comments (cm_post c) ?s' = visible_comments (cm_post c) s"
    using visible_update [OF assms(1), of "\<lambda>d. if cm_post d = cm_post c \<and> cm_status d = Published \<and> cm_deletedAt d = None then 1 else 0"]
      assms(2) by (simp add: visible_comments_def)
  ultimately show ?thesis by (intro exI [of _ ?s']) simp
qed

text \<open>Meg hides the comment of bob, who then deletes it: the post has no comment, and counts minus one.\<close>

definition sample_hidden_comment :: moderation where
  "sample_hidden_comment = ran sample_reported (content_for_case by_number sample_staff 10 ''meg'' ''case_c'' True ''rude'' (Some ''game'') sample_reported)"

theorem deleting_a_hidden_comment_counts_twice_witness:
  "\<exists>s' q. delete_comment (map_of (mo_comments sample_hidden_comment) ''c'') 20 ''bob'' ''c'' sample_hidden_comment = Inr (s', ())
    \<and> map_of (mo_posts s') ''p'' = Some q \<and> po_commentCount q = -1 \<and> visible_comments ''p'' s' = 0"
proof -
  have "(case map_of (mo_comments sample_hidden_comment) ''c'' of None \<Rightarrow> False
    | Some c \<Rightarrow> cm_status c = Hidden \<and> cm_deletedAt c = None \<and> cm_post c = ''p'' \<and> cm_author c = ''bob'') = True" by code_simp
  then obtain c where c: "map_of (mo_comments sample_hidden_comment) ''c'' = Some c" "cm_status c = Hidden" "cm_deletedAt c = None"
    "cm_post c = ''p''" "cm_author c = ''bob''" by (auto split: option.splits)
  have "(case map_of (mo_posts sample_hidden_comment) ''p'' of None \<Rightarrow> False | Some p \<Rightarrow> po_commentCount p = 0) = True" by code_simp
  then obtain p where p: "map_of (mo_posts sample_hidden_comment) ''p'' = Some p" "po_commentCount p = 0" by (auto split: option.splits)
  have "visible_comments ''p'' sample_hidden_comment = 0" by code_simp
  with deleting_a_hidden_comment_counts_twice [OF c(1-3), of p 20] c p show ?thesis by auto
qed

section \<open>Restoring\<close>

lemma economy_runs:
  assumes "earned s"
  shows "\<exists>ec. in_economy (revoke_for_content le now t i) s = Inr (s\<lparr>mo_economy := ec\<rparr>, ()) \<and> revoke_for_content le now t i (mo_economy s) = Inr (ec, ())"
    and "\<exists>ec. in_economy (restore_for_content le now t i) s = Inr (s\<lparr>mo_economy := ec\<rparr>, ()) \<and> restore_for_content le now t i (mo_economy s) = Inr (ec, ())"
proof -
  have ok: "money_ok (mo_economy s)"
    using racy.inv_reachable [OF refl] assms by (auto simp: earned_def counters_ok_def)
  obtain a b where "revoke_for_content le now t i (mo_economy s) = Inr (a, ())" "restore_for_content le now t i (mo_economy s) = Inr (b, ())"
    by (rule hide_run [OF ok, of le now t i], rule show_run [OF ok, of le now t i])
  then show "\<exists>ec. in_economy (revoke_for_content le now t i) s = Inr (s\<lparr>mo_economy := ec\<rparr>, ()) \<and> revoke_for_content le now t i (mo_economy s) = Inr (ec, ())"
    "\<exists>ec. in_economy (restore_for_content le now t i) s = Inr (s\<lparr>mo_economy := ec\<rparr>, ()) \<and> restore_for_content le now t i (mo_economy s) = Inr (ec, ())"
    by (auto simp: in_economy_def)
qed

lemma context_reads: "moderation_context st now actor slug s = Inr (s', ctx) \<Longrightarrow> s' = s"
  by (auto simp: moderation_context_def tx_bind_Inr tx_simps split: if_splits)

definition counted_post :: "post \<Rightarrow> moderation \<Rightarrow> bool" where
  "counted_post p s \<longleftrightarrow> (\<forall>g. po_gameId p = Some g \<longrightarrow> map_of (mo_postCounts s) g \<noteq> None)"

definition recount :: "string option \<Rightarrow> int \<Rightarrow> (string \<times> int) list \<Rightarrow> (string \<times> int) list" where
  "recount game d cs = (case game of None \<Rightarrow> cs | Some g \<Rightarrow> if d = 0 then cs else AList.update g (the (map_of cs g) + d) cs)"

lemma transition_post_runs:
  assumes "map_of (mo_posts s) i = Some p" and "counted_post p s"
    and "visibility_trigger Post_content i (po_status p, po_deletedAt p) (to, po_deletedAt p) s"
  shows "transition_post i (po_gameId p) (po_status p) to s = Inr (s\<lparr>mo_posts := AList.update i (p\<lparr>po_status := to\<rparr>) (mo_posts s),
    mo_postCounts := recount (po_gameId p) (status_delta (po_status p) to) (mo_postCounts s)\<rparr>, True)"
  using assms
  by (auto simp: transition_post_def tx_simps write_post_status_def add_to_post_count_def recount_def counted_post_def
      split: option.splits)

text \<open>
  The request that restores content does not ask whether it was hidden: on a draft no one restricted
  it succeeds, for a moderator of its community as for platform staff, and publishes the draft.
\<close>
theorem restoring_publishes_drafts:
  assumes "(timed_step False)\<^sup>*\<^sup>* (0, no_moderation) (t, s)" and "map_of (mo_posts s) i = Some p" and "po_status p = Draft"
    and "po_deletedAt p = None" and "counted_post p s" and "decision_reason reason = Inr body"
    and "moderation_context st now actor slug s = Inr (s, ctx)" and "mx_scope ctx = COMMUNITY \<Longrightarrow> mx_gameId ctx = po_gameId p"
  shows "\<exists>s' q. content_decision le st now actor Post_content i False reason slug None s = Inr (s', Published)
    \<and> map_of (mo_posts s') i = Some q \<and> po_status q = Published"
proof -
  let ?m = "s\<lparr>mo_posts := AList.update i (p\<lparr>po_status := Published\<rparr>) (mo_posts s),
    mo_postCounts := recount (po_gameId p) (status_delta (po_status p) Published) (mo_postCounts s)\<rparr>"
  have ok: "content_ok s" and e: "earned s" using reachable_ok [OF assms(1)] by auto
  have "restrictions Post_content i s \<noteq> [] \<longrightarrow> covered (po_status p)" using ok assms(2) by (simp add: content_except_def)
  then have none: "restrictions Post_content i s = []" using assms(3) by (auto simp: covered_def)
  have run: "transition_post i (po_gameId p) (po_status p) Published s = Inr (?m, True)"
    by (rule transition_post_runs) (use assms none in \<open>auto simp: visibility_trigger_def\<close>)
  have "earned ?m" using e by simp
  from economy_runs(2) [OF this, of le now POST_SOURCE i] obtain ec where
    "in_economy (restore_for_content le now POST_SOURCE i) ?m = Inr (?m\<lparr>mo_economy := ec\<rparr>, ())" by auto
  with run none assms have "content_decision le st now actor Post_content i False reason slug None s = Inr (?m\<lparr>mo_economy := ec\<rparr>, Published)"
    by (auto simp: content_decision_def tx_bind_def tx_result_def content_in_transaction_def find_target_def case_matches_def
        show_content_def move_content_def transition_def tx_run tx_require_run tx_when_run)
  then show ?thesis by auto
qed

definition sample_context :: mod_context where
  "sample_context = \<lparr>mx_actor = ''meg'', mx_role = User_role, mx_scope = COMMUNITY, mx_gameId = Some ''g''\<rparr>"

lemma meg_moderates: "moderation_context sample_staff 10 ''meg'' (Some ''game'') sample_reported = Inr (sample_reported, sample_context)"
proof -
  have "filter (blocks_actor 10 ''meg'' (Some ''g'')) (mo_sanctions sample_reported) = []" by code_simp
  then show ?thesis
    by (simp add: moderation_context_def tx_simps tx_bind_def tx_result_def game_of_slug_def sample_staff_def
        lock_moderation_actor_def has_platform_moderation_capability_def sample_context_def)
qed

theorem restoring_publishes_drafts_witness:
  "\<exists>s' q. content_decision by_number sample_staff 10 ''meg'' Post_content ''d'' False ''please'' (Some ''game'') None sample_reported = Inr (s', Published)
    \<and> map_of (mo_posts s') ''d'' = Some q \<and> po_status q = Published"
proof -
  have "(case map_of (mo_posts sample_reported) ''d'' of None \<Rightarrow> False
    | Some p \<Rightarrow> po_status p = Draft \<and> po_deletedAt p = None \<and> po_gameId p = Some ''g'') = True" by code_simp
  then obtain p where p: "map_of (mo_posts sample_reported) ''d'' = Some p" "po_status p = Draft" "po_deletedAt p = None" "po_gameId p = Some ''g''"
    by (auto split: option.splits)
  have "(map_of (mo_postCounts sample_reported) ''g'' = None) = False" by code_simp
  then have c: "counted_post p sample_reported" using p(4) by (simp add: counted_post_def)
  have r: "decision_reason ''please'' = Inr ''please''" by code_simp
  show ?thesis
    by (rule restoring_publishes_drafts [OF any_timing [OF reported_reachable] p(1-3) c r meg_moderates])
       (simp add: p(4) sample_context_def)
qed

lemma context_game: "moderation_context st now actor slug s = Inr (s', ctx) \<Longrightarrow> mx_scope ctx = COMMUNITY \<longleftrightarrow> mx_gameId ctx \<noteq> None"
  by (auto simp: moderation_context_def tx_bind_Inr tx_simps split: if_splits)







end
