(* ===== verification/Sanction_Properties.thy ===== *)
theory Sanction_Properties
  imports Moderation_Properties
begin

text \<open>
  The properties of sanctions and appeals: a sanction lasts its term and never overlaps another of its
  kind, does not survive the finding it rests on, and is issued once however often the request is
  repeated; the sweep of ended sanctions changes nobody's access; appeals are reviewed independently, and
  the list of appeals tells the truth about what the moderator may do.
\<close>

section \<open>Sanctions\<close>

definition in_effect :: "time \<Rightarrow> sanction \<Rightarrow> bool" where
  "in_effect u x \<longleftrightarrow> sa_status x \<noteq> Sanction_revoked \<and> sa_startsAt x \<le> u \<and> unexpired u x"

text \<open>
  C23. At no moment do two sanctions of one type and scope restrict the same account: whatever was issued,
  adjusted, revoked and swept, their terms never overlap.
\<close>
theorem sanctions_never_overlap:
  assumes "(timed_step False)\<^sup>*\<^sup>* (0, no_moderation) (t, s)" and "x \<in> set (mo_sanctions s)" and "y \<in> set (mo_sanctions s)"
    and "same_kind x y" and "in_effect u x" and "in_effect u y"
  shows "x = y"
proof -
  have rows: "sanction_rows t (mo_sanctions s)" using reachable_ok [OF assms(1)] by (simp add: sanctions_except_def)
  have temp: "sa_type x \<noteq> WARNING"
    using rows assms(2,5) by (auto simp: sanction_rows_def sanction_ok_def sanction_checks_def in_effect_def unexpired_def split: option.splits)
  have no: "\<not> follows a b" if "a \<in> set (mo_sanctions s)" "b \<in> set (mo_sanctions s)" "in_effect u a" "in_effect u b" for a b
  proof
    assume "follows a b"
    with rows that(1,2) have "ended_by (sa_startsAt b) a" by (simp add: sanction_rows_def)
    with that(3,4) show False by (auto simp: in_effect_def unexpired_iff dest: ended_by_mono)
  qed
  have "\<not> sa_id x < sa_id y" "\<not> sa_id y < sa_id x"
    using no [OF assms(2,3,5,6)] no [OF assms(3,2,6,5)] assms(4-6) temp by (auto simp: follows_def in_effect_def same_kind_def)
  then have "sa_id x = sa_id y" by simp
  then show ?thesis using rows assms(2,3) numbered_inj by (auto simp: sanction_rows_def)
qed

definition suspension :: "int \<Rightarrow> string \<Rightarrow> sanction_dto" where
  "suspension days key = \<lparr>sd_type = COMMUNITY_RESTRICTION, sd_requestKey = key, sd_durationDays = Some days,
     sd_violationId = None, sd_enforcementId = None, sd_reason = ''repeated spam''\<rparr>"

definition sample_sanctioned :: moderation where
  "sample_sanctioned = ran sample_reported (sanction_request sample_digests sample_staff 10 ''meg'' ''case_c'' (suspension 3 ''k'') (Some ''game'') sample_reported)"

lemma sanctioned_reachable: "(timed_step True)\<^sup>*\<^sup>* (0, no_moderation) (10, sample_sanctioned)"
  unfolding sample_sanctioned_def by (rule ran_step [OF reported_reachable]) (simp, rule moderation_step.requested, rule moderation_request.sanctioned)

definition expected_sanction :: sanction where
  "expected_sanction = \<lparr>sa_id = 0, sa_subject = ''bob'', sa_actor = ''meg'', sa_type = COMMUNITY_RESTRICTION, sa_scope = COMMUNITY,
     sa_gameId = Some ''g'', sa_caseId = ''case_c'', sa_violationId = None, sa_enforcementId = None, sa_reason = ''repeated spam'',
     sa_startsAt = 10, sa_expiresAt = Some (10 + 3 * 86400000), sa_status = Sanction_active, sa_revokedAt = None,
     sa_requestKey = (''meg'', ''k''), sa_requestHash = ''h''\<rparr>"

lemma sample_sanction: "mo_sanctions sample_sanctioned = [expected_sanction]"
  by code_simp

theorem sanctions_never_overlap_witness: "in_effect 11 (hd (mo_sanctions sample_sanctioned)) \<and> hd (mo_sanctions sample_sanctioned) = expected_sanction"
proof -
  have e: "in_effect 11 expected_sanction" by code_simp
  have "same_kind expected_sanction expected_sanction" by (simp add: same_kind_def)
  from sanctions_never_overlap [OF any_timing [OF sanctioned_reachable] _ _ this e e] e sample_sanction show ?thesis by simp
qed

text \<open>What a successful request returns.\<close>

definition issued :: "time \<Rightarrow> mod_context \<Rightarrow> sanction_dto \<Rightarrow> sanction \<Rightarrow> bool" where
  "issued now ctx dto x \<longleftrightarrow> sa_type x = sd_type dto \<and> sa_scope x = mx_scope ctx \<and> sa_gameId x = mx_gameId ctx \<and> sa_status x = Sanction_active
     \<and> sa_startsAt x = now \<and> Inr (sa_expiresAt x) = sanction_expiry (sd_type dto) (sd_durationDays dto) (mx_role ctx = Admin_role) now"

lemma issue_result:
  assumes "issue_sanction now ctx case_id t dto reason e h s = Inr (s', x)"
  shows "mo_sanctions s' = mo_sanctions s @ [x] \<and> sa_type x = sd_type dto \<and> sa_scope x = mx_scope ctx \<and> sa_gameId x = mx_gameId ctx
    \<and> sa_status x = Sanction_active \<and> sa_startsAt x = now \<and> sa_expiresAt x = e \<and> sa_subject x = ct_author t
    \<and> sa_requestKey x = (mx_actor ctx, sd_requestKey dto) \<and> sa_requestHash x = h"
  using assms
  by (auto simp: issue_sanction_def tx_bind_Inr tx_simps create_sanction_def Let_def audit_def send_notice_def
      release_moderator_cases_def split: if_splits)

lemma context_runs:
  "tx_valid (\<lambda>t. t = s) (moderation_context st now actor slug) (\<lambda>ctx t. t = s \<and> moderation_context st now actor slug s = Inr (s, ctx))"
  using context_reads by (fastforce simp: tx_valid_def)

definition request_result ::
    "staff \<Rightarrow> time \<Rightarrow> user_id \<Rightarrow> string option \<Rightarrow> sanction_dto \<Rightarrow> moderation \<Rightarrow> sanction \<Rightarrow> moderation \<Rightarrow> bool" where
  "request_result st now actor slug dto s x s' \<longleftrightarrow> (s' = s \<and> x \<in> set (mo_sanctions s))
     \<or> (\<exists>ctx. moderation_context st now actor slug s = Inr (s, ctx) \<and> mo_sanctions s' = mo_sanctions s @ [x] \<and> issued now ctx dto x)"

lemma sanction_request_result:
  assumes "sanction_request dg st now actor case_id dto slug s = Inr (s', x)"
  shows "request_result st now actor slug dto s x s'"
proof -
  have last: "tx_valid (\<lambda>t. t = s) (issue_sanction now ctx case_id c dto reason e h) (request_result st now actor slug dto s)"
    if "moderation_context st now actor slug s = Inr (s, ctx)"
      and "sanction_expiry (sd_type dto) (sd_durationDays dto) (mx_role ctx = Admin_role) now = Inr e" for ctx c reason e h
    using that by (auto simp: tx_valid_def request_result_def issued_def dest!: issue_result)
  have "tx_valid (\<lambda>t. t = s) (sanction_request dg st now actor case_id dto slug) (request_result st now actor slug dto s)"
    unfolding sanction_request_def Let_def
    apply (rule tx_valid_result_bind)
    apply (rule tx_valid_bind [OF context_runs])
    apply (rule tx_valid_conj_pre)
    apply (rule tx_valid_bind [OF case_target_keeps], rule tx_valid_pair)
    apply (intro tx_valid_result_bind tx_valid_require_bind tx_valid_gets_bind tx_valid_option tx_valid_if tx_valid_fail tx_valid_return)
     apply (rule tx_valid_pre [OF last]; force)
    apply (auto simp: request_result_def find_Some_iff)
    done
  from tx_validD [OF this refl assms] show ?thesis .
qed

lemma context_unblocked:
  "moderation_context st now actor slug s = Inr r \<Longrightarrow> game_of_slug st slug = Inr game \<Longrightarrow> filter (blocks_actor now actor game) (mo_sanctions s) = []"
  by (cases r) (auto simp: moderation_context_def tx_bind_Inr tx_simps split: if_splits)

subsection \<open>A sanction stands until its end or until the audit names who lifted it\<close>

definition lifted :: "nat \<Rightarrow> moderation \<Rightarrow> bool" where
  "lifted i s \<longleftrightarrow> (\<exists>a \<in> set (mo_audits s). da_entity a = Sanction_row i \<and> da_action a \<in> {SANCTION_REVOKED, SANCTION_ADJUSTED})"

definition stands :: "sanction \<Rightarrow> moderation \<Rightarrow> bool" where
  "stands x s \<longleftrightarrow> numbered sa_id (mo_sanctions s) \<and> (x \<in> set (mo_sanctions s) \<or> lifted (sa_id x) s)"

lemma stands_frame [simp]:
  "stands x (s\<lparr>mo_posts := a\<rparr>) = stands x s" "stands x (s\<lparr>mo_comments := b\<rparr>) = stands x s"
  "stands x (s\<lparr>mo_postCounts := c\<rparr>) = stands x s" "stands x (s\<lparr>mo_cases := d\<rparr>) = stands x s"
  "stands x (s\<lparr>mo_enforcements := en\<rparr>) = stands x s" "stands x (s\<lparr>mo_violations := v\<rparr>) = stands x s"
  "stands x (s\<lparr>mo_appeals := ap\<rparr>) = stands x s" "stands x (s\<lparr>mo_notices := n\<rparr>) = stands x s"
  "stands x (s\<lparr>mo_economy := ec\<rparr>) = stands x s"
  by (simp_all add: stands_def lifted_def)

text \<open>\<open>apart x y\<close>: a row read before that is either \<open>x\<close> itself or another row, unless \<open>x\<close> has been lifted.\<close>

definition apart :: "sanction \<Rightarrow> sanction \<Rightarrow> moderation \<Rightarrow> bool" where
  "apart x y s \<longleftrightarrow> sa_id y = sa_id x \<longrightarrow> y = x \<or> lifted (sa_id x) s"

definition stands_beside :: "sanction \<Rightarrow> sanction set \<Rightarrow> moderation \<Rightarrow> bool" where
  "stands_beside x Y s \<longleftrightarrow> stands x s \<and> (\<forall>y \<in> Y. apart x y s)"

lemma stored_apart: "stands x s \<Longrightarrow> Y \<subseteq> set (mo_sanctions s) \<Longrightarrow> stands_beside x Y s"
  using numbered_inj [of sa_id "mo_sanctions s" _ x] by (auto simp: stands_beside_def stands_def apart_def)

lemma lifted_audit: "lifted i s \<Longrightarrow> set (mo_audits s) \<subseteq> set (mo_audits t) \<Longrightarrow> lifted i t"
  unfolding lifted_def by blast

lemma audit_stands: "tx_keeps (stands x) (audit now actor action entity reason)"
  by (auto simp: tx_valid_def audit_def tx_simps stands_def lifted_def)

lemma update_sanction_runs:
  assumes "update_sanction i f s = Inr (s', u)" and "\<And>r. sa_id (f r) = sa_id r"
  shows "s' = s\<lparr>mo_sanctions := on_id sa_id i f (mo_sanctions s)\<rparr>
    \<and> (numbered sa_id (mo_sanctions s) \<longrightarrow> numbered sa_id (mo_sanctions s'))
    \<and> (\<forall>y \<in> set (mo_sanctions s). sa_id y \<noteq> i \<longrightarrow> y \<in> set (mo_sanctions s'))"
proof -
  have s': "s' = s\<lparr>mo_sanctions := on_id sa_id i f (mo_sanctions s)\<rparr>"
    using assms(1) by (simp add: update_sanction_def split: option.splits if_splits)
  have "y \<in> set (on_id sa_id i f (mo_sanctions s))" if "y \<in> set (mo_sanctions s)" "sa_id y \<noteq> i" for y
    using imageI [OF that(1), of "\<lambda>r. if sa_id r = i then f r else r"] that(2) by (simp add: set_on_id)
  then show ?thesis using assms(2) by (simp add: s')
qed

lemma noted_result:
  assumes "tx_bind (audit now actor action e reason) (\<lambda>_. send_notice recipient by e) s = Inr (s', u)"
  shows "mo_sanctions s' = mo_sanctions s \<and> set (mo_audits s) \<subseteq> set (mo_audits s')
    \<and> (\<forall>i. e = Sanction_row i \<longrightarrow> action \<in> {SANCTION_REVOKED, SANCTION_ADJUSTED} \<longrightarrow> lifted i s')"
  using assms by (auto simp: tx_bind_Inr audit_def send_notice_def tx_simps lifted_def)

lemma expire_stands:
  assumes "unexpired now x" and "due now y" and "y \<in> Y"
  shows "tx_keeps (stands_beside x Y) (expire_sanction now actor y)"
proof (rule tx_validI)
  fix s s' :: moderation and u
  assume pre: "stands_beside x Y s" and run: "expire_sanction now actor y s = Inr (s', u)"
  then obtain s1 where s1: "update_sanction (sa_id y) (\<lambda>r. r\<lparr>sa_status := Sanction_expired\<rparr>) s = Inr (s1, ())"
    "mo_sanctions s' = mo_sanctions s1" "set (mo_audits s1) \<subseteq> set (mo_audits s')"
    by (auto simp: expire_sanction_def tx_bind_Inr [of "update_sanction i f" for i f] dest!: noted_result)
  note u = update_sanction_runs [OF s1(1), simplified]
  have up: "lifted i s \<Longrightarrow> lifted i s'" for i using u s1(3) by (auto intro: lifted_audit)
  have "y \<noteq> x" using assms(1,2) by (auto simp: due_def unexpired_def split: option.splits)
  with pre assms(3) have "sa_id x \<noteq> sa_id y \<or> lifted (sa_id x) s" by (auto simp: stands_beside_def apart_def)
  then show "stands_beside x Y s'"
    using pre u s1(2) up unfolding stands_beside_def stands_def apart_def by metis
qed

lemma revoke_tx_stands:
  assumes "unexpired now x" and "y \<in> Y"
  shows "tx_keeps (stands_beside x Y) (revoke_tx now actor reason y)"
proof (rule tx_validI)
  fix s s' :: moderation and u
  assume pre: "stands_beside x Y s" and run: "revoke_tx now actor reason y s = Inr (s', u)"
  consider (none) "s' = s" | (ended) "due now y" "expire_sanction now (Some actor) y s = Inr (s', u)"
    | (running) s1 where "update_sanction (sa_id y) (\<lambda>r. r\<lparr>sa_status := Sanction_revoked, sa_revokedAt := Some now\<rparr>) s = Inr (s1, ())"
      "mo_sanctions s' = mo_sanctions s1" "set (mo_audits s1) \<subseteq> set (mo_audits s')" "lifted (sa_id y) s'"
    using run by (cases "sa_status y") (auto simp: revoke_tx_def due_def tx_bind_Inr [of "update_sanction i f" for i f] tx_simps
      split: if_splits option.splits dest!: noted_result)
  then show "stands_beside x Y s'"
  proof cases
    case none
    then show ?thesis using pre by simp
  next
    case ended
    show ?thesis by (rule tx_validD [OF expire_stands [OF assms(1) ended(1) assms(2)] pre ended(2)])
  next
    case running
    note u = update_sanction_runs [OF running(1), simplified]
    have "lifted i s \<Longrightarrow> lifted i s'" for i using u running(3) by (auto intro: lifted_audit)
    then show ?thesis
      using pre u running(2,4) unfolding stands_beside_def stands_def apart_def by metis
  qed
qed

lemma loop_stands:
  assumes "\<And>y. y \<in> set ys \<Longrightarrow> tx_keeps (stands_beside x (set ys)) (f y)"
  shows "tx_valid (\<lambda>s. stands x s \<and> set ys \<subseteq> set (mo_sanctions s)) (tx_map f ys) (\<lambda>_. stands x)"
  by (rule tx_valid_pre [OF tx_valid_post [OF tx_keeps_map [OF assms]]]) (simp_all add: stored_apart, simp add: stands_beside_def)

lemma one_stands:
  assumes "\<And>Y. y \<in> Y \<Longrightarrow> tx_keeps (stands_beside x Y) m"
  shows "tx_valid (\<lambda>s. stands x s \<and> y \<in> set (mo_sanctions s)) m (\<lambda>_. stands x)"
  by (rule tx_valid_pre [OF tx_valid_post [OF assms [of "{y}"]]]) (simp_all add: stored_apart, simp add: stands_beside_def)

lemmas stand_rules = audit_stands content_frames mod_keeps tx_intros tx_cases

lemma create_sanction_stands: "(\<And>n. sa_id (mk n) = n) \<Longrightarrow> tx_keeps (stands x) (create_sanction mk)"
  by (auto simp: tx_valid_def create_sanction_def Let_def stands_def lifted_def split: if_splits)

lemma restore_appealed_stands: "tx_keeps (stands x) (restore_appealed_content le now actor e reason)"
  unfolding restore_appealed_content_def Let_def by (intro stand_rules; simp)

lemma reverse_tx_stands:
  assumes "unexpired now x"
  shows "tx_keeps (stands x) (reverse_tx now actor i reason)"
  unfolding reverse_tx_def
  apply (intro tx_valid_gets_bind)
  apply (rule tx_valid_bind [where R = "\<lambda>_. stands x"], rule tx_valid_modify, simp)
  apply (rule tx_valid_bind [where R = "\<lambda>_. stands x"], intro stand_rules)
  apply (rule tx_valid_gets_bind)
  apply (rule tx_valid_bind [OF tx_valid_pre [OF loop_stands [OF revoke_tx_stands [OF assms]]]], assumption, force)
  apply (simp add: tx_valid_return)
  done

lemma reconcile_stands:
  assumes "unexpired now x"
  shows "tx_keeps (stands x) (reconcile now)"
proof -
  have sub: "y \<in> set (mo_sanctions s) \<and> due now y"
    if "y \<in> set (take 100 (sort_by expires_before (filter (due now) (mo_sanctions s))))" for y s
    using in_set_takeD [OF that] by simp
  have "tx_valid (\<lambda>s. stands x s \<and> take 100 (sort_by expires_before (filter (due now) (mo_sanctions s))) = ys)
      (tx_map (expire_sanction now None) ys) (\<lambda>_. stands x)" for ys
  proof (cases "\<forall>y \<in> set ys. due now y")
    case True
    then show ?thesis
      by (intro tx_valid_pre [OF loop_stands] expire_stands [OF assms]) (use sub in auto)
  next
    case False
    then show ?thesis using sub by (auto simp: tx_valid_def)
  qed
  then show ?thesis unfolding reconcile_def
    by (intro tx_valid_gets_bind tx_valid_bind [where R = "\<lambda>_. stands x"] tx_valid_return)
qed

lemma revoke_one_stands:
  "unexpired now x \<Longrightarrow> tx_valid (\<lambda>s. stands x s \<and> y \<in> set (mo_sanctions s)) (revoke_tx now actor reason y) (\<lambda>_. stands x)"
  by (rule one_stands) (rule revoke_tx_stands)

lemma adjust_stands:
  "tx_keeps (stands x) (tx_bind (update_sanction i (\<lambda>r. r\<lparr>sa_expiresAt := Some e\<rparr>)) (\<lambda>_.
     tx_bind (audit now (Some actor) SANCTION_ADJUSTED (Sanction_row i) text) (\<lambda>_.
     tx_bind (send_notice u (Some actor) (Sanction_row i)) (\<lambda>_. tx_return e))))"
proof (rule tx_validI)
  fix s s' :: moderation and v
  assume "stands x s" and "tx_bind (update_sanction i (\<lambda>r. r\<lparr>sa_expiresAt := Some e\<rparr>)) (\<lambda>_.
     tx_bind (audit now (Some actor) SANCTION_ADJUSTED (Sanction_row i) text) (\<lambda>_.
     tx_bind (send_notice u (Some actor) (Sanction_row i)) (\<lambda>_. tx_return e))) s = Inr (s', v)"
  then obtain s1 where s1: "update_sanction i (\<lambda>r. r\<lparr>sa_expiresAt := Some e\<rparr>) s = Inr (s1, ())"
    "mo_sanctions s' = mo_sanctions s1" "mo_audits s' = mo_audits s1 @ [\<lparr>da_actor = Some actor, da_action = SANCTION_ADJUSTED,
       da_entity = Sanction_row i, da_reason = text, da_createdAt = now\<rparr>]"
    by (auto simp: tx_bind_Inr audit_def send_notice_def tx_simps)
  note u = update_sanction_runs [OF s1(1), simplified]
  have "lifted i s'" using s1(3) by (simp add: lifted_def)
  moreover have "lifted j s \<Longrightarrow> lifted j s'" for j using u s1(3) by (auto simp: lifted_def)
  ultimately show "stands x s'" using \<open>stands x s\<close> u s1(2) unfolding stands_def by metis
qed

lemma consequences_stand:
  assumes "unexpired now x"
  shows "tx_valid (\<lambda>s. stands x s \<and> y \<in> set (mo_sanctions s)) (review_consequences le now ctx y dto reason) (\<lambda>_. stands x)"
  unfolding review_consequences_def
  by (rule tx_valid_bind [OF revoke_one_stands [OF assms]])
     (intro reverse_tx_stands [OF assms] restore_appealed_stands stand_rules, auto)

lemma sanction_requests_stand:
  assumes "unexpired now x"
  shows "tx_keeps (stands x) (sanction_request dg st now actor c dto slug)"
    and "tx_keeps (stands x) (revoke_sanction st now actor n reason slug)"
    and "tx_keeps (stands x) (adjust_sanction st now actor n days reason slug)"
    and "tx_keeps (stands x) (reverse_violation st now actor n reason slug)"
    and "tx_keeps (stands x) (review_appeal le st now actor n rv slug)"
    and "tx_keeps (stands x) (submit_appeal now subject n statement)"
proof -
  show "tx_keeps (stands x) (sanction_request dg st now actor c dto slug)"
    unfolding sanction_request_def issue_sanction_def Let_def by (intro create_sanction_stands stand_rules; simp)
  show "tx_keeps (stands x) (revoke_sanction st now actor n reason slug)"
    unfolding revoke_sanction_def
    apply (intro tx_valid_result_bind)
    apply (rule tx_valid_bind [OF scoped_finds], rule tx_valid_pair)
    apply (intro tx_valid_if tx_valid_return tx_valid_fail, simp)
    apply (rule tx_valid_bind [OF tx_valid_pre [OF revoke_one_stands [OF assms]]], force)
    apply (simp add: tx_valid_return)
    done
  show "tx_keeps (stands x) (adjust_sanction st now actor n days reason slug)"
    unfolding adjust_sanction_def by (intro adjust_stands stand_rules; simp)
  show "tx_keeps (stands x) (reverse_violation st now actor n reason slug)"
    unfolding reverse_violation_def by (intro reverse_tx_stands [OF assms] stand_rules; simp)
  show "tx_keeps (stands x) (review_appeal le st now actor n rv slug)"
    unfolding review_appeal_def
    apply (intro tx_valid_result_bind tx_valid_gets_bind tx_valid_option tx_valid_fail)
    apply (rule tx_valid_bind [OF scoped_finds], rule tx_valid_pair)
    apply (intro tx_valid_gets_bind tx_valid_require_bind)
    apply (rule tx_valid_bind [where R = "\<lambda>_. stands x"])
     apply (rule tx_valid_if)
      apply (rule tx_valid_pre [OF consequences_stand [OF assms]], force)
     apply (force simp: tx_valid_def tx_simps split: if_splits)
    apply (intro stand_rules; simp)
    done
  show "tx_keeps (stands x) (submit_appeal now subject n statement)"
    unfolding submit_appeal_def Let_def by (intro stand_rules; simp)
qed

lemma other_requests_stand:
  "tx_keeps (stands x) (content_decision le st now actor k i hidden reason slug case_id)"
  "tx_keeps (stands x) (content_for_case le st now actor c hidden reason slug)"
  "tx_keeps (stands x) (confirm dg st now actor c cf slug)"
  "tx_keeps (stands x) (create_post i author game title text status)"
  "tx_keeps (stands x) (update_post seen before author i t' x' status')"
  "tx_keeps (stands x) (delete_post seen b t author i)"
  "tx_keeps (stands x) (create_comment i p author text)"
  "tx_keeps (stands x) (update_comment seen' author i text)"
  "tx_keeps (stands x) (delete_comment seen' t author i)"
  unfolding content_decision_def content_for_case_def content_in_transaction_def hide_content_def show_content_def
    restore_enforcement_def move_content_def confirm_def create_post_def update_post_def delete_post_def
    create_comment_def update_comment_def delete_comment_def Let_def
  by (intro stand_rules; simp)+

lemma request_stands: "moderation_request fresh now s s' \<Longrightarrow> unexpired now x \<Longrightarrow> stands x s \<Longrightarrow> stands x s'"
  by (induction rule: moderation_request.induct)
     (auto dest: sanction_requests_stand [THEN tx_validD] reconcile_stands [THEN tx_validD] other_requests_stand [THEN tx_validD])

lemma run_stands:
  assumes "(timed_step fresh)\<^sup>*\<^sup>* (now, s) (u, r)" and "stands x s" and "unexpired u x"
  shows "now \<le> u \<and> stands x r"
  using assms
proof (induction "(u, r)" arbitrary: u r rule: rtranclp_induct)
  case base
  then show ?case by simp
next
  case (step p)
  obtain t m where p: "p = (t, m)" by (cases p)
  with step.hyps(2) have tu: "t \<le> u" "moderation_step fresh u m r" by (auto elim: timed_stepE)
  then have "unexpired t x" using step.prems(2) by (auto simp: unexpired_def split: option.splits)
  with step.hyps(3) [OF p step.prems(1)] have "now \<le> t" "stands x m" by simp_all
  moreover have "stands x r"
    using tu(2) \<open>stands x m\<close> step.prems(2) by (cases rule: moderation_step.cases) (auto dest: request_stands)
  ultimately show ?case using tu(1) by simp
qed

text \<open>
  C24. A restriction lasts the term asked for: whatever is requested after it succeeded, by anyone and in any
  order (the expiry sweep included), until its days are over the account is refused every write in the
  community (and, when suspended or banned, every read) and cannot act as a moderator there, unless the
  audit log records that this very sanction was revoked or adjusted.
\<close>
theorem restriction_lasts_its_term:
  assumes "(timed_step False)\<^sup>*\<^sup>* (0, no_moderation) (t, s)" and "t \<le> now"
    and "sanction_request dg st now actor case_id dto slug s = Inr (s', x)" and "x \<notin> set (mo_sanctions s)"
    and "sd_type dto \<noteq> WARNING" and "sd_durationDays dto = Some days"
    and "(timed_step False)\<^sup>*\<^sup>* (now, s') (u, r)" and "u < now + days * 86400000" and "\<not> lifted (sa_id x) r"
    and "game_of_slug st' slug' = Inr game" and "sa_scope x = PLATFORM \<or> game = sa_gameId x" and "game \<noteq> None"
  shows "(is_write \<or> sd_type dto \<noteq> COMMUNITY_RESTRICTION \<longrightarrow>
      assert_allowed u (sa_subject x) is_write game r = Inl (Forbidden (Moderation Account_restricted)))
    \<and> isl (moderation_context st' u (sa_subject x) slug' r)"
proof -
  obtain ctx where ctx: "moderation_context st now actor slug s = Inr (s, ctx)" and x: "mo_sanctions s' = mo_sanctions s @ [x]" "issued now ctx dto x"
    using sanction_request_result [OF assms(3)] assms(4) by (auto simp: request_result_def)
  have end_u: "unexpired u x"
    using x(2) assms(5,6,8) by (auto simp: issued_def sanction_expiry_def unexpired_def split: if_splits)
  have "sanctions_ok now s" using sanctions_later [OF _ assms(2)] reachable_ok [OF assms(1)] by blast
  with assms(3) have "sanctions_ok now s'" by (rule requests_keep_sanctions(4) [THEN tx_validD, rotated])
  then have "stands x s'" using x(1) by (simp add: stands_def sanctions_except_def sanction_rows_def)
  with run_stands [OF assms(7) _ end_u] assms(9) have r: "now \<le> u" "x \<in> set (mo_sanctions r)" by (auto simp: stands_def)
  have f: "sa_status x = Sanction_active" "sa_startsAt x \<le> u" "sa_type x = sd_type dto" "sa_type x \<noteq> WARNING"
    using x(2) r(1) assms(5) by (auto simp: issued_def)
  have scope: "in_scope_of game x"
    using x(2) context_game [OF ctx] assms(11,12) by (cases "sa_scope x") (auto simp: in_scope_of_def issued_def)
  have "stops is_write (sa_type x)" if "is_write \<or> sd_type dto \<noteq> COMMUNITY_RESTRICTION"
    using that f(3,4) by (cases "sa_type x") (auto simp: stops_def)
  then have "assert_allowed u (sa_subject x) is_write game r = Inl (Forbidden (Moderation Account_restricted))"
    if "is_write \<or> sd_type dto \<noteq> COMMUNITY_RESTRICTION"
    using that f end_u scope r(2) by (auto simp: assert_allowed_def require_def)
  moreover have "filter (blocks_actor u (sa_subject x) game) (mo_sanctions r) \<noteq> []"
    using f end_u scope r(2) by (auto simp: blocks_actor_def filter_empty_conv)
  then have "isl (moderation_context st' u (sa_subject x) slug' r)"
    using context_unblocked [OF _ assms(10), of u "sa_subject x" r] by (cases "moderation_context st' u (sa_subject x) slug' r") auto
  ultimately show ?thesis by simp
qed

text \<open>A sweep a day later, while the sanction runs.\<close>

definition sample_swept :: moderation where
  "sample_swept = ran sample_sanctioned (reconcile 86400000 sample_sanctioned)"

lemma swept_later: "(timed_step False)\<^sup>*\<^sup>* (10, sample_sanctioned) (86400000, sample_swept)"
  unfolding sample_swept_def
  by (rule ran_step [OF rtranclp.rtrancl_refl]) (simp, rule moderation_step.requested, rule moderation_request.reconciled)

theorem restriction_lasts_its_term_witness:
  "assert_allowed 86400000 ''bob'' True (Some ''g'') sample_swept = Inl (Forbidden (Moderation Account_restricted))"
proof -
  have "(case sanction_request sample_digests sample_staff 10 ''meg'' ''case_c'' (suspension 3 ''k'') (Some ''game'') sample_reported of
    Inl _ \<Rightarrow> False | Inr (s', x) \<Rightarrow> x = expected_sanction) = True" by code_simp
  then obtain s' where q: "sanction_request sample_digests sample_staff 10 ''meg'' ''case_c'' (suspension 3 ''k'') (Some ''game'') sample_reported = Inr (s', expected_sanction)"
    by (auto split: sum.splits)
  then have s': "s' = sample_sanctioned" by (simp add: sample_sanctioned_def ran_def)
  have n: "expected_sanction \<notin> set (mo_sanctions sample_reported)" by code_simp
  have g: "game_of_slug sample_staff (Some ''game'') = Inr (Some ''g'')" by code_simp
  have w: "sd_type (suspension 3 ''k'') \<noteq> WARNING" by (simp add: suspension_def)
  have d: "sd_durationDays (suspension 3 ''k'') = Some 3" by (simp add: suspension_def)
  have l: "\<not> lifted (sa_id expected_sanction) sample_swept" by code_simp
  from restriction_lasts_its_term [OF any_timing [OF reported_reachable] _ q n w d swept_later [folded s'] _ l g, of True] show ?thesis
    by (simp add: expected_sanction_def suspension_def)
qed

lemma reconcile_runs:
  assumes "sanctions_ok t s" and "t \<le> now"
  shows "\<exists>xs au n. reconcile now s = Inr (s\<lparr>mo_sanctions := map (settle_if (\<lambda>x. x \<in> set xs) now) (mo_sanctions s),
      mo_audits := au, mo_notices := n\<rparr>, length xs)
    \<and> set xs \<subseteq> {x \<in> set (mo_sanctions s). due now x} \<and> length xs = min 100 (length (filter (due now) (mo_sanctions s))) \<and> distinct xs"
proof -
  define xs where "xs = take 100 (sort_by expires_before (filter (due now) (mo_sanctions s)))"
  have rows: "sanction_rows now (mo_sanctions s)" using sanctions_later [OF assms] by (simp add: sanctions_except_def)
  have "distinct (mo_sanctions s)"
    using rows numbered_distinct [of sa_id "mo_sanctions s"] by (auto simp: sanction_rows_def distinct_map)
  then have d: "distinct xs" unfolding xs_def by simp
  have sub: "x \<in> set (mo_sanctions s) \<and> due now x" if "x \<in> set xs" for x
    using that in_set_takeD [of x 100 "sort_by expires_before (filter (due now) (mo_sanctions s))"] by (auto simp: xs_def)
  have "ends (\<lambda>x. x \<in> set xs) now (tx_map (expire_sanction now None) xs) s"
    using sub by (intro loop_ends expire_ends rows d) auto
  then obtain au n ys where "tx_map (expire_sanction now None) xs s = Inr (s\<lparr>mo_sanctions := map (settle_if (\<lambda>x. x \<in> set xs) now) (mo_sanctions s),
      mo_audits := au, mo_notices := n\<rparr>, ys)" unfolding ends_def by blast
  then have "reconcile now s = Inr (s\<lparr>mo_sanctions := map (settle_if (\<lambda>x. x \<in> set xs) now) (mo_sanctions s),
      mo_audits := au, mo_notices := n\<rparr>, length xs)"
    unfolding reconcile_def xs_def [symmetric] by (simp add: tx_simps xs_def [symmetric])
  moreover have "length xs = min 100 (length (filter (due now) (mo_sanctions s)))" by (simp add: xs_def min.commute)
  ultimately show ?thesis using sub d by blast
qed

text \<open>
  The sweep that marks ended sanctions never fails, ends what is due (a hundred at a time), and changes
  nobody's access: at its own moment and ever after, every access check answers as without it.
\<close>
theorem sweep_changes_no_access:
  assumes "(timed_step False)\<^sup>*\<^sup>* (0, no_moderation) (t, s)" and "t \<le> now" and "now \<le> u"
  shows "\<exists>s'. reconcile now s = Inr (s', min 100 (length (filter (due now) (mo_sanctions s))))
    \<and> assert_allowed u user is_write game s' = assert_allowed u user is_write game s
    \<and> set (blocked_readers u users game s') = set (blocked_readers u users game s)"
proof -
  obtain xs au n where run: "reconcile now s = Inr (s\<lparr>mo_sanctions := map (settle_if (\<lambda>x. x \<in> set xs) now) (mo_sanctions s),
      mo_audits := au, mo_notices := n\<rparr>, length xs)" and xs: "set xs \<subseteq> {x \<in> set (mo_sanctions s). due now x}"
    "length xs = min 100 (length (filter (due now) (mo_sanctions s)))"
    using reconcile_runs assms(2) reachable_ok [OF assms(1)] by blast
  let ?s = "s\<lparr>mo_sanctions := map (settle_if (\<lambda>x. x \<in> set xs) now) (mo_sanctions s), mo_audits := au, mo_notices := n\<rparr>"
  have ended: "\<not> unexpired u x" if "x \<in> set xs" for x
    using that xs(1) assms(3) by (auto simp: due_def unexpired_def split: option.splits)
  have same: "P (settle_if (\<lambda>x. x \<in> set xs) now x) \<longleftrightarrow> P x"
    if "\<And>y. P y \<Longrightarrow> sa_status y = Sanction_active \<and> unexpired u y" for P x
    using that [of x] that [of "settle now x"] ended [of x] by (auto simp: settle_if_def)
  have live: "filter P (map (settle_if (\<lambda>x. x \<in> set xs) now) ys) = filter P ys"
    if "\<And>y. P y \<Longrightarrow> sa_status y = Sanction_active \<and> unexpired u y" for P ys
  proof (induction ys)
    case (Cons y ys)
    have "P y \<Longrightarrow> y \<notin> set xs" using that ended by blast
    with Cons same [of P y, OF that] show ?case by (auto simp: settle_if_def)
  qed simp
  have live': "filter P (mo_sanctions ?s) = filter P (mo_sanctions s)"
    if "\<And>y. P y \<Longrightarrow> sa_status y = Sanction_active \<and> unexpired u y" for P
    using live [OF that] by simp
  have "assert_allowed u user is_write game ?s = assert_allowed u user is_write game s"
    unfolding assert_allowed_def Let_def by (subst live') auto
  moreover have "blocked_readers u users game ?s = blocked_readers u users game s"
    unfolding blocked_readers_def by (subst live') auto
  ultimately have "assert_allowed u user is_write game ?s = assert_allowed u user is_write game s"
    "set (blocked_readers u users game ?s) = set (blocked_readers u users game s)" by simp_all
  with run xs(2) show ?thesis by auto
qed

theorem sweep_changes_no_access_witness:
  "\<exists>s'. reconcile 400000000 sample_sanctioned = Inr (s', 1)
    \<and> assert_allowed 400000000 ''bob'' True (Some ''g'') s' = assert_allowed 400000000 ''bob'' True (Some ''g'') sample_sanctioned"
proof -
  have "length (filter (due 400000000) (mo_sanctions sample_sanctioned)) = 1" by code_simp
  with sweep_changes_no_access [OF any_timing [OF sanctioned_reachable], of 400000000 400000000 "''bob''" True "Some ''g''"]
  show ?thesis by auto
qed

lemma on_id_ex: "(\<exists>r \<in> set (on_id key i f rs). P r) \<longleftrightarrow> (\<exists>r \<in> set rs. P (if key r = i then f r else r))"
  by (auto simp: on_id_def)

text \<open>
  C25. When a finding is reversed, nothing it led to stays in force: the finding counts as reversed and
  every sanction that rests on it has ended.
\<close>
theorem reversal_lifts_consequences:
  assumes "(timed_step False)\<^sup>*\<^sup>* (0, no_moderation) (t, s)" and "t \<le> now"
    and "reverse_violation st now actor i reason slug s = Inr (s', u)"
  shows "\<exists>v. find_row vi_id i (mo_violations s') = Some v \<and> vi_reversedAt v \<noteq> None
    \<and> filter (\<lambda>x. sa_violationId x = Some i \<and> sa_status x = Sanction_active) (mo_sanctions s') = []"
proof -
  define gone where "gone s \<longleftrightarrow> (\<exists>v \<in> set (mo_violations s). vi_id v = i) \<and> (\<forall>v \<in> set (mo_violations s). vi_id v = i \<longrightarrow> vi_reversedAt v \<noteq> None)"
    for s :: moderation
  have frame: "gone (s\<lparr>mo_sanctions := a\<rparr>) = gone s" "gone (s\<lparr>mo_audits := b\<rparr>) = gone s" "gone (s\<lparr>mo_notices := c\<rparr>) = gone s"
    for s a b c by (simp_all add: gone_def)
  define f where "f v = (if vi_reversedAt v = None then v\<lparr>vi_reversedAt := Some now\<rparr> else v)" for v :: violation
  have f: "vi_id (f v) = vi_id v" "vi_reversedAt (f v) \<noteq> None" for v by (simp_all add: f_def)
  have m: "tx_valid (\<lambda>s. \<exists>v \<in> set (mo_violations s). vi_id v = i)
      (tx_modify (\<lambda>s. s\<lparr>mo_violations := on_id vi_id i f (mo_violations s)\<rparr>)) (\<lambda>_. gone)"
    by (rule tx_valid_modify) (auto simp: gone_def on_id_all on_id_ex f simp del: not_None_eq)
  have r: "tx_valid (\<lambda>s. \<exists>v \<in> set (mo_violations s). vi_id v = i) (reverse_tx now actor i body) (\<lambda>_. gone)" for body
    unfolding reverse_tx_def revoke_tx_def expire_sanction_def f_def [abs_def, symmetric]
    by (rule tx_valid_gets_bind, rule tx_valid_bind [OF tx_valid_pre [OF m]], simp, intro mod_keeps tx_intros tx_cases)
       (simp_all add: frame)
  have "tx_valid (\<lambda>_. True) (reverse_violation st now actor i reason slug) (\<lambda>_. gone)"
    unfolding reverse_violation_def
    apply (intro tx_valid_result_bind)
    apply (rule tx_valid_bind [OF context_keeps])
    apply (intro tx_valid_gets_bind tx_valid_option tx_valid_if tx_valid_fail tx_valid_result_bind)
    apply (rule tx_valid_pre [OF r], auto dest: find_row_Some)
    done
  from tx_validD [OF this TrueI assms(3)] have gone: "gone s'" .
  have "sanctions_ok now s" using reachable_ok [OF assms(1)] assms(2) sanctions_later by blast
  from tx_validD [OF requests_keep_sanctions(5) this assms(3)] have ok: "sanctions_ok now s'" .
  then have num: "numbered vi_id (mo_violations s')" by (simp add: sanctions_except_def violation_rows_def)
  obtain v where v: "v \<in> set (mo_violations s')" "vi_id v = i" "vi_reversedAt v \<noteq> None" using gone by (auto simp: gone_def)
  have att: "attached_except {} (mo_violations s') (mo_sanctions s')" using ok by (simp add: sanctions_except_def)
  have "sa_status x \<noteq> Sanction_active" if x: "x \<in> set (mo_sanctions s')" "sa_violationId x = Some i" for x
  proof
    assume "sa_status x = Sanction_active"
    with att x obtain w where "w \<in> set (mo_violations s')" "vi_id w = i" "vi_reversedAt w = None"
      unfolding attached_except_def by blast
    with gone show False by (fastforce simp: gone_def)
  qed
  with v numbered_row [OF num v(1)] show ?thesis by (auto simp: filter_empty_conv)
qed

text \<open>Meg confirms a violation of bob, restricts him for it, and takes the finding back.\<close>

definition sample_confirmed :: moderation where
  "sample_confirmed = ran sample_reported (confirm sample_digests sample_staff 10 ''meg'' ''case_c''
     \<lparr>cf_reason = ''insults'', cf_category = HARASSMENT, cf_severity = SEVERE\<rparr> (Some ''game'') sample_reported)"

definition sample_restricted :: moderation where
  "sample_restricted = ran sample_confirmed (sanction_request sample_digests sample_staff 20 ''meg'' ''case_c''
     ((suspension 7 ''k'')\<lparr>sd_violationId := Some 0\<rparr>) (Some ''game'') sample_confirmed)"

lemma restricted_reachable: "(timed_step True)\<^sup>*\<^sup>* (0, no_moderation) (20, sample_restricted)"
proof -
  have "(timed_step True)\<^sup>*\<^sup>* (0, no_moderation) (10, sample_confirmed)"
    unfolding sample_confirmed_def by (rule ran_step [OF reported_reachable]) (simp, rule moderation_step.requested, rule moderation_request.confirmed)
  then show ?thesis unfolding sample_restricted_def by (rule ran_step) (simp, rule moderation_step.requested, rule moderation_request.sanctioned)
qed

theorem reversal_lifts_consequences_witness:
  "\<exists>s' v. reverse_violation sample_staff 30 ''meg'' 0 ''mistaken'' (Some ''game'') sample_restricted = Inr (s', ())
    \<and> find_row vi_id 0 (mo_violations s') = Some v \<and> vi_reversedAt v \<noteq> None
    \<and> filter (\<lambda>x. sa_violationId x = Some 0 \<and> sa_status x = Sanction_active) (mo_sanctions s') = []
    \<and> length (mo_sanctions sample_restricted) = 1"
proof -
  have "isl (reverse_violation sample_staff 30 ''meg'' 0 ''mistaken'' (Some ''game'') sample_restricted) = False" by code_simp
  then obtain s' where r: "reverse_violation sample_staff 30 ''meg'' 0 ''mistaken'' (Some ''game'') sample_restricted = Inr (s', ())"
    by (cases "reverse_violation sample_staff 30 ''meg'' 0 ''mistaken'' (Some ''game'') sample_restricted") auto
  have "length (mo_sanctions sample_restricted) = 1" by code_simp
  with reversal_lifts_consequences [OF any_timing [OF restricted_reachable] _ r] r show ?thesis by auto
qed

section \<open>Appeals\<close>

text \<open>
  C26. An appeal is never turned down by the moderator whose sanction it is against: whoever rejected an
  appeal is not who imposed the sanction.
\<close>
theorem rejections_are_independent:
  assumes "(timed_step False)\<^sup>*\<^sup>* (0, no_moderation) (t, s)" and "a \<in> set (mo_appeals s)" and "ap_status a = Appeal_rejected"
  shows "\<exists>x. find_row sa_id (ap_sanction a) (mo_sanctions s) = Some x \<and> ap_reviewer a \<noteq> Some (sa_actor x)"
proof -
  have ok: "sanctions_ok t s" using reachable_ok [OF assms(1)] by simp
  then obtain x where x: "x \<in> set (mo_sanctions s)" "sa_id x = ap_sanction a" "ap_reviewer a \<noteq> Some (sa_actor x)"
    using assms(2,3) by (auto simp: sanctions_except_def appeal_rows_def appeal_ok_def)
  have "numbered sa_id (mo_sanctions s)" using ok by (simp add: sanctions_except_def sanction_rows_def)
  from numbered_row [OF this x(1)] x show ?thesis by auto
qed

definition sample_appealed :: moderation where
  "sample_appealed = ran sample_restricted (submit_appeal 30 ''bob'' 0 ''it was a joke'' sample_restricted)"

definition plain_review :: "bool \<Rightarrow> string \<Rightarrow> review_dto" where
  "plain_review accepted reason =
     \<lparr>rv_accepted = accepted, rv_reverseViolation = False, rv_restoreContent = False, rv_reason = reason\<rparr>"

definition sample_rejected :: moderation where
  "sample_rejected = ran sample_appealed (review_appeal by_number sample_staff 40 ''max'' 0 (plain_review False ''reviewed'') (Some ''game'') sample_appealed)"

lemma appealed_reachable: "(timed_step True)\<^sup>*\<^sup>* (0, no_moderation) (30, sample_appealed)"
  unfolding sample_appealed_def by (rule ran_step [OF restricted_reachable]) (simp, rule moderation_step.requested, rule moderation_request.appealed)

lemma rejected_reachable: "(timed_step True)\<^sup>*\<^sup>* (0, no_moderation) (40, sample_rejected)"
  unfolding sample_rejected_def by (rule ran_step [OF appealed_reachable]) (simp, rule moderation_step.requested, rule moderation_request.reviewed)

theorem rejections_are_independent_witness:
  "\<exists>a x. mo_appeals sample_rejected = [a] \<and> ap_status a = Appeal_rejected \<and> find_row sa_id 0 (mo_sanctions sample_rejected) = Some x
    \<and> ap_reviewer a \<noteq> Some (sa_actor x)"
proof -
  have "(case mo_appeals sample_rejected of [a] \<Rightarrow> ap_status a = Appeal_rejected \<and> ap_sanction a = 0 | _ \<Rightarrow> False) = True" by code_simp
  then obtain a where a: "mo_appeals sample_rejected = [a]" "ap_status a = Appeal_rejected" "ap_sanction a = 0" by (auto split: list.splits)
  from rejections_are_independent [OF any_timing [OF rejected_reachable], of a] a show ?thesis by auto
qed

end
