(* ===== verification/Appeal_Properties.thy ===== *)
theory Appeal_Properties
  imports Sanction_Properties
begin

text \<open>
  Two promises of the moderation requests to whoever calls them: the list of appeals says exactly which
  reviews would be accepted, and a sanction request can be repeated without issuing a second sanction.
\<close>

section \<open>What the list of appeals says\<close>

lemma guards_run [simp]:
  "decision_reason v = Inr x \<Longrightarrow> tx_result (decision_reason v) s = Inr (s, x)"
  by (simp add: tx_simps)

lemma subject_runs: "map_of (st_users st) u = Some w \<Longrightarrow>
    check_subject st ctx u = Inr () \<longleftrightarrow> can_moderate_account (mx_actor ctx) (mx_role ctx) u (su_role w) (Some (su_status w)) (is_assigned st u)"
  by (auto simp: check_subject_def can_moderate_account_def require_def)

lemma scoped_run:
  assumes "moderation_context st now actor slug s = Inr (s, ctx)" and "find_row sa_id i (mo_sanctions s) = Some x"
    and "map_of (st_users st) (sa_subject x) = Some w" and "mx_scope ctx = COMMUNITY \<longrightarrow> sa_scope x = COMMUNITY \<and> sa_gameId x = mx_gameId ctx"
  shows "scoped_sanction st now actor i slug s = (case check_subject st ctx (sa_subject x) of Inl e \<Rightarrow> Inl e | Inr _ \<Rightarrow> Inr (s, (ctx, x)))"
  using assms by (auto simp: scoped_sanction_def tx_bind_def tx_simps tx_result_def split: sum.splits)

lemma context_actor: "moderation_context st now actor slug s = Inr (s', ctx) \<Longrightarrow> mx_actor ctx = actor"
  by (auto simp: moderation_context_def tx_bind_Inr tx_simps split: if_splits)

lemma review_runs:
  assumes "sanctions_ok now s" and "decision_reason reason = Inr body" and a: "find_row ap_id i (mo_appeals s) = Some a"
    and run: "scoped_sanction st now actor (ap_sanction a) slug s = Inr (s, (ctx, x))" and x: "x \<in> set (mo_sanctions s)"
  shows "isl (review_appeal le st now actor i (plain_review accepted reason) slug s)
    \<longleftrightarrow> \<not> (ap_status a = Appeal_pending \<and> (accepted \<or> sa_actor x \<noteq> actor \<and> \<not> has_adjusted actor (sa_id x) s))"
proof -
  have rows: "sanction_rows now (mo_sanctions s)" using assms(1) by (simp add: sanctions_except_def)
  obtain s1 where ended: "revoke_tx now (mx_actor ctx) body x s = Inr (s1, ())"
    using revoke_tx_ends [OF rows x, of "mx_actor ctx" body] by (auto simp: ends_def)
  show ?thesis
    using assms(2) a run ended
    by (auto simp: plain_review_def review_appeal_def review_consequences_def tx_bind_def tx_simps tx_require_run decide_appeal_def audit_def send_notice_def
        split: sum.splits if_splits)
qed

lemma listed_item:
  assumes "it \<in> set (appeal_item_of st ctx s a)"
  shows "\<exists>x w. find_row sa_id (ap_sanction a) (mo_sanctions s) = Some x \<and> map_of (st_users st) (sa_subject x) = Some w
    \<and> (mx_scope ctx = COMMUNITY \<longrightarrow> sa_scope x = COMMUNITY \<and> sa_gameId x = mx_gameId ctx) \<and> ai_appeal it = a
    \<and> (ai_canReview it \<longleftrightarrow> ap_status a = Appeal_pending \<and> check_subject st ctx (sa_subject x) = Inr ())
    \<and> (ai_canReject it \<longleftrightarrow> ai_canReview it \<and> sa_actor x \<noteq> mx_actor ctx \<and> \<not> has_adjusted (mx_actor ctx) (ap_sanction a) s)"
proof -
  obtain x where x: "find_row sa_id (ap_sanction a) (mo_sanctions s) = Some x"
    using assms by (cases "find_row sa_id (ap_sanction a) (mo_sanctions s)") (auto simp: appeal_item_of_def)
  with assms obtain w where "map_of (st_users st) (sa_subject x) = Some w"
    by (cases "map_of (st_users st) (sa_subject x)") (auto simp: appeal_item_of_def)
  note xw = x this
  with assms have "mx_scope ctx = COMMUNITY \<longrightarrow> sa_scope x = COMMUNITY \<and> sa_gameId x = mx_gameId ctx"
    by (simp add: appeal_item_of_def split: if_splits)
  with xw assms show ?thesis by (auto simp: appeal_item_of_def subject_runs Let_def split: if_splits)
qed

text \<open>
  C27. The list of appeals tells the truth: an appeal it shows can be accepted by the moderator if and only
  if it says so, and rejected if and only if it says so.
\<close>
theorem listed_actions_are_accepted:
  assumes "(timed_step False)\<^sup>*\<^sup>* (0, no_moderation) (t, s)" and "t \<le> now" and "decision_reason reason = Inr body"
    and "list_appeals st now actor slug s = Inr (s', items)" and "it \<in> set items"
  shows "(ai_canReview it \<longleftrightarrow> \<not> isl (review_appeal le st now actor (ap_id (ai_appeal it)) (plain_review True reason) slug s))
    \<and> (ai_canReject it \<longleftrightarrow> \<not> isl (review_appeal le st now actor (ap_id (ai_appeal it)) (plain_review False reason) slug s))"
proof -
  define attempt where "attempt accepted = review_appeal le st now actor (ap_id (ai_appeal it)) (plain_review accepted reason) slug s" for accepted
  have ok: "sanctions_ok now s" using reachable_ok [OF assms(1)] assms(2) sanctions_later by blast
  obtain ctx a where ctx: "moderation_context st now actor slug s = Inr (s, ctx)" and a: "a \<in> set (mo_appeals s)" "it \<in> set (appeal_item_of st ctx s a)"
    using assms(4,5) context_reads by (fastforce simp: list_appeals_def tx_bind_Inr tx_simps)
  obtain x w where x: "find_row sa_id (ap_sanction a) (mo_sanctions s) = Some x" "map_of (st_users st) (sa_subject x) = Some w"
    "mx_scope ctx = COMMUNITY \<longrightarrow> sa_scope x = COMMUNITY \<and> sa_gameId x = mx_gameId ctx" "ai_appeal it = a"
    "ai_canReview it \<longleftrightarrow> ap_status a = Appeal_pending \<and> check_subject st ctx (sa_subject x) = Inr ()"
    "ai_canReject it \<longleftrightarrow> ai_canReview it \<and> sa_actor x \<noteq> mx_actor ctx \<and> \<not> has_adjusted (mx_actor ctx) (ap_sanction a) s"
    using listed_item [OF a(2)] by blast
  have row: "find_row ap_id (ap_id a) (mo_appeals s) = Some a"
    using ok a(1) numbered_row by (auto simp: sanctions_except_def appeal_rows_def)
  have mem: "x \<in> set (mo_sanctions s)" "sa_id x = ap_sanction a" using find_row_Some [OF x(1)] by auto
  note scoped = scoped_run [OF ctx x(1-3)]
  show ?thesis
  proof (cases "check_subject st ctx (sa_subject x)")
    case (Inl e)
    then have "isl (attempt b)" for b using row scoped assms(3) x(4)
      by (simp add: attempt_def plain_review_def review_appeal_def tx_bind_def tx_result_def tx_simps)
    with Inl x(5,6) show ?thesis by (simp add: attempt_def)
  next
    case (Inr u)
    then have "scoped_sanction st now actor (ap_sanction a) slug s = Inr (s, (ctx, x))" using scoped by simp
    from review_runs [OF ok assms(3) row this mem(1), of le] x(4-6) Inr mem(2) context_actor [OF ctx] show ?thesis
      by (auto simp: plain_review_def)
  qed
qed

theorem listed_actions_are_accepted_witness:
  "\<exists>s' it. list_appeals sample_staff 40 ''meg'' (Some ''game'') sample_appealed = Inr (s', [it]) \<and> ai_canReview it \<and> \<not> ai_canReject it
    \<and> \<not> isl (review_appeal by_number sample_staff 40 ''meg'' 0 (plain_review True ''agreed'') (Some ''game'') sample_appealed)
    \<and> isl (review_appeal by_number sample_staff 40 ''meg'' 0 (plain_review False ''agreed'') (Some ''game'') sample_appealed)"
proof -
  have "(case list_appeals sample_staff 40 ''meg'' (Some ''game'') sample_appealed of
      Inr (s', [it]) \<Rightarrow> ai_canReview it \<and> \<not> ai_canReject it \<and> ap_id (ai_appeal it) = 0 | _ \<Rightarrow> False) = True" by code_simp
  then obtain s' it where r: "list_appeals sample_staff 40 ''meg'' (Some ''game'') sample_appealed = Inr (s', [it])"
    "ai_canReview it" "\<not> ai_canReject it" "ap_id (ai_appeal it) = 0" by (auto split: sum.splits list.splits)
  have "decision_reason ''agreed'' = Inr ''agreed''" by code_simp
  from listed_actions_are_accepted [OF any_timing [OF appealed_reachable] _ this r(1), of it by_number] r show ?thesis by simp
qed

section \<open>Retries\<close>

lemma find_member: "find P xs = Some x \<Longrightarrow> x \<in> set xs \<and> P x"
  by (auto simp: find_Some_iff)

lemma request_parts:
  assumes "sanction_request dg st now actor case_id dto slug s = Inr (s', x)"
  obtains reason ctx item target e where "decision_reason (sd_reason dto) = Inr reason" and "moderation_context st now actor slug s = Inr (s, ctx)"
    and "case_target case_id ctx s = Inr (s, (item, target))" and "check_subject st ctx (ct_author target) = Inr ()"
    and "\<not> (is_community_type (sd_type dto) \<and> mx_scope ctx \<noteq> COMMUNITY \<or> \<not> is_community_type (sd_type dto) \<and> sd_type dto \<noteq> WARNING \<and> mx_scope ctx \<noteq> PLATFORM)"
    and "sanction_expiry (sd_type dto) (sd_durationDays dto) (mx_role ctx = Admin_role) now = Inr e"
    and "sa_requestKey x = (actor, sd_requestKey dto)"
    and "sa_requestHash x = dg_request dg (actor, case_id, mx_scope ctx, mx_gameId ctx, sd_type dto, sd_durationDays dto,
           reason, sd_violationId dto, sd_enforcementId dto)"
    and "(s' = s \<and> x \<in> set (mo_sanctions s)) \<or> (\<exists>h. issue_sanction now ctx case_id target dto reason e h s = Inr (s', x))"
proof -
  have reads: "case_target case_id ctx s = Inr (s1, y) \<Longrightarrow> s1 = s" for ctx s1 y
    by (auto simp: case_target_def tx_bind_Inr tx_simps split: option.splits if_splits)
  have key: "issue_sanction now ctx case_id target dto reason e h s = Inr (s', x) \<Longrightarrow> sa_requestHash x = h \<and> sa_requestKey x = (mx_actor ctx, sd_requestKey dto)"
    for ctx target reason e h by (auto dest: issue_result)
  from assms show thesis unfolding sanction_request_def
    apply (clarsimp simp: tx_bind_Inr tx_simps Let_def)
    apply (frule context_reads, clarsimp, frule reads, clarsimp)
    apply (frule context_actor)
    apply (rule that; assumption?)
    apply (auto simp: tx_run dest: key find_member split: option.splits if_splits)
    done
qed

text \<open>What the request leaves of what it read, and that time alone does not take a permission away.\<close>

lemma rows_same: "(\<And>c. k (f c) = k c) \<Longrightarrow> map_option k (map_of (map (\<lambda>(i, c). (i, f c)) cs) i) = map_option k (map_of cs i)"
  by (induction cs) auto

lemma issue_frames:
  "issue_sanction now ctx case_id t dto reason e h s = Inr (s', x) \<Longrightarrow> mo_posts s' = mo_posts s \<and> mo_comments s' = mo_comments s
    \<and> (\<forall>i. map_option (\<lambda>c. (mc_targetType c, mc_targetId c, mc_gameId c)) (map_of (mo_cases s') i)
          = map_option (\<lambda>c. (mc_targetType c, mc_targetId c, mc_gameId c)) (map_of (mo_cases s) i))"
  by (auto simp: issue_sanction_def tx_bind_Inr tx_simps create_sanction_def Let_def audit_def send_notice_def
      release_moderator_cases_def intro!: rows_same split: if_splits)

lemma case_target_same:
  assumes "case_target case_id ctx s = Inr (s, (item, target))" and "mo_posts s' = mo_posts s" and "mo_comments s' = mo_comments s"
    and "map_option (\<lambda>c. (mc_targetType c, mc_targetId c, mc_gameId c)) (map_of (mo_cases s') case_id)
      = map_option (\<lambda>c. (mc_targetType c, mc_targetId c, mc_gameId c)) (map_of (mo_cases s) case_id)"
  shows "\<exists>item'. case_target case_id ctx s' = Inr (s', (item', target))"
proof -
  obtain c where c: "map_of (mo_cases s) case_id = Some c"
    using assms(1) by (cases "map_of (mo_cases s) case_id") (auto simp: case_target_def tx_bind_def tx_simps)
  with assms(4) obtain d where d: "map_of (mo_cases s') case_id = Some d" "mc_targetType d = mc_targetType c" "mc_targetId d = mc_targetId c"
    "mc_gameId d = mc_gameId c" by auto
  have "find_target k i s' = find_target k i s" for k i by (simp only: find_target_def assms(2,3))
  with c d assms(1) show ?thesis by (auto simp: case_target_def tx_bind_def tx_simps split: option.splits if_splits)
qed

lemma context_stays:
  assumes "moderation_context st now actor slug s = Inr (s, ctx)" and "now \<le> later" and "sanction_rows now (mo_sanctions s)"
    and "set (mo_sanctions s') \<subseteq> insert x (set (mo_sanctions s))" and "x \<in> set (mo_sanctions s) \<or> sa_subject x \<noteq> actor"
  shows "moderation_context st later actor slug s' = Inr (s', ctx)"
proof -
  have "blocks_actor now actor game y" if "blocks_actor later actor game y" "y \<in> set (mo_sanctions s)" for game y
    using that assms(2,3) by (force simp: blocks_actor_def sanction_rows_def sanction_ok_def unexpired_def split: option.splits)
  moreover have "y \<in> set (mo_sanctions s)" if "blocks_actor later actor game y" "y \<in> set (mo_sanctions s')" for game y
    using that assms(4,5) by (auto simp: blocks_actor_def)
  ultimately have "filter (blocks_actor later actor game) (mo_sanctions s') = []" if "filter (blocks_actor now actor game) (mo_sanctions s) = []" for game
    using that unfolding filter_empty_conv by blast
  moreover obtain game u where "game_of_slug st slug = Inr game" "lock_moderation_actor st actor game = Inr u"
    "game \<noteq> None \<or> su_role u \<in> {Admin_role, Platform_moderator}" "filter (blocks_actor now actor game) (mo_sanctions s) = []"
    "ctx = \<lparr>mx_actor = actor, mx_role = su_role u, mx_scope = (if game \<noteq> None then COMMUNITY else PLATFORM), mx_gameId = game\<rparr>"
    using assms(1) by (auto simp: moderation_context_def tx_bind_Inr tx_simps split: if_splits)
  ultimately show ?thesis by (simp add: moderation_context_def tx_bind_def tx_result_def tx_simps)
qed

lemma expiry_later: "sanction_expiry type d adm now = Inr e \<Longrightarrow> \<exists>e'. sanction_expiry type d adm later = Inr e'"
  by (auto simp: sanction_expiry_def split: if_splits option.splits)

lemma find_key:
  assumes "distinct (map key xs)" and "x \<in> set xs"
  shows "find (\<lambda>y. key y = key x) xs = Some x"
  using assms
proof (induction xs)
  case (Cons a xs)
  then show ?case by (cases "x = a") (auto simp: image_iff)
qed simp

text \<open>
  A sanction is issued once however often the request is sent: repeated at any later moment, a request
  that succeeded answers with the sanction it issued and changes nothing.
\<close>
theorem sanction_retry_is_idempotent:
  assumes "(timed_step False)\<^sup>*\<^sup>* (0, no_moderation) (t, s)" and "t \<le> now" and "now \<le> later"
    and "sanction_request dg st now actor case_id dto slug s = Inr (s', x)"
  shows "sanction_request dg st later actor case_id dto slug s' = Inr (s', x)"
proof -
  have ok: "sanctions_ok now s" using reachable_ok [OF assms(1)] assms(2) sanctions_later by blast
  then have rows: "sanction_rows now (mo_sanctions s)" by (simp add: sanctions_except_def)
  from tx_validD [OF requests_keep_sanctions(4) ok assms(4)] have keys: "distinct (map sa_requestKey (mo_sanctions s'))"
    by (simp add: sanctions_except_def sanction_rows_def)
  obtain reason ctx item target e where r: "decision_reason (sd_reason dto) = Inr reason" "moderation_context st now actor slug s = Inr (s, ctx)"
    "case_target case_id ctx s = Inr (s, (item, target))" "check_subject st ctx (ct_author target) = Inr ()"
    "\<not> (is_community_type (sd_type dto) \<and> mx_scope ctx \<noteq> COMMUNITY \<or> \<not> is_community_type (sd_type dto) \<and> sd_type dto \<noteq> WARNING \<and> mx_scope ctx \<noteq> PLATFORM)"
    "sanction_expiry (sd_type dto) (sd_durationDays dto) (mx_role ctx = Admin_role) now = Inr e"
    "sa_requestKey x = (actor, sd_requestKey dto)"
    "sa_requestHash x = dg_request dg (actor, case_id, mx_scope ctx, mx_gameId ctx, sd_type dto, sd_durationDays dto,
           reason, sd_violationId dto, sd_enforcementId dto)"
    "(s' = s \<and> x \<in> set (mo_sanctions s)) \<or> (\<exists>h. issue_sanction now ctx case_id target dto reason e h s = Inr (s', x))"
    by (rule request_parts [OF assms(4)])
  have "sa_subject x = ct_author target \<or> x \<in> set (mo_sanctions s)" and sub: "set (mo_sanctions s') \<subseteq> insert x (set (mo_sanctions s))"
    and mem: "x \<in> set (mo_sanctions s')" using r(9) by (auto dest: issue_result)
  moreover have "ct_author target \<noteq> actor" using r(4) context_actor [OF r(2)] by (auto simp: check_subject_def)
  ultimately have ctx: "moderation_context st later actor slug s' = Inr (s', ctx)"
    by (intro context_stays [OF r(2) assms(3) rows sub]) auto
  obtain item' where case_run: "case_target case_id ctx s' = Inr (s', (item', target))"
    using r(3,9) case_target_same [OF r(3)] issue_frames by blast
  obtain e' where e: "sanction_expiry (sd_type dto) (sd_durationDays dto) (mx_role ctx = Admin_role) later = Inr e'"
    using expiry_later [OF r(6)] by blast
  have found: "find (\<lambda>y. sa_requestKey y = (actor, sd_requestKey dto)) (mo_sanctions s') = Some x"
    using find_key [OF keys mem] r(7) by simp
  show ?thesis unfolding sanction_request_def
    using r(1,4,5,8) ctx case_run e found by (simp add: tx_bind_def tx_result_def tx_simps Let_def)
qed

theorem sanction_retry_is_idempotent_witness:
  "sanction_request sample_digests sample_staff 86400000 ''meg'' ''case_c'' (suspension 3 ''k'') (Some ''game'') sample_sanctioned
    = Inr (sample_sanctioned, expected_sanction)"
proof -
  have "(case sanction_request sample_digests sample_staff 10 ''meg'' ''case_c'' (suspension 3 ''k'') (Some ''game'') sample_reported of
    Inl _ \<Rightarrow> False | Inr (s', x) \<Rightarrow> x = expected_sanction) = True" by code_simp
  then obtain s' where r: "sanction_request sample_digests sample_staff 10 ''meg'' ''case_c'' (suspension 3 ''k'') (Some ''game'') sample_reported = Inr (s', expected_sanction)"
    by (auto split: sum.splits)
  then have s': "s' = sample_sanctioned" by (simp add: sample_sanctioned_def ran_def)
  from sanction_retry_is_idempotent [OF any_timing [OF reported_reachable] _ _ r, of 86400000] show ?thesis by (simp add: s')
qed

end
