(* ===== verification/Case_Properties.thy ===== *)
theory Case_Properties
  imports Case_System Limiter_Properties Appeal_Properties
begin

text \<open>
  The properties of the desk: counters of reports, who cases are with, what is final, what a report and
  the work on a case come to, and the race that leaves a case with somebody who has no rights.
\<close>

section \<open>Samples\<close>

definition desk_ran :: "desk \<Rightarrow> (desk \<times> 'a) result \<Rightarrow> desk" where
  "desk_ran s r = (case r of Inl _ \<Rightarrow> s | Inr (s', _) \<Rightarrow> s')"

lemma desk_ran_step:
  assumes "(timed_desk fresh)\<^sup>*\<^sup>* p (t, s)" and "\<And>s' x. r = Inr (s', x) \<Longrightarrow> desk_step fresh t s s'"
  shows "(timed_desk fresh)\<^sup>*\<^sup>* p (t, desk_ran s r)"
proof (cases r)
  case (Inr b)
  obtain s' x where "b = (s', x)" by (cases b)
  with Inr assms show ?thesis by (auto simp: desk_ran_def intro: rtranclp.rtrancl_into_rtrancl timed_desk.timed)
qed (simp add: desk_ran_def assms(1))

definition sample_dto :: report_dto where
  "sample_dto = \<lparr>rd_targetType = Post_content, rd_targetId = ''p'', rd_reason = COMMERCIAL_SPAM, rd_details = None\<rparr>"

definition sample_snapshot :: content_target where
  "sample_snapshot = the (find_target Post_content ''p'' sample_posted)"

abbreviation sample_hash :: "content_target \<Rightarrow> string" where
  "sample_hash \<equiv> (\<lambda>t. ct_content t)"

text \<open>A community with a post of ann, which bob and max report; meg, its moderator, claims the case and closes it.\<close>

definition desk_open :: desk where
  "desk_open = (empty_desk sample_staff)\<lparr>ds_mod := sample_posted\<rparr>"

definition desk_reported :: desk where
  "desk_reported = desk_ran desk_open (report_attempt sample_hash 0 ''k'' None ''bob'' sample_dto sample_snapshot desk_open)"

definition desk_reported_twice :: desk where
  "desk_reported_twice = desk_ran desk_reported (report_attempt sample_hash 0 ''l'' (Some ''k'') ''max'' sample_dto sample_snapshot desk_reported)"

definition desk_claimed :: desk where
  "desk_claimed = desk_ran desk_reported_twice (mutate_case desk_reported_twice 0 ''meg'' ''k'' Claim_it None (Some ''game'') desk_reported_twice)"

definition desk_closed :: desk where
  "desk_closed = desk_ran desk_claimed (mutate_case desk_claimed 0 ''meg'' ''k'' Resolve_it None (Some ''game'') desk_claimed)"

lemma posted_desk: "(timed_desk True)\<^sup>*\<^sup>* (0, empty_desk sample_staff) (0, desk_open)"
proof -
  let ?d = "(empty_desk sample_staff)\<lparr>ds_mod := sample_community\<rparr>"
  have "(empty_desk sample_staff)\<lparr>ds_mod := (ds_mod (empty_desk sample_staff))\<lparr>mo_postCounts := AList.update ''g'' 0 (mo_postCounts (ds_mod (empty_desk sample_staff)))\<rparr>,
      ds_staff := (ds_staff (empty_desk sample_staff))\<lparr>st_games := AList.update ''game'' ''g'' (st_games (ds_staff (empty_desk sample_staff)))\<rparr>\<rparr> = ?d"
    and "published_in ''g'' (mo_posts (ds_mod (empty_desk sample_staff))) = 0"
    by code_simp+
  then have 1: "desk_step True 0 (empty_desk sample_staff) ?d" using desk_step.community_created by metis
  have "new_id ''p'' sample_community" and ok: "create_post ''p'' ''ann'' (Some ''g'') ''title'' ''body'' Published sample_community = Inr (sample_posted, ())"
    by code_simp+
  then have "moderation_request False 0 (ds_mod ?d) sample_posted"
    by (auto intro: moderation_request.post_created [OF _ _ ok])
  from desk_step.moderated [OF this] have 2: "desk_step True 0 ?d desk_open" by (simp add: desk_open_def)
  show ?thesis using 1 2 by (meson timed_desk.timed order_refl rtranclp.simps)
qed

lemma desk_reachable:
  "(timed_desk True)\<^sup>*\<^sup>* (0, empty_desk sample_staff) (0, desk_reported)"
  "(timed_desk True)\<^sup>*\<^sup>* (0, empty_desk sample_staff) (0, desk_reported_twice)"
  "(timed_desk True)\<^sup>*\<^sup>* (0, empty_desk sample_staff) (0, desk_claimed)"
  "(timed_desk True)\<^sup>*\<^sup>* (0, desk_claimed) (0, desk_closed)"
proof -
  have "found_for (rd_targetType sample_dto) (rd_targetId sample_dto) None desk_open"
    "found_for (rd_targetType sample_dto) (rd_targetId sample_dto) (Some ''k'') desk_reported" by code_simp+
  note found = this
  show 1: "(timed_desk True)\<^sup>*\<^sup>* (0, empty_desk sample_staff) (0, desk_reported)"
    unfolding desk_reported_def by (rule desk_ran_step [OF posted_desk]) (rule desk_step.attempted [OF found(1)])
  show 2: "(timed_desk True)\<^sup>*\<^sup>* (0, empty_desk sample_staff) (0, desk_reported_twice)"
    unfolding desk_reported_twice_def by (rule desk_ran_step [OF 1]) (rule desk_step.attempted [OF found(2)])
  show "(timed_desk True)\<^sup>*\<^sup>* (0, empty_desk sample_staff) (0, desk_claimed)"
    unfolding desk_claimed_def by (rule desk_ran_step [OF 2]) (rule desk_step.worked)
  show "(timed_desk True)\<^sup>*\<^sup>* (0, desk_claimed) (0, desk_closed)"
    unfolding desk_closed_def by (rule desk_ran_step [OF rtranclp.rtrancl_refl]) (rule desk_step.worked)
qed

lemma any_desk_timing: "(timed_desk True)\<^sup>*\<^sup>* p q \<Longrightarrow> (timed_desk fresh)\<^sup>*\<^sup>* p q"
proof (induction rule: rtranclp_induct)
  case (step q r)
  have "desk_step True now s s' \<Longrightarrow> desk_step fresh now s s'" for now s s'
    by (induction rule: desk_step.induct) (blast intro: desk_step.intros)+
  with step.hyps(2) have "timed_desk fresh q r" by (auto elim!: timed_deskE intro: timed_desk.timed)
  with step.IH show ?case by (rule rtranclp.rtrancl_into_rtrancl)
qed simp

lemma distinct_in_class: "distinct (map (\<lambda>r. (f r, g r)) rs) \<Longrightarrow> distinct (map g (filter (\<lambda>r. f r = i) rs))"
  by (induction rs) (auto simp: image_iff)

lemma reachable_desk_ok: "(timed_desk fresh)\<^sup>*\<^sup>* (t0, empty_desk st) (t, s) \<Longrightarrow> desk_ok s"
  using busy_desk.inv_reachable [of "(t0, empty_desk st)" fresh "(t, s)"] by auto

section \<open>Reports and cases\<close>

text \<open>
  C28. However reports race, and whatever moderators do to the cases meanwhile: a piece of content never has
  two open cases, nobody has two reports in one case, and the counters of a case are exactly its reports
  and their reporters.
\<close>
theorem cases_count_their_reports:
  assumes "(timed_desk False)\<^sup>*\<^sup>* (t0, empty_desk st) (t, s)" and "map_of (ds_cases s) i = Some c"
  shows "distinct (map rp_reporter (reports_in i (ds_reports s)))
    \<and> mc_reportCount c = int (length (reports_in i (ds_reports s)))
    \<and> mc_uniqueReporterCount c = int (card (rp_reporter ` set (reports_in i (ds_reports s))))
    \<and> (\<forall>j d. map_of (ds_cases s) j = Some d \<and> mc_status c \<in> open_statuses \<and> mc_status d \<in> open_statuses
         \<and> mc_targetType d = mc_targetType c \<and> mc_targetId d = mc_targetId c \<longrightarrow> j = i)
    \<and> (\<forall>r \<in> set (reports_in i (ds_reports s)). rp_targetType r = mc_targetType c \<and> rp_targetId r = mc_targetId c)"
proof -
  have ok: "case_rows (ds_cases s)" and rows: "report_rows (ds_cases s) (ds_reports s)"
    using reachable_desk_ok [OF assms(1)] by (simp_all add: desk_ok_def)
  have "distinct (map (\<lambda>r. (rp_caseId r, rp_reporter r)) (ds_reports s))" using rows by (simp add: report_rows_def)
  then have d: "distinct (map rp_reporter (reports_in i (ds_reports s)))"
    unfolding reports_in_def by (rule distinct_in_class)
  have "mc_reportCount c = int (length (reports_in i (ds_reports s)))" "mc_uniqueReporterCount c = mc_reportCount c"
    using rows assms(2) unfolding report_rows_def by blast+
  moreover have "card (rp_reporter ` set (reports_in i (ds_reports s))) = length (reports_in i (ds_reports s))"
    using distinct_card [OF d] by simp
  moreover have "j = i" if "map_of (ds_cases s) j = Some d" "mc_status c \<in> open_statuses" "mc_status d \<in> open_statuses"
      "mc_targetType d = mc_targetType c" "mc_targetId d = mc_targetId c" for j d
    using ok assms(2) that unfolding case_rows_def by blast
  moreover have "rp_targetType r = mc_targetType c \<and> rp_targetId r = mc_targetId c" if "r \<in> set (reports_in i (ds_reports s))" for r
  proof -
    have "r \<in> set (ds_reports s)" "rp_caseId r = i" using that by (auto simp: reports_in_def)
    then show ?thesis using rows assms(2) unfolding report_rows_def by fastforce
  qed
  ultimately show ?thesis using d by simp
qed

theorem cases_count_their_reports_witness: "mc_reportCount (the (map_of (ds_cases desk_reported_twice) ''k'')) = 2
    \<and> mc_uniqueReporterCount (the (map_of (ds_cases desk_reported_twice) ''k'')) = int (card {''bob'', ''max''})"
proof -
  have "map_of (ds_cases desk_reported_twice) ''k'' = Some (the (map_of (ds_cases desk_reported_twice) ''k''))"
    "map rp_reporter (reports_in ''k'' (ds_reports desk_reported_twice)) = [''bob'', ''max'']" by code_simp+
  moreover from this have "rp_reporter ` set (reports_in ''k'' (ds_reports desk_reported_twice)) = {''bob'', ''max''}"
    "length (reports_in ''k'' (ds_reports desk_reported_twice)) = 2"
    by (metis list.set_map list.simps(15) set_empty2 empty_set, metis length_map length_Cons list.size(3) numeral_2_eq_2)
  ultimately show ?thesis
    using cases_count_their_reports [OF any_desk_timing [OF desk_reachable(2)], of "''k''"] by simp
qed

text \<open>
  C29. As long as nobody's rights are taken away on a read another removal has overtaken, every case under
  review is with an active account that may work on it: a platform moderator, or a moderator of its community.
\<close>
theorem reviewers_keep_their_rights:
  assumes "(timed_desk True)\<^sup>*\<^sup>* (t0, empty_desk st) (t, s)" and "map_of (ds_cases s) i = Some c" and "mc_status c = Case_in_review"
  shows "\<exists>v. mc_assigned c = Some v \<and> case_moderator (ds_staff s) (mc_gameId c) v"
proof -
  have "staffed s" using staffed_desk.inv_reachable [of "(t0, empty_desk st)" "(t, s)"] assms(1) by auto
  moreover have "case_ok c" using reachable_desk_ok [OF assms(1)] assms(2) by (auto simp: desk_ok_def case_rows_def)
  then obtain v where "mc_assigned c = Some v" using assms(3) by (auto simp: case_ok_def)
  ultimately show ?thesis using staffedD assms(2,3) by blast
qed

theorem reviewers_keep_their_rights_witness: "\<exists>v. mc_assigned (the (map_of (ds_cases desk_claimed) ''k'')) = Some v
    \<and> case_moderator sample_staff (Some ''g'') v"
proof -
  have c: "map_of (ds_cases desk_claimed) ''k'' = Some (the (map_of (ds_cases desk_claimed) ''k''))"
    "mc_status (the (map_of (ds_cases desk_claimed) ''k'')) = Case_in_review" by code_simp+
  have "ds_staff desk_claimed = sample_staff" "mc_gameId (the (map_of (ds_cases desk_claimed) ''k'')) = Some ''g''" by code_simp+
  with reviewers_keep_their_rights [OF desk_reachable(3) c] show ?thesis by metis
qed

text \<open>The race: meg, a moderator of the community and of the platform, reviews a case; both rights are taken away, the
  second removal on a list of communities read before the first.\<close>

definition meg_promoted :: "desk \<Rightarrow> desk" where
  "meg_promoted d = desk_ran d (change_platform_moderator [] ''root'' ''meg'' True d)"

definition meg_claims :: "desk \<Rightarrow> desk" where
  "meg_claims d = desk_ran d (mutate_case d 0 ''meg'' ''k'' Claim_it None None d)"

definition meg_leaves_community :: "desk \<Rightarrow> desk" where
  "meg_leaves_community d = desk_ran d (remove_moderator d (role_of ''meg'' d) ''game'' ''meg'' ''root'' d)"

definition meg_leaves_platform :: "string list \<Rightarrow> desk \<Rightarrow> desk" where
  "meg_leaves_platform games d = desk_ran d (change_platform_moderator games ''root'' ''meg'' False d)"

definition desk_stranded :: desk where
  "desk_stranded = meg_leaves_platform [''g''] (meg_leaves_community (meg_claims (meg_promoted desk_reported)))"

lemma stranded_reachable: "(timed_desk False)\<^sup>*\<^sup>* (0, empty_desk sample_staff) (0, desk_stranded)"
proof -
  have 1: "(timed_desk False)\<^sup>*\<^sup>* (0, empty_desk sample_staff) (0, meg_promoted desk_reported)" unfolding meg_promoted_def
    by (rule desk_ran_step [OF any_desk_timing [OF desk_reachable(1)]]) (rule desk_step.platform_changed, simp)
  have 2: "(timed_desk False)\<^sup>*\<^sup>* (0, empty_desk sample_staff) (0, meg_claims (meg_promoted desk_reported))"
    unfolding meg_claims_def by (rule desk_ran_step [OF 1]) (rule desk_step.worked)
  have 3: "(timed_desk False)\<^sup>*\<^sup>* (0, empty_desk sample_staff) (0, meg_leaves_community (meg_claims (meg_promoted desk_reported)))"
    unfolding meg_leaves_community_def by (rule desk_ran_step [OF 2]) (rule desk_step.moderator_removed, simp)
  show ?thesis unfolding desk_stranded_def
    by (subst meg_leaves_platform_def, rule desk_ran_step [OF 3]) (rule desk_step.platform_changed, simp)
qed

text \<open>
  Two removals of the same moderator that race, one of the platform role and one of the community, each
  see the other right still in place: the case stays under review by an account that may do nothing with it.
\<close>
theorem racing_removals_strand_a_case:
  "\<exists>s c. (timed_desk False)\<^sup>*\<^sup>* (0, empty_desk sample_staff) (0, s) \<and> map_of (ds_cases s) ''k'' = Some c
     \<and> mc_status c = Case_in_review \<and> mc_assigned c = Some ''meg'' \<and> \<not> case_moderator (ds_staff s) (mc_gameId c) ''meg''
     \<and> (\<forall>now action comment slug s' d. mutate_case s now ''meg'' ''k'' action comment slug s \<noteq> Inr (s', d))"
proof -
  let ?c = "the (map_of (ds_cases desk_stranded) ''k'')"
  have c: "map_of (ds_cases desk_stranded) ''k'' = Some ?c" "mc_status ?c = Case_in_review" "mc_assigned ?c = Some ''meg''"
    "\<not> case_moderator (ds_staff desk_stranded) (mc_gameId ?c) ''meg''"
    by code_simp+
  have meg: "map_of (st_users (ds_staff desk_stranded)) ''meg'' = Some \<lparr>su_role = User_role, su_status = ACTIVE_USER\<rparr>"
    "st_assignments (ds_staff desk_stranded) = [(''max'', ''g'')]"
    by code_simp+
  have "case_scope desk_stranded ''meg'' ''k'' slug \<noteq> Inr x" for slug x
    by (auto simp: case_scope_def authorize_platform_def authorize_game_case_def resolve_moderatable_game_id_def
        assert_can_moderate_game_def load_active_user_def meg has_platform_moderation_capability_def require_def
        split: option.splits sum.splits if_splits)
  then have "mutate_case desk_stranded now ''meg'' ''k'' action comment slug desk_stranded \<noteq> Inr (s', d)" for now action comment slug s' d
    by (simp add: mutate_result)
  with stranded_reachable c show ?thesis by blast
qed

section \<open>What is final\<close>

text \<open>
  C32. A closed case is final. Once it is resolved or dismissed, no report, no moderator and no later request of
  any kind changes its row or adds a report to it; reports and the log are never rewritten.
\<close>
theorem closed_cases_are_final:
  assumes "(timed_desk False)\<^sup>*\<^sup>* (t0, empty_desk st) (t, s)" and "(timed_desk False)\<^sup>*\<^sup>* (t, s) (t', s')"
    and "map_of (ds_cases s) i = Some c" and "mc_status c \<notin> open_statuses"
  shows "map_of (ds_cases s') i = Some c \<and> reports_in i (ds_reports s') = reports_in i (ds_reports s)
    \<and> prefix (ds_reports s) (ds_reports s') \<and> prefix (ds_log s) (ds_log s')"
proof -
  have grown: "desk_grown s s'"
    using busy_desk.grows_reachable [of "(t0, empty_desk st)" False "(t, s)" "(t', s')"] assms(1,2) by auto
  then have c: "map_of (ds_cases s') i = Some c"
    using assms(3,4) by (auto simp: desk_grown_def cases_grown_def case_kept_def)
  have rows: "report_rows (ds_cases s) (ds_reports s)" "report_rows (ds_cases s') (ds_reports s')"
    using reachable_desk_ok [OF assms(1)] reachable_desk_ok [OF rtranclp_trans [OF assms(1,2)]] by (simp_all add: desk_ok_def)
  then have "mc_reportCount c = int (length (reports_in i (ds_reports s)))" "mc_reportCount c = int (length (reports_in i (ds_reports s')))"
    using assms(3) c unfolding report_rows_def by blast+
  then have len: "length (reports_in i (ds_reports s')) = length (reports_in i (ds_reports s))" by simp
  obtain new where "ds_reports s' = ds_reports s @ new" using grown by (auto simp: desk_grown_def prefix_def)
  with len have "reports_in i (ds_reports s') = reports_in i (ds_reports s)" by (simp add: reports_in_def)
  with c grown show ?thesis by (simp add: desk_grown_def)
qed

theorem closed_cases_are_final_witness: "mc_resolvedBy (the (map_of (ds_cases desk_closed) ''k'')) = Some ''meg''
    \<and> reports_in ''k'' (ds_reports desk_closed) = reports_in ''k'' (ds_reports desk_reported_twice)"
proof -
  have c: "map_of (ds_cases desk_closed) ''k'' = Some (the (map_of (ds_cases desk_closed) ''k''))"
    "mc_status (the (map_of (ds_cases desk_closed) ''k'')) \<notin> open_statuses"
    "mc_resolvedBy (the (map_of (ds_cases desk_closed) ''k'')) = Some ''meg''"
    "reports_in ''k'' (ds_reports desk_closed) = reports_in ''k'' (ds_reports desk_reported_twice)" by code_simp+
  have "(timed_desk False)\<^sup>*\<^sup>* (0, empty_desk sample_staff) (0, desk_closed)"
    using any_desk_timing rtranclp_trans [OF desk_reachable(3,4)] by blast
  from closed_cases_are_final [OF this rtranclp.rtrancl_refl c(1,2)] c(3,4) show ?thesis by blast
qed

section \<open>Work on a case\<close>

definition may_work :: "staff \<Rightarrow> string option \<Rightarrow> string option \<Rightarrow> user_id \<Rightarrow> bool" where
  "may_work st slug game u \<longleftrightarrow> (case slug of
      None \<Rightarrow> case_moderator st None u
    | Some name \<Rightarrow> game \<noteq> None \<and> map_of (st_games st) name = game \<and> case_moderator st game u)"

definition case_after :: "time \<Rightarrow> user_id \<Rightarrow> case_action \<Rightarrow> string option \<Rightarrow> moderation_case \<Rightarrow> moderation_case" where
  "case_after now u action comment c = (case action of
      Claim_it \<Rightarrow> c\<lparr>mc_status := Case_in_review, mc_assigned := Some u\<rparr>
    | Assign_to v \<Rightarrow> c\<lparr>mc_status := Case_in_review, mc_assigned := Some v\<rparr>
    | Resolve_it \<Rightarrow> c\<lparr>mc_status := Case_resolved, mc_resolvedBy := Some u, mc_resolvedAt := Some now, mc_resolutionNote := normalize_text comment\<rparr>
    | Dismiss_it \<Rightarrow> c\<lparr>mc_status := Case_dismissed, mc_resolvedBy := Some u, mc_resolvedAt := Some now, mc_resolutionNote := normalize_text comment\<rparr>)"

definition action_entry :: "case_action \<Rightarrow> log_action" where
  "action_entry action = (case action of Claim_it \<Rightarrow> CASE_CLAIMED | Assign_to _ \<Rightarrow> CASE_ASSIGNED | Resolve_it \<Rightarrow> CASE_RESOLVED | Dismiss_it \<Rightarrow> CASE_DISMISSED)"

lemma transition_iff:
  "transition_case actor game case_game i change statuses assignee action s = Inr (s', Some d)
    \<longleftrightarrow> (\<exists>c. map_of (ds_cases s) i = Some c \<and> mc_gameId c = case_game \<and> (game = None \<or> mc_gameId c = game)
      \<and> mc_status c \<in> statuses \<and> (\<exists>u. lock_moderation_actor (ds_staff s) actor game = Inr u)
      \<and> (case assignee of None \<Rightarrow> True | Some v \<Rightarrow> case_moderator (ds_staff s) case_game v) \<and> d = change c
      \<and> s' = (set_cases (AList.map_entry i change) s)\<lparr>ds_log := ds_log s @ [\<lparr>lg_action = action, lg_actor = actor, lg_target = i\<rparr>]\<rparr>)"
  by (auto simp: transition_case_def tx_bind_Inr tx_simps record_or_throw_def set_cases_def split: option.splits)

lemma locked_iff: "(\<exists>x. lock_moderation_actor st u game = Inr x) \<longleftrightarrow> case_moderator st game u"
  by (auto simp: lock_moderation_actor_def case_moderator_def split: option.splits)

lemma scope_iff: "case_scope earlier u i slug = Inr (game, case_game) \<longleftrightarrow>
    (\<exists>c. map_of (ds_cases earlier) i = Some c \<and> case_game = mc_gameId c \<and> game = (if slug = None then None else mc_gameId c)
      \<and> may_work (ds_staff earlier) slug (mc_gameId c) u)"
  by (auto simp: case_scope_def may_work_def authorize_platform_def authorize_game_case_def resolve_moderatable_game_id_def
      resolve_game_id_def assert_can_moderate_game_def load_active_user_def load_case_def require_def case_moderator_def
      split: option.splits sum.splits if_splits)

text \<open>
  C31. Work on a case succeeds exactly when, at the first read and again when it is written, the account may work on it
  within the scope of the request, the case is still in the same community and still open (a claim: not yet under
  review), and whoever it is assigned to may work on it; then the row and one entry of the log say what was done.
\<close>
theorem work_on_a_case:
  "mutate_case earlier now u i action comment slug s = Inr (s', d) \<longleftrightarrow>
     (\<exists>c0 c. map_of (ds_cases earlier) i = Some c0 \<and> may_work (ds_staff earlier) slug (mc_gameId c0) u
        \<and> map_of (ds_cases s) i = Some c \<and> mc_gameId c = mc_gameId c0
        \<and> case_moderator (ds_staff s) (if slug = None then None else mc_gameId c) u
        \<and> mc_status c \<in> (if action = Claim_it then {Case_open} else {Case_open, Case_in_review})
        \<and> (case action of Assign_to v \<Rightarrow> case_moderator (ds_staff s) (mc_gameId c) v | _ \<Rightarrow> True)
        \<and> d = case_after now u action comment c
        \<and> s' = (set_cases (AList.map_entry i (case_after now u action comment)) s)\<lparr>ds_log := ds_log s @
            [\<lparr>lg_action = action_entry action, lg_actor = u, lg_target = i\<rparr>]\<rparr>)"
proof -
  note [simp] = mutate_result scope_iff act_on_case_def claim_case_def assign_case_def finalize_case_def transition_iff locked_iff
    case_after_def [abs_def] action_entry_def open_statuses_def
  show ?thesis
  proof (cases slug)
    case None
    then show ?thesis by (cases action) auto
  next
    case (Some name)
    then show ?thesis by (cases action) auto
  qed
qed

section \<open>Filing a report\<close>

text \<open>
  The limiter of reports, which has code of its own, is the shared limiter with five reports a minute and a
  minute of lockout: every bound proved of the shared one holds for reports.
\<close>
theorem report_limiter_is_shared:
  "report_assert_not_rate_limited now u lm = assert_not_rate_limited report_limiter now u 1 lm"
  by (auto simp: report_assert_not_rate_limited_def assert_not_rate_limited_def attempt_def attempt_unlocked_def
      report_limiter_def store_bounded_def Let_def split: option.splits)

lemma open_case_is:
  assumes "case_rows (ds_cases s)" and "map_of (ds_cases s) i = Some c" and "mc_status c \<in> open_statuses"
  shows "open_case (mc_targetType c) (mc_targetId c) s = Some i"
proof (cases "open_case (mc_targetType c) (mc_targetId c) s")
  case None
  with assms(2,3) show ?thesis by (auto simp: open_case_None dest: map_of_SomeD)
next
  case (Some j)
  from open_case_Some [OF this] obtain d where d: "(j, d) \<in> set (ds_cases s)" "mc_targetType d = mc_targetType c"
    "mc_targetId d = mc_targetId c" "mc_status d \<in> open_statuses" by blast
  then have "map_of (ds_cases s) j = Some d" using assms(1) by (simp add: case_rows_def)
  with assms d Some show ?thesis unfolding case_rows_def by blast
qed

lemma open_case_found:
  assumes "case_rows (ds_cases s)" and "open_case k i s = Some j"
  obtains c where "map_of (ds_cases s) j = Some c" and "mc_targetType c = k" and "mc_targetId c = i" and "mc_status c \<in> open_statuses"
  using open_case_Some [OF assms(2)] assms(1) by (auto simp: case_rows_def)

lemma schedule_effect:
  obtains s' where "schedule_if_needed hash r s = Inr (s', ())" and "ds_mod s' = ds_mod s" and "ds_reports s' = ds_reports s"
    and "\<exists>a \<in> set (ds_analyses s'). an_caseId a = rp_caseId r \<and> an_snapshotHash a = hash (rp_snapshot r)"
proof -
  have "\<exists>s'. schedule_if_needed hash r s = Inr (s', ()) \<and> ds_mod s' = ds_mod s \<and> ds_reports s' = ds_reports s
    \<and> (\<exists>a \<in> set (ds_analyses s'). an_caseId a = rp_caseId r \<and> an_snapshotHash a = hash (rp_snapshot r))"
    by (auto simp: schedule_if_needed_def tx_bind_Inr tx_simps)
  with that show ?thesis by blast
qed

text \<open>What an attempt comes to that reads and writes the same rows.\<close>

lemma lock_effect:
  assumes "case_rows (ds_cases s)" and "report_rows (ds_cases s) (ds_reports s)" and "map_of (ds_cases s) new = None"
    and "i = (case open_case (rd_targetType dto) (rd_targetId dto) s of None \<Rightarrow> new | Some j \<Rightarrow> j)"
  obtains t c where "lock_open_case now new (open_case (rd_targetType dto) (rd_targetId dto) s) dto snapshot s = Inr (t, Some i)"
    and "map_of (ds_cases t) i = Some c" and "mc_reportCount c = int (length (reports_in i (ds_reports s)))"
    and "mc_status c \<in> open_statuses" and "mc_targetType c = rd_targetType dto" and "mc_targetId c = rd_targetId dto"
    and "\<And>j. j \<noteq> i \<Longrightarrow> map_of (ds_cases t) j = map_of (ds_cases s) j" and "ds_reports t = ds_reports s"
proof (cases "open_case (rd_targetType dto) (rd_targetId dto) s")
  case None
  let ?c = "\<lparr>mc_targetType = rd_targetType dto, mc_targetId = rd_targetId dto,
    mc_gameId = ct_gameId snapshot, mc_status = Case_open, mc_assigned = None, mc_reportCount = 0,
    mc_uniqueReporterCount = 0, mc_lastReportedAt = now, mc_resolvedBy = None, mc_resolvedAt = None, mc_resolutionNote = None\<rparr>"
  have "lock_open_case now new None dto snapshot s = Inr (set_cases (\<lambda>cs. cs @ [(new, ?c)]) s, Some new)"
    using assms(3) None by (simp add: lock_open_case_def insert_case_def tx_simps)
  moreover have "reports_in new (ds_reports s) = []"
    using assms(2,3) by (force simp: report_rows_def reports_in_def filter_empty_conv)
  ultimately show ?thesis using None assms(3,4)
    by (intro that [of "set_cases (\<lambda>cs. cs @ [(new, ?c)]) s" ?c]) (auto simp: set_cases_def open_statuses_def map_add_def split: option.splits)
next
  case (Some j)
  from open_case_found [OF assms(1) this] obtain c where c: "map_of (ds_cases s) j = Some c" "mc_targetType c = rd_targetType dto"
    "mc_targetId c = rd_targetId dto" "mc_status c \<in> open_statuses" by blast
  moreover have "mc_reportCount c = int (length (reports_in j (ds_reports s)))" using assms(2) c(1) unfolding report_rows_def by blast
  ultimately show ?thesis using Some assms(4) by (intro that [of s c]) (auto simp: lock_open_case_def tx_simps)
qed

text \<open>
  C30. A report whose attempt nobody disturbs is decided by that attempt: a second report of the same account in the
  open case of the content is refused, and any other is filed, in the open case when there is one and in a new one
  otherwise; it counts, its snapshot is up for analysis, and no other case changes.
\<close>
theorem undisturbed_report_is_filed:
  assumes seen: "seen = aw_before w s" "aw_between w seen = seen" and "desk_ok seen" and "map_of (ds_cases seen) (aw_newId w) = None"
    and i: "i = (case open_case (rd_targetType dto) (rd_targetId dto) seen of None \<Rightarrow> aw_newId w | Some j \<Rightarrow> j)"
  shows "if reporter \<in> rp_reporter ` set (reports_in i (ds_reports seen))
    then create_report hash now reporter dto snapshot (w # ws) s = (seen, Inl (Conflict (Desk Already_have_an_open_report)))
    else \<exists>s' r c. create_report hash now reporter dto snapshot (w # ws) s = (s', Inr r) \<and> ds_reports s' = ds_reports seen @ [r]
      \<and> rp_caseId r = i \<and> rp_reporter r = reporter \<and> rp_snapshot r = snapshot
      \<and> map_of (ds_cases s') i = Some c \<and> mc_status c \<in> open_statuses \<and> mc_targetType c = rd_targetType dto \<and> mc_targetId c = rd_targetId dto
      \<and> mc_reportCount c = int (length (reports_in i (ds_reports seen))) + 1 \<and> now \<le> mc_lastReportedAt c
      \<and> (\<exists>a \<in> set (ds_analyses s'). an_caseId a = i \<and> an_snapshotHash a = hash snapshot)
      \<and> (\<forall>j. j \<noteq> i \<longrightarrow> map_of (ds_cases s') j = map_of (ds_cases seen) j)"
proof -
  have rows: "case_rows (ds_cases seen)" "report_rows (ds_cases seen) (ds_reports seen)" using assms(3) by (simp_all add: desk_ok_def)
  from lock_effect [OF rows assms(4) i, of now snapshot] obtain t c where
    lock: "lock_open_case now (aw_newId w) (open_case (rd_targetType dto) (rd_targetId dto) seen) dto snapshot seen = Inr (t, Some i)"
    and c: "map_of (ds_cases t) i = Some c" "mc_reportCount c = int (length (reports_in i (ds_reports seen)))"
      "mc_status c \<in> open_statuses" "mc_targetType c = rd_targetType dto" "mc_targetId c = rd_targetId dto"
    and t: "\<And>j. j \<noteq> i \<Longrightarrow> map_of (ds_cases t) j = map_of (ds_cases seen) j" "ds_reports t = ds_reports seen" by blast
  have dup: "(\<exists>r \<in> set (ds_reports t). rp_caseId r = i \<and> rp_reporter r = reporter) \<longleftrightarrow> reporter \<in> rp_reporter ` set (reports_in i (ds_reports seen))"
    by (auto simp: t(2) reports_in_def)
  let ?r = "\<lparr>rp_id = length (ds_reports t), rp_caseId = i, rp_reporter = reporter,
           rp_targetType = rd_targetType dto, rp_targetId = rd_targetId dto, rp_reason = rd_reason dto,
           rp_details = normalize_text (rd_details dto), rp_snapshot = snapshot, rp_createdAt = now\<rparr>"
  let ?t = "set_cases (AList.map_entry i (count_report now)) (t\<lparr>ds_reports := ds_reports t @ [?r]\<rparr>)"
  obtain s' where s': "schedule_if_needed hash ?r ?t = Inr (s', ())" "ds_mod s' = ds_mod ?t" "ds_reports s' = ds_reports ?t"
    "\<exists>a \<in> set (ds_analyses s'). an_caseId a = rp_caseId ?r \<and> an_snapshotHash a = hash (rp_snapshot ?r)" by (rule schedule_effect)
  show ?thesis
  proof (cases "reporter \<in> rp_reporter ` set (reports_in i (ds_reports seen))")
    case True
    with dup show ?thesis using lock seen by (simp add: report_attempt_def tx_simps Let_def)
  next
    case False
    with dup have "create_report hash now reporter dto snapshot (w # ws) s = (s', Inr ?r)"
      using lock s'(1) seen by (simp add: report_attempt_def tx_simps Let_def)
    moreover have "ds_reports s' = ds_reports seen @ [?r]" using s'(3) t(2) by (simp add: set_cases_def)
    moreover have "map_of (ds_cases s') i = Some (count_report now c)" "\<forall>j. j \<noteq> i \<longrightarrow> map_of (ds_cases s') j = map_of (ds_cases seen) j"
      using s'(2) c(1) t(1) by (simp_all add: set_cases_def AList.map_of_map_entry)
    ultimately show ?thesis using False c s'(4) by (fastforce simp: count_report_def)
  qed
qed

text \<open>What others do meanwhile: any number of steps of the desk.\<close>

definition works_beside :: "bool \<Rightarrow> time \<Rightarrow> (desk \<Rightarrow> desk) \<Rightarrow> bool" where
  "works_beside fresh now f \<longleftrightarrow> (\<forall>s. desk_ok s \<longrightarrow> (timed_desk fresh)\<^sup>*\<^sup>* (now, s) (now, f s))"

lemma found_stays:
  assumes "(timed_desk fresh)\<^sup>*\<^sup>* (now, s) (now, u)" and "desk_ok s"
  shows "found_for k i (open_case k i s) u"
proof (cases "open_case k i s")
  case (Some j)
  have "case_rows (ds_cases s)" using assms(2) by (simp add: desk_ok_def)
  from open_case_found [OF this Some] obtain c where c: "map_of (ds_cases s) j = Some c" "mc_targetType c = k" "mc_targetId c = i" by blast
  have "desk_grown s u" using busy_desk.grows [OF assms(1)] assms(2) by simp
  from grown_case [OF this c(1)] obtain d where "map_of (ds_cases u) j = Some d" "case_kept c d" .
  with c show ?thesis using Some by (simp add: found_for_def case_kept_def)
qed (simp add: found_for_def)

lemma create_report_is_run:
  assumes "\<forall>w \<in> set ws. works_beside fresh now (aw_before w) \<and> works_beside fresh now (aw_between w)" and "desk_ok s"
  shows "(timed_desk fresh)\<^sup>*\<^sup>* (now, s) (now, fst (create_report hash now reporter dto snapshot ws s))"
  using assms
proof (induction ws arbitrary: s)
  case (Cons w ws)
  define seen where "seen = aw_before w s"
  define current where "current = aw_between w seen"
  have 1: "(timed_desk fresh)\<^sup>*\<^sup>* (now, s) (now, seen)" using Cons.prems unfolding seen_def by (simp add: works_beside_def)
  with Cons.prems(2) have ok: "desk_ok seen" using busy_desk.inv_steps [OF 1] by simp
  with Cons.prems(1) have 2: "(timed_desk fresh)\<^sup>*\<^sup>* (now, seen) (now, current)" unfolding current_def by (simp add: works_beside_def)
  then have okc: "desk_ok current" using busy_desk.inv_steps [OF 2] ok by simp
  note run = rtranclp_trans [OF 1 2]
  let ?attempt = "report_attempt hash now (aw_newId w) (open_case (rd_targetType dto) (rd_targetId dto) seen) reporter dto snapshot current"
  have step: "(timed_desk fresh)\<^sup>*\<^sup>* (now, s) (now, s')" and ok': "desk_ok s'" if a: "?attempt = Inr (s', r)" for s' r
  proof -
    have "desk_step fresh now current s'" by (rule desk_step.attempted [OF found_stays [OF 2 ok] a])
    then show "(timed_desk fresh)\<^sup>*\<^sup>* (now, s) (now, s')" using run by (meson order_refl rtranclp.rtrancl_into_rtrancl timed_desk.timed)
    show "desk_ok s'" using attempt_keeps_desk [OF a found_stays [OF 2 ok] okc] by simp
  qed
  have rest: "\<forall>w \<in> set ws. works_beside fresh now (aw_before w) \<and> works_beside fresh now (aw_between w)" using Cons.prems(1) by simp
  show ?case
  proof (cases ?attempt)
    case (Inl e)
    then show ?thesis using rtranclp_trans [OF run Cons.IH [OF rest okc]] run by (simp add: Let_def seen_def [symmetric] current_def [symmetric])
  next
    case (Inr b)
    obtain s' r where b: "b = (s', r)" by (cases b)
    show ?thesis
    proof (cases r)
      case None
      with Inr b show ?thesis using rtranclp_trans [OF step Cons.IH [OF rest ok']] by (simp add: Let_def seen_def [symmetric] current_def [symmetric])
    next
      case (Some q)
      with Inr b show ?thesis using step by (simp add: Let_def seen_def [symmetric] current_def [symmetric])
    qed
  qed
qed simp

definition just_filed :: "user_id \<Rightarrow> report_dto \<Rightarrow> report \<Rightarrow> desk \<Rightarrow> bool" where
  "just_filed reporter dto r u \<longleftrightarrow> ds_reports u \<noteq> [] \<and> last (ds_reports u) = r \<and> rp_reporter r = reporter
     \<and> rp_targetType r = rd_targetType dto \<and> rp_targetId r = rd_targetId dto"

lemma attempt_files:
  assumes "report_attempt hash now new found reporter dto snapshot v = Inr (u, Some r)"
  shows "just_filed reporter dto r u"
proof -
  have "schedule_if_needed hash q v = Inr (v', x) \<Longrightarrow> ds_reports v' = ds_reports v" for q v v' x
    by (auto simp: schedule_if_needed_def tx_bind_Inr tx_simps split: if_splits)
  with assms show ?thesis
    by (fastforce simp: just_filed_def report_attempt_def tx_bind_Inr tx_simps set_cases_def split: option.splits if_splits)
qed

lemma create_report_files: "create_report hash now reporter dto snapshot ws s = (u, Inr r) \<Longrightarrow> just_filed reporter dto r u"
  by (induction ws arbitrary: s) (auto simp: Let_def attempt_files split: sum.splits prod.splits option.splits if_splits)

text \<open>
  Filing a report is atomic to everyone else: whatever others do between its statements and its attempts, the
  request as a whole is a run of single steps of the desk, so its invariants hold throughout; when it
  succeeds, its report is the last one filed.
\<close>
theorem filing_is_a_run:
  assumes "\<forall>w \<in> set ws. works_beside fresh now (aw_before w) \<and> works_beside fresh now (aw_between w)"
    and "(timed_desk fresh)\<^sup>*\<^sup>* (t0, empty_desk st) (now, s)"
    and "file_report au hash now reporter dto ws (lm, s) = ((lm', s'), result)"
  shows "(timed_desk fresh)\<^sup>*\<^sup>* (t0, empty_desk st) (now, s') \<and> desk_ok s'
    \<and> (\<forall>r. result = Inr r \<longrightarrow> just_filed reporter dto r s')"
proof -
  have ok: "desk_ok s" by (rule reachable_desk_ok [OF assms(2)])
  have "s' = s \<and> result \<notin> range Inr \<or> (\<exists>t. create_report hash now reporter dto t ws s = (s', result))"
    using assms(3) by (auto simp: file_report_def Let_def map_prod_def split: prod.splits sum.splits if_splits)
  then show ?thesis
  proof (elim disjE exE)
    fix t assume run: "create_report hash now reporter dto t ws s = (s', result)"
    have "(timed_desk fresh)\<^sup>*\<^sup>* (now, s) (now, s')" using create_report_is_run [OF assms(1) ok, of hash reporter dto t] run by simp
    then have "(timed_desk fresh)\<^sup>*\<^sup>* (t0, empty_desk st) (now, s')" by (rule rtranclp_trans [OF assms(2)])
    with reachable_desk_ok [OF this] create_report_files run show ?thesis by auto
  qed (use assms(2) ok in auto)
qed

text \<open>Two first reports on one post at once: bob's lands between the statements of max's first attempt, whose insert the
  unique index refuses; the second attempt joins the case of bob.\<close>

definition bob_meanwhile :: "desk \<Rightarrow> desk" where
  "bob_meanwhile s = desk_ran s (report_attempt sample_hash 0 ''k'' (open_case Post_content ''p'' s) ''bob'' sample_dto sample_snapshot s)"

definition audience_of_all :: audience where
  "audience_of_all = \<lparr>au_visibility = (\<lambda>_. Public_post), au_follows = (\<lambda>_ _. False)\<rparr>"

definition sample_worlds :: "attempt_world list" where
  "sample_worlds = [\<lparr>aw_newId = ''l'', aw_before = id, aw_between = bob_meanwhile\<rparr>, \<lparr>aw_newId = ''m'', aw_before = id, aw_between = id\<rparr>]"

lemma bob_works_beside: "works_beside fresh 0 bob_meanwhile"
  unfolding works_beside_def
proof (intro allI impI)
  fix s assume "desk_ok s"
  then have found: "found_for (rd_targetType sample_dto) (rd_targetId sample_dto) (open_case Post_content ''p'' s) s"
    using found_stays [OF rtranclp.rtrancl_refl] by (simp add: sample_dto_def)
  show "(timed_desk fresh)\<^sup>*\<^sup>* (0, s) (0, bob_meanwhile s)"
    unfolding bob_meanwhile_def by (rule desk_ran_step [OF rtranclp.rtrancl_refl]) (rule desk_step.attempted [OF found])
qed

theorem filing_is_a_run_witness: "\<exists>lm s r. file_report audience_of_all sample_hash 0 ''max'' sample_dto sample_worlds (new_limiter, desk_open) = ((lm, s), Inr r)
    \<and> desk_ok s \<and> length (ds_reports s) = 2 \<and> length (ds_cases s) = 1 \<and> just_filed ''max'' sample_dto r s \<and> rp_caseId r = ''k''"
proof -
  let ?run = "file_report audience_of_all sample_hash 0 ''max'' sample_dto sample_worlds (new_limiter, desk_open)"
  obtain lm s r where run: "?run = ((lm, s), r)" by (metis prod.collapse)
  have "length (ds_reports (snd (fst ?run))) = 2 \<and> length (ds_cases (snd (fst ?run))) = 1 \<and> (case snd ?run of Inl _ \<Rightarrow> False | Inr q \<Rightarrow> rp_caseId q = ''k'')"
    by code_simp
  then obtain q where q: "r = Inr q" "rp_caseId q = ''k''" "length (ds_reports s) = 2" "length (ds_cases s) = 1"
    by (auto simp: run split: sum.splits)
  have "\<forall>w \<in> set sample_worlds. works_beside False 0 (aw_before w) \<and> works_beside False 0 (aw_between w)"
    using bob_works_beside by (auto simp: sample_worlds_def) (simp add: works_beside_def)+
  from filing_is_a_run [OF this any_desk_timing [OF posted_desk] run] q run show ?thesis by simp
qed

theorem undisturbed_report_is_filed_witness:
  "\<exists>s' r. create_report sample_hash 0 ''max'' sample_dto sample_snapshot [\<lparr>aw_newId = ''m'', aw_before = id, aw_between = id\<rparr>] desk_reported = (s', Inr r)
     \<and> rp_caseId r = ''k''"
proof -
  have ok: "desk_ok desk_reported" by (rule reachable_desk_ok [OF desk_reachable(1)])
  let ?w = "\<lparr>aw_newId = ''m'', aw_before = id, aw_between = id\<rparr>"
  have new: "map_of (ds_cases desk_reported) (aw_newId ?w) = None"
    and i: "''k'' = (case open_case (rd_targetType sample_dto) (rd_targetId sample_dto) desk_reported of None \<Rightarrow> aw_newId ?w | Some j \<Rightarrow> j)"
    and "''max'' \<notin> rp_reporter ` set (reports_in ''k'' (ds_reports desk_reported))" by code_simp+
  moreover have "desk_reported = aw_before ?w desk_reported" "aw_between ?w desk_reported = desk_reported" by simp_all
  ultimately show ?thesis
    using undisturbed_report_is_filed [OF _ _ ok new i, where ws = "[]"] by (metis (no_types, lifting))
qed

end
