(* ===== verification/Paging.thy ===== *)
theory Paging
  imports Prelude "HOL-Library.Char_ord" "HOL-Library.List_Lexorder" "HOL-Library.Product_Lexorder"
begin

text \<open>
  Pages over a key, each told by the last row of the one before, as the queues of the backend list their rows. What
  a page promises is the locale \<open>paging\<close>; from it follows what a client sees who asks for one page after another
  while the rows change.
\<close>

section \<open>A page\<close>

definition below :: "'k::linorder option \<Rightarrow> 'k \<Rightarrow> bool" where
  "below cursor k \<longleftrightarrow> (case cursor of None \<Rightarrow> True | Some c \<Rightarrow> k < c)"

definition newest_first :: "('r \<Rightarrow> 'k::linorder) \<Rightarrow> 'r list \<Rightarrow> 'r list" where
  "newest_first key rs = rev (sort_key key rs)"

text \<open>One row more than asked for is fetched, to know whether there is another page.\<close>

definition keyset_page :: "('r \<Rightarrow> 'k) \<Rightarrow> nat \<Rightarrow> 'r list \<Rightarrow> 'r list \<times> 'k option" where
  "keyset_page key limit rows =
     (let page = take limit rows
      in (page, if length rows > limit then (case page of [] \<Rightarrow> None | _ \<Rightarrow> Some (key (last page))) else None))"

section \<open>What a page promises\<close>

text \<open>A walk asks for one page after another, each of the queue as it is by then; it ends when no page is left.\<close>

fun walk :: "('k option \<Rightarrow> 's \<Rightarrow> 'r list \<times> 'k option) \<Rightarrow> 'k option \<Rightarrow> 's list \<Rightarrow> 'r list" where
  "walk page cursor [] = []"
| "walk page cursor (s # ss) = fst (page cursor s) @ (case snd (page cursor s) of None \<Rightarrow> [] | Some k \<Rightarrow> walk page (Some k) ss)"

fun walk_ends :: "('k option \<Rightarrow> 's \<Rightarrow> 'r list \<times> 'k option) \<Rightarrow> 'k option \<Rightarrow> 's list \<Rightarrow> bool" where
  "walk_ends page cursor [] \<longleftrightarrow> False"
| "walk_ends page cursor (s # ss) \<longleftrightarrow> (case snd (page cursor s) of None \<Rightarrow> True | Some k \<Rightarrow> walk_ends page (Some k) ss)"

lemma newest_first_falls:
  assumes "distinct (map key rs)"
  shows "sorted_wrt (\<lambda>a b. key b < key a) (newest_first key rs)"
proof -
  have "sorted (map key (sort_key key rs))" "distinct (map key (sort_key key rs))"
    using assms by (simp_all add: distinct_map)
  then have "sorted_wrt (<) (map key (sort_key key rs))" by (simp add: strict_sorted_iff)
  then show ?thesis by (simp add: newest_first_def sorted_wrt_rev sorted_wrt_map)
qed

lemma set_newest_first [simp]: "set (newest_first key rs) = set rs"
  by (simp add: newest_first_def)

lemma falling_distinct:
  fixes key :: "'r \<Rightarrow> 'k::linorder"
  shows "sorted_wrt (\<lambda>a b. key b < key a) xs \<Longrightarrow> distinct xs"
  by (induction xs) auto

lemma falling_lists_equal:
  fixes key :: "'r \<Rightarrow> 'k::linorder"
  assumes "sorted_wrt (\<lambda>a b. key b < key a) xs" and "sorted_wrt (\<lambda>a b. key b < key a) ys" and "set xs = set ys"
  shows "xs = ys"
  using assms
proof (induction xs arbitrary: ys)
  case (Cons x xs)
  then obtain y zs where ys: "ys = y # zs" by (cases ys) auto
  have "x = y"
  proof (rule ccontr)
    assume "x \<noteq> y"
    with Cons.prems ys have "y \<in> set xs" "x \<in> set zs" by auto
    with Cons.prems ys have "key y < key x" "key x < key y" by auto
    then show False by simp
  qed
  moreover have "x \<notin> set xs" "y \<notin> set zs" using Cons.prems ys by auto
  ultimately have "set xs = set zs" using Cons.prems(3) ys by auto
  with Cons ys \<open>x = y\<close> show ?case by simp
qed simp

locale paging =
  fixes page :: "'k::linorder option \<Rightarrow> 's \<Rightarrow> 'r list \<times> 'k option"
    and rows :: "'s \<Rightarrow> 'r list"
    and key :: "'r \<Rightarrow> 'k"
    and ok :: "'s \<Rightarrow> bool"
  assumes sound: "ok s \<Longrightarrow> r \<in> set (fst (page c s)) \<Longrightarrow> r \<in> set (rows s) \<and> below c (key r)"
    and falling: "ok s \<Longrightarrow> sorted_wrt (\<lambda>a b. key b < key a) (fst (page c s))"
    and cursor: "ok s \<Longrightarrow> snd (page c s) = Some k \<Longrightarrow> fst (page c s) \<noteq> [] \<and> k = key (last (fst (page c s)))"
    and complete: "ok s \<Longrightarrow> r \<in> set (rows s) \<Longrightarrow> below c (key r)
      \<Longrightarrow> r \<in> set (fst (page c s)) \<or> (\<exists>k. snd (page c s) = Some k \<and> key r < k)"
    and keys: "ok s \<Longrightarrow> distinct (map key (rows s))"
begin

lemma cursor_below: "ok s \<Longrightarrow> snd (page c s) = Some k \<Longrightarrow> below c k"
  using cursor [of s c k] sound [of s "last (fst (page c s))" c] by auto

lemma cursor_is_last: "ok s \<Longrightarrow> snd (page c s) = Some k \<Longrightarrow> r \<in> set (fst (page c s)) \<Longrightarrow> k \<le> key r"
proof -
  assume s: "ok s" "snd (page c s) = Some k" "r \<in> set (fst (page c s))"
  from cursor [OF s(1,2)] have k: "k = key (last (fst (page c s)))" and ne: "fst (page c s) \<noteq> []" by auto
  have fall: "sorted_wrt (\<lambda>a b. key b < key a) (butlast (fst (page c s)) @ [last (fst (page c s))])"
    using falling [OF s(1), of c] ne by simp
  have "r \<in> set (butlast (fst (page c s)) @ [last (fst (page c s))])" using s(3) ne by simp
  with fall k show ?thesis by (auto simp: sorted_wrt_append)
qed

lemma below_trans: "below (Some k) j \<Longrightarrow> below c k \<Longrightarrow> below c j"
  by (auto simp: below_def split: option.splits)

lemma walk_falls: "\<forall>s \<in> set ss. ok s \<Longrightarrow> sorted_wrt (\<lambda>a b. key b < key a) (walk page c ss) \<and> (\<forall>r \<in> set (walk page c ss). below c (key r))"
proof (induction ss arbitrary: c)
  case (Cons s ss)
  have s: "ok s" using Cons.prems by simp
  show ?case
  proof (cases "snd (page c s)")
    case None
    with s falling sound show ?thesis by simp
  next
    case (Some k)
    have rest: "sorted_wrt (\<lambda>a b. key b < key a) (walk page (Some k) ss)" "\<forall>r \<in> set (walk page (Some k) ss). below (Some k) (key r)"
      using Cons by simp_all
    have "key b < key a" if "a \<in> set (fst (page c s))" "b \<in> set (walk page (Some k) ss)" for a b
      using rest(2) that cursor_is_last [OF s Some] by (fastforce simp: below_def)
    moreover have "below c (key r)" if "r \<in> set (walk page (Some k) ss)" for r
      using rest(2) that below_trans [OF _ cursor_below [OF s Some]] by blast
    ultimately show ?thesis using rest(1) Some falling [OF s, of c] sound [OF s, of _ c] by (auto simp: sorted_wrt_append)
  qed
qed simp

lemma walk_finds: "\<forall>s \<in> set ss. ok s \<and> (\<exists>r \<in> set (rows s). key r = k) \<Longrightarrow> below c k \<Longrightarrow> walk_ends page c ss \<Longrightarrow> \<exists>r \<in> set (walk page c ss). key r = k"
proof (induction ss arbitrary: c)
  case (Cons s ss)
  then obtain r where r: "r \<in> set (rows s)" "key r = k" and s: "ok s" by auto
  show ?case
  proof (cases "r \<in> set (fst (page c s))")
    case False
    with complete [OF s r(1)] r(2) Cons.prems(2) obtain j where j: "snd (page c s) = Some j" "k < j" by auto
    moreover have "\<exists>r \<in> set (walk page (Some j) ss). key r = k"
      by (rule Cons.IH) (use Cons.prems j in \<open>auto simp: below_def\<close>)
    ultimately show ?thesis by auto
  qed (use r in auto)
qed simp

lemma walk_from: "\<forall>s \<in> set ss. ok s \<Longrightarrow> r \<in> set (walk page c ss) \<Longrightarrow> \<exists>s \<in> set ss. r \<in> set (rows s)"
  by (induction ss arbitrary: c) (auto dest: sound split: option.splits)

lemma walk_stops:
  assumes "ok s" and "card {r \<in> set (rows s). below c (key r)} < n"
  shows "walk_ends page c (replicate n s)"
  using assms(2)
proof (induction n arbitrary: c)
  case (Suc n)
  show ?case
  proof (cases "snd (page c s)")
    case (Some k)
    let ?l = "last (fst (page c s))"
    have l: "?l \<in> set (fst (page c s))" "k = key ?l" using cursor [OF assms(1) Some] by auto
    have "{r \<in> set (rows s). below (Some k) (key r)} \<subset> {r \<in> set (rows s). below c (key r)}"
      using sound [OF assms(1) l(1)] l(2) cursor_below [OF assms(1) Some] below_trans by (auto simp: below_def)
    then have "card {r \<in> set (rows s). below (Some k) (key r)} < card {r \<in> set (rows s). below c (key r)}"
      by (intro psubset_card_mono) auto
    with Suc Some show ?thesis by simp
  qed simp
qed simp

lemma walk_exact:
  assumes "ok s" and "pages = replicate (Suc (length (rows s))) s"
  shows "walk_ends page None pages \<and> walk page None pages = newest_first key (rows s)"
proof
  have "card {r \<in> set (rows s). below None (key r)} < Suc (length (rows s))"
    by (simp add: below_def card_length less_Suc_eq_le)
  from walk_stops [OF assms(1) this] show stops: "walk_ends page None pages" unfolding assms(2) .
  have all: "\<forall>u \<in> set pages. ok u" using assms by (simp add: in_set_replicate)
  have falls: "sorted_wrt (\<lambda>a b. key b < key a) (walk page None pages)" using walk_falls [OF all] by blast
  have sub: "set (walk page None pages) \<subseteq> set (rows s)" using walk_from [OF all] by (auto simp: assms(2) in_set_replicate)
  have "r \<in> set (walk page None pages)" if "r \<in> set (rows s)" for r
  proof -
    have "\<forall>u \<in> set pages. ok u \<and> (\<exists>v \<in> set (rows u). key v = key r)" using that assms by (auto simp: in_set_replicate)
    from walk_finds [OF this _ stops] obtain v where "v \<in> set (walk page None pages)" "key v = key r" by (auto simp: below_def)
    with sub keys [OF assms(1)] that show ?thesis by (metis distinct_map inj_onD subsetD)
  qed
  with sub have "set (walk page None pages) = set (newest_first key (rows s))" by auto
  with falling_lists_equal [OF falls newest_first_falls [OF keys [OF assms(1)]]]
  show "walk page None pages = newest_first key (rows s)" .
qed

end

section \<open>A page of the newest rows keeps it\<close>

lemma keyset_page_contract:
  fixes key :: "'r \<Rightarrow> 'k::linorder"
  assumes "distinct (map key rs)" and "0 < n" and "p = keyset_page key n (take (n + 1) (newest_first key rs))"
  shows "set (fst p) \<subseteq> set rs" and "sorted_wrt (\<lambda>a b. key b < key a) (fst p)"
    and "snd p = Some k \<Longrightarrow> fst p \<noteq> [] \<and> k = key (last (fst p))"
    and "r \<in> set rs \<Longrightarrow> r \<in> set (fst p) \<or> (\<exists>k. snd p = Some k \<and> key r < k)"
proof -
  let ?all = "newest_first key rs"
  have p: "p = (take n ?all, if n < length ?all then Some (key (last (take n ?all))) else None)"
    using assms(2,3) by (auto simp: keyset_page_def Let_def min_def split: list.splits)
  have fall: "sorted_wrt (\<lambda>a b. key b < key a) (take n ?all @ drop n ?all)" using newest_first_falls [OF assms(1)] by simp
  show "set (fst p) \<subseteq> set rs" using set_take_subset [of n ?all] by (simp add: p)
  show "sorted_wrt (\<lambda>a b. key b < key a) (fst p)" using fall by (simp add: p sorted_wrt_append del: append_take_drop_id)
  show "snd p = Some k \<Longrightarrow> fst p \<noteq> [] \<and> k = key (last (fst p))" using assms(2) by (auto simp: p split: if_splits)
  show "r \<in> set (fst p) \<or> (\<exists>k. snd p = Some k \<and> key r < k)" if "r \<in> set rs"
  proof (cases "r \<in> set (take n ?all)")
    case False
    have "r \<in> set (take n ?all @ drop n ?all)" using that by simp
    with False have d: "r \<in> set (drop n ?all)" by (simp del: append_take_drop_id)
    then have "n < length ?all" by (metis drop_all empty_iff empty_set not_less)
    moreover from this assms(2) have "last (take n ?all) \<in> set (take n ?all)" by (intro last_in_set) auto
    with fall d have "key r < key (last (take n ?all))" by (auto simp: sorted_wrt_append simp del: append_take_drop_id)
    ultimately show ?thesis by (simp add: p)
  qed (simp add: p)
qed

lemma distinct_keys_filter: "distinct (map key rs) \<Longrightarrow> distinct (map key (filter P rs))"
  by (auto simp: distinct_map intro: inj_on_subset)

end
