(* ===== verification/Case_Queue.thy ===== *)
theory Case_Queue
  imports Case_Properties Paging
begin

text \<open>
  The queue of cases and the evidence of a case (\<open>findModerationCases\<close>, \<open>findReportsByCaseId\<close> of
  \<open>reports.repository.ts\<close>): pages over a descending key, by the locale
  \<open>paging\<close>, and what a moderator sees who walks them while the queue changes. The counters of the dashboard are here as well.
\<close>

section \<open>The queue and the evidence\<close>

datatype case_view = All_cases | Assigned_cases | Unassigned_cases | Case_history

record case_query =
  cq_view :: "case_view option"
  cq_status :: "case_status option"
  cq_targetType :: "content_kind option"
  cq_limit :: nat

text \<open>\<open>game\<close> is \<open>None\<close> for every community, \<open>Some None\<close> for what belongs to none.\<close>

definition case_where :: "string option option \<Rightarrow> user_id \<Rightarrow> case_query \<Rightarrow> moderation_case \<Rightarrow> bool" where
  "case_where game me q c \<longleftrightarrow>
     (if (cq_view q \<noteq> None \<and> cq_view q \<noteq> Some All_cases) \<or> cq_status q = None
      then mc_status c \<in> (if cq_view q = Some Case_history then {Case_resolved, Case_dismissed} else {Case_open, Case_in_review})
        \<and> (if cq_view q = Some Assigned_cases then mc_assigned c = Some me
           else if cq_view q = Some Unassigned_cases then mc_assigned c = None else True)
      else True)
     \<and> (case game of None \<Rightarrow> True | Some g \<Rightarrow> mc_gameId c = g)
     \<and> (case cq_status q of None \<Rightarrow> True | Some st \<Rightarrow> mc_status c = st)
     \<and> (case cq_targetType q of None \<Rightarrow> True | Some k \<Rightarrow> mc_targetType c = k)"

definition case_key :: "string \<times> moderation_case \<Rightarrow> time \<times> string" where
  "case_key r = (mc_lastReportedAt (snd r), fst r)"

definition find_moderation_cases ::
    "string option option \<Rightarrow> user_id \<Rightarrow> case_query \<Rightarrow> (time \<times> string) option \<Rightarrow> desk
      \<Rightarrow> (string \<times> moderation_case) list \<times> (time \<times> string) option" where
  "find_moderation_cases game me q cursor s =
     keyset_page case_key (cq_limit q) (take (cq_limit q + 1) (newest_first case_key
       (filter (\<lambda>r. case_where game me q (snd r) \<and> below cursor (case_key r)) (ds_cases s))))"

definition report_key :: "report \<Rightarrow> time \<times> nat" where
  "report_key r = (rp_createdAt r, rp_id r)"

definition find_reports_by_case :: "string \<Rightarrow> nat \<Rightarrow> (time \<times> nat) option \<Rightarrow> desk \<Rightarrow> report list \<times> (time \<times> nat) option" where
  "find_reports_by_case i limit cursor s =
     keyset_page report_key limit (take (limit + 1) (newest_first report_key
       (filter (\<lambda>r. rp_caseId r = i \<and> below cursor (report_key r)) (ds_reports s))))"

text \<open>Listing: the guards, then a page. The platform may ask for one community, for none, or for all.\<close>

datatype platform_scope = All_scopes | Platform_scope | Game_scope

definition list_cases_for_platform ::
    "user_id \<Rightarrow> platform_scope option \<Rightarrow> string option \<Rightarrow> case_query \<Rightarrow> (time \<times> string) option \<Rightarrow> desk
      \<Rightarrow> ((string \<times> moderation_case) list \<times> (time \<times> string) option) result" where
  "list_cases_for_platform u asked slug q cursor s =
     (case authorize_platform (ds_staff s) u of
        Inl e \<Rightarrow> Inl e
      | Inr _ \<Rightarrow>
          let scope = (case asked of None \<Rightarrow> All_scopes | Some x \<Rightarrow> x)
          in if (if scope = Game_scope then (case slug of None \<Rightarrow> True | Some g \<Rightarrow> js_trim g = []) else slug \<noteq> None)
             then Inl (BadRequest (Desk Game_slug_only_for_game_scope))
             else (case scope of
                 All_scopes \<Rightarrow> Inr (find_moderation_cases None u q cursor s)
               | Platform_scope \<Rightarrow> Inr (find_moderation_cases (Some None) u q cursor s)
               | Game_scope \<Rightarrow> (case resolve_game_id (ds_staff s) (the slug) of
                     Inl e \<Rightarrow> Inl e
                   | Inr g \<Rightarrow> Inr (find_moderation_cases (Some (Some g)) u q cursor s))))"

definition list_cases_for_game ::
    "string \<Rightarrow> user_id \<Rightarrow> case_query \<Rightarrow> (time \<times> string) option \<Rightarrow> desk
      \<Rightarrow> ((string \<times> moderation_case) list \<times> (time \<times> string) option) result" where
  "list_cases_for_game slug u q cursor s =
     (case resolve_moderatable_game_id (ds_staff s) slug u of
        Inl e \<Rightarrow> Inl e
      | Inr g \<Rightarrow> Inr (find_moderation_cases (Some (Some g)) u q cursor s))"

section \<open>They keep what a page promises\<close>

definition queue_rows :: "string option option \<Rightarrow> user_id \<Rightarrow> case_query \<Rightarrow> desk \<Rightarrow> (string \<times> moderation_case) list" where
  "queue_rows game me q s = filter (\<lambda>r. case_where game me q (snd r)) (ds_cases s)"

definition evidence_rows :: "string \<Rightarrow> desk \<Rightarrow> report list" where
  "evidence_rows i s = reports_in i (ds_reports s)"

lemma case_keys: "desk_ok s \<Longrightarrow> distinct (map case_key (ds_cases s))"
  by (auto simp: desk_ok_def case_rows_def distinct_map inj_on_def case_key_def)

lemma report_keys: "desk_ok s \<Longrightarrow> distinct (map report_key (ds_reports s))"
  by (auto simp: desk_ok_def report_rows_def distinct_map inj_on_def report_key_def numbered_inj)

interpretation case_pages: paging "\<lambda>c s. find_moderation_cases game me q c s" "queue_rows game me q" case_key "\<lambda>s. desk_ok s \<and> 0 < cq_limit q"
proof
  fix s c r k
  assume "desk_ok s \<and> 0 < cq_limit q"
  then have ok: "distinct (map case_key (filter (\<lambda>r. case_where game me q (snd r) \<and> below c (case_key r)) (ds_cases s)))" "0 < cq_limit q"
    using case_keys distinct_keys_filter by blast+
  note page = keyset_page_contract [OF ok find_moderation_cases_def]
  show "r \<in> set (fst (find_moderation_cases game me q c s)) \<Longrightarrow> r \<in> set (queue_rows game me q s) \<and> below c (case_key r)"
    using page(1) by (auto simp: queue_rows_def)
  show "sorted_wrt (\<lambda>a b. case_key b < case_key a) (fst (find_moderation_cases game me q c s))" by (rule page(2))
  show "snd (find_moderation_cases game me q c s) = Some k \<Longrightarrow>
      fst (find_moderation_cases game me q c s) \<noteq> [] \<and> k = case_key (last (fst (find_moderation_cases game me q c s)))" by (rule page(3))
  show "r \<in> set (queue_rows game me q s) \<Longrightarrow> below c (case_key r) \<Longrightarrow> r \<in> set (fst (find_moderation_cases game me q c s))
      \<or> (\<exists>k. snd (find_moderation_cases game me q c s) = Some k \<and> case_key r < k)"
    by (rule page(4)) (simp add: queue_rows_def)
  show "distinct (map case_key (queue_rows game me q s))"
    using \<open>desk_ok s \<and> 0 < cq_limit q\<close> by (simp add: queue_rows_def case_keys distinct_keys_filter)
qed

interpretation evidence_pages: paging "\<lambda>c s. find_reports_by_case i limit c s" "evidence_rows i" report_key "\<lambda>s. desk_ok s \<and> 0 < limit"
proof
  fix s c r k
  assume "desk_ok s \<and> 0 < limit"
  then have ok: "distinct (map report_key (filter (\<lambda>r. rp_caseId r = i \<and> below c (report_key r)) (ds_reports s)))" "0 < limit"
    using report_keys distinct_keys_filter by blast+
  note page = keyset_page_contract [OF ok find_reports_by_case_def]
  show "r \<in> set (fst (find_reports_by_case i limit c s)) \<Longrightarrow> r \<in> set (evidence_rows i s) \<and> below c (report_key r)"
    using page(1) by (auto simp: evidence_rows_def reports_in_def)
  show "sorted_wrt (\<lambda>a b. report_key b < report_key a) (fst (find_reports_by_case i limit c s))" by (rule page(2))
  show "snd (find_reports_by_case i limit c s) = Some k \<Longrightarrow>
      fst (find_reports_by_case i limit c s) \<noteq> [] \<and> k = report_key (last (fst (find_reports_by_case i limit c s)))" by (rule page(3))
  show "r \<in> set (evidence_rows i s) \<Longrightarrow> below c (report_key r) \<Longrightarrow> r \<in> set (fst (find_reports_by_case i limit c s))
      \<or> (\<exists>k. snd (find_reports_by_case i limit c s) = Some k \<and> report_key r < k)"
    by (rule page(4)) (simp add: evidence_rows_def reports_in_def)
  show "distinct (map report_key (evidence_rows i s))"
    using \<open>desk_ok s \<and> 0 < limit\<close> by (simp add: evidence_rows_def reports_in_def report_keys distinct_keys_filter)
qed

section \<open>Walking through them\<close>

text \<open>
  C33. A moderator who asks for one page of the queue after another is done after as many pages as there are cases,
  at most, and one more, and has then seen every case of the view exactly once, the last reported first.
\<close>
theorem queue_lists_every_case_once:
  assumes "(timed_desk False)\<^sup>*\<^sup>* (t0, empty_desk st) (t, s)" and "0 < cq_limit q"
    and "pages = replicate (Suc (length (queue_rows game me q s))) s"
  shows "walk_ends (find_moderation_cases game me q) None pages
    \<and> walk (find_moderation_cases game me q) None pages = newest_first case_key (queue_rows game me q s)
    \<and> distinct (map fst (walk (find_moderation_cases game me q) None pages))"
proof -
  have ok: "desk_ok s \<and> 0 < cq_limit q" using reachable_desk_ok [OF assms(1)] assms(2) by simp
  then have "distinct (map fst (queue_rows game me q s))" by (simp add: queue_rows_def distinct_keys_filter desk_ok_def case_rows_def)
  then have "distinct (map fst (newest_first case_key (queue_rows game me q s)))" by (simp add: newest_first_def distinct_map)
  with case_pages.walk_exact [OF ok assms(3)] show ?thesis by simp
qed

definition every_case :: case_query where
  "every_case = \<lparr>cq_view = None, cq_status = None, cq_targetType = None, cq_limit = 1\<rparr>"

theorem queue_lists_every_case_once_witness: "map fst (walk (find_moderation_cases None ''meg'' every_case) None [desk_claimed, desk_claimed]) = [''k'']"
proof -
  have "0 < cq_limit every_case" "length (queue_rows None ''meg'' every_case desk_claimed) = 1"
    "map fst (newest_first case_key (queue_rows None ''meg'' every_case desk_claimed)) = [''k'']" by code_simp+
  with queue_lists_every_case_once [OF any_desk_timing [OF desk_reachable(3)], of every_case "[desk_claimed, desk_claimed]" None "''meg''"]
  show ?thesis by (simp add: numeral_2_eq_2)
qed

inductive later_and_later :: "time \<Rightarrow> desk list \<Rightarrow> bool" where
  one: "later_and_later t [s]"
| more: "(timed_desk False)\<^sup>*\<^sup>* (t, s) (t', s') \<Longrightarrow> later_and_later t' (s' # ss) \<Longrightarrow> later_and_later t (s # s' # ss)"

lemma later_later:
  assumes "later_and_later t ss" and "u \<in> set ss"
  shows "\<exists>t'. (timed_desk False)\<^sup>*\<^sup>* (t, hd ss) (t', u)"
  using assms
proof (induction rule: later_and_later.induct)
  case (more t s t' s' ss)
  then show ?case by (cases "u = s") (auto intro: rtranclp_trans)
qed auto

lemma page_of_distinct_cases:
  assumes "desk_ok s" and "0 < cq_limit q"
  shows "distinct (map fst (fst (find_moderation_cases game me q cursor s)))"
proof -
  have ok: "desk_ok s \<and> 0 < cq_limit q" using assms by simp
  have "distinct (fst (find_moderation_cases game me q cursor s))"
    by (rule falling_distinct [OF case_pages.falling [OF ok]])
  moreover have "set (fst (find_moderation_cases game me q cursor s)) \<subseteq> set (ds_cases s)"
  proof
    fix r assume "r \<in> set (fst (find_moderation_cases game me q cursor s))"
    from case_pages.sound [OF ok this] show "r \<in> set (ds_cases s)" by (simp add: queue_rows_def)
  qed
  moreover have "inj_on fst (set (ds_cases s))" using assms(1) by (simp add: desk_ok_def case_rows_def distinct_map)
  ultimately show ?thesis by (simp add: distinct_map inj_on_subset)
qed

lemma pages_never_repeat:
  assumes "later_and_later t ss" and "desk_ok (hd ss)" and "0 < cq_limit q"
  shows "distinct (map fst (walk (find_moderation_cases game me q) cursor ss))"
  using assms(1,2)
proof (induction arbitrary: cursor rule: later_and_later.induct)
  case (one t s)
  then show ?case using page_of_distinct_cases [OF _ assms(3)] by (simp split: option.split)
next
  case (more t s t' s' ss)
  let ?page = "find_moderation_cases game me q" and ?rest = "s' # ss"
  have ok: "desk_ok s \<and> 0 < cq_limit q" "desk_ok s'" using more.prems assms(3) busy_desk.inv_steps [OF more.hyps(1)] by simp_all
  have first: "distinct (map fst (fst (?page cursor s)))" by (rule page_of_distinct_cases) (use ok in simp_all)
  show ?case
  proof (cases "snd (?page cursor s)")
    case None
    with first show ?thesis by simp
  next
    case (Some k)
    have later: "\<exists>t'. (timed_desk False)\<^sup>*\<^sup>* (t, s) (t', u)" if "u \<in> set ?rest" for u
      using later_later [OF more.hyps(2) that] rtranclp_trans [OF more.hyps(1)] by fastforce
    have oks: "\<forall>u \<in> set ?rest. desk_ok u \<and> 0 < cq_limit q" using later busy_desk.inv_steps ok(1) by fastforce
    have "fst a \<noteq> fst b" if a: "a \<in> set (fst (?page cursor s))" and b: "b \<in> set (walk ?page (Some k) ?rest)" for a b
    proof
      assume same: "fst a = fst b"
      obtain u where u: "u \<in> set ?rest" "b \<in> set (queue_rows game me q u)" using case_pages.walk_from [OF oks b] by blast
      have rows: "distinct (map fst (ds_cases s))" "distinct (map fst (ds_cases u))"
        using ok(1) oks u(1) by (auto simp: desk_ok_def case_rows_def)
      have m: "map_of (ds_cases s) (fst a) = Some (snd a)" "map_of (ds_cases u) (fst b) = Some (snd b)"
        using case_pages.sound [OF ok(1) a] u(2) rows by (simp_all add: queue_rows_def)
      have "desk_grown s u" using later [OF u(1)] busy_desk.grows ok(1) by fastforce
      from grown_case [OF this m(1)] m(2) same have "mc_lastReportedAt (snd a) \<le> mc_lastReportedAt (snd b)"
        by (auto simp: case_kept_def)
      then have "case_key a \<le> case_key b" using same by (simp add: case_key_def less_eq_prod_def)
      moreover have "below (Some k) (case_key b)" using case_pages.walk_falls [OF oks] b by blast
      moreover have "k \<le> case_key a" by (rule case_pages.cursor_is_last [OF ok(1) Some a])
      ultimately show False by (simp add: below_def)
    qed
    moreover have "distinct (map fst (walk ?page (Some k) ?rest))" by (rule more.IH) (simp add: ok(2))
    ultimately show ?thesis using Some first by (auto simp del: walk.simps simp: walk.simps(2) [of _ _ s])
  qed
qed

text \<open>
  C34. The same walk while the desk goes on working: no case is shown twice, however many reports, claims and decisions
  fall between two pages, and a case that stays in the view, and is not reported again, is shown once the walk has ended.
\<close>

theorem queue_walk_beside_work:
  assumes "(timed_desk False)\<^sup>*\<^sup>* (t0, empty_desk st) (t, s)" and "later_and_later t (s # ss)" and "0 < cq_limit q"
  shows "distinct (map fst (walk (find_moderation_cases game me q) None (s # ss)))
    \<and> (walk_ends (find_moderation_cases game me q) None (s # ss) \<and> (\<forall>u \<in> set (s # ss). \<exists>r \<in> set (queue_rows game me q u). case_key r = k)
       \<longrightarrow> (\<exists>r \<in> set (walk (find_moderation_cases game me q) None (s # ss)). case_key r = k))"
proof -
  have ok: "desk_ok s" by (rule reachable_desk_ok [OF assms(1)])
  have "desk_ok u" if "u \<in> set (s # ss)" for u
    using later_later [OF assms(2) that] busy_desk.inv_steps ok by fastforce
  with assms(3) have "\<forall>u \<in> set (s # ss). desk_ok u \<and> 0 < cq_limit q" by simp
  then show ?thesis
    using pages_never_repeat [OF assms(2) _ assms(3)] ok case_pages.walk_finds [of "s # ss" q game me k None] by (auto simp: below_def)
qed

theorem queue_walk_beside_work_witness:
  "map fst (walk (find_moderation_cases (Some (Some ''g'')) ''meg'' every_case) None [desk_claimed, desk_closed]) = [''k'']
    \<and> distinct (map fst (walk (find_moderation_cases (Some (Some ''g'')) ''meg'' every_case) None [desk_claimed, desk_closed]))"
proof
  show "map fst (walk (find_moderation_cases (Some (Some ''g'')) ''meg'' every_case) None [desk_claimed, desk_closed]) = [''k'']" by code_simp
  have "later_and_later 0 [desk_claimed, desk_closed]"
    using any_desk_timing [OF desk_reachable(4)] by (intro later_and_later.more later_and_later.one)
  moreover have "0 < cq_limit every_case" by code_simp
  ultimately show "distinct (map fst (walk (find_moderation_cases (Some (Some ''g'')) ''meg'' every_case) None [desk_claimed, desk_closed]))"
    using queue_walk_beside_work [OF any_desk_timing [OF desk_reachable(3)]] by blast
qed

text \<open>The evidence of a case pages the same way.\<close>

theorem evidence_lists_every_report:
  assumes "(timed_desk False)\<^sup>*\<^sup>* (t0, empty_desk st) (t, s)" and "0 < limit"
    and "pages = replicate (Suc (length (reports_in i (ds_reports s)))) s"
  shows "walk_ends (find_reports_by_case i limit) None pages
    \<and> walk (find_reports_by_case i limit) None pages = newest_first report_key (reports_in i (ds_reports s))"
proof -
  have ok: "desk_ok s \<and> 0 < limit" using reachable_desk_ok [OF assms(1)] assms(2) by simp
  from evidence_pages.walk_exact [OF ok, of pages i] assms(3) show ?thesis by (simp add: evidence_rows_def)
qed

text \<open>A moderator of one community is shown cases of that community only.\<close>

theorem listing_is_scoped:
  assumes "list_cases_for_game slug u q cursor s = Inr (items, following)"
  shows "\<exists>g. map_of (st_games (ds_staff s)) slug = Some g \<and> case_moderator (ds_staff s) (Some g) u
    \<and> (\<forall>(i, c) \<in> set items. mc_gameId c = Some g)"
proof -
  obtain g where g: "resolve_moderatable_game_id (ds_staff s) slug u = Inr g" "find_moderation_cases (Some (Some g)) u q cursor s = (items, following)"
    using assms by (auto simp: list_cases_for_game_def split: sum.splits)
  have "set items \<subseteq> set (filter (\<lambda>r. case_where (Some (Some g)) u q (snd r) \<and> below cursor (case_key r)) (ds_cases s))"
    using g(2) unfolding find_moderation_cases_def keyset_page_def Let_def by (auto dest: in_set_takeD)
  moreover have "map_of (st_games (ds_staff s)) slug = Some g \<and> case_moderator (ds_staff s) (Some g) u"
    using g(1) by (auto simp: resolve_moderatable_game_id_def resolve_game_id_def assert_can_moderate_game_def load_active_user_def
        require_def case_moderator_def split: option.splits sum.splits if_splits)
  ultimately show ?thesis by (fastforce simp: case_where_def)
qed

section \<open>The counters of the dashboard\<close>

definition open_cases :: "desk \<Rightarrow> (string \<times> moderation_case) list" where
  "open_cases s = filter (\<lambda>(_, c). mc_status c \<in> open_statuses) (ds_cases s)"

definition open_reports :: "desk \<Rightarrow> report list" where
  "open_reports s = filter (\<lambda>r. rp_caseId r \<in> fst ` set (open_cases s)) (ds_reports s)"

definition count_open :: "desk \<Rightarrow> nat" where
  "count_open s = length (open_reports s)"

definition count_active_cases :: "desk \<Rightarrow> nat \<times> nat" where
  "count_active_cases s = (length (open_cases s), length (filter (\<lambda>(_, c). mc_assigned c = None) (open_cases s)))"

text \<open>The order of the groups is not specified; here, that of their first reports.\<close>

definition report_target :: "report \<Rightarrow> content_kind \<times> string" where
  "report_target r = (rp_targetType r, rp_targetId r)"

definition count_all_by_target :: "desk \<Rightarrow> ((content_kind \<times> string) \<times> nat) list" where
  "count_all_by_target s = map (\<lambda>k. (k, length (filter (\<lambda>r. report_target r = k) (open_reports s)))) (remdups (map report_target (open_reports s)))"

definition count_open_by_game_ids :: "string list \<Rightarrow> desk \<Rightarrow> (string \<times> nat) list" where
  "count_open_by_game_ids games s =
     (if games = [] then []
      else foldl (\<lambda>counts (i, c). let n = length (reports_in i (ds_reports s)) in
             case mc_gameId c of
               None \<Rightarrow> counts
             | Some g \<Rightarrow> if n > 0 then AList.update g ((case map_of counts g of None \<Rightarrow> 0 | Some m \<Rightarrow> m) + n) counts else counts)
           [] (filter (\<lambda>(_, c). mc_gameId c \<in> Some ` set games) (open_cases s)))"

lemma open_cases_distinct: "case_rows (ds_cases s) \<Longrightarrow> distinct (map fst (open_cases s))"
  unfolding open_cases_def by (rule distinct_keys_filter) (simp add: case_rows_def)

lemma reports_by_case:
  assumes "distinct (map fst cs)"
  shows "length (filter (\<lambda>r. rp_caseId r \<in> fst ` set cs) rs) = (\<Sum>(i, c) \<leftarrow> cs. length (reports_in i rs))"
  using assms
proof (induction cs)
  case (Cons p cs)
  obtain i c where p: "p = (i, c)" by (cases p)
  have "length (filter (\<lambda>r. rp_caseId r = i \<or> rp_caseId r \<in> fst ` set cs) rs) = length (reports_in i rs) + length (filter (\<lambda>r. rp_caseId r \<in> fst ` set cs) rs)"
    using Cons.prems unfolding p reports_in_def by (induction rs) auto
  with Cons p show ?case by simp
qed simp

lemma grouped_total: "(\<Sum>k \<leftarrow> remdups (map f xs). length (filter (\<lambda>x. f x = k) xs)) = length xs"
proof -
  have "length (filter (\<lambda>x. f x = k) xs) = count_list (map f xs) k" for k by (induction xs) auto
  moreover have "(\<Sum>k \<leftarrow> remdups (map f xs). count_list (map f xs) k) = length (map f xs)"
    by (subst sum_list_distinct_conv_sum_set) (simp_all add: sum_count_set)
  ultimately show ?thesis by simp
qed

text \<open>What the accumulating map holds for a community.\<close>

lemma accumulated_count:
  fixes n :: "'c \<Rightarrow> nat"
  shows "(case map_of (foldl (\<lambda>counts c. case g c of None \<Rightarrow> counts | Some k \<Rightarrow>
        if n c > 0 then AList.update k ((case map_of counts k of None \<Rightarrow> 0 | Some m \<Rightarrow> m) + n c) counts else counts) acc cs) k of None \<Rightarrow> 0 | Some m \<Rightarrow> m)
    = (case map_of acc k of None \<Rightarrow> 0 | Some m \<Rightarrow> m) + (\<Sum>c \<leftarrow> filter (\<lambda>c. g c = Some k) cs. n c)"
  by (induction cs arbitrary: acc) (auto simp: update_conv' split: option.splits)

lemma count_by_game:
  "(case map_of (count_open_by_game_ids games s) k of None \<Rightarrow> 0 | Some m \<Rightarrow> m)
    = (if k \<in> set games then \<Sum>(i, c) \<leftarrow> filter (\<lambda>(_, c). mc_gameId c = Some k) (open_cases s). length (reports_in i (ds_reports s)) else 0)"
proof (cases "games = []")
  case False
  have body: "(\<lambda>counts (i, c). let n = length (reports_in i (ds_reports s)) in case mc_gameId c of None \<Rightarrow> counts
      | Some g \<Rightarrow> if n > 0 then AList.update g ((case map_of counts g of None \<Rightarrow> 0 | Some m \<Rightarrow> m) + n) counts else counts)
    = (\<lambda>counts c. case mc_gameId (snd c) of None \<Rightarrow> counts | Some k \<Rightarrow> if length (reports_in (fst c) (ds_reports s)) > 0
        then AList.update k ((case map_of counts k of None \<Rightarrow> 0 | Some m \<Rightarrow> m) + length (reports_in (fst c) (ds_reports s))) counts else counts)"
    by (auto simp: fun_eq_iff Let_def split: option.split)
  have "filter (\<lambda>c. mc_gameId (snd c) = Some k) (filter (\<lambda>(_, c). mc_gameId c \<in> Some ` set games) (open_cases s))
    = (if k \<in> set games then filter (\<lambda>(_, c). mc_gameId c = Some k) (open_cases s) else [])"
    by (auto simp: filter_empty_conv split_beta intro!: filter_cong)
  then show ?thesis using False
    by (auto simp: count_open_by_game_ids_def body accumulated_count split_beta intro: arg_cong [where f = sum_list])
qed (simp add: count_open_by_game_ids_def)

text \<open>
  C35. The numbers of the dashboard agree with the cases: the open reports are the sum of the counters of the open
  cases and of the counts by content; content has a count exactly when a case of it is open, and it is the counter of
  that case; the unassigned cases are those nobody reviews.
\<close>
theorem dashboard_counts_agree:
  assumes "(timed_desk False)\<^sup>*\<^sup>* (t0, empty_desk st) (t, s)"
  shows "int (count_open s) = (\<Sum>(i, c) \<leftarrow> open_cases s. mc_reportCount c)
    \<and> (\<Sum>(k, n) \<leftarrow> count_all_by_target s. n) = count_open s
    \<and> (\<forall>i c. (i, c) \<in> set (open_cases s) \<longrightarrow> 0 < mc_reportCount c \<longrightarrow>
         map_of (count_all_by_target s) (mc_targetType c, mc_targetId c) = Some (nat (mc_reportCount c)))
    \<and> (\<forall>g games. g \<in> set games \<longrightarrow> int (case map_of (count_open_by_game_ids games s) g of None \<Rightarrow> 0 | Some n \<Rightarrow> n)
         = (\<Sum>(i, c) \<leftarrow> filter (\<lambda>(_, c). mc_gameId c = Some g) (open_cases s). mc_reportCount c))
    \<and> count_active_cases s = (length (open_cases s), length (filter (\<lambda>(_, c). mc_status c = Case_open) (ds_cases s)))"
proof (intro conjI allI impI)
  have ok: "case_rows (ds_cases s)" and rows: "report_rows (ds_cases s) (ds_reports s)"
    using reachable_desk_ok [OF assms] by (simp_all add: desk_ok_def)
  have found: "map_of (ds_cases s) i = Some c" "mc_status c \<in> open_statuses" if "(i, c) \<in> set (open_cases s)" for i c
    using that ok by (auto simp: open_cases_def case_rows_def)
  have counter: "mc_reportCount c = int (length (reports_in i (ds_reports s)))" if "(i, c) \<in> set (open_cases s)" for i c
    using rows found(1) [OF that] unfolding report_rows_def by blast
  have sums: "int (\<Sum>(i, c) \<leftarrow> cs. length (reports_in i (ds_reports s))) = (\<Sum>(i, c) \<leftarrow> cs. mc_reportCount c)"
    if "set cs \<subseteq> set (open_cases s)" for cs
    using that by (induction cs) (auto simp: counter)
  show "int (case map_of (count_open_by_game_ids games s) g of None \<Rightarrow> 0 | Some n \<Rightarrow> n)
      = (\<Sum>(i, c) \<leftarrow> filter (\<lambda>(_, c). mc_gameId c = Some g) (open_cases s). mc_reportCount c)" if "g \<in> set games" for g games
    using that by (simp add: count_by_game) (rule sums, auto)
  from sums reports_by_case [OF open_cases_distinct [OF ok]]
  show "int (count_open s) = (\<Sum>(i, c) \<leftarrow> open_cases s. mc_reportCount c)"
    by (simp add: count_open_def open_reports_def)
  show "(\<Sum>(k, n) \<leftarrow> count_all_by_target s. n) = count_open s"
    using grouped_total [of report_target "open_reports s"] by (simp add: count_all_by_target_def count_open_def comp_def)
  show "count_active_cases s = (length (open_cases s), length (filter (\<lambda>(_, c). mc_status c = Case_open) (ds_cases s)))"
  proof -
    have "case_ok c" if "(i, c) \<in> set (ds_cases s)" for i c using ok that by (auto simp: case_rows_def)
    then have "filter (\<lambda>(_, c). mc_assigned c = None) (open_cases s) = filter (\<lambda>(_, c). mc_status c = Case_open) (ds_cases s)"
      unfolding open_cases_def filter_filter by (intro filter_cong) (fastforce simp: case_ok_def open_statuses_def)+
    then show ?thesis by (simp add: count_active_cases_def)
  qed
  fix i c assume c: "(i, c) \<in> set (open_cases s)" and pos: "0 < mc_reportCount c"
  let ?k = "(mc_targetType c, mc_targetId c)"
  have "rp_caseId r \<in> fst ` set (open_cases s) \<and> report_target r = ?k \<longleftrightarrow> rp_caseId r = i" if r: "r \<in> set (ds_reports s)" for r
  proof -
    obtain d where d: "map_of (ds_cases s) (rp_caseId r) = Some d" "mc_targetType d = rp_targetType r" "mc_targetId d = rp_targetId r"
      using rows r unfolding report_rows_def by blast
    show ?thesis
    proof
      assume "rp_caseId r = i"
      with c d found(1) [OF c] show "rp_caseId r \<in> fst ` set (open_cases s) \<and> report_target r = ?k" by (force simp: report_target_def)
    next
      assume a: "rp_caseId r \<in> fst ` set (open_cases s) \<and> report_target r = ?k"
      then have "mc_status d \<in> open_statuses" using found d(1) by force
      moreover have "mc_targetType d = mc_targetType c" "mc_targetId d = mc_targetId c" using a d(2,3) by (simp_all add: report_target_def)
      ultimately show "rp_caseId r = i" using ok d(1) found [OF c] unfolding case_rows_def by blast
    qed
  qed
  then have same: "filter (\<lambda>r. report_target r = ?k) (open_reports s) = reports_in i (ds_reports s)"
    unfolding open_reports_def reports_in_def filter_filter by (intro filter_cong) auto
  have "reports_in i (ds_reports s) \<noteq> []" using counter [OF c] pos by auto
  then have "?k \<in> report_target ` set (open_reports s)" unfolding same [symmetric] by (force simp: filter_empty_conv image_iff)
  moreover have "map_of (map (\<lambda>k. (k, f k)) ks) k = (if k \<in> set ks then Some (f k) else None)" for f :: "content_kind \<times> string \<Rightarrow> nat" and ks k
    by (induction ks) auto
  ultimately show "map_of (count_all_by_target s) ?k = Some (nat (mc_reportCount c))"
    using counter [OF c] by (simp add: count_all_by_target_def same)
qed

theorem dashboard_counts_agree_witness: "count_open desk_claimed = 2 \<and> (\<Sum>(k, n) \<leftarrow> count_all_by_target desk_claimed. n) = 2
    \<and> count_open_by_game_ids [''g''] desk_claimed = [(''g'', 2)]"
proof -
  have "count_open desk_claimed = 2" "count_open_by_game_ids [''g''] desk_claimed = [(''g'', 2)]" by code_simp+
  with dashboard_counts_agree [OF any_desk_timing [OF desk_reachable(3)]] show ?thesis by simp
qed

end
