(* ===== verification/Backup.thy ===== *)
theory Backup
  imports Limiter_Properties Transactions Membership_Machine Base64 Paging
begin

text \<open>
  The backup of chat history (\<open>chat-backup\<close>): a key row per user, which holds a secret that proves possession of
  the key, a challenge to prove it over, and when the backup is to be deleted; and the encrypted messages, under a
  quota. The HMAC is an argument: of a secret and the strings of the JSON array it signs. Who is in which
  conversation, and which conversation a message belongs to, are arguments too.
\<close>

section \<open>Rows\<close>

record backup_key =
  bk_keyCheck :: bytes
  bk_createdAt :: time
  bk_secret :: "bytes option"
  bk_nonce :: "bytes option"
  bk_nonceExpires :: "time option"
  bk_deletionAt :: "time option"

record backup_blob =
  bb_id :: nat
  bb_user :: user_id
  bb_conversation :: conversation_id
  bb_message :: string
  bb_ciphertext :: bytes
  bb_size :: nat
  bb_createdAt :: time

record backups =
  bs_keys :: "(user_id \<times> backup_key) list"
  bs_blobs :: "backup_blob list"
  bs_nextId :: nat

type_synonym 'a backup_tx = "(backups, 'a) tx"

definition max_blob_bytes :: nat where "max_blob_bytes = 64 * 1024"
definition user_quota_bytes :: nat where "user_quota_bytes = 100 * 1024 * 1024"
definition min_key_check_bytes :: nat where "min_key_check_bytes = 16"
definition max_key_check_bytes :: nat where "max_key_check_bytes = 256"
definition min_secret_bytes :: nat where "min_secret_bytes = 16"
definition max_secret_bytes :: nat where "max_secret_bytes = 64"
definition challenge_ttl :: time where "challenge_ttl = 5 * 60000"
definition deletion_delay :: time where "deletion_delay = 7 * 24 * 60 * 60 * 1000"
definition max_deletions_per_run :: nat where "max_deletions_per_run = 500"
definition default_page_size :: nat where "default_page_size = 100"

definition find_backup_key :: "user_id \<Rightarrow> backups \<Rightarrow> backup_key option" where
  "find_backup_key u s = map_of (bs_keys s) u"

definition change_key :: "user_id \<Rightarrow> (backup_key \<Rightarrow> backup_key) \<Rightarrow> backups \<Rightarrow> backups" where
  "change_key u f s = s\<lparr>bs_keys := AList.map_entry u f (bs_keys s)\<rparr>"

definition delete_blobs :: "user_id \<Rightarrow> backups \<Rightarrow> backups" where
  "delete_blobs u s = s\<lparr>bs_blobs := filter (\<lambda>b. bb_user b \<noteq> u) (bs_blobs s)\<rparr>"

definition delete_key :: "user_id \<Rightarrow> backups \<Rightarrow> backups" where
  "delete_key u s = s\<lparr>bs_keys := AList.delete u (bs_keys s)\<rparr>"

section \<open>The repository\<close>

definition create_key :: "time \<Rightarrow> user_id \<Rightarrow> bytes \<Rightarrow> bytes \<Rightarrow> bool backup_tx" where
  "create_key now u key_check secret =
     tx_bind (tx_gets (find_backup_key u)) (\<lambda>found.
     if found \<noteq> None then tx_return False
     else
     tx_bind (tx_modify (\<lambda>s. s\<lparr>bs_keys := bs_keys s @ [(u, \<lparr>bk_keyCheck = key_check, bk_createdAt = now, bk_secret = Some secret,
       bk_nonce = None, bk_nonceExpires = None, bk_deletionAt = None\<rparr>)]\<rparr>)) (\<lambda>_.
     tx_return True))"

definition issue_challenge_row :: "user_id \<Rightarrow> bytes \<Rightarrow> time \<Rightarrow> bool backup_tx" where
  "issue_challenge_row u nonce expires =
     tx_bind (tx_gets (find_backup_key u)) (\<lambda>found.
     tx_bind (tx_modify (change_key u (\<lambda>k. k\<lparr>bk_nonce := Some nonce, bk_nonceExpires := Some expires\<rparr>))) (\<lambda>_.
     tx_return (found \<noteq> None)))"

definition live_challenge :: "bytes \<Rightarrow> time \<Rightarrow> backup_key \<Rightarrow> bool" where
  "live_challenge nonce now k \<longleftrightarrow> bk_nonce k = Some nonce \<and> (case bk_nonceExpires k of None \<Rightarrow> False | Some t \<Rightarrow> t > now)"

definition consume_challenge :: "user_id \<Rightarrow> bytes \<Rightarrow> time \<Rightarrow> bool backup_tx" where
  "consume_challenge u nonce now =
     tx_bind (tx_gets (find_backup_key u)) (\<lambda>found.
     if (case found of None \<Rightarrow> False | Some k \<Rightarrow> live_challenge nonce now k)
     then tx_bind (tx_modify (change_key u (\<lambda>k. k\<lparr>bk_nonce := None, bk_nonceExpires := None\<rparr>))) (\<lambda>_. tx_return True)
     else tx_return False)"

definition delete_all :: "user_id \<Rightarrow> time option \<Rightarrow> bool backup_tx" where
  "delete_all u due_before =
     tx_bind (tx_gets (find_backup_key u)) (\<lambda>found.
     if (case due_before of None \<Rightarrow> False | Some limit \<Rightarrow>
           \<not> (case found of None \<Rightarrow> False | Some k \<Rightarrow> (case bk_deletionAt k of None \<Rightarrow> False | Some t \<Rightarrow> t \<le> limit)))
     then tx_return False
     else
     tx_bind (tx_modify (delete_blobs u)) (\<lambda>_.
     tx_bind (tx_modify (delete_key u)) (\<lambda>_.
     tx_return True)))"

datatype proof_action = Replace_key | Delete_backup | Cancel_delete

definition backup_proof_domain :: "proof_action \<Rightarrow> string" where
  "backup_proof_domain a = (case a of Replace_key \<Rightarrow> ''gachahub-backup-replace-v1'' | Delete_backup \<Rightarrow> ''gachahub-backup-delete-v1''
     | Cancel_delete \<Rightarrow> ''gachahub-backup-cancel-delete-v1'')"

type_synonym hmac = "bytes \<Rightarrow> string list \<Rightarrow> bytes"

text \<open>\<open>bound\<close>: the new key check and secret, as they were sent.\<close>

definition compute_backup_proof :: "hmac \<Rightarrow> bytes \<Rightarrow> proof_action \<Rightarrow> user_id \<Rightarrow> string \<Rightarrow> (string \<times> string) option \<Rightarrow> bytes" where
  "compute_backup_proof hmac secret action u nonce bound =
     hmac secret [backup_proof_domain action, u, nonce, (case bound of None \<Rightarrow> [] | Some b \<Rightarrow> fst b), (case bound of None \<Rightarrow> [] | Some b \<Rightarrow> snd b)]"

definition proof_matches :: "bytes \<Rightarrow> bytes \<Rightarrow> bool" where
  "proof_matches expected given \<longleftrightarrow> length expected = length given \<and> expected = given"

definition verify_proof_and_mutate ::
    "hmac \<Rightarrow> user_id \<Rightarrow> proof_action \<Rightarrow> string \<Rightarrow> string \<Rightarrow> (string \<times> string) option \<Rightarrow> time \<Rightarrow> unit backup_tx \<Rightarrow> unit backup_tx" where
  "verify_proof_and_mutate hmac u action nonce given bound now mutate =
     tx_bind (tx_gets (find_backup_key u)) (\<lambda>current.
     case (case current of None \<Rightarrow> None | Some k \<Rightarrow> bk_secret k) of
       None \<Rightarrow> tx_fail (Forbidden (Backup No_proof_secret))
     | Some secret \<Rightarrow>
         tx_bind (consume_challenge u (base64_decode nonce) now) (\<lambda>consumed.
         tx_bind (tx_require consumed (Forbidden (Backup Challenge_missing_used_or_expired))) (\<lambda>_.
         tx_bind (tx_require (proof_matches (compute_backup_proof hmac secret action u nonce bound) (base64_decode given))
           (Forbidden (Backup Proof_does_not_match))) (\<lambda>_.
         mutate))))"

definition schedule_deletion :: "user_id \<Rightarrow> time \<Rightarrow> unit backup_tx" where
  "schedule_deletion u at = tx_modify (change_key u (\<lambda>k. if bk_deletionAt k = None then k\<lparr>bk_deletionAt := Some at\<rparr> else k))"

definition cancel_deletion_row :: "user_id \<Rightarrow> backups \<Rightarrow> backups" where
  "cancel_deletion_row u = change_key u (\<lambda>k. k\<lparr>bk_deletionAt := None\<rparr>)"

text \<open>Which of the due rows come first is not specified; here, in the order of their insertion.\<close>

definition find_due_deletions :: "time \<Rightarrow> nat \<Rightarrow> backups \<Rightarrow> user_id list" where
  "find_due_deletions now n s =
     take n (map fst (filter (\<lambda>(_, k). case bk_deletionAt k of None \<Rightarrow> False | Some t \<Rightarrow> t \<le> now) (bs_keys s)))"

record new_blob =
  nb_conversation :: conversation_id
  nb_message :: string
  nb_ciphertext :: bytes

datatype store_result = Stored nat | No_key | Over_quota

definition has_blob :: "user_id \<Rightarrow> string \<Rightarrow> backups \<Rightarrow> bool" where
  "has_blob u m s \<longleftrightarrow> (\<exists>b \<in> set (bs_blobs s). bb_user b = u \<and> bb_message b = m)"

definition bytes_used :: "user_id \<Rightarrow> backups \<Rightarrow> nat" where
  "bytes_used u s = sum_list (map bb_size (filter (\<lambda>b. bb_user b = u) (bs_blobs s)))"

text \<open>\<open>createMany\<close> with \<open>skipDuplicates\<close>: the unique key is the user and the message.\<close>

definition insert_blob :: "time \<Rightarrow> user_id \<Rightarrow> new_blob \<Rightarrow> backups \<Rightarrow> backups" where
  "insert_blob now u b s =
     (if has_blob u (nb_message b) s then s
      else s\<lparr>bs_blobs := bs_blobs s @ [\<lparr>bb_id = bs_nextId s, bb_user = u, bb_conversation = nb_conversation b,
        bb_message = nb_message b, bb_ciphertext = nb_ciphertext b, bb_size = length (nb_ciphertext b), bb_createdAt = now\<rparr>],
        bs_nextId := bs_nextId s + 1\<rparr>)"

definition store_within_quota :: "time \<Rightarrow> user_id \<Rightarrow> new_blob list \<Rightarrow> nat \<Rightarrow> store_result backup_tx" where
  "store_within_quota now u blobs quota =
     tx_bind (tx_gets (find_backup_key u)) (\<lambda>found.
     if found = None then tx_return No_key
     else
     tx_bind (tx_gets (\<lambda>s. filter (\<lambda>b. \<not> has_blob u (nb_message b) s) blobs)) (\<lambda>fresh.
     let incoming = sum_list (map (\<lambda>b. length (nb_ciphertext b)) fresh) in
     if incoming = 0 then tx_return (Stored 0)
     else
     tx_bind (tx_gets (bytes_used u)) (\<lambda>total.
     if total + incoming > quota then tx_return Over_quota
     else
     tx_bind (tx_gets (\<lambda>s. length (bs_blobs s))) (\<lambda>n.
     tx_bind (tx_modify (fold (insert_blob now u) fresh)) (\<lambda>_.
     tx_bind (tx_gets (\<lambda>s. length (bs_blobs s))) (\<lambda>m.
     tx_return (Stored (m - n))))))))"

definition backup_usage :: "user_id \<Rightarrow> backups \<Rightarrow> nat \<times> nat" where
  "backup_usage u s = (length (filter (\<lambda>b. bb_user b = u) (bs_blobs s)), bytes_used u s)"

section \<open>The service\<close>

definition decode_bounded :: "string \<Rightarrow> nat \<Rightarrow> nat \<Rightarrow> bytes result" where
  "decode_bounded text64 lo hi =
     (let bytes = base64_decode text64
      in if length bytes < lo \<or> length bytes > hi then Inl (BadRequest (Backup Invalid_size)) else Inr bytes)"

record backup_proof_dto =
  bp_nonce :: "string option"
  bp_proof :: "string option"

record put_backup_key_dto = backup_proof_dto +
  pk_keyCheck :: string
  pk_replaceSecret :: string
  pk_replace :: "bool option"

text \<open>A string that is given and not empty.\<close>

definition given :: "string option \<Rightarrow> bool" where
  "given t \<longleftrightarrow> t \<noteq> None \<and> t \<noteq> Some []"

text \<open>\<open>seen\<close>: the row of the user as the request first read it.\<close>

definition put_key :: "hmac \<Rightarrow> backup_key option \<Rightarrow> time \<Rightarrow> user_id \<Rightarrow> put_backup_key_dto \<Rightarrow> unit backup_tx" where
  "put_key hmac seen now u dto =
     tx_bind (tx_result (decode_bounded (pk_keyCheck dto) min_key_check_bytes max_key_check_bytes)) (\<lambda>key_check.
     tx_bind (tx_result (decode_bounded (pk_replaceSecret dto) min_secret_bytes max_secret_bytes)) (\<lambda>secret.
     if seen = None
     then tx_bind (create_key now u key_check secret) (\<lambda>created. tx_require created (Conflict (Backup Backup_already_turned_on)))
     else
     tx_bind (tx_require (pk_replace dto = Some True) (Conflict (Backup Replacing_deletes_every_blob))) (\<lambda>_.
     tx_bind (tx_require (given (bp_nonce dto) \<and> given (bp_proof dto)) (Forbidden (Backup Needs_nonce_and_proof))) (\<lambda>_.
     verify_proof_and_mutate hmac u Replace_key (the (bp_nonce dto)) (the (bp_proof dto)) (Some (pk_keyCheck dto, pk_replaceSecret dto)) now
       (tx_bind (tx_modify (delete_blobs u)) (\<lambda>_.
        tx_modify (change_key u (\<lambda>k. \<lparr>bk_keyCheck = key_check, bk_createdAt = now, bk_secret = Some secret,
          bk_nonce = None, bk_nonceExpires = None, bk_deletionAt = None\<rparr>))))))))"

definition issue_challenge :: "bytes \<Rightarrow> time \<Rightarrow> user_id \<Rightarrow> string backup_tx" where
  "issue_challenge nonce now u =
     tx_bind (issue_challenge_row u nonce (now + challenge_ttl)) (\<lambda>issued.
     tx_bind (tx_require issued (Conflict (Backup Backup_not_turned_on))) (\<lambda>_.
     tx_return (base64_encode nonce)))"

text \<open>Whether the backup is still on, and when it is to be deleted.\<close>

definition disable :: "hmac \<Rightarrow> backup_key option \<Rightarrow> time \<Rightarrow> user_id \<Rightarrow> backup_proof_dto \<Rightarrow> (bool \<times> time option) backup_tx" where
  "disable hmac seen now u dto =
     (if given (bp_nonce dto) \<or> given (bp_proof dto)
      then
        tx_bind (tx_require (given (bp_nonce dto) \<and> given (bp_proof dto)) (Forbidden (Backup Needs_nonce_and_proof))) (\<lambda>_.
        tx_bind (verify_proof_and_mutate hmac u Delete_backup (the (bp_nonce dto)) (the (bp_proof dto)) None now
          (tx_bind (tx_modify (delete_blobs u)) (\<lambda>_. tx_modify (delete_key u)))) (\<lambda>_.
        tx_return (False, None)))
      else (case seen of
          None \<Rightarrow> tx_return (False, None)
        | Some k \<Rightarrow>
            let scheduled = (case bk_deletionAt k of None \<Rightarrow> now + deletion_delay | Some t \<Rightarrow> t)
            in tx_bind (schedule_deletion u scheduled) (\<lambda>_. tx_return (True, Some scheduled))))"

text \<open>
  \<open>cancelDeletion\<close> has no transaction: it reads the row, consumes the challenge, checks the proof against the secret
  it read, and clears the schedule, each on its own. \<open>between\<close> is what others do after the challenge is consumed.
\<close>

definition assert_proof :: "hmac \<Rightarrow> time \<Rightarrow> user_id \<Rightarrow> bytes option \<Rightarrow> proof_action \<Rightarrow> backup_proof_dto \<Rightarrow> (string \<times> string) option
    \<Rightarrow> backups \<Rightarrow> backups \<times> unit result" where
  "assert_proof hmac now u stored_secret action dto bound s =
     (case stored_secret of
        None \<Rightarrow> (s, Inl (Forbidden (Backup No_proof_secret)))
      | Some secret \<Rightarrow>
          if \<not> given (bp_nonce dto) \<or> \<not> given (bp_proof dto) then (s, Inl (Forbidden (Backup Needs_nonce_and_proof)))
          else (case consume_challenge u (base64_decode (the (bp_nonce dto))) now s of
              Inl e \<Rightarrow> (s, Inl e)
            | Inr (s', consumed) \<Rightarrow>
                if \<not> consumed then (s', Inl (Forbidden (Backup Challenge_missing_used_or_expired)))
                else (s', require (proof_matches (compute_backup_proof hmac secret action u (the (bp_nonce dto)) bound)
                  (base64_decode (the (bp_proof dto)))) (Forbidden (Backup Proof_does_not_match)))))"

definition cancel_deletion ::
    "hmac \<Rightarrow> backup_key option \<Rightarrow> (backups \<Rightarrow> backups) \<Rightarrow> time \<Rightarrow> user_id \<Rightarrow> backup_proof_dto \<Rightarrow> backups \<Rightarrow> backups \<times> unit result" where
  "cancel_deletion hmac seen between now u dto s =
     (case seen of
        None \<Rightarrow> (s, Inl (Conflict (Backup Backup_not_turned_on)))
      | Some k \<Rightarrow>
          (case assert_proof hmac now u (bk_secret k) Cancel_delete dto None s of
             (s', Inl e) \<Rightarrow> (s', Inl e)
           | (s', Inr _) \<Rightarrow> (cancel_deletion_row u (between s'), Inr ())))"

record blob_dto =
  bd_conversation :: conversation_id
  bd_message :: string
  bd_ciphertext :: string

definition decode_blobs :: "blob_dto list \<Rightarrow> new_blob list result" where
  "decode_blobs items =
     bind_result (each (\<lambda>i. require (base64_decode (bd_ciphertext i) \<noteq> [] \<and> length (base64_decode (bd_ciphertext i)) \<le> max_blob_bytes)
         (BadRequest (Backup Blob_size))) items) (\<lambda>_.
     Inr (map (\<lambda>i. \<lparr>nb_conversation = bd_conversation i, nb_message = bd_message i, nb_ciphertext = base64_decode (bd_ciphertext i)\<rparr>) items))"

text \<open>\<open>state_in\<close> of the user in a conversation, \<open>message_in\<close>: the conversation of a message.\<close>

definition backup_eligible :: "participant_state option \<Rightarrow> bool" where
  "backup_eligible st \<longleftrightarrow> (case st of None \<Rightarrow> False | Some x \<Rightarrow> x \<in> set entitled_to_leaf_states \<or> x = LEAVING)"

definition assert_owns_messages ::
    "(conversation_id \<Rightarrow> participant_state option) \<Rightarrow> (string \<Rightarrow> conversation_id option) \<Rightarrow> new_blob list \<Rightarrow> unit result" where
  "assert_owns_messages state_in message_in blobs =
     bind_result (require (\<forall>b \<in> set blobs. backup_eligible (state_in (nb_conversation b)))
       (Forbidden (Backup Not_a_participant_of_that_conversation))) (\<lambda>_.
     require (\<forall>b \<in> set blobs. message_in (nb_message b) = Some (nb_conversation b)) (BadRequest (Backup Message_not_in_its_conversation)))"

text \<open>How many were stored, and how many of the items were not. \<open>seen\<close> as above.\<close>

definition upload_blobs ::
    "(conversation_id \<Rightarrow> participant_state option) \<Rightarrow> (string \<Rightarrow> conversation_id option) \<Rightarrow> backup_key option \<Rightarrow> time \<Rightarrow> user_id
      \<Rightarrow> blob_dto list \<Rightarrow> (nat \<times> nat) backup_tx" where
  "upload_blobs state_in message_in seen now u items =
     tx_bind (tx_require (seen \<noteq> None) (Conflict (Backup Backup_not_turned_on))) (\<lambda>_.
     tx_bind (tx_result (decode_blobs (map snd (js_map (map (\<lambda>i. (bd_message i, i)) items))))) (\<lambda>blobs.
     tx_bind (tx_result (assert_owns_messages state_in message_in blobs)) (\<lambda>_.
     tx_bind (store_within_quota now u blobs user_quota_bytes) (\<lambda>result.
     case result of
       No_key \<Rightarrow> tx_fail (Conflict (Backup Backup_not_turned_on))
     | Over_quota \<Rightarrow> tx_fail (PayloadTooLarge (Backup Quota_exceeded))
     | Stored n \<Rightarrow> tx_return (n, length items - n)))))"

text \<open>\<open>deleteDueBackups\<close>: the users are read first; \<open>between\<close> is what others do before each deletion.\<close>

fun delete_each :: "time \<Rightarrow> (user_id \<Rightarrow> backups \<Rightarrow> backups) \<Rightarrow> user_id list \<Rightarrow> backups \<Rightarrow> backups" where
  "delete_each now between [] s = s"
| "delete_each now between (u # us) s =
     delete_each now between us (case delete_all u (Some now) (between u s) of Inl e \<Rightarrow> between u s | Inr (s', _) \<Rightarrow> s')"

definition delete_due_backups :: "time \<Rightarrow> (user_id \<Rightarrow> backups \<Rightarrow> backups) \<Rightarrow> backups \<Rightarrow> backups" where
  "delete_due_backups now between s = delete_each now between (find_due_deletions now max_deletions_per_run s) s"

definition get_status :: "user_id \<Rightarrow> backups \<Rightarrow> bool \<times> bytes option \<times> time option \<times> nat \<times> nat" where
  "get_status u s =
     (case find_backup_key u s of
        None \<Rightarrow> (False, None, None, 0, 0)
      | Some k \<Rightarrow> (True, Some (bk_keyCheck k), bk_deletionAt k, backup_usage u s))"

section \<open>Restoring\<close>

definition blob_key :: "backup_blob \<Rightarrow> time \<times> nat" where
  "blob_key b = (bb_createdAt b, bb_id b)"

definition find_page :: "user_id \<Rightarrow> (time \<times> nat) option \<Rightarrow> nat \<Rightarrow> backups \<Rightarrow> backup_blob list" where
  "find_page u after n s =
     take n (sort_key blob_key (filter (\<lambda>b. bb_user b = u \<and> (case after of None \<Rightarrow> True
       | Some (t, i) \<Rightarrow> bb_createdAt b > t \<or> bb_createdAt b = t \<and> bb_id b > i)) (bs_blobs s)))"

definition blob_item :: "backup_blob \<Rightarrow> blob_dto" where
  "blob_item b = \<lparr>bd_conversation = bb_conversation b, bd_message = bb_message b, bd_ciphertext = base64_encode (bb_ciphertext b)\<rparr>"

definition list_blobs :: "user_id \<Rightarrow> nat option \<Rightarrow> (time \<times> nat) option \<Rightarrow> backups \<Rightarrow> blob_dto list \<times> (time \<times> nat) option" where
  "list_blobs u limit after s =
     (let n = (case limit of None \<Rightarrow> default_page_size | Some n \<Rightarrow> n);
          rows = find_page u after (n + 1) s;
          page = take n rows
      in (map blob_item page, if length rows > n \<and> page \<noteq> [] then Some (blob_key (last page)) else None))"

section \<open>The limiters\<close>

record backup_limits =
  bl_upload :: limiter
  bl_download :: limiter
  bl_manage :: limiter
  bl_destroy :: limiter

datatype backup_endpoint = Manage | Destroy | Upload | Download

text \<open>Every endpoint but the status spends from its limiter before it does anything.\<close>

definition assert_can :: "backup_endpoint \<Rightarrow> time \<Rightarrow> user_id \<Rightarrow> backup_limits \<Rightarrow> backup_limits \<times> unit result" where
  "assert_can p now u ls =
     (case p of
        Upload \<Rightarrow> map_prod (\<lambda>l. ls\<lparr>bl_upload := l\<rparr>) id (assert_not_rate_limited backup_upload_limiter now u 1 (bl_upload ls))
      | Download \<Rightarrow> map_prod (\<lambda>l. ls\<lparr>bl_download := l\<rparr>) id (assert_not_rate_limited backup_download_limiter now u 1 (bl_download ls))
      | Manage \<Rightarrow> map_prod (\<lambda>l. ls\<lparr>bl_manage := l\<rparr>) id (assert_not_rate_limited backup_manage_limiter now u 1 (bl_manage ls))
      | Destroy \<Rightarrow> map_prod (\<lambda>l. ls\<lparr>bl_destroy := l\<rparr>) id (assert_not_rate_limited backup_destroy_limiter now u 1 (bl_destroy ls)))"

definition serve_backup :: "backup_endpoint \<Rightarrow> time \<Rightarrow> user_id \<Rightarrow> 'a backup_tx \<Rightarrow> backup_limits \<times> backups \<Rightarrow> (backup_limits \<times> backups) \<times> 'a result" where
  "serve_backup p now u body w =
     (case assert_can p now u (fst w) of
        (ls, Inl e) \<Rightarrow> ((ls, snd w), Inl e)
      | (ls, Inr _) \<Rightarrow> (case body (snd w) of Inl e \<Rightarrow> ((ls, snd w), Inl e) | Inr (s, x) \<Rightarrow> ((ls, s), Inr x)))"

end
