(* ===== verification/Backup_System.thy ===== *)
theory Backup_System
  imports Backup
begin

text \<open>
  Backups as a machine: the requests of \<open>chat-backup.service.ts\<close> and the daily deletion, each transaction a step, and
  each row a request reads before its transaction a read that may be used at any later time. Its invariant, and
  what each operation does to it.
\<close>

section \<open>What the operations do\<close>

named_theorems backup_frame \<open>what a change of the tables leaves alone\<close>

lemma find_backup_key_changes [backup_frame, simp]:
  "find_backup_key u (change_key v f s) = (if u = v then map_option f (find_backup_key u s) else find_backup_key u s)"
  "find_backup_key u (delete_key v s) = (if u = v then None else find_backup_key u s)"
  "find_backup_key u (delete_blobs v s) = find_backup_key u s"
  "find_backup_key u (s\<lparr>bs_blobs := bs\<rparr>) = find_backup_key u s"
  "find_backup_key u (s\<lparr>bs_nextId := n\<rparr>) = find_backup_key u s"
  "find_backup_key u (s\<lparr>bs_keys := bs_keys s @ [(v, k)]\<rparr>) = (if u = v \<and> find_backup_key u s = None then Some k else find_backup_key u s)"
  by (auto simp: find_backup_key_def change_key_def delete_key_def delete_blobs_def map_of_map_entry map_add_def AList.delete_conv
      fun_upd_def split: option.splits)

lemma blobs_changes [backup_frame, simp]:
  "bs_blobs (change_key v f s) = bs_blobs s" "bs_nextId (change_key v f s) = bs_nextId s"
  "bs_blobs (delete_key v s) = bs_blobs s" "bs_nextId (delete_key v s) = bs_nextId s"
  "bs_blobs (delete_blobs v s) = filter (\<lambda>b. bb_user b \<noteq> v) (bs_blobs s)" "bs_nextId (delete_blobs v s) = bs_nextId s"
  "bs_keys (delete_blobs v s) = bs_keys s"
  by (simp_all add: change_key_def delete_key_def delete_blobs_def)

lemma distinct_keys_changes [simp]:
  "distinct (map fst (bs_keys s)) \<Longrightarrow> distinct (map fst (bs_keys (change_key v f s)))"
  "distinct (map fst (bs_keys s)) \<Longrightarrow> distinct (map fst (bs_keys (delete_key v s)))"
  by (auto simp: change_key_def delete_key_def dom_map_entry AList.distinct_delete distinct_map_entry)

definition without_challenge :: "backup_key \<Rightarrow> backup_key" where
  "without_challenge k = k\<lparr>bk_nonce := None, bk_nonceExpires := None\<rparr>"

text \<open>A request proves that it knows the user's secret, over the challenge that is live.\<close>

definition proves :: "hmac \<Rightarrow> time \<Rightarrow> backups \<Rightarrow> user_id \<Rightarrow> proof_action \<Rightarrow> string \<Rightarrow> string \<Rightarrow> (string \<times> string) option \<Rightarrow> bool" where
  "proves hmac now s u action nonce mac bound \<longleftrightarrow>
     (case find_backup_key u s of
        None \<Rightarrow> False
      | Some k \<Rightarrow> live_challenge (base64_decode nonce) now k
          \<and> (case bk_secret k of None \<Rightarrow> False | Some secret \<Rightarrow> base64_decode mac = compute_backup_proof hmac secret action u nonce bound))"

lemma consume_result:
  "consume_challenge u nonce now s = Inr (s', b) \<longleftrightarrow>
     b = (case find_backup_key u s of None \<Rightarrow> False | Some k \<Rightarrow> live_challenge nonce now k)
     \<and> s' = (if b then change_key u without_challenge s else s)"
  unfolding consume_challenge_def without_challenge_def [abs_def] by (auto simp: tx_bind_Inr tx_simps)

lemma verify_result:
  "verify_proof_and_mutate hmac u action nonce mac bound now mutate s = Inr r
    \<longleftrightarrow> proves hmac now s u action nonce mac bound \<and> mutate (change_key u without_challenge s) = Inr r"
proof (cases "find_backup_key u s")
  case (Some k)
  then show ?thesis
    by (cases "bk_secret k") (auto simp: verify_proof_and_mutate_def proves_def proof_matches_def tx_bind_Inr tx_run tx_require_run consume_result split: if_splits)
qed (simp add: verify_proof_and_mutate_def proves_def tx_bind_Inr tx_run)

lemma create_key_result:
  "create_key now u key_check secret s = Inr (s', b) \<longleftrightarrow>
     (if find_backup_key u s = None then b \<and> s' = s\<lparr>bs_keys := bs_keys s @ [(u, \<lparr>bk_keyCheck = key_check, bk_createdAt = now,
          bk_secret = Some secret, bk_nonce = None, bk_nonceExpires = None, bk_deletionAt = None\<rparr>)]\<rparr>
      else \<not> b \<and> s' = s)"
  by (auto simp: create_key_def tx_bind_Inr tx_simps)

lemma delete_all_result:
  "delete_all u due s = Inr (s', b) \<longleftrightarrow>
     b = (case due of None \<Rightarrow> True | Some limit \<Rightarrow>
            (case find_backup_key u s of None \<Rightarrow> False | Some k \<Rightarrow> (case bk_deletionAt k of None \<Rightarrow> False | Some t \<Rightarrow> t \<le> limit)))
     \<and> s' = (if b then delete_key u (delete_blobs u s) else s)"
  by (auto simp: delete_all_def tx_bind_Inr tx_simps split: option.splits)

lemma decode_bounded_result:
  "decode_bounded t lo hi = Inr bs \<longleftrightarrow> bs = base64_decode t \<and> lo \<le> length bs \<and> length bs \<le> hi"
  by (auto simp: decode_bounded_def Let_def)

definition key_from :: "time \<Rightarrow> put_backup_key_dto \<Rightarrow> backup_key" where
  "key_from now dto = \<lparr>bk_keyCheck = base64_decode (pk_keyCheck dto), bk_createdAt = now,
     bk_secret = Some (base64_decode (pk_replaceSecret dto)), bk_nonce = None, bk_nonceExpires = None, bk_deletionAt = None\<rparr>"

definition key_fits :: "put_backup_key_dto \<Rightarrow> bool" where
  "key_fits dto \<longleftrightarrow> min_key_check_bytes \<le> length (base64_decode (pk_keyCheck dto)) \<and> length (base64_decode (pk_keyCheck dto)) \<le> max_key_check_bytes
     \<and> min_secret_bytes \<le> length (base64_decode (pk_replaceSecret dto)) \<and> length (base64_decode (pk_replaceSecret dto)) \<le> max_secret_bytes"

lemma put_key_result:
  "put_key hmac seen now u dto s = Inr (s', x) \<longleftrightarrow> key_fits dto \<and>
     (if seen = None then find_backup_key u s = None \<and> s' = s\<lparr>bs_keys := bs_keys s @ [(u, key_from now dto)]\<rparr>
      else pk_replace dto = Some True \<and> given (bp_nonce dto) \<and> given (bp_proof dto)
        \<and> proves hmac now s u Replace_key (the (bp_nonce dto)) (the (bp_proof dto)) (Some (pk_keyCheck dto, pk_replaceSecret dto))
        \<and> s' = change_key u (\<lambda>_. key_from now dto) (delete_blobs u (change_key u without_challenge s)))"
  by (auto simp: put_key_def key_fits_def key_from_def tx_bind_Inr tx_simps decode_bounded_result create_key_result
      verify_result split: if_splits)

lemma disable_result:
  "disable hmac seen now u dto s = Inr (s', r) \<longleftrightarrow>
     (if given (bp_nonce dto) \<or> given (bp_proof dto)
      then given (bp_nonce dto) \<and> given (bp_proof dto) \<and> proves hmac now s u Delete_backup (the (bp_nonce dto)) (the (bp_proof dto)) None
        \<and> s' = delete_key u (delete_blobs u (change_key u without_challenge s)) \<and> r = (False, None)
      else (case seen of
          None \<Rightarrow> s' = s \<and> r = (False, None)
        | Some k \<Rightarrow>
            let at = (case bk_deletionAt k of None \<Rightarrow> now + deletion_delay | Some t \<Rightarrow> t)
            in s' = change_key u (\<lambda>k. if bk_deletionAt k = None then k\<lparr>bk_deletionAt := Some at\<rparr> else k) s \<and> r = (True, Some at)))"
  by (auto simp: disable_def Let_def schedule_deletion_def tx_bind_Inr tx_simps verify_result split: option.splits)

lemma issue_challenge_result:
  "issue_challenge nonce now u s = Inr (s', r) \<longleftrightarrow> find_backup_key u s \<noteq> None \<and> r = base64_encode nonce
     \<and> s' = change_key u (\<lambda>k. k\<lparr>bk_nonce := Some nonce, bk_nonceExpires := Some (now + challenge_ttl)\<rparr>) s"
  by (auto simp: issue_challenge_def issue_challenge_row_def tx_bind_Inr tx_simps)

text \<open>\<open>cancelDeletion\<close> consumes the challenge, then clears the schedule or fails.\<close>

lemma cancel_deletion_parts:
  assumes "cancel_deletion hmac seen between now u dto s = (s', r)"
  obtains "s' = s" and "r \<noteq> Inr ()"
  | t where "consume_challenge u (base64_decode (the (bp_nonce dto))) now s = Inr (t, True)" and "s' = t" and "r \<noteq> Inr ()"
  | t k secret where "consume_challenge u (base64_decode (the (bp_nonce dto))) now s = Inr (t, True)" and "s' = cancel_deletion_row u (between t)"
      and "r = Inr ()" and "seen = Some k" and "bk_secret k = Some secret"
      and "base64_decode (the (bp_proof dto)) = compute_backup_proof hmac secret Cancel_delete u (the (bp_nonce dto)) None"
proof -
  have "consume_challenge u n now s = Inr (t, False) \<Longrightarrow> t = s" for n t by (simp add: consume_result)
  with assms that show ?thesis
    by (fastforce simp: cancel_deletion_def assert_proof_def proof_matches_def require_def split: option.splits if_splits sum.splits prod.splits)
qed

section \<open>The invariant\<close>

definition key_ok :: "backup_key \<Rightarrow> bool" where
  "key_ok k \<longleftrightarrow> min_key_check_bytes \<le> length (bk_keyCheck k) \<and> length (bk_keyCheck k) \<le> max_key_check_bytes
     \<and> (\<forall>secret. bk_secret k = Some secret \<longrightarrow> min_secret_bytes \<le> length secret \<and> length secret \<le> max_secret_bytes)"

definition blob_ok :: "backup_blob \<Rightarrow> bool" where
  "blob_ok b \<longleftrightarrow> bb_size b = length (bb_ciphertext b) \<and> 0 < bb_size b \<and> bb_size b \<le> max_blob_bytes"

definition backups_ok :: "backups \<Rightarrow> bool" where
  "backups_ok s \<longleftrightarrow> distinct (map fst (bs_keys s)) \<and> (\<forall>u k. find_backup_key u s = Some k \<longrightarrow> key_ok k)
     \<and> distinct (map (\<lambda>b. (bb_user b, bb_message b)) (bs_blobs s))
     \<and> distinct (map bb_id (bs_blobs s)) \<and> (\<forall>b \<in> set (bs_blobs s). bb_id b < bs_nextId s)
     \<and> (\<forall>b \<in> set (bs_blobs s). blob_ok b \<and> find_backup_key (bb_user b) s \<noteq> None)
     \<and> (\<forall>u. bytes_used u s \<le> user_quota_bytes)"

lemma bytes_used_frame [simp]:
  "bytes_used u (change_key v f s) = bytes_used u s" "bytes_used u (delete_key v s) = bytes_used u s"
  "bytes_used u (s\<lparr>bs_keys := ks\<rparr>) = bytes_used u s"
  "bytes_used u (delete_blobs v s) = (if u = v then 0 else bytes_used u s)"
  by (auto simp: bytes_used_def filter_empty_conv intro!: arg_cong [of _ _ "\<lambda>bs. sum_list (map bb_size bs)"] filter_cong)

lemma change_key_ok: "backups_ok s \<Longrightarrow> (\<And>k. find_backup_key u s = Some k \<Longrightarrow> key_ok (f k)) \<Longrightarrow> backups_ok (change_key u f s)"
  by (auto simp: backups_ok_def)

lemma delete_blobs_ok: "backups_ok s \<Longrightarrow> backups_ok (delete_blobs u s)"
  by (auto simp: backups_ok_def distinct_map_filter)

lemma delete_backup_ok: "backups_ok s \<Longrightarrow> backups_ok (delete_key u (delete_blobs u s))"
  by (auto simp: backups_ok_def distinct_map_filter)

lemma new_key_ok: "backups_ok s \<Longrightarrow> find_backup_key u s = None \<Longrightarrow> key_ok k \<Longrightarrow> backups_ok (s\<lparr>bs_keys := bs_keys s @ [(u, k)]\<rparr>)"
  by (auto simp: backups_ok_def find_backup_key_def map_of_eq_None_iff image_iff split: if_splits)

lemma key_ok_changes [simp]: "key_ok (without_challenge k) = key_ok k" "key_ok (k\<lparr>bk_deletionAt := d\<rparr>) = key_ok k"
  "key_ok (k\<lparr>bk_nonce := n, bk_nonceExpires := t\<rparr>) = key_ok k" "key_fits dto \<Longrightarrow> key_ok (key_from now dto)"
  by (auto simp: key_ok_def without_challenge_def key_fits_def key_from_def)

text \<open>Inserting adds rows at the end, for messages that have none yet.\<close>

definition stored_row :: "time \<Rightarrow> user_id \<Rightarrow> new_blob list \<Rightarrow> backup_blob \<Rightarrow> bool" where
  "stored_row now u blobs r \<longleftrightarrow> (\<exists>b \<in> set blobs. bb_user r = u \<and> bb_conversation r = nb_conversation b \<and> bb_message r = nb_message b
     \<and> bb_ciphertext r = nb_ciphertext b \<and> bb_size r = length (nb_ciphertext b) \<and> bb_createdAt r = now)"

lemma insert_blob_ok:
  assumes "backups_ok s" and "find_backup_key u s \<noteq> None" and "0 < length (nb_ciphertext b)" and "length (nb_ciphertext b) \<le> max_blob_bytes"
    and "bytes_used u s + length (nb_ciphertext b) \<le> user_quota_bytes"
  shows "backups_ok (insert_blob now u b s)"
proof (cases "has_blob u (nb_message b) s")
  case False
  with assms show ?thesis
    by (fastforce simp: backups_ok_def insert_blob_def has_blob_def blob_ok_def bytes_used_def)
qed (simp add: insert_blob_def assms)

lemma find_backup_key_inserted [simp]: "find_backup_key v (insert_blob now u b s) = find_backup_key v s"
  by (simp add: insert_blob_def find_backup_key_def)

lemma insert_blob_used: "bytes_used u (insert_blob now u b s) \<le> bytes_used u s + length (nb_ciphertext b)"
  by (simp add: insert_blob_def bytes_used_def)

lemma insert_blobs_ok:
  assumes "backups_ok s" and "find_backup_key u s \<noteq> None" and "\<forall>b \<in> set bs. 0 < length (nb_ciphertext b) \<and> length (nb_ciphertext b) \<le> max_blob_bytes"
    and "bytes_used u s + sum_list (map (\<lambda>b. length (nb_ciphertext b)) bs) \<le> user_quota_bytes"
  shows "backups_ok (fold (insert_blob now u) bs s)"
  using assms
proof (induction bs arbitrary: s)
  case (Cons b bs)
  have "backups_ok (insert_blob now u b s)" by (rule insert_blob_ok) (use Cons.prems in auto)
  with Cons insert_blob_used [of u now b s] show ?case by simp
qed simp

lemma inserted_rows:
  "\<exists>rs. bs_blobs (fold (insert_blob now u) bs s) = bs_blobs s @ rs \<and> (\<forall>r \<in> set rs. stored_row now u bs r) \<and> length rs \<le> length bs
     \<and> bs_keys (fold (insert_blob now u) bs s) = bs_keys s"
proof (induction bs arbitrary: s)
  case (Cons b bs)
  obtain rs where rs: "bs_blobs (fold (insert_blob now u) (b # bs) s) = bs_blobs (insert_blob now u b s) @ rs"
    "\<forall>r \<in> set rs. stored_row now u bs r" "length rs \<le> length bs" "bs_keys (fold (insert_blob now u) (b # bs) s) = bs_keys (insert_blob now u b s)"
    using Cons.IH [of "insert_blob now u b s"] by auto
  have later: "stored_row now u (b # bs) r" if "r \<in> set rs" for r using rs(2) that by (auto simp: stored_row_def)
  show ?case
  proof (cases "has_blob u (nb_message b) s")
    case True
    then have "insert_blob now u b s = s" by (simp add: insert_blob_def)
    with rs later show ?thesis by auto
  next
    case False
    let ?r = "\<lparr>bb_id = bs_nextId s, bb_user = u, bb_conversation = nb_conversation b, bb_message = nb_message b,
      bb_ciphertext = nb_ciphertext b, bb_size = length (nb_ciphertext b), bb_createdAt = now\<rparr>"
    have "stored_row now u (b # bs) ?r" by (simp add: stored_row_def)
    moreover from False have "bs_blobs (insert_blob now u b s) = bs_blobs s @ [?r]" "bs_keys (insert_blob now u b s) = bs_keys s"
      by (simp_all add: insert_blob_def)
    ultimately show ?thesis using rs later by (intro exI [of _ "?r # rs"]) auto
  qed
qed simp

lemma has_inserted: "has_blob v m (fold (insert_blob now u) bs s) \<longleftrightarrow> has_blob v m s \<or> v = u \<and> m \<in> nb_message ` set bs"
  by (induction bs arbitrary: s) (auto simp: insert_blob_def has_blob_def)

lemma find_backup_key_inserts [simp]: "find_backup_key v (fold (insert_blob now u) bs s) = find_backup_key v s"
  by (induction bs arbitrary: s) simp_all

definition unstored :: "user_id \<Rightarrow> backups \<Rightarrow> new_blob list \<Rightarrow> new_blob list" where
  "unstored u s = filter (\<lambda>b. \<not> has_blob u (nb_message b) s)"

definition total_bytes :: "new_blob list \<Rightarrow> nat" where
  "total_bytes bs = sum_list (map (\<lambda>b. length (nb_ciphertext b)) bs)"

lemma store_within_quota_result:
  "store_within_quota now u blobs quota s = Inr (s', r) \<longleftrightarrow>
     (if find_backup_key u s = None then s' = s \<and> r = No_key
      else if total_bytes (unstored u s blobs) = 0 then s' = s \<and> r = Stored 0
      else if bytes_used u s + total_bytes (unstored u s blobs) > quota then s' = s \<and> r = Over_quota
      else s' = fold (insert_blob now u) (unstored u s blobs) s \<and> r = Stored (length (bs_blobs s') - length (bs_blobs s)))"
  by (auto simp: store_within_quota_def unstored_def total_bytes_def Let_def tx_bind_Inr tx_simps)

lemma decode_blobs_result:
  "decode_blobs items = Inr bs \<longleftrightarrow>
     bs = map (\<lambda>i. \<lparr>nb_conversation = bd_conversation i, nb_message = bd_message i, nb_ciphertext = base64_decode (bd_ciphertext i)\<rparr>) items
     \<and> (\<forall>b \<in> set bs. 0 < length (nb_ciphertext b) \<and> length (nb_ciphertext b) \<le> max_blob_bytes)"
  by (auto simp: decode_blobs_def bind_result_Inr_iff each_Inr require_Inr)

definition last_of_each :: "blob_dto list \<Rightarrow> blob_dto list" where
  "last_of_each items = map snd (js_map (map (\<lambda>i. (bd_message i, i)) items))"

lemma upload_result:
  "upload_blobs state_in message_in seen now u items s = Inr (s', r) \<longleftrightarrow> seen \<noteq> None \<and>
     (\<exists>bs n. decode_blobs (last_of_each items) = Inr bs \<and> assert_owns_messages state_in message_in bs = Inr ()
       \<and> store_within_quota now u bs user_quota_bytes s = Inr (s', Stored n) \<and> r = (n, length items - n))"
proof -
  have stored: "(case y of Stored n \<Rightarrow> tx_return (n, length items - n) | No_key \<Rightarrow> tx_fail e | Over_quota \<Rightarrow> tx_fail e') t = Inr (s', r)
    \<longleftrightarrow> (\<exists>n. y = Stored n \<and> t = s' \<and> r = (n, length items - n))" for y t e e'
    by (cases y) (auto simp: tx_run)
  show ?thesis unfolding upload_blobs_def last_of_each_def tx_bind_Inr stored
    by (auto simp: tx_run tx_require_run tx_result_run split: if_splits)
qed

section \<open>The machine\<close>

record backup_world =
  bw_now :: time
  bw_reads :: "(user_id \<times> backup_key option) list"
  bw_store :: backups

definition no_backups :: backups where
  "no_backups = \<lparr>bs_keys = [], bs_blobs = [], bs_nextId = 0\<rparr>"

text \<open>
  \<open>holders\<close>: the users for whom a request may carry a proof; for every other user, no request carries the HMAC of the
  live challenge under the current secret. \<open>nonces\<close>: what the random source may give from here on. The two halves of
  \<open>cancelDeletion\<close> are steps of their own.
\<close>

inductive backup_step :: "hmac \<Rightarrow> bytes set \<Rightarrow> user_id set \<Rightarrow> backup_world \<Rightarrow> backup_world \<Rightarrow> bool"
  for hmac :: hmac and nonces :: "bytes set" and holders :: "user_id set" where
  clock: "bw_now w \<le> t \<Longrightarrow> backup_step hmac nonces holders w (w\<lparr>bw_now := t\<rparr>)"
| row_read: "backup_step hmac nonces holders w (w\<lparr>bw_reads := (u, find_backup_key u (bw_store w)) # bw_reads w\<rparr>)"
| key_put: "(u, seen) \<in> set (bw_reads w) \<Longrightarrow> put_key hmac seen (bw_now w) u dto (bw_store w) = Inr (s, x)
    \<Longrightarrow> u \<in> holders \<or> \<not> proves hmac (bw_now w) (bw_store w) u Replace_key (the (bp_nonce dto)) (the (bp_proof dto)) (Some (pk_keyCheck dto, pk_replaceSecret dto))
    \<Longrightarrow> backup_step hmac nonces holders w (w\<lparr>bw_store := s\<rparr>)"
| challenged: "nonce \<in> nonces \<Longrightarrow> issue_challenge nonce (bw_now w) u (bw_store w) = Inr (s, c)
    \<Longrightarrow> backup_step hmac nonces holders w (w\<lparr>bw_store := s\<rparr>)"
| disabled: "(u, seen) \<in> set (bw_reads w) \<Longrightarrow> disable hmac seen (bw_now w) u dto (bw_store w) = Inr (s, r)
    \<Longrightarrow> u \<in> holders \<or> \<not> proves hmac (bw_now w) (bw_store w) u Delete_backup (the (bp_nonce dto)) (the (bp_proof dto)) None
    \<Longrightarrow> backup_step hmac nonces holders w (w\<lparr>bw_store := s\<rparr>)"
| uploaded: "(u, seen) \<in> set (bw_reads w) \<Longrightarrow> upload_blobs state_in message_in seen (bw_now w) u items (bw_store w) = Inr (s, n)
    \<Longrightarrow> backup_step hmac nonces holders w (w\<lparr>bw_store := s\<rparr>)"
| consumed: "consume_challenge u nonce (bw_now w) (bw_store w) = Inr (s, b) \<Longrightarrow> backup_step hmac nonces holders w (w\<lparr>bw_store := s\<rparr>)"
| cancelled: "backup_step hmac nonces holders w (w\<lparr>bw_store := cancel_deletion_row u (bw_store w)\<rparr>)"
| deleted: "t \<le> bw_now w \<Longrightarrow> delete_all u (Some t) (bw_store w) = Inr (s, b) \<Longrightarrow> backup_step hmac nonces holders w (w\<lparr>bw_store := s\<rparr>)"

inductive_cases backup_stepE: "backup_step hmac nonces holders w w'"

lemma upload_ok:
  assumes "backups_ok s" and "upload_blobs state_in message_in seen now u items s = Inr (s', r)"
  shows "backups_ok s'"
proof -
  from assms(2) obtain bs n where bs: "decode_blobs (last_of_each items) = Inr bs" "store_within_quota now u bs user_quota_bytes s = Inr (s', Stored n)"
    by (auto simp: upload_result)
  then have "\<forall>b \<in> set (unstored u s bs). 0 < length (nb_ciphertext b) \<and> length (nb_ciphertext b) \<le> max_blob_bytes"
    by (simp add: decode_blobs_result unstored_def)
  with bs(2) assms(1) show ?thesis
    by (auto simp: store_within_quota_result total_bytes_def split: if_splits intro!: insert_blobs_ok)
qed

lemma step_keeps_backups: "backups_ok (bw_store w) \<Longrightarrow> backup_step hmac nonces holders w w' \<Longrightarrow> backups_ok (bw_store w')"
proof (elim backup_stepE)
  assume ok: "backups_ok (bw_store w)"
  then have key: "find_backup_key u (bw_store w) = Some k \<Longrightarrow> key_ok k" for u k by (simp add: backups_ok_def)
  note change_key_ok [intro!] delete_blobs_ok [intro!] delete_backup_ok [intro!] new_key_ok [intro!]
  show "backups_ok (bw_store w')" if "w' = w\<lparr>bw_store := s\<rparr>" "put_key hmac seen (bw_now w) u dto (bw_store w) = Inr (s, x)" for s seen u dto x
    using that ok key by (auto simp: put_key_result split: if_splits)
  show "backups_ok (bw_store w')" if "w' = w\<lparr>bw_store := s\<rparr>" "issue_challenge nonce (bw_now w) u (bw_store w) = Inr (s, c)" for s nonce u c
    using that ok key by (auto simp: issue_challenge_result)
  show "backups_ok (bw_store w')" if "w' = w\<lparr>bw_store := s\<rparr>" "disable hmac seen (bw_now w) u dto (bw_store w) = Inr (s, r)" for s seen u dto r
    using that ok key by (auto simp: disable_result Let_def split: if_splits option.splits)
  show "backups_ok (bw_store w')" if "w' = w\<lparr>bw_store := s\<rparr>" "consume_challenge u nonce (bw_now w) (bw_store w) = Inr (s, b)" for s nonce u b
    using that ok key by (auto simp: consume_result)
  show "backups_ok (bw_store w')" if "w' = w\<lparr>bw_store := cancel_deletion_row u (bw_store w)\<rparr>" for u
    using that ok key by (auto simp: cancel_deletion_row_def)
  show "backups_ok (bw_store w')" if "w' = w\<lparr>bw_store := s\<rparr>" "delete_all u (Some t) (bw_store w) = Inr (s, b)" for s u t b
    using that ok by (auto simp: delete_all_result)
qed (auto intro: upload_ok)

interpretation backup_machine: state_machine "\<lambda>w. bw_store w = no_backups" "backup_step hmac nonces holders" "\<lambda>w. backups_ok (bw_store w)"
proof
  show "backups_ok (bw_store w)" if "bw_store w = no_backups" for w using that by (simp add: no_backups_def backups_ok_def find_backup_key_def bytes_used_def)
qed (rule step_keeps_backups)

end
