(* ===== verification/Backup_Properties.thy ===== *)
theory Backup_Properties
  imports Backup_System
begin

text \<open>
  What the backup of chat history promises: its bounds, what a request without a proof can do to it, what a proof is
  good for, what an upload stores and what a restore lists.
\<close>

section \<open>A sample\<close>

text \<open>Ann turns her backup on and stores one message; a sample MAC stands for the HMAC.\<close>

definition sample_mac :: hmac where
  "sample_mac secret parts = secret @ map of_char (concat parts)"

definition sixteen :: string where
  "sixteen = ''AAAAAAAAAAAAAAAAAAAAAA==''"

definition ann_turns_on :: put_backup_key_dto where
  "ann_turns_on = \<lparr>bp_nonce = None, bp_proof = None, pk_keyCheck = sixteen, pk_replaceSecret = sixteen, pk_replace = None\<rparr>"

definition ann_key :: backup_key where
  "ann_key = \<lparr>bk_keyCheck = replicate 16 0, bk_createdAt = 0, bk_secret = Some (replicate 16 0), bk_nonce = None,
     bk_nonceExpires = None, bk_deletionAt = None\<rparr>"

definition ann_item :: blob_dto where
  "ann_item = \<lparr>bd_conversation = ''c'', bd_message = ''m'', bd_ciphertext = ''AAAA''\<rparr>"

definition ann_blob :: backup_blob where
  "ann_blob = \<lparr>bb_id = 0, bb_user = ''ann'', bb_conversation = ''c'', bb_message = ''m'', bb_ciphertext = [0, 0, 0], bb_size = 3, bb_createdAt = 0\<rparr>"

definition ann_backup :: "backup_key \<Rightarrow> backup_blob list \<Rightarrow> backups" where
  "ann_backup k bs = \<lparr>bs_keys = [(''ann'', k)], bs_blobs = bs, bs_nextId = length bs\<rparr>"

definition at_start :: backup_world where
  "at_start = \<lparr>bw_now = 0, bw_reads = [], bw_store = no_backups\<rparr>"

definition ann_world :: "backup_key \<Rightarrow> backup_blob list \<Rightarrow> backup_world" where
  "ann_world k bs = \<lparr>bw_now = 0, bw_reads = [(''ann'', Some ann_key), (''ann'', None)], bw_store = ann_backup k bs\<rparr>"

definition in_c :: "conversation_id \<Rightarrow> participant_state option" where
  "in_c c = (if c = ''c'' then Some ACTIVE else None)"

definition sent_in_c :: "string \<Rightarrow> conversation_id option" where
  "sent_in_c m = (if m = ''m'' then Some ''c'' else None)"

lemma sample_bytes: "base64_decode sixteen = replicate 16 0" "base64_decode ''AAAA'' = [0, 0, 0]"
  by code_simp+

lemma sample_fits: "key_fits ann_turns_on"
  by (simp add: key_fits_def ann_turns_on_def sample_bytes min_key_check_bytes_def max_key_check_bytes_def min_secret_bytes_def max_secret_bytes_def)

lemma ann_turned_on: "put_key sample_mac None 0 ''ann'' ann_turns_on no_backups = Inr (ann_backup ann_key [], ())"
  unfolding put_key_result
  by (simp add: sample_fits, simp add: no_backups_def find_backup_key_def ann_backup_def key_from_def ann_key_def ann_turns_on_def sample_bytes)

lemma ann_uploaded: "upload_blobs in_c sent_in_c (Some ann_key) 0 ''ann'' [ann_item, ann_item] (ann_backup ann_key []) = Inr (ann_backup ann_key [ann_blob], (1, 1))"
proof -
  let ?b = "\<lparr>nb_conversation = ''c'', nb_message = ''m'', nb_ciphertext = [0, 0, 0]\<rparr>"
  have "decode_blobs (last_of_each [ann_item, ann_item]) = Inr [?b]" unfolding decode_blobs_result
    by (simp add: last_of_each_def js_map_def ann_item_def sample_bytes max_blob_bytes_def)
  moreover have "assert_owns_messages in_c sent_in_c [?b] = Inr ()"
    by (simp add: assert_owns_messages_def in_c_def sent_in_c_def backup_eligible_def entitled_to_leaf_states_def bind_result_def require_def)
  moreover have "store_within_quota 0 ''ann'' [?b] user_quota_bytes (ann_backup ann_key []) = Inr (ann_backup ann_key [ann_blob], Stored 1)" unfolding store_within_quota_result
    by (simp add: ann_backup_def find_backup_key_def unstored_def has_blob_def total_bytes_def bytes_used_def user_quota_bytes_def insert_blob_def ann_blob_def)
  ultimately show ?thesis unfolding upload_result by auto
qed

lemma ann_stored: "(backup_step sample_mac nonces holders)\<^sup>*\<^sup>* at_start (ann_world ann_key [ann_blob])"
proof -
  let ?w1 = "at_start\<lparr>bw_reads := [(''ann'', None)]\<rparr>" and ?w2 = "\<lparr>bw_now = 0, bw_reads = [(''ann'', None)], bw_store = ann_backup ann_key []\<rparr>"
  have "backup_step sample_mac nonces holders at_start ?w1"
    using backup_step.row_read [of sample_mac nonces holders at_start "''ann''"] by (simp add: at_start_def no_backups_def find_backup_key_def)
  moreover have "backup_step sample_mac nonces holders ?w1 ?w2"
    using backup_step.key_put [of "''ann''" None ?w1 sample_mac ann_turns_on "ann_backup ann_key []" "()" holders nonces] ann_turned_on
    by (simp add: at_start_def proves_def) (simp add: no_backups_def find_backup_key_def)
  moreover have "backup_step sample_mac nonces holders ?w2 (ann_world ann_key [])"
    using backup_step.row_read [of sample_mac nonces holders ?w2 "''ann''"] by (simp add: ann_world_def ann_backup_def find_backup_key_def)
  moreover have "backup_step sample_mac nonces holders (ann_world ann_key []) (ann_world ann_key [ann_blob])"
    using backup_step.uploaded [of "''ann''" "Some ann_key" "ann_world ann_key []" in_c sent_in_c "[ann_item, ann_item]" "ann_backup ann_key [ann_blob]" "(1, 1)"]
      ann_uploaded by (simp add: ann_world_def)
  ultimately show ?thesis by (blast intro: converse_rtranclp_into_rtranclp)
qed

section \<open>Bounds\<close>

text \<open>
  C36. In every reachable state a user's stored messages take at most 100 MB, each at most 64 KB and with the size recorded
  that its ciphertext has; each message is stored once per user; and there is no message without a key.
\<close>
theorem backups_stay_within_bounds:
  assumes "bw_store w = no_backups" and "(backup_step hmac nonces holders)\<^sup>*\<^sup>* w w'"
  shows "bytes_used u (bw_store w') \<le> user_quota_bytes
    \<and> distinct (map (\<lambda>b. (bb_user b, bb_message b)) (bs_blobs (bw_store w')))
    \<and> (\<forall>b \<in> set (bs_blobs (bw_store w')). blob_ok b \<and> find_backup_key (bb_user b) (bw_store w') \<noteq> None)"
  using backup_machine.inv_reachable [OF assms] by (auto simp: backups_ok_def)

theorem backups_stay_within_bounds_witness:
  "bytes_used ''ann'' (bw_store (ann_world ann_key [ann_blob])) \<le> user_quota_bytes"
  using backups_stay_within_bounds [OF _ ann_stored [of UNIV UNIV], of "''ann''"] by (simp add: at_start_def)

section \<open>Without a proof\<close>

text \<open>No deletion is due before \<open>limit\<close>, neither by the row nor by a row that a request in flight has read.\<close>

definition not_before :: "time \<Rightarrow> backup_key \<Rightarrow> bool" where
  "not_before limit k \<longleftrightarrow> (\<forall>t. bk_deletionAt k = Some t \<longrightarrow> limit \<le> t)"

definition not_due_before :: "time \<Rightarrow> user_id \<Rightarrow> backup_key \<Rightarrow> backup_blob \<Rightarrow> backup_world \<Rightarrow> bool" where
  "not_due_before limit u k b w \<longleftrightarrow> find_backup_key u (bw_store w) = Some k \<and> not_before limit k \<and> b \<in> set (bs_blobs (bw_store w)) \<and> bb_user b = u
     \<and> (\<forall>r. (u, Some r) \<in> set (bw_reads w) \<longrightarrow> not_before limit r)"

definition same_backup :: "backup_key \<Rightarrow> backup_key \<Rightarrow> bool" where
  "same_backup k k' \<longleftrightarrow> bk_keyCheck k' = bk_keyCheck k \<and> bk_secret k' = bk_secret k \<and> bk_createdAt k' = bk_createdAt k"

definition still_kept :: "time \<Rightarrow> user_id \<Rightarrow> backup_key \<Rightarrow> backup_blob \<Rightarrow> backup_world \<Rightarrow> bool" where
  "still_kept limit u k b w \<longleftrightarrow> limit \<le> bw_now w + deletion_delay \<and> (bw_now w < limit \<longrightarrow>
     b \<in> set (bs_blobs (bw_store w)) \<and> (\<exists>k'. find_backup_key u (bw_store w) = Some k' \<and> same_backup k k' \<and> not_before limit k')
     \<and> (\<forall>r. (u, Some r) \<in> set (bw_reads w) \<longrightarrow> not_before limit r))"

lemma kept_by_change:
  assumes "still_kept limit u k b w" and "b \<in> set (bs_blobs (bw_store w)) \<Longrightarrow> b \<in> set (bs_blobs s)"
    and "\<And>k'. bw_now w < limit \<Longrightarrow> limit \<le> bw_now w + deletion_delay \<Longrightarrow> find_backup_key u (bw_store w) = Some k'
      \<Longrightarrow> (\<And>r. (u, Some r) \<in> set (bw_reads w) \<Longrightarrow> not_before limit r)
      \<Longrightarrow> not_before limit k' \<Longrightarrow> \<exists>k''. find_backup_key u s = Some k'' \<and> same_backup k' k'' \<and> not_before limit k''"
  shows "still_kept limit u k b (w\<lparr>bw_store := s\<rparr>)"
  using assms unfolding still_kept_def by (fastforce simp: same_backup_def)

lemma same_backup_simps [simp]: "same_backup k k" "same_backup k (without_challenge k)" "same_backup k (k\<lparr>bk_deletionAt := d\<rparr>)"
  "same_backup k (k\<lparr>bk_nonce := n, bk_nonceExpires := t\<rparr>)" "not_before l (without_challenge k) = not_before l k"
  "not_before l (k\<lparr>bk_nonce := n, bk_nonceExpires := t\<rparr>) = not_before l k" "not_before l (k\<lparr>bk_deletionAt := None\<rparr>)"
  "not_before l (k\<lparr>bk_deletionAt := Some at\<rparr>) = (l \<le> at)"
  by (simp_all add: same_backup_def without_challenge_def not_before_def)

lemma scheduled_simps:
  "same_backup k (if p then k\<lparr>bk_deletionAt := d\<rparr> else k)"
  "not_before l k \<Longrightarrow> l \<le> at \<Longrightarrow> not_before l (if p then k\<lparr>bk_deletionAt := Some at\<rparr> else k)"
  by (simp_all add: not_before_def)

lemma not_beforeD: "not_before l k \<Longrightarrow> bk_deletionAt k = Some t \<Longrightarrow> l \<le> t"
  by (simp add: not_before_def)

lemma delay_pos [simp]: "0 < deletion_delay" by (simp add: deletion_delay_def)

lemma upload_keeps_rows:
  assumes "upload_blobs state_in message_in seen now u items s = Inr (s', n)"
  shows "set (bs_blobs s) \<subseteq> set (bs_blobs s')" and "find_backup_key v s' = find_backup_key v s"
proof -
  obtain bs m where "store_within_quota now u bs user_quota_bytes s = Inr (s', Stored m)" using assms by (auto simp: upload_result)
  then have "s' = s \<or> s' = fold (insert_blob now u) (unstored u s bs) s" by (auto simp: store_within_quota_result split: if_splits)
  with inserted_rows [of now u "unstored u s bs" s] show "set (bs_blobs s) \<subseteq> set (bs_blobs s')" "find_backup_key v s' = find_backup_key v s" by auto
qed

lemma step_keeps_backup:
  assumes kept: "u \<notin> holders \<and> bb_user b = u \<and> still_kept limit u k b w" and step: "backup_step hmac nonces holders w w'"
  shows "u \<notin> holders \<and> bb_user b = u \<and> still_kept limit u k b w'"
proof -
  have u: "u \<notin> holders" "bb_user b = u" and k: "still_kept limit u k b w" using kept by auto
  from step have "still_kept limit u k b w'"
  proof (cases rule: backup_step.cases)
    case (clock t)
    with k show ?thesis by (auto simp: still_kept_def)
  next
    case (row_read v)
    with k show ?thesis by (auto simp: still_kept_def)
  next
    case (key_put v seen dto s x)
    have "find_backup_key u (bw_store w) = Some k' \<Longrightarrow> v \<noteq> u" for k' using key_put u by (auto simp: put_key_result split: if_splits)
    then show ?thesis unfolding key_put(1) by (intro kept_by_change [OF k])
      (use key_put u k in \<open>auto simp: put_key_result still_kept_def split: if_splits\<close>)
  next
    case (challenged nonce v s c)
    then show ?thesis by (auto simp: issue_challenge_result intro!: kept_by_change [OF k])
  next
    case (disabled v seen dto s r)
    then consider "s = bw_store w" | "v \<noteq> u" "s = delete_key v (delete_blobs v (change_key v without_challenge (bw_store w)))"
      | x at where "seen = Some x" "at = (case bk_deletionAt x of None \<Rightarrow> bw_now w + deletion_delay | Some t \<Rightarrow> t)"
          "s = change_key v (\<lambda>k. if bk_deletionAt k = None then k\<lparr>bk_deletionAt := Some at\<rparr> else k) (bw_store w)"
      using u(1) by (auto simp: disable_result Let_def split: if_split_asm option.split_asm)
    then show ?thesis
    proof cases
      case 1
      with k disabled(1) show ?thesis by simp
    next
      case 2
      then show ?thesis unfolding disabled(1) by (intro kept_by_change [OF k]) (use u in auto)
    next
      case (3 x at)
      show ?thesis unfolding disabled(1)
      proof (rule kept_by_change [OF k])
        fix k' assume "limit \<le> bw_now w + deletion_delay" "find_backup_key u (bw_store w) = Some k'" "not_before limit k'"
          and reads: "\<And>r. (u, Some r) \<in> set (bw_reads w) \<Longrightarrow> not_before limit r"
        then have "limit \<le> at" if "v = u" using 3(1,2) that disabled(2) by (auto split: option.splits dest: not_beforeD)
        with 3(3) \<open>find_backup_key u (bw_store w) = Some k'\<close> \<open>not_before limit k'\<close>
        show "\<exists>k''. find_backup_key u s = Some k'' \<and> same_backup k' k'' \<and> not_before limit k''"
          by (cases "v = u") auto
      qed (use 3(3) in simp)
    qed
  next
    case (uploaded v seen state_in message_in items s n)
    then show ?thesis using upload_keeps_rows [OF uploaded(3)] by (auto intro!: kept_by_change [OF k])
  next
    case (consumed v nonce s c)
    then show ?thesis by (auto simp: consume_result k intro!: kept_by_change [OF k] split: if_splits)
  next
    case (cancelled v)
    then show ?thesis by (auto simp: cancel_deletion_row_def intro!: kept_by_change [OF k])
  next
    case (deleted t v s c)
    have due: "bw_now w < limit \<Longrightarrow> find_backup_key u (bw_store w) = Some k' \<Longrightarrow> not_before limit k' \<Longrightarrow> \<not> (c \<and> v = u)" for k'
      using deleted by (auto simp: delete_all_result not_before_def split: option.splits)
    show ?thesis
    proof (cases "c \<and> v = u")
      case False
      show ?thesis unfolding deleted(1) by (rule kept_by_change [OF k]) (use deleted(3) False u in \<open>auto simp: delete_all_result\<close>)
    next
      case True
      with due k deleted(1) show ?thesis by (auto simp: still_kept_def)
    qed
  qed
  with u show ?thesis by simp
qed

interpretation kept_backup: state_machine "\<lambda>w. u \<notin> holders \<and> bb_user b = u \<and> limit \<le> bw_now w + deletion_delay \<and> not_due_before limit u k b w"
  "backup_step hmac nonces holders" "\<lambda>w. u \<notin> holders \<and> bb_user b = u \<and> still_kept limit u k b w"
proof
  show "u \<notin> holders \<and> bb_user b = u \<and> still_kept limit u k b w"
    if "u \<notin> holders \<and> bb_user b = u \<and> limit \<le> bw_now w + deletion_delay \<and> not_due_before limit u k b w" for w
    using that by (auto simp: not_due_before_def still_kept_def)
qed (rule step_keeps_backup)

text \<open>
  C37. As long as no request proves that it knows the user's secret, whatever requests are made, in whatever order, the
  message and the key stay for seven days, or until the first date of deletion that is stored at the start or was
  read by a request that is still on its way (a date cancelled meanwhile included).
\<close>
theorem backup_is_kept_for_a_week:
  assumes "not_due_before limit u k b w" and "limit \<le> bw_now w + deletion_delay" and "u \<notin> holders"
    and "(backup_step hmac nonces holders)\<^sup>*\<^sup>* w w'" and "bw_now w' < limit"
  shows "b \<in> set (bs_blobs (bw_store w')) \<and> (\<exists>k'. find_backup_key u (bw_store w') = Some k' \<and> bk_secret k' = bk_secret k)"
proof -
  have "still_kept limit u k b w'"
    using kept_backup.inv_reachable [OF _ assms(4), of u b limit k] assms(1-3) by (auto simp: not_due_before_def)
  with assms(5) show ?thesis by (auto simp: still_kept_def same_backup_def)
qed

definition no_proof :: backup_proof_dto where
  "no_proof = \<lparr>bp_nonce = None, bp_proof = None\<rparr>"

lemma delete_asked: "(backup_step sample_mac UNIV {})\<^sup>*\<^sup>* (ann_world ann_key [ann_blob])
    (ann_world (ann_key\<lparr>bk_deletionAt := Some deletion_delay\<rparr>) [ann_blob]\<lparr>bw_now := deletion_delay - 1\<rparr>)"
proof -
  have run: "disable sample_mac (Some ann_key) 0 ''ann'' no_proof (ann_backup ann_key [ann_blob])
      = Inr (ann_backup (ann_key\<lparr>bk_deletionAt := Some deletion_delay\<rparr>) [ann_blob], (True, Some deletion_delay))" by code_simp
  have "backup_step sample_mac UNIV {} (ann_world ann_key [ann_blob])
      ((ann_world ann_key [ann_blob])\<lparr>bw_store := ann_backup (ann_key\<lparr>bk_deletionAt := Some deletion_delay\<rparr>) [ann_blob]\<rparr>)"
    by (rule backup_step.disabled [of "''ann''" "Some ann_key" _ _ no_proof _ "(True, Some deletion_delay)"])
      (simp_all add: ann_world_def run, simp add: proves_def ann_backup_def find_backup_key_def live_challenge_def ann_key_def)
  also have "(ann_world ann_key [ann_blob])\<lparr>bw_store := ann_backup (ann_key\<lparr>bk_deletionAt := Some deletion_delay\<rparr>) [ann_blob]\<rparr>
      = ann_world (ann_key\<lparr>bk_deletionAt := Some deletion_delay\<rparr>) [ann_blob]" by (simp add: ann_world_def)
  finally show ?thesis
    by (rule converse_rtranclp_into_rtranclp) (rule r_into_rtranclp, rule backup_step.clock, simp add: ann_world_def deletion_delay_def)
qed

theorem backup_is_kept_for_a_week_witness:
  "ann_blob \<in> set (bs_blobs (bw_store (ann_world (ann_key\<lparr>bk_deletionAt := Some deletion_delay\<rparr>) [ann_blob])))"
  using backup_is_kept_for_a_week [OF _ _ _ delete_asked, of deletion_delay "''ann''" ann_key ann_blob]
  by (simp add: not_due_before_def not_before_def ann_world_def ann_backup_def find_backup_key_def ann_key_def ann_blob_def)

text \<open>
  The delete request reads the row before its update, and schedules the date it read. When a cancellation comes between,
  the update brings the cancelled date back: with that date passed, the next daily run deletes a backup whose
  owner cancelled the deletion, however recent the request is.
\<close>
theorem stale_delete_restores_a_cancelled_date:
  assumes "find_backup_key u s = Some k" and "bk_deletionAt k = None"
    and "bk_deletionAt seen = Some t" and "bp_nonce dto = None" and "bp_proof dto = None" and "t \<le> today"
  shows "\<exists>s'. disable hmac (Some seen) now u dto s = Inr (s', (True, Some t))
    \<and> delete_all u (Some today) s' = Inr (delete_key u (delete_blobs u s'), True)"
  using assms by (simp add: disable_result delete_all_result given_def Let_def)

theorem stale_delete_restores_a_cancelled_date_witness:
  "\<exists>s'. disable sample_mac (Some (ann_key\<lparr>bk_deletionAt := Some 5\<rparr>)) 3 ''ann'' no_proof (ann_backup ann_key [ann_blob]) = Inr (s', (True, Some 5))
    \<and> delete_all ''ann'' (Some 6) s' = Inr (delete_key ''ann'' (delete_blobs ''ann'' s'), True)"
  by (rule stale_delete_restores_a_cancelled_date [of _ _ ann_key]) (simp_all add: ann_backup_def find_backup_key_def ann_key_def no_proof_def)

section \<open>What a proof is good for\<close>

text \<open>A request of the user succeeded over the nonce, or, for \<open>cancelDeletion\<close>, took its challenge.\<close>

definition uses_challenge :: "hmac \<Rightarrow> backup_world \<Rightarrow> user_id \<Rightarrow> string \<Rightarrow> backups \<Rightarrow> bool" where
  "uses_challenge hmac w u nonce s \<longleftrightarrow>
     (\<exists>seen dto. seen \<noteq> None \<and> bp_nonce dto = Some nonce \<and> put_key hmac seen (bw_now w) u dto (bw_store w) = Inr (s, ()))
     \<or> (\<exists>seen dto r. given (Some nonce) \<and> bp_nonce dto = Some nonce \<and> disable hmac seen (bw_now w) u dto (bw_store w) = Inr (s, r))
     \<or> consume_challenge u (base64_decode nonce) (bw_now w) (bw_store w) = Inr (s, True)"

definition spent :: "user_id \<Rightarrow> bytes \<Rightarrow> backups \<Rightarrow> bool" where
  "spent u nonce s \<longleftrightarrow> (\<forall>k. find_backup_key u s = Some k \<longrightarrow> bk_nonce k \<noteq> Some nonce)"

lemma spent_challenge: "spent u (base64_decode nonce) s \<Longrightarrow> \<not> proves hmac now s u action nonce mac bound"
  "spent u (base64_decode nonce) s \<Longrightarrow> consume_challenge u (base64_decode nonce) now s \<noteq> Inr (s', True)"
  by (auto simp: spent_def proves_def consume_result live_challenge_def split: option.splits)

lemma used_is_spent: "uses_challenge hmac w u nonce s \<Longrightarrow> spent u (base64_decode nonce) s"
  by (auto simp: uses_challenge_def spent_def put_key_result disable_result consume_result key_from_def without_challenge_def)

lemma spent_is_not_used: "spent u (base64_decode nonce) (bw_store w) \<Longrightarrow> \<not> uses_challenge hmac w u nonce s"
  using spent_challenge by (auto simp: uses_challenge_def put_key_result disable_result)

lemma step_keeps_spent: "n \<notin> nonces \<and> spent u n (bw_store w) \<Longrightarrow> backup_step hmac nonces holders w w' \<Longrightarrow> n \<notin> nonces \<and> spent u n (bw_store w')"
proof (elim backup_stepE)
  assume spent: "n \<notin> nonces \<and> spent u n (bw_store w)"
  show "n \<notin> nonces \<and> spent u n (bw_store w')" if "w' = w\<lparr>bw_store := s\<rparr>"
    "upload_blobs state_in message_in seen (bw_now w) v items (bw_store w) = Inr (s, r)" for state_in message_in seen v items s r
    using that spent upload_keeps_rows(2) [OF that(2)] by (simp add: spent_def)
qed (auto simp: spent_def put_key_result disable_result issue_challenge_result consume_result cancel_deletion_row_def
    delete_all_result key_from_def without_challenge_def Let_def split: if_splits option.splits)

interpretation spent_nonce: state_machine "\<lambda>w. n \<notin> nonces \<and> spent u n (bw_store w)" "backup_step hmac nonces holders"
  "\<lambda>w. n \<notin> nonces \<and> spent u n (bw_store w)"
  by unfold_locales (assumption, rule step_keeps_spent)

text \<open>
  C38. A challenge is good for one request: once a replacement or a deletion succeeded over it, or a cancellation took it, no
  later request of any kind succeeds over it, unless the random source gives the same nonce again.
\<close>
theorem a_challenge_works_once:
  assumes "uses_challenge hmac w u nonce s" and "(backup_step hmac nonces holders)\<^sup>*\<^sup>* (w\<lparr>bw_store := s\<rparr>) w'"
    and "base64_decode nonce \<notin> nonces"
  shows "\<not> uses_challenge hmac w' u nonce s'"
  using spent_nonce.inv_reachable [OF _ assms(2), of "base64_decode nonce" u] used_is_spent [OF assms(1)] assms(3)
  by (simp add: spent_is_not_used)

definition ann_challenged :: backup_key where
  "ann_challenged = ann_key\<lparr>bk_nonce := Some [0, 0, 0], bk_nonceExpires := Some 9\<rparr>"

theorem a_challenge_works_once_witness:
  "\<forall>s. \<not> uses_challenge sample_mac (ann_world ann_key [ann_blob]) ''ann'' ''AAAA'' s"
proof
  fix s
  have "consume_challenge ''ann'' (base64_decode ''AAAA'') 0 (ann_backup ann_challenged [ann_blob]) = Inr (ann_backup ann_key [ann_blob], True)"
    by code_simp
  then have "uses_challenge sample_mac (ann_world ann_challenged [ann_blob]) ''ann'' ''AAAA'' (ann_backup ann_key [ann_blob])"
    by (simp add: uses_challenge_def ann_world_def)
  from a_challenge_works_once [OF this rtranclp.rtrancl_refl, of "{}"]
  show "\<not> uses_challenge sample_mac (ann_world ann_key [ann_blob]) ''ann'' ''AAAA'' s" by (simp add: ann_world_def)
qed

text \<open>
  A wrong proof over a live challenge is refused by all three requests. Only the cancellation takes the challenge with
  it: the other two run in a transaction that the refusal rolls back, so the rows, the challenge among them,
  are as before and it may be guessed at again.
\<close>
theorem only_cancelling_burns_the_challenge:
  assumes "find_backup_key u s = Some k" and "bk_secret k = Some secret" and "bk_secret seen = Some secret"
    and "live_challenge (base64_decode nonce) now k" and "nonce \<noteq> []" and "mac \<noteq> []" and "key_fits dto" and "pk_replace dto = Some True"
    and "bp_nonce dto = Some nonce" and "bp_proof dto = Some mac"
    and "\<And>action bound. base64_decode mac \<noteq> compute_backup_proof hmac secret action u nonce bound"
    and "assert_can Manage now u ls = (ls', Inr ())" and "assert_can Destroy now u ls = (ls'', Inr ())"
  shows "serve_backup Manage now u (put_key hmac (Some seen) now u dto) (ls, s) = ((ls', s), Inl (Forbidden (Backup Proof_does_not_match)))
    \<and> serve_backup Destroy now u (disable hmac (Some seen) now u (backup_proof_dto.truncate dto)) (ls, s)
      = ((ls'', s), Inl (Forbidden (Backup Proof_does_not_match)))
    \<and> cancel_deletion hmac (Some seen) between now u (backup_proof_dto.truncate dto) s
      = (change_key u without_challenge s, Inl (Forbidden (Backup Proof_does_not_match)))"
proof -
  have "consume_challenge u (base64_decode nonce) now s = Inr (change_key u without_challenge s, True)"
    using assms by (simp add: consume_result)
  moreover have "compute_backup_proof hmac secret action u nonce bound \<noteq> base64_decode mac" for action bound using assms(11) [of action bound] by auto
  moreover from calculation assms(1,2) have "verify_proof_and_mutate hmac u action nonce mac bound now mutate s = Inl (Forbidden (Backup Proof_does_not_match))"
    for action bound mutate by (simp add: verify_proof_and_mutate_def tx_bind_def tx_run tx_require_run proof_matches_def)
  moreover have "decode_bounded (pk_keyCheck dto) min_key_check_bytes max_key_check_bytes = Inr (base64_decode (pk_keyCheck dto))"
    "decode_bounded (pk_replaceSecret dto) min_secret_bytes max_secret_bytes = Inr (base64_decode (pk_replaceSecret dto))"
    using assms by (simp_all add: decode_bounded_result key_fits_def)
  ultimately show ?thesis using assms
    by (simp add: serve_backup_def put_key_def disable_def cancel_deletion_def assert_proof_def given_def require_def tx_bind_def tx_require_run tx_result_def tx_run
        proof_matches_def backup_proof_dto.truncate_def)
qed

definition ann_guesses :: put_backup_key_dto where
  "ann_guesses = \<lparr>bp_nonce = Some ''AAAA'', bp_proof = Some ''AAAA'', pk_keyCheck = sixteen, pk_replaceSecret = sixteen, pk_replace = Some True\<rparr>"

definition fresh_limits :: backup_limits where
  "fresh_limits = \<lparr>bl_upload = new_limiter, bl_download = new_limiter, bl_manage = new_limiter, bl_destroy = new_limiter\<rparr>"

theorem only_cancelling_burns_the_challenge_witness:
  "\<exists>ls. serve_backup Manage 0 ''ann'' (put_key sample_mac (Some ann_key) 0 ''ann'' ann_guesses) (fresh_limits, ann_backup ann_challenged [])
    = ((ls, ann_backup ann_challenged []), Inl (Forbidden (Backup Proof_does_not_match)))"
proof -
  have "length (base64_decode ''AAAA'') < length (compute_backup_proof sample_mac (replicate 16 0) action ''ann'' ''AAAA'' bound)" for action bound
    by (simp add: compute_backup_proof_def sample_mac_def base64_decode_def)
  then have wrong: "base64_decode ''AAAA'' \<noteq> compute_backup_proof sample_mac (replicate 16 0) action ''ann'' ''AAAA'' bound" for action bound
    by (metis less_irrefl)
  have "snd (assert_can Manage 0 ''ann'' fresh_limits) = Inr ()" "snd (assert_can Destroy 0 ''ann'' fresh_limits) = Inr ()" by code_simp+
  then obtain ls ls' where limits: "assert_can Manage 0 ''ann'' fresh_limits = (ls, Inr ())" "assert_can Destroy 0 ''ann'' fresh_limits = (ls', Inr ())"
    by (metis prod.collapse)
  have live: "live_challenge (base64_decode ''AAAA'') 0 ann_challenged" "key_fits ann_guesses" by code_simp+
  have keys: "find_backup_key ''ann'' (ann_backup ann_challenged []) = Some ann_challenged" "bk_secret ann_challenged = Some (replicate 16 0)"
    "bk_secret ann_key = Some (replicate 16 0)" by (simp_all add: find_backup_key_def ann_backup_def ann_challenged_def ann_key_def)
  have dto: "pk_replace ann_guesses = Some True" "bp_nonce ann_guesses = Some ''AAAA''" "bp_proof ann_guesses = Some ''AAAA''"
    by (simp_all add: ann_guesses_def)
  show ?thesis
    using only_cancelling_burns_the_challenge [OF keys live(1) _ _ live(2) dto wrong limits] by auto
qed

section \<open>Uploads\<close>

lemma last_of_each_facts:
  shows "bd_message ` set (last_of_each items) = bd_message ` set items" and "length (last_of_each items) \<le> length items"
proof -
  let ?ps = "map (\<lambda>i. (bd_message i, i)) items"
  have fits: "fst p = bd_message (snd p)" if "p \<in> set (js_map ?ps)" for p using that set_js_map_subset [of ?ps] by auto
  have "bd_message ` snd ` set (js_map ?ps) = fst ` set (js_map ?ps)"
    unfolding image_image by (rule image_cong) (simp_all add: fits)
  then show "bd_message ` set (last_of_each items) = bd_message ` set items" by (simp add: last_of_each_def image_image)
  have "distinct (js_map ?ps)" using distinct_js_map distinct_map by blast
  then have "length (js_map ?ps) = card (set (js_map ?ps))" by (simp add: distinct_card)
  also have "\<dots> \<le> card (set ?ps)" by (rule card_mono [OF finite_set set_js_map_subset])
  also have "\<dots> \<le> length ?ps" by (rule card_length)
  finally show "length (last_of_each items) \<le> length items" by (simp add: last_of_each_def)
qed

lemma owned: "assert_owns_messages state_in message_in bs = Inr () \<longleftrightarrow>
    (\<forall>b \<in> set bs. backup_eligible (state_in (nb_conversation b)) \<and> message_in (nb_message b) = Some (nb_conversation b))"
  by (auto simp: assert_owns_messages_def bind_result_Inr_iff)

text \<open>
  C39. An upload stores exactly what is new: rows at the end, one for each message that had none, with the
  ciphertext sent last for it, in a conversation where the user can read and of which the message is; afterwards
  every message sent has a row, and the answer counts the rows stored and the items that were not.
\<close>
theorem upload_stores_what_is_new:
  assumes "upload_blobs state_in message_in seen now u items s = Inr (s', (fresh, skipped))"
  shows "\<exists>rows. bs_blobs s' = bs_blobs s @ rows \<and> length rows = fresh \<and> fresh + skipped = length items \<and> bs_keys s' = bs_keys s
    \<and> (\<forall>r \<in> set rows. bb_user r = u \<and> bb_createdAt r = now \<and> \<not> has_blob u (bb_message r) s \<and> backup_eligible (state_in (bb_conversation r))
        \<and> message_in (bb_message r) = Some (bb_conversation r)
        \<and> (\<exists>i \<in> set (last_of_each items). bd_message i = bb_message r \<and> base64_decode (bd_ciphertext i) = bb_ciphertext r))
    \<and> (\<forall>i \<in> set items. has_blob u (bd_message i) s')"
proof -
  obtain bs where decoded: "decode_blobs (last_of_each items) = Inr bs" and owns: "assert_owns_messages state_in message_in bs = Inr ()"
    and run: "store_within_quota now u bs user_quota_bytes s = Inr (s', Stored fresh)" and skipped: "skipped = length items - fresh"
    using assms by (auto simp: upload_result)
  let ?new = "unstored u s bs"
  have some: "\<forall>b \<in> set ?new. 0 < length (nb_ciphertext b)" using decoded by (simp add: decode_blobs_result unstored_def)
  have "nb_message ` set bs = bd_message ` set items" and len: "length ?new \<le> length items"
    using decoded last_of_each_facts [of items] length_filter_le [of "\<lambda>b. \<not> has_blob u (nb_message b) s" bs]
    by (auto simp: decode_blobs_result unstored_def image_image simp del: length_filter_map intro: order_trans)
  then have sent: "has_blob u (bd_message i) s \<or> bd_message i \<in> nb_message ` set ?new" if "i \<in> set items" for i
    using that by (force simp: unstored_def)
  have "s' = fold (insert_blob now u) ?new s \<and> fresh = length (bs_blobs s') - length (bs_blobs s)"
    using run some by (auto simp: store_within_quota_result total_bytes_def split: if_splits)
  moreover from inserted_rows [of now u ?new s] obtain rows where rows: "bs_blobs (fold (insert_blob now u) ?new s) = bs_blobs s @ rows"
    "\<forall>r \<in> set rows. stored_row now u ?new r" "length rows \<le> length ?new" "bs_keys (fold (insert_blob now u) ?new s) = bs_keys s" by blast
  ultimately have s': "s' = fold (insert_blob now u) ?new s" and n: "length rows = fresh" by auto
  have "bb_user r = u \<and> bb_createdAt r = now \<and> \<not> has_blob u (bb_message r) s \<and> backup_eligible (state_in (bb_conversation r))
      \<and> message_in (bb_message r) = Some (bb_conversation r)
      \<and> (\<exists>i \<in> set (last_of_each items). bd_message i = bb_message r \<and> base64_decode (bd_ciphertext i) = bb_ciphertext r)" if "r \<in> set rows" for r
    using rows(2) that owns decoded by (fastforce simp: stored_row_def unstored_def owned decode_blobs_result)
  moreover have "has_blob u (bd_message i) s'" if "i \<in> set items" for i using sent [OF that] by (auto simp: s' has_inserted)
  ultimately show ?thesis using rows n len by (intro exI [of _ rows]) (auto simp: skipped s')
qed

theorem upload_stores_what_is_new_witness:
  "has_blob ''ann'' ''m'' (ann_backup ann_key [ann_blob])"
  using upload_stores_what_is_new [OF ann_uploaded] by (auto simp: ann_item_def)

section \<open>Restoring\<close>

text \<open>Pages of the oldest rows are pages of the newest with every key negated.\<close>

definition reversed_key :: "time \<times> nat \<Rightarrow> int \<times> int" where
  "reversed_key k = (- fst k, - int (snd k))"

definition user_blobs :: "user_id \<Rightarrow> backups \<Rightarrow> backup_blob list" where
  "user_blobs u s = filter (\<lambda>b. bb_user b = u) (bs_blobs s)"

definition blob_page :: "user_id \<Rightarrow> nat \<Rightarrow> (int \<times> int) option \<Rightarrow> backups \<Rightarrow> backup_blob list \<times> (int \<times> int) option" where
  "blob_page u n c s = keyset_page (reversed_key \<circ> blob_key) n (take (n + 1) (newest_first (reversed_key \<circ> blob_key)
     (filter (\<lambda>b. below c (reversed_key (blob_key b))) (user_blobs u s))))"

lemma reversed_less: "reversed_key j < reversed_key k \<longleftrightarrow> k < j"
  by (cases j; cases k) (auto simp: reversed_key_def less_prod_def')

lemma reversed_inj: "inj reversed_key"
  by (auto simp: inj_def reversed_key_def)

lemma blob_keys: "backups_ok s \<Longrightarrow> distinct (map (reversed_key \<circ> blob_key) (user_blobs u s))"
  by (auto simp: backups_ok_def user_blobs_def distinct_map inj_on_def blob_key_def reversed_key_def)

lemma oldest_first:
  assumes "distinct (map (reversed_key \<circ> blob_key) bs)"
  shows "newest_first (reversed_key \<circ> blob_key) bs = sort_key blob_key bs"
proof (rule falling_lists_equal [OF newest_first_falls [OF assms]])
  have "distinct (map blob_key bs)" using assms by (auto simp: distinct_map inj_on_def)
  then have "sorted_wrt (<) (map blob_key (sort_key blob_key bs))" by (simp add: strict_sorted_iff distinct_map)
  then show "sorted_wrt (\<lambda>a b. (reversed_key \<circ> blob_key) b < (reversed_key \<circ> blob_key) a) (sort_key blob_key bs)"
    by (simp add: sorted_wrt_map reversed_less)
qed simp

lemma list_blobs_page:
  assumes "backups_ok s" and "0 < n"
  shows "fst (list_blobs u (Some n) c s) = map blob_item (fst (blob_page u n (map_option reversed_key c) s))"
    and "map_option reversed_key (snd (list_blobs u (Some n) c s)) = snd (blob_page u n (map_option reversed_key c) s)"
proof -
  have order: "reversed_key (blob_key b) < reversed_key (t, i) \<longleftrightarrow> bb_createdAt b > t \<or> bb_createdAt b = t \<and> bb_id b > i" for b t i
    unfolding reversed_less blob_key_def by (auto simp: less_prod_simp)
  have same: "filter (\<lambda>b. below (map_option reversed_key c) (reversed_key (blob_key b))) (user_blobs u s)
      = filter (\<lambda>b. bb_user b = u \<and> (case c of None \<Rightarrow> True | Some (t, i) \<Rightarrow> bb_createdAt b > t \<or> bb_createdAt b = t \<and> bb_id b > i)) (bs_blobs s)"
    by (cases c) (auto simp: user_blobs_def below_def order intro!: filter_cong)
  then have "find_page u c (n + 1) s = take (n + 1) (newest_first (reversed_key \<circ> blob_key)
      (filter (\<lambda>b. below (map_option reversed_key c) (reversed_key (blob_key b))) (user_blobs u s)))"
    unfolding oldest_first [OF distinct_keys_filter [OF blob_keys [OF assms(1)]]] by (simp only: same find_page_def)
  then show "fst (list_blobs u (Some n) c s) = map blob_item (fst (blob_page u n (map_option reversed_key c) s))"
    "map_option reversed_key (snd (list_blobs u (Some n) c s)) = snd (blob_page u n (map_option reversed_key c) s)"
    by (auto simp: list_blobs_def blob_page_def keyset_page_def Let_def split: list.splits)
qed

interpretation blob_pages: paging "blob_page u n" "user_blobs u" "reversed_key \<circ> blob_key" "\<lambda>s. backups_ok s \<and> 0 < n"
proof
  fix s c r k
  assume ok: "backups_ok s \<and> 0 < n"
  note page = keyset_page_contract [OF distinct_keys_filter [OF blob_keys [of s u]] _ blob_page_def [of u n c s]]
  show "r \<in> set (fst (blob_page u n c s)) \<Longrightarrow> r \<in> set (user_blobs u s) \<and> below c ((reversed_key \<circ> blob_key) r)" using page(1) ok by auto
  show "sorted_wrt (\<lambda>a b. (reversed_key \<circ> blob_key) b < (reversed_key \<circ> blob_key) a) (fst (blob_page u n c s))" using page(2) ok by auto
  show "snd (blob_page u n c s) = Some k \<Longrightarrow> fst (blob_page u n c s) \<noteq> [] \<and> k = (reversed_key \<circ> blob_key) (last (fst (blob_page u n c s)))"
    using page(3) ok by auto
  show "r \<in> set (user_blobs u s) \<Longrightarrow> below c ((reversed_key \<circ> blob_key) r)
      \<Longrightarrow> r \<in> set (fst (blob_page u n c s)) \<or> (\<exists>k. snd (blob_page u n c s) = Some k \<and> (reversed_key \<circ> blob_key) r < k)"
    using page(4) ok by auto
  show "distinct (map (reversed_key \<circ> blob_key) (user_blobs u s))" using ok by (simp add: blob_keys)
qed

lemma list_walk:
  "\<forall>s \<in> set ss. backups_ok s \<Longrightarrow> 0 < n \<Longrightarrow> walk (list_blobs u (Some n)) c ss = map blob_item (walk (blob_page u n) (map_option reversed_key c) ss)
    \<and> walk_ends (list_blobs u (Some n)) c ss = walk_ends (blob_page u n) (map_option reversed_key c) ss"
proof (induction ss arbitrary: c)
  case (Cons s ss)
  have s: "backups_ok s" using Cons.prems by simp
  show ?case using Cons list_blobs_page [OF s Cons.prems(2), of u c, symmetric] by (cases "snd (list_blobs u (Some n) c s)") auto
qed simp

text \<open>
  C40. A restore gets everything back: asking for one page after another, of whatever size, lists each stored message of the
  user exactly once, in the order of their time and id, with a ciphertext that decodes to the stored one.
\<close>
theorem restore_lists_every_message:
  assumes "backups_ok s" and "0 < n" and "items = walk (list_blobs u (Some n)) None (replicate (Suc (length (user_blobs u s))) s)"
  shows "walk_ends (list_blobs u (Some n)) None (replicate (Suc (length (user_blobs u s))) s)
    \<and> map (\<lambda>i. (bd_conversation i, bd_message i, base64_decode (bd_ciphertext i))) items
      = map (\<lambda>b. (bb_conversation b, bb_message b, bb_ciphertext b)) (sort_key blob_key (user_blobs u s))
    \<and> distinct (map bd_message items)"
proof -
  let ?pages = "replicate (Suc (length (user_blobs u s))) s"
  have ok: "\<forall>t \<in> set ?pages. backups_ok t" using assms(1) by (simp add: in_set_replicate)
  have walk: "walk_ends (blob_page u n) None ?pages \<and> walk (blob_page u n) None ?pages = sort_key blob_key (user_blobs u s)"
    using blob_pages.walk_exact [of s n ?pages u] assms(1,2) oldest_first [OF blob_keys [OF assms(1)]] by simp
  then have items: "items = map blob_item (sort_key blob_key (user_blobs u s))"
    using list_walk [OF ok assms(2), of u None] assms(3) by simp
  have "distinct (map bb_message (user_blobs u s))" using assms(1) by (auto simp: backups_ok_def user_blobs_def distinct_map inj_on_def)
  then have "distinct (map bb_message (sort_key blob_key (user_blobs u s)))" by (simp add: distinct_map)
  with walk items list_walk [OF ok assms(2), of u None] show ?thesis
    by (simp add: blob_item_def comp_def base64_roundtrip)
qed

theorem restore_lists_every_message_witness:
  "map (\<lambda>i. (bd_conversation i, bd_message i, base64_decode (bd_ciphertext i)))
     (walk (list_blobs ''ann'' (Some 1)) None (replicate 2 (ann_backup ann_key [ann_blob]))) = [(''c'', ''m'', [0, 0, 0])]"
proof -
  have "backups_ok (bw_store (ann_world ann_key [ann_blob]))"
    by (rule backup_machine.inv_reachable [OF _ ann_stored [of UNIV UNIV]]) (simp add: at_start_def)
  then have "backups_ok (ann_backup ann_key [ann_blob])" by (simp add: ann_world_def)
  from restore_lists_every_message [OF this _ refl, of 1 "''ann''"] show ?thesis
    by (simp add: user_blobs_def ann_backup_def ann_blob_def numeral_2_eq_2)
qed

end
