(* ===== verification/Spec2Isabelle.thy ===== *)
theory Spec2Isabelle
  imports Mls_Work_Properties Group_Properties Limiter_Properties Economy_Properties Outbox_Properties Case_Queue Backup_Properties
begin

text \<open>
  Gachahub is a social platform; this development verifies the parts of its backend
  (\<open>src/backend/src\<close>) with the most state of their own: who is in an end-to-end encrypted
  conversation, the economy (Reputation, Shards, Prisms), moderation (restrictions of content, findings,
  sanctions, appeals, and the desk where reports become cases), the outbox of domain events, the
  encrypted backup of a user's messages, and the rate limiters.

  Conversations. The server cannot read an MLS Commit: it orders Commits, checks the membership
  change each one declares, and keeps the authorised membership (ChatParticipant) and the
  cryptographic one (MlsGroupMember) in step. A request of the app (\<open>chat-group.service.ts\<close>,
  \<open>chat-inbox.service.ts\<close>) changes participants through \<open>chat-membership.service.ts\<close>, which plans each
  change with the state machine and writes it under the conversation's row lock. A change that needs
  cryptography leaves a participant \<open>JOINING\<close> or \<open>LEAVING\<close>. A member's device asks
  \<open>mls-membership-work.service.ts\<close> what to do under a lease, builds a Commit, and submits it to
  \<open>mls-handshakes.service.ts\<close>, which checks framing, declaration and rules and appends it to the log by
  a compare-and-set on the epoch; the accepted Commit completes the waiting participants. A device may
  also add itself by an external Commit, and an hourly sweep looks for states that should never be.
  Some requests write a participant without the row lock and around the state machine: archiving, hiding
  a chat, and blocking the other side of a direct chat. They are steps of the system too, and may land
  between a membership request's reads and its writes (\<open>change_beside\<close>).

  Economy. Likes and comments pay the author through wallets, each a row of balances with a ledger
  of every change behind it, under daily caps and with an idempotency key per award. Hiding content
  takes its awards back and showing it again returns them; a nightly refresh recounts the ranks.

  Moderation. A moderator decides on a case (\<open>enforcement.service.ts\<close>): hides or restores the post or
  comment, records a finding, restricts the account for some days, adjusts, revokes or reverses; the
  account may appeal, and an appeal that is accepted may undo all of it. Authors change the same posts
  and comments (\<open>posts\<close>, \<open>comments\<close>), a trigger of the database guards what is restricted, hiding calls
  the economy, counters of published posts follow every change, and every request of a member passes
  \<open>sanction-access.service.ts\<close>. A sweep marks the sanctions whose term is over.

  Case desk. Members report posts and comments (\<open>reports\<close>); reports of one target gather in one open case, which
  moderators claim, assign, resolve or dismiss from a queue, and which leaves a moderator whose rights are
  removed (\<open>game-moderators\<close>, \<open>users\<close>). Several statements of one report run without a lock and are
  retried when they collide with another.

  Outbox. A transaction leaves its events in a table; every second a dispatcher claims batches of
  them, sends each to the broker and marks it, with retries and recovery of abandoned claims.

  Chat backup. A user keeps ciphertexts of their messages under a key that only a secret opens
  (\<open>chat-backup\<close>): replacing the key or deleting at once takes a proof over a challenge, deleting without
  one takes effect after seven days, and a restore reads the messages page by page.

  Theories, in the order of the code's layers:
    \<^item> Prelude: names of the types, errors, results, JavaScript's \<open>Map\<close> and \<open>Set\<close> and \<open>sort\<close>, the locales
      \<open>state_machine\<close> and \<open>growing_machine\<close> that the systems' invariants are proved in.
    \<^item> Base64: \<open>Buffer\<close>'s base64 and its round trip.
    \<^item> Rate_Limiter, Limiter_Properties: \<open>common/utils\<close>, the sliding-window limiter with lockout and
      eviction, the limiters the backend configures with it, and the cap over every window.
    \<^item> Membership_Machine, Membership_Plan, Membership_Service: \<open>chat/membership\<close>, with the role and
      state writes of \<open>chat.repository.ts\<close>.
    \<^item> Chat_State, Group_Roster: the rows of one conversation and the roster contract (locale
      \<open>group_roster\<close>, interpreted on the repository's model).
    \<^item> Conversation_Invariant: \<open>conv_ok\<close>, kept by every membership operation.
    \<^item> Group_Service: the guards of \<open>chat-access.service.ts\<close> and the requests over them.
    \<^item> Mls_Framing, Mls_Rules, Mls_Commit, Mls_Service, Mls_Work: \<open>mls-handshakes\<close>.
    \<^item> Mls_System: all operations as one step relation, and that every step keeps \<open>conv_ok\<close>.
    \<^item> Transactions: a database transaction as a state-and-error function, and the triples the
      economy's invariants are proved with.
    \<^item> Economy_Rules: \<open>economy/economy-rules.ts\<close>. Economy_Ledger: \<open>economy/economy.service.ts\<close>.
      Economy_Invariant shows that balances are the sums of their ledger rows, Economy_Caps that ranks
      and counters stay within their rules, Economy_System that every step of every operation keeps
      both, Economy_Books that the rows a day pays are what its counters say, Economy_Runs which
      operations cannot fail, Economy_Undo what hiding and showing conserve.
    \<^item> Outbox: \<open>outbox-dispatcher.service.ts\<close> and \<open>outbox.repository.ts\<close>.
    \<^item> Moderation_State: the tables, constraints and triggers, the guards of a request, and the writes the
      services share. Moderation_Service: every request of \<open>moderation-enforcement\<close>, and what authors do.
      Moderation_Invariant shows what every request keeps of content and counters, Moderation_Sanctions
      of findings, sanctions and appeals; Moderation_System is the step relation, with the time of each
      step. Moderation_Properties, Sanction_Properties, Appeal_Properties: the properties.
    \<^item> Case_Desk: reports, cases, staff and what each may do. Case_Desk_Invariant shows what every
      operation keeps, Case_System is the step relation with racing attempts and overtaken reads.
      Paging: a keyset walk over pages (locale \<open>paging\<close>), used by Case_Queue for the queue of
      cases and its dashboard. Case_Properties: the properties.
    \<^item> Backup: the key, the challenge, the messages and the requests of \<open>chat-backup\<close>. Backup_System: the requests
      over stale reads, the clock and the daily run as one step relation. Backup_Properties: the properties.
    \<^item> Chat_Samples and the other theories named Properties: concrete states and the properties.

  State and errors. A conversation, the economy, moderation (with the economy in it), the desk (with moderation in it),
  the outbox and the backups are each the record of their rows; an
  operation that runs in one transaction is a function from the rows to new rows or an HTTP error, in
  which case the database rolls back. A request that reads before its transaction takes the rows it
  saw as a second argument, so a stale read is part of the model. A request of moderation reads the clock
  once; rows that the database numbers have the number of their insertion. A unique index or CHECK that refuses
  a write is a \<open>ServerError\<close>. In-memory limiters keep what a failed request spent, so they are
  returned beside the result. The dispatcher's loop is bounded by the code's own count (50 batches of
  20); every other loop runs over a list, so no fuel is needed.

  Not modelled: the contents of messages (ciphertext to the server), the wire format and the
  signature checks of the package ts-mls (fields of the record \<open>mls_library\<close>, an argument), SHA-256
  and HMAC (arguments), the order of \<open>localeCompare\<close> (an argument), the 32-bit bound of the balance
  columns, the JSON metadata of ledger rows, the payloads of events, events published to clients (also
  those of the analysis scheduler, whose classifier profile is left out), follows and blocks (arguments),
  the risk score of an account (floating point), the pages that only read and what a listing is enriched
  with, the text form of cursors, the pages of the list of appeals, naming a new moderator by e-mail, the
  JSON states of moderation audits, the registration of devices and key packages, erasing an account, and
  the rest of the platform: feed, media, cosmetics, evaluation of the moderation policy, frontend. To
  moderation alone (Moderation_System) the desk is a step that may change any case; Case_Desk says what it does.
\<close>

end
